(* ===== verification/Prelude.thy ===== *)
theory Prelude
  imports Complex_Main "HOL-Library.Word" "HOL-Library.AList" "HOL-Library.Multiset"
begin

text \<open>
  What the components of the observer share: the machine integers of the source with
  Rust's saturating operations on them, the standard library's hash map, and the
  simplification collections the component proofs use.

  \<^item> \<^verbatim>\<open>u8\<close>, \<^verbatim>\<open>u16\<close>, \<^verbatim>\<open>u32\<close> and \<^verbatim>\<open>u64\<close> are words of their width. \<^verbatim>\<open>usize\<close> is only ever a count of
    things held in memory and is a \<open>nat\<close>.
  \<^item> \<^verbatim>\<open>HashMap\<close> is an association list with distinct keys: \<open>map_of\<close> is \<^verbatim>\<open>get\<close>,
    \<open>AList.update\<close> is \<^verbatim>\<open>insert\<close>, \<open>AList.delete\<close> is \<^verbatim>\<open>remove\<close>, \<open>AList.map_entry\<close> is an update
    through \<^verbatim>\<open>get_mut\<close> and \<open>filter\<close> is \<^verbatim>\<open>retain\<close>. The order in which Rust's iterator visits
    the entries is unspecified, so every operation of the source that iterates over a hash map takes
    that order as an argument: a function that permutes the list, \<open>hash_order\<close>.
\<close>

named_theorems unat_simps "reading saturating machine arithmetic as arithmetic on nat"
named_theorems hm_simps "hash maps as association lists"

section \<open>Loops over lists\<close>

text \<open>A loop that folds over a list keeps what each of its rounds keeps.\<close>

lemma foldl_invariant:
  "P s \<Longrightarrow> (\<And>s x. x \<in> set xs \<Longrightarrow> P s \<Longrightarrow> P (f s x)) \<Longrightarrow> P (foldl f s xs)"
  by (induction xs arbitrary: s) auto

section \<open>Machine integers\<close>

type_synonym u8 = "8 word"
type_synonym u16 = "16 word"
type_synonym u32 = "32 word"
type_synonym u64 = "64 word"

text \<open>The largest value of a width, as a natural number.\<close>

abbreviation word_max :: "'a::len itself \<Rightarrow> nat" where
  "word_max _ \<equiv> 2 ^ LENGTH('a) - 1"

definition sat_add :: "'a::len word \<Rightarrow> 'a word \<Rightarrow> 'a word" where
  "sat_add a b = (if unat a + unat b < 2 ^ LENGTH('a) then a + b else - 1)"

definition sat_sub :: "'a::len word \<Rightarrow> 'a word \<Rightarrow> 'a word" where
  "sat_sub a b = (if b \<le> a then a - b else 0)"

definition sat_mul :: "'a::len word \<Rightarrow> 'a word \<Rightarrow> 'a word" where
  "sat_mul a b = (if unat a * unat b < 2 ^ LENGTH('a) then a * b else - 1)"

definition sat_pow :: "'a::len word \<Rightarrow> nat \<Rightarrow> 'a word" where
  "sat_pow a n = (if unat a ^ n < 2 ^ LENGTH('a) then a ^ n else - 1)"

lemma unat_minus_one_word_max: "unat (- 1 :: 'a::len word) = word_max TYPE('a)"
  by (simp add: unsigned_minus_1_eq_mask mask_eq_exp_minus_1)

lemma min_word_max:
  "min x (word_max TYPE('a::len)) = (if x < 2 ^ LENGTH('a) then x else word_max TYPE('a))"
  by (simp add: min_def) linarith

lemma unat_sat_add [unat_simps]:
  "unat (sat_add a b :: 'a::len word) = min (unat a + unat b) (word_max TYPE('a))"
  by (simp add: sat_add_def min_word_max unat_minus_one_word_max unat_word_ariths)

lemma unat_sat_sub [unat_simps]: "unat (sat_sub a b :: 'a::len word) = unat a - unat b"
  by (auto simp: sat_sub_def unat_sub word_le_nat_alt)

lemma unat_sat_mul [unat_simps]:
  "unat (sat_mul a b :: 'a::len word) = min (unat a * unat b) (word_max TYPE('a))"
  by (simp add: sat_mul_def min_word_max unat_minus_one_word_max unat_word_ariths)

lemma unat_power_lower: "unat (a :: 'a::len word) ^ n < 2 ^ LENGTH('a) \<Longrightarrow> unat (a ^ n) = unat a ^ n"
proof (induction n)
  case (Suc n)
  show ?case
  proof (cases "unat a = 0")
    case False
    then have "unat a ^ n \<le> unat a ^ Suc n" by (intro power_increasing) auto
    then have "unat a ^ n < 2 ^ LENGTH('a)" using Suc.prems by linarith
    with Suc.IH Suc.prems show ?thesis by (simp add: unat_word_ariths)
  qed (use Suc in \<open>simp add: unat_word_ariths\<close>)
qed simp

lemma unat_sat_pow [unat_simps]:
  "unat (sat_pow a n :: 'a::len word) = min (unat a ^ n) (word_max TYPE('a))"
  by (simp add: sat_pow_def min_word_max unat_minus_one_word_max unat_power_lower)

lemma unat_min [unat_simps]: "unat (min a b) = min (unat a) (unat b)"
  by (auto simp: min_def word_le_nat_alt)

lemma unat_le_word_max: "unat (a :: 'a::len word) \<le> word_max TYPE('a)"
  using unsigned_less [of a, where ?'a = nat] by linarith

lemmas word_order_nat = word_le_nat_alt word_less_nat_alt

section \<open>Hash maps\<close>

type_synonym ('k, 'v) hashmap = "('k \<times> 'v) list"

text \<open>Each key once: what makes an association list a map.\<close>

definition hm_ok :: "('k, 'v) hashmap \<Rightarrow> bool" where
  "hm_ok m \<longleftrightarrow> distinct (map fst m)"

definition contains_key :: "('k, 'v) hashmap \<Rightarrow> 'k \<Rightarrow> bool" where
  "contains_key m k \<longleftrightarrow> map_of m k \<noteq> None"

text \<open>An iteration order visits every entry exactly once.\<close>

definition hash_order :: "('a list \<Rightarrow> 'a list) \<Rightarrow> bool" where
  "hash_order ho \<longleftrightarrow> (\<forall>xs. mset (ho xs) = mset xs)"

lemma hash_order_set [simp]: "hash_order ho \<Longrightarrow> set (ho xs) = set xs"
  unfolding hash_order_def by (metis mset_eq_setD)

lemma hash_order_length [simp]: "hash_order ho \<Longrightarrow> length (ho xs) = length xs"
  unfolding hash_order_def by (metis mset_eq_length)

lemma hash_order_distinct_map:
  "hash_order ho \<Longrightarrow> distinct (map f (ho xs)) = distinct (map f xs)"
  unfolding hash_order_def by (metis mset_eq_imp_distinct_iff mset_map)

lemma hash_order_hm_ok [simp]: "hash_order ho \<Longrightarrow> hm_ok (ho m) = hm_ok m"
  by (simp add: hm_ok_def hash_order_distinct_map)

lemma hash_order_map_of: "hash_order ho \<Longrightarrow> hm_ok m \<Longrightarrow> map_of (ho m) = map_of m"
  by (intro map_of_inject_set [THEN iffD2]) (auto simp: hash_order_distinct_map hm_ok_def)

lemma hash_order_id [simp]: "hash_order id" and hash_order_rev [simp]: "hash_order rev"
  by (simp_all add: hash_order_def)

lemma hm_ok_Nil [simp]: "hm_ok []"
  by (simp add: hm_ok_def)

lemma hm_ok_insert [simp, intro]: "hm_ok m \<Longrightarrow> hm_ok (AList.update k v m)"
  by (simp add: hm_ok_def distinct_update)

lemma hm_ok_remove [simp, intro]: "hm_ok m \<Longrightarrow> hm_ok (AList.delete k m)"
  by (simp add: hm_ok_def distinct_delete)

lemma hm_ok_map_entry [simp]: "hm_ok (AList.map_entry k f m) = hm_ok m"
  by (induction m) (auto simp: hm_ok_def dom_map_entry)

lemma hm_ok_retain [simp, intro]: "hm_ok m \<Longrightarrow> hm_ok (filter P m)"
  by (simp add: hm_ok_def distinct_map_filter)

lemma keys_map_entry [hm_simps]: "map fst (AList.map_entry k f m) = map fst m"
  by (induction m) auto

lemma length_map_entry [simp]: "length (AList.map_entry k f m) = length m"
  by (induction m) auto

lemma hm_get_insert [hm_simps]: "map_of (AList.update k v m) = (map_of m)(k \<mapsto> v)"
  by (rule update_conv')

lemma hm_get_remove [hm_simps]: "map_of (AList.delete k m) = (map_of m)(k := None)"
  by (rule delete_conv')

lemma hm_get_map_entry [hm_simps]:
  "map_of (AList.map_entry k f m) = (map_of m)(k := map_option f (map_of m k))"
  by (simp add: map_of_map_entry fun_eq_iff split: option.splits)

lemma hm_get_retain [hm_simps]:
  "hm_ok m \<Longrightarrow> map_of (filter (\<lambda>(k, v). P k v) m) k =
     (case map_of m k of None \<Rightarrow> None | Some v \<Rightarrow> if P k v then Some v else None)"
proof (induction m)
  case (Cons x m)
  have "hm_ok m" "fst x \<notin> fst ` set m" using Cons.prems by (auto simp: hm_ok_def)
  with Cons.IH show ?case
    by (cases x) (auto split: option.splits dest: map_of_SomeD simp: image_iff map_of_eq_None_iff)
qed simp

lemma contains_key_iff [hm_simps]: "contains_key m k \<longleftrightarrow> k \<in> fst ` set m"
  by (auto simp: contains_key_def map_of_eq_None_iff)

lemma hm_get_iff: "hm_ok m \<Longrightarrow> map_of m k = Some v \<longleftrightarrow> (k, v) \<in> set m"
  by (simp add: hm_ok_def map_of_eq_Some_iff)

lemma length_insert_new: "\<not> contains_key m k \<Longrightarrow> length (AList.update k v m) = Suc (length m)"
  by (induction m) (auto simp: contains_key_def split: if_splits)

lemma map_le_get: "m \<subseteq>\<^sub>m m' \<Longrightarrow> m k = Some v \<Longrightarrow> m' k = Some v"
  by (metis map_le_def domI)

lemma update_new: "k \<notin> fst ` set m \<Longrightarrow> AList.update k v m = m @ [(k, v)]"
  by (induction m) auto

lemma length_remove:
  assumes "hm_ok m"
  shows "length (AList.delete k m) = length m - (if contains_key m k then 1 else 0)"
proof -
  have "length (AList.delete k m) = length (removeAll k (map fst m))"
    by (simp add: delete_keys flip: length_map [of fst])
  also have "\<dots> = length (remove1 k (map fst m))"
    using assms by (simp add: hm_ok_def distinct_remove1_removeAll)
  also have "\<dots> = length m - (if contains_key m k then 1 else 0)"
    by (simp add: length_remove1 hm_simps)
  finally show ?thesis .
qed

end
