(* ===== verification/Ieee_Rounding.thy ===== *)
theory Ieee_Rounding
  imports Complex_Main "HOL-Library.Log_Nat"
begin

text \<open>
  Binary floating point as the source uses it. The address book keeps fractions of dials in
  \<^verbatim>\<open>f32\<close> (\<^verbatim>\<open>policy::jitter\<close>, \<^verbatim>\<open>Book::allocate\<close>) and the sessions keep their token buckets in
  \<^verbatim>\<open>f64\<close>. A finite value is the rational it stands for, and an operation is the exact operation
  followed by \<open>fl\<close>: rounding to nearest with ties to even, with \<open>p\<close> significant bits and no
  bit below \<open>2 powi emin\<close>, so subnormal results are rounded as the hardware rounds them. Every value
  of the source is below \<open>2 powi 65\<close> in magnitude, so there is no overflow to infinity and no
  NaN, and signed zeros are not observable: nothing divides by a variable.

  The locale \<open>float_format\<close> proves the laws of rounding once; it is interpreted for
  single precision (\<open>f32\<close>) and double precision (\<open>f64\<close>).
\<close>

section \<open>Rounding to nearest, ties to even\<close>

text \<open>The exponent of the leading bit of a positive rational.\<close>

definition ilog2 :: "rat \<Rightarrow> int" where
  "ilog2 x = (if 1 \<le> x then bitlen \<lfloor>x\<rfloor> - 1 else - bitlen (\<lceil>1 / x\<rceil> - 1))"

text \<open>The nearest integer; of two equally near ones the even one.\<close>

definition rne :: "rat \<Rightarrow> int" where
  "rne y = (let f = \<lfloor>y\<rfloor>; d = y - of_int f
            in if d < 1 / 2 then f else if 1 / 2 < d then f + 1
               else if even f then f else f + 1)"

text \<open>The exponent of the unit in the last place of \<open>x\<close>.\<close>

definition ulp_exp :: "int \<Rightarrow> int \<Rightarrow> rat \<Rightarrow> int" where
  "ulp_exp p emin x = max (ilog2 \<bar>x\<bar> - (p - 1)) emin"

text \<open>The value of the format nearest to \<open>x\<close>.\<close>

definition fl :: "int \<Rightarrow> int \<Rightarrow> rat \<Rightarrow> rat" where
  "fl p emin x =
     (if x = 0 then 0
      else let u = ulp_exp p emin x in of_int (rne (x / 2 powi u)) * 2 powi u)"

abbreviation f32_of :: "rat \<Rightarrow> rat" where
  "f32_of \<equiv> fl 24 (- 149)"

abbreviation f64_of :: "rat \<Rightarrow> rat" where
  "f64_of \<equiv> fl 53 (- 1074)"

section \<open>The laws of rounding\<close>

lemma bitlen_pos: "1 \<le> n \<Longrightarrow> 0 < bitlen n"
  using bitlen_nonneg [of "n div 2"] by (subst compute_bitlen) simp

lemma ilog2_bounds:
  assumes "0 < x"
  shows "2 powi ilog2 x \<le> x" and "x < 2 powi (ilog2 x + 1)"
proof -
  have "2 powi ilog2 x \<le> x \<and> x < 2 powi (ilog2 x + 1)"
  proof (cases "1 \<le> x")
    case True
    define n where "n = \<lfloor>x\<rfloor>"
    have n: "1 \<le> n" using True by (simp add: n_def le_floor_iff)
    have bl: "0 < bitlen n" using n by (rule bitlen_pos)
    have b: "2 ^ nat (bitlen n - 1) \<le> n" "n < 2 ^ nat (bitlen n)"
      using bitlen_bounds [of n] n by auto
    have "(2::rat) powi (bitlen n - 1) = of_int (2 ^ nat (bitlen n - 1))"
      using bl by (simp add: power_int_def)
    also have "\<dots> \<le> of_int n" using b(1) by (subst of_int_le_iff)
    also have "\<dots> \<le> x" by (simp add: n_def)
    finally have lo: "2 powi (bitlen n - 1) \<le> x" .
    have "x < of_int (n + 1)" unfolding n_def by linarith
    also have "\<dots> \<le> of_int (2 ^ nat (bitlen n))" using b(2) by (subst of_int_le_iff) simp
    also have "\<dots> = (2::rat) powi bitlen n" using bl by (simp add: power_int_def)
    finally have "x < 2 powi bitlen n" .
    with lo True show ?thesis by (simp add: ilog2_def n_def)
  next
    case False
    define m where "m = \<lceil>1 / x\<rceil> - 1"
    have gt: "1 < 1 / x" using False assms by simp
    have m: "1 \<le> m" using gt by (simp add: m_def less_ceiling_iff) 
    have bl: "0 < bitlen m" using m by (rule bitlen_pos)
    have b: "2 ^ nat (bitlen m - 1) \<le> m" "m < 2 ^ nat (bitlen m)"
      using bitlen_bounds [of m] m by auto
    have "1 / x \<le> of_int (m + 1)" unfolding m_def by (simp add: le_of_int_ceiling)
    also have "\<dots> \<le> of_int (2 ^ nat (bitlen m))" using b(2) by (subst of_int_le_iff) simp
    also have "\<dots> = (2::rat) powi bitlen m" using bl by (simp add: power_int_def)
    finally have hi: "1 / x \<le> 2 powi bitlen m" .
    have "(2::rat) powi (bitlen m - 1) = of_int (2 ^ nat (bitlen m - 1))"
      using bl by (simp add: power_int_def)
    also have "\<dots> \<le> of_int m" using b(1) by (subst of_int_le_iff)
    also have "\<dots> < 1 / x" unfolding m_def by linarith
    finally have lo: "2 powi (bitlen m - 1) < 1 / x" .
    have "2 powi (- bitlen m) \<le> x"
      using hi assms by (simp add: power_int_minus field_simps)
    moreover have "x < 2 powi (- bitlen m + 1)"
    proof -
      have "x * 2 powi (bitlen m - 1) < 1" using lo assms by (simp add: field_simps)
      moreover have "2 powi (- bitlen m + 1) * (2::rat) powi (bitlen m - 1) = 1"
        by (simp add: power_int_add [symmetric])
      ultimately show ?thesis
        by (metis mult_less_cancel_right_pos zero_less_numeral zero_less_power_int)
    qed
    ultimately show ?thesis using False by (simp add: ilog2_def m_def)
  qed
  then show "2 powi ilog2 x \<le> x" "x < 2 powi (ilog2 x + 1)" by auto
qed

lemma rne_of_int [simp]: "rne (of_int k) = k"
  by (simp add: rne_def)

lemma rne_error: "\<bar>of_int (rne y) - y\<bar> \<le> 1 / 2"
  unfolding rne_def Let_def by (auto simp: abs_if) linarith+

lemma rne_mono: assumes "y \<le> z" shows "rne y \<le> rne z"
proof -
  consider "\<lfloor>y\<rfloor> = \<lfloor>z\<rfloor>" | "\<lfloor>y\<rfloor> + 1 \<le> \<lfloor>z\<rfloor>" using floor_mono [OF assms] by linarith
  then show ?thesis
  proof cases
    case 1 then show ?thesis using assms by (auto simp: rne_def Let_def)
  next
    case 2
    have "rne y \<le> \<lfloor>y\<rfloor> + 1" "\<lfloor>z\<rfloor> \<le> rne z" by (auto simp: rne_def Let_def)
    with 2 show ?thesis by linarith
  qed
qed

lemma rne_uminus [simp]: "rne (- y) = - rne y"
proof (cases "of_int \<lfloor>y\<rfloor> = y")
  case True
  then obtain n where n: "y = of_int n" by metis
  then have "rne (- y) = rne (of_int (- n))" by simp
  with n show ?thesis by (simp only: rne_of_int)
next
  case False
  then have "\<lfloor>- y\<rfloor> = - \<lfloor>y\<rfloor> - 1" by (intro floor_unique) linarith+
  then show ?thesis by (auto simp: rne_def Let_def)
qed

lemma ilog2_mono: assumes "0 < x" "x \<le> y" shows "ilog2 x \<le> ilog2 y"
proof (rule ccontr)
  assume "\<not> ilog2 x \<le> ilog2 y"
  then have "(2::rat) powi (ilog2 y + 1) \<le> 2 powi ilog2 x" by (intro power_int_increasing) auto
  also have "\<dots> \<le> y" using ilog2_bounds(1) [of x] assms by linarith
  finally show False using ilog2_bounds(2) [of y] assms by linarith
qed

text \<open>A format: its precision and the exponent of its smallest subnormal.\<close>

locale float_format =
  fixes p emin :: int
  assumes p: "1 < p" and emin: "emin \<le> 0"
begin

lemma fl_0 [simp]: "fl p emin 0 = 0"
  by (simp add: fl_def)

lemma fl_uminus [simp]: "fl p emin (- x) = - fl p emin x"
  by (simp add: fl_def ulp_exp_def Let_def)

lemma fl_nonzero:
  "x \<noteq> 0 \<Longrightarrow> fl p emin x = of_int (rne (x / 2 powi ulp_exp p emin x)) * 2 powi ulp_exp p emin x"
  by (simp add: fl_def Let_def)

text \<open>Rounding is at most half a unit in the last place.\<close>

lemma fl_error: "\<bar>fl p emin x - x\<bar> \<le> 2 powi (ulp_exp p emin x - 1)"
proof (cases "x = 0")
  case False
  define w where "w = (2::rat) powi ulp_exp p emin x"
  have w: "0 < w" by (simp add: w_def)
  have "fl p emin x - x = (of_int (rne (x / w)) - x / w) * w"
    using False w by (simp add: fl_nonzero w_def algebra_simps)
  then have "\<bar>fl p emin x - x\<bar> = \<bar>of_int (rne (x / w)) - x / w\<bar> * w"
    using w by (simp add: abs_mult)
  also have "\<dots> \<le> 1 / 2 * w" using rne_error w by (intro mult_right_mono) auto
  also have "\<dots> = 2 powi (ulp_exp p emin x - 1)" by (simp add: w_def power_int_diff)
  finally show ?thesis .
qed simp

lemma fl_rel_error: "\<bar>fl p emin x - x\<bar> \<le> \<bar>x\<bar> * 2 powi (- p) + 2 powi (emin - 1)"
proof (cases "x = 0")
  case False
  have "2 powi (ulp_exp p emin x - 1) \<le> \<bar>x\<bar> * 2 powi (- p) + 2 powi (emin - 1)"
  proof (cases "emin \<le> ilog2 \<bar>x\<bar> - (p - 1)")
    case True
    then have "(2::rat) powi (ulp_exp p emin x - 1) = 2 powi ilog2 \<bar>x\<bar> * 2 powi (- p)"
      by (simp add: ulp_exp_def power_int_add [symmetric] algebra_simps)
    also have "\<dots> \<le> \<bar>x\<bar> * 2 powi (- p)"
      using ilog2_bounds(1) [of "\<bar>x\<bar>"] False by (intro mult_right_mono) auto
    finally show ?thesis by (simp add: add_increasing2)
  next
    case False
    then have "ulp_exp p emin x = emin" by (simp add: ulp_exp_def)
    then show ?thesis by simp
  qed
  with fl_error [of x] show ?thesis by linarith
qed simp

lemma fl_upper_grid:
  assumes "x \<noteq> 0" "x \<le> of_int k * 2 powi ulp_exp p emin x"
  shows "fl p emin x \<le> of_int k * 2 powi ulp_exp p emin x"
proof -
  have "x / 2 powi ulp_exp p emin x \<le> of_int k" using assms(2) by (simp add: field_simps)
  then have "rne (x / 2 powi ulp_exp p emin x) \<le> k" using rne_mono by fastforce
  then show ?thesis using assms(1) by (simp add: fl_nonzero)
qed

lemma fl_lower_grid:
  assumes "x \<noteq> 0" "of_int k * 2 powi ulp_exp p emin x \<le> x"
  shows "of_int k * 2 powi ulp_exp p emin x \<le> fl p emin x"
proof -
  have "of_int k \<le> x / 2 powi ulp_exp p emin x" using assms(2) by (simp add: field_simps)
  then have "k \<le> rne (x / 2 powi ulp_exp p emin x)" using rne_mono by fastforce
  then show ?thesis using assms(1) by (simp add: fl_nonzero)
qed

lemma powi_grid: "u \<le> e \<Longrightarrow> (2::rat) powi e = of_int (2 ^ nat (e - u)) * 2 powi u"
  by (simp add: power_int_add [symmetric] flip: power_int_of_nat)

lemma fl_mono_pos:
  assumes "0 < x" "x \<le> y"
  shows "fl p emin x \<le> fl p emin y"
proof -
  define u v where "u = ulp_exp p emin x" and "v = ulp_exp p emin y"
  have "u \<le> v" using ilog2_mono [of x y] assms by (auto simp: u_def v_def ulp_exp_def)
  show ?thesis
  proof (cases "u = v")
    case True
    then show ?thesis
      using assms by (auto simp: fl_nonzero u_def v_def intro!: rne_mono divide_right_mono)
  next
    case False
    then have lt: "u < v" and v: "v = ilog2 y - (p - 1)" and e: "ilog2 x < ilog2 y"
      using \<open>u \<le> v\<close> assms by (auto simp: u_def v_def ulp_exp_def max_def split: if_splits)
    have "x \<le> 2 powi (ilog2 x + 1)" using ilog2_bounds(2) [of x] assms by simp
    also have "\<dots> \<le> 2 powi ilog2 y" using e by (intro power_int_increasing) auto
    finally have x: "x \<le> 2 powi ilog2 y" .
    have y: "2 powi ilog2 y \<le> y" using ilog2_bounds(1) [of y] assms by simp
    have vy: "v \<le> ilog2 y" using v p by simp
    have "fl p emin x \<le> 2 powi ilog2 y"
      using fl_upper_grid [of x "2 ^ nat (ilog2 y - u)"] powi_grid [of u "ilog2 y"] vy lt x assms
      by (simp add: u_def)
    also have "\<dots> \<le> fl p emin y"
      using fl_lower_grid [of y "2 ^ nat (ilog2 y - v)"] powi_grid [of v "ilog2 y"] vy y assms
      by (simp add: v_def)
    finally show ?thesis .
  qed
qed

lemma fl_nonneg: "0 \<le> x \<Longrightarrow> 0 \<le> fl p emin x"
  using fl_lower_grid [of x 0] by (cases "x = 0") auto

lemma fl_nonpos: "x \<le> 0 \<Longrightarrow> fl p emin x \<le> 0"
  using fl_nonneg [of "- x"] by simp

lemma fl_mono: assumes "x \<le> y" shows "fl p emin x \<le> fl p emin y"
proof -
  consider "0 < x" | "y < 0" | "x \<le> 0" "0 \<le> y" by linarith
  then show ?thesis
  proof cases
    case 1 then show ?thesis using assms by (rule fl_mono_pos)
  next
    case 2 then show ?thesis using fl_mono_pos [of "- y" "- x"] assms by simp
  next
    case 3 then show ?thesis using fl_nonneg [of y] fl_nonpos [of x] by linarith
  qed
qed

text \<open>Values of the format are left alone.\<close>

lemma fl_exact:
  assumes "\<bar>m\<bar> < 2 ^ nat p" "emin \<le> e"
  shows "fl p emin (of_int m * 2 powi e) = of_int m * 2 powi e"
proof (cases "m = 0")
  case False
  define y u where "y = of_int m * (2::rat) powi e" and "u = ulp_exp p emin y"
  have y: "y \<noteq> 0" using False by (simp add: y_def)
  have "u \<le> e"
  proof (rule ccontr)
    assume "\<not> u \<le> e"
    then have u: "ilog2 \<bar>y\<bar> \<ge> e + p" using assms(2) by (auto simp: u_def ulp_exp_def)
    have "2 powi (e + p) \<le> (2::rat) powi ilog2 \<bar>y\<bar>" using u by (intro power_int_increasing) auto
    also have "\<dots> \<le> \<bar>y\<bar>" using ilog2_bounds(1) [of "\<bar>y\<bar>"] y by simp
    also have "\<dots> = of_int \<bar>m\<bar> * 2 powi e" by (simp add: y_def abs_mult)
    also have "\<dots> < of_int (2 ^ nat p) * 2 powi e"
      using assms(1) by (intro mult_strict_right_mono) (subst of_int_less_iff, auto)
    also have "\<dots> = 2 powi (e + p)" using p by (simp add: power_int_add power_int_def [of _ p])
    finally show False by simp
  qed
  then have "y / 2 powi u = of_int (m * 2 ^ nat (e - u))"
    using powi_grid [of u e] by (simp add: y_def)
  then have "rne (y / 2 powi u) = m * 2 ^ nat (e - u)" by (simp only: rne_of_int)
  then have "fl p emin y = y"
    using y powi_grid [of u e] \<open>u \<le> e\<close> by (simp add: fl_nonzero u_def [symmetric]) (simp add: y_def)
  then show ?thesis by (simp add: y_def)
qed simp

lemma fl_of_int: "\<bar>m\<bar> < 2 ^ nat p \<Longrightarrow> fl p emin (of_int m) = of_int m"
  using fl_exact [of m 0] emin by simp

text \<open>So rounding twice is rounding once.\<close>

lemma rne_ulp_bound: "x \<noteq> 0 \<Longrightarrow> \<bar>rne (x / 2 powi ulp_exp p emin x)\<bar> \<le> 2 ^ nat p"
proof -
  assume x: "x \<noteq> 0"
  let ?u = "ulp_exp p emin x" and ?q = "x / 2 powi ulp_exp p emin x"
  have "\<bar>x\<bar> \<le> 2 powi (ilog2 \<bar>x\<bar> + 1)" using ilog2_bounds(2) [of "\<bar>x\<bar>"] x by simp
  also have "\<dots> \<le> 2 powi (p + ?u)" by (intro power_int_increasing) (auto simp: ulp_exp_def)
  also have "\<dots> = of_int (2 ^ nat p) * 2 powi ?u" using p by (simp add: power_int_add power_int_def [of _ p])
  finally have "\<bar>?q\<bar> \<le> of_int (2 ^ nat p)" by (simp add: abs_divide divide_le_eq)
  then have q: "?q \<le> of_int (2 ^ nat p)" "of_int (- (2 ^ nat p)) \<le> ?q" by (simp_all only: abs_le_iff of_int_minus) linarith
  have "rne ?q \<le> 2 ^ nat p" using rne_mono [OF q(1)] by (simp only: rne_of_int)
  moreover have "- (2 ^ nat p) \<le> rne ?q" using rne_mono [OF q(2)] by (simp only: rne_of_int)
  ultimately show ?thesis by (simp add: abs_le_iff)
qed

lemma fl_idem [simp]: "fl p emin (fl p emin x) = fl p emin x"
proof (cases "x = 0")
  case False
  define u m where "u = ulp_exp p emin x" and "m = rne (x / 2 powi u)"
  have x: "fl p emin x = of_int m * 2 powi u" using False by (simp add: fl_nonzero m_def u_def)
  have u: "emin \<le> u" by (simp add: u_def ulp_exp_def)
  consider "\<bar>m\<bar> < 2 ^ nat p" | "\<bar>m\<bar> = 2 ^ nat p"
    using rne_ulp_bound [OF False] unfolding m_def u_def by linarith
  then show ?thesis
  proof cases
    case 1 then show ?thesis using fl_exact [OF 1 u] x by simp
  next
    case 2
    have pw: "(2::int) ^ nat p = 2 * 2 ^ nat (p - 1)" using p by (simp flip: power_Suc add: Suc_nat_eq_nat_zadd1)
    then have "even \<bar>m\<bar>" using 2 by simp
    then have m: "m = 2 * (m div 2)" by simp
    have "\<bar>m div 2\<bar> < 2 ^ nat p" using 2 m pw by (cases "0 \<le> m") auto
    moreover have "of_int m * 2 powi u = of_int (m div 2) * (2::rat) powi (u + 1)"
      by (subst m) (simp add: power_int_add)
    ultimately show ?thesis using fl_exact [of "m div 2" "u + 1"] u x by simp
  qed
qed simp

end

interpretation f32: float_format 24 "- 149" by unfold_locales auto
interpretation f64: float_format 53 "- 1074" by unfold_locales auto

end
