(* ===== verification/Policy.thy ===== *)
theory Policy
  imports Prelude Ieee_Rounding
begin

text \<open>
  \<^verbatim>\<open>observer/src/addresses/policy.rs\<close>: retry delays, classes and forget rules, all pure functions
  of their arguments and an explicit \<open>now\<close>. Times are unix seconds in \<^verbatim>\<open>u32\<close>, counters are \<^verbatim>\<open>u8\<close>,
  and the saturating arithmetic of the source is kept. The lemmas show that saturation is invisible:
  the backoff equals the unbounded formula of \<^verbatim>\<open>docs/addrman.md\<close>, every delay lies between
  five seconds and seven days, jitter stays within a tenth, and the forget rule is monotone.
\<close>

section \<open>Constants\<close>

definition SHORT_SESSION_SECS :: u32 where "SHORT_SESSION_SECS = 31"

definition WEIGHT_UNKNOWN :: rat where "WEIGHT_UNKNOWN = 70"
definition WEIGHT_WAS_GOOD :: rat where "WEIGHT_WAS_GOOD = 20"
definition WEIGHT_BAD :: rat where "WEIGHT_BAD = 10"

definition MAX_RECONNECTS_PER_TICK :: nat where "MAX_RECONNECTS_PER_TICK = 25"

definition MANUAL_RETRY_SECS :: u32 where "MANUAL_RETRY_SECS = 60"
definition OTHER_CHAIN_SECS :: u32 where "OTHER_CHAIN_SECS = 24 * 60 * 60"
definition VIOLATION_SECS :: u32 where "VIOLATION_SECS = 60 * 60"
definition STABLE_RECONNECT_SECS :: u32 where "STABLE_RECONNECT_SECS = 5"
definition PROXY_UNREACHABLE_SECS :: u32 where "PROXY_UNREACHABLE_SECS = 30"
definition NETWORK_UNREACHABLE_SECS :: u32 where "NETWORK_UNREACHABLE_SECS = 60 * 60"
definition NETWORK_DISABLED_SECS :: u32 where "NETWORK_DISABLED_SECS = 24 * 60 * 60"
definition EVICTION_BASE_SECS :: u32 where "EVICTION_BASE_SECS = 60"
definition EVICTION_CAP_SECS :: u32 where "EVICTION_CAP_SECS = 60 * 60"
definition WAS_GOOD_BASE_SECS :: u32 where "WAS_GOOD_BASE_SECS = 60"
definition WAS_GOOD_CAP_SECS :: u32 where "WAS_GOOD_CAP_SECS = 6 * 60 * 60"
definition BAD_BASE_SECS :: u32 where "BAD_BASE_SECS = 60 * 60"
definition BAD_CAP_SECS :: u32 where "BAD_CAP_SECS = 7 * 24 * 60 * 60"
definition WAS_GOOD_FORGET_AFTER_SECS :: u32 where "WAS_GOOD_FORGET_AFTER_SECS = 30 * 24 * 60 * 60"
definition BAD_FORGET_FAILURES_IF_STALE :: u8 where "BAD_FORGET_FAILURES_IF_STALE = 3"
definition BAD_FORGET_FAILURES_ALWAYS :: u8 where "BAD_FORGET_FAILURES_ALWAYS = 5"
definition BAD_ANNOUNCE_GRACE_SECS :: u32 where "BAD_ANNOUNCE_GRACE_SECS = 30 * 24 * 60 * 60"

lemmas delay_consts = MANUAL_RETRY_SECS_def OTHER_CHAIN_SECS_def VIOLATION_SECS_def
  STABLE_RECONNECT_SECS_def PROXY_UNREACHABLE_SECS_def NETWORK_UNREACHABLE_SECS_def
  NETWORK_DISABLED_SECS_def EVICTION_BASE_SECS_def EVICTION_CAP_SECS_def WAS_GOOD_BASE_SECS_def
  WAS_GOOD_CAP_SECS_def BAD_BASE_SECS_def BAD_CAP_SECS_def

lemmas forget_consts = WAS_GOOD_FORGET_AFTER_SECS_def BAD_FORGET_FAILURES_IF_STALE_def
  BAD_FORGET_FAILURES_ALWAYS_def BAD_ANNOUNCE_GRACE_SECS_def

section \<open>Outcomes and classes\<close>

datatype origin = Manual | Gossip

datatype reason =
    ConnectionRefused | HostUnreachable | TcpConnectTimeout | V2TransportTimeout
  | VersionHandshakeTimeout | V2TransportHandshake | VersionHandshake | UnexpectedEof | OtherReason

datatype our_fault = NetworkUnreachable | ProxyUnreachable | NetworkDisabled

datatype outcome =
    Failed reason
  | Disconnected u32 bool \<comment> \<open>\<^verbatim>\<open>uptime_secs\<close>, \<^verbatim>\<open>silent\<close>\<close>
  | OtherChain
  | Violated
  | OurFault our_fault

fun counts_as_failure :: "outcome \<Rightarrow> bool" where
  "counts_as_failure (Failed _) = True"
| "counts_as_failure _ = False"

fun is_short_session :: "outcome \<Rightarrow> bool" where
  "is_short_session (Disconnected uptime_secs silent) = (silent \<or> uptime_secs < SHORT_SESSION_SECS)"
| "is_short_session _ = False"

datatype addr_class = ClassUnknown | ClassGood | ClassWasGood | ClassBad

definition classify :: "bool \<Rightarrow> u32 \<Rightarrow> bool \<Rightarrow> addr_class" where
  "classify tried last_success last_attempt_failed =
     (if 0 < last_success then (if last_attempt_failed then ClassWasGood else ClassGood)
      else if tried then ClassBad else ClassUnknown)"

section \<open>Delays\<close>

definition exp_backoff :: "u32 \<Rightarrow> u32 \<Rightarrow> u8 \<Rightarrow> u32 \<Rightarrow> u32" where
  "exp_backoff base factor n cap =
     (let ex = unat (sat_sub n 1) in min (sat_mul base (sat_pow factor ex)) cap)"

definition retry_delay_secs :: "outcome \<Rightarrow> origin \<Rightarrow> bool \<Rightarrow> u8 \<Rightarrow> u8 \<Rightarrow> u32" where
  "retry_delay_secs outcome origin connected_before failures short_sessions =
     (if outcome = OtherChain then OTHER_CHAIN_SECS
      else if origin = Manual then MANUAL_RETRY_SECS
      else case outcome of
        OtherChain \<Rightarrow> OTHER_CHAIN_SECS
      | Violated \<Rightarrow> VIOLATION_SECS
      | OurFault r \<Rightarrow>
          (case r of
             ProxyUnreachable \<Rightarrow> PROXY_UNREACHABLE_SECS
           | NetworkUnreachable \<Rightarrow> NETWORK_UNREACHABLE_SECS
           | NetworkDisabled \<Rightarrow> NETWORK_DISABLED_SECS)
      | Disconnected _ _ \<Rightarrow>
          (if is_short_session outcome
           then exp_backoff EVICTION_BASE_SECS 2 short_sessions EVICTION_CAP_SECS
           else STABLE_RECONNECT_SECS)
      | Failed _ \<Rightarrow>
          (if connected_before
           then exp_backoff WAS_GOOD_BASE_SECS 2 failures WAS_GOOD_CAP_SECS
           else exp_backoff BAD_BASE_SECS 4 failures BAD_CAP_SECS))"

text \<open>
  \<^verbatim>\<open>f32::round\<close> rounds halves away from zero, and \<^verbatim>\<open>as u32\<close> truncates and saturates.
\<close>

definition f32_round :: "rat \<Rightarrow> int" where
  "f32_round x = (if 0 \<le> x then \<lfloor>x + 1 / 2\<rfloor> else - \<lfloor>- x + 1 / 2\<rfloor>)"

definition f32_as_u32 :: "rat \<Rightarrow> u32" where
  "f32_as_u32 x = (if x \<le> 0 then 0 else if 2 ^ 32 \<le> x then - 1 else word_of_int \<lfloor>x\<rfloor>)"

definition jitter :: "u32 \<Rightarrow> rat \<Rightarrow> u32" where
  "jitter delay_secs r =
     (let d = f32_of (of_nat (unat delay_secs));
          spread = f32_of (d * f32_of (1 / 10));
          offset = f32_of (spread * f32_of (f32_of (r * 2) - 1))
      in f32_as_u32 (max (of_int (f32_round (f32_of (d + offset)))) 1))"

definition should_forget :: "u32 \<Rightarrow> origin \<Rightarrow> u32 \<Rightarrow> u32 \<Rightarrow> u8 \<Rightarrow> bool" where
  "should_forget now origin last_success last_announced failures =
     (if origin = Manual then False
      else if 0 < last_success then WAS_GOOD_FORGET_AFTER_SECS < sat_sub now last_success
      else if BAD_FORGET_FAILURES_ALWAYS \<le> failures then True
      else if BAD_FORGET_FAILURES_IF_STALE \<le> failures
        then BAD_ANNOUNCE_GRACE_SECS < sat_sub now last_announced
      else False)"

section \<open>Saturation is invisible\<close>

lemma unat_exp_backoff [unat_simps]:
  "unat (exp_backoff base factor n cap) =
     min (unat base * unat factor ^ (unat n - 1)) (unat cap)"
proof -
  define e where "e = unat n - 1"
  have cap: "unat cap \<le> word_max TYPE(32)" by (rule unat_le_word_max)
  have "unat (exp_backoff base factor n cap) =
          min (min (unat base * min (unat factor ^ e) (word_max TYPE(32))) (word_max TYPE(32))) (unat cap)"
    by (simp add: exp_backoff_def Let_def unat_simps e_def)
  also have "\<dots> = min (unat base * unat factor ^ e) (unat cap)"
  proof (cases "unat factor ^ e \<le> word_max TYPE(32) \<or> unat base = 0")
    case True
    then show ?thesis using cap by (auto simp: min_def)
  next
    case False
    then have "word_max TYPE(32) \<le> unat base * word_max TYPE(32)" "1 \<le> unat base" by auto
    moreover have "word_max TYPE(32) \<le> unat base * unat factor ^ e"
      using False mult_le_mono [of 1 "unat base" "word_max TYPE(32)" "unat factor ^ e"] by simp
    ultimately show ?thesis using cap False by (simp add: min_def)
  qed
  finally show ?thesis by (simp add: e_def)
qed

lemma delay_units [unat_simps]:
  "unat MANUAL_RETRY_SECS = 60" "unat OTHER_CHAIN_SECS = 86400" "unat VIOLATION_SECS = 3600"
  "unat STABLE_RECONNECT_SECS = 5" "unat PROXY_UNREACHABLE_SECS = 30"
  "unat NETWORK_UNREACHABLE_SECS = 3600" "unat NETWORK_DISABLED_SECS = 86400"
  "unat EVICTION_BASE_SECS = 60" "unat EVICTION_CAP_SECS = 3600" "unat WAS_GOOD_BASE_SECS = 60"
  "unat WAS_GOOD_CAP_SECS = 21600" "unat BAD_BASE_SECS = 3600" "unat BAD_CAP_SECS = 604800"
  by (simp_all add: delay_consts)

text \<open>
  The retry table of \<^verbatim>\<open>docs/addrman.md\<close>, in unbounded arithmetic: \<open>n\<close> is the number of
  consecutive failures and \<open>k\<close> of consecutive short sessions.
\<close>

fun documented_delay :: "outcome \<Rightarrow> origin \<Rightarrow> bool \<Rightarrow> nat \<Rightarrow> nat \<Rightarrow> nat" where
  "documented_delay OtherChain origin before n k = 24 * 3600"
| "documented_delay outcome Manual before n k = 60"
| "documented_delay (Disconnected up silent) Gossip before n k =
     (if silent \<or> unat up < 31 then min (60 * 2 ^ (k - 1)) 3600 else 5)"
| "documented_delay (Failed r) Gossip before n k =
     (if before then min (60 * 2 ^ (n - 1)) (6 * 3600) else min (3600 * 4 ^ (n - 1)) (7 * 24 * 3600))"
| "documented_delay (OurFault ProxyUnreachable) Gossip before n k = 30"
| "documented_delay (OurFault NetworkUnreachable) Gossip before n k = 3600"
| "documented_delay (OurFault NetworkDisabled) Gossip before n k = 24 * 3600"
| "documented_delay Violated Gossip before n k = 3600"

lemma is_short_session_iff:
  "is_short_session (Disconnected up silent) \<longleftrightarrow> silent \<or> unat up < 31"
  by (simp add: SHORT_SESSION_SECS_def word_less_nat_alt)

lemma unat_retry_delay_secs:
  "unat (retry_delay_secs out org before n k) = documented_delay out org before (unat n) (unat k)"
proof (cases out)
  case (OurFault f)
  then show ?thesis by (cases f; cases org) (simp_all add: retry_delay_secs_def unat_simps)
qed (cases org; simp add: retry_delay_secs_def unat_simps is_short_session_iff del: is_short_session.simps)+

lemma documented_delay_bounds:
  "5 \<le> documented_delay out org before n k" "documented_delay out org before n k \<le> 604800"
proof -
  have "5 \<le> documented_delay out org before n k \<and> documented_delay out org before n k \<le> 604800"
    by (cases "(out, org, before, n, k)" rule: documented_delay.cases)
       (auto simp: min_def le_trans [OF _ mult_le_mono2 [of 1]])
  then show "5 \<le> documented_delay out org before n k" "documented_delay out org before n k \<le> 604800"
    by auto
qed

section \<open>Jitter\<close>

text \<open>The error of one single-precision operation, with the powers of two evaluated.\<close>

lemma f32_error:
  "f32_of x \<le> x + \<bar>x\<bar> / 16777216 + 1 / 1000000" "x - \<bar>x\<bar> / 16777216 - 1 / 1000000 \<le> f32_of x"
proof -
  have "\<bar>x\<bar> * 2 powi (- 24) + 2 powi (- 149 - 1) \<le> \<bar>x\<bar> / 16777216 + 1 / 1000000"
    by (simp add: power_int_def power_divide)
  then have "\<bar>f32_of x - x\<bar> \<le> \<bar>x\<bar> / 16777216 + 1 / 1000000"
    using f32.fl_rel_error [of x] by linarith
  then show "f32_of x \<le> x + \<bar>x\<bar> / 16777216 + 1 / 1000000" "x - \<bar>x\<bar> / 16777216 - 1 / 1000000 \<le> f32_of x"
    by linarith+
qed

lemma f32_le_of_int: "x \<le> of_int k \<Longrightarrow> \<bar>k\<bar> < 2 ^ 24 \<Longrightarrow> f32_of x \<le> of_int k"
  using f32.fl_mono [of x "of_int k"] f32.fl_of_int [of k] by simp

lemma f32_ge_of_int: "of_int k \<le> x \<Longrightarrow> \<bar>k\<bar> < 2 ^ 24 \<Longrightarrow> of_int k \<le> f32_of x"
  using f32.fl_mono [of "of_int k" x] f32.fl_of_int [of k] by simp

lemma f32_tenth: "0 \<le> f32_of (1 / 10)" "f32_of (1 / 10) \<le> 1 / 10 + 1 / 134217728"
proof -
  show "0 \<le> f32_of (1 / 10)" by (intro f32.fl_nonneg) simp
  have "\<bar>1 / 10 :: rat\<bar> * 2 powi (- 24) + 2 powi (- 149 - 1) \<le> 1 / 134217728"
    by (simp add: power_int_def power_divide)
  then show "f32_of (1 / 10) \<le> 1 / 10 + 1 / 134217728"
    using f32.fl_rel_error [of "1 / 10"] by linarith
qed

lemma jitter_direction:
  assumes "0 \<le> r" "r < 1"
  shows "\<bar>f32_of (f32_of (r * 2) - 1)\<bar> \<le> 1"
proof -
  have "f32_of (r * 2) \<le> 2" "0 \<le> f32_of (r * 2)"
    using f32_le_of_int [of "r * 2" 2] f32.fl_nonneg [of "r * 2"] assms by auto
  then show ?thesis
    using f32_le_of_int [of "f32_of (r * 2) - 1" 1] f32_ge_of_int [of "- 1" "f32_of (r * 2) - 1"]
    by (simp add: abs_le_iff)
qed

lemma jitter_spread:
  assumes "0 \<le> D" "D \<le> 1048576"
  shows "0 \<le> f32_of (D * f32_of (1 / 10))" "f32_of (D * f32_of (1 / 10)) \<le> D / 10 + 1 / 32"
proof -
  let ?t = "f32_of (1 / 10)"
  have t: "0 \<le> D * ?t" using f32_tenth(1) assms by simp
  have "D * ?t \<le> D * (1 / 10 + 1 / 134217728)" using f32_tenth(2) assms by (intro mult_left_mono)
  also have "\<dots> = D / 10 + D / 134217728" by (simp only: distrib_left times_divide_eq_right mult_1_right)
  finally have u: "D * ?t \<le> D / 10 + D / 134217728" .
  show "0 \<le> f32_of (D * ?t)" using t by (intro f32.fl_nonneg)
  show "f32_of (D * ?t) \<le> D / 10 + 1 / 32"
    using f32_error(1) [of "D * ?t"] t u assms unfolding abs_of_nonneg [OF t] by linarith
qed

lemma jitter_sum:
  fixes D r :: rat
  assumes "0 \<le> D" "D \<le> 1048576" "0 \<le> r" "r < 1"
  defines "s \<equiv> f32_of (D * f32_of (1 / 10))"
  defines "off \<equiv> f32_of (s * f32_of (f32_of (r * 2) - 1))"
  shows "\<bar>f32_of (D + off) - D\<bar> \<le> D / 10 + 1 / 4"
proof -
  define q where "q = f32_of (f32_of (r * 2) - 1)"
  have s: "0 \<le> s" "s \<le> D / 10 + 1 / 32" using jitter_spread assms by auto
  have "\<bar>s * q\<bar> \<le> s"
    using jitter_direction [of r] assms(3,4) s(1) mult_left_mono [of "\<bar>q\<bar>" 1 s]
    by (simp add: abs_mult q_def)
  then have off: "\<bar>off\<bar> \<le> D / 10 + 1 / 16"
    using f32_error [of "s * q"] s(2) assms(2) unfolding off_def q_def [symmetric] by linarith
  then have "\<bar>D + off\<bar> \<le> 2097152" using assms(1,2) by linarith
  then have "\<bar>D + off\<bar> / 16777216 \<le> 1 / 8" by simp
  then have "\<bar>f32_of (D + off) - (D + off)\<bar> \<le> 3 / 16"
    using f32_error [of "D + off"] unfolding abs_le_iff by linarith
  then show ?thesis using off unfolding abs_le_iff by linarith
qed

lemma f32_round_error: "\<bar>of_int (f32_round x) - x\<bar> \<le> 1 / 2"
proof (cases "0 \<le> x")
  case True
  then have "f32_round x = \<lfloor>x + 1 / 2\<rfloor>" by (simp add: f32_round_def)
  then show ?thesis using floor_correct [of "x + 1 / 2"] by linarith
next
  case False
  then have "of_int (f32_round x) = - (of_int \<lfloor>- x + 1 / 2\<rfloor> :: rat)" by (simp add: f32_round_def)
  then show ?thesis using floor_correct [of "- x + 1 / 2"] by linarith
qed

lemma unat_f32_as_u32_of_int:
  assumes "0 \<le> k" "k < 2 ^ 32"
  shows "unat (f32_as_u32 (of_int k)) = nat k"
proof -
  have "of_int k < (of_int (2 ^ 32) :: rat)" using assms(2) by (simp only: of_int_less_iff)
  then have "f32_as_u32 (of_int k) = word_of_int k"
    using assms by (cases "k = 0") (auto simp: f32_as_u32_def)
  then show ?thesis using assms by (simp add: unat_eq_nat_uint uint_word_of_int)
qed

lemma jitter_bounds:
  assumes "unat d \<le> 1048576" "0 \<le> r" "r < 1"
  shows "1 \<le> unat (jitter d r)"
    and "\<bar>of_nat (unat (jitter d r)) - (of_nat (unat d) :: rat)\<bar> \<le> of_nat (unat d) / 10 + 1"
proof -
  define D :: rat where "D = of_nat (unat d)"
  have "D \<le> of_nat 1048576" unfolding D_def using assms(1) by (subst of_nat_le_iff)
  moreover have "0 \<le> D" unfolding D_def by (rule of_nat_0_le_iff)
  ultimately have D: "0 \<le> D" "D \<le> 1048576" by auto
  have "\<bar>int (unat d)\<bar> < 16777216" using assms(1) by linarith
  then have "\<bar>int (unat d)\<bar> < 2 ^ nat 24" by (simp only: nat_numeral power_numeral Num.pow.simps Num.sqr.simps) simp
  then have "f32_of (of_int (int (unat d))) = of_int (int (unat d))" by (rule f32.fl_of_int)
  then have exact: "f32_of D = D" unfolding D_def by (simp only: of_int_of_nat_eq)
  define y where "y = f32_of (D + f32_of (f32_of (D * f32_of (1 / 10)) * f32_of (f32_of (r * 2) - 1)))"
  have y: "\<bar>y - D\<bar> \<le> D / 10 + 1 / 4" unfolding y_def using jitter_sum [OF D assms(2,3)] by simp
  define k where "k = max (f32_round y) 1"
  have "\<bar>of_int (f32_round y) - D\<bar> \<le> D / 10 + 1"
    using f32_round_error [of y] y unfolding abs_le_iff by linarith
  moreover have "of_int k = max (of_int (f32_round y)) (1 :: rat)" by (simp add: k_def of_int_max)
  ultimately have k: "1 \<le> k" "\<bar>of_int k - D\<bar> \<le> D / 10 + 1"
    using D(1) by (simp add: k_def, linarith)
  have "of_int k \<le> (of_int 2097152 :: rat)" using k(2) D by simp
  then have "k \<le> 2097152" by (simp only: of_int_le_iff)
  then have "unat (f32_as_u32 (of_int k)) = nat k" using k(1) by (intro unat_f32_as_u32_of_int) auto
  moreover have "jitter d r = f32_as_u32 (of_int k)"
    unfolding jitter_def Let_def D_def [symmetric] exact y_def [symmetric] k_def
    by (simp add: of_int_max)
  ultimately have j: "unat (jitter d r) = nat k" by simp
  then show "1 \<le> unat (jitter d r)" using k(1) by linarith
  have "of_nat (unat (jitter d r)) = (of_int k :: rat)" unfolding j using k(1) by simp
  then show "\<bar>of_nat (unat (jitter d r)) - (of_nat (unat d) :: rat)\<bar> \<le> of_nat (unat d) / 10 + 1"
    using k(2) unfolding D_def by simp
qed

section \<open>Forgetting\<close>

lemma forget_units [unat_simps]:
  "unat WAS_GOOD_FORGET_AFTER_SECS = 2592000" "unat BAD_FORGET_FAILURES_IF_STALE = 3"
  "unat BAD_FORGET_FAILURES_ALWAYS = 5" "unat BAD_ANNOUNCE_GRACE_SECS = 2592000"
  by (simp_all add: forget_consts)

lemma should_forget_iff:
  "should_forget now org ls la n \<longleftrightarrow> org = Gossip \<and>
     (if unat ls = 0 then 5 \<le> unat n \<or> 3 \<le> unat n \<and> unat la + 2592000 < unat now
      else unat ls + 2592000 < unat now)"
  by (cases org) (auto simp: should_forget_def word_order_nat unat_simps unat_eq_zero)

section \<open>Properties\<close>

text \<open>
  The retry delay computed with saturating \<^verbatim>\<open>u8\<close> and \<^verbatim>\<open>u32\<close> arithmetic is, for every outcome, origin and
  counter value, the one the table of \<^verbatim>\<open>docs/addrman.md\<close> gives in unbounded arithmetic: no counter
  overflows into a short delay and no delay is cut short of its cap.
\<close>

theorem retry_delay_is_documented:
  "unat (retry_delay_secs out org before n k) = documented_delay out org before (unat n) (unat k)"
  by (rule unat_retry_delay_secs)

text \<open>
  Jitter, in single-precision arithmetic with its roundings, moves a delay by at most a tenth (and one
  second for rounding to whole seconds) and never below one second, for every delay the policy produces.
\<close>

theorem jitter_stays_within_a_tenth:
  assumes "unat d \<le> 604800" "0 \<le> r" "r < 1"
  shows "1 \<le> unat (jitter d r)
    \<and> \<bar>of_nat (unat (jitter d r)) - (of_nat (unat d) :: rat)\<bar> \<le> of_nat (unat d) / 10 + 1"
proof -
  have "unat d \<le> 1048576" using assms(1) by simp
  from jitter_bounds [OF this assms(2,3)] show ?thesis by blast
qed

theorem jitter_stays_within_a_tenth_witness:
  "1 \<le> unat (jitter 3600 (1 / 4))
    \<and> \<bar>of_nat (unat (jitter 3600 (1 / 4))) - (of_nat (unat (3600 :: u32)) :: rat)\<bar> \<le> of_nat (unat (3600 :: u32)) / 10 + 1"
  by (rule jitter_stays_within_a_tenth) simp_all

text \<open>
  The forget rule in plain arithmetic: only a gossiped address is forgotten, one that has connected
  after thirty days without success, one that never has after five failures, or after three when
  nobody has announced it for thirty days. A clock behind the recorded times forgets nothing.
\<close>

theorem forget_rule_is_documented:
  "should_forget now org ls la n \<longleftrightarrow> org = Gossip \<and>
     (if unat ls = 0 then 5 \<le> unat n \<or> 3 \<le> unat n \<and> unat la + 30 * 24 * 3600 < unat now
      else unat ls + 30 * 24 * 3600 < unat now)"
  by (simp add: should_forget_iff)

end
