(* ===== verification/Peer_Addr.thy ===== *)
theory Peer_Addr
  imports Prelude "HOL-Library.Sublist"
begin

unbundle bit_operations_syntax

text \<open>
  \<^verbatim>\<open>observer/src/addresses/peer_addr.rs\<close>: the compact peer address that keys the address book, its
  routability test, the conversions that build one from a socket address or a gossiped
  \<^verbatim>\<open>addrv2\<close> entry, and the base32 text form of onion and I2P hosts.

  A fixed-size array \<^verbatim>\<open>[u8; N]\<close> is a byte list of that length; \<open>wf_peer_addr\<close> carries the lengths
  the Rust types carry. SHA3-256 comes from another crate and is the parameter \<open>sha3\<close>; what is used
  of it is that a digest has 32 bytes. The address types of the \<^verbatim>\<open>p2p\<close> crate are the datatypes
  \<open>addr_v2\<close> and \<open>addr_v2_message\<close>.

  The lemmas show that base32 decodes what it encodes and that a decoded host is the only spelling of
  its bytes at the two lengths the parser uses, that the normalising constructor never files an
  IPv4 or CJDNS address under IPv6, and which addresses are routable.
\<close>

section \<open>Addresses\<close>

datatype peer_addr =
    Ipv4 "u8 list" u16
  | Ipv6 "u8 list" u16
  | TorV3 "u8 list" u16
  | I2p "u8 list" u16
  | Cjdns "u8 list" u16

datatype net = NetIpv4 | NetIpv6 | NetTorV3 | NetI2p | NetCjdns

text \<open>\<^verbatim>\<open>std::net::IpAddr\<close> as its octets, and \<^verbatim>\<open>std::net::SocketAddr\<close>.\<close>

datatype ip_addr = V4 "u8 list" | V6 "u8 list"

record sock_addr =
  sa_ip :: ip_addr
  sa_port :: u16

fun wf_ip_addr :: "ip_addr \<Rightarrow> bool" where
  "wf_ip_addr (V4 b) = (length b = 4)"
| "wf_ip_addr (V6 b) = (length b = 16)"

fun wf_peer_addr :: "peer_addr \<Rightarrow> bool" where
  "wf_peer_addr (Ipv4 b _) = (length b = 4)"
| "wf_peer_addr (Ipv6 b _) = (length b = 16)"
| "wf_peer_addr (TorV3 b _) = (length b = 32)"
| "wf_peer_addr (I2p b _) = (length b = 32)"
| "wf_peer_addr (Cjdns b _) = (length b = 16)"

fun net_of :: "peer_addr \<Rightarrow> net" where
  "net_of (Ipv4 _ _) = NetIpv4"
| "net_of (Ipv6 _ _) = NetIpv6"
| "net_of (TorV3 _ _) = NetTorV3"
| "net_of (I2p _ _) = NetI2p"
| "net_of (Cjdns _ _) = NetCjdns"

fun port :: "peer_addr \<Rightarrow> u16" where
  "port (Ipv4 _ p) = p"
| "port (Ipv6 _ p) = p"
| "port (TorV3 _ p) = p"
| "port (I2p _ p) = p"
| "port (Cjdns _ p) = p"

fun ip :: "peer_addr \<Rightarrow> ip_addr option" where
  "ip (Ipv4 b _) = Some (V4 b)"
| "ip (Ipv6 b _) = Some (V6 b)"
| "ip (Cjdns b _) = Some (V6 b)"
| "ip (TorV3 _ _) = None"
| "ip (I2p _ _) = None"

definition socket_addr :: "peer_addr \<Rightarrow> sock_addr option" where
  "socket_addr a = map_option (\<lambda>i. \<lparr>sa_ip = i, sa_port = port a\<rparr>) (ip a)"

section \<open>Routability\<close>

text \<open>The predicates of \<^verbatim>\<open>std::net::Ipv4Addr\<close> and \<^verbatim>\<open>std::net::Ipv6Addr\<close> the source calls.\<close>

definition v4_is_unspecified :: "u8 list \<Rightarrow> bool" where
  "v4_is_unspecified b \<longleftrightarrow> b = [0, 0, 0, 0]"

definition v4_is_loopback :: "u8 list \<Rightarrow> bool" where
  "v4_is_loopback b \<longleftrightarrow> b ! 0 = 127"

definition v4_is_private :: "u8 list \<Rightarrow> bool" where
  "v4_is_private b \<longleftrightarrow>
     b ! 0 = 10 \<or> b ! 0 = 172 \<and> 16 \<le> b ! 1 \<and> b ! 1 \<le> 31 \<or> b ! 0 = 192 \<and> b ! 1 = 168"

definition v4_is_link_local :: "u8 list \<Rightarrow> bool" where
  "v4_is_link_local b \<longleftrightarrow> b ! 0 = 169 \<and> b ! 1 = 254"

definition v4_is_multicast :: "u8 list \<Rightarrow> bool" where
  "v4_is_multicast b \<longleftrightarrow> 224 \<le> b ! 0 \<and> b ! 0 \<le> 239"

definition v4_is_broadcast :: "u8 list \<Rightarrow> bool" where
  "v4_is_broadcast b \<longleftrightarrow> b = [255, 255, 255, 255]"

definition v6_is_unspecified :: "u8 list \<Rightarrow> bool" where
  "v6_is_unspecified b \<longleftrightarrow> b = replicate 16 0"

definition v6_is_loopback :: "u8 list \<Rightarrow> bool" where
  "v6_is_loopback b \<longleftrightarrow> b = replicate 15 0 @ [1]"

definition v6_is_multicast :: "u8 list \<Rightarrow> bool" where
  "v6_is_multicast b \<longleftrightarrow> b ! 0 = 0xff"

definition v6_segment0 :: "u8 list \<Rightarrow> u16" where
  "v6_segment0 b = push_bit 8 (ucast (b ! 0)) OR ucast (b ! 1)"

fun is_routable :: "peer_addr \<Rightarrow> bool" where
  "is_routable (Ipv4 b p) =
     (p \<noteq> 0 \<and> \<not> v4_is_unspecified b \<and> \<not> v4_is_loopback b \<and> \<not> v4_is_private b
      \<and> \<not> v4_is_link_local b \<and> \<not> v4_is_multicast b \<and> \<not> v4_is_broadcast b)"
| "is_routable (Ipv6 b p) =
     (p \<noteq> 0 \<and> \<not> v6_is_unspecified b \<and> \<not> v6_is_loopback b \<and> \<not> v6_is_multicast b
      \<and> v6_segment0 b AND 0xffc0 \<noteq> 0xfe80 \<and> b ! 0 \<noteq> 0xfd)"
| "is_routable (TorV3 key p) = (p \<noteq> 0 \<and> key \<noteq> replicate 32 0)"
| "is_routable (I2p hash p) = (p \<noteq> 0 \<and> hash \<noteq> replicate 32 0)"
| "is_routable (Cjdns b p) = (p \<noteq> 0 \<and> \<not> v6_is_unspecified b)"

lemma routable_port: "is_routable a \<Longrightarrow> port a \<noteq> 0"
  by (cases a) auto

section \<open>Normalisation\<close>

text \<open>\<^verbatim>\<open>Ipv6Addr::to_ipv4_mapped\<close>: the last four octets of an address in \<^verbatim>\<open>::ffff:0:0/96\<close>.\<close>

definition to_ipv4_mapped :: "u8 list \<Rightarrow> u8 list option" where
  "to_ipv4_mapped b =
     (if take 12 b = replicate 10 0 @ [0xff, 0xff] then Some (drop 12 b) else None)"

definition from_socket_addr :: "sock_addr \<Rightarrow> peer_addr" where
  "from_socket_addr sa =
     (case sa_ip sa of
        V4 b \<Rightarrow> Ipv4 b (sa_port sa)
      | V6 b \<Rightarrow>
          (case to_ipv4_mapped b of
             Some v4 \<Rightarrow> Ipv4 v4 (sa_port sa)
           | None \<Rightarrow> if b ! 0 = 0xfc then Cjdns b (sa_port sa) else Ipv6 b (sa_port sa)))"

datatype addr_v2 =
    AddrIpv4 "u8 list"
  | AddrIpv6 "u8 list"
  | AddrTorV3 "u8 list"
  | AddrI2p "u8 list"
  | AddrCjdns "u8 list"
  | AddrUnknown u8 "u8 list"

record addr_v2_message =
  msg_time :: u32
  msg_services :: u64
  msg_addr :: addr_v2
  msg_port :: u16

text \<open>\<^verbatim>\<open>TryFrom<&AddrV2Message>\<close>; \<open>None\<close> is the error.\<close>

definition try_from_addr_v2 :: "addr_v2_message \<Rightarrow> peer_addr option" where
  "try_from_addr_v2 msg =
     (case msg_addr msg of
        AddrIpv4 b \<Rightarrow> Some (Ipv4 b (msg_port msg))
      | AddrIpv6 b \<Rightarrow> Some (from_socket_addr \<lparr>sa_ip = V6 b, sa_port = msg_port msg\<rparr>)
      | AddrTorV3 key \<Rightarrow> Some (TorV3 key (msg_port msg))
      | AddrI2p hash \<Rightarrow> Some (I2p hash (msg_port msg))
      | AddrCjdns b \<Rightarrow> Some (Cjdns b (msg_port msg))
      | AddrUnknown _ _ \<Rightarrow> None)"

text \<open>
  \<^verbatim>\<open>TryFrom<&Address>\<close>: the socket address of a version-one \<^verbatim>\<open>addr\<close> entry is decoded by the \<^verbatim>\<open>p2p\<close> crate;
  its result is the argument.
\<close>

definition try_from_address :: "sock_addr option \<Rightarrow> peer_addr option" where
  "try_from_address decoded = map_option from_socket_addr decoded"

text \<open>
  An address in normal form: an \<open>Ipv6\<close> holds neither an IPv4-mapped address nor one of \<^verbatim>\<open>fc00::/8\<close>.
\<close>

fun normal_addr :: "peer_addr \<Rightarrow> bool" where
  "normal_addr (Ipv6 b _) = (to_ipv4_mapped b = None \<and> b ! 0 \<noteq> 0xfc)"
| "normal_addr _ = True"

lemma from_socket_addr_normal: "normal_addr (from_socket_addr sa)"
  by (auto simp: from_socket_addr_def split: ip_addr.splits option.splits)

lemma from_socket_addr_wf: "wf_ip_addr (sa_ip sa) \<Longrightarrow> wf_peer_addr (from_socket_addr sa)"
  by (auto simp: from_socket_addr_def to_ipv4_mapped_def split: ip_addr.splits option.splits if_splits)

lemma from_socket_addr_port [simp]: "port (from_socket_addr sa) = sa_port sa"
  by (auto simp: from_socket_addr_def split: ip_addr.splits option.splits)

section \<open>Base32\<close>

definition ALPHABET :: string where
  "ALPHABET = ''abcdefghijklmnopqrstuvwxyz234567''"

text \<open>The inner \<^verbatim>\<open>while n >= 5\<close> of the encoder.\<close>

fun b32_drain :: "u64 \<Rightarrow> nat \<Rightarrow> string \<Rightarrow> nat \<times> string" where
  "b32_drain bits n out =
     (if 5 \<le> n
      then b32_drain bits (n - 5) (out @ [ALPHABET ! unat (drop_bit (n - 5) bits AND 0x1f)])
      else (n, out))"

declare b32_drain.simps [simp del]

fun b32_enc_loop :: "u64 \<Rightarrow> nat \<Rightarrow> string \<Rightarrow> u8 list \<Rightarrow> u64 \<times> nat \<times> string" where
  "b32_enc_loop bits n out [] = (bits, n, out)"
| "b32_enc_loop bits n out (byte # bytes) =
     (let bits' = push_bit 8 bits OR ucast byte;
          (n', out') = b32_drain bits' (n + 8) out
      in b32_enc_loop bits' n' out' bytes)"

definition base32_encode :: "u8 list \<Rightarrow> string" where
  "base32_encode bytes =
     (let (bits, n, out) = b32_enc_loop 0 0 [] bytes
      in if 0 < n then out @ [ALPHABET ! unat (push_bit (5 - n) bits AND 0x1f)] else out)"

definition b32_value :: "char \<Rightarrow> u8 option" where
  "b32_value c =
     (let byte = of_nat (of_char c) :: u8
      in if 97 \<le> byte \<and> byte \<le> 122 then Some (byte - 97)
         else if 50 \<le> byte \<and> byte \<le> 55 then Some (byte - 50 + 26)
         else None)"

fun b32_dec_loop :: "u32 \<Rightarrow> nat \<Rightarrow> u8 list \<Rightarrow> string \<Rightarrow> (u32 \<times> nat \<times> u8 list) option" where
  "b32_dec_loop bits n out [] = Some (bits, n, out)"
| "b32_dec_loop bits n out (c # cs) =
     (case b32_value c of
        None \<Rightarrow> None
      | Some v \<Rightarrow>
          (let bits' = push_bit 5 bits OR ucast v; n' = n + 5
           in if 8 \<le> n' then b32_dec_loop bits' (n' - 8) (out @ [ucast (drop_bit (n' - 8) bits')]) cs
              else b32_dec_loop bits' n' out cs))"

definition base32_decode :: "string \<Rightarrow> u8 list option" where
  "base32_decode s =
     (case b32_dec_loop 0 0 [] s of
        None \<Rightarrow> None
      | Some (bits, n, out) \<Rightarrow>
          if 0 < n \<and> bits AND (push_bit n 1 - 1) \<noteq> 0 then None else Some out)"

subsection \<open>Words and characters as bits, most significant first\<close>

definition msb_bits :: "nat \<Rightarrow> 'a::len word \<Rightarrow> bool list" where
  "msb_bits n w = map (bit w) (rev [0..<n])"

definition bytes_bits :: "u8 list \<Rightarrow> bool list" where
  "bytes_bits bs = concat (map (msb_bits 8) bs)"

definition char_bits :: "char \<Rightarrow> bool list" where
  "char_bits c = (case b32_value c of Some v \<Rightarrow> msb_bits 5 v | None \<Rightarrow> [])"

definition chars_bits :: "string \<Rightarrow> bool list" where
  "chars_bits s = concat (map char_bits s)"

definition b32_valid :: "string \<Rightarrow> bool" where
  "b32_valid s \<longleftrightarrow> (\<forall>c \<in> set s. b32_value c \<noteq> None)"

lemma bits_simps [simp]:
  "bytes_bits [] = []" "bytes_bits (b # bs) = msb_bits 8 b @ bytes_bits bs"
  "bytes_bits (bs @ cs) = bytes_bits bs @ bytes_bits cs"
  "chars_bits [] = []" "chars_bits (c # s) = char_bits c @ chars_bits s"
  "chars_bits (s @ t) = chars_bits s @ chars_bits t"
  "b32_valid []" "b32_valid (c # s) \<longleftrightarrow> b32_value c \<noteq> None \<and> b32_valid s"
  "b32_valid (s @ t) \<longleftrightarrow> b32_valid s \<and> b32_valid t"
  "msb_bits 0 w = []" "length (msb_bits n w) = n"
  by (auto simp: bytes_bits_def chars_bits_def b32_valid_def msb_bits_def)

lemma nth_msb_bits: "i < n \<Longrightarrow> msb_bits n w ! i = bit w (n - 1 - i)"
  by (simp add: msb_bits_def rev_nth)

lemma take_msb_bits: "m \<le> n \<Longrightarrow> take m (msb_bits n w) = msb_bits m (drop_bit (n - m) w)"
  by (rule nth_equalityI) (auto simp: nth_msb_bits bit_drop_bit_eq intro!: arg_cong [where f = "bit w"])

lemma drop_msb_bits: "m \<le> n \<Longrightarrow> drop m (msb_bits n w) = msb_bits (n - m) w"
  by (rule nth_equalityI) (auto simp: nth_msb_bits intro!: arg_cong [where f = "bit w"])

lemma msb_bits_split:
  assumes "m \<le> n"
  shows "msb_bits n w = msb_bits m (drop_bit (n - m) w) @ msb_bits (n - m) w"
  using append_take_drop_id [of m "msb_bits n w"] take_msb_bits [OF assms, of w]
    drop_msb_bits [OF assms, of w] by metis

lemma msb_bits_cong: "(\<And>i. i < n \<Longrightarrow> bit v i = bit w i) \<Longrightarrow> msb_bits n v = msb_bits n w"
  by (simp add: msb_bits_def)

lemma msb_bits_append:
  fixes w :: "'a::len word" and v :: "'b::len word"
  assumes "n + k \<le> LENGTH('a)" and "\<And>i. bit v i \<Longrightarrow> i < k"
  shows "msb_bits (n + k) (push_bit k w OR ucast v) = msb_bits n w @ msb_bits k v"
proof (rule nth_equalityI)
  fix i assume i: "i < length (msb_bits (n + k) (push_bit k w OR ucast v))"
  show "msb_bits (n + k) (push_bit k w OR ucast v) ! i = (msb_bits n w @ msb_bits k v) ! i"
  proof (cases "i < n")
    case True
    then have "\<not> bit v (n + k - 1 - i)" using assms(2) [of "n + k - 1 - i"] by linarith
    with True i assms(1) show ?thesis
      by (simp add: nth_append nth_msb_bits bit_or_iff bit_push_bit_iff bit_ucast_iff)
        (auto intro!: arg_cong [where f = "bit w"])
  next
    case False
    with i assms(1) show ?thesis
      by (auto simp: nth_append nth_msb_bits bit_or_iff bit_push_bit_iff bit_ucast_iff add.commute [of k n])
  qed
qed simp

lemma msb_bits_inj:
  fixes v w :: "'a::len word"
  assumes "msb_bits n v = msb_bits n w" "LENGTH('a) \<le> n"
  shows "v = w"
proof (rule bit_word_eqI)
  fix i assume "i < LENGTH('a)"
  then have "msb_bits n v ! (n - 1 - i) = msb_bits n w ! (n - 1 - i)" using assms by simp
  with \<open>i < LENGTH('a)\<close> assms(2) show "bit v i = bit w i" by (simp add: nth_msb_bits)
qed

lemma bytes_bits_length [simp]: "length (bytes_bits bs) = 8 * length bs"
  by (induction bs) auto

lemma bytes_bits_inj:
  "bytes_bits bs @ r = bytes_bits cs @ t \<Longrightarrow> length r < 8 \<Longrightarrow> length t < 8 \<Longrightarrow> bs = cs \<and> r = t"
proof (induction bs arbitrary: cs)
  case Nil
  then show ?case by (cases cs) auto
next
  case (Cons b bs)
  then obtain c cs' where c: "cs = c # cs'" by (cases cs) auto
  with Cons.prems have "msb_bits 8 b = msb_bits 8 c" "bytes_bits bs @ r = bytes_bits cs' @ t" by auto
  with Cons.IH [of cs'] Cons.prems c show ?case by (auto dest: msb_bits_inj)
qed

subsection \<open>The alphabet\<close>

lemma b32_value_ALPHABET: "k < 32 \<Longrightarrow> b32_value (ALPHABET ! k) = Some (of_nat k)"
proof -
  have "\<forall>k \<in> set [0..<32]. b32_value (ALPHABET ! k) = Some (of_nat k)"
    by code_simp
  then show "k < 32 \<Longrightarrow> b32_value (ALPHABET ! k) = Some (of_nat k)" by simp
qed

lemma mask5: "(0x1f :: 'a::len word) = mask 5"
  by (simp add: mask_eq_exp_minus_1)

lemma alphabet_char:
  fixes w :: u64
  defines "c \<equiv> ALPHABET ! unat (w AND 0x1f)"
  shows "char_bits c = msb_bits 5 w" and "b32_value c \<noteq> None"
proof -
  have "w AND 0x1f \<le> 0x1f" by (rule word_and_le1)
  then have "unat (w AND 0x1f) < 32" by (simp add: word_le_nat_alt)
  then have "b32_value c = Some (of_nat (unat (w AND 0x1f)))"
    unfolding c_def by (rule b32_value_ALPHABET)
  then have v: "b32_value c = Some (ucast (w AND 0x1f))" by simp
  show "b32_value c \<noteq> None" using v by simp
  have "msb_bits 5 (ucast (w AND 0x1f) :: u8) = msb_bits 5 w"
    by (simp add: msb_bits_def mask5 bit_ucast_iff bit_and_iff bit_mask_iff upt_rec [of _ 5])
  then show "char_bits c = msb_bits 5 w" using v by (simp add: char_bits_def)
qed

lemma b32_value_less: "b32_value c = Some v \<Longrightarrow> v < 32"
  unfolding b32_value_def Let_def by (auto split: if_splits) unat_arith+

lemma b32_value_bit: "b32_value c = Some v \<Longrightarrow> bit v i \<Longrightarrow> i < 5"
proof (rule ccontr)
  assume v: "b32_value c = Some v" "bit v i" "\<not> i < 5"
  have "unat v < 2 ^ 5" using b32_value_less [OF v(1)] by (simp add: word_less_nat_alt)
  also have "\<dots> \<le> 2 ^ i" using v(3) by (intro power_increasing) auto
  finally have "\<not> bit (unat v) i" by (simp add: bit_iff_odd)
  with v(2) show False by (simp add: bit_unsigned_iff)
qed

lemma b32_value_inj: "b32_value c = Some v \<Longrightarrow> b32_value d = Some v \<Longrightarrow> c = d"
proof -
  assume c: "b32_value c = Some v" and d: "b32_value d = Some v"
  have "(of_nat (of_char c) :: u8) = of_nat (of_char d)"
    using c d unfolding b32_value_def Let_def by (auto split: if_splits) unat_arith+
  then have "unat (of_nat (of_char c) :: u8) = unat (of_nat (of_char d) :: u8)" by simp
  then have "(of_char c :: nat) = of_char d" by (simp add: unat_of_nat)
  then show "c = d" by simp
qed

lemma char_bits_inj:
  assumes "char_bits c = char_bits d" "b32_value c \<noteq> None" "b32_value d \<noteq> None"
  shows "c = d"
proof -
  obtain v w where v: "b32_value c = Some v" and w: "b32_value d = Some w" using assms(2,3) by auto
  have "v = w"
  proof (rule bit_word_eqI)
    fix i
    have "i < 5 \<Longrightarrow> bit v i = bit w i"
      using assms(1) nth_msb_bits [of "4 - i" 5 v] nth_msb_bits [of "4 - i" 5 w] v w
      by (simp add: char_bits_def)
    then show "bit v i = bit w i" using b32_value_bit v w by blast
  qed
  with v w show ?thesis using b32_value_inj by blast
qed

lemma char_bits_length: "b32_value c \<noteq> None \<Longrightarrow> length (char_bits c) = 5"
  by (auto simp: char_bits_def)

lemma chars_bits_length: "b32_valid s \<Longrightarrow> length (chars_bits s) = 5 * length s"
  by (induction s) (auto simp: char_bits_length simp del: not_None_eq)

lemma chars_bits_inj: "chars_bits s = chars_bits t \<Longrightarrow> b32_valid s \<Longrightarrow> b32_valid t \<Longrightarrow> s = t"
proof (induction s arbitrary: t)
  case Nil
  then show ?case using chars_bits_length [of t] by simp
next
  case (Cons c s)
  then obtain d u where t: "t = d # u"
    using chars_bits_length [of "c # s"] by (cases t) (auto simp del: not_None_eq)
  with Cons.prems have "char_bits c = char_bits d \<and> chars_bits s = chars_bits u"
    by (auto simp: char_bits_length append_eq_append_conv simp del: not_None_eq)
  with Cons t show ?case by (auto intro: char_bits_inj simp del: not_None_eq)
qed

subsection \<open>What the loops compute\<close>

lemma b32_drain_bits:
  "b32_drain bits n out = (n', out') \<Longrightarrow> b32_valid out \<Longrightarrow>
     n' < 5 \<and> b32_valid out' \<and> chars_bits out' @ msb_bits n' bits = chars_bits out @ msb_bits n bits"
proof (induction bits n out rule: b32_drain.induct)
  case (1 bits n out)
  show ?case
  proof (cases "5 \<le> n")
    case True
    let ?out = "out @ [ALPHABET ! unat (drop_bit (n - 5) bits AND 0x1f)]"
    from "1.prems"(1) True have drain: "b32_drain bits (n - 5) ?out = (n', out')"
      by (subst (asm) b32_drain.simps) simp
    have valid: "b32_valid ?out" using "1.prems"(2) alphabet_char(2) by simp
    have "chars_bits out' @ msb_bits n' bits = chars_bits ?out @ msb_bits (n - 5) bits"
      using "1.IH" [OF True drain valid] by simp
    also have "\<dots> = chars_bits out @ msb_bits n bits"
      using msb_bits_split [OF True, of bits] by (simp add: alphabet_char(1))
    finally show ?thesis using "1.IH" [OF True drain valid] by simp
  next
    case False
    with "1.prems" show ?thesis by (subst (asm) b32_drain.simps) auto
  qed
qed

lemma byte_bit: "bit (b :: u8) i \<Longrightarrow> i < 8"
  using bit_imp_le_length [of b i] by simp

lemma b32_enc_loop_bits:
  "b32_enc_loop bits n out bs = (bits', n', out') \<Longrightarrow> n < 5 \<Longrightarrow> b32_valid out \<Longrightarrow>
     n' < 5 \<and> b32_valid out' \<and>
     chars_bits out' @ msb_bits n' bits' = chars_bits out @ msb_bits n bits @ bytes_bits bs"
proof (induction bs arbitrary: bits n out)
  case (Cons b bs)
  obtain m out1 where d: "b32_drain (push_bit 8 bits OR ucast b) (n + 8) out = (m, out1)"
    by fastforce
  have app: "msb_bits (n + 8) (push_bit 8 bits OR ucast b) = msb_bits n bits @ msb_bits 8 b"
    using Cons.prems(2) byte_bit by (intro msb_bits_append) auto
  from Cons.prems(1) d have
    "b32_enc_loop (push_bit 8 bits OR ucast b) m out1 bs = (bits', n', out')" by simp
  with Cons.IH b32_drain_bits [OF d Cons.prems(3)] app show ?case by fastforce
qed auto

lemma b32_dec_loop_bits:
  assumes "n < 8"
  shows "case b32_dec_loop bits n out s of
           None \<Rightarrow> \<not> b32_valid s
         | Some (bits', n', out') \<Rightarrow> b32_valid s \<and> n' < 8 \<and>
             bytes_bits out' @ msb_bits n' bits' = bytes_bits out @ msb_bits n bits @ chars_bits s"
  using assms
proof (induction s arbitrary: bits n out)
  case (Cons c s)
  show ?case
  proof (cases "b32_value c")
    case (Some v)
    define w where "w = push_bit 5 bits OR ucast v"
    have app: "msb_bits (n + 5) w = msb_bits n bits @ char_bits c"
      unfolding w_def char_bits_def Some using Cons.prems b32_value_bit [OF Some]
      by (simp add: msb_bits_append)
    show ?thesis
    proof (cases "8 \<le> n + 5")
      case True
      have "msb_bits 8 (ucast (drop_bit (n + 5 - 8) w) :: u8) = msb_bits 8 (drop_bit (n + 5 - 8) w)"
        by (rule msb_bits_cong) (simp add: bit_ucast_iff)
      with msb_bits_split [OF True, of w] app have
        "msb_bits 8 (ucast (drop_bit (n + 5 - 8) w) :: u8) @ msb_bits (n + 5 - 8) w
           = msb_bits n bits @ char_bits c" by simp
      moreover have "n + 5 - 8 < 8" using Cons.prems by simp
      ultimately show ?thesis
        using Cons.IH [where n = "n + 5 - 8" and bits = w and out = "out @ [ucast (drop_bit (n + 5 - 8) w)]"] Some True
        by (auto simp: w_def [symmetric] Let_def split: option.splits)
    next
      case False
      with Cons.IH [where n = "n + 5" and bits = w and out = out] Some app show ?thesis
        by (auto simp: w_def [symmetric] Let_def split: option.splits)
    qed
  qed simp
qed simp

lemma low_bits_zero:
  fixes w :: u32
  assumes "n < 8"
  shows "w AND (push_bit n 1 - 1) = 0 \<longleftrightarrow> msb_bits n w = replicate n False"
proof -
  have "w AND (push_bit n 1 - 1) = take_bit n w"
    by (simp add: take_bit_eq_mask mask_eq_decr_exp push_bit_eq_mult)
  also have "take_bit n w = 0 \<longleftrightarrow> (\<forall>i < n. \<not> bit w i)"
    using assms by (auto simp: bit_eq_iff bit_take_bit_iff dest: bit_imp_le_length)
  also have "\<dots> \<longleftrightarrow> (\<forall>b \<in> set (msb_bits n w). b = False)" by (auto simp: msb_bits_def)
  also have "\<dots> \<longleftrightarrow> msb_bits n w = replicate n False"
    using replicate_eqI [of "msb_bits n w" n False] by (metis bits_simps(11) in_set_replicate)
  finally show ?thesis .
qed

lemma base32_encode_bits:
  obtains k where "k < 5" "b32_valid (base32_encode bs)"
    "chars_bits (base32_encode bs) = bytes_bits bs @ replicate k False"
proof -
  obtain bits n out where l: "b32_enc_loop 0 0 [] bs = (bits, n, out)" by (metis prod_cases3)
  have e: "n < 5" "b32_valid out" "chars_bits out @ msb_bits n bits = bytes_bits bs"
    using b32_enc_loop_bits [OF l] by simp_all
  show ?thesis
  proof (cases "n = 0")
    case True
    with l e show ?thesis by (intro that [of 0]) (auto simp: base32_encode_def)
  next
    case False
    have "msb_bits 5 (push_bit (5 - n) bits OR ucast (0 :: u8)) = msb_bits n bits @ msb_bits (5 - n) (0 :: u8)"
      using msb_bits_append [of n "5 - n" "0 :: u8" bits] e(1) by simp
    also have "msb_bits (5 - n) (0 :: u8) = replicate (5 - n) False"
      by (rule nth_equalityI) (auto simp: nth_msb_bits)
    finally have "msb_bits 5 (push_bit (5 - n) bits) = msb_bits n bits @ replicate (5 - n) False" by simp
    with False l e alphabet_char(2) show ?thesis
      by (intro that [of "5 - n"]) (auto simp: base32_encode_def alphabet_char(1))
  qed
qed

lemma base32_decode_bits:
  "base32_decode s = Some bs \<longleftrightarrow>
     b32_valid s \<and> (\<exists>n < 8. chars_bits s = bytes_bits bs @ replicate n False)"
proof (cases "b32_dec_loop 0 0 [] s")
  case None
  with b32_dec_loop_bits [where n = 0 and bits = 0 and out = "[]" and s = s] show ?thesis by (simp add: base32_decode_def)
next
  case (Some r)
  obtain bits n out where r: "r = (bits, n, out)" by (metis prod_cases3)
  with Some b32_dec_loop_bits [where n = 0 and bits = 0 and out = "[]" and s = s] have
    l: "b32_valid s" "n < 8" "chars_bits s = bytes_bits out @ msb_bits n bits" by simp_all
  have "base32_decode s = Some bs \<longleftrightarrow> msb_bits n bits = replicate n False \<and> out = bs"
    using Some r low_bits_zero [OF l(2), of bits] by (auto simp: base32_decode_def)
  also have "\<dots> \<longleftrightarrow> (\<exists>m < 8. chars_bits s = bytes_bits bs @ replicate m False)"
    using l(2,3) bytes_bits_inj [of out "msb_bits n bits" bs] by (metis bits_simps(11) length_replicate)
  finally show ?thesis using l(1) by simp
qed

subsection \<open>Decoding what was encoded\<close>

lemma base32_roundtrip: "base32_decode (base32_encode bs) = Some bs"
proof -
  obtain k where "k < 5" "b32_valid (base32_encode bs)"
    "chars_bits (base32_encode bs) = bytes_bits bs @ replicate k False" by (rule base32_encode_bits)
  then show ?thesis unfolding base32_decode_bits by (metis add_lessD1 less_imp_add_positive numeral_less_iff semiring_norm(76,77,78,80,81) less_trans)
qed

lemma base32_encode_length:
  "8 * length bs \<le> 5 * length (base32_encode bs)" "5 * length (base32_encode bs) < 8 * length bs + 5"
proof -
  obtain k where k: "k < 5" "b32_valid (base32_encode bs)"
    "chars_bits (base32_encode bs) = bytes_bits bs @ replicate k False" by (rule base32_encode_bits)
  then have "5 * length (base32_encode bs) = 8 * length bs + k"
    using chars_bits_length [OF k(2)] by simp
  then show "8 * length bs \<le> 5 * length (base32_encode bs)"
    "5 * length (base32_encode bs) < 8 * length bs + 5" using k(1) by simp_all
qed

text \<open>The character \<^verbatim>\<open>a\<close> stands for five zero bits.\<close>

lemma char_bits_a: "b32_value (CHR ''a'') \<noteq> None" "char_bits (CHR ''a'') = replicate 5 False"
  by (code_simp, code_simp)

text \<open>
  Which strings decode to given bytes: the encoder's own, and, when its padding leaves room for
  five more zero bits below a whole byte, the same string with one more \<^verbatim>\<open>a\<close>.
\<close>

lemma five_residue:
  fixes n k L a b :: nat
  assumes "5 * a = L + n" "5 * b = L + k" "k < 5" "n < 8"
  shows "n = k \<or> n = k + 5"
proof -
  consider "a < b" | "a = b" | "a = b + 1" | "b + 2 \<le> a" by linarith
  then show ?thesis by cases (use assms in linarith)+
qed

lemma base32_decode_iff:
  "base32_decode s = Some bs \<longleftrightarrow>
     s = base32_encode bs \<or>
     s = base32_encode bs @ ''a'' \<and> 5 * length (base32_encode bs) < 8 * length bs + 3"
proof -
  obtain k where k: "k < 5" "b32_valid (base32_encode bs)"
    "chars_bits (base32_encode bs) = bytes_bits bs @ replicate k False" by (rule base32_encode_bits)
  have len: "5 * length (base32_encode bs) = 8 * length bs + k"
    using chars_bits_length [OF k(2)] k(3) by simp
  have va: "b32_valid (base32_encode bs @ ''a'')"
    and ba: "chars_bits (base32_encode bs @ ''a'') = bytes_bits bs @ replicate (k + 5) False"
    using k char_bits_a by (simp_all add: replicate_add del: not_None_eq)
  show ?thesis
  proof
    assume "base32_decode s = Some bs"
    then obtain n where n: "b32_valid s" "n < 8" "chars_bits s = bytes_bits bs @ replicate n False"
      unfolding base32_decode_bits by auto
    then have "5 * length s = 8 * length bs + n" using chars_bits_length [OF n(1)] by simp
    then consider "n = k" | "n = k + 5" using five_residue [OF _ len k(1) n(2)] by blast
    then show "s = base32_encode bs \<or>
      s = base32_encode bs @ ''a'' \<and> 5 * length (base32_encode bs) < 8 * length bs + 3"
      using n k(2,3) va ba len by cases (auto intro: chars_bits_inj)
  next
    assume "s = base32_encode bs \<or>
      s = base32_encode bs @ ''a'' \<and> 5 * length (base32_encode bs) < 8 * length bs + 3"
    then show "base32_decode s = Some bs"
      unfolding base32_decode_bits using va ba k len by auto
  qed
qed

lemma base32_decode_32: "length bs = 32 \<Longrightarrow> base32_decode s = Some bs \<longleftrightarrow> s = base32_encode bs"
  unfolding base32_decode_iff using base32_encode_length [of bs] by auto presburger

section \<open>Onion hosts\<close>

definition strip_suffix :: "string \<Rightarrow> string \<Rightarrow> string option" where
  "strip_suffix suf s = (if suffix suf s then Some (take (length s - length suf) s) else None)"

lemma strip_suffix_append [simp]: "strip_suffix suf (s @ suf) = Some s"
  by (simp add: strip_suffix_def suffix_def)

definition ascii_bytes :: "string \<Rightarrow> u8 list" where
  "ascii_bytes s = map (\<lambda>c. of_nat (of_char c)) s"

definition onion_host :: "(u8 list \<Rightarrow> u8 list) \<Rightarrow> u8 list \<Rightarrow> string" where
  "onion_host sha3 key =
     (let hash = sha3 (ascii_bytes ''.onion checksum'' @ key @ [3])
      in base32_encode (key @ take 2 hash @ [3]) @ ''.onion'')"

definition onion_key :: "(u8 list \<Rightarrow> u8 list) \<Rightarrow> string \<Rightarrow> u8 list option" where
  "onion_key sha3 host =
     (case strip_suffix ''.onion'' host of
        None \<Rightarrow> None
      | Some b32 \<Rightarrow>
          (case base32_decode b32 of
             None \<Rightarrow> None
           | Some raw \<Rightarrow>
               (if length raw < 32 then None
                else let key = take 32 raw
                     in if length raw = 35 \<and> onion_host sha3 key = host then Some key else None)))"

lemma onion_key_onion_host:
  assumes "length key = 32" "\<And>x. length (sha3 x) = 32"
  shows "onion_key sha3 (onion_host sha3 key) = Some key"
  using assms by (simp add: onion_key_def onion_host_def Let_def base32_roundtrip)

lemma onion_key_Some:
  "onion_key sha3 host = Some key \<Longrightarrow> host = onion_host sha3 key \<and> length key = 32"
  by (auto simp: onion_key_def Let_def split: option.splits if_splits)

section \<open>Display\<close>

text \<open>Rust's \<^verbatim>\<open>{}\<close> and \<^verbatim>\<open>{:x}\<close> on unsigned integers: no leading zeros.\<close>

definition digit_char :: "nat \<Rightarrow> char" where
  "digit_char d = ''0123456789abcdef'' ! d"

fun show_radix :: "nat \<Rightarrow> nat \<Rightarrow> string" where
  "show_radix r n =
     (if n < r \<or> r < 2 then [digit_char n]
      else show_radix r (n div r) @ [digit_char (n mod r)])"

declare show_radix.simps [simp del]

abbreviation show_dec :: "nat \<Rightarrow> string" where "show_dec \<equiv> show_radix 10"
abbreviation show_hex :: "nat \<Rightarrow> string" where "show_hex \<equiv> show_radix 16"

fun join :: "string \<Rightarrow> string list \<Rightarrow> string" where
  "join sep [] = []"
| "join sep [x] = x"
| "join sep (x # y # xs) = x @ sep @ join sep (y # xs)"

definition show_v4 :: "u8 list \<Rightarrow> string" where
  "show_v4 b = join ''.'' (map (\<lambda>x. show_dec (unat x)) b)"

fun v6_segments :: "u8 list \<Rightarrow> nat list" where
  "v6_segments (hi # lo # bs) = (256 * unat hi + unat lo) # v6_segments bs"
| "v6_segments _ = []"

text \<open>The first longest run of zero segments: \<open>(start, len)\<close>.\<close>

fun zero_span :: "nat \<Rightarrow> nat \<times> nat \<Rightarrow> nat \<times> nat \<Rightarrow> nat list \<Rightarrow> nat \<times> nat" where
  "zero_span i cur best [] = best"
| "zero_span i (cs, cl) (bs, bl) (x # xs) =
     (if x = 0
      then (let cur = (if cl = 0 then i else cs, cl + 1)
            in zero_span (i + 1) cur (if bl < snd cur then cur else (bs, bl)) xs)
      else zero_span (i + 1) (0, 0) (bs, bl) xs)"

definition show_groups :: "nat list \<Rightarrow> string" where
  "show_groups gs = join '':'' (map show_hex gs)"

definition show_v6 :: "u8 list \<Rightarrow> string" where
  "show_v6 b =
     (case to_ipv4_mapped b of
        Some v4 \<Rightarrow> ''::ffff:'' @ show_v4 v4
      | None \<Rightarrow>
          (let segs = v6_segments b; (start, len) = zero_span 0 (0, 0) (0, 0) segs
           in if 1 < len
              then show_groups (take start segs) @ ''::'' @ show_groups (drop (start + len) segs)
              else show_groups segs))"

fun display :: "(u8 list \<Rightarrow> u8 list) \<Rightarrow> peer_addr \<Rightarrow> string" where
  "display sha3 (Ipv4 b p) = show_v4 b @ '':'' @ show_dec (unat p)"
| "display sha3 (Ipv6 b p) = ''['' @ show_v6 b @ '']:'' @ show_dec (unat p)"
| "display sha3 (TorV3 key p) = onion_host sha3 key @ '':'' @ show_dec (unat p)"
| "display sha3 (I2p hash p) = base32_encode hash @ ''.b32.i2p:'' @ show_dec (unat p)"
| "display sha3 (Cjdns b p) = ''cjdns:['' @ show_v6 b @ '']:'' @ show_dec (unat p)"

section \<open>Properties\<close>

text \<open>
  Which strings base32 decodes to given bytes, exactly: the encoder's own output and, at lengths
  that leave fewer than three padding bits, that output with one more \<^verbatim>\<open>a\<close>. So decoding inverts encoding,
  non-zero trailing bits are refused, and the mapping is one-to-one at 32 bytes but not at every length.
\<close>

theorem base32_decodes_exactly:
  "base32_decode s = Some bs \<longleftrightarrow>
     s = base32_encode bs \<or>
     s = base32_encode bs @ ''a'' \<and> 5 * length (base32_encode bs) < 8 * length bs + 3"
  by (rule base32_decode_iff)

text \<open>
  Given a digest of 32 bytes, an onion host parses to a key exactly when it is the host printed for
  that 32-byte key: checksum, version and spelling are all enforced.
\<close>

theorem onion_host_parses_exactly:
  assumes "\<And>x. length (sha3 x) = 32"
  shows "onion_key sha3 host = Some key \<longleftrightarrow> length key = 32 \<and> host = onion_host sha3 key"
  using onion_key_onion_host [of key sha3] onion_key_Some [of sha3 host key] assms by blast

theorem onion_host_parses_exactly_witness:
  "onion_key (\<lambda>_. replicate 32 7) (onion_host (\<lambda>_. replicate 32 7) (replicate 32 1)) = Some (replicate 32 1)"
  using onion_host_parses_exactly [of "\<lambda>_. replicate 32 7" "onion_host (\<lambda>_. replicate 32 7) (replicate 32 1)" "replicate 32 1"]
  by simp

text \<open>
  An address taken from an \<^verbatim>\<open>addrv2\<close> announcement keeps the announced port, has the byte lengths of
  its network, and is in normal form: nothing filed as IPv6 is an IPv4-mapped or a CJDNS address,
  so a peer cannot have one address stored under two keys through the IPv6 form.
\<close>

fun wf_addr_v2 :: "addr_v2 \<Rightarrow> bool" where
  "wf_addr_v2 (AddrIpv4 b) = (length b = 4)"
| "wf_addr_v2 (AddrIpv6 b) = (length b = 16)"
| "wf_addr_v2 (AddrTorV3 b) = (length b = 32)"
| "wf_addr_v2 (AddrI2p b) = (length b = 32)"
| "wf_addr_v2 (AddrCjdns b) = (length b = 16)"
| "wf_addr_v2 (AddrUnknown _ _) = True"

theorem announced_address_is_normal:
  assumes "wf_addr_v2 (msg_addr msg)" "try_from_addr_v2 msg = Some a"
  shows "normal_addr a \<and> wf_peer_addr a \<and> port a = msg_port msg"
  using assms from_socket_addr_normal from_socket_addr_wf
  by (auto simp: try_from_addr_v2_def split: addr_v2.splits)

theorem announced_address_is_normal_witness:
  "normal_addr (Ipv4 [1, 2, 3, 4] 8333) \<and> wf_peer_addr (Ipv4 [1, 2, 3, 4] 8333) \<and> port (Ipv4 [1, 2, 3, 4] 8333) = 8333"
  using announced_address_is_normal
    [of "\<lparr>msg_time = 0, msg_services = 1, msg_addr = AddrIpv6 (replicate 10 0 @ [0xff, 0xff, 1, 2, 3, 4]), msg_port = 8333\<rparr>"
        "Ipv4 [1, 2, 3, 4] 8333"]
  by (simp add: try_from_addr_v2_def from_socket_addr_def to_ipv4_mapped_def numeral_eq_Suc)

end
