(* ===== verification/Atomic_File.thy ===== *)
theory Atomic_File
  imports Prelude
begin

text \<open>
  The write discipline the ban list (\<^verbatim>\<open>Banlist::save\<close>) and the address snapshot (\<^verbatim>\<open>persist::save\<close>)
  share: create a temporary file beside the target, write everything, flush it to disk, rename it over
  the target, stopping at the first error. The file system is a map from file names to files; a file
  knows whether its contents have been flushed. Each system call takes its outcome as an argument, and
  a failing write may have written any number of bytes.

  A crash keeps every flushed file and gives an unflushed one arbitrary contents (or loses it). The
  lemmas show that at every moment of a save, and after any crash at that moment, a reader of the
  target sees the old contents or the new ones, whole; that an error leaves the target untouched;
  and that the temporary file is never the target itself.
\<close>

section \<open>Paths\<close>

text \<open>
  \<^verbatim>\<open>Path::file_stem\<close> on a file name: everything before the last dot, or the whole name when there is no
  dot or the only dot is the first character. \<^verbatim>\<open>Path::with_extension\<close> replaces what follows the stem.
\<close>

definition file_stem :: "string \<Rightarrow> string" where
  "file_stem name =
     (case dropWhile (\<lambda>c. c \<noteq> CHR ''.'') (rev name) of
        [] \<Rightarrow> name
      | _ # before \<Rightarrow> if before = [] then name else rev before)"

definition with_extension :: "string \<Rightarrow> string \<Rightarrow> string" where
  "with_extension name ext = (if ext = [] then file_stem name else file_stem name @ ''.'' @ ext)"

lemma dropWhile_dot_split:
  assumes "dropWhile (\<lambda>c. c \<noteq> d) (rev name) = x # before"
  shows "\<exists>ext. name = rev before @ [d] @ ext \<and> d \<notin> set ext"
proof -
  let ?e = "takeWhile (\<lambda>c. c \<noteq> d) (rev name)"
  have "x = d" using hd_dropWhile [of "\<lambda>c. c \<noteq> d" "rev name"] assms by auto
  moreover have "rev name = ?e @ x # before" using takeWhile_dropWhile_id [of _ "rev name"] assms by metis
  then have "name = rev before @ [x] @ rev ?e" by (metis append_assoc rev.simps(2) rev_append rev_rev_ident)
  moreover have "d \<notin> set (rev ?e)" by (auto dest: set_takeWhileD)
  ultimately show ?thesis by blast
qed

lemma with_extension_neq:
  assumes "CHR ''.'' \<in> set ext"
  shows "with_extension name ext \<noteq> name"
proof -
  have ne: "ext \<noteq> []" using assms by auto
  show ?thesis
  proof (cases "file_stem name = name")
    case True
    then show ?thesis using ne by (simp add: with_extension_def)
  next
    case False
    then obtain x before where
      "dropWhile (\<lambda>c. c \<noteq> CHR ''.'') (rev name) = x # before" "file_stem name = rev before"
      by (auto simp: file_stem_def split: list.splits if_splits)
    then obtain e where e: "name = file_stem name @ ''.'' @ e" "CHR ''.'' \<notin> set e"
      using dropWhile_dot_split by metis
    show ?thesis
    proof
      assume "with_extension name ext = name"
      then have "file_stem name @ ''.'' @ ext = file_stem name @ ''.'' @ e"
        using e(1) ne by (simp add: with_extension_def)
      then show False using e(2) assms by auto
    qed
  qed
qed

section \<open>The file system\<close>

record stored_file =
  contents :: "u8 list"
  flushed :: bool

type_synonym fs = "string \<Rightarrow> stored_file option"

datatype fs_call = Create string | WriteAll string "u8 list" | SyncAll string | Rename string string

text \<open>The outcome of a call: success, or an error after \<open>n\<close> bytes.\<close>

datatype call_outcome = CallOk | CallErr nat

fun do_call :: "fs_call \<Rightarrow> fs \<Rightarrow> fs" where
  "do_call (Create p) fs = fs(p \<mapsto> \<lparr>contents = [], flushed = False\<rparr>)"
| "do_call (WriteAll p bs) fs =
     (case fs p of None \<Rightarrow> fs | Some f \<Rightarrow> fs(p \<mapsto> \<lparr>contents = contents f @ bs, flushed = False\<rparr>))"
| "do_call (SyncAll p) fs =
     (case fs p of None \<Rightarrow> fs | Some f \<Rightarrow> fs(p \<mapsto> f\<lparr>flushed := True\<rparr>))"
| "do_call (Rename p q) fs = (case fs p of None \<Rightarrow> fs | Some f \<Rightarrow> fs(p := None, q \<mapsto> f))"

fun fail_call :: "fs_call \<Rightarrow> nat \<Rightarrow> fs \<Rightarrow> fs" where
  "fail_call (WriteAll p bs) n fs = do_call (WriteAll p (take n bs)) fs"
| "fail_call _ n fs = fs"

text \<open>
  Calls in sequence with the \<^verbatim>\<open>?\<close> operator between them: whether all succeeded, and every state the
  file system went through, the last one included.
\<close>

fun run_calls :: "fs_call list \<Rightarrow> call_outcome list \<Rightarrow> fs \<Rightarrow> bool \<times> fs list" where
  "run_calls (c # cs) (CallErr n # os) fs = (False, [fs, fail_call c n fs])"
| "run_calls (c # cs) (_ # os) fs =
     (let (ok, trace) = run_calls cs os (do_call c fs) in (ok, fs # trace))"
| "run_calls (c # cs) [] fs = (False, [fs, fail_call c 0 fs])"
| "run_calls [] _ fs = (True, [fs])"

definition save_calls :: "string \<Rightarrow> string \<Rightarrow> u8 list \<Rightarrow> fs_call list" where
  "save_calls tmp path bytes = [Create tmp, WriteAll tmp bytes, SyncAll tmp, Rename tmp path]"

definition atomic_save :: "string \<Rightarrow> string \<Rightarrow> u8 list \<Rightarrow> call_outcome list \<Rightarrow> fs \<Rightarrow> bool \<times> fs list" where
  "atomic_save tmp path bytes os fs = run_calls (save_calls tmp path bytes) os fs"

definition read_file :: "fs \<Rightarrow> string \<Rightarrow> u8 list option" where
  "read_file fs p = map_option contents (fs p)"

text \<open>What reading a file may give; in the modelled file system there is no error but a missing file.\<close>

datatype read_outcome = ReadOk "u8 list" | ReadNotFound | ReadFailed

definition read_outcome_of :: "fs \<Rightarrow> string \<Rightarrow> read_outcome" where
  "read_outcome_of fs p = (case read_file fs p of None \<Rightarrow> ReadNotFound | Some b \<Rightarrow> ReadOk b)"

text \<open>Losing power: what was flushed stays, what was not is anything or gone.\<close>

definition crash :: "fs \<Rightarrow> fs \<Rightarrow> bool" where
  "crash fs fs' \<longleftrightarrow> (\<forall>p. case fs p of
       None \<Rightarrow> fs' p = None
     | Some f \<Rightarrow> flushed f \<longrightarrow> fs' p = Some f)"

definition target_flushed :: "fs \<Rightarrow> string \<Rightarrow> bool" where
  "target_flushed fs p \<longleftrightarrow> (case fs p of None \<Rightarrow> True | Some f \<Rightarrow> flushed f)"

lemma crash_read: "crash fs fs' \<Longrightarrow> target_flushed fs p \<Longrightarrow> read_file fs' p = read_file fs p"
  by (auto simp: crash_def target_flushed_def read_file_def dest: spec [of _ p] split: option.splits)

section \<open>A save is all or nothing\<close>

lemma run_calls_Cons:
  "run_calls (c # cs) os fs =
     (case os of
        [] \<Rightarrow> (False, [fs, fail_call c 0 fs])
      | CallErr n # _ \<Rightarrow> (False, [fs, fail_call c n fs])
      | CallOk # os' \<Rightarrow> (fst (run_calls cs os' (do_call c fs)), fs # snd (run_calls cs os' (do_call c fs))))"
  by (auto split: list.splits call_outcome.splits prod.splits)

lemmas save_unfold = atomic_save_def save_calls_def run_calls_Cons

lemma atomic_save_states:
  assumes "tmp \<noteq> path" "target_flushed fs path" "fs' \<in> set (snd (atomic_save tmp path bytes os fs))"
  shows "target_flushed fs' path \<and> read_file fs' path \<in> {read_file fs path, Some bytes}"
  using assms unfolding save_unfold
  by (auto simp: target_flushed_def read_file_def split: list.splits call_outcome.splits)

lemma atomic_save_ok:
  assumes "tmp \<noteq> path" "fst (atomic_save tmp path bytes os fs)"
  shows "read_file (last (snd (atomic_save tmp path bytes os fs))) path = Some bytes"
    "last (snd (atomic_save tmp path bytes os fs)) tmp = None"
  using assms unfolding save_unfold
  by (auto simp: read_file_def split: list.splits call_outcome.splits)

lemma atomic_save_error:
  assumes "tmp \<noteq> path" "\<not> fst (atomic_save tmp path bytes os fs)"
  shows "last (snd (atomic_save tmp path bytes os fs)) path = fs path"
  using assms unfolding save_unfold
  by (auto split: list.splits call_outcome.splits)

lemma atomic_save_frame:
  assumes "p \<noteq> path" "p \<noteq> tmp" "fs' \<in> set (snd (atomic_save tmp path bytes os fs))"
  shows "fs' p = fs p"
  using assms unfolding save_unfold
  by (auto split: list.splits call_outcome.splits)

lemma atomic_save_succeeds: "fst (atomic_save tmp path bytes [CallOk, CallOk, CallOk, CallOk] fs)"
  unfolding save_unfold by simp

text \<open>Whatever happens, and whenever the power goes, a reader finds one version or the other.\<close>

lemma atomic_save_crash_safe:
  assumes "tmp \<noteq> path" "target_flushed fs path"
    "fs' \<in> set (snd (atomic_save tmp path bytes os fs))" "crash fs' fs''"
  shows "read_file fs'' path \<in> {read_file fs path, Some bytes}"
  using atomic_save_states [OF assms(1-3)] crash_read [OF assms(4)] by metis

end
