(* ===== verification/Banlist.thy ===== *)
theory Banlist
  imports Peer_Addr Atomic_File
begin

text \<open>
  \<^verbatim>\<open>observer/src/addresses/banlist.rs\<close>: CIDR networks, the operator's ban list and its file. JSON is
  read and written by \<^verbatim>\<open>serde_json\<close>, the parameters \<open>to_json\<close> and \<open>from_json\<close>.

  The lemmas show that a network contains exactly the addresses of its family that agree with it on
  the first \<^verbatim>\<open>prefix_len\<close> bits, that adding a ban bans exactly what the entry covers and never lifts
  another, that adding twice adds nothing, and that a saved list is loaded back.
\<close>

section \<open>CIDR networks\<close>

record ip_net =
  net_addr :: ip_addr
  net_prefix_len :: u8

text \<open>\<^verbatim>\<open>u32::from\<close> and \<^verbatim>\<open>u128::from\<close> on an address: its octets, big-endian.\<close>

definition be_word :: "u8 list \<Rightarrow> 'a::len word" where
  "be_word bs = foldl (\<lambda>w b. push_bit 8 w OR ucast b) 0 bs"

fun net_contains :: "ip_net \<Rightarrow> ip_addr \<Rightarrow> bool" where
  "net_contains n i =
     (case (net_addr n, i) of
        (V4 a, V4 b) \<Rightarrow>
          (let shift = sat_sub 32 (net_prefix_len n);
               mask = if 32 \<le> shift then 0 else push_bit (unat shift) (NOT 0) :: u32
           in be_word a AND mask = be_word b AND mask)
      | (V6 a, V6 b) \<Rightarrow>
          (let shift = sat_sub 128 (net_prefix_len n);
               mask = if 128 \<le> shift then 0 else push_bit (unat shift) (NOT 0) :: 128 word
           in be_word a AND mask = be_word b AND mask)
      | _ \<Rightarrow> False)"

declare net_contains.simps [simp del]

subsection \<open>Masks and prefixes\<close>

lemma be_word_snoc: "be_word (bs @ [b]) = push_bit 8 (be_word bs) OR ucast b"
  by (simp add: be_word_def)

lemma msb_bits_be_word:
  "8 * length bs \<le> LENGTH('a) \<Longrightarrow> msb_bits (8 * length bs) (be_word bs :: 'a::len word) = bytes_bits bs"
proof (induction bs rule: rev_induct)
  case (snoc b bs)
  have "msb_bits (8 * length bs + 8) (be_word (bs @ [b]) :: 'a word) =
      msb_bits (8 * length bs) (be_word bs :: 'a word) @ msb_bits 8 b"
    unfolding be_word_snoc by (rule msb_bits_append) (use snoc.prems bit_imp_le_length in fastforce)+
  with snoc show ?case by (simp add: add.commute)
qed simp

text \<open>Masking with all bits from \<open>s\<close> up compares the bits above \<open>s\<close>.\<close>

lemma mask_eq_iff_take:
  fixes v w :: "'a::len word"
  assumes "s \<le> LENGTH('a)"
  shows "v AND push_bit s (NOT 0) = w AND push_bit s (NOT 0) \<longleftrightarrow>
    take (LENGTH('a) - s) (msb_bits LENGTH('a) v) = take (LENGTH('a) - s) (msb_bits LENGTH('a) w)"
proof -
  have "v AND push_bit s (NOT 0) = w AND push_bit s (NOT 0) \<longleftrightarrow>
      (\<forall>i < LENGTH('a). s \<le> i \<longrightarrow> bit v i = bit w i)"
    by (auto simp: bit_eq_iff bit_and_iff bit_push_bit_iff bit_not_iff bit_mask_iff)
  also have "\<dots> \<longleftrightarrow> (\<forall>j < LENGTH('a) - s. bit v (LENGTH('a) - 1 - j) = bit w (LENGTH('a) - 1 - j))"
  proof safe
    fix i assume h: "\<forall>j < LENGTH('a) - s. bit v (LENGTH('a) - 1 - j) = bit w (LENGTH('a) - 1 - j)"
      "i < LENGTH('a)" "s \<le> i"
    show "bit v i \<Longrightarrow> bit w i" "bit w i \<Longrightarrow> bit v i" using h(1)[rule_format, of "LENGTH('a) - 1 - i"] h(2,3) by auto
  qed auto
  also have "\<dots> \<longleftrightarrow> take (LENGTH('a) - s) (msb_bits LENGTH('a) v) = take (LENGTH('a) - s) (msb_bits LENGTH('a) w)"
    by (auto simp: list_eq_iff_nth_eq nth_msb_bits)
  finally show ?thesis .
qed

text \<open>The specification: the two addresses agree on the first bits.\<close>

fun same_prefix :: "nat \<Rightarrow> ip_addr \<Rightarrow> ip_addr \<Rightarrow> bool" where
  "same_prefix n (V4 a) (V4 b) = (take n (bytes_bits a) = take n (bytes_bits b))"
| "same_prefix n (V6 a) (V6 b) = (take n (bytes_bits a) = take n (bytes_bits b))"
| "same_prefix n _ _ = False"

lemma mask_compare:
  fixes p w :: u8
  assumes len: "8 * length a = LENGTH('a)" "8 * length b = LENGTH('a)" and w: "unat w = LENGTH('a)"
  shows "be_word a AND (if w \<le> sat_sub w p then 0 else push_bit (unat (sat_sub w p)) (NOT 0)) =
      be_word b AND (if w \<le> sat_sub w p then 0 else push_bit (unat (sat_sub w p)) (NOT 0) :: 'a::len word)
    \<longleftrightarrow> take (unat p) (bytes_bits a) = take (unat p) (bytes_bits b)"
proof -
  let ?L = "LENGTH('a)"
  have s: "unat (sat_sub w p) = ?L - unat p" using w by (simp add: unat_simps)
  have bits: "msb_bits ?L (be_word a :: 'a word) = bytes_bits a"
    "msb_bits ?L (be_word b :: 'a word) = bytes_bits b"
    using msb_bits_be_word [of a, where 'a = 'a] msb_bits_be_word [of b, where 'a = 'a] len by simp_all
  show ?thesis
  proof (cases "w \<le> sat_sub w p")
    case True
    then have "?L \<le> ?L - unat p" using s w by (simp add: word_le_nat_alt)
    then have "unat p = 0" using len_gt_0 [where 'a = 'a] by linarith
    with True show ?thesis by simp
  next
    case False
    have t: "take (unat p) (bytes_bits c) = take (?L - unat (sat_sub w p)) (bytes_bits c)"
      if "8 * length c = ?L" for c
      using s that by (cases "unat p \<le> ?L") auto
    show ?thesis
      using False mask_eq_iff_take [of "unat (sat_sub w p)" "be_word a :: 'a word" "be_word b"] s
      by (simp add: bits t len)
  qed
qed

lemma net_contains_iff:
  assumes "wf_ip_addr (net_addr n)" "wf_ip_addr i"
  shows "net_contains n i \<longleftrightarrow> same_prefix (unat (net_prefix_len n)) (net_addr n) i"
  using assms mask_compare [where 'a = 32 and w = 32] mask_compare [where 'a = 128 and w = 128]
  by (cases "net_addr n"; cases i) (simp_all add: net_contains.simps Let_def)

lemma net_contains_self: "net_contains n (net_addr n)"
  by (cases "net_addr n") (simp_all add: net_contains.simps Let_def)

section \<open>The list\<close>

record ban_entry =
  ban_comment :: "string option"
  ban_nets :: "ip_net list"
  ban_hosts :: "string list"

record banlist =
  ban_entries :: "ban_entry list"
  ban_path :: string

definition ban_len :: "banlist \<Rightarrow> nat" where
  "ban_len bl = sum_list (map (\<lambda>e. length (ban_nets e) + length (ban_hosts e)) (ban_entries bl))"

definition ban_is_empty :: "banlist \<Rightarrow> bool" where
  "ban_is_empty bl \<longleftrightarrow> ban_len bl = 0"

definition ban_contains :: "(u8 list \<Rightarrow> u8 list) \<Rightarrow> banlist \<Rightarrow> peer_addr \<Rightarrow> bool" where
  "ban_contains sha3 bl a =
     (case ip a of
        Some i \<Rightarrow> list_ex (\<lambda>e. list_ex (\<lambda>n. net_contains n i) (ban_nets e)) (ban_entries bl)
      | None \<Rightarrow> (let host = display sha3 a in list_ex (\<lambda>e. host \<in> set (ban_hosts e)) (ban_entries bl)))"

definition ban_add :: "banlist \<Rightarrow> ban_entry \<Rightarrow> nat \<times> banlist" where
  "ban_add bl entry =
     (let ns = filter (\<lambda>n. \<not> list_ex (\<lambda>e. n \<in> set (ban_nets e)) (ban_entries bl)) (ban_nets entry);
          hs = filter (\<lambda>h. \<not> list_ex (\<lambda>e. h \<in> set (ban_hosts e)) (ban_entries bl)) (ban_hosts entry);
          added = length ns + length hs
      in (added,
          if 0 < added
          then bl\<lparr>ban_entries := ban_entries bl @ [\<lparr>ban_comment = ban_comment entry, ban_nets = ns, ban_hosts = hs\<rparr>]\<rparr>
          else bl))"

text \<open>What one entry bans, and what a list bans.\<close>

definition entry_bans :: "(u8 list \<Rightarrow> u8 list) \<Rightarrow> ban_entry \<Rightarrow> peer_addr \<Rightarrow> bool" where
  "entry_bans sha3 e a \<longleftrightarrow>
     (case ip a of Some i \<Rightarrow> (\<exists>n \<in> set (ban_nets e). net_contains n i) | None \<Rightarrow> display sha3 a \<in> set (ban_hosts e))"

lemma ban_contains_iff: "ban_contains sha3 bl a \<longleftrightarrow> (\<exists>e \<in> set (ban_entries bl). entry_bans sha3 e a)"
  by (auto simp: ban_contains_def entry_bans_def list_ex_iff split: option.splits)

lemma ban_add_covered:
  assumes "fst (ban_add bl e) = 0"
  shows "set (ban_nets e) \<subseteq> (\<Union>x \<in> set (ban_entries bl). set (ban_nets x))"
    "set (ban_hosts e) \<subseteq> (\<Union>x \<in> set (ban_entries bl). set (ban_hosts x))"
  using assms by (auto simp: ban_add_def Let_def list_ex_iff filter_empty_conv)

lemma ban_contains_add:
  "ban_contains sha3 (snd (ban_add bl e)) a \<longleftrightarrow> ban_contains sha3 bl a \<or> entry_bans sha3 e a"
  by (auto simp: ban_contains_iff ban_add_def Let_def entry_bans_def list_ex_iff filter_empty_conv
      split: option.splits) blast

lemma ban_add_mono: "ban_contains sha3 bl a \<Longrightarrow> ban_contains sha3 (snd (ban_add bl e)) a"
  by (simp add: ban_contains_add)

lemma ban_len_add: "ban_len (snd (ban_add bl e)) = ban_len bl + fst (ban_add bl e)"
  by (auto simp: ban_len_def ban_add_def Let_def)

lemma ban_add_twice: "ban_add (snd (ban_add bl e)) e = (0, snd (ban_add bl e))"
proof -
  let ?bl = "snd (ban_add bl e)"
  have "\<forall>n \<in> set (ban_nets e). \<exists>x \<in> set (ban_entries ?bl). n \<in> set (ban_nets x)"
    "\<forall>h \<in> set (ban_hosts e). \<exists>x \<in> set (ban_entries ?bl). h \<in> set (ban_hosts x)"
    by (auto simp: ban_add_def Let_def list_ex_iff filter_empty_conv)
  then have "fst (ban_add ?bl e) = 0" by (auto simp: ban_add_def [of ?bl] Let_def list_ex_iff filter_empty_conv)
  then show ?thesis by (simp add: ban_add_def [of ?bl] Let_def)
qed

section \<open>The file\<close>

datatype ban_error = ReadBanList | ParseBanList

definition ban_load ::
  "(u8 list \<Rightarrow> ban_entry list option) \<Rightarrow> read_outcome \<Rightarrow> string \<Rightarrow> ban_error + banlist" where
  "ban_load from_json r p =
     (case r of
        ReadOk s \<Rightarrow>
          (case from_json s of None \<Rightarrow> Inl ParseBanList | Some es \<Rightarrow> Inr \<lparr>ban_entries = es, ban_path = p\<rparr>)
      | ReadNotFound \<Rightarrow> Inr \<lparr>ban_entries = [], ban_path = p\<rparr>
      | ReadFailed \<Rightarrow> Inl ReadBanList)"

text \<open>Whether the list was written, and the states the file system went through.\<close>

definition ban_save ::
  "(ban_entry list \<Rightarrow> u8 list option) \<Rightarrow> banlist \<Rightarrow> call_outcome list \<Rightarrow> fs \<Rightarrow> bool \<times> fs list" where
  "ban_save to_json bl os fs =
     (case to_json (ban_entries bl) of
        None \<Rightarrow> (False, [fs])
      | Some json \<Rightarrow> atomic_save (with_extension (ban_path bl) ''json.tmp'') (ban_path bl) json os fs)"

lemma ban_tmp_neq: "with_extension p ''json.tmp'' \<noteq> p"
  by (rule with_extension_neq) simp

lemma ban_save_load:
  assumes "\<And>json. to_json (ban_entries bl) = Some json \<Longrightarrow> from_json json = Some (ban_entries bl)"
    and "fst (ban_save to_json bl os fs)"
  shows "ban_load from_json (read_outcome_of (last (snd (ban_save to_json bl os fs))) (ban_path bl)) (ban_path bl)
    = Inr bl"
  using assms atomic_save_ok(1) [OF ban_tmp_neq]
  by (auto simp: ban_save_def ban_load_def read_outcome_of_def split: option.splits)

lemma ban_save_crash:
  assumes "target_flushed fs (ban_path bl)" "fs' \<in> set (snd (ban_save to_json bl os fs))" "crash fs' fs''"
  shows "read_file fs'' (ban_path bl) \<in> {read_file fs (ban_path bl), to_json (ban_entries bl)}"
proof (cases "to_json (ban_entries bl)")
  case None
  then show ?thesis using assms crash_read by (auto simp: ban_save_def)
next
  case (Some json)
  then show ?thesis
    using assms(2) atomic_save_crash_safe [OF ban_tmp_neq assms(1) _ assms(3)] by (auto simp: ban_save_def)
qed

section \<open>Properties\<close>

text \<open>
  C11. A banned network contains exactly the addresses of its own family that agree with it on the first
  \<^verbatim>\<open>prefix_len\<close> bits, at every prefix length from zero (everything) up: the shift never reaches the word width.
\<close>

theorem network_contains_its_prefix:
  assumes "wf_ip_addr (net_addr n)" "wf_ip_addr i"
  shows "net_contains n i \<longleftrightarrow> same_prefix (unat (net_prefix_len n)) (net_addr n) i"
  by (rule net_contains_iff [OF assms])

theorem network_contains_its_prefix_witness:
  "net_contains \<lparr>net_addr = V4 [10, 0, 0, 0], net_prefix_len = 8\<rparr> (V4 [10, 1, 2, 3])
     = same_prefix 8 (V4 [10, 0, 0, 0]) (V4 [10, 1, 2, 3])"
  using network_contains_its_prefix [of "\<lparr>net_addr = V4 [10, 0, 0, 0], net_prefix_len = 8\<rparr>" "V4 [10, 1, 2, 3]"]
  by simp

text \<open>
  Adding an entry bans exactly what was banned before and what the entry covers, although networks
  and hosts already listed are left out; it returns how many were added, and adding it again adds nothing.
\<close>

theorem adding_a_ban_bans_what_it_covers:
  "(ban_contains sha3 (snd (ban_add bl e)) a \<longleftrightarrow> ban_contains sha3 bl a \<or> entry_bans sha3 e a)
   \<and> ban_len (snd (ban_add bl e)) = ban_len bl + fst (ban_add bl e)
   \<and> ban_add (snd (ban_add bl e)) e = (0, snd (ban_add bl e))"
  by (simp add: ban_contains_add ban_len_add ban_add_twice)

text \<open>
  Saving the ban list is all or nothing: whichever system call fails and wherever the power goes during
  the save, the file afterwards holds the old list or the new one, and a save that reports success is
  loaded back as the same list.
\<close>

theorem ban_list_save_is_atomic:
  assumes "\<And>json. to_json (ban_entries bl) = Some json \<Longrightarrow> from_json json = Some (ban_entries bl)"
    and "target_flushed fs (ban_path bl)" "fs' \<in> set (snd (ban_save to_json bl os fs))" "crash fs' fs''"
  shows "read_file fs'' (ban_path bl) \<in> {read_file fs (ban_path bl), to_json (ban_entries bl)}
    \<and> (\<not> fst (ban_save to_json bl os fs) \<or>
       ban_load from_json (read_outcome_of (last (snd (ban_save to_json bl os fs))) (ban_path bl)) (ban_path bl) = Inr bl)"
  using ban_save_crash [OF assms(2-4)] ban_save_load [of to_json bl from_json os fs] assms(1) by blast

definition sample_bans :: banlist where
  "sample_bans =
     \<lparr>ban_entries = [\<lparr>ban_comment = None, ban_nets = [\<lparr>net_addr = V4 [10, 0, 0, 0], net_prefix_len = 8\<rparr>], ban_hosts = []\<rparr>],
      ban_path = ''b.json''\<rparr>"

text \<open>A save whose write fails after three bytes, with the power lost right then.\<close>

theorem ban_list_save_is_atomic_witness:
  "read_file (last (snd (ban_save (\<lambda>_. Some [91, 123, 125, 93]) sample_bans [CallOk, CallErr 3] Map.empty))) ''b.json''
     \<in> {None, Some [91, 123, 125, 93]}"
  using ban_list_save_is_atomic [of "\<lambda>_. Some [91, 123, 125, 93]" sample_bans "\<lambda>_. Some (ban_entries sample_bans)" Map.empty
      "last (snd (ban_save (\<lambda>_. Some [91, 123, 125, 93]) sample_bans [CallOk, CallErr 3] Map.empty))" "[CallOk, CallErr 3]"
      "last (snd (ban_save (\<lambda>_. Some [91, 123, 125, 93]) sample_bans [CallOk, CallErr 3] Map.empty))"]
  by (simp add: ban_save_def save_unfold sample_bans_def target_flushed_def read_file_def crash_def with_extension_def
      file_stem_def)

end
