(* ===== verification/Sampling.thy ===== *)
theory Sampling
  imports Prelude Ieee_Rounding
begin

unbundle bit_operations_syntax

text \<open>
  The random source and the reservoir sampler of \<^verbatim>\<open>observer/src/addresses/book.rs\<close> (\<^verbatim>\<open>Rng\<close> and
  \<^verbatim>\<open>Reservoir\<close>). A method taking \<^verbatim>\<open>&mut self\<close> returns the new state beside its result. The sampler is
  written for any item type; the book instantiates it with dials.

  The lemmas show that the generator never reaches the zero state, where xorshift would stay for
  ever, that \<^verbatim>\<open>next_f32\<close> is below one and exact, and that a reservoir offered \<open>n\<close> items keeps
  \<open>min k n\<close> of them, each taken from a different position of the stream.
\<close>

section \<open>The generator\<close>

record rng = rng_state :: u64

definition rng_new :: "u64 \<Rightarrow> rng" where
  "rng_new seed = \<lparr>rng_state = seed OR 1\<rparr>"

definition next_u64 :: "rng \<Rightarrow> u64 \<times> rng" where
  "next_u64 r =
     (let x = rng_state r;
          x = x XOR drop_bit 12 x;
          x = x XOR push_bit 25 x;
          x = x XOR drop_bit 27 x
      in (x * 0x2545F4914F6CDD1D, \<lparr>rng_state = x\<rparr>))"

text \<open>
  The top 24 bits as a float, divided by the float of \<^verbatim>\<open>1 << 24\<close>: the conversion and the division
  both round to single precision.
\<close>

definition next_f32 :: "rng \<Rightarrow> rat \<times> rng" where
  "next_f32 r =
     (let (x, r') = next_u64 r in (f32_of (f32_of (of_nat (unat (drop_bit 40 x))) / f32_of (2 ^ 24)), r'))"

definition below :: "rng \<Rightarrow> nat \<Rightarrow> nat \<times> rng" where
  "below r n = (if n = 0 then (0, r) else (let (x, r') = next_u64 r in (unat x mod n, r')))"

subsection \<open>The state never becomes zero\<close>

definition rng_ok :: "rng \<Rightarrow> bool" where
  "rng_ok r \<longleftrightarrow> rng_state r \<noteq> 0"

text \<open>A word equal to a shift of itself is equal to every repetition of that shift, hence to zero.\<close>

lemma xor_shift_eq_0:
  fixes x :: "'a::len word"
  assumes "0 < n"
  shows "x XOR drop_bit n x = 0 \<longleftrightarrow> x = 0" and "x XOR push_bit n x = 0 \<longleftrightarrow> x = 0"
proof -
  have self: "x XOR y = 0 \<longleftrightarrow> y = x" for y by (metis xor.left_neutral xor_self_eq xor.assoc xor.commute)
  have drop: "x = 0" if "drop_bit n x = x"
  proof -
    have "drop_bit (k * n) x = x" for k by (induction k) (simp_all add: that flip: drop_bit_drop_bit)
    from this [of "LENGTH('a)"] show ?thesis
      using assms by (metis drop_bit_word_beyond le_add2 mult.commute mult_le_mono1 nat_mult_1 Suc_leI One_nat_def)
  qed
  have push: "x = 0" if "push_bit n x = x"
  proof -
    have "push_bit (k * n) x = x" for k
      by (induction k) (simp_all add: that add.commute flip: push_bit_push_bit)
    from this [of "LENGTH('a)"] show ?thesis
      using assms by (metis push_bit_word_beyond mult.commute mult_le_mono1 nat_mult_1 Suc_leI One_nat_def)
  qed
  show "x XOR drop_bit n x = 0 \<longleftrightarrow> x = 0" "x XOR push_bit n x = 0 \<longleftrightarrow> x = 0"
    using drop push by (auto simp: self)
qed

lemma rng_ok_new: "rng_ok (rng_new seed)"
proof -
  have "bit (seed OR 1) 0" by (simp add: bit_or_iff)
  then show ?thesis unfolding rng_ok_def rng_new_def by (metis bit_0_eq rng.select_convs(1) bot_apply bot_bool_def)
qed

lemma rng_ok_next: "rng_ok (snd (next_u64 r)) \<longleftrightarrow> rng_ok r"
  unfolding rng_ok_def next_u64_def Let_def snd_conv rng.select_convs
  by (simp only: xor_shift_eq_0 zero_less_numeral simp_thms)

lemma rng_ok_below [simp]: "rng_ok (snd (below r n)) \<longleftrightarrow> rng_ok r"
  using rng_ok_next by (simp add: below_def split: prod.splits) (metis snd_conv)

lemma rng_ok_next_f32 [simp]: "rng_ok (snd (next_f32 r)) \<longleftrightarrow> rng_ok r"
  using rng_ok_next by (simp add: next_f32_def split: prod.splits) (metis snd_conv)

lemma below_less: "0 < n \<Longrightarrow> fst (below r n) < n"
  by (simp add: below_def split: prod.splits)

subsection \<open>Floats in the unit interval\<close>

lemma top_bits_less: "unat (drop_bit 40 (x :: u64)) < 2 ^ 24"
proof -
  have "unat (drop_bit 40 x) = unat x div 2 ^ 40" unfolding unat_drop_bit_eq by (rule drop_bit_eq_div)
  moreover have "unat x < 2 ^ 64" using unsigned_less [of x, where ?'a = nat] by simp
  ultimately show ?thesis by (simp add: less_mult_imp_div_less)
qed

lemma next_f32_exact:
  "fst (next_f32 r) = of_nat (unat (drop_bit 40 (fst (next_u64 r)))) / 2 ^ 24"
proof -
  define m where "m = unat (drop_bit 40 (fst (next_u64 r)))"
  have "m < 2 ^ 24" unfolding m_def by (rule top_bits_less)
  then have m: "\<bar>int m\<bar> < 2 ^ nat 24" by simp
  have pow: "(2::rat) powi 24 = 2 ^ 24" "(2::rat) powi (- 24) = inverse (2 ^ 24)"
    by (simp_all add: power_int_minus)
  have "f32_of (of_nat m) = of_nat m" using f32.fl_of_int [OF m] by (simp only: of_int_of_nat_eq)
  moreover have "f32_of (2 ^ 24) = 2 ^ 24"
    using f32.fl_exact [of 1 24] unfolding pow by (simp only: of_int_1 mult_1_left) simp
  moreover have "f32_of (of_nat m / 2 ^ 24) = of_nat m / 2 ^ 24"
    using f32.fl_exact [OF m, of "- 24"] unfolding pow divide_inverse by (simp only: of_int_of_nat_eq)
  moreover have "fst (next_f32 r) = f32_of (f32_of (of_nat m) / f32_of (2 ^ 24))"
    unfolding next_f32_def m_def by (simp only: case_prod_beta Let_def fst_conv)
  ultimately show ?thesis unfolding m_def [symmetric] by (simp only:)
qed

lemma next_f32_range: "0 \<le> fst (next_f32 r)" "fst (next_f32 r) < 1"
proof -
  define m where "m = unat (drop_bit 40 (fst (next_u64 r)))"
  have "m < 2 ^ 24" unfolding m_def by (rule top_bits_less)
  then have "(of_nat m :: rat) < 2 ^ 24" by simp
  moreover have "fst (next_f32 r) = of_nat m / 2 ^ 24" unfolding m_def by (rule next_f32_exact)
  ultimately show "0 \<le> fst (next_f32 r)" "fst (next_f32 r) < 1" by simp_all
qed

section \<open>Reservoir sampling\<close>

record 'a reservoir =
  items :: "'a list"
  seen :: nat
  res_k :: nat

definition reservoir_new :: "nat \<Rightarrow> 'a reservoir" where
  "reservoir_new k = \<lparr>items = [], seen = 0, res_k = k\<rparr>"

definition offer :: "'a \<Rightarrow> 'a reservoir \<times> rng \<Rightarrow> 'a reservoir \<times> rng" where
  "offer x s =
     (let (res, r) = s in
      if res_k res = 0 then (res, r)
      else let res = res\<lparr>seen := seen res + 1\<rparr> in
           if length (items res) < res_k res then (res\<lparr>items := items res @ [x]\<rparr>, r)
           else let (j, r') = below r (seen res)
                in (if j < res_k res then res\<lparr>items := (items res)[j := x]\<rparr> else res, r'))"

text \<open>
  What a reservoir holds after it has been offered the items \<open>xs\<close>: as many as fit, a sub-multiset of
  them (so each from its own position in the stream), and the count of what it saw.
\<close>

definition sampled :: "nat \<Rightarrow> 'a list \<Rightarrow> 'a reservoir \<Rightarrow> bool" where
  "sampled k xs res \<longleftrightarrow>
     res_k res = k \<and> mset (items res) \<subseteq># mset xs \<and> length (items res) = min k (length xs)
     \<and> (0 < k \<longrightarrow> seen res = length xs)"

lemma sampled_new: "sampled k [] (reservoir_new k)"
  by (simp add: sampled_def reservoir_new_def)

lemma mset_list_update_subset:
  assumes "mset ys \<subseteq># M" "j < length ys"
  shows "mset (ys[j := x]) \<subseteq># add_mset x M"
proof -
  have "mset (ys[j := x]) = add_mset x (mset ys - {#ys ! j#})"
    using assms(2) by (simp add: mset_update)
  moreover have "mset ys - {#ys ! j#} \<subseteq># M" using assms(1) by (meson diff_subset_eq_self subset_mset.order_trans)
  ultimately show ?thesis by simp
qed

lemma subset_mset_add_mset: "A \<subseteq># B \<Longrightarrow> A \<subseteq># add_mset x B"
  using mset_subset_eq_add_right [of B "{#x#}"] by (simp add: subset_mset.order_trans)

lemma sampled_offer:
  assumes "sampled k xs res"
  shows "sampled k (xs @ [x]) (fst (offer x (res, r)))"
  using assms mset_list_update_subset [of "items res" "mset xs" _ x]
  by (auto simp: sampled_def offer_def Let_def min_def intro: subset_mset_add_mset
      split: prod.splits if_splits)

lemma rng_ok_offer [simp]: "rng_ok (snd (offer x (res, r))) \<longleftrightarrow> rng_ok r"
  using rng_ok_below [of r "Suc (seen res)"]
  by (cases "below r (Suc (seen res))") (auto simp: offer_def Let_def)

lemma sampled_set: "sampled k xs res \<Longrightarrow> set (items res) \<subseteq> set xs"
  by (auto simp: sampled_def dest: mset_subset_eqD)

lemma sampled_length: "sampled k xs res \<Longrightarrow> length (items res) = min k (length xs)"
  by (simp add: sampled_def)

lemma subset_mset_distinct: "mset ys \<subseteq># mset xs \<Longrightarrow> distinct xs \<Longrightarrow> distinct ys"
  by (metis (no_types) distinct_append mset_append mset_eq_imp_distinct_iff ex_mset subset_mset.add_diff_inverse)

lemma sampled_distinct: "sampled k xs res \<Longrightarrow> distinct (map f xs) \<Longrightarrow> distinct (map f (items res))"
  by (metis sampled_def mset_map image_mset_subseteq_mono subset_mset_distinct)

section \<open>Properties\<close>

text \<open>
  A generator never starts in the zero state, reaches it only from itself (so never), and its floats
  lie in \<open>[0, 1)\<close> although they pass through two single-precision roundings.
\<close>

theorem generator_never_sticks:
  "rng_state (rng_new seed) \<noteq> 0
   \<and> (rng_state (snd (next_u64 r)) = 0 \<longleftrightarrow> rng_state r = 0)
   \<and> 0 \<le> fst (next_f32 r) \<and> fst (next_f32 r) < 1"
  using rng_ok_new [of seed] rng_ok_next [of r] next_f32_range [of r] by (simp add: rng_ok_def)

text \<open>
  A reservoir of size \<open>k\<close> offered any stream keeps \<open>k\<close> items of it, or all when there are fewer, and
  no item more often than the stream offered it.
\<close>

theorem reservoir_keeps_a_sample:
  "let res = fst (foldl (\<lambda>s x. offer x s) (reservoir_new k, r) xs)
   in length (items res) = min k (length xs) \<and> mset (items res) \<subseteq># mset xs"
proof -
  have "sampled k xs (fst (foldl (\<lambda>s x. offer x s) (reservoir_new k, r) xs))"
  proof (induction xs rule: rev_induct)
    case (snoc x xs)
    from sampled_offer [OF this, of x "snd (foldl (\<lambda>s x. offer x s) (reservoir_new k, r) xs)"]
    show ?case by simp
  qed (simp add: sampled_new)
  then show ?thesis by (simp add: sampled_def Let_def)
qed

end
