(* ===== verification/Book.thy ===== *)
theory Book
  imports Policy Banlist Sampling
begin

text \<open>
  \<^verbatim>\<open>observer/src/addresses/book.rs\<close>: the address book, the outcomes that move an entry between
  classes, eviction at capacity, and the pick with its credit scheme. Each method taking \<^verbatim>\<open>&mut self\<close>
  is a function from the book to its result and the new book. Operations that iterate over the entry
  map take the iteration order \<open>ho\<close> as an argument, and those that consult the ban list take the
  digest function \<open>sha3\<close> its host names depend on.
\<close>

section \<open>Data\<close>

definition DEFAULT_CAPACITY :: nat where "DEFAULT_CAPACITY = 2000000"
definition CREDIT_CAP :: rat where "CREDIT_CAP = 4"
definition EVICTION_BATCH :: nat where "EVICTION_BATCH = 1024"
definition EVICTION_BATCH_SHARE :: nat where "EVICTION_BATCH_SHARE = 16"

datatype transport_hint = HintUnknown | HintV2 | HintV1Only

definition advertises_v2 :: "u64 \<Rightarrow> bool" where
  "advertises_v2 services \<longleftrightarrow> services AND push_bit 11 1 \<noteq> 0"

datatype phase = Dialing | Connected

record entry =
  services :: u64
  last_announced :: u32
  last_attempt :: u32
  last_success :: u32
  next_attempt :: u32
  failures :: u8
  short_sessions :: u8
  last_attempt_failed :: bool
  entry_origin :: origin
  transport :: transport_hint

definition entry_new :: "u32 \<Rightarrow> u64 \<Rightarrow> origin \<Rightarrow> entry" where
  "entry_new now svcs org =
     \<lparr>services = svcs, last_announced = now, last_attempt = 0, last_success = 0, next_attempt = 0,
      failures = 0, short_sessions = 0, last_attempt_failed = False, entry_origin = org,
      transport = HintUnknown\<rparr>"

definition entry_class :: "entry \<Rightarrow> addr_class" where
  "entry_class e = classify (0 < failures e) (last_success e) (last_attempt_failed e)"

definition connected_before :: "entry \<Rightarrow> bool" where
  "connected_before e \<longleftrightarrow> 0 < last_success e"

record gossiped =
  g_addr :: peer_addr
  g_services :: u64
  g_ntime :: u32

record dial =
  d_addr :: peer_addr
  d_transport :: transport_hint

record enabled_nets =
  en_ipv4 :: bool
  en_ipv6 :: bool
  en_tor :: bool
  en_cjdns :: bool
  en_i2p :: bool

fun allows :: "enabled_nets \<Rightarrow> net \<Rightarrow> bool" where
  "allows n NetIpv4 = en_ipv4 n"
| "allows n NetIpv6 = en_ipv6 n"
| "allows n NetTorV3 = en_tor n"
| "allows n NetCjdns = en_cjdns n"
| "allows n NetI2p = en_i2p n"

record stats =
  st_total :: nat
  st_unknown :: nat
  st_good :: nat
  st_was_good :: nat
  st_bad :: nat
  st_dialing :: nat
  st_connected :: nat

record book =
  entries :: "(peer_addr, entry) hashmap"
  active :: "(peer_addr, phase) hashmap"
  credit :: "rat list"
  capacity :: nat
  eviction_passes :: u64
  book_rng :: rng

type_synonym entry_order = "(peer_addr \<times> entry) list \<Rightarrow> (peer_addr \<times> entry) list"

section \<open>Construction and counts\<close>

definition book_new :: "nat \<Rightarrow> u64 \<Rightarrow> book" where
  "book_new cap seed =
     \<lparr>entries = [], active = [], credit = [0, 0, 0], capacity = cap, eviction_passes = 0,
      book_rng = rng_new seed\<rparr>"

definition book_len :: "book \<Rightarrow> nat" where
  "book_len b = length (entries b)"

definition book_is_empty :: "book \<Rightarrow> bool" where
  "book_is_empty b \<longleftrightarrow> entries b = []"

definition book_entry :: "book \<Rightarrow> peer_addr \<Rightarrow> entry option" where
  "book_entry b a = map_of (entries b) a"

definition restore :: "(peer_addr, entry) hashmap \<Rightarrow> book \<Rightarrow> book" where
  "restore es b = b\<lparr>entries := es, active := []\<rparr>"

fun count_class :: "stats \<Rightarrow> entry \<Rightarrow> stats" where
  "count_class s e =
     (case entry_class e of
        ClassUnknown \<Rightarrow> s\<lparr>st_unknown := st_unknown s + 1\<rparr>
      | ClassGood \<Rightarrow> s\<lparr>st_good := st_good s + 1\<rparr>
      | ClassWasGood \<Rightarrow> s\<lparr>st_was_good := st_was_good s + 1\<rparr>
      | ClassBad \<Rightarrow> s\<lparr>st_bad := st_bad s + 1\<rparr>)"

fun count_phase :: "stats \<Rightarrow> phase \<Rightarrow> stats" where
  "count_phase s Dialing = s\<lparr>st_dialing := st_dialing s + 1\<rparr>"
| "count_phase s Connected = s\<lparr>st_connected := st_connected s + 1\<rparr>"

definition book_stats :: "book \<Rightarrow> stats" where
  "book_stats b =
     (let s = \<lparr>st_total = length (entries b), st_unknown = 0, st_good = 0, st_was_good = 0,
               st_bad = 0, st_dialing = 0, st_connected = 0\<rparr>;
          s = foldl count_class s (map snd (entries b))
      in foldl count_phase s (map snd (active b)))"

definition dialing_count :: "book \<Rightarrow> nat" where
  "dialing_count b = length (filter (\<lambda>p. p = Dialing) (map snd (active b)))"

section \<open>Eviction and ingest\<close>

text \<open>
  The walk of \<^verbatim>\<open>evict_batch\<close>: the forgettable addresses found, and the reservoir of unknown ones. It stops
  as soon as the forgettable ones fill the batch.
\<close>

fun evict_scan ::
  "u32 \<Rightarrow> nat \<Rightarrow> (peer_addr, phase) hashmap \<Rightarrow> peer_addr list \<Rightarrow> dial reservoir \<times> rng
   \<Rightarrow> (peer_addr \<times> entry) list \<Rightarrow> peer_addr list \<times> dial reservoir \<times> rng" where
  "evict_scan now batch act forgettable unk [] = (forgettable, unk)"
| "evict_scan now batch act forgettable unk ((a, e) # rest) =
     (if entry_origin e = Manual \<or> contains_key act a then evict_scan now batch act forgettable unk rest
      else if should_forget now (entry_origin e) (last_success e) (last_announced e) (failures e)
      then (let forgettable' = forgettable @ [a]
            in if batch \<le> length forgettable' then (forgettable', unk)
               else evict_scan now batch act forgettable' unk rest)
      else if entry_class e = ClassUnknown
      then evict_scan now batch act forgettable
             (offer \<lparr>d_addr = a, d_transport = HintUnknown\<rparr> unk) rest
      else evict_scan now batch act forgettable unk rest)"

text \<open>\<^verbatim>\<open>for addr in \<dots> { if self.entries.remove(addr).is_some() { removed += 1; } }\<close>\<close>

fun remove_counting ::
  "peer_addr list \<Rightarrow> nat \<times> (peer_addr, entry) hashmap \<Rightarrow> nat \<times> (peer_addr, entry) hashmap" where
  "remove_counting [] s = s"
| "remove_counting (a # as) (removed, es) =
     remove_counting as (if contains_key es a then removed + 1 else removed, AList.delete a es)"

definition evict_batch_size :: "nat \<Rightarrow> nat" where
  "evict_batch_size cap = max (min EVICTION_BATCH (cap div EVICTION_BATCH_SHARE)) 1"

definition evict_batch :: "entry_order \<Rightarrow> u32 \<Rightarrow> book \<Rightarrow> bool \<times> book" where
  "evict_batch ho now b =
     (let batch = evict_batch_size (capacity b);
          (forgettable, unk, r) =
            evict_scan now batch (active b) [] (reservoir_new batch, book_rng b) (ho (entries b));
          (removed, es) = remove_counting forgettable (0, entries b);
          (removed', es') = remove_counting (map d_addr (take (batch - removed) (items unk))) (removed, es)
      in (0 < removed',
          b\<lparr>entries := es', eviction_passes := eviction_passes b + 1, book_rng := r\<rparr>))"

text \<open>The refresh of an entry that is announced again.\<close>

definition refresh :: "u32 \<Rightarrow> u64 \<Rightarrow> entry \<Rightarrow> entry" where
  "refresh now svcs e =
     (let e = e\<lparr>last_announced := now\<rparr>
      in if svcs \<noteq> services e
         then (let e = (if advertises_v2 svcs \<and> transport e = HintV1Only
                        then e\<lparr>transport := HintUnknown\<rparr> else e)
               in e\<lparr>services := svcs\<rparr>)
         else e)"

definition ingest_one ::
  "(u8 list \<Rightarrow> u8 list) \<Rightarrow> entry_order \<Rightarrow> u32 \<Rightarrow> banlist \<Rightarrow> gossiped \<Rightarrow> nat \<times> book \<Rightarrow> nat \<times> book" where
  "ingest_one sha3 ho now bl g s =
     (let (added, b) = s; a = g_addr g in
      if \<not> is_routable a \<or> ban_contains sha3 bl a then (added, b)
      else if contains_key (entries b) a
      then (added, b\<lparr>entries := AList.map_entry a (refresh now (g_services g)) (entries b)\<rparr>)
      else let (room, b) = (if capacity b \<le> length (entries b) then evict_batch ho now b else (True, b))
           in if room
              then (added + 1, b\<lparr>entries := AList.update a (entry_new now (g_services g) Gossip) (entries b)\<rparr>)
              else (added, b))"

definition ingest ::
  "(u8 list \<Rightarrow> u8 list) \<Rightarrow> entry_order \<Rightarrow> u32 \<Rightarrow> gossiped list \<Rightarrow> banlist \<Rightarrow> book \<Rightarrow> nat \<times> book" where
  "ingest sha3 ho now addrs bl b = foldl (\<lambda>s g. ingest_one sha3 ho now bl g s) (0, b) addrs"

definition insert_manual_one :: "u32 \<Rightarrow> peer_addr \<Rightarrow> nat \<times> book \<Rightarrow> nat \<times> book" where
  "insert_manual_one now a s =
     (let (added, b) = s in
      case map_of (entries b) a of
        Some e \<Rightarrow>
          (if entry_origin e \<noteq> Manual
           then (added + 1, b\<lparr>entries := AList.map_entry a (\<lambda>e. e\<lparr>entry_origin := Manual\<rparr>) (entries b)\<rparr>)
           else (added, b))
      | None \<Rightarrow> (added + 1, b\<lparr>entries := AList.update a (entry_new now 0 Manual) (entries b)\<rparr>))"

definition insert_manual :: "u32 \<Rightarrow> peer_addr list \<Rightarrow> book \<Rightarrow> nat \<times> book" where
  "insert_manual now addrs b = foldl (\<lambda>s a. insert_manual_one now a s) (0, b) addrs"

definition purge_banned :: "(u8 list \<Rightarrow> u8 list) \<Rightarrow> banlist \<Rightarrow> book \<Rightarrow> nat \<times> book" where
  "purge_banned sha3 bl b =
     (let es = filter (\<lambda>(a, _). \<not> ban_contains sha3 bl a) (entries b)
      in (length (entries b) - length es, b\<lparr>entries := es\<rparr>))"

section \<open>Outcomes\<close>

definition record_dialing :: "peer_addr \<Rightarrow> u32 \<Rightarrow> book \<Rightarrow> book" where
  "record_dialing a now b =
     b\<lparr>active := AList.update a Dialing (active b),
       entries := AList.map_entry a (\<lambda>e. e\<lparr>last_attempt := now\<rparr>) (entries b)\<rparr>"

definition connected_entry :: "u32 \<Rightarrow> u64 \<Rightarrow> u8 \<Rightarrow> entry \<Rightarrow> entry" where
  "connected_entry now svcs transport_version e =
     (let upgraded = advertises_v2 svcs \<and> \<not> advertises_v2 (services e);
          hint = (if transport_version = 2 then HintV2
                  else if transport e = HintUnknown then HintV1Only
                  else if transport e = HintV1Only \<and> upgraded then HintUnknown
                  else transport e)
      in e\<lparr>last_success := now, last_attempt_failed := False, failures := 0,
           services := svcs, transport := hint\<rparr>)"

definition record_connected :: "peer_addr \<Rightarrow> u32 \<Rightarrow> u64 \<Rightarrow> u8 \<Rightarrow> book \<Rightarrow> book" where
  "record_connected a now svcs transport_version b =
     b\<lparr>active := AList.update a Connected (active b),
       entries := AList.map_entry a (connected_entry now svcs transport_version) (entries b)\<rparr>"

text \<open>The counters an outcome moves, the retry it schedules, and the forget rule.\<close>

fun count_outcome :: "outcome \<Rightarrow> entry \<Rightarrow> entry" where
  "count_outcome (OurFault f) e = e"
| "count_outcome OtherChain e = e\<lparr>last_attempt_failed := False, failures := 0\<rparr>"
| "count_outcome Violated e = e\<lparr>last_attempt_failed := False, failures := 0\<rparr>"
| "count_outcome (Disconnected up silent) e =
     (let e = e\<lparr>last_attempt_failed := False, failures := 0\<rparr>
      in if is_short_session (Disconnected up silent)
         then e\<lparr>short_sessions := sat_add (short_sessions e) 1\<rparr>
         else e\<lparr>short_sessions := 0\<rparr>)"
| "count_outcome (Failed r) e = e\<lparr>last_attempt_failed := True, failures := sat_add (failures e) 1\<rparr>"

definition ended_entry :: "u32 \<Rightarrow> outcome \<Rightarrow> rat \<Rightarrow> entry \<Rightarrow> entry" where
  "ended_entry now out r e =
     (let e = count_outcome out e;
          base = retry_delay_secs out (entry_origin e) (connected_before e) (failures e) (short_sessions e)
      in e\<lparr>next_attempt := sat_add now (jitter base r)\<rparr>)"

definition forget_entry :: "u32 \<Rightarrow> entry \<Rightarrow> bool" where
  "forget_entry now e =
     should_forget now (entry_origin e) (last_success e) (last_announced e) (failures e)"

definition record_ended :: "peer_addr \<Rightarrow> u32 \<Rightarrow> outcome \<Rightarrow> book \<Rightarrow> book" where
  "record_ended a now out b =
     (let (r, rng) = next_f32 (book_rng b);
          b = b\<lparr>active := AList.delete a (active b), book_rng := rng\<rparr>
      in case map_of (entries b) a of
           None \<Rightarrow> b
         | Some e \<Rightarrow>
             (let e = ended_entry now out r e;
                  b = b\<lparr>entries := AList.map_entry a (\<lambda>_. e) (entries b)\<rparr>
              in if forget_entry now e then b\<lparr>entries := AList.delete a (entries b)\<rparr> else b))"

definition record_v1_only :: "peer_addr \<Rightarrow> book \<Rightarrow> book" where
  "record_v1_only a b =
     b\<lparr>entries := AList.map_entry a
         (\<lambda>e. if transport e = HintUnknown then e\<lparr>transport := HintV1Only\<rparr> else e) (entries b)\<rparr>"

section \<open>The credit scheme\<close>

definition W :: "rat list" where
  "W = [WEIGHT_UNKNOWN, WEIGHT_WAS_GOOD, WEIGHT_BAD]"

definition earn :: "nat \<Rightarrow> rat list \<Rightarrow> rat list" where
  "earn budget cr =
     (let total = f32_of (f32_of (W ! 0 + W ! 1) + W ! 2)
      in map2 (\<lambda>c w. min (f32_of (c + f32_of (f32_of (w / total) * f32_of (of_nat budget)))) CREDIT_CAP) cr W)"

text \<open>The class owed most among those that still have a candidate, the first such on a tie.\<close>

definition best_class :: "rat list \<Rightarrow> nat list \<Rightarrow> nat list \<Rightarrow> nat option" where
  "best_class cr taken available =
     foldl (\<lambda>best i.
       if available ! i \<le> taken ! i then best
       else case best of
              None \<Rightarrow> Some i
            | Some k \<Rightarrow> if cr ! k < cr ! i then Some i else best) None [0..<3]"

fun alloc_loop :: "nat \<Rightarrow> nat list \<Rightarrow> rat list \<times> nat list \<Rightarrow> rat list \<times> nat list" where
  "alloc_loop 0 available s = s"
| "alloc_loop (Suc n) available (cr, taken) =
     (case best_class cr taken available of
        None \<Rightarrow> (cr, taken)
      | Some i \<Rightarrow>
          alloc_loop n available
            (cr[i := max (f32_of (cr ! i - 1)) (- CREDIT_CAP)], taken[i := taken ! i + 1]))"

definition allocate :: "nat \<Rightarrow> nat list \<Rightarrow> book \<Rightarrow> nat list \<times> book" where
  "allocate budget available b =
     (let (cr, taken) = alloc_loop budget available (earn budget (credit b), [0, 0, 0])
      in (taken, b\<lparr>credit := cr\<rparr>))"

section \<open>The pick\<close>

record pick_state =
  ps_manual :: "dial reservoir"
  ps_reconnect :: "dial reservoir"
  ps_unknown :: "dial reservoir"
  ps_was_good :: "dial reservoir"
  ps_bad :: "dial reservoir"
  ps_rng :: rng

definition pick_init :: "nat \<Rightarrow> rng \<Rightarrow> pick_state" where
  "pick_init budget r =
     \<lparr>ps_manual = reservoir_new budget, ps_reconnect = reservoir_new MAX_RECONNECTS_PER_TICK,
      ps_unknown = reservoir_new budget, ps_was_good = reservoir_new budget,
      ps_bad = reservoir_new budget, ps_rng = r\<rparr>"

definition pick_step ::
  "(u8 list \<Rightarrow> u8 list) \<Rightarrow> u32 \<Rightarrow> enabled_nets \<Rightarrow> banlist \<Rightarrow> (peer_addr, phase) hashmap
   \<Rightarrow> pick_state \<Rightarrow> peer_addr \<times> entry \<Rightarrow> pick_state" where
  "pick_step sha3 now nets bl act st kv =
     (let (a, e) = kv in
      if contains_key act a then st
      else if now < next_attempt e then st
      else if \<not> allows nets (net_of a) \<or> ban_contains sha3 bl a then st
      else let d = \<lparr>d_addr = a, d_transport = transport e\<rparr> in
           if entry_origin e = Manual
           then (let (res, r) = offer d (ps_manual st, ps_rng st) in st\<lparr>ps_manual := res, ps_rng := r\<rparr>)
           else case entry_class e of
             ClassGood \<Rightarrow>
               (let (res, r) = offer d (ps_reconnect st, ps_rng st) in st\<lparr>ps_reconnect := res, ps_rng := r\<rparr>)
           | ClassUnknown \<Rightarrow>
               (let (res, r) = offer d (ps_unknown st, ps_rng st) in st\<lparr>ps_unknown := res, ps_rng := r\<rparr>)
           | ClassWasGood \<Rightarrow>
               (let (res, r) = offer d (ps_was_good st, ps_rng st) in st\<lparr>ps_was_good := res, ps_rng := r\<rparr>)
           | ClassBad \<Rightarrow>
               (let (res, r) = offer d (ps_bad st, ps_rng st) in st\<lparr>ps_bad := res, ps_rng := r\<rparr>))"

definition pick ::
  "(u8 list \<Rightarrow> u8 list) \<Rightarrow> entry_order \<Rightarrow> u32 \<Rightarrow> nat \<Rightarrow> enabled_nets \<Rightarrow> banlist \<Rightarrow> book
   \<Rightarrow> dial list \<times> book" where
  "pick sha3 ho now budget nets bl b =
     (let st = foldl (pick_step sha3 now nets bl (active b)) (pick_init budget (book_rng b)) (ho (entries b));
          b = b\<lparr>book_rng := ps_rng st\<rparr>;
          available = [length (items (ps_unknown st)), length (items (ps_was_good st)),
                       length (items (ps_bad st))];
          (taken, b) = allocate budget available b;
          out = items (ps_manual st) @ items (ps_reconnect st)
                @ take (taken ! 0) (items (ps_unknown st)) @ take (taken ! 1) (items (ps_was_good st))
                @ take (taken ! 2) (items (ps_bad st))
      in (out, foldl (\<lambda>b d. record_dialing (d_addr d) now b) b out))"

section \<open>The invariant of the book\<close>

text \<open>
  Keys are unique, the three credits are within the cap, and the generator is out of its fixed point.
\<close>

definition credit_ok :: "rat list \<Rightarrow> bool" where
  "credit_ok cr \<longleftrightarrow> length cr = 3 \<and> (\<forall>c \<in> set cr. - CREDIT_CAP \<le> c \<and> c \<le> CREDIT_CAP)"

definition book_ok :: "book \<Rightarrow> bool" where
  "book_ok b \<longleftrightarrow> hm_ok (entries b) \<and> hm_ok (active b) \<and> credit_ok (credit b) \<and> rng_ok (book_rng b)"

lemma book_ok_new: "book_ok (book_new cap seed)"
  by (simp add: book_ok_def book_new_def credit_ok_def CREDIT_CAP_def rng_ok_new)

lemma book_ok_restore: "book_ok b \<Longrightarrow> hm_ok es \<Longrightarrow> book_ok (restore es b)"
  by (simp add: book_ok_def restore_def)

lemma book_ok_purge: "book_ok b \<Longrightarrow> book_ok (snd (purge_banned sha3 bl b))"
  by (simp add: book_ok_def purge_banned_def Let_def hm_ok_retain)

lemma book_ok_dialing: "book_ok b \<Longrightarrow> book_ok (record_dialing a now b)"
  by (simp add: book_ok_def record_dialing_def)

lemma book_ok_connected: "book_ok b \<Longrightarrow> book_ok (record_connected a now s v b)"
  by (simp add: book_ok_def record_connected_def)

lemma book_ok_v1_only: "book_ok b \<Longrightarrow> book_ok (record_v1_only a b)"
  by (simp add: book_ok_def record_v1_only_def)

lemma book_ok_ended: "book_ok b \<Longrightarrow> book_ok (record_ended a now out b)"
  using rng_ok_next_f32 [of "book_rng b"]
  by (cases "next_f32 (book_rng b)")
    (auto simp: book_ok_def record_ended_def Let_def split: option.splits)

lemma insert_manual_one_ok: "book_ok (snd s) \<Longrightarrow> book_ok (snd (insert_manual_one now a s))"
  by (auto simp: book_ok_def insert_manual_one_def split: prod.splits option.splits)

lemma book_ok_insert_manual:
  assumes "book_ok b"
  shows "book_ok (snd (insert_manual now addrs b))"
  unfolding insert_manual_def
  by (rule foldl_invariant [where P = "\<lambda>s. book_ok (snd s)"]) (use assms insert_manual_one_ok in auto)

section \<open>What an outcome does to an entry\<close>

text \<open>
  When a session or attempt ends the address is free again, and its entry, if it has one, is either
  forgotten by the rule or scheduled between one second and the documented delay plus a tenth.
\<close>

lemma record_ended_active:
  "map_of (active (record_ended a now out b)) = (map_of (active b))(a := None)"
  by (auto simp: record_ended_def Let_def delete_conv' split: prod.splits option.splits)

lemma record_ended_entries:
  "map_of (entries (record_ended a now out b)) =
     (case map_of (entries b) a of
        None \<Rightarrow> map_of (entries b)
      | Some e \<Rightarrow>
          (let e' = ended_entry now out (fst (next_f32 (book_rng b))) e
           in (map_of (entries b))(a := if forget_entry now e' then None else Some e')))"
  by (auto simp: record_ended_def Let_def hm_simps split: prod.splits option.splits)

lemma ended_entry_fields:
  "last_success (ended_entry now out r e) = last_success e"
  "entry_origin (ended_entry now out r e) = entry_origin e"
  "last_announced (ended_entry now out r e) = last_announced e"
  "last_attempt (ended_entry now out r e) = last_attempt e"
  "services (ended_entry now out r e) = services e"
  "transport (ended_entry now out r e) = transport e"
  by (cases out; simp add: ended_entry_def Let_def)+

lemma ended_entry_counters:
  "failures (ended_entry now out r e) =
     (case out of OurFault _ \<Rightarrow> failures e | Failed _ \<Rightarrow> sat_add (failures e) 1 | _ \<Rightarrow> 0)"
  "short_sessions (ended_entry now out r e) =
     (case out of
        Disconnected up silent \<Rightarrow> if is_short_session out then sat_add (short_sessions e) 1 else 0
      | _ \<Rightarrow> short_sessions e)"
  "last_attempt_failed (ended_entry now out r e) =
     (case out of OurFault _ \<Rightarrow> last_attempt_failed e | Failed _ \<Rightarrow> True | _ \<Rightarrow> False)"
  by (cases out; simp add: ended_entry_def Let_def)+

text \<open>The delay the documentation gives for this outcome, with the counters as it left them.\<close>

definition scheduled_delay :: "outcome \<Rightarrow> entry \<Rightarrow> nat" where
  "scheduled_delay out e =
     documented_delay out (entry_origin e) (0 < unat (last_success e)) (unat (failures e)) (unat (short_sessions e))"

lemma ended_entry_schedule:
  fixes now :: u32 and e :: entry and out :: outcome
  assumes "0 \<le> r" "r < 1"
  defines "e' \<equiv> ended_entry now out r e"
  obtains j where "unat (next_attempt e') = min (unat now + j) (2 ^ 32 - 1)" "1 \<le> j"
    "\<bar>of_nat j - (of_nat (scheduled_delay out e') :: rat)\<bar> \<le> of_nat (scheduled_delay out e') / 10 + 1"
proof -
  define base where "base = retry_delay_secs out (entry_origin e') (connected_before e') (failures e') (short_sessions e')"
  have d: "unat base = scheduled_delay out e'"
    by (simp add: base_def unat_retry_delay_secs scheduled_delay_def connected_before_def word_less_nat_alt)
  have "next_attempt e' = sat_add now (jitter base r)"
    by (simp add: e'_def base_def ended_entry_def Let_def connected_before_def)
  then have n: "unat (next_attempt e') = min (unat now + unat (jitter base r)) (2 ^ 32 - 1)"
    by (simp add: unat_simps)
  have "unat base \<le> 1048576"
    unfolding d scheduled_delay_def by (rule le_trans [OF documented_delay_bounds(2)]) simp
  note j = jitter_bounds [OF this assms(1,2)]
  show ?thesis by (rule that [OF n j(1)]) (use j(2) in \<open>simp only: d\<close>)
qed

text \<open>Nothing that is our own fault changes the class of an entry.\<close>

lemma our_fault_class: "entry_class (ended_entry now (OurFault f) r e) = entry_class e"
  by (simp add: entry_class_def ended_entry_def Let_def)

lemma ended_class:
  "entry_class (ended_entry now out r e) =
     (case out of
        OurFault _ \<Rightarrow> entry_class e
      | Failed _ \<Rightarrow> if connected_before e then ClassWasGood else ClassBad
      | _ \<Rightarrow> if connected_before e then ClassGood else ClassUnknown)"
proof -
  have "0 < sat_add (failures e) 1"
    using unat_sat_add [of "failures e" 1] by (simp add: word_less_nat_alt)
  then show ?thesis
    by (cases out) (simp_all add: entry_class_def classify_def connected_before_def ended_entry_def Let_def)
qed

section \<open>Statistics\<close>

lemma foldl_count_class:
  "foldl count_class s es =
     s\<lparr>st_unknown := st_unknown s + length (filter (\<lambda>e. entry_class e = ClassUnknown) es),
       st_good := st_good s + length (filter (\<lambda>e. entry_class e = ClassGood) es),
       st_was_good := st_was_good s + length (filter (\<lambda>e. entry_class e = ClassWasGood) es),
       st_bad := st_bad s + length (filter (\<lambda>e. entry_class e = ClassBad) es)\<rparr>"
  by (induction es arbitrary: s) (auto split: addr_class.splits)

lemma foldl_count_phase:
  "foldl count_phase s ps =
     s\<lparr>st_dialing := st_dialing s + length (filter (\<lambda>p. p = Dialing) ps),
       st_connected := st_connected s + length (filter (\<lambda>p. p = Connected) ps)\<rparr>"
proof (induction ps arbitrary: s)
  case (Cons p ps)
  then show ?case by (cases p) auto
qed simp

lemma length_classes:
  "length (filter (\<lambda>e. entry_class e = ClassUnknown) es) + length (filter (\<lambda>e. entry_class e = ClassGood) es)
   + length (filter (\<lambda>e. entry_class e = ClassWasGood) es) + length (filter (\<lambda>e. entry_class e = ClassBad) es)
   = length es"
proof (induction es)
  case (Cons e es)
  then show ?case by (cases "entry_class e") auto
qed simp

lemma length_phases:
  "length (filter (\<lambda>p. p = Dialing) ps) + length (filter (\<lambda>p. p = Connected) ps) = length ps"
proof (induction ps)
  case (Cons p ps)
  then show ?case by (cases p) auto
qed simp

lemma book_stats_sums:
  fixes b :: book
  defines "s \<equiv> book_stats b"
  shows "st_unknown s + st_good s + st_was_good s + st_bad s = st_total s"
    "st_total s = book_len b" "st_dialing s = dialing_count b"
    "st_dialing s + st_connected s = length (active b)"
  using length_classes [of "map snd (entries b)"] length_phases [of "map snd (active b)"]
  by (simp_all add: s_def book_stats_def Let_def foldl_count_class foldl_count_phase book_len_def dialing_count_def)

section \<open>Properties\<close>

text \<open>
  When an attempt or session ends, its address is free again; if the book knows it, the entry is either
  removed, exactly when the forget rule says so, or has its next attempt between one second and the
  documented delay plus a tenth from now (saturating at the end of time). No other entry changes.
\<close>

theorem ended_frees_and_schedules:
  fixes now :: u32 and out :: outcome and b :: book and e :: entry
  assumes "map_of (entries b) a = Some e"
  defines "b' \<equiv> record_ended a now out b"
  defines "e' \<equiv> ended_entry now out (fst (next_f32 (book_rng b))) e"
  shows "map_of (active b') a = None
    \<and> map_of (entries b') a = (if forget_entry now e' then None else Some e')
    \<and> (\<forall>k. k = a \<or> map_of (entries b') k = map_of (entries b) k \<and> map_of (active b') k = map_of (active b) k)
    \<and> (\<exists>j \<ge> 1. unat (next_attempt e') = min (unat now + j) (2 ^ 32 - 1)
         \<and> \<bar>of_nat j - (of_nat (scheduled_delay out e') :: rat)\<bar> \<le> of_nat (scheduled_delay out e') / 10 + 1)"
proof -
  have "map_of (active b') = (map_of (active b))(a := None)"
    and "map_of (entries b') = (map_of (entries b))(a := if forget_entry now e' then None else Some e')"
    using assms(1) by (simp_all add: b'_def e'_def record_ended_active record_ended_entries Let_def)
  moreover have "\<exists>j \<ge> 1. unat (next_attempt e') = min (unat now + j) (2 ^ 32 - 1)
      \<and> \<bar>of_nat j - (of_nat (scheduled_delay out e') :: rat)\<bar> \<le> of_nat (scheduled_delay out e') / 10 + 1"
    unfolding e'_def by (rule ended_entry_schedule [OF next_f32_range, of now out "book_rng b" e]) blast
  ultimately show ?thesis by auto
qed

definition sample_addr :: peer_addr where
  "sample_addr = Ipv4 [1, 2, 3, 4] 8333"

definition sample_book :: book where
  "sample_book = (book_new 100 7)\<lparr>entries := [(sample_addr, entry_new 1000 1 Gossip)]\<rparr>"

lemma sample_book_ok: "book_ok sample_book"
  using book_ok_new [of 100 7] by (simp add: sample_book_def book_ok_def hm_ok_def)

theorem ended_frees_and_schedules_witness:
  "map_of (active (record_ended sample_addr 2000 (Failed ConnectionRefused) sample_book)) sample_addr = None
   \<and> (\<exists>j \<ge> 1. unat (next_attempt (ended_entry 2000 (Failed ConnectionRefused) (fst (next_f32 (book_rng sample_book)))
        (entry_new 1000 1 Gossip))) = min (unat (2000 :: u32) + j) (2 ^ 32 - 1))"
proof -
  have "map_of (entries sample_book) sample_addr = Some (entry_new 1000 1 Gossip)" by (simp add: sample_book_def)
  from ended_frees_and_schedules [OF this, of 2000 "Failed ConnectionRefused"] show ?thesis by blast
qed

text \<open>
  The class an entry has after an outcome: a fault of our own leaves it, a failure makes an address that
  once connected \<open>was_good\<close> and any other \<open>bad\<close>, and any other end of a session leaves an address that
  connected \<open>good\<close> and one that never did \<open>unknown\<close>.
\<close>

theorem outcome_decides_class:
  "entry_class (ended_entry now out r e) =
     (case out of
        OurFault _ \<Rightarrow> entry_class e
      | Failed _ \<Rightarrow> if connected_before e then ClassWasGood else ClassBad
      | _ \<Rightarrow> if connected_before e then ClassGood else ClassUnknown)"
  by (rule ended_class)

text \<open>
  The reported statistics add up: the four classes to the number of entries, the two phases to the number of
  addresses with a task, and the dialling count is the one the in-flight ceiling is computed from.
\<close>

theorem stats_add_up:
  "st_unknown (book_stats b) + st_good (book_stats b) + st_was_good (book_stats b) + st_bad (book_stats b) = book_len b
   \<and> st_total (book_stats b) = book_len b \<and> st_dialing (book_stats b) = dialing_count b
   \<and> st_dialing (book_stats b) + st_connected (book_stats b) = length (active b)"
  using book_stats_sums [of b] by simp

end
