(* ===== verification/Book_Evict.thy ===== *)
theory Book_Evict
  imports Book
begin

text \<open>
  Eviction and ingest. What one pass of \<^verbatim>\<open>evict_batch\<close> removes is described by its list of victims: only
  entries that are neither manual nor in use and are forgettable or still unknown, at most one batch of
  them, and at least one whenever such an entry exists. From this follow the ceiling on the size of the
  book and that no amount of gossip displaces an entry worth keeping.
\<close>

section \<open>The walk\<close>

definition spared :: "(peer_addr, phase) hashmap \<Rightarrow> peer_addr \<times> entry \<Rightarrow> bool" where
  "spared act kv \<longleftrightarrow> entry_origin (snd kv) = Manual \<or> contains_key act (fst kv)"

definition forgettable :: "u32 \<Rightarrow> (peer_addr, phase) hashmap \<Rightarrow> peer_addr \<times> entry \<Rightarrow> bool" where
  "forgettable now act kv \<longleftrightarrow> \<not> spared act kv \<and> forget_entry now (snd kv)"

definition disposable :: "u32 \<Rightarrow> (peer_addr, phase) hashmap \<Rightarrow> peer_addr \<times> entry \<Rightarrow> bool" where
  "disposable now act kv \<longleftrightarrow>
     \<not> spared act kv \<and> \<not> forget_entry now (snd kv) \<and> entry_class (snd kv) = ClassUnknown"

definition evictable :: "u32 \<Rightarrow> (peer_addr, phase) hashmap \<Rightarrow> peer_addr \<times> entry \<Rightarrow> bool" where
  "evictable now act kv \<longleftrightarrow> forgettable now act kv \<or> disposable now act kv"

lemmas evict_kinds = spared_def forgettable_def disposable_def forget_entry_def

abbreviation unknown_dial :: "peer_addr \<times> entry \<Rightarrow> dial" where
  "unknown_dial kv \<equiv> \<lparr>d_addr = fst kv, d_transport = HintUnknown\<rparr>"

text \<open>
  The walk reads a prefix \<open>ys\<close> of the table, all of it unless the batch is full: the forgettable
  addresses of \<open>ys\<close> follow those found before, and its disposable ones went through the reservoir.
\<close>

definition scanned ::
  "u32 \<Rightarrow> (peer_addr, phase) hashmap \<Rightarrow> nat \<Rightarrow> peer_addr list \<Rightarrow> dial list \<Rightarrow> (peer_addr \<times> entry) list
   \<Rightarrow> peer_addr list \<Rightarrow> dial reservoir \<Rightarrow> bool" where
  "scanned now act batch fs zs xs fs' unk' \<longleftrightarrow>
     (\<exists>ys rest. xs = ys @ rest \<and> fs' = fs @ map fst (filter (forgettable now act) ys)
       \<and> sampled batch (zs @ map unknown_dial (filter (disposable now act) ys)) unk'
       \<and> length fs' \<le> batch \<and> (rest = [] \<or> length fs' = batch))"

lemma scanned_Cons:
  assumes "scanned now act batch (fs @ map fst (filter (forgettable now act) [kv]))
      (zs @ map unknown_dial (filter (disposable now act) [kv])) xs fs' unk'"
  shows "scanned now act batch fs zs (kv # xs) fs' unk'"
proof -
  from assms obtain ys rest where "xs = ys @ rest"
    "fs' = (fs @ map fst (filter (forgettable now act) [kv])) @ map fst (filter (forgettable now act) ys)"
    "sampled batch ((zs @ map unknown_dial (filter (disposable now act) [kv]))
       @ map unknown_dial (filter (disposable now act) ys)) unk'"
    "length fs' \<le> batch" "rest = [] \<or> length fs' = batch" unfolding scanned_def by blast
  then show ?thesis unfolding scanned_def
    by (intro exI [where x = "kv # ys"] exI [where x = rest]) (simp split: if_splits)
qed

lemma scanned_done:
  "sampled batch zs unk' \<Longrightarrow> length fs \<le> batch \<Longrightarrow> xs = [] \<or> length fs = batch
   \<Longrightarrow> scanned now act batch fs zs xs fs unk'"
  unfolding scanned_def by (intro exI [where x = "[]"] exI [where x = xs]) simp

lemma evict_scan_scanned:
  assumes "length fs < batch" "sampled batch zs (fst unk)"
    and "evict_scan now batch act fs unk xs = (fs', unk', r)"
  shows "scanned now act batch fs zs xs fs' unk' \<and> (rng_ok (snd unk) \<longrightarrow> rng_ok r)"
  using assms
proof (induction xs arbitrary: fs unk zs)
  case Nil
  then show ?case by (auto intro: scanned_done)
next
  case (Cons kv xs)
  obtain a e where kv: "kv = (a, e)" by (cases kv)
  consider (skip) "\<not> forgettable now act kv" "\<not> disposable now act kv"
      "evict_scan now batch act fs unk xs = (fs', unk', r)"
    | (full) "forgettable now act kv" "\<not> disposable now act kv" "fs' = fs @ [a]" "unk = (unk', r)"
      "Suc (length fs) = batch"
    | (forget) "forgettable now act kv" "\<not> disposable now act kv" "length (fs @ [a]) < batch"
      "evict_scan now batch act (fs @ [a]) unk xs = (fs', unk', r)"
    | (unknown) "\<not> forgettable now act kv" "disposable now act kv"
      "evict_scan now batch act fs (offer (unknown_dial kv) unk) xs = (fs', unk', r)"
    using Cons.prems(1,3) by (auto simp: kv evict_kinds Let_def split: if_splits)
  then show ?case
  proof cases
    case skip
    then show ?thesis using Cons.IH [OF Cons.prems(1,2)] by (auto intro!: scanned_Cons)
  next
    case full
    then show ?thesis using Cons.prems(2) by (auto simp: kv intro!: scanned_Cons scanned_done)
  next
    case forget
    then show ?thesis using Cons.IH [OF forget(3) Cons.prems(2)] by (auto simp: kv intro!: scanned_Cons)
  next
    case unknown
    have "sampled batch (zs @ [unknown_dial kv]) (fst (offer (unknown_dial kv) unk))"
      using sampled_offer [OF Cons.prems(2), of _ "snd unk"] by simp
    from Cons.IH [OF Cons.prems(1) this unknown(3)] show ?thesis
      using unknown rng_ok_offer [of _ "fst unk" "snd unk"] by (auto intro!: scanned_Cons)
  qed
qed

section \<open>The removal\<close>

lemma remove_counting_filter:
  "snd (remove_counting as (n, es)) = filter (\<lambda>(k, _). k \<notin> set as) es"
proof (induction as arbitrary: n es)
  case (Cons a as)
  then show ?case
    by (auto simp: AList.delete_eq intro!: filter_cong)
qed auto

lemma remove_counting_length:
  "hm_ok es \<Longrightarrow> fst (remove_counting as (n, es)) + length (snd (remove_counting as (n, es))) = n + length es"
proof (induction as arbitrary: n es)
  case (Cons a as)
  have "0 < length es" if "contains_key es a" using that by (cases es) (auto simp: hm_simps)
  with Cons.IH [OF hm_ok_remove [OF Cons.prems, of a]] show ?case
    using length_remove [OF Cons.prems, of a] by auto
qed simp

lemma remove_counting_all:
  assumes "hm_ok es" "distinct as" "set as \<subseteq> fst ` set es"
  shows "fst (remove_counting as (n, es)) = n + length as"
  using assms
proof (induction as arbitrary: n es)
  case (Cons a as)
  have "set as \<subseteq> fst ` set (AList.delete a es)"
    using Cons.prems by (force simp: AList.delete_eq)
  with Cons show ?case by (simp add: hm_simps)
qed simp

section \<open>One pass\<close>

text \<open>
  A pass in terms of its victims: the entries left are those whose address is no victim, and
  \<^verbatim>\<open>batch - removed\<close> does not underflow.
\<close>

definition evicts :: "u32 \<Rightarrow> book \<Rightarrow> peer_addr list \<Rightarrow> book \<Rightarrow> bool" where
  "evicts now b vs b' \<longleftrightarrow>
     distinct vs \<and> length vs \<le> evict_batch_size (capacity b)
     \<and> (\<forall>a \<in> set vs. \<exists>e. (a, e) \<in> set (entries b) \<and> evictable now (active b) (a, e))
     \<and> (vs = [] \<longrightarrow> (\<forall>kv \<in> set (entries b). \<not> evictable now (active b) kv))
     \<and> entries b' = filter (\<lambda>(a, _). a \<notin> set vs) (entries b)
     \<and> active b' = active b \<and> capacity b' = capacity b \<and> credit b' = credit b
     \<and> eviction_passes b' = eviction_passes b + 1
     \<and> (rng_ok (book_rng b) \<longrightarrow> rng_ok (book_rng b'))"

lemma evict_batch_size_pos: "0 < evict_batch_size c"
  by (simp add: evict_batch_size_def)

lemma scanned_victims:
  assumes "hm_ok xs" "scanned now act batch [] [] xs fs unk" "0 < batch"
  defines "vs \<equiv> fs @ map d_addr (take (batch - length fs) (items unk))"
  shows "distinct vs" "length vs \<le> batch" "length fs \<le> batch"
    "\<forall>a \<in> set vs. \<exists>e. (a, e) \<in> set xs \<and> evictable now act (a, e)"
    "vs = [] \<longrightarrow> (\<forall>kv \<in> set xs. \<not> evictable now act kv)"
proof -
  from assms(2) obtain ys rest where ys: "xs = ys @ rest"
    and fs: "fs = map fst (filter (forgettable now act) ys)"
    and smp: "sampled batch (map unknown_dial (filter (disposable now act) ys)) unk"
    and len: "length fs \<le> batch" "rest = [] \<or> length fs = batch"
    unfolding scanned_def append_Nil by blast
  let ?ds = "map unknown_dial (filter (disposable now act) ys)"
  have dys: "distinct (map fst ys)" using assms(1) ys by (simp add: hm_ok_def)
  have addrs: "map d_addr ?ds = map fst (filter (disposable now act) ys)" by simp
  have items: "d_addr ` set (items unk) \<subseteq> fst ` set (filter (disposable now act) ys)"
    using image_mono [OF sampled_set [OF smp], of d_addr] by (simp add: image_image)
  have "distinct (map d_addr (items unk))"
    by (rule sampled_distinct [OF smp]) (simp add: addrs distinct_map_filter dys del: map_map)
  then have d2: "distinct (map d_addr (take n (items unk)))" for n
    by (simp add: take_map [symmetric])
  have disj: "fst ` set (filter (forgettable now act) ys) \<inter> fst ` set (filter (disposable now act) ys) = {}"
    using dys by (auto simp: evict_kinds) (metis eq_key_imp_eq_value snd_conv fst_conv)
  show "distinct vs"
    using d2 disj items set_take_subset [of _ "items unk"] distinct_map_filter [OF dys]
    unfolding vs_def fs by fastforce
  show "length fs \<le> batch" by (rule len(1))
  then show "length vs \<le> batch" by (simp add: vs_def)
  show "\<forall>a \<in> set vs. \<exists>e. (a, e) \<in> set xs \<and> evictable now act (a, e)"
    using items set_take_subset [of _ "items unk"] unfolding vs_def fs ys evictable_def by fastforce
  show "vs = [] \<longrightarrow> (\<forall>kv \<in> set xs. \<not> evictable now act kv)"
  proof
    assume "vs = []"
    then have "fs = []" "items unk = []" "rest = []" using len assms(3) by (auto simp: vs_def)
    moreover from this have "filter (disposable now act) ys = []"
      using sampled_length [OF smp] assms(3) by (cases "filter (disposable now act) ys") auto
    ultimately show "\<forall>kv \<in> set xs. \<not> evictable now act kv"
      using fs ys by (auto simp: filter_empty_conv evictable_def)
  qed
qed

lemma evict_batch_evicts:
  assumes "hash_order ho" "hm_ok (entries b)"
  obtains vs where "evicts now b vs (snd (evict_batch ho now b))"
    "fst (evict_batch ho now b) \<longleftrightarrow> vs \<noteq> []"
proof -
  let ?batch = "evict_batch_size (capacity b)"
  obtain fs unk r where scan:
    "evict_scan now ?batch (active b) [] (reservoir_new ?batch, book_rng b) (ho (entries b)) = (fs, unk, r)"
    by (metis prod_cases3)
  have "scanned now (active b) ?batch [] [] (ho (entries b)) fs unk" and rng: "rng_ok (book_rng b) \<longrightarrow> rng_ok r"
    using evict_scan_scanned [OF _ _ scan, of "[]"] by (simp_all add: evict_batch_size_pos sampled_new)
  moreover have "hm_ok (ho (entries b))" using assms by simp
  moreover define us where "us = map d_addr (take (?batch - length fs) (items unk))"
  ultimately have v: "distinct (fs @ us)" "length (fs @ us) \<le> ?batch"
    "\<forall>a \<in> set (fs @ us). \<exists>e. (a, e) \<in> set (entries b) \<and> evictable now (active b) (a, e)"
    "fs @ us = [] \<longrightarrow> (\<forall>kv \<in> set (entries b). \<not> evictable now (active b) kv)"
    using scanned_victims [of "ho (entries b)" now "active b" ?batch fs unk] assms(1) evict_batch_size_pos
    by simp_all
  have sub: "set fs \<subseteq> fst ` set (entries b)" "set us \<subseteq> fst ` set (entries b)" using v(3) by force+
  obtain n1 es1 where rm1: "remove_counting fs (0, entries b) = (n1, es1)" by fastforce
  have es1: "es1 = filter (\<lambda>(a, _). a \<notin> set fs) (entries b)" and n1: "n1 = length fs"
    using remove_counting_filter [of fs 0 "entries b"] remove_counting_all [OF assms(2), of fs 0] rm1 v(1) sub
    by auto
  obtain n2 es2 where rm2: "remove_counting us (n1, es1) = (n2, es2)" by fastforce
  have "set us \<subseteq> fst ` set es1" using sub(2) v(1) unfolding es1 by force
  then have n2: "n2 = length (fs @ us)"
    using remove_counting_all [of es1 us n1] rm2 v(1) assms(2) n1 by (simp add: es1)
  have es2: "es2 = filter (\<lambda>(a, _). a \<notin> set (fs @ us)) (entries b)"
    using remove_counting_filter [of us n1 es1] rm2 unfolding es1
    by (auto simp: conj_commute intro!: filter_cong)
  have "evict_batch ho now b =
      (0 < n2, b\<lparr>entries := es2, eviction_passes := eviction_passes b + 1, book_rng := r\<rparr>)"
    using scan rm1 rm2 by (simp add: evict_batch_def Let_def us_def n1)
  then show ?thesis using v es2 n2 rng by (intro that [of "fs @ us"]) (auto simp: evicts_def)
qed

lemma evict_batch_ok:
  assumes "hash_order ho" "book_ok b"
  shows "book_ok (snd (evict_batch ho now b))"
  using evict_batch_evicts [OF assms(1), of b now] assms(2)
  by (metis (no_types, lifting) book_ok_def evicts_def hm_ok_retain)

lemma evicts_length:
  assumes "evicts now b vs b'" "hm_ok (entries b)"
  shows "length (entries b') + length vs = length (entries b)"
proof -
  have "remove_counting vs (0, entries b) = (length vs, entries b')"
    using assms remove_counting_filter [of vs 0 "entries b"] remove_counting_all [of "entries b" vs 0]
    by (force simp: evicts_def prod_eq_iff)
  then show ?thesis using remove_counting_length [OF assms(2), of vs 0] by simp
qed

lemma evicts_get:
  assumes "evicts now b vs b'" "hm_ok (entries b)"
  shows "map_of (entries b') a = (if a \<in> set vs then None else map_of (entries b) a)"
  using assms hm_get_retain [of "entries b" "\<lambda>a _. a \<notin> set vs" a]
  by (auto simp: evicts_def split: option.splits)

lemma evicts_keep:
  assumes "evicts now b vs b'" "hm_ok (entries b)" "map_of (entries b) a = Some e"
    "\<not> evictable now (active b) (a, e)"
  shows "map_of (entries b') a = Some e"
proof -
  have "a \<notin> set vs"
  proof
    assume "a \<in> set vs"
    then obtain e' where "(a, e') \<in> set (entries b)" "evictable now (active b) (a, e')"
      using assms(1) unfolding evicts_def by blast
    then show False using assms(2-4) by (auto simp: hm_get_iff [symmetric])
  qed
  then show ?thesis using assms(3) by (simp add: evicts_get [OF assms(1,2)])
qed

section \<open>Ingest\<close>

text \<open>
  What gossip may not touch of an entry: everything but the services, the transport verdict and the
  time of the announcement.
\<close>

definition standing :: "entry \<Rightarrow> entry" where
  "standing e = e\<lparr>services := 0, last_announced := 0, transport := HintUnknown\<rparr>"

lemma standing_refresh [simp]: "standing (refresh now s e) = standing e"
  by (simp add: refresh_def standing_def Let_def)

lemma refresh_fields [simp]:
  "entry_origin (refresh now s e) = entry_origin e" "last_success (refresh now s e) = last_success e"
  "failures (refresh now s e) = failures e" "last_attempt_failed (refresh now s e) = last_attempt_failed e"
  "last_announced (refresh now s e) = now"
  by (simp_all add: refresh_def Let_def)

lemma evictable_refresh:
  "evictable now act (a, refresh now s e) \<Longrightarrow> evictable now act (a, e)"
  by (auto simp: evictable_def evict_kinds entry_class_def should_forget_iff split: if_splits)

text \<open>How one announcement changes the book.\<close>

lemma ingest_one_cases:
  assumes "hash_order ho" "hm_ok (entries b)"
  obtains
    (ignored) "\<not> is_routable (g_addr g) \<or> ban_contains sha3 bl (g_addr g)"
      "ingest_one sha3 ho now bl g (n, b) = (n, b)"
  | (known) e where "map_of (entries b) (g_addr g) = Some e"
      "ingest_one sha3 ho now bl g (n, b) =
        (n, b\<lparr>entries := AList.map_entry (g_addr g) (refresh now (g_services g)) (entries b)\<rparr>)"
  | (added) "is_routable (g_addr g)" "\<not> ban_contains sha3 bl (g_addr g)"
      "map_of (entries b) (g_addr g) = None" "length (entries b) < capacity b"
      "ingest_one sha3 ho now bl g (n, b) =
        (n + 1, b\<lparr>entries := AList.update (g_addr g) (entry_new now (g_services g) Gossip) (entries b)\<rparr>)"
  | (evicted) vs b' where "is_routable (g_addr g)" "\<not> ban_contains sha3 bl (g_addr g)"
      "map_of (entries b) (g_addr g) = None" "capacity b \<le> length (entries b)" "evicts now b vs b'" "vs \<noteq> []"
      "ingest_one sha3 ho now bl g (n, b) =
        (n + 1, b'\<lparr>entries := AList.update (g_addr g) (entry_new now (g_services g) Gossip) (entries b')\<rparr>)"
  | (full) b' where "is_routable (g_addr g)" "\<not> ban_contains sha3 bl (g_addr g)"
      "map_of (entries b) (g_addr g) = None" "capacity b \<le> length (entries b)" "evicts now b [] b'"
      "ingest_one sha3 ho now bl g (n, b) = (n, b')"
proof -
  obtain vs where vs: "evicts now b vs (snd (evict_batch ho now b))" "fst (evict_batch ho now b) \<longleftrightarrow> vs \<noteq> []"
    by (rule evict_batch_evicts [OF assms])
  consider "\<not> is_routable (g_addr g) \<or> ban_contains sha3 bl (g_addr g)"
    | e where "is_routable (g_addr g)" "\<not> ban_contains sha3 bl (g_addr g)" "map_of (entries b) (g_addr g) = Some e"
    | "is_routable (g_addr g)" "\<not> ban_contains sha3 bl (g_addr g)" "map_of (entries b) (g_addr g) = None"
      "length (entries b) < capacity b"
    | "is_routable (g_addr g)" "\<not> ban_contains sha3 bl (g_addr g)" "map_of (entries b) (g_addr g) = None"
      "capacity b \<le> length (entries b)"
    by (meson not_le option.exhaust)
  then show ?thesis
  proof cases
    case 4
    show ?thesis
    proof (cases "vs = []")
      case True
      with 4 vs show ?thesis
        by (intro full [of "snd (evict_batch ho now b)"])
          (auto simp: ingest_one_def contains_key_def Let_def split: prod.splits)
    next
      case False
      with 4 vs show ?thesis
        by (intro evicted [of vs "snd (evict_batch ho now b)"])
          (auto simp: ingest_one_def contains_key_def Let_def split: prod.splits)
    qed
  qed (auto intro: ignored known added simp: ingest_one_def contains_key_def Let_def)
qed

text \<open>
  What an ingest keeps, as an invariant of its loop against the book \<open>b0\<close> it started from: the
  invariant and the untouched parts, the size limit, every entry worth keeping with its standing, and
  where the new addresses come from.
\<close>

definition worth_keeping :: "u32 \<Rightarrow> book \<Rightarrow> peer_addr \<Rightarrow> entry \<Rightarrow> bool" where
  "worth_keeping now b a e \<longleftrightarrow> map_of (entries b) a = Some e \<and> \<not> evictable now (active b) (a, e)"

definition keeps :: "u32 \<Rightarrow> book \<Rightarrow> book \<Rightarrow> bool" where
  "keeps now b0 b \<longleftrightarrow>
     (\<forall>a e. worth_keeping now b0 a e \<longrightarrow> (\<exists>e'. worth_keeping now b a e' \<and> standing e' = standing e))"

definition ingest_frame :: "book \<Rightarrow> book \<Rightarrow> bool" where
  "ingest_frame b0 b \<longleftrightarrow> active b = active b0 \<and> capacity b = capacity b0 \<and> credit b = credit b0"

definition ingest_sources :: "(u8 list \<Rightarrow> u8 list) \<Rightarrow> gossiped list \<Rightarrow> banlist \<Rightarrow> book \<Rightarrow> book \<Rightarrow> bool" where
  "ingest_sources sha3 gs bl b0 b \<longleftrightarrow>
     (\<forall>a \<in> fst ` set (entries b). a \<in> fst ` set (entries b0)
        \<or> a \<in> g_addr ` set gs \<and> is_routable a \<and> \<not> ban_contains sha3 bl a)"

lemma keeps_refl [simp]: "keeps now b b"
  by (auto simp: keeps_def)

lemma keeps_trans: "keeps now b0 b \<Longrightarrow> keeps now b b' \<Longrightarrow> keeps now b0 b'"
  unfolding keeps_def by metis

lemma ingest_frame_trans: "ingest_frame b0 b \<Longrightarrow> ingest_frame b b' \<Longrightarrow> ingest_frame b0 b'"
  by (simp add: ingest_frame_def)

lemma ingest_sources_trans:
  "ingest_sources sha3 gs bl b0 b \<Longrightarrow> ingest_sources sha3 [g] bl b b' \<Longrightarrow> g \<in> set gs
   \<Longrightarrow> ingest_sources sha3 gs bl b0 b'"
  unfolding ingest_sources_def by (simp only: list.set image_insert image_empty) blast

lemma keeps_insert:
  assumes "map_of (entries b) a = None" "active b' = active b"
    and "\<And>k e. worth_keeping now b k e \<Longrightarrow> map_of (entries b') k = Some e"
  shows "keeps now b (b'\<lparr>entries := AList.update a x (entries b')\<rparr>)"
  unfolding keeps_def
proof safe
  fix k e assume w: "worth_keeping now b k e"
  then have "k \<noteq> a" using assms(1) by (auto simp: worth_keeping_def)
  with w assms(2) assms(3) [OF w]
  have "worth_keeping now (b'\<lparr>entries := AList.update a x (entries b')\<rparr>) k e"
    by (simp add: worth_keeping_def hm_simps)
  then show "\<exists>e'. worth_keeping now (b'\<lparr>entries := AList.update a x (entries b')\<rparr>) k e' \<and> standing e' = standing e"
    by blast
qed

lemma keeps_refresh:
  "keeps now b (b\<lparr>entries := AList.map_entry a (refresh now s) (entries b)\<rparr>)"
  using evictable_refresh by (auto simp: keeps_def worth_keeping_def hm_simps)

lemma evicts_worth:
  "evicts now b vs b' \<Longrightarrow> hm_ok (entries b) \<Longrightarrow> worth_keeping now b k e \<Longrightarrow> map_of (entries b') k = Some e"
  by (auto simp: worth_keeping_def intro: evicts_keep)

lemma evicts_frame: "evicts now b vs b' \<Longrightarrow> ingest_frame b b'"
  by (simp add: evicts_def ingest_frame_def)

lemma evicts_book_ok: "evicts now b vs b' \<Longrightarrow> book_ok b \<Longrightarrow> book_ok b'"
  by (auto simp: evicts_def book_ok_def hm_ok_retain)

lemma evicts_keys: "evicts now b vs b' \<Longrightarrow> fst ` set (entries b') \<subseteq> fst ` set (entries b)"
  by (auto simp: evicts_def)

lemma update_keys: "fst ` set (AList.update k v m) = insert k (fst ` set m)"
  by (simp add: dom_update)

lemma ingest_one_keeps:
  fixes sha3 :: "u8 list \<Rightarrow> u8 list" and now :: u32 and bl :: banlist and g :: gossiped and n :: nat
  assumes "hash_order ho" "book_ok b"
  defines "s \<equiv> ingest_one sha3 ho now bl g (n, b)"
  shows "book_ok (snd s)" "ingest_frame b (snd s)" "keeps now b (snd s)"
    "length (entries (snd s)) \<le> max (capacity b) (length (entries b))"
    "ingest_sources sha3 [g] bl b (snd s)"
proof -
  have ok: "hm_ok (entries b)" using assms(2) by (simp add: book_ok_def)
  have "book_ok (snd s) \<and> ingest_frame b (snd s) \<and> keeps now b (snd s)
    \<and> length (entries (snd s)) \<le> max (capacity b) (length (entries b)) \<and> ingest_sources sha3 [g] bl b (snd s)"
    using assms(1) ok
  proof (cases rule: ingest_one_cases [where g = g and n = n and bl = bl and ?sha3.0 = sha3 and now = now])
    case ignored
    then show ?thesis using assms(2) by (simp add: s_def ingest_frame_def ingest_sources_def)
  next
    case (known e)
    then show ?thesis using assms(2) keeps_refresh
      by (simp add: s_def ingest_frame_def ingest_sources_def book_ok_def dom_map_entry)
  next
    case added
    then have "\<not> contains_key (entries b) (g_addr g)" by (simp add: contains_key_def)
    with added show ?thesis using assms(2) keeps_insert [OF added(3) refl, of now]
      by (auto simp: s_def ingest_frame_def ingest_sources_def book_ok_def update_keys length_insert_new
          worth_keeping_def)
  next
    case (evicted vs b')
    have "length (entries b') < length (entries b)"
      using evicts_length [OF evicted(5) ok] evicted(6) by (cases vs) auto
    moreover have "\<not> contains_key (entries b') (g_addr g)"
      using evicts_get [OF evicted(5) ok, of "g_addr g"] evicted(3) by (simp add: contains_key_def)
    moreover have "keeps now b (snd s)" unfolding s_def evicted(7) snd_conv
      by (rule keeps_insert [OF evicted(3)])
        (use evicts_frame [OF evicted(5)] evicts_worth [OF evicted(5) ok] in \<open>auto simp: ingest_frame_def\<close>)
    ultimately show ?thesis
      using evicted evicts_book_ok [OF evicted(5) assms(2)] evicts_frame [OF evicted(5)] evicts_keys [OF evicted(5)]
      by (auto simp: s_def ingest_frame_def ingest_sources_def book_ok_def update_keys length_insert_new)
  next
    case (full b')
    have "entries b' = entries b" "active b' = active b" using full(5) by (auto simp: evicts_def)
    then have "keeps now b b'" by (simp add: keeps_def worth_keeping_def)
    with full(6) evicts_book_ok [OF full(5) assms(2)] evicts_frame [OF full(5)] \<open>entries b' = entries b\<close>
    show ?thesis by (simp add: s_def ingest_sources_def)
  qed
  then show "book_ok (snd s)" "ingest_frame b (snd s)" "keeps now b (snd s)"
    "length (entries (snd s)) \<le> max (capacity b) (length (entries b))"
    "ingest_sources sha3 [g] bl b (snd s)" by blast+
qed

lemma ingest_keeps:
  fixes sha3 :: "u8 list \<Rightarrow> u8 list" and now :: u32 and bl :: banlist and gs :: "gossiped list"
  assumes "hash_order ho" "book_ok b"
  defines "b' \<equiv> snd (ingest sha3 ho now gs bl b)"
  shows "book_ok b'" "ingest_frame b b'" "keeps now b b'"
    "length (entries b') \<le> max (capacity b) (length (entries b))" "ingest_sources sha3 gs bl b b'"
proof -
  let ?P = "\<lambda>s :: nat \<times> book. book_ok (snd s) \<and> ingest_frame b (snd s) \<and> keeps now b (snd s)
    \<and> length (entries (snd s)) \<le> max (capacity b) (length (entries b)) \<and> ingest_sources sha3 gs bl b (snd s)"
  have "?P (ingest sha3 ho now gs bl b)" unfolding ingest_def
  proof (rule foldl_invariant [where P = ?P])
    show "?P (0, b)" using assms(2) by (simp add: ingest_frame_def ingest_sources_def)
    fix s g assume g: "g \<in> set gs" and P: "?P s"
    then have "book_ok (snd s)" by blast
    note one = ingest_one_keeps [OF assms(1) this, where n = "fst s" and g = g and now = now and bl = bl and ?sha3.0 = sha3,
        unfolded prod.collapse]
    have cap: "capacity (snd s) = capacity b" using P by (simp add: ingest_frame_def)
    show "?P (ingest_one sha3 ho now bl g s)"
      using one P keeps_trans [of now b "snd s"] ingest_frame_trans [of b "snd s"]
        ingest_sources_trans [of sha3 gs bl b "snd s" g] g cap by auto
  qed
  then show "book_ok b'" "ingest_frame b b'" "keeps now b b'"
    "length (entries b') \<le> max (capacity b) (length (entries b))" "ingest_sources sha3 gs bl b b'"
    unfolding b'_def by blast+
qed

text \<open>Conversely an acceptable address is learned whenever there is, or can be made, room for it.\<close>

lemma ingest_one_learns:
  assumes "hash_order ho" "book_ok b" "is_routable (g_addr g)" "\<not> ban_contains sha3 bl (g_addr g)"
    and "length (entries b) < capacity b \<or> (\<exists>kv \<in> set (entries b). evictable now (active b) kv)"
  shows "contains_key (entries (snd (ingest_one sha3 ho now bl g (n, b)))) (g_addr g)"
proof -
  have "hm_ok (entries b)" using assms(2) by (simp add: book_ok_def)
  with assms(1) show ?thesis
  proof (cases rule: ingest_one_cases [where g = g and n = n and bl = bl and ?sha3.0 = sha3 and now = now])
    case (full b')
    then show ?thesis using assms(5) by (auto simp: evicts_def)
  qed (use assms(3,4) in \<open>auto simp: contains_key_def hm_simps\<close>)
qed

section \<open>Properties\<close>

text \<open>
  C10. No amount of gossip displaces an entry worth keeping: one that is manual, in use, or neither past its forget
  rule nor unknown is still in the book after any ingest, with its history, counters and schedule
  untouched, whatever order the table is walked in.
\<close>

theorem gossip_displaces_nothing_worth_keeping:
  assumes "hash_order ho" "book_ok b" "map_of (entries b) a = Some e"
    and "entry_origin e = Manual \<or> contains_key (active b) a \<or> \<not> forget_entry now e \<and> entry_class e \<noteq> ClassUnknown"
  shows "\<exists>e'. map_of (entries (snd (ingest sha3 ho now gs bl b))) a = Some e' \<and> standing e' = standing e"
proof -
  have "worth_keeping now b a e"
    using assms(3,4) by (auto simp: worth_keeping_def evictable_def forgettable_def disposable_def spared_def)
  with ingest_keeps(3) [OF assms(1,2), where ?sha3.0 = sha3 and now = now and gs = gs and bl = bl] show ?thesis
    unfolding keeps_def worth_keeping_def by blast
qed

definition manual_book :: book where
  "manual_book = (book_new 1 7)\<lparr>entries := [(sample_addr, entry_new 1000 1 Manual)]\<rparr>"

lemma manual_book_ok: "book_ok manual_book"
  using book_ok_new [of 1 7] by (simp add: manual_book_def book_ok_def hm_ok_def)

theorem gossip_displaces_nothing_worth_keeping_witness:
  "\<exists>e'. map_of (entries (snd (ingest (\<lambda>_. []) rev 5000
       [\<lparr>g_addr = Ipv4 [5, 6, 7, 8] 8333, g_services = 9, g_ntime = 0\<rparr>] \<lparr>ban_entries = [], ban_path = []\<rparr> manual_book)))
     sample_addr = Some e' \<and> standing e' = standing (entry_new 1000 1 Manual)"
  by (rule gossip_displaces_nothing_worth_keeping [OF hash_order_rev manual_book_ok])
    (simp_all add: manual_book_def entry_new_def)

text \<open>
  Gossip never grows the book past its capacity (or past its size, when a restored snapshot or operator
  addresses already exceed that), and everything it adds is a routable, unbanned address that was announced.
\<close>

theorem ingest_is_bounded:
  assumes "hash_order ho" "book_ok b"
  shows "book_len (snd (ingest sha3 ho now gs bl b)) \<le> max (capacity b) (book_len b)
    \<and> (\<forall>a \<in> fst ` set (entries (snd (ingest sha3 ho now gs bl b))).
         a \<in> fst ` set (entries b) \<or> a \<in> g_addr ` set gs \<and> is_routable a \<and> \<not> ban_contains sha3 bl a)
    \<and> book_ok (snd (ingest sha3 ho now gs bl b))"
  using ingest_keeps(1,4,5) [OF assms, where ?sha3.0 = sha3 and now = now and gs = gs and bl = bl]
  by (simp add: book_len_def ingest_sources_def)

theorem ingest_is_bounded_witness:
  "book_len (snd (ingest (\<lambda>_. []) rev 5000
       [\<lparr>g_addr = Ipv4 [5, 6, 7, 8] 8333, g_services = 9, g_ntime = 0\<rparr>] \<lparr>ban_entries = [], ban_path = []\<rparr> manual_book)) \<le> 1"
  using ingest_is_bounded [OF hash_order_rev manual_book_ok, of "\<lambda>_. []" 5000
      "[\<lparr>g_addr = Ipv4 [5, 6, 7, 8] 8333, g_services = 9, g_ntime = 0\<rparr>]" "\<lparr>ban_entries = [], ban_path = []\<rparr>"]
  by (simp add: manual_book_def book_len_def book_new_def)

text \<open>
  One eviction pass: it removes at most a batch of entries, each of them neither manual nor in use and
  either past its forget rule or unknown; it leaves all others as they are; and it reports room exactly
  when such an entry existed. Its count of slots left to fill cannot underflow.
\<close>

theorem eviction_takes_only_what_it_may:
  assumes "hash_order ho" "book_ok b"
  shows "\<exists>vs. distinct vs \<and> length vs \<le> evict_batch_size (capacity b)
    \<and> entries (snd (evict_batch ho now b)) = filter (\<lambda>(a, _). a \<notin> set vs) (entries b)
    \<and> (\<forall>a \<in> set vs. \<exists>e. map_of (entries b) a = Some e \<and> entry_origin e \<noteq> Manual \<and> \<not> contains_key (active b) a
         \<and> (forget_entry now e \<or> entry_class e = ClassUnknown))
    \<and> (fst (evict_batch ho now b) \<longleftrightarrow> (\<exists>kv \<in> set (entries b). evictable now (active b) kv))"
proof -
  have ok: "hm_ok (entries b)" using assms(2) by (simp add: book_ok_def)
  obtain vs where vs: "evicts now b vs (snd (evict_batch ho now b))" "fst (evict_batch ho now b) \<longleftrightarrow> vs \<noteq> []"
    by (rule evict_batch_evicts [OF assms(1) ok])
  have "\<exists>e. map_of (entries b) a = Some e \<and> entry_origin e \<noteq> Manual \<and> \<not> contains_key (active b) a
      \<and> (forget_entry now e \<or> entry_class e = ClassUnknown)" if "a \<in> set vs" for a
    using vs(1) that ok
    by (auto simp: evicts_def evictable_def forgettable_def disposable_def spared_def hm_get_iff)
  moreover have "vs \<noteq> [] \<longleftrightarrow> (\<exists>kv \<in> set (entries b). evictable now (active b) kv)"
    using vs(1) by (cases vs) (auto simp: evicts_def)
  ultimately show ?thesis using vs by (intro exI [where x = vs]) (simp add: evicts_def)
qed

theorem eviction_takes_only_what_it_may_witness:
  "fst (evict_batch rev 5000 sample_book) \<longleftrightarrow> (\<exists>kv \<in> set (entries sample_book). evictable 5000 (active sample_book) kv)"
  using eviction_takes_only_what_it_may [OF hash_order_rev sample_book_ok, of 5000] by blast

end
