(* ===== verification/Book_Pick.thy ===== *)
theory Book_Pick
  imports Book
begin

text \<open>
  The pick. The credit scheme hands out exactly as many slots as the budget and the candidates allow,
  each to the class owed most, and keeps every credit within its cap. The walk over the entries sorts
  the dialable ones into five reservoirs; whatever is picked is dialable, distinct and then marked as
  being dialled.
\<close>

section \<open>The credit scheme\<close>

lemma upt_3: "[0..<3] = [0, 1, 2::nat]"
  by (simp add: upt_rec)

lemma best_class_Some:
  assumes "best_class cr taken available = Some i"
  shows "i < 3" "taken ! i < available ! i"
    "\<And>j. j < 3 \<Longrightarrow> taken ! j < available ! j \<Longrightarrow> cr ! j \<le> cr ! i"
proof -
  have "i < 3 \<and> taken ! i < available ! i \<and> (\<forall>j \<in> {0, 1, 2}. taken ! j < available ! j \<longrightarrow> cr ! j \<le> cr ! i)"
    using assms by (auto simp: best_class_def upt_3 split: if_splits)
  then show "i < 3" "taken ! i < available ! i"
    "\<And>j. j < 3 \<Longrightarrow> taken ! j < available ! j \<Longrightarrow> cr ! j \<le> cr ! i"
    by (auto simp: less_Suc_eq numeral_3_eq_3 numeral_2_eq_2)
qed

lemma best_class_None: "best_class cr taken available = None \<longleftrightarrow> (\<forall>i < 3. available ! i \<le> taken ! i)"
  by (auto simp: best_class_def upt_3 less_Suc_eq numeral_3_eq_3 numeral_2_eq_2)

definition allotted :: "nat list \<Rightarrow> nat list \<Rightarrow> bool" where
  "allotted available taken \<longleftrightarrow>
     length taken = 3 \<and> length available = 3 \<and> (\<forall>i < 3. taken ! i \<le> available ! i)"

lemma allotted_full:
  assumes "allotted available taken" "\<forall>i < 3. available ! i \<le> taken ! i"
  shows "sum_list taken = sum_list available"
proof -
  have "taken = available" using assms by (intro nth_equalityI) (auto simp: allotted_def intro: le_antisym)
  then show ?thesis by simp
qed

lemma allotted_room:
  assumes "allotted available taken" "i < 3" "taken ! i < available ! i"
  shows "sum_list taken < sum_list available"
proof -
  obtain t0 t1 t2 where t: "taken = [t0, t1, t2]"
    using assms(1) by (auto simp: allotted_def length_Suc_conv numeral_3_eq_3)
  obtain a0 a1 a2 where a: "available = [a0, a1, a2]"
    using assms(1) by (auto simp: allotted_def length_Suc_conv numeral_3_eq_3)
  have le: "t0 \<le> a0" "t1 \<le> a1" "t2 \<le> a2"
    using assms(1) unfolding allotted_def t a by (auto dest: spec [of _ 0] spec [of _ 1] spec [of _ 2])
  consider "i = 0" | "i = 1" | "i = 2" using assms(2) by linarith
  then show ?thesis using assms(3) le unfolding t a by cases simp_all
qed

lemma alloc_loop_allots:
  assumes "allotted available taken" "alloc_loop n available (cr, taken) = (cr', taken')"
  shows "allotted available taken' \<and> sum_list taken' = min (sum_list taken + n) (sum_list available)"
  using assms
proof (induction n arbitrary: cr taken)
  case 0
  then have "sum_list taken \<le> sum_list available"
    by (auto simp: allotted_def intro!: sum_list_mono2)
  with 0 show ?case by simp
next
  case (Suc n)
  show ?case
  proof (cases "best_class cr taken available")
    case None
    with Suc.prems have "taken' = taken" by simp
    then show ?thesis using Suc.prems(1) None allotted_full [of available taken] by (simp add: best_class_None)
  next
    case (Some i)
    note i = best_class_Some [OF this]
    have sum: "sum_list (taken[i := taken ! i + 1]) = sum_list taken + 1"
      using i(1) Suc.prems(1) elem_le_sum_list [of i taken] by (simp add: allotted_def sum_list_update)
    have al: "allotted available (taken[i := taken ! i + 1])"
      using Suc.prems(1) i by (auto simp: allotted_def nth_list_update)
    from Suc.IH [OF al] Suc.prems(2) Some show ?thesis
      unfolding sum using allotted_room [OF Suc.prems(1) i(1,2)] by auto
  qed
qed

lemma f32_cap: "f32_of CREDIT_CAP = CREDIT_CAP" "f32_of (- CREDIT_CAP) = - CREDIT_CAP"
  using f32.fl_of_int [of 4] by (simp_all add: CREDIT_CAP_def)

lemma alloc_loop_credit:
  assumes "credit_ok cr" "alloc_loop n available (cr, taken) = (cr', taken')"
  shows "credit_ok cr'"
  using assms
proof (induction n arbitrary: cr taken)
  case (Suc n)
  show ?case
  proof (cases "best_class cr taken available")
    case None
    with Suc.prems show ?thesis by simp
  next
    case (Some i)
    have "i < length cr" using best_class_Some(1) [OF Some] Suc.prems(1) by (simp add: credit_ok_def)
    then have "cr ! i \<le> CREDIT_CAP" using Suc.prems(1) nth_mem by (fastforce simp: credit_ok_def)
    then have "f32_of (cr ! i - 1) \<le> CREDIT_CAP"
      using f32.fl_mono [of "cr ! i - 1" CREDIT_CAP] by (simp add: f32_cap)
    then have "credit_ok (cr[i := max (f32_of (cr ! i - 1)) (- CREDIT_CAP)])"
      using Suc.prems(1) by (auto simp: credit_ok_def CREDIT_CAP_def dest!: set_update_subset_insert [THEN subsetD])
    with Suc Some show ?thesis by simp
  qed
qed simp

lemma credit_ok_earn:
  assumes "credit_ok cr"
  shows "credit_ok (earn budget cr)"
proof -
  have W: "\<forall>w \<in> set W. 0 \<le> w" "length W = 3"
    by (simp_all add: W_def WEIGHT_UNKNOWN_def WEIGHT_WAS_GOOD_def WEIGHT_BAD_def)
  have share: "0 \<le> f32_of (f32_of (w / f32_of (f32_of (W ! 0 + W ! 1) + W ! 2)) * f32_of (of_nat budget))"
    if "w \<in> set W" for w
    using W that
    by (intro f32.fl_nonneg mult_nonneg_nonneg divide_nonneg_nonneg add_nonneg_nonneg of_nat_0_le_iff) auto
  have low: "- CREDIT_CAP \<le> f32_of (c + x)" if "c \<in> set cr" "0 \<le> x" for c x
    using that assms f32.fl_mono [of "- CREDIT_CAP" "c + x"] by (force simp: credit_ok_def f32_cap)
  show ?thesis
    using assms W(2) share low
    by (auto simp: credit_ok_def earn_def Let_def CREDIT_CAP_def elim!: in_set_zipE)
qed

lemma allocate_ok:
  assumes "book_ok b" "length available = 3" "allocate budget available b = (taken, b')"
  shows "book_ok b'" "allotted available taken" "sum_list taken = min budget (sum_list available)"
    "entries b' = entries b" "active b' = active b" "capacity b' = capacity b" "book_rng b' = book_rng b"
proof -
  obtain cr where loop: "alloc_loop budget available (earn budget (credit b), [0, 0, 0]) = (cr, taken)"
    and b': "b' = b\<lparr>credit := cr\<rparr>"
    using assms(3) by (auto simp: allocate_def Let_def split: prod.splits)
  have "allotted available [0, 0, 0]"
    using assms(2) by (auto simp: allotted_def less_Suc_eq numeral_3_eq_3)
  from alloc_loop_allots [OF this loop]
  show "allotted available taken" "sum_list taken = min budget (sum_list available)" by simp_all
  show "book_ok b'"
    using alloc_loop_credit [OF credit_ok_earn loop] assms(1) by (simp add: b' book_ok_def)
qed (use assms(3) in \<open>auto simp: allocate_def Let_def split: prod.splits\<close>)

section \<open>The walk\<close>

text \<open>What may be dialled, and which of the five reservoirs it goes to.\<close>

definition dialable ::
  "(u8 list \<Rightarrow> u8 list) \<Rightarrow> u32 \<Rightarrow> enabled_nets \<Rightarrow> banlist \<Rightarrow> (peer_addr, phase) hashmap \<Rightarrow> peer_addr \<times> entry \<Rightarrow> bool" where
  "dialable sha3 now nets bl act kv \<longleftrightarrow>
     \<not> contains_key act (fst kv) \<and> next_attempt (snd kv) \<le> now
     \<and> allows nets (net_of (fst kv)) \<and> \<not> ban_contains sha3 bl (fst kv)"

datatype lane = LaneManual | LaneReconnect | LaneUnknown | LaneWasGood | LaneBad

definition lane_of :: "entry \<Rightarrow> lane" where
  "lane_of e =
     (if entry_origin e = Manual then LaneManual
      else case entry_class e of
        ClassGood \<Rightarrow> LaneReconnect | ClassUnknown \<Rightarrow> LaneUnknown
      | ClassWasGood \<Rightarrow> LaneWasGood | ClassBad \<Rightarrow> LaneBad)"

fun lane_reservoir :: "lane \<Rightarrow> pick_state \<Rightarrow> dial reservoir" where
  "lane_reservoir LaneManual st = ps_manual st"
| "lane_reservoir LaneReconnect st = ps_reconnect st"
| "lane_reservoir LaneUnknown st = ps_unknown st"
| "lane_reservoir LaneWasGood st = ps_was_good st"
| "lane_reservoir LaneBad st = ps_bad st"

definition lane_cap :: "nat \<Rightarrow> lane \<Rightarrow> nat" where
  "lane_cap budget l = (if l = LaneReconnect then MAX_RECONNECTS_PER_TICK else budget)"

definition dial_of :: "peer_addr \<times> entry \<Rightarrow> dial" where
  "dial_of kv = \<lparr>d_addr = fst kv, d_transport = transport (snd kv)\<rparr>"

text \<open>The candidates of a lane, in the order the walk meets them.\<close>

definition lane_dials ::
  "(u8 list \<Rightarrow> u8 list) \<Rightarrow> u32 \<Rightarrow> enabled_nets \<Rightarrow> banlist \<Rightarrow> (peer_addr, phase) hashmap
   \<Rightarrow> (peer_addr \<times> entry) list \<Rightarrow> lane \<Rightarrow> dial list" where
  "lane_dials sha3 now nets bl act xs l =
     map dial_of (filter (\<lambda>kv. dialable sha3 now nets bl act kv \<and> lane_of (snd kv) = l) xs)"

lemma pick_step_lane:
  "lane_reservoir l (pick_step sha3 now nets bl act st kv) =
     (if dialable sha3 now nets bl act kv \<and> lane_of (snd kv) = l
      then fst (offer (dial_of kv) (lane_reservoir l st, ps_rng st)) else lane_reservoir l st)"
  by (cases kv; cases l)
    (auto simp: pick_step_def dialable_def lane_of_def dial_of_def Let_def not_le
      split: addr_class.splits prod.splits)

lemma pick_step_rng: "rng_ok (ps_rng (pick_step sha3 now nets bl act st kv)) \<longleftrightarrow> rng_ok (ps_rng st)"
  by (cases kv) (auto simp: pick_step_def Let_def split: addr_class.splits prod.splits,
      (metis rng_ok_offer snd_conv)+)

abbreviation pick_scan ::
  "(u8 list \<Rightarrow> u8 list) \<Rightarrow> u32 \<Rightarrow> enabled_nets \<Rightarrow> banlist \<Rightarrow> (peer_addr, phase) hashmap \<Rightarrow> nat \<Rightarrow> rng
   \<Rightarrow> (peer_addr \<times> entry) list \<Rightarrow> pick_state" where
  "pick_scan sha3 now nets bl act budget r xs \<equiv>
     foldl (pick_step sha3 now nets bl act) (pick_init budget r) xs"

lemma pick_scan_sampled:
  "sampled (lane_cap budget l) (lane_dials sha3 now nets bl act xs l)
     (lane_reservoir l (pick_scan sha3 now nets bl act budget r xs))"
proof (induction xs rule: rev_induct)
  case Nil
  show ?case by (cases l) (simp_all add: lane_dials_def pick_init_def lane_cap_def sampled_new)
next
  case (snoc kv xs)
  then show ?case by (auto simp: lane_dials_def pick_step_lane intro: sampled_offer)
qed

lemma pick_scan_rng: "rng_ok r \<Longrightarrow> rng_ok (ps_rng (pick_scan sha3 now nets bl act budget r xs))"
  by (rule foldl_invariant) (simp_all add: pick_init_def pick_step_rng)

text \<open>Every dialable entry is in exactly one lane.\<close>

lemma lanes_partition:
  "mset (lane_dials sha3 now nets bl act xs LaneManual @ lane_dials sha3 now nets bl act xs LaneReconnect
     @ lane_dials sha3 now nets bl act xs LaneUnknown @ lane_dials sha3 now nets bl act xs LaneWasGood
     @ lane_dials sha3 now nets bl act xs LaneBad)
   = mset (map dial_of (filter (dialable sha3 now nets bl act) xs))"
proof (induction xs)
  case (Cons kv xs)
  then show ?case by (cases "lane_of (snd kv)") (simp_all add: lane_dials_def)
qed (simp add: lane_dials_def)

section \<open>The result\<close>

lemma record_dialing_fold:
  fixes ds :: "dial list" and now :: u32 and b :: book
  defines "b' \<equiv> foldl (\<lambda>b d. record_dialing (d_addr d) now b) b ds"
  shows "book_ok b \<Longrightarrow> book_ok b'"
    "map_of (active b') = (\<lambda>a. if a \<in> d_addr ` set ds then Some Dialing else map_of (active b) a)"
    "map_of (entries b') =
       (\<lambda>a. if a \<in> d_addr ` set ds then map_option (\<lambda>e. e\<lparr>last_attempt := now\<rparr>) (map_of (entries b) a)
            else map_of (entries b) a)"
    "capacity b' = capacity b" "map fst (entries b') = map fst (entries b)"
proof -
  show "book_ok b \<Longrightarrow> book_ok b'"
    unfolding b'_def by (rule foldl_invariant) (auto intro: book_ok_dialing)
  show "map_of (active b') = (\<lambda>a. if a \<in> d_addr ` set ds then Some Dialing else map_of (active b) a)"
    unfolding b'_def by (induction ds arbitrary: b) (auto simp: record_dialing_def hm_simps fun_eq_iff)
  show "map_of (entries b') =
       (\<lambda>a. if a \<in> d_addr ` set ds then map_option (\<lambda>e. e\<lparr>last_attempt := now\<rparr>) (map_of (entries b) a)
            else map_of (entries b) a)"
    unfolding b'_def
    by (induction ds arbitrary: b) (auto simp: record_dialing_def hm_simps fun_eq_iff option.map_comp comp_def)
  show "capacity b' = capacity b" unfolding b'_def by (induction ds arbitrary: b) (auto simp: record_dialing_def)
  show "map fst (entries b') = map fst (entries b)"
    unfolding b'_def by (induction ds arbitrary: b) (auto simp: record_dialing_def hm_simps)
qed

text \<open>
  The pick against its specification: what is picked is a sub-multiset of the dialable entries, the
  operator's own and the reconnects as many as fit, and exactly as many of the three weighted classes as
  the budget and their candidates allow.
\<close>

definition picks ::
  "(u8 list \<Rightarrow> u8 list) \<Rightarrow> u32 \<Rightarrow> nat \<Rightarrow> enabled_nets \<Rightarrow> banlist \<Rightarrow> book \<Rightarrow> dial list \<Rightarrow> bool" where
  "picks sha3 now budget nets bl b out \<longleftrightarrow>
     (let lanes = \<lambda>l. length (lane_dials sha3 now nets bl (active b) (entries b) l);
          weighted = min budget (lanes LaneUnknown) + min budget (lanes LaneWasGood) + min budget (lanes LaneBad)
      in mset out \<subseteq># mset (map dial_of (filter (dialable sha3 now nets bl (active b)) (entries b)))
         \<and> length out = min budget (lanes LaneManual) + min MAX_RECONNECTS_PER_TICK (lanes LaneReconnect)
             + min budget weighted)"

lemma lane_dials_order:
  "hash_order ho \<Longrightarrow> mset (lane_dials sha3 now nets bl act (ho xs) l) = mset (lane_dials sha3 now nets bl act xs l)"
  by (simp add: lane_dials_def mset_filter hash_order_def)

lemma mset_take_subset: "mset (take n xs) \<subseteq># mset xs"
  by (metis append_take_drop_id mset_append mset_subset_eq_add_left)

lemma length_picked:
  assumes "sampled k xs res" "n \<le> length (items res)"
  shows "mset (take n (items res)) \<subseteq># mset xs" "length (take n (items res)) = n"
  using assms subset_mset.order_trans [OF mset_take_subset [of n "items res"]] by (simp_all add: sampled_def)

lemma pick_picks:
  assumes "hash_order ho" "book_ok b" "pick sha3 ho now budget nets bl b = (out, b')"
  shows "picks sha3 now budget nets bl b out"
    and "\<exists>b1. b' = foldl (\<lambda>b d. record_dialing (d_addr d) now b) b1 out \<and> book_ok b1
      \<and> entries b1 = entries b \<and> active b1 = active b \<and> capacity b1 = capacity b"
proof -
  define st where "st = pick_scan sha3 now nets bl (active b) budget (book_rng b) (ho (entries b))"
  define R where "R = (\<lambda>l. lane_reservoir l st)"
  define L where "L = (\<lambda>l. lane_dials sha3 now nets bl (active b) (ho (entries b)) l)"
  have smp: "sampled (lane_cap budget l) (L l) (R l)" for l
    unfolding R_def L_def st_def by (rule pick_scan_sampled)
  note len = sampled_length [OF smp]
  let ?av = "[length (items (R LaneUnknown)), length (items (R LaneWasGood)), length (items (R LaneBad))]"
  obtain taken b1 where al: "allocate budget ?av (b\<lparr>book_rng := ps_rng st\<rparr>) = (taken, b1)" by fastforce
  have "book_ok (b\<lparr>book_rng := ps_rng st\<rparr>)"
    using assms(2) pick_scan_rng unfolding st_def by (simp add: book_ok_def)
  note b1 = allocate_ok [OF this _ al, simplified]
  have t: "taken ! 0 \<le> length (items (R LaneUnknown))" "taken ! 1 \<le> length (items (R LaneWasGood))"
    "taken ! 2 \<le> length (items (R LaneBad))" "length taken = 3"
    using b1(2) by (auto simp: allotted_def dest: spec [of _ 0] spec [of _ 1] spec [of _ 2])
  then have sum: "sum_list taken = taken ! 0 + taken ! 1 + taken ! 2"
    by (auto simp: length_Suc_conv numeral_3_eq_3 numeral_2_eq_2)
  have out: "out = items (R LaneManual) @ items (R LaneReconnect) @ take (taken ! 0) (items (R LaneUnknown))
      @ take (taken ! 1) (items (R LaneWasGood)) @ take (taken ! 2) (items (R LaneBad))"
    and b': "b' = foldl (\<lambda>b d. record_dialing (d_addr d) now b) b1 out"
    using assms(3) al by (auto simp: pick_def Let_def st_def R_def)
  show "\<exists>b1. b' = foldl (\<lambda>b d. record_dialing (d_addr d) now b) b1 out \<and> book_ok b1
      \<and> entries b1 = entries b \<and> active b1 = active b \<and> capacity b1 = capacity b"
    using b' b1 by auto
  have full: "mset (items (R l)) \<subseteq># mset (L l)" for l using smp by (simp add: sampled_def)
  have "mset out \<subseteq># mset (L LaneManual @ L LaneReconnect @ L LaneUnknown @ L LaneWasGood @ L LaneBad)"
    unfolding out mset_append by (intro subset_mset.add_mono full length_picked(1) [OF smp] t)
  then have sub: "mset out \<subseteq># mset (map dial_of (filter (dialable sha3 now nets bl (active b)) (ho (entries b))))"
    using lanes_partition [of sha3 now nets bl "active b" "ho (entries b)"] unfolding L_def by simp
  have "mset (L l) = mset (lane_dials sha3 now nets bl (active b) (entries b) l)" for l
    unfolding L_def by (rule lane_dials_order [OF assms(1)])
  then have lens: "length (L l) = length (lane_dials sha3 now nets bl (active b) (entries b) l)" for l
    by (metis size_mset)
  have "length out = length (items (R LaneManual)) + length (items (R LaneReconnect)) + sum_list taken"
    using t unfolding out by (simp add: sum)
  then show "picks sha3 now budget nets bl b out"
    using sub b1(3) assms(1)
    by (simp add: picks_def Let_def len lens lane_cap_def mset_filter hash_order_def add.assoc)
qed

lemma picks_distinct:
  assumes "hm_ok (entries b)" "picks sha3 now budget nets bl b out"
  shows "distinct (map d_addr out)"
proof -
  let ?xs = "map dial_of (filter (dialable sha3 now nets bl (active b)) (entries b))"
  have "mset (map d_addr out) \<subseteq># mset (map d_addr ?xs)"
    using assms(2) unfolding picks_def Let_def mset_map [of d_addr] by (blast intro: image_mset_subseteq_mono)
  moreover have "map d_addr ?xs = map fst (filter (dialable sha3 now nets bl (active b)) (entries b))"
    by (simp add: dial_of_def)
  moreover have "distinct (map fst (filter (dialable sha3 now nets bl (active b)) (entries b)))"
    using assms(1) by (simp add: hm_ok_def distinct_map_filter)
  ultimately show ?thesis using subset_mset_distinct by metis
qed

lemma picks_dialable:
  assumes "hm_ok (entries b)" "picks sha3 now budget nets bl b out" "d \<in> set out"
  obtains e where "map_of (entries b) (d_addr d) = Some e" "d_transport d = transport e"
    "dialable sha3 now nets bl (active b) (d_addr d, e)"
proof -
  have "set out \<subseteq> set (map dial_of (filter (dialable sha3 now nets bl (active b)) (entries b)))"
    using assms(2) unfolding picks_def Let_def by (metis set_mset_mono set_mset_mset)
  with assms(3) obtain a e where "(a, e) \<in> set (entries b)" "d = dial_of (a, e)"
    "dialable sha3 now nets bl (active b) (a, e)" by auto
  then show ?thesis using that [of e] assms(1) by (simp add: dial_of_def hm_get_iff)
qed

lemma picks_length:
  assumes "picks sha3 now budget nets bl b out"
  shows "length out \<le> 2 * budget + MAX_RECONNECTS_PER_TICK"
  using assms by (auto simp: picks_def Let_def)

text \<open>Something is picked whenever the budget allows a dial and something is dialable.\<close>

lemma picks_progress:
  assumes "picks sha3 now budget nets bl b out" "0 < budget" "kv \<in> set (entries b)"
    "dialable sha3 now nets bl (active b) kv"
  shows "out \<noteq> []"
proof -
  have "lane_dials sha3 now nets bl (active b) (entries b) (lane_of (snd kv)) \<noteq> []"
    using assms(3,4) by (auto simp: lane_dials_def filter_empty_conv)
  then have "0 < length out"
    using assms(1,2) by (cases "lane_of (snd kv)") (auto simp: picks_def Let_def MAX_RECONNECTS_PER_TICK_def)
  then show ?thesis by simp
qed

lemma pick_after:
  assumes "hash_order ho" "book_ok b" "pick sha3 ho now budget nets bl b = (out, b')"
  shows "book_ok b'"
    "map_of (active b') = (\<lambda>a. if a \<in> d_addr ` set out then Some Dialing else map_of (active b) a)"
    "map_of (entries b') =
       (\<lambda>a. if a \<in> d_addr ` set out then map_option (\<lambda>e. e\<lparr>last_attempt := now\<rparr>) (map_of (entries b) a)
            else map_of (entries b) a)"
    "capacity b' = capacity b" "map fst (entries b') = map fst (entries b)"
proof -
  from pick_picks(2) [OF assms] obtain b1 where b1:
    "b' = foldl (\<lambda>b d. record_dialing (d_addr d) now b) b1 out" "book_ok b1"
    "entries b1 = entries b" "active b1 = active b" "capacity b1 = capacity b" by blast
  show "book_ok b'"
    "map_of (active b') = (\<lambda>a. if a \<in> d_addr ` set out then Some Dialing else map_of (active b) a)"
    "map_of (entries b') =
       (\<lambda>a. if a \<in> d_addr ` set out then map_option (\<lambda>e. e\<lparr>last_attempt := now\<rparr>) (map_of (entries b) a)
            else map_of (entries b) a)"
    "capacity b' = capacity b" "map fst (entries b') = map fst (entries b)"
    using record_dialing_fold [where b = b1 and ds = out and now = now] b1(2) unfolding b1(1,3-5) by blast+
qed

section \<open>Properties\<close>

text \<open>
  C8. Whatever is picked is a different address each time, known to the book, without a task, due, on an
  enabled network and not banned; after the pick exactly these addresses are marked as being dialled.
\<close>

theorem pick_is_sound:
  assumes "hash_order ho" "book_ok b"
  shows "distinct (map d_addr (fst (pick sha3 ho now budget nets bl b)))
    \<and> (\<forall>d \<in> set (fst (pick sha3 ho now budget nets bl b)).
         \<exists>e. map_of (entries b) (d_addr d) = Some e \<and> d_transport d = transport e
           \<and> \<not> contains_key (active b) (d_addr d) \<and> next_attempt e \<le> now
           \<and> allows nets (net_of (d_addr d)) \<and> \<not> ban_contains sha3 bl (d_addr d))
    \<and> map_of (active (snd (pick sha3 ho now budget nets bl b))) =
        (\<lambda>a. if a \<in> d_addr ` set (fst (pick sha3 ho now budget nets bl b)) then Some Dialing else map_of (active b) a)"
proof -
  obtain out b' where p: "pick sha3 ho now budget nets bl b = (out, b')" by fastforce
  have ok: "hm_ok (entries b)" using assms(2) by (simp add: book_ok_def)
  note picks = pick_picks(1) [OF assms p]
  have "\<exists>e. map_of (entries b) (d_addr d) = Some e \<and> d_transport d = transport e
      \<and> \<not> contains_key (active b) (d_addr d) \<and> next_attempt e \<le> now
      \<and> allows nets (net_of (d_addr d)) \<and> \<not> ban_contains sha3 bl (d_addr d)" if "d \<in> set out" for d
    by (rule picks_dialable [OF ok picks that]) (auto simp: dialable_def)
  then show ?thesis using picks_distinct [OF ok picks] pick_after(2) [OF assms p] by (simp add: p)
qed

definition all_nets :: enabled_nets where
  "all_nets = \<lparr>en_ipv4 = True, en_ipv6 = True, en_tor = True, en_cjdns = True, en_i2p = True\<rparr>"

definition no_bans :: banlist where
  "no_bans = \<lparr>ban_entries = [], ban_path = []\<rparr>"

theorem pick_is_sound_witness:
  "distinct (map d_addr (fst (pick (\<lambda>_. []) id 2000 3 all_nets no_bans sample_book)))
   \<and> d_addr ` set (fst (pick (\<lambda>_. []) id 2000 3 all_nets no_bans sample_book)) \<subseteq> {sample_addr}"
  using pick_is_sound [OF hash_order_id sample_book_ok, of "\<lambda>_. []" 2000 3 all_nets no_bans]
  by (auto simp: sample_book_def split: if_splits)

text \<open>
  The pick is work-conserving: it takes as many of the operator's addresses as the budget, as many due
  reconnects as the per-tick limit, and of the three weighted classes together exactly as many as the budget and
  their candidates allow. So no dial slot is wasted while a candidate exists.
\<close>

theorem pick_wastes_no_slot:
  fixes sha3 :: "u8 list \<Rightarrow> u8 list" and now :: u32 and nets :: enabled_nets and bl :: banlist
  assumes "hash_order ho" "book_ok b"
  defines "cands \<equiv> \<lambda>l. length (lane_dials sha3 now nets bl (active b) (entries b) l)"
  shows "length (fst (pick sha3 ho now budget nets bl b)) =
    min budget (cands LaneManual) + min MAX_RECONNECTS_PER_TICK (cands LaneReconnect)
    + min budget (min budget (cands LaneUnknown) + min budget (cands LaneWasGood) + min budget (cands LaneBad))"
proof -
  obtain out b' where p: "pick sha3 ho now budget nets bl b = (out, b')" by fastforce
  show ?thesis using pick_picks(1) [OF assms(1,2) p] by (simp add: p picks_def Let_def cands_def)
qed

theorem pick_wastes_no_slot_witness:
  "length (fst (pick (\<lambda>_. []) id 2000 3 all_nets no_bans sample_book)) = 1"
  using pick_wastes_no_slot [OF hash_order_id sample_book_ok, of "\<lambda>_. []" 2000 3 all_nets no_bans]
  by (simp add: lane_dials_def sample_book_def sample_addr_def entry_new_def dialable_def book_new_def contains_key_def
      all_nets_def no_bans_def ban_contains_def lane_of_def entry_class_def classify_def)

text \<open>
  C9. The credit scheme, in single precision: it never gives a class more slots than it has candidates, gives
  out in total exactly the smaller of the budget and the number of candidates, and keeps every credit
  between minus and plus the cap.
\<close>

theorem allocation_is_exact:
  assumes "book_ok b" "length available = 3"
  shows "sum_list (fst (allocate budget available b)) = min budget (sum_list available)
    \<and> (\<forall>i < 3. fst (allocate budget available b) ! i \<le> available ! i)
    \<and> (\<forall>c \<in> set (credit (snd (allocate budget available b))). - CREDIT_CAP \<le> c \<and> c \<le> CREDIT_CAP)"
proof -
  obtain taken b' where al: "allocate budget available b = (taken, b')" by fastforce
  show ?thesis using allocate_ok(1-3) [OF assms al] by (simp add: al allotted_def book_ok_def credit_ok_def)
qed

theorem allocation_is_exact_witness:
  "sum_list (fst (allocate 5 [2, 0, 1] sample_book)) = 3"
  using allocation_is_exact [OF sample_book_ok, of "[2, 0, 1]" 5] by simp

end
