(* ===== verification/Snapshot.thy ===== *)
theory Snapshot
  imports Book Atomic_File
begin

text \<open>
  \<^verbatim>\<open>observer/src/addresses/persist.rs\<close>: the snapshot of the address book. The encoding is \<^verbatim>\<open>postcard\<close>'s, the
  parameters \<open>to_bytes\<close> (fallible, as \<^verbatim>\<open>to_stdvec\<close> is) and \<open>from_bytes\<close>; what the round trip needs of them is
  that decoding an encoding gives the snapshot back.

  The lemmas show that loading never fails and gives a map, that a saved book is loaded back with the
  same entries, that a snapshot of another version is an empty book, and that a crash during a save
  leaves the previous snapshot or the new one.
\<close>

definition FORMAT_VERSION :: u32 where "FORMAT_VERSION = 2"

record snapshot =
  version :: u32
  snap_entries :: "(peer_addr \<times> entry) list"

datatype save_error = SerializeSnapshot | WriteSnapshot

text \<open>
  The count saved or the error, and the states the file system went through. The entries are written in
  the iteration order of the map.
\<close>

definition persist_save ::
  "(snapshot \<Rightarrow> u8 list option) \<Rightarrow> entry_order \<Rightarrow> string \<Rightarrow> (peer_addr, entry) hashmap \<Rightarrow> call_outcome list
   \<Rightarrow> fs \<Rightarrow> (save_error + nat) \<times> fs list" where
  "persist_save to_bytes ho p es os fs =
     (let snap = \<lparr>version = FORMAT_VERSION, snap_entries = ho es\<rparr>; count = length (snap_entries snap)
      in case to_bytes snap of
           None \<Rightarrow> (Inl SerializeSnapshot, [fs])
         | Some bytes \<Rightarrow>
             (let (ok, trace) = atomic_save (with_extension p ''bin.tmp'') p bytes os fs
              in (if ok then Inr count else Inl WriteSnapshot, trace)))"

text \<open>Collecting pairs into a hash map: a later pair replaces an earlier one with its key.\<close>

definition collect :: "('k \<times> 'v) list \<Rightarrow> ('k, 'v) hashmap" where
  "collect kvs = foldl (\<lambda>m (k, v). AList.update k v m) [] kvs"

definition persist_load ::
  "(u8 list \<Rightarrow> snapshot option) \<Rightarrow> read_outcome \<Rightarrow> (peer_addr, entry) hashmap" where
  "persist_load from_bytes r =
     (case r of
        ReadNotFound \<Rightarrow> []
      | ReadFailed \<Rightarrow> []
      | ReadOk bytes \<Rightarrow>
          (case from_bytes bytes of
             None \<Rightarrow> []
           | Some snap \<Rightarrow>
               (if version snap \<noteq> FORMAT_VERSION then [] else collect (snap_entries snap))))"

section \<open>Loading\<close>

lemma hm_ok_collect: "hm_ok (collect kvs)"
  unfolding collect_def by (rule foldl_invariant) auto

lemma collect_snoc: "collect (kvs @ [(k, v)]) = AList.update k v (collect kvs)"
  by (simp add: collect_def)

lemma collect_distinct: "hm_ok kvs \<Longrightarrow> collect kvs = kvs"
proof (induction kvs rule: rev_induct)
  case (snoc kv kvs)
  obtain k v where kv: "kv = (k, v)" by (cases kv)
  have "hm_ok kvs" "k \<notin> fst ` set kvs" using snoc.prems by (auto simp: hm_ok_def kv)
  then show ?case using snoc.IH by (simp add: kv collect_snoc update_new)
qed (simp add: collect_def)

lemma persist_load_ok: "hm_ok (persist_load from_bytes r)"
  by (simp add: persist_load_def hm_ok_collect split: read_outcome.splits option.splits)

lemma persist_load_other_version:
  "from_bytes bytes = Some snap \<Longrightarrow> version snap \<noteq> FORMAT_VERSION \<Longrightarrow> persist_load from_bytes (ReadOk bytes) = []"
  by (simp add: persist_load_def)

section \<open>Saving\<close>

lemma snapshot_tmp_neq: "with_extension p ''bin.tmp'' \<noteq> p"
  by (rule with_extension_neq) simp

lemma persist_save_load:
  assumes "\<And>bytes. to_bytes \<lparr>version = FORMAT_VERSION, snap_entries = ho es\<rparr> = Some bytes
      \<Longrightarrow> from_bytes bytes = Some \<lparr>version = FORMAT_VERSION, snap_entries = ho es\<rparr>"
    and "hash_order ho" "hm_ok es" "persist_save to_bytes ho p es os fs = (Inr n, trace)"
  shows "n = length es"
    "map_of (persist_load from_bytes (read_outcome_of (last trace) p)) = map_of es"
proof -
  define snap where "snap = \<lparr>version = FORMAT_VERSION, snap_entries = ho es\<rparr>"
  obtain bytes where bytes: "to_bytes snap = Some bytes"
    and save: "atomic_save (with_extension p ''bin.tmp'') p bytes os fs = (True, trace)" "n = length (ho es)"
    using assms(4) by (auto simp: persist_save_def Let_def snap_def split: option.splits prod.splits if_splits)
  show "n = length es" using save(2) assms(2) by simp
  have "read_file (last trace) p = Some bytes"
    using atomic_save_ok(1) [OF snapshot_tmp_neq, of p bytes os fs] save(1) by simp
  then have "persist_load from_bytes (read_outcome_of (last trace) p) = collect (ho es)"
    using assms(1) [folded snap_def, OF bytes] by (simp add: read_outcome_of_def persist_load_def snap_def)
  then show "map_of (persist_load from_bytes (read_outcome_of (last trace) p)) = map_of es"
    using assms(2,3) by (simp add: collect_distinct hash_order_map_of)
qed

lemma persist_save_crash:
  assumes "target_flushed fs p" "persist_save to_bytes ho p es os fs = (res, trace)" "fs' \<in> set trace"
    "crash fs' fs''"
  shows "read_file fs'' p = read_file fs p \<or>
    read_file fs'' p = to_bytes \<lparr>version = FORMAT_VERSION, snap_entries = ho es\<rparr>"
proof (cases "to_bytes \<lparr>version = FORMAT_VERSION, snap_entries = ho es\<rparr>")
  case None
  then have "fs' = fs" using assms(2,3) by (auto simp: persist_save_def)
  then show ?thesis using assms(1,4) by (auto dest: crash_read)
next
  case (Some bytes)
  then have "fs' \<in> set (snd (atomic_save (with_extension p ''bin.tmp'') p bytes os fs))"
    using assms(2,3) by (auto simp: persist_save_def Let_def split: prod.splits)
  from atomic_save_crash_safe [OF snapshot_tmp_neq assms(1) this assms(4)] Some show ?thesis by auto
qed

section \<open>Properties\<close>

text \<open>
  A snapshot that was saved successfully is loaded back with the same entries, whatever order the map was
  written in, provided the encoding decodes to what was encoded.
\<close>

theorem snapshot_round_trip:
  assumes "\<And>bytes. to_bytes \<lparr>version = FORMAT_VERSION, snap_entries = ho es\<rparr> = Some bytes
      \<Longrightarrow> from_bytes bytes = Some \<lparr>version = FORMAT_VERSION, snap_entries = ho es\<rparr>"
    and "hash_order ho" "hm_ok es" "fst (persist_save to_bytes ho p es os fs) = Inr n"
  shows "n = length es
    \<and> map_of (persist_load from_bytes (read_outcome_of (last (snd (persist_save to_bytes ho p es os fs))) p)) = map_of es"
proof -
  have "persist_save to_bytes ho p es os fs = (Inr n, snd (persist_save to_bytes ho p es os fs))"
    using assms(4) by (simp add: prod_eq_iff)
  from persist_save_load [OF assms(1-3) this] show ?thesis by (rule conjI)
qed

theorem snapshot_round_trip_witness:
  "map_of (persist_load (\<lambda>_. Some \<lparr>version = FORMAT_VERSION, snap_entries = entries sample_book\<rparr>)
      (read_outcome_of (last (snd (persist_save (\<lambda>_. Some [1, 2]) id ''a.bin'' (entries sample_book)
        [CallOk, CallOk, CallOk, CallOk] Map.empty))) ''a.bin'')) = map_of (entries sample_book)"
  using snapshot_round_trip [of "\<lambda>_. Some [1, 2]" id "entries sample_book"
      "\<lambda>_. Some \<lparr>version = FORMAT_VERSION, snap_entries = entries sample_book\<rparr>" "''a.bin''" "[CallOk, CallOk, CallOk, CallOk]"
      Map.empty 1]
  by (simp add: persist_save_def save_unfold with_extension_def file_stem_def sample_book_def hm_ok_def)

text \<open>
  C12. A crash at any moment of a save, or an error of any of its system calls, leaves the previous snapshot or
  the new one, whole; and loading never fails, giving an empty book for a missing, unreadable,
  undecodable or differently versioned file.
\<close>

theorem snapshot_save_is_atomic:
  assumes "target_flushed fs p" "fs' \<in> set (snd (persist_save to_bytes ho p es os fs))" "crash fs' fs''"
  shows "read_file fs'' p \<in> {read_file fs p, to_bytes \<lparr>version = FORMAT_VERSION, snap_entries = ho es\<rparr>}
    \<and> hm_ok (persist_load from_bytes (read_outcome_of fs'' p))"
  using persist_save_crash [OF assms(1) _ assms(2,3), where res = "fst (persist_save to_bytes ho p es os fs)"]
    persist_load_ok by auto

theorem snapshot_save_is_atomic_witness:
  "read_file (last (snd (persist_save (\<lambda>_. Some [1, 2]) id ''a.bin'' [] [CallOk, CallOk, CallErr 0] Map.empty))) ''a.bin''
     \<in> {None, Some [1, 2]}"
  using snapshot_save_is_atomic [of Map.empty "''a.bin''"
      "last (snd (persist_save (\<lambda>_. Some [1, 2]) id ''a.bin'' [] [CallOk, CallOk, CallErr 0] Map.empty))"
      "\<lambda>_. Some [1, 2]" id "[]" "[CallOk, CallOk, CallErr 0]"
      "last (snd (persist_save (\<lambda>_. Some [1, 2]) id ''a.bin'' [] [CallOk, CallOk, CallErr 0] Map.empty))" "\<lambda>_. None"]
  by (simp add: persist_save_def save_unfold with_extension_def file_stem_def target_flushed_def read_file_def crash_def)

end
