(* ===== verification/Manager.thy ===== *)
theory Manager
  imports Book_Evict Book_Pick Snapshot
begin

text \<open>
  \<^verbatim>\<open>observer/src/addresses/mod.rs\<close>: the manager, which owns the book and the ban list and is the only one to
  decide when an address is dialled. Its methods take the explicit \<open>now\<close> of the source. What a method does
  to the outside is part of its result: the dials handed to the \<^verbatim>\<open>Dialer\<close>, the reply to a command, the
  states the file system goes through during a save. Log lines are left out.
\<close>

definition GOSSIP_QUEUE :: nat where "GOSSIP_QUEUE = 256"
definition COMMAND_QUEUE :: nat where "COMMAND_QUEUE = 32"

datatype lifecycle =
    LConnected peer_addr u64 u8
  | LV1Only peer_addr
  | LEnded peer_addr outcome

datatype command =
    AddManual "peer_addr list"
  | Ban ban_entry
  | BanListCmd
  | StatsCmd
  | Inspect peer_addr
  | DueNext nat

record ban_result =
  br_added :: nat
  br_purged :: nat
  br_saved :: bool \<comment> \<open>\<^verbatim>\<open>save_error\<close> is \<^verbatim>\<open>None\<close>\<close>

datatype reply =
    RAdded nat
  | RBan ban_result
  | RBanList "ban_entry list"
  | RStats stats
  | REntry "entry option"
  | RDue "(peer_addr \<times> u32) list"

section \<open>The end guard\<close>

text \<open>
  Dropping the guard, on whichever path the task leaves by, sends one message. Tasks that called
  \<^verbatim>\<open>finish\<close> report their outcome, all others a generic failure.
\<close>

record end_guard =
  guard_addr :: peer_addr
  guard_outcome :: "outcome option"

definition guard_new :: "peer_addr \<Rightarrow> end_guard" where
  "guard_new a = \<lparr>guard_addr = a, guard_outcome = None\<rparr>"

definition guard_finish :: "end_guard \<Rightarrow> outcome \<Rightarrow> end_guard" where
  "guard_finish g out = g\<lparr>guard_outcome := Some out\<rparr>"

definition guard_drop :: "end_guard \<Rightarrow> lifecycle" where
  "guard_drop g = LEnded (guard_addr g) (case guard_outcome g of None \<Rightarrow> Failed OtherReason | Some out \<Rightarrow> out)"

section \<open>The handle\<close>

text \<open>
  What a connection task does through its \<^verbatim>\<open>Handle\<close>: gossip is dropped when the bounded queue is full
  (\<^verbatim>\<open>try_send\<close>), reports go to the unbounded lifecycle queue.
\<close>

definition handle_gossip :: "gossiped list \<Rightarrow> gossiped list list \<Rightarrow> gossiped list list" where
  "handle_gossip gs queue = (if length queue < GOSSIP_QUEUE then queue @ [gs] else queue)"

definition handle_connected :: "peer_addr \<Rightarrow> u64 \<Rightarrow> u8 \<Rightarrow> lifecycle list \<Rightarrow> lifecycle list" where
  "handle_connected a svcs v life = life @ [LConnected a svcs v]"

definition handle_v1_only :: "peer_addr \<Rightarrow> lifecycle list \<Rightarrow> lifecycle list" where
  "handle_v1_only a life = life @ [LV1Only a]"

section \<open>The manager\<close>

record config =
  dials_per_tick :: nat
  max_dialing :: nat
  cfg_capacity :: nat
  cfg_nets :: enabled_nets
  snapshot_path :: string
  banlist_path :: string

record manager =
  m_book :: book
  m_banlist :: banlist
  m_cfg :: config

text \<open>What the two files read as and the clock are arguments.\<close>

definition manager_new ::
  "(u8 list \<Rightarrow> u8 list) \<Rightarrow> (u8 list \<Rightarrow> ban_entry list option) \<Rightarrow> (u8 list \<Rightarrow> snapshot option)
   \<Rightarrow> config \<Rightarrow> read_outcome \<Rightarrow> read_outcome \<Rightarrow> u32 \<Rightarrow> ban_error + manager" where
  "manager_new sha3 from_json from_bytes cfg ban_file snap_file now =
     (case ban_load from_json ban_file (banlist_path cfg) of
        Inl e \<Rightarrow> Inl e
      | Inr bl \<Rightarrow>
          (let b = book_new (cfg_capacity cfg) (ucast now);
               b = restore (persist_load from_bytes snap_file) b;
               (purged, b) = purge_banned sha3 bl b
           in Inr \<lparr>m_book = b, m_banlist = bl, m_cfg = cfg\<rparr>))"

definition manager_add_manual :: "u32 \<Rightarrow> peer_addr list \<Rightarrow> manager \<Rightarrow> nat \<times> manager" where
  "manager_add_manual now addrs m =
     (let (added, b) = insert_manual now addrs (m_book m) in (added, m\<lparr>m_book := b\<rparr>))"

definition tick_budget :: "manager \<Rightarrow> nat" where
  "tick_budget m =
     (let room = max_dialing (m_cfg m) - dialing_count (m_book m)
      in min (dials_per_tick (m_cfg m)) room)"

text \<open>The dials handed to the dialer, and the manager afterwards.\<close>

definition tick ::
  "(u8 list \<Rightarrow> u8 list) \<Rightarrow> entry_order \<Rightarrow> u32 \<Rightarrow> manager \<Rightarrow> dial list \<times> manager" where
  "tick sha3 ho now m =
     (let (out, b) = pick sha3 ho now (tick_budget m) (cfg_nets (m_cfg m)) (m_banlist m) (m_book m)
      in (out, m\<lparr>m_book := b\<rparr>))"

fun apply_msg :: "u32 \<Rightarrow> manager \<Rightarrow> lifecycle \<Rightarrow> manager" where
  "apply_msg now m (LConnected a svcs v) = m\<lparr>m_book := record_connected a now svcs v (m_book m)\<rparr>"
| "apply_msg now m (LV1Only a) = m\<lparr>m_book := record_v1_only a (m_book m)\<rparr>"
| "apply_msg now m (LEnded a out) = m\<lparr>m_book := record_ended a now out (m_book m)\<rparr>"

definition manager_ingest ::
  "(u8 list \<Rightarrow> u8 list) \<Rightarrow> entry_order \<Rightarrow> u32 \<Rightarrow> gossiped list \<Rightarrow> manager \<Rightarrow> nat \<times> manager" where
  "manager_ingest sha3 ho now gs m =
     (let (added, b) = ingest sha3 ho now gs (m_banlist m) (m_book m) in (added, m\<lparr>m_book := b\<rparr>))"

text \<open>
  A command gives its reply, the file-system states of the save a ban triggers, and the manager. The
  sort of \<^verbatim>\<open>DueNext\<close> is stable, as \<^verbatim>\<open>sort_by_key\<close> is.
\<close>

fun run_command ::
  "(u8 list \<Rightarrow> u8 list) \<Rightarrow> (ban_entry list \<Rightarrow> u8 list option) \<Rightarrow> entry_order \<Rightarrow> call_outcome list \<Rightarrow> u32 \<Rightarrow> command
   \<Rightarrow> manager \<Rightarrow> fs \<Rightarrow> reply \<times> manager \<times> fs list" where
  "run_command sha3 to_json ho os now (AddManual addrs) m fs =
     (let (added, b) = insert_manual now addrs (m_book m) in (RAdded added, m\<lparr>m_book := b\<rparr>, [fs]))"
| "run_command sha3 to_json ho os now (Ban e) m fs =
     (let (added, bl) = ban_add (m_banlist m) e;
          (purged, b) = (if 0 < added then purge_banned sha3 bl (m_book m) else (0, m_book m));
          (saved, trace) = ban_save to_json bl os fs
      in (RBan \<lparr>br_added = added, br_purged = purged, br_saved = saved\<rparr>,
          m\<lparr>m_banlist := bl, m_book := b\<rparr>, trace))"
| "run_command sha3 to_json ho os now BanListCmd m fs = (RBanList (ban_entries (m_banlist m)), m, [fs])"
| "run_command sha3 to_json ho os now StatsCmd m fs = (RStats (book_stats (m_book m)), m, [fs])"
| "run_command sha3 to_json ho os now (Inspect a) m fs = (REntry (book_entry (m_book m) a), m, [fs])"
| "run_command sha3 to_json ho os now (DueNext limit) m fs =
     (RDue (take limit (sort_key snd (map (\<lambda>(a, e). (a, next_attempt e)) (ho (entries (m_book m)))))), m, [fs])"

definition manager_save ::
  "(snapshot \<Rightarrow> u8 list option) \<Rightarrow> entry_order \<Rightarrow> call_outcome list \<Rightarrow> manager \<Rightarrow> fs
   \<Rightarrow> (save_error + nat) \<times> fs list" where
  "manager_save to_bytes ho os m fs =
     persist_save to_bytes ho (snapshot_path (m_cfg m)) (entries (m_book m)) os fs"

section \<open>The invariant of the manager\<close>

text \<open>The book is well-formed and holds nothing the ban list bans.\<close>

definition unbanned :: "(u8 list \<Rightarrow> u8 list) \<Rightarrow> manager \<Rightarrow> bool" where
  "unbanned sha3 m \<longleftrightarrow> (\<forall>a \<in> fst ` set (entries (m_book m)). \<not> ban_contains sha3 (m_banlist m) a)"

definition manager_ok :: "manager \<Rightarrow> bool" where
  "manager_ok m \<longleftrightarrow> book_ok (m_book m)"

lemma purge_entries: "fst ` set (entries (snd (purge_banned sha3 bl b))) =
    {a \<in> fst ` set (entries b). \<not> ban_contains sha3 bl a}"
  by (force simp: purge_banned_def Let_def)

lemma purge_frame [simp]:
  "active (snd (purge_banned sha3 bl b)) = active b" "capacity (snd (purge_banned sha3 bl b)) = capacity b"
  by (simp_all add: purge_banned_def Let_def)

lemma manager_new_ok:
  assumes "manager_new sha3 from_json from_bytes cfg ban_file snap_file now = Inr m"
  shows "manager_ok m" "unbanned sha3 m" "active (m_book m) = []"
proof -
  obtain bl where m: "m = \<lparr>m_book = snd (purge_banned sha3 bl
      (restore (persist_load from_bytes snap_file) (book_new (cfg_capacity cfg) (ucast now)))),
      m_banlist = bl, m_cfg = cfg\<rparr>"
    using assms by (auto simp: manager_new_def Let_def split: sum.splits prod.splits)
  show "manager_ok m" unfolding m manager_ok_def
    by (simp add: book_ok_purge book_ok_restore book_ok_new persist_load_ok)
  show "unbanned sha3 m" unfolding m unbanned_def by (simp add: purge_entries)
  show "active (m_book m) = []" unfolding m by (simp add: restore_def)
qed

lemma tick_ok:
  assumes "hash_order ho" "manager_ok m" "tick sha3 ho now m = (out, m')"
  shows "manager_ok m'" "m_banlist m' = m_banlist m" "m_cfg m' = m_cfg m"
    "pick sha3 ho now (tick_budget m) (cfg_nets (m_cfg m)) (m_banlist m) (m_book m) = (out, m_book m')"
proof -
  show p: "pick sha3 ho now (tick_budget m) (cfg_nets (m_cfg m)) (m_banlist m) (m_book m) = (out, m_book m')"
    and "m_banlist m' = m_banlist m" "m_cfg m' = m_cfg m"
    using assms(3) by (auto simp: tick_def split: prod.splits)
  show "manager_ok m'" using pick_after(1) [OF assms(1) _ p] assms(2) by (simp add: manager_ok_def)
qed

lemma apply_msg_ok: "manager_ok m \<Longrightarrow> manager_ok (apply_msg now m msg)"
  by (cases msg) (simp_all add: manager_ok_def book_ok_connected book_ok_v1_only book_ok_ended)

lemma apply_msg_frame [simp]:
  "m_banlist (apply_msg now m msg) = m_banlist m" "m_cfg (apply_msg now m msg) = m_cfg m"
  by (cases msg; simp)+

lemma manager_ingest_ok:
  "hash_order ho \<Longrightarrow> manager_ok m \<Longrightarrow> manager_ok (snd (manager_ingest sha3 ho now gs m))"
  using ingest_keeps(1) [of ho "m_book m" sha3 now gs "m_banlist m"]
  by (auto simp: manager_ingest_def manager_ok_def split: prod.splits)

lemma run_command_ok:
  "manager_ok m \<Longrightarrow> manager_ok (fst (snd (run_command sha3 to_json ho os now c m fs)))"
  using book_ok_insert_manual [of "m_book m" now] book_ok_purge [of "m_book m" sha3]
  by (cases c) (auto simp: manager_ok_def Let_def split: prod.splits if_splits, (metis snd_conv)+)

end
