(* ===== verification/Dial_System.thy ===== *)
theory Dial_System
  imports Manager
begin

text \<open>
  The manager together with what it talks to: the connection tasks its dialer starts, the unbounded
  lifecycle queue they report through, the bounded gossip queue and the disk. This is \<^verbatim>\<open>Manager::run\<close> of
  \<^verbatim>\<open>observer/src/addresses/mod.rs\<close> and the channels around it, as a step function on events: every arm of
  the \<^verbatim>\<open>select!\<close> is an event, and so is everything a task or a peer may do meanwhile. The arms are
  polled in random order, so the events may come in any order.

  The locale \<open>slot_table\<close> states what the tasks rely on: a table of busy addresses from which a
  pick takes only free ones and which an end report frees. Its client lemma is that no address ever
  has two tasks and that a busy address always has a task or an end report on its way. It is
  interpreted on the operations of the book.
\<close>

section \<open>Slots, tasks and reports\<close>

datatype 'a slot_report = SlotNote 'a | SlotEnd 'a

fun report_addr :: "'a slot_report \<Rightarrow> 'a" where
  "report_addr (SlotNote a) = a"
| "report_addr (SlotEnd a) = a"

text \<open>
  Processing the queue \<open>q\<close> from the busy set \<open>A\<close> meets only reports about busy addresses and ends with
  exactly the addresses \<open>T\<close> that have a task.
\<close>

fun reports_to :: "'a set \<Rightarrow> 'a slot_report list \<Rightarrow> 'a set \<Rightarrow> bool" where
  "reports_to A [] T = (A = T)"
| "reports_to A (SlotNote a # q) T = (a \<in> A \<and> reports_to A q T)"
| "reports_to A (SlotEnd a # q) T = (a \<in> A \<and> reports_to (A - {a}) q T)"

lemma reports_to_subset: "reports_to A q T \<Longrightarrow> T \<subseteq> A"
  by (induction A q T rule: reports_to.induct) auto

lemma reports_to_start: "reports_to A q T \<Longrightarrow> D \<inter> A = {} \<Longrightarrow> reports_to (A \<union> D) q (T \<union> D)"
proof (induction A q T rule: reports_to.induct)
  case (3 A a q T)
  then have "reports_to ((A - {a}) \<union> D) q (T \<union> D)" by (simp add: Diff_Int_distrib2 inf_commute) blast
  moreover have "(A - {a}) \<union> D = (A \<union> D) - {a}" using 3 by auto
  ultimately show ?case using 3 by auto
qed auto

lemma reports_to_note: "reports_to A q T \<Longrightarrow> a \<in> T \<Longrightarrow> reports_to A (q @ [SlotNote a]) T"
  by (induction A q T rule: reports_to.induct) auto

lemma reports_to_end: "reports_to A q T \<Longrightarrow> a \<in> T \<Longrightarrow> reports_to A (q @ [SlotEnd a]) (T - {a})"
  by (induction A q T rule: reports_to.induct) auto

lemma reports_to_busy: "reports_to A q T \<Longrightarrow> a \<in> A \<Longrightarrow> a \<in> T \<or> SlotEnd a \<in> set q"
  by (induction A q T rule: reports_to.induct) auto

lemma reports_to_task_pending: "reports_to A q T \<Longrightarrow> a \<in> T \<Longrightarrow> SlotEnd a \<notin> set q"
proof (induction A q T rule: reports_to.induct)
  case (3 A b q T)
  then show ?case using reports_to_subset [of "A - {b}" q T] by auto
qed auto

section \<open>The contract of a slot table\<close>

locale slot_table =
  fixes inv :: "'b \<Rightarrow> bool"
    and busy :: "'b \<Rightarrow> 'a set"
    and start :: "'b \<Rightarrow> 'a list \<Rightarrow> 'b \<Rightarrow> bool"
    and process :: "'a slot_report \<Rightarrow> 'b \<Rightarrow> 'b \<Rightarrow> bool"
    and internal :: "'b \<Rightarrow> 'b \<Rightarrow> bool"
  assumes start_law: "inv b \<Longrightarrow> start b ds b' \<Longrightarrow>
      inv b' \<and> distinct ds \<and> set ds \<inter> busy b = {} \<and> busy b' = busy b \<union> set ds"
    and note_law: "inv b \<Longrightarrow> process (SlotNote a) b b' \<Longrightarrow> a \<in> busy b \<Longrightarrow> inv b' \<and> busy b' = busy b"
    and end_law: "inv b \<Longrightarrow> process (SlotEnd a) b b' \<Longrightarrow> inv b' \<and> busy b' = busy b - {a}"
    and internal_law: "inv b \<Longrightarrow> internal b b' \<Longrightarrow> inv b' \<and> busy b' = busy b"
begin

definition slots_ok :: "'b \<Rightarrow> 'a slot_report list \<Rightarrow> 'a list \<Rightarrow> bool" where
  "slots_ok b q ts \<longleftrightarrow> inv b \<and> distinct ts \<and> reports_to (busy b) q (set ts)"

lemma slots_ok_start:
  assumes "slots_ok b q ts" "start b ds b'"
  shows "slots_ok b' q (ts @ ds)"
proof -
  have s: "inv b'" "distinct ds" "set ds \<inter> busy b = {}" "busy b' = busy b \<union> set ds"
    using start_law assms by (auto simp: slots_ok_def)
  moreover have "set ts \<subseteq> busy b" using assms(1) reports_to_subset by (auto simp: slots_ok_def)
  ultimately have "set ds \<inter> set ts = {}" by blast
  with s assms(1) reports_to_start [of "busy b" q "set ts" "set ds"] show ?thesis
    by (auto simp: slots_ok_def)
qed

lemma slots_ok_note: "slots_ok b q ts \<Longrightarrow> a \<in> set ts \<Longrightarrow> slots_ok b (q @ [SlotNote a]) ts"
  by (simp add: slots_ok_def reports_to_note)

lemma slots_ok_end: "slots_ok b q ts \<Longrightarrow> a \<in> set ts \<Longrightarrow> slots_ok b (q @ [SlotEnd a]) (remove1 a ts)"
  by (simp add: slots_ok_def reports_to_end set_remove1_eq)

lemma slots_ok_process:
  assumes "slots_ok b (r # q) ts" "process r b b'"
  shows "slots_ok b' q ts"
proof (cases r)
  case (SlotNote a)
  then show ?thesis using assms note_law [of b a b'] by (auto simp: slots_ok_def)
next
  case (SlotEnd a)
  then show ?thesis using assms end_law [of b a b'] by (auto simp: slots_ok_def)
qed

lemma slots_ok_internal: "slots_ok b q ts \<Longrightarrow> internal b b' \<Longrightarrow> slots_ok b' q ts"
  using internal_law by (auto simp: slots_ok_def)

lemma slots_ok_tasks: "slots_ok b q ts \<Longrightarrow> distinct ts \<and> set ts \<subseteq> busy b"
  by (auto simp: slots_ok_def dest: reports_to_subset)

lemma slots_ok_released: "slots_ok b q ts \<Longrightarrow> a \<in> busy b \<Longrightarrow> a \<in> set ts \<or> SlotEnd a \<in> set q"
  by (auto simp: slots_ok_def dest: reports_to_busy)

lemma slots_ok_once: "slots_ok b q ts \<Longrightarrow> a \<in> set ts \<Longrightarrow> SlotEnd a \<notin> set q"
  by (auto simp: slots_ok_def dest: reports_to_task_pending)

end

section \<open>The manager is a slot table\<close>

definition busy_addrs :: "manager \<Rightarrow> peer_addr set" where
  "busy_addrs m = fst ` set (active (m_book m))"

fun slot_report_of :: "lifecycle \<Rightarrow> peer_addr slot_report" where
  "slot_report_of (LConnected a _ _) = SlotNote a"
| "slot_report_of (LV1Only a) = SlotNote a"
| "slot_report_of (LEnded a _) = SlotEnd a"

definition manager_starts :: "manager \<Rightarrow> peer_addr list \<Rightarrow> manager \<Rightarrow> bool" where
  "manager_starts m ds m' \<longleftrightarrow>
     (\<exists>sha3 ho now out. hash_order ho \<and> tick sha3 ho now m = (out, m') \<and> ds = map d_addr out)"

definition manager_processes :: "peer_addr slot_report \<Rightarrow> manager \<Rightarrow> manager \<Rightarrow> bool" where
  "manager_processes r m m' \<longleftrightarrow> (\<exists>now msg. slot_report_of msg = r \<and> m' = apply_msg now m msg)"

definition manager_internal :: "manager \<Rightarrow> manager \<Rightarrow> bool" where
  "manager_internal m m' \<longleftrightarrow>
     (\<exists>sha3 ho now gs. hash_order ho \<and> m' = snd (manager_ingest sha3 ho now gs m))
     \<or> (\<exists>sha3 to_json ho os now c fs. m' = fst (snd (run_command sha3 to_json ho os now c m fs)))
     \<or> (\<exists>now addrs. m' = snd (manager_add_manual now addrs m))"

lemma manager_internal_ingest:
  "hash_order ho \<Longrightarrow> manager_internal m (snd (manager_ingest sha3 ho now gs m))"
  unfolding manager_internal_def by blast

lemma manager_internal_command:
  "manager_internal m (fst (snd (run_command sha3 to_json ho os now c m fs)))"
  unfolding manager_internal_def by blast

lemma insert_manual_frame:
  "active (snd (insert_manual now addrs b)) = active b" "capacity (snd (insert_manual now addrs b)) = capacity b"
proof -
  have "active (snd (insert_manual now addrs b)) = active b
      \<and> capacity (snd (insert_manual now addrs b)) = capacity b"
    unfolding insert_manual_def
    by (rule foldl_invariant [where P = "\<lambda>s. active (snd s) = active b \<and> capacity (snd s) = capacity b"])
      (auto simp: insert_manual_one_def split: prod.splits option.splits)
  then show "active (snd (insert_manual now addrs b)) = active b"
    "capacity (snd (insert_manual now addrs b)) = capacity b" by auto
qed

lemma run_command_active:
  "active (m_book (fst (snd (run_command sha3 to_json ho os now c m fs)))) = active (m_book m)"
proof (cases c)
  case (AddManual addrs)
  then show ?thesis using insert_manual_frame(1) [of now addrs "m_book m"] by (auto split: prod.splits)
next
  case (Ban e)
  then show ?thesis
    using purge_frame(1) [of sha3 "snd (ban_add (m_banlist m) e)" "m_book m"] by (simp add: Let_def case_prod_beta)
qed simp_all

lemma manager_internal_law:
  assumes "manager_ok m" "manager_internal m m'"
  shows "manager_ok m'" "active (m_book m') = active (m_book m)"
proof -
  have "manager_ok m' \<and> active (m_book m') = active (m_book m)"
    using assms(2) unfolding manager_internal_def
  proof (elim disjE exE conjE)
    fix sha3 ho now gs
    assume "hash_order ho" "m' = snd (manager_ingest sha3 ho now gs m)"
    then show ?thesis
      using ingest_keeps(2) [of ho "m_book m" sha3 now gs "m_banlist m"] assms(1) manager_ingest_ok
      by (auto simp: manager_ok_def manager_ingest_def ingest_frame_def split: prod.splits)
  next
    fix sha3 to_json ho os now c fs
    assume m': "m' = fst (snd (run_command sha3 to_json ho os now c m fs))"
    then show ?thesis using run_command_ok [OF assms(1)] run_command_active by simp
  next
    fix now addrs assume "m' = snd (manager_add_manual now addrs m)"
    then show ?thesis
      using insert_manual_frame(1) [of now addrs "m_book m"] book_ok_insert_manual [of "m_book m" now addrs] assms(1)
      by (auto simp: manager_add_manual_def manager_ok_def split: prod.splits)
  qed
  then show "manager_ok m'" "active (m_book m') = active (m_book m)" by auto
qed

lemma map_of_dom_active: "fst ` set m = dom (map_of m)"
  by (simp add: dom_map_of_conv_image_fst)

interpretation slots: slot_table manager_ok busy_addrs manager_starts manager_processes manager_internal
proof
  fix m ds m' assume ok: "manager_ok m" and "manager_starts m ds m'"
  then obtain sha3 ho now out where t: "hash_order ho" "tick sha3 ho now m = (out, m')" "ds = map d_addr out"
    by (auto simp: manager_starts_def)
  note p = tick_ok [OF t(1) ok t(2)]
  have b: "book_ok (m_book m)" "hm_ok (entries (m_book m))" using ok by (auto simp: manager_ok_def book_ok_def)
  note picks = pick_picks(1) [OF t(1) b(1) p(4)]
  have "d_addr d \<notin> busy_addrs m" if "d \<in> set out" for d
    using picks_dialable [OF b(2) picks that] by (auto simp: busy_addrs_def dialable_def contains_key_iff)
  then have "set ds \<inter> busy_addrs m = {}" using t(3) by auto
  moreover have "busy_addrs m' = busy_addrs m \<union> set ds"
    unfolding busy_addrs_def map_of_dom_active pick_after(2) [OF t(1) b(1) p(4)] t(3)
    by (auto simp: dom_def split: if_splits)
  ultimately show "manager_ok m' \<and> distinct ds \<and> set ds \<inter> busy_addrs m = {} \<and> busy_addrs m' = busy_addrs m \<union> set ds"
    using p(1) picks_distinct [OF b(2) picks] t(3) by simp
next
  fix m a m' assume "manager_ok m" "manager_processes (SlotNote a) m m'" "a \<in> busy_addrs m"
  then obtain now msg where m: "slot_report_of msg = SlotNote a" "m' = apply_msg now m msg" "manager_ok m'"
    by (auto simp: manager_processes_def intro: apply_msg_ok)
  then have "busy_addrs m' = busy_addrs m" using \<open>a \<in> busy_addrs m\<close>
    by (cases msg) (auto simp: busy_addrs_def record_connected_def record_v1_only_def dom_update)
  then show "manager_ok m' \<and> busy_addrs m' = busy_addrs m" using m(3) by simp
next
  fix m a m' assume "manager_ok m" "manager_processes (SlotEnd a) m m'"
  then obtain now msg where m: "slot_report_of msg = SlotEnd a" "m' = apply_msg now m msg" "manager_ok m'"
    by (auto simp: manager_processes_def intro: apply_msg_ok)
  then have "busy_addrs m' = busy_addrs m - {a}"
    by (cases msg) (auto simp: busy_addrs_def map_of_dom_active record_ended_active)
  then show "manager_ok m' \<and> busy_addrs m' = busy_addrs m - {a}" using m(3) by simp
next
  fix m m' assume "manager_ok m" "manager_internal m m'"
  from manager_internal_law [OF this] show "manager_ok m' \<and> busy_addrs m' = busy_addrs m"
    by (simp add: busy_addrs_def)
qed

section \<open>The running system\<close>

text \<open>The code the system calls that is not the observer's own: a digest and the two encodings.\<close>

record env =
  env_sha3 :: "u8 list \<Rightarrow> u8 list"
  env_to_json :: "ban_entry list \<Rightarrow> u8 list option"
  env_to_bytes :: "snapshot \<Rightarrow> u8 list option"

record sys =
  s_manager :: manager
  s_tasks :: "peer_addr list"
  s_life :: "lifecycle list"
  s_gossip :: "gossiped list list"
  s_fs :: fs

datatype event =
    EvTick entry_order u32
  | EvDeliver nat u32
  | EvGossipSend "gossiped list"
  | EvGossipRecv entry_order u32
  | EvCommand entry_order "call_outcome list" u32 command
  | EvSave entry_order "call_outcome list"
  | EvTaskConnected peer_addr u64 u8
  | EvTaskV1Only peer_addr
  | EvTaskEnd end_guard

text \<open>
  One event: the dials it starts and the state after it, or \<open>None\<close> when it cannot happen. A delivery
  drains a non-empty prefix of the queue under one \<^verbatim>\<open>now\<close>; a task reports only while it runs, and its
  end is the drop of its guard; a gossip batch is dropped when the queue is full.
\<close>

fun sys_step :: "env \<Rightarrow> event \<Rightarrow> sys \<Rightarrow> (dial list \<times> sys) option" where
  "sys_step env (EvTick ho now) s =
     (let (out, m) = tick (env_sha3 env) ho now (s_manager s)
      in Some (out, s\<lparr>s_manager := m, s_tasks := s_tasks s @ map d_addr out\<rparr>))"
| "sys_step env (EvDeliver k now) s =
     (if 0 < k \<and> k \<le> length (s_life s)
      then Some ([], s\<lparr>s_manager := foldl (apply_msg now) (s_manager s) (take k (s_life s)),
                       s_life := drop k (s_life s)\<rparr>)
      else None)"
| "sys_step env (EvGossipSend gs) s =
     Some ([], s\<lparr>s_gossip := handle_gossip gs (s_gossip s)\<rparr>)"
| "sys_step env (EvGossipRecv ho now) s =
     (case s_gossip s of
        [] \<Rightarrow> None
      | gs # rest \<Rightarrow>
          Some ([], s\<lparr>s_manager := snd (manager_ingest (env_sha3 env) ho now gs (s_manager s)), s_gossip := rest\<rparr>))"
| "sys_step env (EvCommand ho os now c) s =
     (let (_, m, trace) = run_command (env_sha3 env) (env_to_json env) ho os now c (s_manager s) (s_fs s)
      in Some ([], s\<lparr>s_manager := m, s_fs := last trace\<rparr>))"
| "sys_step env (EvSave ho os) s =
     Some ([], s\<lparr>s_fs := last (snd (manager_save (env_to_bytes env) ho os (s_manager s) (s_fs s)))\<rparr>)"
| "sys_step env (EvTaskConnected a svcs v) s =
     (if a \<in> set (s_tasks s) then Some ([], s\<lparr>s_life := handle_connected a svcs v (s_life s)\<rparr>) else None)"
| "sys_step env (EvTaskV1Only a) s =
     (if a \<in> set (s_tasks s) then Some ([], s\<lparr>s_life := handle_v1_only a (s_life s)\<rparr>) else None)"
| "sys_step env (EvTaskEnd g) s =
     (if guard_addr g \<in> set (s_tasks s)
      then Some ([], s\<lparr>s_tasks := remove1 (guard_addr g) (s_tasks s), s_life := s_life s @ [guard_drop g]\<rparr>)
      else None)"

fun event_ok :: "event \<Rightarrow> bool" where
  "event_ok (EvTick ho _) = hash_order ho"
| "event_ok (EvGossipRecv ho _) = hash_order ho"
| "event_ok _ = True"

text \<open>Runs, with what was dialled at each event.\<close>

inductive sys_run :: "env \<Rightarrow> sys \<Rightarrow> (event \<times> dial list) list \<Rightarrow> sys \<Rightarrow> bool" for env s where
  run_refl: "sys_run env s [] s"
| run_step: "sys_run env s tr s' \<Longrightarrow> event_ok ev \<Longrightarrow> sys_step env ev s' = Some (ds, s'')
    \<Longrightarrow> sys_run env s (tr @ [(ev, ds)]) s''"

inductive_cases sys_run_snocE: "sys_run env s (tr @ [x]) s'"

definition sys_init :: "manager \<Rightarrow> fs \<Rightarrow> sys" where
  "sys_init m fs = \<lparr>s_manager = m, s_tasks = [], s_life = [], s_gossip = [], s_fs = fs\<rparr>"

section \<open>Invariants of every run\<close>

definition sys_ok :: "sys \<Rightarrow> bool" where
  "sys_ok s \<longleftrightarrow>
     slots.slots_ok (s_manager s) (map slot_report_of (s_life s)) (s_tasks s)
     \<and> length (s_gossip s) \<le> GOSSIP_QUEUE"

lemma sys_ok_init: "manager_ok m \<Longrightarrow> active (m_book m) = [] \<Longrightarrow> sys_ok (sys_init m fs)"
  by (simp add: sys_ok_def sys_init_def slots.slots_ok_def busy_addrs_def)

lemma slots_ok_deliver:
  "slots.slots_ok m (map slot_report_of (ms @ rest)) ts
   \<Longrightarrow> slots.slots_ok (foldl (apply_msg now) m ms) (map slot_report_of rest) ts"
proof (induction ms arbitrary: m)
  case (Cons msg ms)
  have "manager_processes (slot_report_of msg) m (apply_msg now m msg)"
    by (auto simp: manager_processes_def)
  then have "slots.slots_ok (apply_msg now m msg) (map slot_report_of (ms @ rest)) ts"
    using Cons.prems by (auto intro: slots.slots_ok_process)
  with Cons.IH show ?case by simp
qed simp

lemma sys_step_ok:
  assumes "sys_ok s" "event_ok ev" "sys_step env ev s = Some (ds, s')"
  shows "sys_ok s'"
proof (cases ev)
  case (EvTick ho now)
  obtain out m where t: "tick (env_sha3 env) ho now (s_manager s) = (out, m)" by fastforce
  then have "manager_starts (s_manager s) (map d_addr out) m"
    using assms(2) EvTick by (auto simp: manager_starts_def)
  with assms t EvTick show ?thesis by (auto simp: sys_ok_def intro: slots.slots_ok_start)
next
  case (EvDeliver k now)
  with assms slots_ok_deliver [of "s_manager s" "take k (s_life s)" "drop k (s_life s)" "s_tasks s" now]
  show ?thesis by (auto simp: sys_ok_def split: if_splits)
next
  case (EvGossipRecv ho now)
  with assms obtain gs rest where g: "s_gossip s = gs # rest"
    "s' = s\<lparr>s_manager := snd (manager_ingest (env_sha3 env) ho now gs (s_manager s)), s_gossip := rest\<rparr>"
    by (auto split: list.splits)
  have "manager_internal (s_manager s) (s_manager s')"
    using assms(2) EvGossipRecv g(2) by (simp add: manager_internal_ingest)
  then show ?thesis using assms(1) g by (auto simp: sys_ok_def intro: slots.slots_ok_internal)
next
  case (EvCommand ho os now c)
  then have "manager_internal (s_manager s) (s_manager s')"
    using assms(3) manager_internal_command [of "s_manager s" "env_sha3 env" "env_to_json env" ho os now c "s_fs s"]
    by (auto split: prod.splits)
  then show ?thesis using assms(1,3) EvCommand
    by (auto simp: sys_ok_def split: prod.splits intro: slots.slots_ok_internal)
next
  case (EvTaskConnected a svcs v)
  then show ?thesis using assms(1,3)
    by (auto simp: sys_ok_def handle_connected_def split: if_splits intro: slots.slots_ok_note)
next
  case (EvTaskV1Only a)
  then show ?thesis using assms(1,3)
    by (auto simp: sys_ok_def handle_v1_only_def split: if_splits intro: slots.slots_ok_note)
next
  case (EvTaskEnd g)
  then show ?thesis using assms(1,3)
    by (auto simp: sys_ok_def guard_drop_def split: if_splits intro: slots.slots_ok_end)
qed (use assms in \<open>auto simp: sys_ok_def handle_gossip_def\<close>)

lemma sys_run_ok: "sys_run env s tr s' \<Longrightarrow> sys_ok s \<Longrightarrow> sys_ok s'"
  by (induction rule: sys_run.induct) (auto intro: sys_step_ok)

lemma sys_ok_manager: "sys_ok s \<Longrightarrow> manager_ok (s_manager s)"
  by (simp add: sys_ok_def slots.slots_ok_def)

section \<open>Bans over a run\<close>

lemma apply_msgs_frame [simp]:
  "m_banlist (foldl (apply_msg now) m ms) = m_banlist m" "m_cfg (foldl (apply_msg now) m ms) = m_cfg m"
  by (induction ms arbitrary: m) auto

lemma run_command_bans:
  "ban_contains sha3' (m_banlist m) a
   \<Longrightarrow> ban_contains sha3' (m_banlist (fst (snd (run_command sha3 to_json ho os now c m fs)))) a"
  using ban_add_mono [of sha3' "m_banlist m" a]
  by (cases c) (simp_all add: Let_def case_prod_beta)

text \<open>No event lifts a ban, and a tick dials nothing that is banned.\<close>

lemma sys_step_bans:
  assumes "sys_step env ev s = Some (ds, s')" "ban_contains sha3 (m_banlist (s_manager s)) a"
  shows "ban_contains sha3 (m_banlist (s_manager s')) a"
proof (cases ev)
  case (EvCommand ho os now c)
  then show ?thesis using assms run_command_bans [OF assms(2), of "env_sha3 env" "env_to_json env" ho os now c "s_fs s"]
    by (auto split: prod.splits)
qed (use assms in \<open>auto simp: tick_def manager_ingest_def split: prod.splits if_splits list.splits\<close>)

lemma sys_step_dials:
  assumes "sys_ok s" "event_ok ev" "sys_step env ev s = Some (ds, s')" "d \<in> set ds"
  obtains ho now e where "ev = EvTick ho now" "map_of (entries (m_book (s_manager s))) (d_addr d) = Some e"
    "d_transport d = transport e"
    "dialable (env_sha3 env) now (cfg_nets (m_cfg (s_manager s))) (m_banlist (s_manager s))
       (active (m_book (s_manager s))) (d_addr d, e)"
proof (cases ev)
  case (EvTick ho now)
  let ?m = "s_manager s"
  obtain m where t: "tick (env_sha3 env) ho now ?m = (ds, m)"
    using assms(3) EvTick by (auto split: prod.splits)
  have ok: "hash_order ho" "manager_ok ?m" "book_ok (m_book ?m)" "hm_ok (entries (m_book ?m))"
    using assms(1,2) EvTick sys_ok_manager by (auto simp: manager_ok_def book_ok_def)
  note p = pick_picks(1) [OF ok(1,3) tick_ok(4) [OF ok(1,2) t]]
  show ?thesis using picks_dialable [OF ok(4) p assms(4)] that [OF EvTick] by metis
qed (use assms(3,4) in \<open>auto split: prod.splits if_splits list.splits\<close>)

lemma sys_run_bans:
  "sys_run env s tr s' \<Longrightarrow> ban_contains sha3 (m_banlist (s_manager s)) a
   \<Longrightarrow> ban_contains sha3 (m_banlist (s_manager s')) a"
  by (induction rule: sys_run.induct) (auto intro: sys_step_bans)

lemma sys_run_never_dials_banned:
  assumes "sys_run env s tr s'" "sys_ok s" "ban_contains (env_sha3 env) (m_banlist (s_manager s)) a"
  shows "\<forall>(ev, ds) \<in> set tr. a \<notin> d_addr ` set ds"
  using assms
proof (induction rule: sys_run.induct)
  case (run_step tr s' ev ds s'')
  have "a \<notin> d_addr ` set ds"
  proof
    assume "a \<in> d_addr ` set ds"
    then obtain d where d: "d \<in> set ds" "a = d_addr d" by auto
    from sys_step_dials [OF sys_run_ok [OF run_step.hyps(1)] run_step.hyps(2,3) d(1)] run_step.prems
    show False using sys_run_bans [OF run_step.hyps(1)] d(2) by (auto simp: dialable_def)
  qed
  with run_step show ?case by auto
qed simp

section \<open>Operator addresses over a run\<close>

definition manual_in :: "book \<Rightarrow> peer_addr \<Rightarrow> bool" where
  "manual_in b a \<longleftrightarrow> (\<exists>e. map_of (entries b) a = Some e \<and> entry_origin e = Manual)"

lemma manual_in_map_entry:
  assumes "manual_in b a" "\<And>e. entry_origin (f e) = entry_origin e"
  shows "manual_in (b'\<lparr>entries := AList.map_entry k f (entries b)\<rparr>) a"
  using assms by (auto simp: manual_in_def hm_simps)

lemma manual_in_ended: "manual_in b a \<Longrightarrow> manual_in (record_ended k now out b) a"
  by (auto simp: manual_in_def record_ended_entries Let_def ended_entry_fields forget_entry_def should_forget_iff
      split: option.splits)

lemma manual_in_apply: "manual_in (m_book m) a \<Longrightarrow> manual_in (m_book (apply_msg now m msg)) a"
  by (cases msg)
    (auto simp: record_connected_def record_v1_only_def connected_entry_def Let_def manual_in_ended
      intro!: manual_in_map_entry)

lemma manual_in_insert_manual: "manual_in b a \<Longrightarrow> manual_in (snd (insert_manual now addrs b)) a"
  unfolding insert_manual_def
  by (rule foldl_invariant [where P = "\<lambda>s. manual_in (snd s) a"])
    (auto simp: insert_manual_one_def manual_in_def hm_simps split: prod.splits option.splits)

lemma manual_in_ingest:
  assumes "hash_order ho" "book_ok b" "manual_in b a"
  shows "manual_in (snd (ingest sha3 ho now gs bl b)) a"
proof -
  from assms(3) obtain e where e: "map_of (entries b) a = Some e" "entry_origin e = Manual"
    by (auto simp: manual_in_def)
  then have "worth_keeping now b a e"
    by (auto simp: worth_keeping_def evictable_def forgettable_def disposable_def spared_def)
  with ingest_keeps(3) [OF assms(1,2), where ?sha3.0 = sha3 and now = now and gs = gs and bl = bl]
  obtain e' where e': "worth_keeping now (snd (ingest sha3 ho now gs bl b)) a e'" "standing e' = standing e"
    by (auto simp: keeps_def)
  have "entry_origin e' = entry_origin e" using arg_cong [OF e'(2), of entry_origin] by (simp add: standing_def)
  then show ?thesis using e' e(2) by (auto simp: manual_in_def worth_keeping_def)
qed

lemma manual_in_purge:
  assumes "hm_ok (entries b)" "manual_in b a" "\<not> ban_contains sha3 bl a"
  shows "manual_in (snd (purge_banned sha3 bl b)) a"
  using assms hm_get_retain [OF assms(1), of "\<lambda>a _. \<not> ban_contains sha3 bl a" a]
  by (auto simp: manual_in_def purge_banned_def Let_def)

lemma manual_in_command:
  assumes "manager_ok m" "manual_in (m_book m) a"
    and "\<not> ban_contains sha3 (m_banlist (fst (snd (run_command sha3 to_json ho os now c m fs)))) a"
  shows "manual_in (m_book (fst (snd (run_command sha3 to_json ho os now c m fs)))) a"
proof (cases c)
  case (AddManual addrs)
  then show ?thesis using manual_in_insert_manual [OF assms(2)] by (simp add: case_prod_beta)
next
  case (Ban e)
  have "hm_ok (entries (m_book m))" using assms(1) by (simp add: manager_ok_def book_ok_def)
  then show ?thesis using Ban assms(2,3) manual_in_purge by (simp add: Let_def case_prod_beta)
qed (use assms(2) in simp_all)

lemma manual_in_tick:
  assumes "hash_order ho" "manager_ok m" "tick sha3 ho now m = (out, m')" "manual_in (m_book m) a"
  shows "manual_in (m_book m') a"
  using assms(2,4) pick_after(3) [OF assms(1) _ tick_ok(4) [OF assms(1-3)]]
  by (auto simp: manual_in_def manager_ok_def)

lemma sys_step_manual:
  assumes "sys_ok s" "event_ok ev" "sys_step env ev s = Some (ds, s')" "manual_in (m_book (s_manager s)) a"
    "\<not> ban_contains (env_sha3 env) (m_banlist (s_manager s')) a"
  shows "manual_in (m_book (s_manager s')) a"
proof (cases ev)
  case (EvTick ho now)
  then show ?thesis using assms sys_ok_manager [OF assms(1)] manual_in_tick by (auto split: prod.splits)
next
  case (EvDeliver k now)
  have "manual_in (m_book (foldl (apply_msg now) (s_manager s) ms)) a" for ms
    by (rule foldl_invariant [where P = "\<lambda>m. manual_in (m_book m) a"]) (auto intro: manual_in_apply assms(4))
  then show ?thesis using assms(3) EvDeliver by (auto split: if_splits)
next
  case (EvGossipRecv ho now)
  then show ?thesis using assms manual_in_ingest [of ho "m_book (s_manager s)"] sys_ok_manager [OF assms(1)]
    by (auto simp: manager_ingest_def manager_ok_def case_prod_beta split: list.splits)
next
  case (EvCommand ho os now c)
  then show ?thesis
    using assms(3,5) manual_in_command [OF sys_ok_manager [OF assms(1)] assms(4), of "env_sha3 env" "env_to_json env" ho os now c "s_fs s"]
    by (auto simp: case_prod_beta)
qed (use assms in \<open>auto split: if_splits\<close>)

lemma sys_run_manual:
  assumes "sys_run env s tr s'" "sys_ok s" "manual_in (m_book (s_manager s)) a"
    "\<not> ban_contains (env_sha3 env) (m_banlist (s_manager s')) a"
  shows "manual_in (m_book (s_manager s')) a"
  using assms
proof (induction rule: sys_run.induct)
  case (run_step tr s' ev ds s'')
  have "\<not> ban_contains (env_sha3 env) (m_banlist (s_manager s')) a"
    using run_step.prems(3) sys_step_bans [OF run_step.hyps(3)] by blast
  with run_step have "manual_in (m_book (s_manager s')) a" by blast
  with run_step show ?case using sys_step_manual sys_run_ok by blast
qed

end
