(* ===== verification/Refusals.thy ===== *)
theory Refusals
  imports Prelude
begin

text \<open>
  What the header tree remembers of the headers it refused (\<^verbatim>\<open>remember_rejected\<close>, \<^verbatim>\<open>touch_rejected\<close> and
  \<^verbatim>\<open>next_rejected_seq\<close> of \<^verbatim>\<open>observer/src/headertree.rs\<close>): a map from hash to reason and sequence number, and
  a \<^verbatim>\<open>BTreeMap\<close> from sequence number to hash that gives the order of forgetting. The B-tree is an
  association list kept sorted by its keys, so its first element is what \<^verbatim>\<open>iter().next()\<close> gives.

  The lemmas show that the two maps describe the same refusals, that there are never more than
  \<^verbatim>\<open>REJECTED_REMEMBERED\<close> of them, and that a refusal that has just been touched survives the next one
  remembered, which is what keeps the root of a refused branch known.
\<close>

section \<open>B-tree maps\<close>

type_synonym ('k, 'v) btree = "('k \<times> 'v) list"

fun btree_insert :: "'k::linorder \<Rightarrow> 'v \<Rightarrow> ('k, 'v) btree \<Rightarrow> ('k, 'v) btree" where
  "btree_insert k v [] = [(k, v)]"
| "btree_insert k v ((k', v') # m) =
     (if k < k' then (k, v) # (k', v') # m
      else if k = k' then (k, v) # m
      else (k', v') # btree_insert k v m)"

definition btree_ok :: "('k::linorder, 'v) btree \<Rightarrow> bool" where
  "btree_ok m \<longleftrightarrow> sorted_wrt (<) (map fst m)"

lemma keys_btree_insert: "fst ` set (btree_insert k v m) = insert k (fst ` set m)"
proof (induction m)
  case (Cons x m)
  then show ?case by (cases x) (auto simp: insert_commute)
qed simp

lemma btree_ok_insert: "btree_ok m \<Longrightarrow> btree_ok (btree_insert k v m)"
proof (induction m)
  case (Cons x m)
  obtain k' v' where x: "x = (k', v')" by (cases x)
  have "fst ` set (btree_insert k v m) = insert k (fst ` set m)" by (rule keys_btree_insert)
  with Cons show ?case by (auto simp: btree_ok_def x)
qed (simp add: btree_ok_def)

lemma btree_get_insert: "btree_ok m \<Longrightarrow> map_of (btree_insert k v m) = (map_of m)(k \<mapsto> v)"
proof (induction m)
  case (Cons x m)
  then have "btree_ok m" by (simp add: btree_ok_def)
  with Cons show ?case by (cases x) (auto simp: fun_eq_iff)
qed auto

lemma btree_ok_hm_ok: "btree_ok m \<Longrightarrow> hm_ok m"
  by (auto simp: btree_ok_def hm_ok_def strict_sorted_iff)

lemma btree_ok_remove: "btree_ok m \<Longrightarrow> btree_ok (AList.delete k m)"
  by (auto simp: btree_ok_def delete_keys sorted_wrt_filter removeAll_filter_not_eq)

lemma btree_ok_tl: "btree_ok (x # m) \<Longrightarrow> btree_ok m"
  by (simp add: btree_ok_def)

section \<open>Refusals\<close>

type_synonym block_hash = "256 word"

datatype header_error =
    OrphanHeader | WeakerChain | InvalidPow | TargetTooEasy | CheckpointMismatch | ForkBelowCheckpoint

fun is_other_chain :: "header_error \<Rightarrow> bool" where
  "is_other_chain OrphanHeader = False"
| "is_other_chain WeakerChain = True"
| "is_other_chain InvalidPow = True"
| "is_other_chain TargetTooEasy = True"
| "is_other_chain CheckpointMismatch = True"
| "is_other_chain ForkBelowCheckpoint = True"

definition REJECTED_REMEMBERED :: nat where "REJECTED_REMEMBERED = 8192"

record refusals =
  rejected :: "(block_hash, header_error \<times> u64) hashmap"
  rejected_order :: "(u64, block_hash) btree"
  rejected_seq :: u64

definition refusals_empty :: refusals where
  "refusals_empty = \<lparr>rejected = [], rejected_order = [], rejected_seq = 0\<rparr>"

definition next_rejected_seq :: "refusals \<Rightarrow> u64 \<times> refusals" where
  "next_rejected_seq r = (let s = rejected_seq r + 1 in (s, r\<lparr>rejected_seq := s\<rparr>))"

text \<open>The loop of \<^verbatim>\<open>remember_rejected\<close> that forgets the oldest until the bound holds again.\<close>

fun forget_oldest :: "(u64, block_hash) btree \<Rightarrow> refusals \<Rightarrow> refusals" where
  "forget_oldest [] r = r"
| "forget_oldest ((oldest, h) # rest) r =
     (if REJECTED_REMEMBERED < length (rejected r)
      then forget_oldest rest (r\<lparr>rejected_order := rest, rejected := AList.delete h (rejected r)\<rparr>)
      else r)"

definition remember_rejected :: "block_hash \<Rightarrow> header_error \<Rightarrow> refusals \<Rightarrow> refusals" where
  "remember_rejected h reason r =
     (if contains_key (rejected r) h then r
      else let (s, r) = next_rejected_seq r;
               r = r\<lparr>rejected := AList.update h (reason, s) (rejected r),
                     rejected_order := btree_insert s h (rejected_order r)\<rparr>
           in forget_oldest (rejected_order r) r)"

definition touch_rejected :: "block_hash \<Rightarrow> refusals \<Rightarrow> refusals" where
  "touch_rejected h r =
     (let (s, r) = next_rejected_seq r
      in case map_of (rejected r) h of
           None \<Rightarrow> r
         | Some (reason, previous) \<Rightarrow>
             r\<lparr>rejected := AList.map_entry h (\<lambda>(reason, _). (reason, s)) (rejected r),
               rejected_order := btree_insert s h (AList.delete previous (rejected_order r))\<rparr>)"

definition rejection_of :: "refusals \<Rightarrow> block_hash \<Rightarrow> header_error option" where
  "rejection_of r h = map_option fst (map_of (rejected r) h)"

section \<open>The two maps agree\<close>

text \<open>
  Each refusal is at its sequence number in the order and the other way round, and no sequence
  number in use exceeds the counter. That holds as long as the counter has not wrapped around.
\<close>

definition refusals_agree :: "refusals \<Rightarrow> bool" where
  "refusals_agree r \<longleftrightarrow>
     hm_ok (rejected r) \<and> btree_ok (rejected_order r)
     \<and> (\<forall>s h. map_of (rejected_order r) s = Some h \<longleftrightarrow> (\<exists>reason. map_of (rejected r) h = Some (reason, s)))
     \<and> (\<forall>s \<in> fst ` set (rejected_order r). s \<le> rejected_seq r)"

definition refusals_ok :: "refusals \<Rightarrow> bool" where
  "refusals_ok r \<longleftrightarrow> refusals_agree r \<and> length (rejected r) \<le> REJECTED_REMEMBERED"

lemma refusals_ok_empty: "refusals_ok refusals_empty"
  by (simp add: refusals_ok_def refusals_agree_def refusals_empty_def btree_ok_def)

lemma length_hm: "hm_ok m \<Longrightarrow> length m = card (dom (map_of m))"
  by (metis hm_ok_def distinct_card dom_map_of_conv_image_fst length_map list.set_map)

lemma refusals_agree_length:
  assumes "refusals_agree r"
  shows "length (rejected_order r) = length (rejected r)"
proof -
  have agree: "map_of (rejected_order r) s = Some h \<longleftrightarrow> (\<exists>reason. map_of (rejected r) h = Some (reason, s))" for s h
    using assms by (simp add: refusals_agree_def)
  have "bij_betw (\<lambda>h. snd (the (map_of (rejected r) h))) (dom (map_of (rejected r))) (dom (map_of (rejected_order r)))"
  proof (rule bij_betw_byWitness [where f' = "\<lambda>s. the (map_of (rejected_order r) s)"])
    show "\<forall>h \<in> dom (map_of (rejected r)). the (map_of (rejected_order r) (snd (the (map_of (rejected r) h)))) = h"
      using agree by (metis domIff option.sel option.exhaust prod.collapse)
    show "\<forall>s \<in> dom (map_of (rejected_order r)). snd (the (map_of (rejected r) (the (map_of (rejected_order r) s)))) = s"
      using agree by (metis domIff option.sel option.exhaust snd_conv)
    show "(\<lambda>h. snd (the (map_of (rejected r) h))) ` dom (map_of (rejected r)) \<subseteq> dom (map_of (rejected_order r))"
      using agree by (auto simp: dom_def) (metis option.sel snd_conv)
    show "(\<lambda>s. the (map_of (rejected_order r) s)) ` dom (map_of (rejected_order r)) \<subseteq> dom (map_of (rejected r))"
      using agree by (auto simp: dom_def) (metis option.sel)
  qed
  then have "card (dom (map_of (rejected r))) = card (dom (map_of (rejected_order r)))" by (rule bij_betw_same_card)
  then show ?thesis
    using assms by (simp add: refusals_agree_def length_hm btree_ok_hm_ok)
qed

lemma seq_fresh:
  assumes "refusals_agree r" "unat (rejected_seq r) + 1 < 2 ^ 64"
  shows "s \<in> fst ` set (rejected_order r) \<Longrightarrow> s < rejected_seq r + 1"
    "map_of (rejected_order r) (rejected_seq r + 1) = None"
proof -
  have lt: "rejected_seq r < rejected_seq r + 1"
    using assms(2) by (simp add: word_less_nat_alt unat_word_ariths)
  have le: "s \<le> rejected_seq r" if "s \<in> fst ` set (rejected_order r)" for s
    using assms(1) that unfolding refusals_agree_def by blast
  show "s \<in> fst ` set (rejected_order r) \<Longrightarrow> s < rejected_seq r + 1" using le lt by (rule le_less_trans)
  show "map_of (rejected_order r) (rejected_seq r + 1) = None"
    unfolding map_of_eq_None_iff using le lt by (meson leD)
qed

text \<open>Adding a refusal under a fresh number, and dropping the oldest one.\<close>

lemma refusals_agree_add:
  assumes "refusals_agree r" "unat (rejected_seq r) + 1 < 2 ^ 64" "map_of (rejected r) h = None"
  shows "refusals_agree \<lparr>rejected = AList.update h (reason, rejected_seq r + 1) (rejected r),
     rejected_order = btree_insert (rejected_seq r + 1) h (rejected_order r), rejected_seq = rejected_seq r + 1\<rparr>"
proof -
  let ?s = "rejected_seq r + 1"
  have ok: "hm_ok (rejected r)" "btree_ok (rejected_order r)" using assms(1) by (auto simp: refusals_agree_def)
  have agree: "map_of (rejected_order r) s = Some k \<longleftrightarrow> (\<exists>x. map_of (rejected r) k = Some (x, s))" for s k
    using assms(1) by (simp add: refusals_agree_def)
  have fresh: "map_of (rejected_order r) ?s = None" by (rule seq_fresh(2) [OF assms(1,2)])
  have "s \<le> ?s" if "s \<in> fst ` set (btree_insert ?s h (rejected_order r))" for s
    using that seq_fresh(1) [OF assms(1,2), of s] unfolding keys_btree_insert
    by (cases "s = ?s") (simp_all add: less_imp_le)
  then show ?thesis
    using ok fresh assms(3) agree
    by (auto simp: refusals_agree_def btree_ok_insert btree_get_insert hm_get_insert) (metis option.distinct(1))+
qed

lemma refusals_agree_drop:
  assumes "refusals_agree r" "rejected_order r = (s, h) # rest"
  shows "refusals_agree (r\<lparr>rejected_order := rest, rejected := AList.delete h (rejected r)\<rparr>)"
proof -
  have ok: "hm_ok (rejected r)" "btree_ok ((s, h) # rest)" using assms by (auto simp: refusals_agree_def)
  have agree: "map_of ((s, h) # rest) t = Some k \<longleftrightarrow> (\<exists>x. map_of (rejected r) k = Some (x, t))" for t k
    using assms by (auto simp: refusals_agree_def)
  have notin: "map_of rest s = None"
    using btree_ok_hm_ok [OF ok(2)] by (simp add: hm_ok_def map_of_eq_None_iff)
  obtain x where x: "map_of (rejected r) h = Some (x, s)" using agree [of s h] by auto
  have "map_of rest t = Some k \<longleftrightarrow> (\<exists>x. map_of (AList.delete h (rejected r)) k = Some (x, t))" for t k
    using agree [of t k] agree [of s k] notin x by (auto simp: hm_get_remove split: if_splits)
  then show ?thesis using assms ok btree_ok_tl [OF ok(2)] by (auto simp: refusals_agree_def)
qed

section \<open>The operations\<close>

text \<open>Forgetting restores the bound and takes at most the refusal with the least number.\<close>

definition forgets :: "refusals \<Rightarrow> refusals \<Rightarrow> bool" where
  "forgets r r' \<longleftrightarrow>
     refusals_ok r' \<and> rejected_seq r' = rejected_seq r
     \<and> (\<forall>h x s. map_of (rejected r) h = Some (x, s) \<longrightarrow> (\<exists>t \<in> fst ` set (rejected_order r). t < s)
          \<longrightarrow> map_of (rejected r') h = Some (x, s))
     \<and> (\<forall>h. map_of (rejected r') h \<in> {None, map_of (rejected r) h})
     \<and> (length (rejected r) \<le> REJECTED_REMEMBERED \<longrightarrow> r' = r)"

lemma forget_oldest_forgets:
  assumes "refusals_agree r" "length (rejected r) \<le> REJECTED_REMEMBERED + 1"
  shows "forgets r (forget_oldest (rejected_order r) r)"
proof (cases "length (rejected r) \<le> REJECTED_REMEMBERED")
  case True
  then have "forget_oldest (rejected_order r) r = r" by (cases "rejected_order r") auto
  then show ?thesis using True assms(1) by (simp add: forgets_def refusals_ok_def)
next
  case False
  have ok: "hm_ok (rejected r)" "btree_ok (rejected_order r)" using assms(1) by (auto simp: refusals_agree_def)
  have len: "length (rejected r) = REJECTED_REMEMBERED + 1" using assms(2) False by simp
  then obtain s0 h0 rest where order: "rejected_order r = (s0, h0) # rest"
    using refusals_agree_length [OF assms(1)] by (cases "rejected_order r") auto
  define r' where "r' = r\<lparr>rejected_order := rest, rejected := AList.delete h0 (rejected r)\<rparr>"
  have "map_of (rejected_order r) s0 = Some h0" using order by simp
  then have h0: "\<exists>y. map_of (rejected r) h0 = Some (y, s0)" using assms(1) unfolding refusals_agree_def by blast
  then have len': "length (rejected r') = REJECTED_REMEMBERED"
    using length_remove [OF ok(1), of h0] len by (auto simp: r'_def contains_key_def)
  then have eq: "forget_oldest (rejected_order r) r = r'"
    using len order by (cases "(rest, r')" rule: forget_oldest.cases) (auto simp: r'_def)
  have agree: "refusals_agree r'" unfolding r'_def by (rule refusals_agree_drop [OF assms(1) order])
  have "s0 \<le> t" if "t \<in> fst ` set (rejected_order r)" for t
    using that ok(2) unfolding order btree_ok_def by (auto intro: less_imp_le)
  then have "h \<noteq> h0" if "map_of (rejected r) h = Some (x, s)" "\<exists>t \<in> fst ` set (rejected_order r). t < s" for h x s
    using that h0 by (metis leD option.sel snd_conv)
  then show ?thesis unfolding eq using agree len' len
    by (auto simp: forgets_def refusals_ok_def r'_def hm_get_remove)
qed

text \<open>A new refusal is remembered under a number above all others.\<close>

lemma remember_rejected_new:
  assumes "refusals_ok r" "unat (rejected_seq r) + 1 < 2 ^ 64" "map_of (rejected r) h = None"
  obtains r1 where "refusals_agree r1" "forgets r1 (remember_rejected h reason r)"
    "map_of (rejected r1) = (map_of (rejected r))(h \<mapsto> (reason, rejected_seq r + 1))"
    "fst ` set (rejected_order r1) = insert (rejected_seq r + 1) (fst ` set (rejected_order r))"
    "length (rejected r1) = Suc (length (rejected r))" "rejected_seq r1 = rejected_seq r + 1"
proof -
  define r1 where "r1 = \<lparr>rejected = AList.update h (reason, rejected_seq r + 1) (rejected r),
     rejected_order = btree_insert (rejected_seq r + 1) h (rejected_order r), rejected_seq = rejected_seq r + 1\<rparr>"
  have agree: "refusals_agree r1"
    unfolding r1_def using assms by (intro refusals_agree_add) (auto simp: refusals_ok_def)
  have len: "length (rejected r1) = Suc (length (rejected r))"
    using assms(3) by (simp add: r1_def length_insert_new contains_key_def)
  have "remember_rejected h reason r = forget_oldest (rejected_order r1) r1"
    using assms(3) by (cases r) (simp add: remember_rejected_def next_rejected_seq_def Let_def contains_key_def r1_def)
  moreover have "forgets r1 (forget_oldest (rejected_order r1) r1)"
    using assms(1) len by (intro forget_oldest_forgets agree) (simp add: refusals_ok_def)
  ultimately show ?thesis
    by (intro that [of r1] agree len) (simp_all add: r1_def hm_get_insert keys_btree_insert)
qed

lemma remember_rejected_ok:
  assumes "refusals_ok r" "unat (rejected_seq r) + 1 < 2 ^ 64"
  shows "refusals_ok (remember_rejected h reason r)"
proof (cases "map_of (rejected r) h")
  case None
  then show ?thesis using remember_rejected_new [OF assms] by (metis forgets_def)
qed (use assms in \<open>simp add: remember_rejected_def contains_key_def\<close>)

lemma remember_rejected_known:
  assumes "refusals_ok r" "unat (rejected_seq r) + 1 < 2 ^ 64"
  shows "rejection_of (remember_rejected h reason r) h =
    Some (case rejection_of r h of None \<Rightarrow> reason | Some old \<Rightarrow> old)"
proof (cases "map_of (rejected r) h")
  case None
  obtain r1 where r1: "forgets r1 (remember_rejected h reason r)" "refusals_agree r1"
    "map_of (rejected r1) = (map_of (rejected r))(h \<mapsto> (reason, rejected_seq r + 1))"
    "fst ` set (rejected_order r1) = insert (rejected_seq r + 1) (fst ` set (rejected_order r))"
    "length (rejected r1) = Suc (length (rejected r))"
    by (rule remember_rejected_new [OF assms None])
  have "map_of (rejected (remember_rejected h reason r)) h = Some (reason, rejected_seq r + 1)"
  proof (cases "rejected_order r")
    case Nil
    then have "length (rejected r) = 0"
      using refusals_agree_length [of r] assms(1) by (simp add: refusals_ok_def)
    then have "remember_rejected h reason r = r1"
      using r1(1,5) by (simp add: forgets_def REJECTED_REMEMBERED_def)
    then show ?thesis using r1(3) by simp
  next
    case (Cons kv rest)
    then have "fst kv \<in> fst ` set (rejected_order r1)" "fst kv < rejected_seq r + 1"
      using r1(4) seq_fresh(1) [of r "fst kv"] assms by (auto simp: refusals_ok_def)
    then show ?thesis using r1(1,3) unfolding forgets_def by (metis fun_upd_same)
  qed
  then show ?thesis using None by (simp add: rejection_of_def)
qed (use assms in \<open>auto simp: remember_rejected_def contains_key_def rejection_of_def\<close>)

lemma touch_rejected_unknown:
  "map_of (rejected r) h = None \<Longrightarrow> touch_rejected h r = r\<lparr>rejected_seq := rejected_seq r + 1\<rparr>"
  by (simp add: touch_rejected_def next_rejected_seq_def Let_def)

lemma touch_rejected_ok:
  assumes "refusals_ok r" "unat (rejected_seq r) + 1 < 2 ^ 64"
  shows "refusals_ok (touch_rejected h r)"
    and "rejection_of (touch_rejected h r) = rejection_of r"
    and "rejected_seq (touch_rejected h r) = rejected_seq r + 1"
    and "map_of (rejected r) h = Some (x, s) \<Longrightarrow> map_of (rejected (touch_rejected h r)) h = Some (x, rejected_seq r + 1)"
proof -
  let ?s = "rejected_seq r + 1" and ?r = "touch_rejected h r"
  have agree: "refusals_agree r" using assms(1) by (simp add: refusals_ok_def)
  have ok: "hm_ok (rejected r)" "btree_ok (rejected_order r)" using agree by (auto simp: refusals_agree_def)
  have iff: "map_of (rejected_order r) t = Some k \<longleftrightarrow> (\<exists>x. map_of (rejected r) k = Some (x, t))" for t k
    using agree by (simp add: refusals_agree_def)
  note fresh = seq_fresh [OF agree assms(2)]
  have "refusals_ok ?r \<and> rejection_of ?r = rejection_of r \<and> rejected_seq ?r = ?s
    \<and> (\<forall>x s. map_of (rejected r) h = Some (x, s) \<longrightarrow> map_of (rejected ?r) h = Some (x, ?s))"
  proof (cases "map_of (rejected r) h")
    case None
    have "t \<le> ?s" if "t \<in> fst ` set (rejected_order r)" for t using fresh(1) [OF that] by simp
    then show ?thesis using assms(1) None
      by (auto simp: touch_rejected_unknown refusals_ok_def refusals_agree_def rejection_of_def fun_eq_iff)
  next
    case (Some v)
    then obtain x0 s0 where v: "map_of (rejected r) h = Some (x0, s0)" by (cases v) auto
    have r: "?r = \<lparr>rejected = AList.map_entry h (\<lambda>(reason, _). (reason, ?s)) (rejected r),
        rejected_order = btree_insert ?s h (AList.delete s0 (rejected_order r)), rejected_seq = ?s\<rparr>"
      using v by (cases r) (simp add: touch_rejected_def next_rejected_seq_def Let_def)
    have sub: "fst ` set (AList.delete s0 (rejected_order r)) \<subseteq> fst ` set (rejected_order r)"
      by (auto simp: AList.delete_eq)
    have "t \<le> ?s" if "t \<in> fst ` set (rejected_order ?r)" for t
    proof -
      have "t = ?s \<or> t \<in> fst ` set (rejected_order r)"
        using that sub unfolding r refusals.select_convs keys_btree_insert by blast
      then show ?thesis using fresh(1) [of t] by (elim disjE) simp_all
    qed
    moreover have "map_of (rejected_order ?r) t = Some k \<longleftrightarrow> (\<exists>x. map_of (rejected ?r) k = Some (x, t))" for t k
      using iff [of t k] iff [of ?s k] iff [of t h] fresh(2) v ok(2)
      by (auto simp: r btree_get_insert btree_ok_remove hm_get_remove hm_get_map_entry)
    ultimately have "refusals_ok ?r"
      using ok assms(1) by (simp add: refusals_ok_def refusals_agree_def r btree_ok_insert btree_ok_remove)
    then show ?thesis using v by (auto simp: r rejection_of_def hm_get_map_entry fun_eq_iff)
  qed
  then show "refusals_ok ?r" "rejection_of ?r = rejection_of r" "rejected_seq ?r = ?s"
    "map_of (rejected r) h = Some (x, s) \<Longrightarrow> map_of (rejected ?r) h = Some (x, ?s)" by blast+
qed

text \<open>The refusal a child inherits is not forgotten in remembering the child.\<close>

lemma inherited_survives:
  assumes "refusals_ok r" "unat (rejected_seq r) + 2 < 2 ^ 64" "rejection_of r parent = Some reason" "h \<noteq> parent"
  shows "rejection_of (remember_rejected h reason (touch_rejected parent r)) parent = Some reason"
proof -
  let ?t = "touch_rejected parent r"
  obtain s where s: "map_of (rejected r) parent = Some (reason, s)" using assms(3) by (auto simp: rejection_of_def)
  note t = touch_rejected_ok [OF assms(1), of parent]
  have par: "map_of (rejected ?t) parent = Some (reason, rejected_seq r + 1)" using t(4) s assms(2) by simp
  have seq: "unat (rejected_seq ?t) + 1 < 2 ^ 64" using t(3) assms(2) by (simp add: unat_word_ariths)
  show ?thesis
  proof (cases "map_of (rejected ?t) h")
    case None
    have ok: "refusals_ok ?t" using t(1) assms(2) by simp
    obtain r1 where r1: "forgets r1 (remember_rejected h reason ?t)"
      "map_of (rejected r1) = (map_of (rejected ?t))(h \<mapsto> (reason, rejected_seq ?t + 1))"
      "fst ` set (rejected_order r1) = insert (rejected_seq ?t + 1) (fst ` set (rejected_order ?t))"
      "length (rejected r1) = Suc (length (rejected ?t))"
      by (rule remember_rejected_new [OF ok seq None])
    have r1par: "map_of (rejected r1) parent = Some (reason, rejected_seq r + 1)"
      using r1(2) par assms(4) by simp
    show ?thesis
    proof (cases "\<exists>k \<in> fst ` set (rejected_order ?t). k < rejected_seq r + 1")
      case True
      then show ?thesis using r1(1,3) r1par unfolding forgets_def rejection_of_def by fastforce
    next
      case False
      have agree: "refusals_agree ?t" using ok by (simp add: refusals_ok_def)
      have "k \<le> rejected_seq r + 1" if "k \<in> fst ` set (rejected_order ?t)" for k
        using that agree t(3) assms(2) by (auto simp: refusals_agree_def)
      with False have "fst ` set (rejected_order ?t) \<subseteq> {rejected_seq r + 1}" by force
      then have "length (rejected_order ?t) \<le> 1"
        using btree_ok_hm_ok [of "rejected_order ?t"] agree card_mono [of "{rejected_seq r + 1}" "fst ` set (rejected_order ?t)"]
        by (simp add: refusals_agree_def length_hm dom_map_of_conv_image_fst)
      then have "remember_rejected h reason ?t = r1"
        using r1(1,4) refusals_agree_length [OF agree] by (simp add: forgets_def REJECTED_REMEMBERED_def)
      then show ?thesis using r1par by (simp add: rejection_of_def)
    qed
  qed (use par in \<open>simp add: remember_rejected_def contains_key_def rejection_of_def\<close>)
qed

end
