(* ===== verification/Header_Tree.thy ===== *)
theory Header_Tree
  imports Refusals
begin

text \<open>
  \<^verbatim>\<open>observer/src/headertree.rs\<close>: the tree of block headers. What the \<^verbatim>\<open>bitcoin\<close> crate provides (the hash,
  work and target of a header, the retarget rule, the proof-of-work check, a network's genesis block and
  parameters) is the record \<open>chain\<close>, an argument of every operation. Hashes are 256-bit words, the
  big-endian reading of the byte array, whose order is that of the array. Heights are naturals: a
  height is below the number of headers held. Chain work is a natural as well; the sum of the work of
  all blocks is far below the 256 bits of \<^verbatim>\<open>Work\<close>. A time is a number of nanoseconds, and the
  difference of two is truncated at zero as \<^verbatim>\<open>Instant::duration_since\<close> is.

  Indexing the header map with a missing key panics and a walk towards the genesis block need not
  end, so the operations that do so return an option, \<open>None\<close> for not returning normally. That they
  always return normally on a well-formed tree is part of what is proved.
\<close>

section \<open>Data\<close>

record header =
  hdr_version :: u32
  prev_blockhash :: block_hash
  merkle_root :: "256 word"
  hdr_time :: u32
  hdr_bits :: u32
  hdr_nonce :: u32

record chain =
  c_hash :: "header \<Rightarrow> block_hash"
  c_work :: "header \<Rightarrow> nat"
  c_target :: "header \<Rightarrow> nat"
  c_max_target :: nat
  c_min_difficulty :: bool
  c_difficulty :: "nat \<Rightarrow> rat"
  c_retarget :: "header \<Rightarrow> header \<Rightarrow> u32"
  c_pow_ok :: "u32 \<Rightarrow> header \<Rightarrow> bool"
  c_genesis :: header

definition RECOVERY_INTERVAL :: nat where "RECOVERY_INTERVAL = 10 * 1000000000"
definition RECOVERY_PEERS :: u8 where "RECOVERY_PEERS = 3"
definition WEAKER_CHAIN_FACTOR :: rat where "WEAKER_CHAIN_FACTOR = 4"
definition HEADER_SIZE :: nat where "HEADER_SIZE = 80"

record recovery =
  rc_started :: nat
  rc_requests :: u8

record checkpoint =
  cp_height :: nat
  cp_hash :: block_hash

record header_entry =
  he_header :: header
  he_height :: nat
  he_work :: nat

type_synonym header_map = "(block_hash, header_entry) hashmap"
type_synonym header_order = "(block_hash \<times> header_entry) list \<Rightarrow> (block_hash \<times> header_entry) list"

record tree =
  headers :: header_map
  best_chain :: "block_hash list"
  tip :: block_hash
  tip_height :: nat
  tip_work :: nat
  dirty :: bool
  checkpoints :: "checkpoint list"
  reached_checkpoint :: "nat option"
  pruned :: nat
  recoveries :: "(block_hash, recovery) hashmap"
  refused :: refusals

text \<open>Built-in and configured checkpoints, the configured one winning at a height.\<close>

definition merge_checkpoints :: "checkpoint list \<Rightarrow> checkpoint list \<Rightarrow> checkpoint list" where
  "merge_checkpoints builtin configured =
     map snd (foldl (\<lambda>m c. btree_insert (cp_height c) c m)
                (foldl (\<lambda>m c. btree_insert (cp_height c) c m) [] builtin) configured)"

section \<open>Walks towards the genesis block\<close>

fun walk_back :: "header_map \<Rightarrow> block_hash \<Rightarrow> nat \<Rightarrow> header_entry option" where
  "walk_back hs h 0 = map_of hs h"
| "walk_back hs h (Suc n) =
     (case map_of hs h of None \<Rightarrow> None | Some e \<Rightarrow> walk_back hs (prev_blockhash (he_header e)) n)"

text \<open>The loop of \<^verbatim>\<open>rebuild_best_chain\<close>: push, index (a missing key panics), stop at height zero.\<close>

partial_function (option) chain_back ::
  "header_map \<Rightarrow> block_hash \<Rightarrow> block_hash list \<Rightarrow> block_hash list option" where
  "chain_back hs h acc =
     (case map_of hs h of
        None \<Rightarrow> None
      | Some e \<Rightarrow>
          (if he_height e = 0 then Some (acc @ [h])
           else chain_back hs (prev_blockhash (he_header e)) (acc @ [h])))"

declare chain_back.simps [code]

definition rebuild_best_chain :: "tree \<Rightarrow> tree option" where
  "rebuild_best_chain t =
     (case chain_back (headers t) (tip t) [] of
        None \<Rightarrow> None
      | Some ch \<Rightarrow> Some (t\<lparr>best_chain := rev ch\<rparr>))"

text \<open>The loop of \<^verbatim>\<open>prune_below_checkpoint\<close> that collects a block and its ancestors.\<close>

partial_function (option) keep_walk ::
  "header_map \<Rightarrow> block_hash \<Rightarrow> block_hash list \<Rightarrow> block_hash list option" where
  "keep_walk hs h acc =
     (case map_of hs h of
        None \<Rightarrow> Some acc
      | Some e \<Rightarrow>
          (if he_height e = 0 then Some (acc @ [h])
           else keep_walk hs (prev_blockhash (he_header e)) (acc @ [h])))"

declare keep_walk.simps [code]

section \<open>Checkpoints\<close>

text \<open>\<^verbatim>\<open>max_by_key\<close> gives the last of several maximal elements.\<close>

definition max_by_work :: "(block_hash \<times> header_entry) list \<Rightarrow> (block_hash \<times> header_entry) option" where
  "max_by_work xs =
     foldl (\<lambda>best kv. case best of
              None \<Rightarrow> Some kv
            | Some b \<Rightarrow> if he_work (snd b) \<le> he_work (snd kv) then Some kv else best) None xs"

text \<open>The second half of a prune: in height order, drop what has lost its parent.\<close>

definition drop_orphans :: "header_map \<Rightarrow> (nat \<times> block_hash) list \<Rightarrow> header_map" where
  "drop_orphans hs tall =
     foldl (\<lambda>hs (_, h).
       case map_of hs h of
         None \<Rightarrow> hs
       | Some e \<Rightarrow> if contains_key hs (prev_blockhash (he_header e)) then hs else AList.delete h hs) hs tall"

definition prune_headers :: "header_order \<Rightarrow> nat \<Rightarrow> block_hash list \<Rightarrow> header_map \<Rightarrow> header_map" where
  "prune_headers ho reached keep hs =
     (let hs = filter (\<lambda>(h, e). reached < he_height e \<or> h \<in> set keep) hs;
          tall = map (\<lambda>(h, e). (he_height e, h)) (filter (\<lambda>(_, e). reached < he_height e) (ho hs));
          tall = sort_key fst (sort_key snd tall)
      in drop_orphans hs tall)"

definition prune_below_checkpoint :: "header_order \<Rightarrow> tree \<Rightarrow> (nat \<times> tree) option" where
  "prune_below_checkpoint ho t =
     (case reached_checkpoint t of
        None \<Rightarrow> Some (0, t)
      | Some reached \<Rightarrow>
          (case find (\<lambda>c. cp_height c = reached) (checkpoints t) of
             None \<Rightarrow> Some (0, t)
           | Some c \<Rightarrow>
               (case keep_walk (headers t) (cp_hash c) [] of
                  None \<Rightarrow> None
                | Some keep \<Rightarrow>
                    (let hs = prune_headers ho reached keep (headers t);
                         n = length (headers t) - length hs;
                         t = t\<lparr>headers := hs\<rparr>
                     in if 0 < n
                        then (let t = t\<lparr>pruned := pruned t + n, dirty := True\<rparr>
                              in if contains_key hs (tip t)
                                 then map_option (Pair n) (rebuild_best_chain t)
                                 else case max_by_work (ho hs) of
                                        None \<Rightarrow> None
                                      | Some (h, e) \<Rightarrow>
                                          map_option (Pair n) (rebuild_best_chain
                                            (t\<lparr>tip := h, tip_height := he_height e, tip_work := he_work e\<rparr>)))
                        else Some (n, t)))))"

definition note_checkpoint :: "header_order \<Rightarrow> block_hash \<Rightarrow> nat \<Rightarrow> tree \<Rightarrow> tree option" where
  "note_checkpoint ho h height t =
     (if \<not> list_ex (\<lambda>c. cp_height c = height \<and> cp_hash c = h) (checkpoints t)
         \<or> (case reached_checkpoint t of None \<Rightarrow> False | Some r \<Rightarrow> height \<le> r)
      then Some t
      else map_option snd (prune_below_checkpoint ho (t\<lparr>reached_checkpoint := Some height\<rparr>)))"

section \<open>Construction\<close>

definition tree_new :: "chain \<Rightarrow> tree" where
  "tree_new C =
     (let genesis = c_genesis C; h = c_hash C genesis; work = c_work C genesis
      in \<lparr>headers = [(h, \<lparr>he_header = genesis, he_height = 0, he_work = work\<rparr>)], best_chain = [h],
          tip = h, tip_height = 0, tip_work = work, dirty = False, checkpoints = [],
          reached_checkpoint = None, pruned = 0, recoveries = [], refused = refusals_empty\<rparr>)"

definition with_checkpoints :: "header_order \<Rightarrow> chain \<Rightarrow> checkpoint list \<Rightarrow> tree option" where
  "with_checkpoints ho C cps =
     (let t = (tree_new C)\<lparr>checkpoints := sort_key cp_height cps\<rparr> in note_checkpoint ho (tip t) 0 t)"

section \<open>Inserting\<close>

text \<open>The retarget rule needs the first block of the epoch on the header's own branch.\<close>

definition expected_bits :: "chain \<Rightarrow> header_map \<Rightarrow> header \<Rightarrow> nat \<Rightarrow> header_entry \<Rightarrow> u32 option" where
  "expected_bits C hs hdr height parent =
     (if height mod 2016 = 0 \<and> 0 < height
      then (case walk_back hs (prev_blockhash hdr) 2015 of
              None \<Rightarrow> None
            | Some epoch_start \<Rightarrow> Some (c_retarget C (he_header epoch_start) (he_header parent)))
      else Some (hdr_bits (he_header parent)))"

definition validate_header :: "chain \<Rightarrow> tree \<Rightarrow> header \<Rightarrow> nat \<Rightarrow> header_entry \<Rightarrow> header_error + unit" where
  "validate_header C t hdr height parent =
     (if c_max_target C < c_target C hdr then Inl TargetTooEasy
      else if (case find (\<lambda>c. cp_height c = height) (checkpoints t) of
                 None \<Rightarrow> False | Some c \<Rightarrow> cp_hash c \<noteq> c_hash C hdr) then Inl CheckpointMismatch
      else if (case reached_checkpoint t of None \<Rightarrow> False | Some r \<Rightarrow> height \<le> r) then Inl ForkBelowCheckpoint
      else case expected_bits C (headers t) hdr height parent of
             None \<Rightarrow> Inl OrphanHeader
           | Some bits \<Rightarrow> if c_pow_ok C bits hdr then Inr () else Inl InvalidPow)"

definition weaker_than_our_tip :: "chain \<Rightarrow> tree \<Rightarrow> header \<Rightarrow> bool" where
  "weaker_than_our_tip C t hdr =
     (if c_min_difficulty C then False
      else case map_of (headers t) (tip t) of
             None \<Rightarrow> False
           | Some e \<Rightarrow>
               c_difficulty C (c_target C hdr) * WEAKER_CHAIN_FACTOR
                 < c_difficulty C (c_target C (he_header e)))"

definition insert_inner :: "header_order \<Rightarrow> chain \<Rightarrow> header \<Rightarrow> tree \<Rightarrow> ((header_error + bool) \<times> tree) option" where
  "insert_inner ho C hdr t =
     (let h = c_hash C hdr in
      if contains_key (headers t) h then Some (Inr False, t)
      else case map_of (headers t) (prev_blockhash hdr) of
        None \<Rightarrow>
          (case rejection_of (refused t) (prev_blockhash hdr) of
             Some reason \<Rightarrow>
               Some (Inl reason, t\<lparr>refused := remember_rejected h reason
                                     (touch_rejected (prev_blockhash hdr) (refused t))\<rparr>)
           | None \<Rightarrow>
               if weaker_than_our_tip C t hdr
               then Some (Inl WeakerChain, t\<lparr>refused := remember_rejected h WeakerChain (refused t)\<rparr>)
               else Some (Inl OrphanHeader, t))
      | Some parent \<Rightarrow>
          (let height = he_height parent + 1 in
           case validate_header C t hdr height parent of
             Inl e \<Rightarrow> Some (Inl e, t\<lparr>refused := remember_rejected h e (refused t)\<rparr>)
           | Inr _ \<Rightarrow>
               (let work = he_work parent + c_work C hdr;
                    t = t\<lparr>headers := AList.update h \<lparr>he_header = hdr, he_height = height, he_work = work\<rparr> (headers t),
                          recoveries := AList.delete h (recoveries t)\<rparr>
                in case note_checkpoint ho h height t of
                     None \<Rightarrow> None
                   | Some t \<Rightarrow>
                       (let t = (if tip_work t < work
                                 then t\<lparr>tip := h, tip_height := height, tip_work := work\<rparr> else t)
                        in Some (Inr True, t\<lparr>dirty := True\<rparr>)))))"

fun insert_all ::
  "header_order \<Rightarrow> chain \<Rightarrow> header list \<Rightarrow> nat \<Rightarrow> header_error option \<Rightarrow> tree
   \<Rightarrow> (nat \<times> header_error option \<times> tree) option" where
  "insert_all ho C [] accepted err t = Some (accepted, err, t)"
| "insert_all ho C (hdr # hdrs) accepted err t =
     (case insert_inner ho C hdr t of
        None \<Rightarrow> None
      | Some (Inr True, t) \<Rightarrow> insert_all ho C hdrs (accepted + 1) err t
      | Some (Inr False, t) \<Rightarrow> insert_all ho C hdrs accepted err t
      | Some (Inl e, t) \<Rightarrow> insert_all ho C hdrs accepted (case err of None \<Rightarrow> Some e | Some e' \<Rightarrow> Some e') t)"

definition insert_batch ::
  "header_order \<Rightarrow> chain \<Rightarrow> header list \<Rightarrow> tree \<Rightarrow> (nat \<times> header_error option \<times> tree) option" where
  "insert_batch ho C hdrs t =
     (case insert_all ho C hdrs 0 None t of
        None \<Rightarrow> None
      | Some (accepted, err, t') \<Rightarrow>
          (if tip t' \<noteq> tip t
           then map_option (\<lambda>t'. (accepted, err, t')) (rebuild_best_chain t')
           else Some (accepted, err, t')))"

section \<open>Questions\<close>

definition height_of :: "tree \<Rightarrow> block_hash \<Rightarrow> nat option" where
  "height_of t h = map_option he_height (map_of (headers t) h)"

definition seen_hash :: "tree \<Rightarrow> block_hash \<Rightarrow> bool" where
  "seen_hash t h \<longleftrightarrow> contains_key (headers t) h \<or> contains_key (rejected (refused t)) h"

definition recovery_due :: "block_hash \<Rightarrow> bool \<Rightarrow> nat \<Rightarrow> tree \<Rightarrow> bool \<times> tree" where
  "recovery_due missing proven now t =
     (let rs = filter (\<lambda>(_, r). now - rc_started r < RECOVERY_INTERVAL) (recoveries t)
      in case map_of rs missing of
           None \<Rightarrow> (True, t\<lparr>recoveries := AList.update missing \<lparr>rc_started = now, rc_requests = 1\<rparr> rs\<rparr>)
         | Some r \<Rightarrow>
             (if proven \<and> rc_requests r < RECOVERY_PEERS
              then (True, t\<lparr>recoveries := AList.map_entry missing (\<lambda>r. r\<lparr>rc_requests := rc_requests r + 1\<rparr>) rs\<rparr>)
              else (False, t\<lparr>recoveries := rs\<rparr>)))"

text \<open>
  The loop of \<^verbatim>\<open>build_locator\<close>. Its \<^verbatim>\<open>i64\<close> height is clamped at zero after each subtraction, which is what
  truncated subtraction does, and its step stays below twice the starting height, so neither wraps.
\<close>

function locator_loop :: "block_hash list \<Rightarrow> nat \<Rightarrow> nat \<Rightarrow> block_hash list \<Rightarrow> block_hash list" where
  "locator_loop bc height step acc =
     (let acc = (if height < length bc then acc @ [bc ! height] else acc)
      in if height = 0 \<or> step = 0 then acc
         else locator_loop bc (height - step) (if step < 16 then step + 1 else step * 2) acc)"
  by pat_completeness auto
termination by (relation "measure (\<lambda>(bc, height, step, acc). height)") auto

declare locator_loop.simps [simp del]

text \<open>Indexing an empty best chain panics.\<close>

definition build_locator :: "tree \<Rightarrow> block_hash list option" where
  "build_locator t =
     (let locator = locator_loop (best_chain t) (tip_height t) 1 []
      in case best_chain t of
           [] \<Rightarrow> None
         | g # _ \<Rightarrow> Some (if locator = [] \<or> last locator \<noteq> g then locator @ [g] else locator))"

definition locator_start :: "tree \<Rightarrow> block_hash list \<Rightarrow> nat" where
  "locator_start t locator =
     (case find (\<lambda>h. case map_of (headers t) h of
                    None \<Rightarrow> False
                  | Some e \<Rightarrow> he_height e < length (best_chain t) \<and> best_chain t ! he_height e = h) locator of
        None \<Rightarrow> 1
      | Some h \<Rightarrow> (case map_of (headers t) h of None \<Rightarrow> 1 | Some e \<Rightarrow> he_height e + 1))"

text \<open>The headers at some heights of the best chain, up to and including the stop hash.\<close>

fun serve_headers :: "header_map \<Rightarrow> block_hash \<Rightarrow> block_hash list \<Rightarrow> header list option" where
  "serve_headers hs stop [] = Some []"
| "serve_headers hs stop (h # rest) =
     (case map_of hs h of
        None \<Rightarrow> None
      | Some e \<Rightarrow>
          (if stop \<noteq> 0 \<and> h = stop then Some [he_header e]
           else map_option ((#) (he_header e)) (serve_headers hs stop rest)))"

text \<open>\<^verbatim>\<open>end - start_height\<close> underflows, and the call panics, when the start is past the end.\<close>

definition get_headers_from_locator :: "tree \<Rightarrow> block_hash list \<Rightarrow> block_hash \<Rightarrow> header list option" where
  "get_headers_from_locator t locator stop_hash =
     (let start_height = locator_start t locator;
          end_height = min (start_height + 2000) (length (best_chain t))
      in if end_height < start_height then None
         else serve_headers (headers t) stop_hash
                (take (end_height - start_height) (drop start_height (best_chain t))))"

datatype chain_tip_status = Active | HeadersOnly

record chain_tip =
  ct_hash :: block_hash
  ct_height :: nat
  ct_branch_len :: nat
  ct_status :: chain_tip_status

partial_function (option) branch_walk ::
  "header_map \<Rightarrow> block_hash list \<Rightarrow> nat \<Rightarrow> block_hash \<Rightarrow> nat \<Rightarrow> nat option" where
  "branch_walk hs bc height cur len =
     (if height < length bc \<and> bc ! height = cur then Some len
      else case map_of hs cur of
             None \<Rightarrow> None
           | Some e \<Rightarrow> branch_walk hs bc (height - 1) (prev_blockhash (he_header e)) (len + 1))"

declare branch_walk.simps [code]

fun all_some :: "'a option list \<Rightarrow> 'a list option" where
  "all_some [] = Some []"
| "all_some (None # _) = None"
| "all_some (Some x # xs) = map_option ((#) x) (all_some xs)"

definition chain_tips :: "header_order \<Rightarrow> tree \<Rightarrow> chain_tip list option" where
  "chain_tips ho t =
     (let parents = map (\<lambda>(_, e). prev_blockhash (he_header e)) (filter (\<lambda>(_, e). 0 < he_height e) (headers t))
      in all_some (map (\<lambda>(h, e).
           map_option (\<lambda>len. \<lparr>ct_hash = h, ct_height = he_height e, ct_branch_len = len,
                              ct_status = (if h = tip t then Active else HeadersOnly)\<rparr>)
             (branch_walk (headers t) (best_chain t) (he_height e) h 0))
           (filter (\<lambda>(h, _). h \<notin> set parents) (ho (headers t)))))"

end
