(* ===== verification/Wire.thy ===== *)
theory Wire
  imports Header_Tree Peer_Addr
begin

text \<open>
  Messages of the peer-to-peer protocol as the observer uses them, and the lenient reader of \<^verbatim>\<open>addrv2\<close>
  payloads of \<^verbatim>\<open>observer/src/protocol.rs\<close>. Decoding of messages is the \<^verbatim>\<open>p2p\<close> crate's; the pieces of it the
  lenient reader calls are the record \<open>codec\<close>, an argument.
\<close>

section \<open>Messages\<close>

datatype inventory =
    InvBlock block_hash
  | InvWitnessBlock block_hash
  | InvCompactBlock block_hash
  | InvOther

text \<open>The receiver's address is kept as the text of its socket address, \<open>None\<close> when it is none.\<close>

record version_msg =
  vm_version :: u32
  vm_services :: u64
  vm_timestamp :: "64 word"
  vm_receiver :: "string option"
  vm_nonce :: u64
  vm_user_agent :: string
  vm_start_height :: "32 word"
  vm_relay :: bool

record cmpct_block =
  cb_header :: header
  cb_short_ids :: nat
  cb_prefilled :: nat

record get_headers_msg =
  gh_version :: u32
  gh_locator :: "block_hash list"
  gh_stop :: block_hash

text \<open>An entry of \<^verbatim>\<open>addr\<close>: its time, services and socket address, \<open>None\<close> when the bytes are none.\<close>

type_synonym addr_v1_entry = "u32 \<times> u64 \<times> sock_addr option"

datatype net_message =
    Version version_msg
  | Verack
  | SendAddrV2
  | WtxidRelay
  | Ping u64
  | Pong u64
  | InvMsg "inventory list"
  | HeadersMsg "header list"
  | CmpctBlock cmpct_block
  | AddrMsg "addr_v1_entry list"
  | AddrV2Msg "addr_v2_message list"
  | SendCmpct bool u64
  | FeeFilterMsg u64
  | GetHeadersMsg get_headers_msg
  | SendHeaders
  | GetAddr
  | GetData "inventory list"
  | GetBlockTxn block_hash "nat list"
  | BlockTxn block_hash nat
  | UnknownMsg string "u8 list"
  | OtherMsg string

fun message_command :: "net_message \<Rightarrow> string" where
  "message_command (Version _) = ''version''"
| "message_command Verack = ''verack''"
| "message_command SendAddrV2 = ''sendaddrv2''"
| "message_command WtxidRelay = ''wtxidrelay''"
| "message_command (Ping _) = ''ping''"
| "message_command (Pong _) = ''pong''"
| "message_command (InvMsg _) = ''inv''"
| "message_command (HeadersMsg _) = ''headers''"
| "message_command (CmpctBlock _) = ''cmpctblock''"
| "message_command (AddrMsg _) = ''addr''"
| "message_command (AddrV2Msg _) = ''addrv2''"
| "message_command (SendCmpct _ _) = ''sendcmpct''"
| "message_command (FeeFilterMsg _) = ''feefilter''"
| "message_command (GetHeadersMsg _) = ''getheaders''"
| "message_command SendHeaders = ''sendheaders''"
| "message_command GetAddr = ''getaddr''"
| "message_command (GetData _) = ''getdata''"
| "message_command (GetBlockTxn _ _) = ''getblocktxn''"
| "message_command (BlockTxn _ _) = ''blocktxn''"
| "message_command (UnknownMsg c _) = c"
| "message_command (OtherMsg c) = c"

section \<open>Reading addrv2 around bad entries\<close>

text \<open>
  What the reader takes from the consensus encoding: each function gives the value read and the bytes
  left, or \<open>None\<close>. \<open>cd_addr\<close> is the decoder of one address, judged on the network id, length and bytes.
\<close>

record codec =
  cd_u32 :: "u8 list \<Rightarrow> (u32 \<times> u8 list) option"
  cd_u16 :: "u8 list \<Rightarrow> (u16 \<times> u8 list) option"
  cd_compact :: "u8 list \<Rightarrow> (u64 \<times> u8 list) option"
  cd_emit_compact :: "u64 \<Rightarrow> u8 list"
  cd_addr :: "u8 list \<Rightarrow> addr_v2 option"

definition swap_bytes :: "u16 \<Rightarrow> u16" where
  "swap_bytes p = push_bit 8 p + drop_bit 8 p"

text \<open>One entry: the bytes left and the entry if its address decodes, or \<open>None\<close> when its framing breaks off.\<close>

definition read_entry :: "codec \<Rightarrow> u8 list \<Rightarrow> (addr_v2_message option \<times> u8 list) option" where
  "read_entry cd r =
     (case cd_u32 cd r of None \<Rightarrow> None
      | Some (time, r) \<Rightarrow>
     (case cd_compact cd r of None \<Rightarrow> None
      | Some (services, r) \<Rightarrow>
     (case r of [] \<Rightarrow> None
      | network # r \<Rightarrow>
     (case cd_compact cd r of None \<Rightarrow> None
      | Some (len, r) \<Rightarrow>
          (if length r < unat len then None
           else let addr = take (unat len) r; r = drop (unat len) r in
             (case cd_u16 cd r of None \<Rightarrow> None
              | Some (p, r) \<Rightarrow>
                  Some (map_option (\<lambda>a. \<lparr>msg_time = time, msg_services = services, msg_addr = a, msg_port = swap_bytes p\<rparr>)
                          (cd_addr cd (network # cd_emit_compact cd len @ addr)), r)))))))"

fun read_entries :: "codec \<Rightarrow> nat \<Rightarrow> u8 list \<Rightarrow> addr_v2_message list" where
  "read_entries cd 0 r = []"
| "read_entries cd (Suc n) r =
     (case read_entry cd r of
        None \<Rightarrow> []
      | Some (None, r) \<Rightarrow> read_entries cd n r
      | Some (Some m, r) \<Rightarrow> m # read_entries cd n r)"

definition parse_addrv2_leniently :: "codec \<Rightarrow> u8 list \<Rightarrow> nat \<times> addr_v2_message list" where
  "parse_addrv2_leniently cd payload =
     (case cd_compact cd payload of
        None \<Rightarrow> (0, [])
      | Some (declared, r) \<Rightarrow>
          (let n = min (unat declared) (length payload div 9) in (n, read_entries cd n r)))"

lemma length_read_entries: "length (read_entries cd n r) \<le> n"
proof (induction cd n r rule: read_entries.induct)
  case (2 cd n r)
  then show ?case by (auto split: option.splits) (fastforce dest: le_SucI)+
qed simp

lemma parse_addrv2_length: "length (snd (parse_addrv2_leniently cd payload)) \<le> fst (parse_addrv2_leniently cd payload)"
  by (auto simp: parse_addrv2_leniently_def Let_def simp del: min.bounded_iff intro: length_read_entries split: option.splits)

end
