(* ===== verification/Token_Bucket.thy ===== *)
theory Token_Bucket
  imports Ieee_Rounding
begin

text \<open>
  The token buckets of a session, over gossiped addresses and over answers to \<^verbatim>\<open>getheaders\<close>
  (\<^verbatim>\<open>offer_gossip\<close> and \<^verbatim>\<open>may_answer_getheaders\<close> of \<^verbatim>\<open>observer/src/protocol.rs\<close>), in the double-precision arithmetic of
  the code. Elapsed times are nanoseconds.

  The locale \<open>token_bucket\<close> states what a bucket needs of its rate and burst and proves, once, that it never
  leaves its range and how much can be drawn from it over time, rounding errors included. It is
  interpreted for both buckets.
\<close>

definition NANOS_PER_SEC :: nat where "NANOS_PER_SEC = 1000000000"

text \<open>\<^verbatim>\<open>Duration::as_secs_f64\<close>: whole seconds plus the rounded fraction.\<close>

definition as_secs_f64 :: "nat \<Rightarrow> rat" where
  "as_secs_f64 ns =
     f64_of (f64_of (of_nat (ns div NANOS_PER_SEC)) + f64_of (of_nat (ns mod NANOS_PER_SEC) / of_nat NANOS_PER_SEC))"

definition refill :: "rat \<Rightarrow> rat \<Rightarrow> rat \<Rightarrow> nat \<Rightarrow> rat" where
  "refill rate burst tokens elapsed = min (f64_of (tokens + f64_of (as_secs_f64 elapsed * rate))) burst"

definition spend :: "rat \<Rightarrow> nat \<Rightarrow> rat" where
  "spend tokens k = f64_of (tokens - of_nat k)"

text \<open>A history of the bucket: at each use the time since the last one and the tokens drawn.\<close>

fun bucket_run :: "rat \<Rightarrow> rat \<Rightarrow> rat \<Rightarrow> (nat \<times> nat) list \<Rightarrow> bool" where
  "bucket_run rate burst t [] = True"
| "bucket_run rate burst t ((e, k) # uses) =
     (of_nat k \<le> refill rate burst t e \<and> bucket_run rate burst (spend (refill rate burst t e) k) uses)"

text \<open>One use of a bucket, or none.\<close>

definition bucket_step :: "rat \<Rightarrow> rat \<Rightarrow> nat \<Rightarrow> rat \<times> nat \<Rightarrow> rat \<times> nat \<Rightarrow> nat \<Rightarrow> bool" where
  "bucket_step rate burst now b b' k \<longleftrightarrow>
     b' = b \<and> k = 0
     \<or> (let t = refill rate burst (fst b) (now - snd b) in of_nat k \<le> t \<and> b' = (spend t k, now))"

section \<open>Rounding errors\<close>

lemma f64_upper: "0 \<le> x \<Longrightarrow> f64_of x \<le> x * (1 + 2 powi (- 53)) + 2 powi (- 1075)"
  using f64.fl_rel_error [of x] by (simp add: abs_le_iff algebra_simps)

lemma f64_slack: "0 \<le> x \<Longrightarrow> x \<le> 2048 \<Longrightarrow> f64_of x \<le> x + 2 powi (- 42) + 2 powi (- 1075)"
proof -
  assume x: "0 \<le> x" "x \<le> 2048"
  have "x * 2 powi (- 53) \<le> 2048 * (2::rat) powi (- 53)" using x by (intro mult_right_mono) auto
  also have "\<dots> = 2 powi (- 42)" by (simp add: power_int_def field_simps)
  finally show ?thesis using f64_upper [OF x(1)] by (simp add: algebra_simps)
qed

definition seconds :: "nat \<Rightarrow> rat" where
  "seconds ns = of_nat ns / of_nat NANOS_PER_SEC"

lemma as_secs_f64_nonneg: "0 \<le> as_secs_f64 ns"
  by (simp add: as_secs_f64_def f64.fl_nonneg)

lemma seconds_split:
  "seconds ns = of_nat (ns div NANOS_PER_SEC) + of_nat (ns mod NANOS_PER_SEC) / of_nat NANOS_PER_SEC"
proof -
  have "(of_nat ns :: rat) = of_nat (ns div NANOS_PER_SEC) * of_nat NANOS_PER_SEC + of_nat (ns mod NANOS_PER_SEC)"
    by (metis div_mult_mod_eq of_nat_add of_nat_mult)
  then show ?thesis by (simp add: seconds_def NANOS_PER_SEC_def field_simps)
qed

text \<open>The rounded seconds exceed the true ones by no more than a few units in the last place.\<close>

lemma as_secs_f64_upper: "as_secs_f64 ns \<le> seconds ns * (1 + 2 powi (- 53)) ^ 2 + 4 * 2 powi (- 1075)"
proof -
  define U E :: rat where "U = 1 + 2 powi (- 53)" and "E = 2 powi (- 1075)"
  define a b :: rat where "a = of_nat (ns div NANOS_PER_SEC)" and "b = of_nat (ns mod NANOS_PER_SEC) / of_nat NANOS_PER_SEC"
  have ab: "0 \<le> a" "0 \<le> b" "seconds ns = a + b" by (simp_all add: a_def b_def seconds_split)
  have E: "0 \<le> E" "U \<le> 3 / 2" "0 \<le> U" by (simp_all add: E_def U_def power_int_def power_divide)
  have "f64_of a + f64_of b \<le> (a * U + E) + (b * U + E)"
    using f64_upper [OF ab(1)] f64_upper [OF ab(2)] by (simp add: U_def E_def)
  moreover have "as_secs_f64 ns \<le> (f64_of a + f64_of b) * U + E"
    using f64_upper [of "f64_of a + f64_of b"] ab by (simp add: as_secs_f64_def a_def b_def U_def E_def f64.fl_nonneg)
  ultimately have "as_secs_f64 ns \<le> ((a * U + E) + (b * U + E)) * U + E"
    using E(3) by (meson add_right_mono mult_right_mono order_trans)
  also have "\<dots> = (a + b) * U ^ 2 + (2 * U + 1) * E" by (simp add: algebra_simps power2_eq_square)
  also have "\<dots> \<le> (a + b) * U ^ 2 + 4 * E" using E by (intro add_left_mono mult_right_mono) auto
  finally show ?thesis by (simp add: ab(3) U_def E_def)
qed

section \<open>The contract of a bucket\<close>

locale token_bucket =
  fixes rate burst :: rat
  assumes rate: "0 \<le> rate" "rate \<le> 1"
    and burst: "1 \<le> burst" "burst \<le> 1024" "f64_of burst = burst"
begin

lemma refill_bounds: "0 \<le> t \<Longrightarrow> 0 \<le> refill rate burst t e \<and> refill rate burst t e \<le> burst"
  using burst rate as_secs_f64_nonneg [of e] by (simp add: refill_def f64.fl_nonneg)

lemma refill_is_double: "f64_of (refill rate burst t e) = refill rate burst t e"
  using burst(3) by (simp add: refill_def min_def)

lemma spend_bounds:
  assumes "of_nat k \<le> t" "t \<le> burst"
  shows "0 \<le> spend t k" "spend t k \<le> burst"
proof -
  show "0 \<le> spend t k" using assms by (simp add: spend_def f64.fl_nonneg)
  have "spend t k \<le> f64_of burst" unfolding spend_def by (rule f64.fl_mono) (use assms in auto)
  then show "spend t k \<le> burst" by (simp add: burst)
qed

lemma increment_upper:
  "f64_of (as_secs_f64 e * rate) \<le> rate * seconds e * (1 + 2 powi (- 53)) ^ 3 + 8 * 2 powi (- 1075)"
proof -
  define U E :: rat where "U = 1 + 2 powi (- 53)" and "E = 2 powi (- 1075)"
  have U: "0 \<le> E" "U \<le> 3 / 2" "0 \<le> U" by (simp_all add: E_def U_def power_int_def power_divide)
  have s: "as_secs_f64 e \<le> seconds e * U ^ 2 + 4 * E" using as_secs_f64_upper [of e] by (simp add: U_def E_def)
  have "f64_of (as_secs_f64 e * rate) \<le> as_secs_f64 e * rate * U + E"
    using f64_upper [of "as_secs_f64 e * rate"] as_secs_f64_nonneg rate by (simp add: U_def E_def)
  also have "\<dots> \<le> (seconds e * U ^ 2 + 4 * E) * rate * U + E"
    using s rate U by (intro add_right_mono mult_right_mono) auto
  also have "\<dots> = rate * seconds e * U ^ 3 + (4 * (rate * U) + 1) * E"
    by (simp add: algebra_simps power2_eq_square power3_eq_cube)
  also have "\<dots> \<le> rate * seconds e * U ^ 3 + 8 * E"
  proof (intro add_left_mono mult_right_mono)
    have "rate * U \<le> 1 * (3 / 2)" using rate U by (intro mult_mono) auto
    then show "4 * (rate * U) + 1 \<le> 8" by simp
  qed (use U in auto)
  finally show ?thesis by (simp add: U_def E_def)
qed

lemma refill_upper:
  assumes "0 \<le> t" "t \<le> burst"
  shows "refill rate burst t e \<le> t + rate * seconds e * (1 + 2 powi (- 51)) + 2 powi (- 42) + 9 * 2 powi (- 1075)"
proof -
  let ?inc = "f64_of (as_secs_f64 e * rate)" and ?E = "(2::rat) powi (- 1075)"
  have pos: "0 \<le> ?inc" using as_secs_f64_nonneg rate by (simp add: f64.fl_nonneg)
  have "refill rate burst t e \<le> t + ?inc + 2 powi (- 42) + ?E"
  proof (cases "t + ?inc \<le> 2048")
    case True
    then have "f64_of (t + ?inc) \<le> t + ?inc + 2 powi (- 42) + ?E" using assms pos by (intro f64_slack) auto
    then show ?thesis by (simp add: refill_def)
  next
    case False
    have "refill rate burst t e \<le> 1024" using refill_bounds [OF assms(1)] burst(2) by (meson order_trans)
    also have "\<dots> \<le> t + ?inc" using False by simp
    also have "\<dots> \<le> t + ?inc + 2 powi (- 42) + ?E" by (simp add: add_nonneg_nonneg)
    finally show ?thesis .
  qed
  moreover have "?inc \<le> rate * seconds e * (1 + 2 powi (- 53)) ^ 3 + 8 * ?E" by (rule increment_upper)
  moreover have "rate * seconds e * (1 + 2 powi (- 53)) ^ 3 \<le> rate * seconds e * (1 + 2 powi (- 51))"
  proof (rule mult_left_mono)
    show "(1 + 2 powi (- 53)) ^ 3 \<le> (1 :: rat) + 2 powi (- 51)"
      by (simp add: power_int_def power_divide power3_eq_cube)
  qed (use rate in \<open>simp add: seconds_def\<close>)
  ultimately show ?thesis by linarith
qed

text \<open>What can be drawn over time.\<close>

lemma bucket_run_bound:
  "0 \<le> t \<Longrightarrow> t \<le> burst \<Longrightarrow> bucket_run rate burst t uses \<Longrightarrow>
   of_nat (sum_list (map snd uses)) \<le>
     t + rate * seconds (sum_list (map fst uses)) * (1 + 2 powi (- 51)) + of_nat (length uses) * 2 powi (- 40)"
proof (induction uses arbitrary: t)
  case (Cons u uses)
  obtain e k where u: "u = (e, k)" by (cases u)
  define R D E :: rat where "R = rate * (1 + 2 powi (- 51))" and "D = 2 powi (- 40)" and "E = 2 powi (- 42) + 9 * 2 powi (- 1075)"
  let ?t = "refill rate burst t e" and ?S = "seconds (sum_list (map fst uses))"
  have k: "of_nat k \<le> ?t" and run: "bucket_run rate burst (spend ?t k) uses" using Cons.prems(3) by (simp_all add: u)
  have t: "0 \<le> ?t" "?t \<le> burst" using refill_bounds [OF Cons.prems(1)] by auto
  have "spend ?t k \<le> ?t - of_nat k + 2 powi (- 42) + 2 powi (- 1075)"
    unfolding spend_def by (rule f64_slack) (use k t burst in auto)
  also have "\<dots> \<le> ?t - of_nat k + E" unfolding E_def by simp
  finally have sp: "spend ?t k \<le> ?t - of_nat k + E" .
  have "of_nat (sum_list (map snd uses)) \<le> spend ?t k + R * ?S + of_nat (length uses) * D"
    using Cons.IH [OF spend_bounds [OF k t(2)] run] unfolding R_def D_def by (simp only: mult_ac)
  moreover have "?t \<le> t + R * seconds e + E"
    using refill_upper [OF Cons.prems(1,2), of e] unfolding R_def E_def by (simp only: mult_ac add.assoc)
  moreover have "2 * E \<le> D" unfolding E_def D_def by (simp add: power_int_def power_divide)
  ultimately have "of_nat k + of_nat (sum_list (map snd uses)) \<le> t + (R * seconds e + R * ?S) + (D + of_nat (length uses) * D)"
    using sp by linarith
  moreover have "rate * seconds (sum_list (map fst (u # uses))) * (1 + 2 powi (- 51)) = R * seconds e + R * ?S"
    unfolding R_def u seconds_def by (simp only: list.map fst_conv sum_list.Cons of_nat_add add_divide_distrib distrib_left distrib_right mult_ac)
  moreover have "of_nat (length (u # uses)) * 2 powi (- 40) = D + of_nat (length uses) * D"
    unfolding D_def by (simp only: list.size of_nat_add of_nat_1 distrib_right mult_1)
  ultimately show ?case unfolding u by (simp only: list.map snd_conv sum_list.Cons of_nat_add)
qed (simp add: seconds_def)

lemma refill_f64: "f64_of (refill rate burst t e) = refill rate burst t e"
  by (simp add: refill_def min_def burst)

lemma bucket_step_bounds:
  assumes "bucket_step rate burst now (t, u) (t', u') k" "0 \<le> t" "t \<le> burst" "u \<le> now"
  shows "0 \<le> t'" "t' \<le> burst" "u' \<le> now"
  using assms spend_bounds [of k "refill rate burst t (now - u)"] refill_bounds [of t "now - u"]
  by (auto simp: bucket_step_def Let_def)

text \<open>A history grows at its start by one step.\<close>

lemma bucket_step_run:
  assumes "bucket_step rate burst now (t, u) (t', u') k" "u \<le> now" "now \<le> T"
    "bucket_run rate burst t' uses" "sum_list (map fst uses) \<le> T - u'"
  obtains uses' where "bucket_run rate burst t uses'" "sum_list (map snd uses') = k + sum_list (map snd uses)"
    "sum_list (map fst uses') \<le> T - u" "length uses' \<le> Suc (length uses)"
proof (cases "t' = t \<and> u' = u \<and> k = 0")
  case True
  then show ?thesis using assms(4,5) by (intro that [of uses]) auto
next
  case False
  then have "of_nat k \<le> refill rate burst t (now - u)" "t' = spend (refill rate burst t (now - u)) k" "u' = now"
    using assms(1) by (auto simp: bucket_step_def Let_def)
  then show ?thesis using assms(2-5) by (intro that [of "(now - u, k) # uses"]) auto
qed

lemma seconds_mono: "a \<le> b \<Longrightarrow> seconds a \<le> seconds b"
  unfolding seconds_def by (rule divide_right_mono) auto

text \<open>So what is drawn until a time is bounded by the burst and the time passed.\<close>

lemma bucket_total:
  assumes "0 \<le> t" "t \<le> burst" "bucket_run rate burst t uses" "sum_list (map fst uses) \<le> ns" "length uses \<le> n"
    "m \<le> sum_list (map snd uses)"
  shows "of_nat m \<le> burst + rate * seconds ns * (1 + 2 powi (- 51)) + of_nat n * 2 powi (- 40)"
proof -
  define A B :: rat where "A = 1 + 2 powi (- 51)" and "B = 2 powi (- 40)"
  have AB: "0 \<le> A" "0 \<le> B" by (simp_all add: A_def B_def)
  have "(of_nat m :: rat) \<le> of_nat (sum_list (map snd uses))" using assms(6) by (subst of_nat_le_iff)
  moreover have "of_nat (sum_list (map snd uses)) \<le> t + rate * seconds (sum_list (map fst uses)) * A + of_nat (length uses) * B"
    using bucket_run_bound [OF assms(1-3)] unfolding A_def B_def .
  moreover have "rate * seconds (sum_list (map fst uses)) * A \<le> rate * seconds ns * A"
    using seconds_mono [OF assms(4)] rate AB by (intro mult_right_mono mult_left_mono) auto
  moreover have "of_nat (length uses) * B \<le> of_nat n * B" using assms(5) AB by (intro mult_right_mono) (simp_all only: of_nat_le_iff)
  ultimately show ?thesis using assms(2) unfolding A_def [symmetric] B_def [symmetric] by linarith
qed

end

section \<open>The two buckets\<close>

definition ADDR_RATE_PER_SEC :: rat where "ADDR_RATE_PER_SEC = f64_of (1 / 10)"
definition ADDR_BURST :: rat where "ADDR_BURST = 1000"
definition GETHEADERS_BURST :: rat where "GETHEADERS_BURST = 4"
definition GETHEADERS_RATE_PER_SEC :: rat where "GETHEADERS_RATE_PER_SEC = f64_of (1 / 30)"

lemma f64_int: "\<bar>m\<bar> < 2 ^ 53 \<Longrightarrow> f64_of (of_int m) = of_int m"
  using f64.fl_of_int [of m] by simp

lemma rate_range: "0 \<le> x \<Longrightarrow> x \<le> 1 \<Longrightarrow> 0 \<le> f64_of x \<and> f64_of x \<le> 1"
  using f64.fl_nonneg [of x] f64.fl_mono [of x 1] f64_int [of 1] by simp

interpretation addr_bucket: token_bucket ADDR_RATE_PER_SEC ADDR_BURST
  using rate_range [of "1 / 10"] f64_int [of 1000]
  by unfold_locales (simp_all add: ADDR_RATE_PER_SEC_def ADDR_BURST_def)

interpretation getheaders_bucket: token_bucket GETHEADERS_RATE_PER_SEC GETHEADERS_BURST
  using rate_range [of "1 / 30"] f64_int [of 4]
  by unfold_locales (simp_all add: GETHEADERS_RATE_PER_SEC_def GETHEADERS_BURST_def)

end
