(* ===== verification/Emit.thy ===== *)
theory Emit
  imports Refusals Peer_Addr "HOL-Library.AList"
begin

text \<open>
  The research events, and \<^verbatim>\<open>observer/src/emit.rs\<close>, which hands them to the publisher: a bounded queue
  that address announcements may not fill to the last slot, and counters of what was lost, which are
  stamped on every event. The counters are process-wide atomics; each call of \<^verbatim>\<open>send\<close> reads and adds to
  them as one step here.
\<close>

section \<open>Events\<close>

datatype announcement_type = AnnInv | AnnHeaders | AnnCompactBlock

datatype unplaced_reason =
    NoHeader | UnplacedOrphan | UnplacedWeakerChain | UnplacedInvalidPow | UnplacedCheckpointMismatch
  | UnplacedForkBelowCheckpoint

datatype addr_message = MsgAddr | MsgAddrv2

datatype probe_stage = ProbeRequested | ProbeAnswered

record tcp_stats =
  srtt_us :: u32
  rttvar_us :: u32
  total_retrans :: u32
  snd_cwnd :: u32
  min_rtt_us :: "u32 option"
  lost :: "u32 option"
  reordering :: "u32 option"
  delivery_rate :: "u64 option"
  bytes_received :: "u64 option"

text \<open>The event form of a sample has the same fields.\<close>

definition tcp_stats_event :: "tcp_stats \<Rightarrow> tcp_stats" where
  "tcp_stats_event t =
     \<lparr>srtt_us = srtt_us t, rttvar_us = rttvar_us t, total_retrans = total_retrans t, snd_cwnd = snd_cwnd t,
      min_rtt_us = min_rtt_us t, lost = lost t, reordering = reordering t, delivery_rate = delivery_rate t,
      bytes_received = bytes_received t\<rparr>"

record block_announcement =
  ba_hash :: block_hash
  ba_type :: announcement_type
  ba_tcp :: "tcp_stats option"
  ba_batch_size :: u32
  ba_height :: "nat option"
  ba_new_to_us :: bool
  ba_shape :: "(u32 \<times> u32) option"
  ba_unplaced :: "unplaced_reason option"

record address_announcement =
  aa_message :: addr_message
  aa_unparsed :: u32
  aa_addresses :: "(string \<times> u64 \<times> u32) list"
  aa_solicited :: bool
  aa_rate_limited :: u32
  aa_tokens :: rat

record handshake_event =
  hs_protocol_version :: u32
  hs_services :: u64
  hs_start_height :: "32 word"
  hs_relay :: bool
  hs_peer_timestamp :: "64 word"
  hs_addr_recv :: string
  hs_sendaddrv2 :: bool
  hs_wtxid_relay :: bool
  hs_user_agent :: string
  hs_nonce :: u64

datatype disconnect_reason =
    DisUnknown | DisOtherChain | DisPeerClosed | DisTruncated | DisDecodeError | DisOversizedMessage
  | DisWrongMagic | DisV2DecryptError | DisWriteError | DisPingTimeout | DisProtocolViolation
  | DisConnectionReset | DisOther

datatype failure_reason =
    FailUnknown | FailConnectionRefused | FailHostUnreachable | FailTcpConnectTimeout | FailV2TransportTimeout
  | FailVersionHandshakeTimeout | FailV2TransportHandshake | FailVersionHandshake | FailUnexpectedEof | FailOther

datatype our_fault_reason = FaultNetworkUnreachable | FaultProxyUnreachable | FaultNetworkDisabled

record disconnected =
  dc_setup_ms :: u64
  dc_uptime_ms :: u64
  dc_reason :: disconnect_reason
  dc_messages_by_command :: "(string \<times> u32) list"
  dc_messages_other :: u32
  dc_unsolicited_pongs :: u32
  dc_undecodable :: u32
  dc_getheaders_ignored :: u32

datatype connection_result =
    ResDisconnected disconnected
  | ResFailed failure_reason u64
  | ResOurFault our_fault_reason u64

datatype pevent =
    PingRtt u64 "tcp_stats option"
  | BlockAnnouncement block_announcement
  | AddressAnnouncement address_announcement
  | ConnectionResult connection_result
  | Handshake handshake_event
  | CompactBlockProbe block_hash probe_stage "tcp_stats option"
  | FeeFilter u64
  | SendCmpctEv bool u64

text \<open>Eight counters, one for each kind of event.\<close>

datatype kind =
    KPingRtt | KBlockAnnouncement | KAddressAnnouncement | KConnectionResult | KHandshake | KCompactBlockProbe
  | KFeeFilter | KSendCmpct

definition all_kinds :: "kind list" where
  "all_kinds = [KPingRtt, KBlockAnnouncement, KAddressAnnouncement, KConnectionResult, KHandshake, KCompactBlockProbe,
     KFeeFilter, KSendCmpct]"

fun kind_index :: "kind \<Rightarrow> nat" where
  "kind_index KPingRtt = 0"
| "kind_index KBlockAnnouncement = 1"
| "kind_index KAddressAnnouncement = 2"
| "kind_index KConnectionResult = 3"
| "kind_index KHandshake = 4"
| "kind_index KCompactBlockProbe = 5"
| "kind_index KFeeFilter = 6"
| "kind_index KSendCmpct = 7"

record peer_event =
  pe_timestamp_ms :: u64
  pe_peer_addr :: string
  pe_user_agent :: string
  pe_transport_version :: "u32 option"
  pe_connection_id :: u64
  pe_event :: "pevent option"
  pe_dropped_events :: u64
  pe_dropped_by_kind :: "u64 list option"
  pe_instance_id :: u64

definition kind_of :: "peer_event \<Rightarrow> kind option" where
  "kind_of ev =
     (case pe_event ev of
        None \<Rightarrow> None
      | Some (PingRtt _ _) \<Rightarrow> Some KPingRtt
      | Some (BlockAnnouncement _) \<Rightarrow> Some KBlockAnnouncement
      | Some (AddressAnnouncement _) \<Rightarrow> Some KAddressAnnouncement
      | Some (ConnectionResult _) \<Rightarrow> Some KConnectionResult
      | Some (Handshake _) \<Rightarrow> Some KHandshake
      | Some (CompactBlockProbe _ _ _) \<Rightarrow> Some KCompactBlockProbe
      | Some (FeeFilter _) \<Rightarrow> Some KFeeFilter
      | Some (SendCmpctEv _ _) \<Rightarrow> Some KSendCmpct)"

section \<open>The queue\<close>

definition EVENT_QUEUE :: nat where "EVENT_QUEUE = 8192"
definition GOSSIP_SHED_BELOW :: nat where "GOSSIP_SHED_BELOW = 1024"

text \<open>The process-wide state: the queue, whether the publisher still receives, and the counters.\<close>

record outbox =
  ob_queue :: "peer_event list"
  ob_open :: bool
  ob_dropped :: u64
  ob_by_kind :: "u64 list"
  ob_instance :: u64

definition outbox_new :: "u64 \<Rightarrow> outbox" where
  "outbox_new i = \<lparr>ob_queue = [], ob_open = True, ob_dropped = 0, ob_by_kind = replicate 8 0, ob_instance = i\<rparr>"

definition queue_capacity :: "outbox \<Rightarrow> nat" where
  "queue_capacity ob = EVENT_QUEUE - length (ob_queue ob)"

definition dropped_by_kind :: "outbox \<Rightarrow> u64 list" where
  "dropped_by_kind ob = map (\<lambda>k. ob_by_kind ob ! kind_index k) all_kinds"

definition stamp :: "outbox \<Rightarrow> peer_event \<Rightarrow> peer_event" where
  "stamp ob ev =
     ev\<lparr>pe_dropped_events := ob_dropped ob,
        pe_dropped_by_kind := (if 0 < ob_dropped ob then Some (dropped_by_kind ob) else None),
        pe_instance_id := ob_instance ob\<rparr>"

definition count_drop :: "kind option \<Rightarrow> outbox \<Rightarrow> outbox" where
  "count_drop k ob =
     (let ob = ob\<lparr>ob_dropped := ob_dropped ob + 1\<rparr>
      in case k of
           None \<Rightarrow> ob
         | Some k \<Rightarrow> ob\<lparr>ob_by_kind := (ob_by_kind ob)[kind_index k := ob_by_kind ob ! kind_index k + 1]\<rparr>)"

definition emit_send :: "peer_event \<Rightarrow> outbox \<Rightarrow> outbox" where
  "emit_send ev ob =
     (let ev = stamp ob ev; k = kind_of ev in
      if k = Some KAddressAnnouncement \<and> queue_capacity ob \<le> GOSSIP_SHED_BELOW then count_drop k ob
      else if ob_open ob \<and> 0 < queue_capacity ob then ob\<lparr>ob_queue := ob_queue ob @ [ev]\<rparr>
      else count_drop k ob)"

text \<open>The publisher takes the oldest event.\<close>

definition publisher_recv :: "outbox \<Rightarrow> (peer_event \<times> outbox) option" where
  "publisher_recv ob = (case ob_queue ob of [] \<Rightarrow> None | ev # q \<Rightarrow> Some (ev, ob\<lparr>ob_queue := q\<rparr>))"

section \<open>What is lost is counted\<close>

datatype outbox_op = OpSend peer_event | OpRecv | OpClose

fun outbox_run :: "outbox_op list \<Rightarrow> outbox \<Rightarrow> peer_event list \<times> outbox" where
  "outbox_run [] ob = ([], ob)"
| "outbox_run (OpSend ev # ops) ob = outbox_run ops (emit_send ev ob)"
| "outbox_run (OpRecv # ops) ob =
     (case publisher_recv ob of
        None \<Rightarrow> outbox_run ops ob
      | Some (ev, ob) \<Rightarrow> (let (evs, ob) = outbox_run ops ob in (ev # evs, ob)))"
| "outbox_run (OpClose # ops) ob = outbox_run ops (ob\<lparr>ob_open := False\<rparr>)"

fun sends :: "outbox_op list \<Rightarrow> peer_event list" where
  "sends [] = []"
| "sends (OpSend ev # ops) = ev # sends ops"
| "sends (_ # ops) = sends ops"

definition by_kind_total :: "outbox \<Rightarrow> nat" where
  "by_kind_total ob = sum_list (map unat (ob_by_kind ob))"

definition outbox_ok :: "outbox \<Rightarrow> bool" where
  "outbox_ok ob \<longleftrightarrow> length (ob_queue ob) \<le> EVENT_QUEUE \<and> length (ob_by_kind ob) = 8
     \<and> by_kind_total ob \<le> unat (ob_dropped ob)"

lemma outbox_ok_new: "outbox_ok (outbox_new i)"
  by (simp add: outbox_ok_def outbox_new_def by_kind_total_def)

lemma kind_index_less: "kind_index k < 8"
  by (cases k) auto

lemma sum_list_incr:
  "i < length xs \<Longrightarrow> sum_list (xs[i := xs ! i + 1]) = sum_list xs + (1 :: nat)"
proof (induction xs arbitrary: i)
  case (Cons x xs)
  then show ?case by (cases i) auto
qed simp

lemma unat_incr: "unat x + 1 < 2 ^ 64 \<Longrightarrow> unat (x + 1 :: u64) = unat x + 1"
  by (simp add: unat_word_ariths)

lemma by_kind_le: "i < length xs \<Longrightarrow> unat (xs ! i) \<le> sum_list (map unat (xs :: u64 list))"
  using member_le_sum_list [of "unat (xs ! i)" "map unat xs"] by simp

lemma count_drop_counts:
  assumes "outbox_ok ob" "unat (ob_dropped ob) + 1 < 2 ^ 64"
  shows "outbox_ok (count_drop k ob)" "unat (ob_dropped (count_drop k ob)) = unat (ob_dropped ob) + 1"
    "ob_queue (count_drop k ob) = ob_queue ob"
    "by_kind_total (count_drop k ob) = by_kind_total ob + (case k of None \<Rightarrow> 0 | Some _ \<Rightarrow> 1)"
proof -
  show dr: "unat (ob_dropped (count_drop k ob)) = unat (ob_dropped ob) + 1"
    using assms(2) by (simp add: count_drop_def Let_def unat_incr split: option.splits)
  show q: "ob_queue (count_drop k ob) = ob_queue ob" by (simp add: count_drop_def Let_def split: option.splits)
  show tot: "by_kind_total (count_drop k ob) = by_kind_total ob + (case k of None \<Rightarrow> 0 | Some _ \<Rightarrow> 1)"
  proof (cases k)
    case (Some k')
    let ?xs = "ob_by_kind ob" and ?i = "kind_index k'"
    have i: "?i < length ?xs" using assms(1) kind_index_less by (simp add: outbox_ok_def)
    have "unat (?xs ! ?i) + 1 < 2 ^ 64"
      using by_kind_le [OF i] assms by (simp add: outbox_ok_def by_kind_total_def)
    then have "map unat (?xs[?i := ?xs ! ?i + 1]) = (map unat ?xs)[?i := map unat ?xs ! ?i + 1]"
      using i by (simp add: map_update unat_incr)
    then show ?thesis using Some i sum_list_incr [of ?i "map unat ?xs"] by (simp add: count_drop_def Let_def by_kind_total_def)
  qed (simp add: count_drop_def Let_def by_kind_total_def)
  show "outbox_ok (count_drop k ob)"
    using assms(1) dr q tot by (auto simp: outbox_ok_def count_drop_def Let_def split: option.splits)
qed

lemma emit_send_cases:
  obtains (kept) "emit_send ev ob = ob\<lparr>ob_queue := ob_queue ob @ [stamp ob ev]\<rparr>"
      "ob_open ob" "length (ob_queue ob) < EVENT_QUEUE"
      "kind_of ev = Some KAddressAnnouncement \<Longrightarrow> GOSSIP_SHED_BELOW < EVENT_QUEUE - length (ob_queue ob)"
  | (lost) "emit_send ev ob = count_drop (kind_of ev) ob"
      "\<not> ob_open ob \<or> EVENT_QUEUE \<le> length (ob_queue ob)
       \<or> kind_of ev = Some KAddressAnnouncement \<and> EVENT_QUEUE - length (ob_queue ob) \<le> GOSSIP_SHED_BELOW"
proof -
  have k: "kind_of (stamp ob ev) = kind_of ev" by (simp add: kind_of_def stamp_def)
  show ?thesis
  proof (cases "kind_of ev = Some KAddressAnnouncement \<and> queue_capacity ob \<le> GOSSIP_SHED_BELOW
      \<or> \<not> (ob_open ob \<and> 0 < queue_capacity ob)")
    case True
    then have "emit_send ev ob = count_drop (kind_of ev) ob" by (auto simp: emit_send_def Let_def k)
    with True show ?thesis by (intro lost) (auto simp: queue_capacity_def)
  next
    case False
    then have "emit_send ev ob = ob\<lparr>ob_queue := ob_queue ob @ [stamp ob ev]\<rparr>" by (auto simp: emit_send_def Let_def k)
    with False show ?thesis by (intro kept) (auto simp: queue_capacity_def)
  qed
qed

lemma publisher_recv_SomeE:
  assumes "publisher_recv ob = Some (ev, ob')"
  obtains q where "ob_queue ob = ev # q" "ob' = ob\<lparr>ob_queue := q\<rparr>"
  using assms by (auto simp: publisher_recv_def split: list.splits)

lemma outbox_ok_frame [simp]: "outbox_ok (ob\<lparr>ob_open := b\<rparr>) = outbox_ok ob"
  by (simp add: outbox_ok_def by_kind_total_def)

lemma outbox_run_counts:
  assumes "outbox_ok ob" "unat (ob_dropped ob) + length (sends ops) < 2 ^ 64" "outbox_run ops ob = (out, ob')"
  shows "outbox_ok ob'
    \<and> length out + length (ob_queue ob') + unat (ob_dropped ob') = length (ob_queue ob) + unat (ob_dropped ob) + length (sends ops)
    \<and> (None \<notin> kind_of ` set (sends ops) \<longrightarrow>
         unat (ob_dropped ob') + by_kind_total ob = by_kind_total ob' + unat (ob_dropped ob))"
  using assms
proof (induction ops ob arbitrary: out rule: outbox_run.induct)
  case (2 ev ops ob)
  show ?case
  proof (cases rule: emit_send_cases [of ev ob])
    case kept
    then have ok: "outbox_ok (emit_send ev ob)" using "2.prems"(1) by (simp add: outbox_ok_def by_kind_total_def)
    show ?thesis using "2.IH" [OF ok, of out] "2.prems" kept(1) by (simp add: by_kind_total_def)
  next
    case lost
    have lt: "unat (ob_dropped ob) + 1 < 2 ^ 64" using "2.prems"(2) by simp
    note c = count_drop_counts [OF "2.prems"(1) lt, of "kind_of ev", folded lost(1)]
    show ?thesis using "2.IH" [OF c(1), of out] "2.prems"(2,3) c(2-4) by (cases "kind_of ev") auto
  qed
next
  case (3 ops ob)
  show ?case
  proof (cases "publisher_recv ob")
    case None
    then show ?thesis using "3.IH"(1) "3.prems" by simp
  next
    case (Some p)
    obtain ev ob1 where p: "publisher_recv ob = Some (ev, ob1)" using Some by (cases p) auto
    then obtain q where q: "ob_queue ob = ev # q" "ob1 = ob\<lparr>ob_queue := q\<rparr>" by (rule publisher_recv_SomeE)
    obtain out1 where out1: "outbox_run ops ob1 = (out1, ob')" "out = ev # out1"
      using "3.prems"(3) p by (auto split: prod.splits)
    have ok: "outbox_ok ob1" using "3.prems"(1) q by (simp add: outbox_ok_def by_kind_total_def)
    show ?thesis using "3.IH"(2) [OF p refl ok _ out1(1)] "3.prems"(2) q out1(2) by (simp add: by_kind_total_def)
  qed
qed (auto simp: by_kind_total_def)

section \<open>Properties\<close>

text \<open>
  C40. No event is lost unnoticed: in any interleaving of sends, receives and the publisher going away, every
  event sent was received, still waits in the queue, or is counted as dropped; the queue never exceeds its
  bound; and the counters of the kinds add up to the total when every event has a kind.
\<close>

theorem emit_accounts_for_every_event:
  assumes "length (sends ops) < 2 ^ 64" "outbox_run ops (outbox_new i) = (out, ob)"
  shows "length out + length (ob_queue ob) + unat (ob_dropped ob) = length (sends ops)
    \<and> length (ob_queue ob) \<le> 8192
    \<and> (None \<notin> kind_of ` set (sends ops) \<longrightarrow> unat (ob_dropped ob) = sum_list (map unat (ob_by_kind ob)))"
proof -
  have "unat (ob_dropped (outbox_new i)) + length (sends ops) < 2 ^ 64" "by_kind_total (outbox_new i) = 0"
    using assms(1) by (simp_all add: outbox_new_def by_kind_total_def)
  with outbox_run_counts [OF outbox_ok_new _ assms(2)] show ?thesis
    by (simp add: outbox_ok_def EVENT_QUEUE_def by_kind_total_def [of ob] outbox_new_def)
qed

definition sample_event :: peer_event where
  "sample_event = \<lparr>pe_timestamp_ms = 0, pe_peer_addr = [], pe_user_agent = [], pe_transport_version = None,
     pe_connection_id = 0, pe_event = Some (FeeFilter 1), pe_dropped_events = 0, pe_dropped_by_kind = None, pe_instance_id = 0\<rparr>"

theorem emit_accounts_for_every_event_witness:
  "length (fst (outbox_run [OpSend sample_event, OpRecv, OpClose, OpSend sample_event] (outbox_new 1)))
   + length (ob_queue (snd (outbox_run [OpSend sample_event, OpRecv, OpClose, OpSend sample_event] (outbox_new 1))))
   + unat (ob_dropped (snd (outbox_run [OpSend sample_event, OpRecv, OpClose, OpSend sample_event] (outbox_new 1)))) = 2"
  using emit_accounts_for_every_event [of "[OpSend sample_event, OpRecv, OpClose, OpSend sample_event]" 1,
      OF _ prod.collapse [symmetric]] by simp

text \<open>
  Only address announcements are shed while there is room: they are queued as long as more than 1024 of the
  8192 slots are free, every other event as long as one is, each stamped with the losses before it.
\<close>

theorem gossip_is_shed_first:
  "ob_queue (emit_send ev ob) =
     (if ob_open ob \<and> length (ob_queue ob) < (if kind_of ev = Some KAddressAnnouncement then 7168 else 8192)
      then ob_queue ob @ [ev\<lparr>pe_dropped_events := ob_dropped ob,
             pe_dropped_by_kind := (if 0 < ob_dropped ob then Some (dropped_by_kind ob) else None),
             pe_instance_id := ob_instance ob\<rparr>]
      else ob_queue ob)"
proof (cases rule: emit_send_cases [of ev ob])
  case kept
  then show ?thesis by (auto simp: stamp_def EVENT_QUEUE_def GOSSIP_SHED_BELOW_def)
next
  case lost
  have "ob_queue (count_drop (kind_of ev) ob) = ob_queue ob" by (simp add: count_drop_def Let_def split: option.splits)
  with lost show ?thesis by (auto simp: EVENT_QUEUE_def GOSSIP_SHED_BELOW_def)
qed

end
