(* ===== verification/Session_Stats.thy ===== *)
theory Session_Stats
  imports Emit "HOL-Library.Char_ord" "HOL-Library.List_Lexorder"
begin

text \<open>
  What a session counts (\<^verbatim>\<open>ConnectionStats\<close> of \<^verbatim>\<open>observer/src/protocol.rs\<close>) and the table of live sessions its
  totals are shown in (\<^verbatim>\<open>observer/src/connections.rs\<close>). Times are nanoseconds of the monotonic clock.
  A \<^verbatim>\<open>BTreeMap\<close> is the sorted association list of the theory of refusals.
\<close>

section \<open>The registry of live sessions\<close>

record counters =
  cn_messages :: u64
  cn_unsolicited_pongs :: u32
  cn_rtt_ms :: "u32 option"
  cn_min_rtt_ms :: "u32 option"

definition counters_default :: counters where
  "counters_default = \<lparr>cn_messages = 0, cn_unsolicited_pongs = 0, cn_rtt_ms = None, cn_min_rtt_ms = None\<rparr>"

record live =
  lv_addr :: peer_addr
  lv_transport_version :: u8
  lv_connected_ms :: u64
  lv_user_agent :: string
  lv_protocol_version :: u32
  lv_services :: u64
  lv_start_height :: "32 word"
  lv_relay :: bool
  lv_sendaddrv2 :: bool
  lv_wtxid_relay :: bool
  lv_addr_recv :: string
  lv_peer_timestamp :: "64 word"
  lv_counters :: counters
  lv_updated_ms :: u64

type_synonym registry = "(u64, live) hashmap"

definition registry_new :: registry where
  "registry_new = []"

definition reg_register :: "u64 \<Rightarrow> live \<Rightarrow> registry \<Rightarrow> registry" where
  "reg_register i l r = AList.update i l r"

definition reg_refresh :: "u64 \<Rightarrow> counters \<Rightarrow> u64 \<Rightarrow> registry \<Rightarrow> registry" where
  "reg_refresh i c now_ms r = AList.map_entry i (\<lambda>l. l\<lparr>lv_counters := c, lv_updated_ms := now_ms\<rparr>) r"

text \<open>The order the map is walked in is an argument; the sort by id makes the result independent of it.\<close>

definition reg_snapshot :: "((u64 \<times> live) list \<Rightarrow> (u64 \<times> live) list) \<Rightarrow> registry \<Rightarrow> (u64 \<times> live) list" where
  "reg_snapshot ho r = sort_key fst (ho r)"

text \<open>Dropping the guard of a registration.\<close>

definition reg_drop :: "u64 \<Rightarrow> registry \<Rightarrow> registry" where
  "reg_drop i r = AList.delete i r"

section \<open>Session statistics\<close>

definition OUTSTANDING_PINGS :: nat where "OUTSTANDING_PINGS = 10"
definition PING_TIMEOUT :: nat where "PING_TIMEOUT = 20 * 60 * 1000000000"
definition MESSAGES_BY_COMMAND_CAP :: nat where "MESSAGES_BY_COMMAND_CAP = 64"

record conn_stats =
  rtt_history :: "u32 list"
  outstanding_pings :: "u64 list"
  unsolicited_pongs :: u32
  getheaders_ignored :: u32
  last_pong :: nat
  messages_by_command :: "(string, u32) btree"
  messages_other :: u32

definition stats_new :: "nat \<Rightarrow> conn_stats" where
  "stats_new now =
     \<lparr>rtt_history = [], outstanding_pings = [], unsolicited_pongs = 0, getheaders_ignored = 0, last_pong = now,
      messages_by_command = [], messages_other = 0\<rparr>"

definition record_ping :: "u64 \<Rightarrow> conn_stats \<Rightarrow> conn_stats" where
  "record_ping nonce s =
     (let q = outstanding_pings s @ [nonce]
      in s\<lparr>outstanding_pings := (if OUTSTANDING_PINGS < length q then tl q else q)\<rparr>)"

definition claim_pong :: "u64 \<Rightarrow> nat \<Rightarrow> conn_stats \<Rightarrow> bool \<times> conn_stats" where
  "claim_pong nonce now s =
     (if nonce \<in> set (outstanding_pings s)
      then (True, s\<lparr>outstanding_pings := remove1 nonce (outstanding_pings s), last_pong := now\<rparr>)
      else (False, s\<lparr>unsolicited_pongs := sat_add (unsolicited_pongs s) 1\<rparr>))"

definition ping_timed_out :: "nat \<Rightarrow> conn_stats \<Rightarrow> nat option" where
  "ping_timed_out now s =
     (let waited = now - last_pong s
      in if outstanding_pings s \<noteq> [] \<and> PING_TIMEOUT \<le> waited then Some waited else None)"

definition record_message :: "string \<Rightarrow> conn_stats \<Rightarrow> conn_stats" where
  "record_message command s =
     (case map_of (messages_by_command s) command of
        Some n \<Rightarrow> s\<lparr>messages_by_command := btree_insert command (sat_add n 1) (messages_by_command s)\<rparr>
      | None \<Rightarrow>
          if length (messages_by_command s) < MESSAGES_BY_COMMAND_CAP
          then s\<lparr>messages_by_command := btree_insert command 1 (messages_by_command s)\<rparr>
          else s\<lparr>messages_other := sat_add (messages_other s) 1\<rparr>)"

definition stats_counters :: "conn_stats \<Rightarrow> counters" where
  "stats_counters s =
     \<lparr>cn_messages = sum_list (map (\<lambda>(_, n). ucast n) (messages_by_command s)) + ucast (messages_other s),
      cn_unsolicited_pongs = unsolicited_pongs s,
      cn_rtt_ms = (if rtt_history s = [] then None else Some (last (rtt_history s))),
      cn_min_rtt_ms = (if rtt_history s = [] then None else Some (Min (set (rtt_history s))))\<rparr>"

definition record_rtt :: "u32 \<Rightarrow> conn_stats \<Rightarrow> conn_stats" where
  "record_rtt rtt_ms s =
     (let q = rtt_history s @ [rtt_ms] in s\<lparr>rtt_history := (if 10 < length q then tl q else q)\<rparr>)"

section \<open>Bounds\<close>

text \<open>Whatever a peer sends, what its session remembers stays small.\<close>

definition stats_ok :: "conn_stats \<Rightarrow> bool" where
  "stats_ok s \<longleftrightarrow>
     length (rtt_history s) \<le> 10 \<and> length (outstanding_pings s) \<le> OUTSTANDING_PINGS
     \<and> length (messages_by_command s) \<le> MESSAGES_BY_COMMAND_CAP \<and> btree_ok (messages_by_command s)"

lemma length_btree_insert:
  "length (btree_insert k v m) \<le> Suc (length m)"
  by (induction m rule: btree_insert.induct) auto

lemma length_btree_replace:
  assumes "btree_ok m" "map_of m k \<noteq> None"
  shows "length (btree_insert k v m) = length m"
proof -
  have "dom (map_of (btree_insert k v m)) = dom (map_of m)"
    using assms by (auto simp: btree_get_insert [OF assms(1)])
  then show ?thesis
    using length_hm [OF btree_ok_hm_ok [OF btree_ok_insert [OF assms(1)]]] length_hm [OF btree_ok_hm_ok [OF assms(1)]] by simp
qed

lemma stats_ok_new: "stats_ok (stats_new now)"
  by (simp add: stats_ok_def stats_new_def btree_ok_def)

lemma stats_ok_ping: "stats_ok s \<Longrightarrow> stats_ok (record_ping n s)"
  by (auto simp: stats_ok_def record_ping_def Let_def)

lemma stats_ok_pong: "stats_ok s \<Longrightarrow> stats_ok (snd (claim_pong n now s))"
  by (auto simp: stats_ok_def claim_pong_def length_remove1)

lemma stats_ok_rtt: "stats_ok s \<Longrightarrow> stats_ok (record_rtt n s)"
  by (auto simp: stats_ok_def record_rtt_def Let_def)

lemma stats_ok_message: "stats_ok s \<Longrightarrow> stats_ok (record_message c s)"
  using length_btree_replace [of "messages_by_command s" c] length_btree_insert [of c 1 "messages_by_command s"]
  by (auto simp: stats_ok_def record_message_def btree_ok_insert split: option.splits)

lemma stats_ok_ignored [simp]: "stats_ok (s\<lparr>getheaders_ignored := n\<rparr>) = stats_ok s"
  by (simp add: stats_ok_def)

section \<open>Pings and pongs\<close>

datatype ping_op = SentPing u64 | GotPong u64 nat

text \<open>A run of pings sent and pongs received: the nonces of the pongs that were accepted.\<close>

fun ping_run :: "ping_op list \<Rightarrow> conn_stats \<Rightarrow> u64 list \<times> conn_stats" where
  "ping_run [] s = ([], s)"
| "ping_run (SentPing n # ops) s = ping_run ops (record_ping n s)"
| "ping_run (GotPong n now # ops) s =
     (let (ok, s) = claim_pong n now s; (ns, s) = ping_run ops s in (if ok then n # ns else ns, s))"

fun pings_of :: "ping_op list \<Rightarrow> u64 list" where
  "pings_of [] = []"
| "pings_of (SentPing n # ops) = n # pings_of ops"
| "pings_of (GotPong _ _ # ops) = pings_of ops"

lemma record_ping_subset: "mset (outstanding_pings (record_ping n s)) \<subseteq># add_mset n (mset (outstanding_pings s))"
  by (cases "outstanding_pings s") (auto simp: record_ping_def Let_def)

lemma ping_run_subset:
  "mset (fst (ping_run ops s)) \<subseteq># mset (outstanding_pings s) + mset (pings_of ops)"
proof (induction ops s rule: ping_run.induct)
  case (2 n ops s)
  have "mset (fst (ping_run ops (record_ping n s))) \<subseteq># add_mset n (mset (outstanding_pings s)) + mset (pings_of ops)"
    using "2.IH" record_ping_subset [of n s] by (meson mset_subset_eq_mono_add subset_mset.order_refl subset_mset.trans)
  then show ?case by simp
next
  case (3 n now ops s)
  define s' where "s' = snd (claim_pong n now s)"
  have IH: "mset (fst (ping_run ops s')) \<subseteq># mset (outstanding_pings s') + mset (pings_of ops)"
    using "3.IH" [OF refl] unfolding s'_def by (cases "claim_pong n now s") auto
  have run: "fst (ping_run (GotPong n now # ops) s) =
      (if n \<in> set (outstanding_pings s) then n # fst (ping_run ops s') else fst (ping_run ops s'))"
    by (simp add: s'_def claim_pong_def case_prod_beta Let_def)
  show ?case
  proof (cases "n \<in> set (outstanding_pings s)")
    case True
    then have "mset (outstanding_pings s) = add_mset n (mset (outstanding_pings s'))" by (simp add: s'_def claim_pong_def)
    with IH True show ?thesis unfolding run by simp
  next
    case False
    then show ?thesis using IH unfolding run by (simp add: s'_def claim_pong_def)
  qed
qed simp

lemma ping_run_ok: "stats_ok s \<Longrightarrow> stats_ok (snd (ping_run ops s))"
proof (induction ops arbitrary: s)
  case (Cons p ops)
  then show ?case using stats_ok_ping stats_ok_pong by (cases p) (auto simp: case_prod_beta Let_def)
qed simp

section \<open>Counting messages\<close>

definition messages_total :: "conn_stats \<Rightarrow> nat" where
  "messages_total s = sum_list (map (unat \<circ> snd) (messages_by_command s)) + unat (messages_other s)"

lemma sum_list_btree_insert:
  assumes "btree_ok m"
  shows "sum_list (map (f \<circ> snd) (btree_insert k v m)) + (case map_of m k of None \<Rightarrow> 0 | Some w \<Rightarrow> f w) =
    sum_list (map (f \<circ> snd) m) + (f v :: nat)"
  using assms
proof (induction k v m rule: btree_insert.induct)
  case (2 k v k' v' m)
  have "map_of m k = None" if "k < k'"
    using that "2.prems" by (auto simp: btree_ok_def map_of_eq_None_iff) 
  with 2 show ?case by (auto simp: btree_ok_tl)
qed simp

lemma record_message_total:
  assumes "stats_ok s" "messages_total s < 2 ^ 32 - 1"
  shows "messages_total (record_message c s) = messages_total s + 1"
proof (cases "map_of (messages_by_command s) c")
  case None
  then show ?thesis
    using assms sum_list_btree_insert [of "messages_by_command s" unat c 1]
    by (auto simp: messages_total_def record_message_def stats_ok_def unat_sat_add)
next
  case (Some n)
  have "unat n \<le> sum_list (map (unat \<circ> snd) (messages_by_command s))"
    using member_le_sum_list [of "unat n" "map (unat \<circ> snd) (messages_by_command s)"] map_of_SomeD [OF Some] by force
  then have "unat (sat_add n 1) = unat n + 1" using assms(2) by (simp add: messages_total_def unat_sat_add)
  then show ?thesis
    using assms Some sum_list_btree_insert [of "messages_by_command s" unat c "sat_add n 1"]
    by (simp add: messages_total_def record_message_def stats_ok_def)
qed

lemma record_messages_total:
  "stats_ok s \<Longrightarrow> messages_total s + length cs < 2 ^ 32
   \<Longrightarrow> stats_ok (foldl (\<lambda>s c. record_message c s) s cs)
     \<and> messages_total (foldl (\<lambda>s c. record_message c s) s cs) = messages_total s + length cs"
proof (induction cs arbitrary: s)
  case (Cons c cs)
  have "messages_total (record_message c s) = messages_total s + 1"
    by (rule record_message_total) (use Cons.prems in auto)
  with Cons.IH [OF stats_ok_message [OF Cons.prems(1), of c]] Cons.prems(2) show ?case by simp
qed simp

lemma unat_sum_u64:
  "sum_list (map unat xs) < 2 ^ 64 \<Longrightarrow> unat (sum_list (xs :: u64 list)) = sum_list (map unat xs)"
  by (induction xs) (auto simp: unat_word_ariths)

lemma unat_ucast_u32 [simp]: "unat (ucast (x :: u32) :: u64) = unat x"
proof -
  have "unat x < 2 ^ 32" using unsigned_less [of x, where 'a = nat] by simp
  then show ?thesis by (simp add: unsigned_ucast_eq take_bit_nat_eq_self_iff)
qed

lemma counters_total:
  assumes "messages_total s < 2 ^ 64"
  shows "unat (cn_messages (stats_counters s)) = messages_total s"
proof -
  let ?xs = "map (\<lambda>(_, n). ucast n) (messages_by_command s) :: u64 list"
  have eq: "map unat ?xs = map (unat \<circ> snd) (messages_by_command s)"
    by auto
  have "unat (sum_list ?xs) = sum_list (map (unat \<circ> snd) (messages_by_command s))"
    using unat_sum_u64 [of ?xs] assms unfolding eq by (simp add: messages_total_def)
  then show ?thesis using assms by (simp add: stats_counters_def unat_word_ariths messages_total_def)
qed

section \<open>Properties\<close>

text \<open>
  A peer cannot make up round trips: in any sequence of pings sent and pongs received, each ping is answered
  at most once and no pong is accepted whose nonce was not sent; and never more than ten pings are kept waiting.
\<close>

theorem pongs_answer_pings:
  "mset (fst (ping_run ops (stats_new now))) \<subseteq># mset (pings_of ops)
   \<and> length (outstanding_pings (snd (ping_run ops (stats_new now)))) \<le> 10"
proof -
  have "stats_ok (snd (ping_run ops (stats_new now)))" by (rule ping_run_ok [OF stats_ok_new])
  with ping_run_subset [of ops "stats_new now"] show ?thesis
    by (simp add: stats_ok_def OUTSTANDING_PINGS_def stats_new_def)
qed

text \<open>
  Every message of a session is counted once, whatever commands the peer makes up: the total reported is the
  number of messages, and no more than 64 commands are told apart.
\<close>

theorem every_message_is_counted:
  assumes "length cs < 2 ^ 32"
  shows "unat (cn_messages (stats_counters (foldl (\<lambda>s c. record_message c s) (stats_new now) cs))) = length cs
    \<and> length (messages_by_command (foldl (\<lambda>s c. record_message c s) (stats_new now) cs)) \<le> 64"
proof -
  have "messages_total (stats_new now) = 0" by (simp add: messages_total_def stats_new_def)
  with record_messages_total [OF stats_ok_new, of now cs] assms
  have ok: "stats_ok (foldl (\<lambda>s c. record_message c s) (stats_new now) cs)"
    "messages_total (foldl (\<lambda>s c. record_message c s) (stats_new now) cs) = length cs" by auto
  from counters_total ok assms show ?thesis by (simp add: stats_ok_def MESSAGES_BY_COMMAND_CAP_def)
qed

theorem every_message_is_counted_witness:
  "unat (cn_messages (stats_counters (foldl (\<lambda>s c. record_message c s) (stats_new 0) [''inv'', ''ping'', ''inv'']))) = 3"
  using every_message_is_counted [of "[''inv'', ''ping'', ''inv'']" 0] by simp

text \<open>
  The snapshot of the live sessions lists exactly those registered and not yet dropped, each once, in order of
  their ids whichever order the map is walked in; a refresh changes only the counters of a session that is there.
\<close>

lemma reg_snapshot_sorted:
  assumes "hash_order ho" "hm_ok r"
  shows "sorted_wrt (<) (map fst (reg_snapshot ho r))" "set (reg_snapshot ho r) = set r"
proof -
  have "distinct (map fst (ho r))" using assms hash_order_hm_ok by (metis hm_ok_def)
  then have "distinct (map fst (reg_snapshot ho r))" by (simp add: reg_snapshot_def distinct_map distinct_sort)
  then show "sorted_wrt (<) (map fst (reg_snapshot ho r))" by (simp add: strict_sorted_iff reg_snapshot_def)
  show "set (reg_snapshot ho r) = set r" using assms(1) by (simp add: reg_snapshot_def)
qed

theorem registry_lists_live_sessions:
  assumes "hash_order ho" "hm_ok r"
  shows "sorted_wrt (<) (map fst (reg_snapshot ho r)) \<and> set (reg_snapshot ho r) = set r
    \<and> map_of (reg_register i l r) = (map_of r)(i \<mapsto> l) \<and> map_of (reg_drop i (reg_register i l r)) = (map_of r)(i := None)
    \<and> map_of (reg_refresh i c ms r) = (map_of r)(i := map_option (\<lambda>l. l\<lparr>lv_counters := c, lv_updated_ms := ms\<rparr>) (map_of r i))
    \<and> hm_ok (reg_register i l r) \<and> hm_ok (reg_drop i r) \<and> hm_ok (reg_refresh i c ms r)"
  using reg_snapshot_sorted [OF assms] assms(2)
  by (auto simp: reg_register_def reg_drop_def reg_refresh_def hm_simps fun_eq_iff)

definition sample_live :: live where
  "sample_live = \<lparr>lv_addr = Ipv4 [1, 2, 3, 4] 8333, lv_transport_version = 1, lv_connected_ms = 0, lv_user_agent = [],
     lv_protocol_version = 70016, lv_services = 1, lv_start_height = 0, lv_relay = False, lv_sendaddrv2 = False,
     lv_wtxid_relay = False, lv_addr_recv = [], lv_peer_timestamp = 0, lv_counters = counters_default, lv_updated_ms = 0\<rparr>"

theorem registry_lists_live_sessions_witness:
  "sorted_wrt (<) (map fst (reg_snapshot rev (reg_register 3 sample_live (reg_register 7 sample_live registry_new))))"
proof -
  have "hm_ok (reg_register 3 sample_live (reg_register 7 sample_live registry_new))"
    by (simp add: reg_register_def registry_new_def hm_ok_def)
  from registry_lists_live_sessions [OF hash_order_rev this] show ?thesis by blast
qed

end
