(* ===== verification/Header_Inv.thy ===== *)
theory Header_Inv
  imports Header_Tree
begin

text \<open>
  The invariant of the header tree and its preservation by every insertion: each header hangs below a
  parent one lower with its work added, the tip carries the most work, every header obeys the
  checkpoints, and below a reached checkpoint there is one chain. The walks towards the genesis block
  end, so no insertion panics or loops.
\<close>

section \<open>Well-formed header maps\<close>

definition wf_entry :: "chain \<Rightarrow> header_map \<Rightarrow> block_hash \<Rightarrow> header_entry \<Rightarrow> bool" where
  "wf_entry C hs h e \<longleftrightarrow>
     h = c_hash C (he_header e) \<and>
     (if he_height e = 0 then h = c_hash C (c_genesis C)
      else \<exists>p. map_of hs (prev_blockhash (he_header e)) = Some p \<and> he_height e = he_height p + 1
             \<and> he_work e = he_work p + c_work C (he_header e))"

definition wf_headers :: "chain \<Rightarrow> header_map \<Rightarrow> bool" where
  "wf_headers C hs \<longleftrightarrow>
     hm_ok hs \<and>
     map_of hs (c_hash C (c_genesis C)) =
       Some \<lparr>he_header = c_genesis C, he_height = 0, he_work = c_work C (c_genesis C)\<rparr> \<and>
     (\<forall>h e. map_of hs h = Some e \<longrightarrow> wf_entry C hs h e)"

lemma wf_headers_parent:
  assumes "wf_headers C hs" "map_of hs h = Some e" "he_height e \<noteq> 0"
  obtains p where "map_of hs (prev_blockhash (he_header e)) = Some p" "he_height e = he_height p + 1"
    "he_work e = he_work p + c_work C (he_header e)"
proof -
  have "wf_entry C hs h e" using assms(1,2) by (simp add: wf_headers_def)
  with assms(3) that show ?thesis by (auto simp: wf_entry_def)
qed

lemma wf_headers_new:
  "wf_headers C [(c_hash C (c_genesis C), \<lparr>he_header = c_genesis C, he_height = 0, he_work = c_work C (c_genesis C)\<rparr>)]"
  by (auto simp: wf_headers_def wf_entry_def hm_ok_def split: if_splits)

lemma wf_headers_insert:
  assumes "wf_headers C hs" "map_of hs (c_hash C hdr) = None" "map_of hs (prev_blockhash hdr) = Some p"
  defines "e \<equiv> \<lparr>he_header = hdr, he_height = he_height p + 1, he_work = he_work p + c_work C hdr\<rparr>"
  shows "wf_headers C (AList.update (c_hash C hdr) e hs)"
proof -
  let ?hs = "AList.update (c_hash C hdr) e hs"
  have mono: "map_of ?hs k = Some x" if "map_of hs k = Some x" for k x
    using that assms(2) by (auto simp: hm_simps)
  have "wf_entry C ?hs k x" if "map_of ?hs k = Some x" for k x
  proof (cases "k = c_hash C hdr")
    case True
    moreover have "prev_blockhash hdr \<noteq> c_hash C hdr" using assms(2,3) by auto
    ultimately show ?thesis using that assms(3) by (auto simp: hm_simps wf_entry_def e_def)
  next
    case False
    then have "wf_entry C hs k x" using that assms(1) by (auto simp: hm_simps wf_headers_def)
    then show ?thesis using mono by (fastforce simp: wf_entry_def)
  qed
  moreover have "hm_ok ?hs" using assms(1) by (auto simp: wf_headers_def)
  ultimately show ?thesis using assms(1,2) mono by (auto simp: wf_headers_def)
qed

section \<open>Paths to the genesis block\<close>

fun descends :: "header_map \<Rightarrow> block_hash list \<Rightarrow> bool" where
  "descends hs [] = False"
| "descends hs [h] = (\<exists>e. map_of hs h = Some e \<and> he_height e = 0)"
| "descends hs (h # k # ks) =
     (\<exists>e. map_of hs h = Some e \<and> he_height e = length ks + 1 \<and> prev_blockhash (he_header e) = k
        \<and> descends hs (k # ks))"

lemma descends_height:
  "descends hs ks \<Longrightarrow> i < length ks \<Longrightarrow> \<exists>e. map_of hs (ks ! i) = Some e \<and> he_height e = length ks - 1 - i"
proof (induction hs ks arbitrary: i rule: descends.induct)
  case (3 hs h k ks)
  then show ?case by (cases i) auto
qed auto

lemma descends_set:
  assumes "descends hs ks" "h \<in> set ks"
  shows "\<exists>e. map_of hs h = Some e \<and> he_height e < length ks"
proof -
  obtain i where "i < length ks" "h = ks ! i" using assms(2) by (auto simp: in_set_conv_nth)
  with descends_height [OF assms(1), of i] show ?thesis by auto
qed

lemma descends_link:
  "descends hs ks \<Longrightarrow> Suc i < length ks \<Longrightarrow> \<exists>e. map_of hs (ks ! i) = Some e \<and> prev_blockhash (he_header e) = ks ! Suc i"
proof (induction hs ks arbitrary: i rule: descends.induct)
  case (3 hs h k ks)
  then show ?case by (cases i) auto
qed auto

lemma descends_unique: "descends hs ks \<Longrightarrow> descends hs ks' \<Longrightarrow> hd ks = hd ks' \<Longrightarrow> ks = ks'"
proof (induction hs ks arbitrary: ks' rule: descends.induct)
  case (2 hs h)
  then show ?case by (cases "(hs, ks')" rule: descends.cases) auto
next
  case (3 hs h k ks)
  have "ks' \<noteq> [h]"
  proof
    assume "ks' = [h]"
    with "3.prems" show False by auto
  qed
  with 3 obtain k' zs where ks': "ks' = h # k' # zs" by (cases "(hs, ks')" rule: descends.cases) auto
  with "3.prems" have "descends hs (k # ks)" "descends hs (k' # zs)" "k = k'" by auto
  then have "k # ks = k' # zs" by (intro "3.IH") auto
  with ks' show ?case by simp
qed auto

text \<open>In a well-formed map both walks end and give the path.\<close>

lemma walks_descend:
  assumes "wf_headers C hs" "map_of hs h = Some e"
  shows "\<exists>ks. chain_back hs h acc = Some (acc @ ks) \<and> keep_walk hs h acc = Some (acc @ ks)
    \<and> descends hs ks \<and> hd ks = h \<and> length ks = he_height e + 1"
  using assms(2)
proof (induction "he_height e" arbitrary: h e acc)
  case 0
  then show ?case
    by (intro exI [where x = "[h]"]) (simp add: chain_back.simps [of hs h] keep_walk.simps [of hs h])
next
  case (Suc n)
  obtain p where p: "map_of hs (prev_blockhash (he_header e)) = Some p" "he_height e = he_height p + 1"
    using wf_headers_parent [OF assms(1) Suc.prems] Suc.hyps(2) by (metis nat.distinct(1))
  then have "n = he_height p" using Suc.hyps(2) by simp
  from Suc.hyps(1) [OF this p(1), of "acc @ [h]"] obtain ks where ks:
    "chain_back hs (prev_blockhash (he_header e)) (acc @ [h]) = Some ((acc @ [h]) @ ks)"
    "keep_walk hs (prev_blockhash (he_header e)) (acc @ [h]) = Some ((acc @ [h]) @ ks)"
    "descends hs ks" "hd ks = prev_blockhash (he_header e)" "length ks = he_height p + 1" by blast
  then obtain k ks' where "ks = k # ks'" by (cases ks) auto
  with ks p Suc.prems Suc.hyps(2) show ?case
    by (intro exI [where x = "h # ks"])
      (simp add: chain_back.simps [of hs h] keep_walk.simps [of hs h])
qed

lemma rebuild_best_chain_total:
  assumes "wf_headers C (headers t)" "map_of (headers t) (tip t) = Some e"
  obtains ks where "rebuild_best_chain t = Some (t\<lparr>best_chain := rev ks\<rparr>)" "descends (headers t) ks"
    "hd ks = tip t" "length ks = he_height e + 1"
  using walks_descend [OF assms, of "[]"] by (auto simp: rebuild_best_chain_def)

section \<open>Pruning\<close>

lemma drop_orphans_Cons:
  "drop_orphans hs ((n, h) # tall) =
     drop_orphans (case map_of hs h of None \<Rightarrow> hs
       | Some e \<Rightarrow> if contains_key hs (prev_blockhash (he_header e)) then hs else AList.delete h hs) tall"
  by (simp add: drop_orphans_def)

text \<open>After the drop, each header it looked at that is still there has its parent.\<close>

lemma drop_orphans_closed:
  assumes "hm_ok hs" "sorted (map fst tall)"
    and "\<And>n h e. (n, h) \<in> set tall \<Longrightarrow> map_of hs h = Some e \<Longrightarrow> he_height e = n"
    and "\<And>n h e p. (n, h) \<in> set tall \<Longrightarrow> map_of hs h = Some e
      \<Longrightarrow> map_of hs (prev_blockhash (he_header e)) = Some p \<Longrightarrow> he_height p < he_height e"
  shows "hm_ok (drop_orphans hs tall) \<and> map_of (drop_orphans hs tall) \<subseteq>\<^sub>m map_of hs
    \<and> (\<forall>h. h \<notin> snd ` set tall \<longrightarrow> map_of (drop_orphans hs tall) h = map_of hs h)
    \<and> (\<forall>h e. h \<in> snd ` set tall \<longrightarrow> map_of (drop_orphans hs tall) h = Some e
         \<longrightarrow> contains_key (drop_orphans hs tall) (prev_blockhash (he_header e)))"
  using assms
proof (induction tall arbitrary: hs)
  case Nil
  then show ?case by (simp add: drop_orphans_def)
next
  case (Cons x tall)
  obtain n h where x: "x = (n, h)" by (cases x)
  define hs1 where "hs1 = (case map_of hs h of None \<Rightarrow> hs
    | Some e \<Rightarrow> if contains_key hs (prev_blockhash (he_header e)) then hs else AList.delete h hs)"
  have sub: "map_of hs1 \<subseteq>\<^sub>m map_of hs" "\<And>k. k \<noteq> h \<Longrightarrow> map_of hs1 k = map_of hs k"
    by (auto simp: hs1_def map_le_def hm_simps split: option.splits)
  have get: "map_of hs k = Some e" if "map_of hs1 k = Some e" for k e
    using map_le_get [OF sub(1) that] .
  have ok: "hm_ok hs1" using Cons.prems(1) by (simp add: hs1_def split: option.splits)
  let ?r = "drop_orphans hs1 tall"
  have IH: "hm_ok ?r" "map_of ?r \<subseteq>\<^sub>m map_of hs1" "\<And>k. k \<notin> snd ` set tall \<Longrightarrow> map_of ?r k = map_of hs1 k"
    "\<And>k e. k \<in> snd ` set tall \<Longrightarrow> map_of ?r k = Some e \<Longrightarrow> contains_key ?r (prev_blockhash (he_header e))"
  proof -
    have "sorted (map fst tall)" using Cons.prems(2) by simp
    moreover have "he_height e = m" if "(m, k) \<in> set tall" "map_of hs1 k = Some e" for m k e
      using Cons.prems(3) [OF _ get [OF that(2)]] that(1) by simp
    moreover have "he_height p < he_height e"
      if "(m, k) \<in> set tall" "map_of hs1 k = Some e" "map_of hs1 (prev_blockhash (he_header e)) = Some p" for m k e p
      using Cons.prems(4) [OF _ get [OF that(2)] get [OF that(3)], of m] that(1) by simp
    ultimately have "hm_ok ?r \<and> map_of ?r \<subseteq>\<^sub>m map_of hs1
        \<and> (\<forall>k. k \<notin> snd ` set tall \<longrightarrow> map_of ?r k = map_of hs1 k)
        \<and> (\<forall>k e. k \<in> snd ` set tall \<longrightarrow> map_of ?r k = Some e \<longrightarrow> contains_key ?r (prev_blockhash (he_header e)))"
      by (rule Cons.IH [OF ok])
    then show "hm_ok ?r" "map_of ?r \<subseteq>\<^sub>m map_of hs1" "\<And>k. k \<notin> snd ` set tall \<Longrightarrow> map_of ?r k = map_of hs1 k"
      "\<And>k e. k \<in> snd ` set tall \<Longrightarrow> map_of ?r k = Some e \<Longrightarrow> contains_key ?r (prev_blockhash (he_header e))"
      by blast+
  qed
  have head: "contains_key ?r (prev_blockhash (he_header e))" if e: "map_of ?r h = Some e" for e
  proof -
    have e1: "map_of hs1 h = Some e" using map_le_get [OF IH(2) e] .
    then have "contains_key hs (prev_blockhash (he_header e))"
      using get [OF e1] by (auto simp: hs1_def hm_simps split: option.splits if_splits)
    then obtain p where p: "map_of hs (prev_blockhash (he_header e)) = Some p" by (auto simp: contains_key_def)
    have lt: "he_height p < he_height e" by (rule Cons.prems(4) [OF _ get [OF e1] p, of n]) (simp add: x)
    have n: "he_height e = n" by (rule Cons.prems(3) [of n h]) (simp_all add: x get [OF e1])
    then have "prev_blockhash (he_header e) \<noteq> h" using lt p get [OF e1] by auto
    moreover have "prev_blockhash (he_header e) \<notin> snd ` set tall"
    proof
      assume "prev_blockhash (he_header e) \<in> snd ` set tall"
      then obtain m where "(m, prev_blockhash (he_header e)) \<in> set tall" by auto
      moreover from this have "he_height p = m" by (intro Cons.prems(3) [OF _ p]) simp
      ultimately show False using Cons.prems(2) lt n by (auto simp: x)
    qed
    ultimately show ?thesis using IH(3) sub(2) p by (simp add: contains_key_def)
  qed
  have "drop_orphans hs (x # tall) = ?r" by (simp add: x drop_orphans_Cons hs1_def)
  then show ?case
    using IH head sub map_le_trans [OF IH(2) sub(1)] by (auto simp: x)
qed

text \<open>
  A prune that keeps the path \<open>keep\<close> of a block at the checkpoint height gives a well-formed sub-map:
  nothing but the path up to that height, the path itself untouched.
\<close>

lemma prune_headers_tall:
  fixes reached :: nat and keep :: "block_hash list"
  assumes "hash_order ho" "hm_ok hs"
  defines "hs1 \<equiv> filter (\<lambda>(h, e). reached < he_height e \<or> h \<in> set keep) hs"
  defines "tall \<equiv> sort_key fst (sort_key snd (map (\<lambda>(h, e). (he_height e, h))
      (filter (\<lambda>(_, e). reached < he_height e) (ho hs1))))"
  shows "prune_headers ho reached keep hs = drop_orphans hs1 tall" "hm_ok hs1" "sorted (map fst tall)"
    "(n, h) \<in> set tall \<longleftrightarrow> (\<exists>e. map_of hs1 h = Some e \<and> reached < he_height e \<and> n = he_height e)"
proof -
  show "prune_headers ho reached keep hs = drop_orphans hs1 tall"
    by (simp add: prune_headers_def hs1_def tall_def Let_def)
  show ok: "hm_ok hs1" using assms(2) by (auto simp: hs1_def)
  show "sorted (map fst tall)" by (simp add: tall_def)
  have "set tall = (\<lambda>(h, e). (he_height e, h)) ` {(h, e) \<in> set hs1. reached < he_height e}"
    using assms(1) by (auto simp: tall_def)
  then show "(n, h) \<in> set tall \<longleftrightarrow> (\<exists>e. map_of hs1 h = Some e \<and> reached < he_height e \<and> n = he_height e)"
    using ok by (auto simp: hm_get_iff)
qed

lemma prune_headers_props:
  fixes reached :: nat and keep :: "block_hash list"
  assumes "hash_order ho" "wf_headers C hs" "descends hs keep" "length keep = reached + 1"
  defines "hs' \<equiv> prune_headers ho reached keep hs"
  shows "hm_ok hs'" "map_of hs' \<subseteq>\<^sub>m map_of hs"
    and "h \<in> set keep \<Longrightarrow> map_of hs' h = map_of hs h"
    and "map_of hs' h = Some e \<Longrightarrow> he_height e \<le> reached \<Longrightarrow> h \<in> set keep"
    and "map_of hs' h = Some e \<Longrightarrow> reached < he_height e \<Longrightarrow> contains_key hs' (prev_blockhash (he_header e))"
proof -
  define hs1 where "hs1 = filter (\<lambda>(h, e). reached < he_height e \<or> h \<in> set keep) hs"
  define tall where "tall = sort_key fst (sort_key snd (map (\<lambda>(h, e). (he_height e, h))
      (filter (\<lambda>(_, e). reached < he_height e) (ho hs1))))"
  have okhs: "hm_ok hs" using assms(2) by (simp add: wf_headers_def)
  note t = prune_headers_tall [OF assms(1) okhs, where reached = reached and keep = keep, folded hs1_def, folded tall_def]
  have get1: "map_of hs1 h = (case map_of hs h of None \<Rightarrow> None
      | Some e \<Rightarrow> if reached < he_height e \<or> h \<in> set keep then Some e else None)" for h
    unfolding hs1_def using hm_get_retain [OF okhs, of "\<lambda>h e. reached < he_height e \<or> h \<in> set keep" h] .
  have sub1: "map_of hs1 \<subseteq>\<^sub>m map_of hs" by (auto simp: map_le_def get1 split: option.splits if_splits)
  have par: "he_height p < he_height e"
    if "(n, h) \<in> set tall" "map_of hs1 h = Some e" "map_of hs1 (prev_blockhash (he_header e)) = Some p" for n h e p
  proof -
    have "he_height e \<noteq> 0" using that(1,2) t(4) by auto
    from wf_headers_parent [OF assms(2) map_le_get [OF sub1 that(2)] this] show ?thesis
      using map_le_get [OF sub1 that(3)] by force
  qed
  have tall: "he_height e = n" if "(n, h) \<in> set tall" "map_of hs1 h = Some e" for n h e using that t(4) by auto
  have d: "hm_ok hs'" "map_of hs' \<subseteq>\<^sub>m map_of hs1" "\<And>h. h \<notin> snd ` set tall \<Longrightarrow> map_of hs' h = map_of hs1 h"
    "\<And>h e. h \<in> snd ` set tall \<Longrightarrow> map_of hs' h = Some e \<Longrightarrow> contains_key hs' (prev_blockhash (he_header e))"
    using drop_orphans_closed [OF t(2,3)] tall par unfolding hs'_def t(1) by blast+
  show "hm_ok hs'" by (rule d(1))
  show sub: "map_of hs' \<subseteq>\<^sub>m map_of hs" by (rule map_le_trans [OF d(2) sub1])
  show "map_of hs' h = map_of hs h" if k: "h \<in> set keep"
  proof -
    obtain e where e: "map_of hs h = Some e" "he_height e \<le> reached"
      using descends_set [OF assms(3) k] assms(4) by auto
    then have "map_of hs1 h = Some e" using k by (simp add: get1)
    moreover from this have "h \<notin> snd ` set tall" using e(2) t(4) by force
    ultimately show ?thesis using d(3) e by simp
  qed
  show "h \<in> set keep" if "map_of hs' h = Some e" "he_height e \<le> reached"
    using map_le_get [OF d(2) that(1)] that(2) by (auto simp: get1 split: option.splits if_splits)
  show "contains_key hs' (prev_blockhash (he_header e))" if "map_of hs' h = Some e" "reached < he_height e"
  proof -
    have "(he_height e, h) \<in> set tall" using map_le_get [OF d(2) that(1)] that(2) t(4) by auto
    then show ?thesis using d(4) that(1) by force
  qed
qed

lemma wf_headers_prune:
  assumes "hash_order ho" "wf_headers C hs" "descends hs keep" "length keep = reached + 1"
  shows "wf_headers C (prune_headers ho reached keep hs)"
proof -
  let ?hs = "prune_headers ho reached keep hs"
  note p = prune_headers_props [OF assms]
  have genesis: "last keep = c_hash C (c_genesis C)"
  proof -
    obtain e where e: "map_of hs (keep ! reached) = Some e" "he_height e = 0"
      using descends_height [OF assms(3), of reached] assms(4) by auto
    then have "keep ! reached = c_hash C (c_genesis C)" using assms(2) by (auto simp: wf_headers_def wf_entry_def)
    moreover have "keep \<noteq> []" using assms(4) by auto
    ultimately show ?thesis using assms(4) by (simp add: last_conv_nth)
  qed
  have "wf_entry C ?hs h e" if h: "map_of ?hs h = Some e" for h e
  proof -
    have e: "map_of hs h = Some e" by (rule map_le_get [OF p(2) h])
    then have wf: "wf_entry C hs h e" using assms(2) by (simp add: wf_headers_def)
    have "contains_key ?hs (prev_blockhash (he_header e))" if "he_height e \<noteq> 0"
    proof (cases "reached < he_height e")
      case True
      then show ?thesis by (rule p(5) [OF h])
    next
      case False
      then obtain i where i: "i < length keep" "h = keep ! i" using p(4) [OF h] by (auto simp: in_set_conv_nth)
      with descends_height [OF assms(3) i(1)] e that have "Suc i < length keep" by auto
      with descends_link [OF assms(3) this] i e have "prev_blockhash (he_header e) \<in> set keep" by auto
      then show ?thesis using p(3) descends_set [OF assms(3)] by (metis contains_key_def option.distinct(1))
    qed
    with wf show ?thesis
      using map_le_get [OF p(2)] by (auto simp: wf_entry_def contains_key_def)
  qed
  moreover have "c_hash C (c_genesis C) \<in> set keep"
    using genesis assms(4) by (metis last_in_set list.size(3) add_is_0 one_neq_zero)
  ultimately show ?thesis using p(1,3) assms(2) by (simp add: wf_headers_def)
qed

end
