(* ===== verification/Header_Insert.thy ===== *)
theory Header_Insert
  imports Header_Inv
begin

text \<open>
  Insertion keeps the invariant of the tree, whatever headers a peer sends and in whatever order: the
  invariant of the tip, of the checkpoints and of the validity of every header held.
\<close>

section \<open>The invariant\<close>

definition tip_ok :: "tree \<Rightarrow> bool" where
  "tip_ok t \<longleftrightarrow>
     (\<exists>e. map_of (headers t) (tip t) = Some e \<and> he_height e = tip_height t \<and> he_work e = tip_work t)"

text \<open>No header outside \<open>X\<close> has more work than the tip.\<close>

definition heaviest_but :: "block_hash set \<Rightarrow> tree \<Rightarrow> bool" where
  "heaviest_but X t \<longleftrightarrow> (\<forall>h e. map_of (headers t) h = Some e \<longrightarrow> h \<notin> X \<longrightarrow> he_work e \<le> tip_work t)"

definition checkpoints_obeyed :: "tree \<Rightarrow> bool" where
  "checkpoints_obeyed t \<longleftrightarrow>
     (\<forall>c \<in> set (checkpoints t). \<forall>h e. map_of (headers t) h = Some e \<longrightarrow> he_height e = cp_height c
        \<longrightarrow> 0 < he_height e \<longrightarrow> h = cp_hash c)"

text \<open>
  Up to the reached checkpoint there is one header per height, and every checkpoint block held but
  those in \<open>X\<close> is at or below it.
\<close>

definition reached_ok :: "block_hash set \<Rightarrow> tree \<Rightarrow> bool" where
  "reached_ok X t \<longleftrightarrow>
     (\<forall>r. reached_checkpoint t = Some r \<longrightarrow>
        (\<exists>c \<in> set (checkpoints t). cp_height c = r \<and> (\<exists>e. map_of (headers t) (cp_hash c) = Some e \<and> he_height e = r))
        \<and> (\<forall>h e h' e'. map_of (headers t) h = Some e \<longrightarrow> map_of (headers t) h' = Some e'
             \<longrightarrow> he_height e = he_height e' \<longrightarrow> he_height e \<le> r \<longrightarrow> h = h'))
     \<and> (\<forall>c \<in> set (checkpoints t). \<forall>e. cp_hash c \<notin> X \<longrightarrow> map_of (headers t) (cp_hash c) = Some e
          \<longrightarrow> he_height e = cp_height c \<longrightarrow> (\<exists>r. reached_checkpoint t = Some r \<and> cp_height c \<le> r))"

text \<open>Every header but the genesis block passed validation on the branch it is on.\<close>

definition valid_entry :: "chain \<Rightarrow> header_map \<Rightarrow> header_entry \<Rightarrow> bool" where
  "valid_entry C hs e \<longleftrightarrow>
     he_height e = 0 \<or>
     c_target C (he_header e) \<le> c_max_target C \<and>
     (\<exists>p bits. map_of hs (prev_blockhash (he_header e)) = Some p
        \<and> expected_bits C hs (he_header e) (he_height e) p = Some bits \<and> c_pow_ok C bits (he_header e))"

definition valid_headers :: "chain \<Rightarrow> header_map \<Rightarrow> bool" where
  "valid_headers C hs \<longleftrightarrow> (\<forall>h e. map_of hs h = Some e \<longrightarrow> valid_entry C hs e)"

text \<open>
  The invariant, between operations and, with the header being inserted exempt from being weighed
  (\<open>X\<close>) or noted as a checkpoint (\<open>Y\<close>), in the course of an insertion.
\<close>

definition tree_inv :: "block_hash set \<Rightarrow> block_hash set \<Rightarrow> chain \<Rightarrow> tree \<Rightarrow> bool" where
  "tree_inv X Y C t \<longleftrightarrow>
     wf_headers C (headers t) \<and> valid_headers C (headers t) \<and> tip_ok t \<and> heaviest_but X t
     \<and> distinct (map cp_height (checkpoints t)) \<and> checkpoints_obeyed t \<and> reached_ok Y t"

definition tree_ok :: "chain \<Rightarrow> tree \<Rightarrow> bool" where
  "tree_ok C t \<longleftrightarrow> tree_inv {} {} C t"

text \<open>The best chain is the path of the tip.\<close>

definition best_ok :: "tree \<Rightarrow> bool" where
  "best_ok t \<longleftrightarrow> descends (headers t) (rev (best_chain t)) \<and> last (best_chain t) = tip t"

section \<open>Validity does not depend on other branches\<close>

lemma walk_back_mono: "hs \<subseteq>\<^sub>m hs' \<Longrightarrow> hs = map_of m \<Longrightarrow> hs' = map_of m' \<Longrightarrow> walk_back m h n = Some e \<Longrightarrow> walk_back m' h n = Some e"
proof (induction n arbitrary: h)
  case (Suc n)
  then show ?case by (auto split: option.splits dest: map_le_get)
qed (auto dest: map_le_get)

lemma walk_back_total:
  assumes "wf_headers C hs"
  shows "map_of hs h = Some e \<Longrightarrow> n \<le> he_height e \<Longrightarrow> \<exists>x. walk_back hs h n = Some x"
proof (induction n arbitrary: h e)
  case (Suc n)
  from wf_headers_parent [OF assms Suc.prems(1)] Suc.prems(2) obtain p where
    "map_of hs (prev_blockhash (he_header e)) = Some p" "he_height e = he_height p + 1" by (metis not_less_eq_eq le0)
  with Suc show ?case by auto
qed simp

lemma expected_bits_mono:
  assumes "map_of hs \<subseteq>\<^sub>m map_of hs'" "expected_bits C hs hdr n p = Some bits"
  shows "expected_bits C hs' hdr n p = Some bits"
  using assms(2) walk_back_mono [OF assms(1) refl refl] by (auto simp: expected_bits_def split: option.splits if_splits)

lemma expected_bits_total:
  assumes "wf_headers C hs" "map_of hs (prev_blockhash hdr) = Some p" "n = he_height p + 1"
  shows "\<exists>bits. expected_bits C hs hdr n p = Some bits"
proof (cases "n mod 2016 = 0 \<and> 0 < n")
  case True
  then have "2016 \<le> n" by (auto intro: dvd_imp_le)
  then have "2015 \<le> he_height p" using assms(3) by simp
  with walk_back_total [OF assms(1,2)] show ?thesis by (force simp: expected_bits_def)
qed (auto simp: expected_bits_def)

lemma valid_entry_mono:
  assumes "map_of hs \<subseteq>\<^sub>m map_of hs'" "valid_entry C hs e"
  shows "valid_entry C hs' e"
  using assms map_le_get [OF assms(1)] expected_bits_mono [OF assms(1)] unfolding valid_entry_def by blast

lemma valid_headers_sub:
  assumes "wf_headers C hs'" "map_of hs' \<subseteq>\<^sub>m map_of hs" "valid_headers C hs"
  shows "valid_headers C hs'"
  unfolding valid_headers_def
proof safe
  fix h e assume h: "map_of hs' h = Some e"
  show "valid_entry C hs' e"
  proof (cases "he_height e = 0")
    case False
    obtain p where p: "map_of hs' (prev_blockhash (he_header e)) = Some p" "he_height e = he_height p + 1"
      by (rule wf_headers_parent [OF assms(1) h False])
    obtain bits where b: "expected_bits C hs' (he_header e) (he_height e) p = Some bits"
      using expected_bits_total [OF assms(1) p] by blast
    have "valid_entry C hs e" using assms(3) map_le_get [OF assms(2) h] by (simp add: valid_headers_def)
    then show ?thesis
      using False p(1) b expected_bits_mono [OF assms(2) b] map_le_get [OF assms(2) p(1)]
      by (auto simp: valid_entry_def)
  qed (simp add: valid_entry_def)
qed

section \<open>Noting a checkpoint\<close>

lemma max_by_work_heaviest:
  assumes "max_by_work xs = Some (h, e)"
  shows "(h, e) \<in> set xs" "\<forall>kv \<in> set xs. he_work (snd kv) \<le> he_work e"
proof -
  have "(h, e) \<in> set xs \<and> (\<forall>kv \<in> set xs. he_work (snd kv) \<le> he_work e)"
    using assms
  proof (induction xs arbitrary: h e rule: rev_induct)
    case (snoc kv xs)
    show ?case
    proof (cases "max_by_work xs")
      case None
      then have "xs = []" by (cases xs rule: rev_cases) (auto simp: max_by_work_def split: option.splits if_splits)
      with snoc.prems show ?thesis by (auto simp: max_by_work_def)
    next
      case (Some b)
      with snoc.IH [of "fst b" "snd b"] snoc.prems show ?thesis
        by (fastforce simp: max_by_work_def split: if_splits)
    qed
  qed (simp add: max_by_work_def)
  then show "(h, e) \<in> set xs" "\<forall>kv \<in> set xs. he_work (snd kv) \<le> he_work e" by auto
qed

lemma max_by_work_total: "xs \<noteq> [] \<Longrightarrow> max_by_work xs \<noteq> None"
  by (cases xs rule: rev_cases) (auto simp: max_by_work_def split: option.splits)

lemma same_length_same_map:
  assumes "hm_ok m" "hm_ok m'" "map_of m' \<subseteq>\<^sub>m map_of m" "length m \<le> length m'"
  shows "map_of m' = map_of m"
proof -
  have "dom (map_of m') = dom (map_of m)"
    using assms map_le_implies_dom_le [OF assms(3)] length_hm [OF assms(1)] length_hm [OF assms(2)]
    by (intro card_seteq) (auto simp: finite_dom_map_of)
  then show ?thesis using assms(3) by (metis map_le_antisym map_le_def)
qed

text \<open>What a prune does to the parts of the tree it may change, on a tree whose header map is \<open>hs\<close> afterwards.\<close>

definition settled :: "tree \<Rightarrow> header_map \<Rightarrow> tree \<Rightarrow> bool" where
  "settled t hs t' \<longleftrightarrow>
     headers t' = hs \<and> checkpoints t' = checkpoints t \<and> reached_checkpoint t' = reached_checkpoint t
     \<and> refused t' = refused t \<and> recoveries t' = recoveries t
     \<and> (tip t' = tip t \<and> tip_height t' = tip_height t \<and> tip_work t' = tip_work t
        \<or> (\<exists>e. map_of hs (tip t') = Some e \<and> tip_height t' = he_height e \<and> tip_work t' = he_work e
             \<and> (\<forall>h x. map_of hs h = Some x \<longrightarrow> he_work x \<le> he_work e)))
     \<and> contains_key hs (tip t')
     \<and> (best_chain t' = best_chain t \<and> map_of hs = map_of (headers t) \<and> tip t' = tip t \<or> best_ok t')"

lemma prune_below_checkpoint_settles:
  assumes "hash_order ho" "wf_headers C (headers t)" "tip_ok t" "reached_checkpoint t = Some n"
    and c: "find (\<lambda>c. cp_height c = n) (checkpoints t) = Some c"
    and ks: "keep_walk (headers t) (cp_hash c) [] = Some ks" "descends (headers t) ks" "length ks = n + 1"
  shows "\<exists>k t'. prune_below_checkpoint ho t = Some (k, t') \<and> settled t (prune_headers ho n ks (headers t)) t'"
proof -
  define hs where "hs = prune_headers ho n ks (headers t)"
  note p = prune_headers_props [OF assms(1,2) ks(2,3), folded hs_def]
  have wf: "wf_headers C hs" unfolding hs_def by (rule wf_headers_prune [OF assms(1,2) ks(2,3)])
  let ?k = "length (headers t) - length hs"
  let ?t = "t\<lparr>headers := hs, pruned := pruned t + ?k, dirty := True\<rparr>"
  show ?thesis
  proof (cases "0 < ?k")
    case False
    then have "map_of hs = map_of (headers t)"
      using assms(2) p(1,2) by (intro same_length_same_map) (auto simp: wf_headers_def)
    moreover have "contains_key hs (tip t)" using calculation assms(3) by (auto simp: tip_ok_def contains_key_def)
    moreover have "prune_below_checkpoint ho t = Some (?k, t\<lparr>headers := hs\<rparr>)"
      using False assms(4) c ks(1) by (simp add: prune_below_checkpoint_def hs_def)
    ultimately show ?thesis by (intro exI [where x = ?k] exI [where x = "t\<lparr>headers := hs\<rparr>"])
        (simp add: settled_def hs_def)
  next
    case True
    show ?thesis
    proof (cases "contains_key hs (tip t)")
      case True1: True
      then obtain e where e: "map_of hs (tip t) = Some e" by (auto simp: contains_key_def)
      obtain ch where ch: "rebuild_best_chain ?t = Some (?t\<lparr>best_chain := rev ch\<rparr>)" "descends hs ch" "hd ch = tip t"
        using rebuild_best_chain_total [of C ?t e] wf e by auto
      have "prune_below_checkpoint ho t = Some (?k, ?t\<lparr>best_chain := rev ch\<rparr>)"
        using True True1 assms(4) c ks(1) ch(1) by (simp add: prune_below_checkpoint_def Let_def hs_def)
      moreover have "settled t hs (?t\<lparr>best_chain := rev ch\<rparr>)"
        using True1 ch(2,3) by (auto simp: settled_def best_ok_def last_rev)
      ultimately show ?thesis unfolding hs_def by blast
    next
      case False
      have "hs \<noteq> []" using wf by (auto simp: wf_headers_def)
      then have "ho hs \<noteq> []" using hash_order_length [OF assms(1), of hs] by (metis length_0_conv)
      then obtain h e where he: "max_by_work (ho hs) = Some (h, e)" using max_by_work_total by fastforce
      have mem: "map_of hs h = Some e" "\<And>k x. map_of hs k = Some x \<Longrightarrow> he_work x \<le> he_work e"
        using max_by_work_heaviest [OF he] assms(1) p(1) by (auto simp: hm_get_iff)
      let ?t2 = "?t\<lparr>tip := h, tip_height := he_height e, tip_work := he_work e\<rparr>"
      obtain ch where ch: "rebuild_best_chain ?t2 = Some (?t2\<lparr>best_chain := rev ch\<rparr>)" "descends hs ch" "hd ch = h"
        using rebuild_best_chain_total [of C ?t2 e] wf mem(1) by auto
      have "prune_below_checkpoint ho t = Some (?k, ?t2\<lparr>best_chain := rev ch\<rparr>)"
        using True False assms(4) c ks(1) ch(1) he by (simp add: prune_below_checkpoint_def Let_def hs_def)
      moreover have "settled t hs (?t2\<lparr>best_chain := rev ch\<rparr>)"
        using mem ch(2,3) by (auto simp: settled_def best_ok_def last_rev contains_key_def)
      ultimately show ?thesis unfolding hs_def by blast
    qed
  qed
qed

lemma descends_same_height:
  assumes "descends hs ks" "h \<in> set ks" "h' \<in> set ks" "map_of hs h = Some e" "map_of hs h' = Some e'"
    "he_height e = he_height e'"
  shows "h = h'"
proof -
  obtain i j where ij: "i < length ks" "h = ks ! i" "j < length ks" "h' = ks ! j"
    using assms(2,3) by (auto simp: in_set_conv_nth)
  have "he_height e = length ks - 1 - i" "he_height e' = length ks - 1 - j"
    using descends_height [OF assms(1) ij(1)] descends_height [OF assms(1) ij(3)] ij assms(4,5) by auto
  then have "i = j" using assms(6) ij by simp
  then show ?thesis using ij by simp
qed

lemma find_checkpoint:
  assumes "distinct (map cp_height cps)" "c \<in> set cps"
  shows "find (\<lambda>x. cp_height x = cp_height c) cps = Some c"
  using assms by (induction cps) auto

text \<open>The effect of noting a checkpoint on a tree that holds it, at a height not yet reached.\<close>

definition noted :: "nat \<Rightarrow> tree \<Rightarrow> tree \<Rightarrow> bool" where
  "noted n t t' \<longleftrightarrow>
     checkpoints t' = checkpoints t \<and> refused t' = refused t \<and> recoveries t' = recoveries t
     \<and> map_of (headers t') \<subseteq>\<^sub>m map_of (headers t)
     \<and> (t' = t \<or> reached_checkpoint t' = Some n \<and> (best_ok t' \<or>
          best_chain t' = best_chain t \<and> tip t' = tip t \<and> map_of (headers t') = map_of (headers t)))"

lemma reached_ok_held:
  "reached_ok Y t \<Longrightarrow> c \<in> set (checkpoints t) \<Longrightarrow> cp_hash c \<notin> Y \<Longrightarrow> map_of (headers t) (cp_hash c) = Some x
   \<Longrightarrow> he_height x = cp_height c \<Longrightarrow> \<exists>r. reached_checkpoint t = Some r \<and> cp_height c \<le> r"
  unfolding reached_ok_def by blast

lemma reached_ok_block:
  "reached_ok Y t \<Longrightarrow> reached_checkpoint t = Some r \<Longrightarrow>
     \<exists>c \<in> set (checkpoints t). cp_height c = r \<and> (\<exists>e. map_of (headers t) (cp_hash c) = Some e \<and> he_height e = r)"
  unfolding reached_ok_def by blast

lemma reached_ok_unique:
  "reached_ok Y t \<Longrightarrow> reached_checkpoint t = Some r \<Longrightarrow> map_of (headers t) h = Some e \<Longrightarrow> map_of (headers t) h' = Some e'
   \<Longrightarrow> he_height e = he_height e' \<Longrightarrow> he_height e \<le> r \<Longrightarrow> h = h'"
  unfolding reached_ok_def by blast

lemma reached_okI:
  assumes "\<And>r. reached_checkpoint t = Some r \<Longrightarrow>
      \<exists>c \<in> set (checkpoints t). cp_height c = r \<and> (\<exists>e. map_of (headers t) (cp_hash c) = Some e \<and> he_height e = r)"
    and "\<And>r h e h' e'. reached_checkpoint t = Some r \<Longrightarrow> map_of (headers t) h = Some e \<Longrightarrow> map_of (headers t) h' = Some e'
      \<Longrightarrow> he_height e = he_height e' \<Longrightarrow> he_height e \<le> r \<Longrightarrow> h = h'"
    and "\<And>c e. c \<in> set (checkpoints t) \<Longrightarrow> cp_hash c \<notin> Y \<Longrightarrow> map_of (headers t) (cp_hash c) = Some e
      \<Longrightarrow> he_height e = cp_height c \<Longrightarrow> \<exists>r. reached_checkpoint t = Some r \<and> cp_height c \<le> r"
  shows "reached_ok Y t"
  using assms unfolding reached_ok_def by blast

lemma settled_inv:
  assumes inv: "tree_inv X {h} C t" and h: "map_of (headers t) h = Some e" "he_height e = n"
    and r: "\<forall>r. reached_checkpoint t = Some r \<longrightarrow> r < n"
    and c: "c \<in> set (checkpoints t)" "cp_height c = n" "cp_hash c = h"
    and ks: "descends (headers t) ks" "hd ks = h" "length ks = n + 1"
    and p: "hash_order ho" "settled (t\<lparr>reached_checkpoint := Some n\<rparr>) (prune_headers ho n ks (headers t)) t'"
  shows "tree_inv X {} C t'" "map_of (headers t') h = Some e" "noted n t t'"
proof -
  have wf: "wf_headers C (headers t)" using inv by (simp add: tree_inv_def)
  let ?hs = "prune_headers ho n ks (headers t)"
  note pr = prune_headers_props [OF p(1) wf ks(1,3)]
  have wf': "wf_headers C ?hs" by (rule wf_headers_prune [OF p(1) wf ks(1,3)])
  have t': "headers t' = ?hs" "checkpoints t' = checkpoints t" "reached_checkpoint t' = Some n"
    using p(2) by (auto simp: settled_def)
  have "h \<in> set ks" using ks(2,3) by (metis hd_in_set list.size(3) Zero_not_Suc Suc_eq_plus1)
  then show h': "map_of (headers t') h = Some e" using pr(3) h(1) t'(1) by simp
  note get = map_le_get [OF pr(2)]
  have "tip_ok t'"
    using inv p(2) get by (auto simp: tip_ok_def settled_def tree_inv_def contains_key_def)
  moreover have "heaviest_but X t'"
    using inv p(2) get unfolding heaviest_but_def settled_def tree_inv_def by fastforce
  moreover have "checkpoints_obeyed t'"
    using inv t'(1,2) get by (auto simp: checkpoints_obeyed_def tree_inv_def)
  moreover have "reached_ok {} t'"
  proof -
    have "k = k'" if "map_of ?hs k = Some x" "map_of ?hs k' = Some x'" "he_height x = he_height x'" "he_height x \<le> n" for k x k' x'
      using descends_same_height [OF ks(1) pr(4) [OF that(1)] pr(4) [OF that(2)] get [OF that(1)] get [OF that(2)]] that(3,4)
      by simp
    moreover have "cp_height d \<le> n"
      if d: "d \<in> set (checkpoints t)" "map_of ?hs (cp_hash d) = Some x" "he_height x = cp_height d" for d x
    proof (cases "cp_hash d = h")
      case True
      then show ?thesis using d(2,3) get h by auto
    next
      case False
      then obtain r where "reached_checkpoint t = Some r" "cp_height d \<le> r"
        using reached_ok_held [of "{h}" t d x] inv d get [OF d(2)] by (auto simp: tree_inv_def)
      then show ?thesis using r by auto
    qed
    ultimately show ?thesis using c h' h(2) t' unfolding reached_ok_def by auto
  qed
  moreover have "valid_headers C ?hs" using valid_headers_sub [OF wf' pr(2)] inv by (simp add: tree_inv_def)
  ultimately show "tree_inv X {} C t'" using wf' t' inv by (simp add: tree_inv_def)
  show "noted n t t'" using p(2) t' pr(2) by (auto simp: noted_def settled_def)
qed

lemma note_checkpoint_ok:
  assumes "hash_order ho" "tree_inv X {h} C t" "map_of (headers t) h = Some e" "he_height e = n"
    and r: "\<forall>r. reached_checkpoint t = Some r \<longrightarrow> r < n"
  shows "\<exists>t'. note_checkpoint ho h n t = Some t' \<and> tree_inv X {} C t' \<and> map_of (headers t') h = Some e \<and> noted n t t'"
proof (cases "\<exists>c \<in> set (checkpoints t). cp_height c = n \<and> cp_hash c = h")
  case False
  then have "note_checkpoint ho h n t = Some t" by (auto simp: note_checkpoint_def list_ex_iff)
  moreover have "cp_hash c \<noteq> h"
    if "c \<in> set (checkpoints t)" "map_of (headers t) (cp_hash c) = Some x" "he_height x = cp_height c" for c x
    using that False assms(3,4) by auto
  then have "reached_ok {} t"
    using assms(2) unfolding tree_inv_def reached_ok_def by simp
  ultimately show ?thesis using assms(2,3) by (auto simp: tree_inv_def noted_def)
next
  case True
  then obtain c where c: "c \<in> set (checkpoints t)" "cp_height c = n" "cp_hash c = h" by auto
  let ?t = "t\<lparr>reached_checkpoint := Some n\<rparr>"
  have wf: "wf_headers C (headers ?t)" and tip: "tip_ok ?t" using assms(2) by (simp_all add: tree_inv_def tip_ok_def)
  obtain ks where ks: "keep_walk (headers t) h [] = Some ks" "descends (headers t) ks" "hd ks = h" "length ks = n + 1"
    using walks_descend [OF wf, of h e "[]"] assms(3,4) by auto
  have find: "find (\<lambda>x. cp_height x = n) (checkpoints ?t) = Some c"
    using find_checkpoint [OF _ c(1)] assms(2) c(2) by (simp add: tree_inv_def)
  obtain k t' where t': "prune_below_checkpoint ho ?t = Some (k, t')" "settled ?t (prune_headers ho n ks (headers ?t)) t'"
    using prune_below_checkpoint_settles [OF assms(1) wf tip _ find] ks c(3) by auto
  have "\<not> (case reached_checkpoint t of None \<Rightarrow> False | Some r \<Rightarrow> n \<le> r)" using r by (auto split: option.splits)
  moreover have "list_ex (\<lambda>c. cp_height c = n \<and> cp_hash c = h) (checkpoints t)" using True by (simp add: list_ex_iff)
  ultimately have "note_checkpoint ho h n t = Some t'" using t'(1) by (simp add: note_checkpoint_def)
  then show ?thesis using settled_inv [OF assms(2-5) c ks(2-4) assms(1)] t'(2) by auto
qed

end
