(* ===== verification/Header_Batch.thy ===== *)
theory Header_Batch
  imports Header_Insert
begin

text \<open>
  One header, a batch, and the construction of a tree: each returns normally on a tree that satisfies
  the invariant and gives one that does, and after a batch the best chain is the path of the tip.
\<close>

section \<open>One header\<close>

text \<open>The accepted header in the tree, before it is weighed and noted.\<close>

definition attached :: "chain \<Rightarrow> header \<Rightarrow> header_entry \<Rightarrow> tree \<Rightarrow> tree" where
  "attached C hdr p t =
     t\<lparr>headers := AList.update (c_hash C hdr)
          \<lparr>he_header = hdr, he_height = he_height p + 1, he_work = he_work p + c_work C hdr\<rparr> (headers t),
       recoveries := AList.delete (c_hash C hdr) (recoveries t)\<rparr>"

lemma validate_header_Inr:
  assumes "validate_header C t hdr n p = Inr u"
  shows "c_target C hdr \<le> c_max_target C"
    "\<And>c. find (\<lambda>c. cp_height c = n) (checkpoints t) = Some c \<Longrightarrow> cp_hash c = c_hash C hdr"
    "\<And>r. reached_checkpoint t = Some r \<Longrightarrow> r < n"
    "\<exists>bits. expected_bits C (headers t) hdr n p = Some bits \<and> c_pow_ok C bits hdr"
  using assms by (auto simp: validate_header_def not_less split: if_splits option.splits)

lemma attached_get:
  "map_of (headers (attached C hdr p t)) = (map_of (headers t))(c_hash C hdr \<mapsto>
      \<lparr>he_header = hdr, he_height = he_height p + 1, he_work = he_work p + c_work C hdr\<rparr>)"
  by (simp add: attached_def hm_simps)

lemma attached_fields [simp]:
  "reached_checkpoint (attached C hdr p t) = reached_checkpoint t" "checkpoints (attached C hdr p t) = checkpoints t"
  "tip (attached C hdr p t) = tip t" "tip_height (attached C hdr p t) = tip_height t"
  "tip_work (attached C hdr p t) = tip_work t" "best_chain (attached C hdr p t) = best_chain t"
  "refused (attached C hdr p t) = refused t"
  by (simp_all add: attached_def)

lemma attached_reached:
  assumes "reached_ok {} t" "map_of (headers t) (c_hash C hdr) = None"
    and r: "\<And>r. reached_checkpoint t = Some r \<Longrightarrow> r < he_height p + 1"
  shows "reached_ok {c_hash C hdr} (attached C hdr p t)"
proof (rule reached_okI)
  let ?t = "attached C hdr p t"
  have low: "map_of (headers t) k = Some e"
    if "map_of (headers ?t) k = Some e" "he_height e \<le> r" "reached_checkpoint t = Some r" for k e r
    using that r [OF that(3)] by (auto simp: attached_get split: if_splits)
  {
    fix x assume "reached_checkpoint ?t = Some x"
    then show "\<exists>c \<in> set (checkpoints ?t). cp_height c = x \<and> (\<exists>e. map_of (headers ?t) (cp_hash c) = Some e \<and> he_height e = x)"
      using reached_ok_block [OF assms(1), of x] assms(2) by (fastforce simp: attached_get)
  next
    fix x k e k' e'
    assume "reached_checkpoint ?t = Some x" "map_of (headers ?t) k = Some e" "map_of (headers ?t) k' = Some e'"
      "he_height e = he_height e'" "he_height e \<le> x"
    then show "k = k'" using reached_ok_unique [OF assms(1)] low by (metis attached_fields(1))
  next
    fix c e assume "c \<in> set (checkpoints ?t)" "cp_hash c \<notin> {c_hash C hdr}" "map_of (headers ?t) (cp_hash c) = Some e"
      "he_height e = cp_height c"
    then show "\<exists>r. reached_checkpoint ?t = Some r \<and> cp_height c \<le> r"
      using reached_ok_held [OF assms(1), of c e] by (simp add: attached_get)
  }
qed

lemma attached_inv:
  assumes "tree_ok C t" "map_of (headers t) (c_hash C hdr) = None" "map_of (headers t) (prev_blockhash hdr) = Some p"
    and v: "validate_header C t hdr (he_height p + 1) p = Inr ()"
  shows "tree_inv {c_hash C hdr} {c_hash C hdr} C (attached C hdr p t)"
    "map_of (headers t) \<subseteq>\<^sub>m map_of (headers (attached C hdr p t))"
proof -
  let ?h = "c_hash C hdr" and ?t = "attached C hdr p t"
  have get: "map_of (headers ?t) = (map_of (headers t))(?h \<mapsto>
      \<lparr>he_header = hdr, he_height = he_height p + 1, he_work = he_work p + c_work C hdr\<rparr>)"
    by (rule attached_get)
  show sub: "map_of (headers t) \<subseteq>\<^sub>m map_of (headers ?t)" using assms(2) by (auto simp: get map_le_def)
  have inv: "tree_inv {} {} C t" using assms(1) by (simp add: tree_ok_def)
  have "wf_headers C (headers ?t)"
    using wf_headers_insert [of C "headers t" hdr p] inv assms(2,3) by (simp add: attached_def tree_inv_def)
  moreover have "valid_headers C (headers ?t)"
    using inv valid_entry_mono [OF sub] validate_header_Inr(1,4) [OF v] expected_bits_mono [OF sub] map_le_get [OF sub assms(3)]
    by (auto simp: valid_headers_def tree_inv_def get) (auto simp: valid_entry_def get)
  moreover have "tip_ok ?t"
    using inv assms(2) by (auto simp: tree_inv_def tip_ok_def get attached_def hm_simps)
  moreover have "heaviest_but {?h} ?t" using inv by (auto simp: tree_inv_def heaviest_but_def get)
  moreover have "checkpoints_obeyed ?t"
  proof -
    have "cp_hash c = ?h" if "c \<in> set (checkpoints t)" "he_height p + 1 = cp_height c" for c
      using validate_header_Inr(2) [OF v] find_checkpoint [of "checkpoints t" c] inv that by (simp add: tree_inv_def)
    then show ?thesis using inv by (auto simp: tree_inv_def checkpoints_obeyed_def get attached_def hm_simps)
  qed
  moreover have "reached_ok {?h} ?t"
    using attached_reached [OF _ assms(2) validate_header_Inr(3) [OF v]] inv by (simp add: tree_inv_def)
  ultimately show "tree_inv {?h} {?h} C ?t" using inv by (simp add: tree_inv_def attached_def)
qed

text \<open>Whether and how far checkpoints have been reached, as a number that only grows.\<close>

definition reach :: "tree \<Rightarrow> nat" where
  "reach t = (case reached_checkpoint t of None \<Rightarrow> 0 | Some r \<Rightarrow> r + 1)"

text \<open>
  What an insertion may do to the tip and the best chain: leave both, make the new header the tip, or,
  after a prune, leave a best chain that fits the tip. Without a prune nothing is removed.
\<close>

definition insert_effect :: "chain \<Rightarrow> header \<Rightarrow> tree \<Rightarrow> tree \<Rightarrow> bool" where
  "insert_effect C hdr t t' \<longleftrightarrow>
     reach t \<le> reach t'
     \<and> (reach t = reach t' \<longrightarrow> map_of (headers t) \<subseteq>\<^sub>m map_of (headers t'))
     \<and> (tip t' = tip t \<and> best_chain t' = best_chain t \<and> map_of (headers t) \<subseteq>\<^sub>m map_of (headers t')
        \<or> tip t' = c_hash C hdr \<and> map_of (headers t) (c_hash C hdr) = None
        \<or> best_ok t')
     \<and> checkpoints t' = checkpoints t"

lemma insert_effect_refl [simp]: "insert_effect C hdr t t"
  by (simp add: insert_effect_def)

lemma insert_effect_refused [simp]: "insert_effect C hdr t (t\<lparr>refused := r\<rparr>)"
  by (simp add: insert_effect_def reach_def)

lemma tree_ok_refused [simp]: "tree_ok C (t\<lparr>refused := r\<rparr>) = tree_ok C t"
  by (simp add: tree_ok_def tree_inv_def tip_ok_def heaviest_but_def checkpoints_obeyed_def reached_ok_def)

definition weighed :: "block_hash \<Rightarrow> nat \<Rightarrow> nat \<Rightarrow> tree \<Rightarrow> tree" where
  "weighed h n work t =
     (if tip_work t < work then t\<lparr>tip := h, tip_height := n, tip_work := work\<rparr> else t)\<lparr>dirty := True\<rparr>"

lemma weighed_fields [simp]:
  "headers (weighed h n w t) = headers t" "best_chain (weighed h n w t) = best_chain t"
  "checkpoints (weighed h n w t) = checkpoints t" "reached_checkpoint (weighed h n w t) = reached_checkpoint t"
  "refused (weighed h n w t) = refused t"
  by (simp_all add: weighed_def)

lemma weighed_inv:
  assumes "tree_inv {h} {} C t" "map_of (headers t) h = Some e"
  shows "tree_ok C (weighed h (he_height e) (he_work e) t)"
proof -
  let ?t = "weighed h (he_height e) (he_work e) t"
  have "tip_work t \<le> tip_work ?t" "he_work e \<le> tip_work ?t" by (auto simp: weighed_def)
  moreover have "he_work x \<le> tip_work t" if "map_of (headers t) k = Some x" "k \<noteq> h" for k x
    using assms(1) that unfolding tree_inv_def heaviest_but_def by blast
  ultimately have "he_work x \<le> tip_work ?t" if "map_of (headers t) k = Some x" for k x
    using that assms(2) by (metis option.inject order_trans)
  then have "heaviest_but {} ?t" by (simp add: heaviest_but_def)
  moreover have "tip_ok ?t" using assms by (auto simp: tree_inv_def tip_ok_def weighed_def)
  moreover have "checkpoints_obeyed ?t = checkpoints_obeyed t" "reached_ok {} ?t = reached_ok {} t"
    by (simp_all add: checkpoints_obeyed_def reached_ok_def)
  ultimately show ?thesis using assms(1) by (simp add: tree_ok_def tree_inv_def)
qed

lemma weighed_tip: "tip (weighed h n w t) = tip t \<or> tip (weighed h n w t) = h"
  by (simp add: weighed_def)

lemma insert_inner_accepts:
  assumes "hash_order ho" "tree_ok C t" "map_of (headers t) (c_hash C hdr) = None"
    "map_of (headers t) (prev_blockhash hdr) = Some p" "validate_header C t hdr (he_height p + 1) p = Inr ()"
  shows "\<exists>t'. insert_inner ho C hdr t = Some (Inr True, t') \<and> tree_ok C t' \<and> insert_effect C hdr t t'
    \<and> map_of (headers t') (c_hash C hdr) =
        Some \<lparr>he_header = hdr, he_height = he_height p + 1, he_work = he_work p + c_work C hdr\<rparr>"
proof -
  let ?h = "c_hash C hdr" and ?n = "he_height p + 1" and ?w = "he_work p + c_work C hdr"
  let ?e = "\<lparr>he_header = hdr, he_height = ?n, he_work = ?w\<rparr>"
  note a = attached_inv [OF assms(2-5)]
  have e: "map_of (headers (attached C hdr p t)) ?h = Some ?e" by (simp add: attached_get)
  have r: "\<forall>r. reached_checkpoint (attached C hdr p t) = Some r \<longrightarrow> r < ?n"
    using validate_header_Inr(3) [OF assms(5)] by simp
  obtain t1 where t1: "note_checkpoint ho ?h ?n (attached C hdr p t) = Some t1" "tree_inv {?h} {} C t1"
    "map_of (headers t1) ?h = Some ?e" "noted ?n (attached C hdr p t) t1"
    using note_checkpoint_ok [OF assms(1) a(1) e _ r] by auto
  have ins: "insert_inner ho C hdr t = Some (Inr True, weighed ?h ?n ?w t1)"
    using assms(3-5) t1(1) by (simp add: insert_inner_def Let_def contains_key_def attached_def weighed_def)
  have "tree_ok C (weighed ?h ?n ?w t1)" using weighed_inv [OF t1(2,3)] by simp
  moreover have "insert_effect C hdr t (weighed ?h ?n ?w t1)"
  proof (cases "tip (weighed ?h ?n ?w t1) = ?h")
    case True
    have "reach t \<le> reach t1 \<and> (reach t = reach t1 \<longrightarrow> t1 = attached C hdr p t)"
      using t1(4) r by (auto simp: noted_def reach_def split: option.splits)
    then show ?thesis
      using True assms(3) a(2) t1(4) by (auto simp: insert_effect_def reach_def noted_def)
  next
    case False
    then have tip: "weighed ?h ?n ?w t1 = t1\<lparr>dirty := True\<rparr>" by (auto simp: weighed_def split: if_splits)
    show ?thesis unfolding tip
      using t1(4) r a(2) by (auto simp: insert_effect_def reach_def noted_def best_ok_def split: option.splits)
  qed
  ultimately show ?thesis using ins t1(3) by auto
qed

lemma insert_inner_known:
  "contains_key (headers t) (c_hash C hdr) \<Longrightarrow> insert_inner ho C hdr t = Some (Inr False, t)"
  by (simp add: insert_inner_def)

lemma insert_inner_refuses:
  assumes "map_of (headers t) (c_hash C hdr) = None"
    and "map_of (headers t) (prev_blockhash hdr) = None \<or>
      (\<exists>p e. map_of (headers t) (prev_blockhash hdr) = Some p \<and> validate_header C t hdr (he_height p + 1) p = Inl e)"
  shows "\<exists>e r. insert_inner ho C hdr t = Some (Inl e, t\<lparr>refused := r\<rparr>)"
proof (cases "map_of (headers t) (prev_blockhash hdr)")
  case None
  have "t = t\<lparr>refused := refused t\<rparr>" by simp
  then have "\<exists>r. t = t\<lparr>refused := r\<rparr>" by blast
  with None show ?thesis using assms(1)
    by (cases "rejection_of (refused t) (prev_blockhash hdr)") (auto simp: insert_inner_def contains_key_def)
next
  case (Some p)
  then obtain e where "validate_header C t hdr (he_height p + 1) p = Inl e" using assms(2) by auto
  then show ?thesis using Some assms(1) by (auto simp: insert_inner_def contains_key_def)
qed

lemma insert_inner_cases:
  assumes "hash_order ho" "tree_ok C t"
  obtains (known) "contains_key (headers t) (c_hash C hdr)" "insert_inner ho C hdr t = Some (Inr False, t)"
  | (refused) e r where "insert_inner ho C hdr t = Some (Inl e, t\<lparr>refused := r\<rparr>)"
  | (accepted) p t' where "insert_inner ho C hdr t = Some (Inr True, t')" "tree_ok C t'" "insert_effect C hdr t t'"
      "map_of (headers t) (c_hash C hdr) = None" "map_of (headers t) (prev_blockhash hdr) = Some p"
      "validate_header C t hdr (he_height p + 1) p = Inr ()"
      "map_of (headers t') (c_hash C hdr) =
        Some \<lparr>he_header = hdr, he_height = he_height p + 1, he_work = he_work p + c_work C hdr\<rparr>"
proof (cases "map_of (headers t) (c_hash C hdr)")
  case None
  consider (bad) "map_of (headers t) (prev_blockhash hdr) = None \<or>
      (\<exists>p e. map_of (headers t) (prev_blockhash hdr) = Some p \<and> validate_header C t hdr (he_height p + 1) p = Inl e)"
    | (good) p where "map_of (headers t) (prev_blockhash hdr) = Some p" "validate_header C t hdr (he_height p + 1) p = Inr ()"
    by (metis (full_types) not_None_eq obj_sumE unit.exhaust)
  then show ?thesis
  proof cases
    case bad
    show ?thesis using insert_inner_refuses [OF None bad, of ho] refused by blast
  next
    case (good p)
    show ?thesis using insert_inner_accepts [OF assms None good] accepted None good by blast
  qed
qed (use known insert_inner_known [of t C hdr ho] in \<open>simp add: contains_key_def\<close>)

lemma insert_inner_ok:
  assumes "hash_order ho" "tree_ok C t"
  shows "\<exists>res t'. insert_inner ho C hdr t = Some (res, t') \<and> tree_ok C t' \<and> insert_effect C hdr t t'"
  by (rule insert_inner_cases [OF assms, of hdr]) (use assms(2) in \<open>auto\<close>)

section \<open>A batch\<close>

lemma best_ok_mono: "best_ok t \<Longrightarrow> tip t' = tip t \<Longrightarrow> best_chain t' = best_chain t
    \<Longrightarrow> map_of (headers t) \<subseteq>\<^sub>m map_of (headers t') \<Longrightarrow> best_ok t'"
proof -
  have "descends hs ks \<Longrightarrow> map_of hs \<subseteq>\<^sub>m map_of hs' \<Longrightarrow> descends hs' ks" for hs hs' ks
    by (induction hs ks rule: descends.induct) (auto dest: map_le_get)
  then show "best_ok t \<Longrightarrow> tip t' = tip t \<Longrightarrow> best_chain t' = best_chain t
    \<Longrightarrow> map_of (headers t) \<subseteq>\<^sub>m map_of (headers t') \<Longrightarrow> best_ok t'" by (auto simp: best_ok_def)
qed

text \<open>
  The loop against the tree \<open>t0\<close> it started from: as long as the tip is the one it started with, the best
  chain fits it. The starting tip cannot be inserted afresh while it is in the tree, and it leaves the
  tree only when a checkpoint is reached.
\<close>

definition batch_inv :: "chain \<Rightarrow> tree \<Rightarrow> tree \<Rightarrow> bool" where
  "batch_inv C t0 t \<longleftrightarrow>
     tree_ok C t \<and> checkpoints t = checkpoints t0 \<and> reach t0 \<le> reach t
     \<and> (reach t0 = reach t \<longrightarrow> map_of (headers t0) \<subseteq>\<^sub>m map_of (headers t))
     \<and> (tip t = tip t0 \<longrightarrow> best_ok t)"

lemma batch_inv_step:
  assumes "batch_inv C t0 t" "tree_ok C t'" "insert_effect C hdr t t'" "tree_ok C t0"
    and "c_hash C hdr \<noteq> tip t0 \<or> reach t' = reach t0"
  shows "batch_inv C t0 t'"
proof -
  have mono: "reach t0 \<le> reach t" "reach t \<le> reach t'" "checkpoints t' = checkpoints t0"
    using assms(1,3) by (auto simp: batch_inv_def insert_effect_def)
  have sub: "map_of (headers t0) \<subseteq>\<^sub>m map_of (headers t)" if "reach t = reach t0"
    using that assms(1) by (simp add: batch_inv_def)
  have sub': "map_of (headers t0) \<subseteq>\<^sub>m map_of (headers t')" if "reach t' = reach t0"
  proof (rule map_le_trans [OF sub])
    show "reach t = reach t0" using that mono by simp
    then show "map_of (headers t) \<subseteq>\<^sub>m map_of (headers t')" using that assms(3) by (simp add: insert_effect_def)
  qed
  have old: "\<exists>e. map_of (headers t0) (tip t0) = Some e" using assms(4) by (auto simp: tree_ok_def tree_inv_def tip_ok_def)
  have "best_ok t'" if tip: "tip t' = tip t0"
  proof -
    have "tip t' \<noteq> c_hash C hdr \<or> map_of (headers t) (c_hash C hdr) \<noteq> None"
    proof (cases "c_hash C hdr = tip t0")
      case True
      then have "reach t = reach t0" using assms(5) mono by simp
      then show ?thesis using True old map_le_get [OF sub] by force
    qed (use tip in simp)
    moreover have "best_ok t" if "tip t = tip t'" using that tip assms(1) by (simp add: batch_inv_def)
    ultimately show ?thesis
      using assms(3) best_ok_mono [of t t'] unfolding insert_effect_def by metis
  qed
  with mono sub' assms(2) show ?thesis by (auto simp: batch_inv_def)
qed

lemma insert_all_Cons:
  assumes "insert_inner ho C hdr t = Some (res, t1)"
  shows "\<exists>n1 err1. insert_all ho C (hdr # hdrs) n err t = insert_all ho C hdrs n1 err1 t1"
proof (cases res)
  case (Inr b)
  then show ?thesis using assms by (cases b) auto
qed (use assms in auto)

lemma insert_all_ok:
  assumes "hash_order ho" "tree_ok C t"
  shows "\<exists>n' err' t'. insert_all ho C hdrs n err t = Some (n', err', t') \<and> tree_ok C t' \<and> reach t \<le> reach t'
      \<and> (\<forall>t0. tree_ok C t0 \<longrightarrow> batch_inv C t0 t \<longrightarrow> tip t0 \<notin> c_hash C ` set hdrs \<or> reach t' = reach t0
           \<longrightarrow> batch_inv C t0 t')"
  using assms(2)
proof (induction hdrs arbitrary: n err t)
  case (Cons hdr hdrs)
  obtain res t1 where t1: "insert_inner ho C hdr t = Some (res, t1)" "tree_ok C t1" "insert_effect C hdr t t1"
    using insert_inner_ok [OF assms(1) Cons.prems, of hdr] by blast
  obtain n1 err1 where eq: "insert_all ho C (hdr # hdrs) n err t = insert_all ho C hdrs n1 err1 t1"
    using insert_all_Cons [OF t1(1)] by blast
  obtain n' err' t' where t': "insert_all ho C hdrs n1 err1 t1 = Some (n', err', t')" "tree_ok C t'" "reach t1 \<le> reach t'"
    "\<And>t0. tree_ok C t0 \<Longrightarrow> batch_inv C t0 t1 \<Longrightarrow> tip t0 \<notin> c_hash C ` set hdrs \<or> reach t' = reach t0
       \<Longrightarrow> batch_inv C t0 t'" using Cons.IH [OF t1(2)] by blast
  have le: "reach t \<le> reach t1" using t1(3) by (simp add: insert_effect_def)
  have "batch_inv C t0 t'"
    if "tree_ok C t0" "batch_inv C t0 t" "tip t0 \<notin> c_hash C ` set (hdr # hdrs) \<or> reach t' = reach t0" for t0
  proof (rule t'(4) [OF that(1)])
    have "reach t0 \<le> reach t" using that(2) by (simp add: batch_inv_def)
    then have "c_hash C hdr \<noteq> tip t0 \<or> reach t1 = reach t0" using that(3) le t'(3) by auto
    then show "batch_inv C t0 t1" by (rule batch_inv_step [OF that(2) t1(2,3) that(1)])
  qed (use that(3) in auto)
  with eq t' le show ?case by auto
qed auto

lemma insert_batch_ok:
  assumes "hash_order ho" "tree_ok C t"
  shows "\<exists>n err t'. insert_batch ho C hdrs t = Some (n, err, t') \<and> tree_ok C t' \<and> reach t \<le> reach t'
    \<and> (best_ok t \<longrightarrow> tip t \<notin> c_hash C ` set hdrs \<or> reach t' = reach t \<longrightarrow> best_ok t')"
proof -
  obtain n err t1 where t1: "insert_all ho C hdrs 0 None t = Some (n, err, t1)" "tree_ok C t1" "reach t \<le> reach t1"
    "\<And>t0. tree_ok C t0 \<Longrightarrow> batch_inv C t0 t \<Longrightarrow> tip t0 \<notin> c_hash C ` set hdrs \<or> reach t1 = reach t0
       \<Longrightarrow> batch_inv C t0 t1" using insert_all_ok [OF assms, of hdrs 0 None] by blast
  show ?thesis
  proof (cases "tip t1 = tip t")
    case True
    have "batch_inv C t t" if "best_ok t" using that assms(2) by (simp add: batch_inv_def)
    then have "best_ok t1" if "best_ok t" "tip t \<notin> c_hash C ` set hdrs \<or> reach t1 = reach t"
      using t1(4) [OF assms(2)] that True by (simp add: batch_inv_def)
    then show ?thesis using True t1 by (auto simp: insert_batch_def)
  next
    case False
    obtain e where "wf_headers C (headers t1)" "map_of (headers t1) (tip t1) = Some e"
      using t1(2) by (auto simp: tree_ok_def tree_inv_def tip_ok_def)
    from rebuild_best_chain_total [OF this] obtain ks where ks:
      "rebuild_best_chain t1 = Some (t1\<lparr>best_chain := rev ks\<rparr>)" "descends (headers t1) ks" "hd ks = tip t1" by blast
    let ?t = "t1\<lparr>best_chain := rev ks\<rparr>"
    have "tree_ok C ?t" using t1(2)
      by (simp add: tree_ok_def tree_inv_def tip_ok_def heaviest_but_def checkpoints_obeyed_def reached_ok_def)
    moreover have "best_ok ?t" "reach ?t = reach t1" using ks by (simp_all add: best_ok_def last_rev reach_def)
    moreover have "insert_batch ho C hdrs t = Some (n, err, ?t)" using False t1(1) ks(1) by (simp add: insert_batch_def)
    ultimately show ?thesis using t1(3) by auto
  qed
qed

end
