(* ===== verification/Header_Serve.thy ===== *)
theory Header_Serve
  imports Header_Batch
begin

text \<open>
  What the tree answers: the block locator it asks with, the headers it serves for a peer's
  locator, its chain tips, and whether a missing block should be asked for now.
\<close>

section \<open>Construction\<close>

lemma tree_new_inv:
  assumes "distinct (map cp_height cps)"
  shows "tree_inv {} {c_hash C (c_genesis C)} C ((tree_new C)\<lparr>checkpoints := sort_key cp_height cps\<rparr>)"
    "best_ok ((tree_new C)\<lparr>checkpoints := sort_key cp_height cps\<rparr>)"
proof -
  have "distinct (map cp_height (sort_key cp_height cps))"
    using assms by (simp add: distinct_map distinct_sort inj_on_def)
  moreover have "valid_headers C (headers (tree_new C))"
    by (auto simp: valid_headers_def valid_entry_def tree_new_def Let_def split: if_splits)
  ultimately show "tree_inv {} {c_hash C (c_genesis C)} C ((tree_new C)\<lparr>checkpoints := sort_key cp_height cps\<rparr>)"
    using wf_headers_new [of C]
    by (auto simp: tree_inv_def tree_new_def Let_def tip_ok_def heaviest_but_def checkpoints_obeyed_def
        reached_ok_def split: if_splits)
  show "best_ok ((tree_new C)\<lparr>checkpoints := sort_key cp_height cps\<rparr>)"
    by (simp add: best_ok_def tree_new_def Let_def)
qed

lemma with_checkpoints_ok:
  assumes "hash_order ho" "distinct (map cp_height cps)"
  shows "\<exists>t. with_checkpoints ho C cps = Some t \<and> tree_ok C t \<and> best_ok t"
proof -
  let ?t = "(tree_new C)\<lparr>checkpoints := sort_key cp_height cps\<rparr>"
  note new = tree_new_inv [OF assms(2), of C]
  have tip: "tip ?t = c_hash C (c_genesis C)" "reached_checkpoint ?t = None"
    "map_of (headers ?t) (c_hash C (c_genesis C)) =
      Some \<lparr>he_header = c_genesis C, he_height = 0, he_work = c_work C (c_genesis C)\<rparr>"
    by (simp_all add: tree_new_def Let_def)
  obtain t' where t': "note_checkpoint ho (c_hash C (c_genesis C)) 0 ?t = Some t'" "tree_inv {} {} C t'" "noted 0 ?t t'"
    using note_checkpoint_ok [OF assms(1) new(1) tip(3)] tip(2) by auto
  moreover have "best_ok t'" using t'(3) new(2) by (auto simp: noted_def intro: best_ok_mono)
  ultimately show ?thesis by (auto simp: with_checkpoints_def tip(1) tree_ok_def)
qed

section \<open>The best chain\<close>

lemma best_chain_facts:
  assumes "tree_ok C t" "best_ok t"
  shows "length (best_chain t) = tip_height t + 1"
    and "i < length (best_chain t) \<Longrightarrow> \<exists>e. map_of (headers t) (best_chain t ! i) = Some e \<and> he_height e = i"
    and "0 < i \<Longrightarrow> i < length (best_chain t) \<Longrightarrow>
      \<exists>e. map_of (headers t) (best_chain t ! i) = Some e \<and> prev_blockhash (he_header e) = best_chain t ! (i - 1)"
    and "best_chain t ! 0 = c_hash C (c_genesis C)"
    and "distinct (best_chain t)"
proof -
  let ?bc = "best_chain t" and ?ks = "rev (best_chain t)"
  have d: "descends (headers t) ?ks" "last ?bc = tip t" using assms(2) by (auto simp: best_ok_def)
  have ne: "?bc \<noteq> []" using d(1) by auto
  show nth: "\<exists>e. map_of (headers t) (?bc ! i) = Some e \<and> he_height e = i" if i: "i < length ?bc" for i
    using descends_height [OF d(1), of "length ?bc - 1 - i"] i by (simp add: rev_nth)
  have "\<exists>e. map_of (headers t) (tip t) = Some e \<and> he_height e = length ?bc - 1"
    using nth [of "length ?bc - 1"] d(2) ne by (simp add: last_conv_nth)
  then show "length ?bc = tip_height t + 1"
    using assms(1) ne by (cases ?bc) (auto simp: tree_ok_def tree_inv_def tip_ok_def)
  show "\<exists>e. map_of (headers t) (?bc ! i) = Some e \<and> prev_blockhash (he_header e) = ?bc ! (i - 1)"
    if i: "0 < i" "i < length ?bc"
    using descends_link [OF d(1), of "length ?bc - 1 - i"] i
    by (simp add: rev_nth Suc_diff_Suc [symmetric]) (simp add: Suc_diff_Suc numeral_2_eq_2)
  show "?bc ! 0 = c_hash C (c_genesis C)"
    using nth [of 0] ne assms(1) by (auto simp: tree_ok_def tree_inv_def wf_headers_def wf_entry_def)
  show "distinct ?bc" unfolding distinct_conv_nth using nth by (metis option.inject)
qed

section \<open>The locator\<close>

text \<open>The heights the locator visits.\<close>

function locator_heights :: "nat \<Rightarrow> nat \<Rightarrow> nat list" where
  "locator_heights height step =
     height # (if height = 0 \<or> step = 0 then []
               else locator_heights (height - step) (if step < 16 then step + 1 else step * 2))"
  by pat_completeness auto
termination by (relation "measure fst") auto

declare locator_heights.simps [simp del]

lemma locator_loop_heights:
  "height < length bc \<Longrightarrow> locator_loop bc height step acc = acc @ map (nth bc) (locator_heights height step)"
proof (induction bc height step acc rule: locator_loop.induct)
  case (1 bc height step acc)
  then show ?case
    by (subst locator_loop.simps, subst locator_heights.simps) (auto simp: Let_def)
qed

lemma locator_heights_shape:
  "hd (locator_heights height step) = height"
  "0 < step \<Longrightarrow> last (locator_heights height step) = 0"
  "\<forall>h \<in> set (locator_heights height step). h \<le> height"
  "sorted_wrt (>) (locator_heights height step)"
proof -
  show "hd (locator_heights height step) = height" by (subst locator_heights.simps) simp
  show "0 < step \<Longrightarrow> last (locator_heights height step) = 0"
  proof (induction height step rule: locator_heights.induct)
    case (1 height step)
    then show ?case
      by (subst locator_heights.simps) (auto simp: locator_heights.simps [of "height - step"])
  qed
  have "(\<forall>h \<in> set (locator_heights height step). h \<le> height) \<and> sorted_wrt (>) (locator_heights height step)"
  proof (induction height step rule: locator_heights.induct)
    case (1 height step)
    show ?case
    proof (cases "height = 0 \<or> step = 0")
      case True
      then show ?thesis by (simp add: locator_heights.simps [of height step])
    next
      case False
      let ?rest = "locator_heights (height - step) (if step < 16 then step + 1 else step * 2)"
      have eq: "locator_heights height step = height # ?rest" using False by (subst locator_heights.simps) simp
      have "\<forall>h \<in> set ?rest. h < height" "sorted_wrt (>) ?rest" using 1 [OF False] False by fastforce+
      then show ?thesis unfolding eq by (simp add: less_imp_le)
    qed
  qed
  then show "\<forall>h \<in> set (locator_heights height step). h \<le> height" "sorted_wrt (>) (locator_heights height step)"
    by auto
qed

text \<open>Sixteen small steps and then doubling: the locator of any height below \<open>2 ^ 32\<close> has at most 45 hashes.\<close>

lemma locator_heights_doubling:
  "16 \<le> step \<Longrightarrow> height \<le> step * (2 ^ n - 1) \<Longrightarrow> length (locator_heights height step) \<le> n + 1"
proof (induction n arbitrary: height step)
  case (Suc n)
  have "height - step \<le> (step * 2) * (2 ^ n - 1)" using Suc.prems(2) by (simp add: algebra_simps diff_mult_distrib2)
  with Suc.IH [of "step * 2" "height - step"] Suc.prems(1) show ?case by (subst locator_heights.simps) auto
qed (subst locator_heights.simps, simp)

lemma locator_heights_small:
  "0 < step \<Longrightarrow> step \<le> 16 \<Longrightarrow> height \<le> 16 * (2 ^ n - 1) \<Longrightarrow> length (locator_heights height step) \<le> (16 - step) + n + 1"
proof (induction "16 - step" arbitrary: height step)
  case 0
  then show ?case using locator_heights_doubling [of step height n] by simp
next
  case (Suc k)
  have "length (locator_heights (height - step) (step + 1)) \<le> (16 - (step + 1)) + n + 1"
    by (rule Suc.hyps(1)) (use Suc.hyps(2) Suc.prems in auto)
  with Suc show ?case by (subst locator_heights.simps) auto
qed

lemma build_locator_spec:
  assumes "tree_ok C t" "best_ok t" "tip_height t < 2 ^ 32"
  obtains hs where "build_locator t = Some (map (nth (best_chain t)) hs)" "hd hs = tip_height t" "last hs = 0"
    "sorted_wrt (>) hs" "\<forall>h \<in> set hs. h \<le> tip_height t" "hs \<noteq> []" "length hs \<le> 45"
proof -
  let ?hs = "locator_heights (tip_height t) 1"
  note bc = best_chain_facts [OF assms(1,2)]
  have loop: "locator_loop (best_chain t) (tip_height t) 1 [] = map (nth (best_chain t)) ?hs"
    using locator_loop_heights [of "tip_height t" "best_chain t" 1 "[]"] bc(1) by simp
  have ne: "?hs \<noteq> []" by (subst locator_heights.simps) simp
  obtain g gs where g: "best_chain t = g # gs" using bc(1) by (cases "best_chain t") auto
  have "last (map (nth (best_chain t)) ?hs) = g"
    using ne locator_heights_shape(2) [of 1 "tip_height t"] g by (simp add: last_map)
  then have "build_locator t = Some (map (nth (best_chain t)) ?hs)"
    using loop ne g by (simp add: build_locator_def)
  moreover have "tip_height t \<le> 16 * (2 ^ 29 - 1)" using assms(3) by simp
  then have "length ?hs \<le> 45" using locator_heights_small [of 1 "tip_height t" 29] by simp
  ultimately show ?thesis using that [of ?hs] locator_heights_shape ne by simp
qed

section \<open>Serving headers\<close>

lemma serve_headers_spec:
  assumes "\<forall>h \<in> set hs. map_of m h \<noteq> None"
  shows "\<exists>out. serve_headers m stop hs = Some out \<and> length out \<le> length hs
    \<and> out = map (\<lambda>h. he_header (the (map_of m h))) (take (length out) hs)
    \<and> (stop = 0 \<or> stop \<notin> set hs \<longrightarrow> length out = length hs)
    \<and> (stop \<noteq> 0 \<longrightarrow> stop \<notin> set (take (length out - 1) hs))"
  using assms
proof (induction hs)
  case (Cons h hs)
  obtain e where e: "map_of m h = Some e" using Cons.prems by auto
  obtain out where out: "serve_headers m stop hs = Some out" "length out \<le> length hs"
    "out = map (\<lambda>h. he_header (the (map_of m h))) (take (length out) hs)"
    "stop = 0 \<or> stop \<notin> set hs \<longrightarrow> length out = length hs" "stop \<noteq> 0 \<longrightarrow> stop \<notin> set (take (length out - 1) hs)"
    using Cons by auto
  show ?case
  proof (cases "stop \<noteq> 0 \<and> h = stop")
    case True
    then show ?thesis using e by auto
  next
    case False
    then have "serve_headers m stop (h # hs) = Some (he_header e # out)" using e out(1) by auto
    moreover have "stop \<noteq> 0 \<longrightarrow> stop \<notin> set (take (length out) (h # hs))"
      using False out(5) by (cases out) auto
    ultimately show ?thesis using e out(2-4) by auto
  qed
qed simp

lemma locator_start_bounds:
  assumes "tree_ok C t" "best_ok t"
  shows "1 \<le> locator_start t loc" "locator_start t loc \<le> length (best_chain t)"
    and "\<forall>h \<in> set loc. h \<notin> set (best_chain t) \<Longrightarrow> locator_start t loc = 1"
    and "locator_start t loc = 1 \<or> best_chain t ! (locator_start t loc - 1) \<in> set loc"
proof -
  let ?P = "\<lambda>h. case map_of (headers t) h of None \<Rightarrow> False
    | Some e \<Rightarrow> he_height e < length (best_chain t) \<and> best_chain t ! he_height e = h"
  have len: "1 \<le> length (best_chain t)" using best_chain_facts(1) [OF assms] by simp
  have "1 \<le> locator_start t loc \<and> locator_start t loc \<le> length (best_chain t)
    \<and> (locator_start t loc = 1 \<or> best_chain t ! (locator_start t loc - 1) \<in> set loc)
    \<and> ((\<forall>h \<in> set loc. h \<notin> set (best_chain t)) \<longrightarrow> locator_start t loc = 1)"
  proof (cases "find ?P loc")
    case None
    then show ?thesis using len by (simp add: locator_start_def)
  next
    case (Some h)
    then have "?P h" "h \<in> set loc" by (auto simp: find_Some_iff)
    then obtain e where "map_of (headers t) h = Some e" "he_height e < length (best_chain t)"
      "best_chain t ! he_height e = h" by (auto split: option.splits)
    moreover from this have "h \<in> set (best_chain t)" by (metis nth_mem)
    ultimately show ?thesis using Some \<open>h \<in> set loc\<close> by (auto simp: locator_start_def)
  qed
  then show "1 \<le> locator_start t loc" "locator_start t loc \<le> length (best_chain t)"
    "\<forall>h \<in> set loc. h \<notin> set (best_chain t) \<Longrightarrow> locator_start t loc = 1"
    "locator_start t loc = 1 \<or> best_chain t ! (locator_start t loc - 1) \<in> set loc" by auto
qed

section \<open>Chain tips\<close>

text \<open>
  The walk from a block to the best chain ends, after as many steps as there are blocks on its branch
  that the best chain does not have.
\<close>

lemma branch_walk_spec:
  assumes "tree_ok C t" "best_ok t" "map_of (headers t) h = Some e"
  shows "\<exists>k anc. branch_walk (headers t) (best_chain t) (he_height e) h len = Some (len + k)
    \<and> k \<le> he_height e \<and> walk_back (headers t) h k = Some anc
    \<and> c_hash C (he_header anc) = best_chain t ! (he_height e - k) \<and> he_height e - k < length (best_chain t)
    \<and> (\<forall>j < k. \<forall>x. walk_back (headers t) h j = Some x \<longrightarrow> c_hash C (he_header x) \<notin> set (best_chain t))"
  using assms(3)
proof (induction "he_height e" arbitrary: h e len)
  case 0
  have wf: "wf_headers C (headers t)" using assms(1) by (simp add: tree_ok_def tree_inv_def)
  have "h = c_hash C (c_genesis C)" "h = c_hash C (he_header e)"
    using 0 wf by (auto simp: wf_headers_def wf_entry_def)
  then have "0 < length (best_chain t) \<and> best_chain t ! 0 = h"
    using best_chain_facts(1,4) [OF assms(1,2)] by simp
  then show ?case using 0 \<open>h = c_hash C (he_header e)\<close>
    by (intro exI [where x = 0] exI [where x = e]) (simp add: branch_walk.simps [of _ _ 0])
next
  case (Suc n)
  have wf: "wf_headers C (headers t)" using assms(1) by (simp add: tree_ok_def tree_inv_def)
  have he: "h = c_hash C (he_header e)" using Suc.prems wf by (auto simp: wf_headers_def wf_entry_def)
  show ?case
  proof (cases "he_height e < length (best_chain t) \<and> best_chain t ! he_height e = h")
    case True
    then show ?thesis using Suc.prems he
      by (intro exI [where x = 0] exI [where x = e]) (simp add: branch_walk.simps [of _ _ "he_height e"])
  next
    case False
    have off: "h \<notin> set (best_chain t)"
    proof
      assume "h \<in> set (best_chain t)"
      then obtain i where "i < length (best_chain t)" "best_chain t ! i = h" by (auto simp: in_set_conv_nth)
      with best_chain_facts(2) [OF assms(1,2), of i] Suc.prems False show False by auto
    qed
    obtain p where p: "map_of (headers t) (prev_blockhash (he_header e)) = Some p" "he_height e = he_height p + 1"
      using wf_headers_parent [OF wf Suc.prems] Suc.hyps(2) by (metis nat.distinct(1))
    let ?h = "prev_blockhash (he_header e)"
    obtain k anc where k: "branch_walk (headers t) (best_chain t) (he_height p) ?h (len + 1) = Some (len + 1 + k)"
      "k \<le> he_height p" "walk_back (headers t) ?h k = Some anc"
      "c_hash C (he_header anc) = best_chain t ! (he_height p - k)" "he_height p - k < length (best_chain t)"
      "\<forall>j < k. \<forall>x. walk_back (headers t) ?h j = Some x \<longrightarrow> c_hash C (he_header x) \<notin> set (best_chain t)"
      using Suc.hyps(1) [OF _ p(1), of "len + 1"] Suc.hyps(2) p(2) by auto
    have "c_hash C (he_header x) \<notin> set (best_chain t)" if "j < Suc k" "walk_back (headers t) h j = Some x" for j x
      using that k(6) off he Suc.prems by (cases j) auto
    moreover have "branch_walk (headers t) (best_chain t) (he_height e) h len =
        branch_walk (headers t) (best_chain t) (he_height p) ?h (len + 1)"
      using False p(2) Suc.prems by (subst branch_walk.simps) auto
    ultimately show ?thesis using k(1-5) p(2) Suc.prems
      by (intro exI [where x = "Suc k"] exI [where x = anc]) simp
  qed
qed

lemma all_some_map: "(\<And>x. x \<in> set xs \<Longrightarrow> f x \<noteq> None) \<Longrightarrow> all_some (map f xs) = Some (map (the \<circ> f) xs)"
proof (induction xs)
  case (Cons x xs)
  then obtain y where "f x = Some y" by fastforce
  with Cons show ?case by simp
qed simp

lemma fst_image_mem: "fst ` A = {h. \<exists>e. (h, e) \<in> A}"
  by force

lemma chain_tips_total:
  assumes "hash_order ho" "tree_ok C t" "best_ok t"
  shows "\<exists>tips. chain_tips ho t = Some tips
    \<and> ct_hash ` set tips = {h. \<exists>e. map_of (headers t) h = Some e
         \<and> (\<forall>h' e'. map_of (headers t) h' = Some e' \<longrightarrow> 0 < he_height e' \<longrightarrow> prev_blockhash (he_header e') \<noteq> h)}
    \<and> (\<forall>ct \<in> set tips. ct_status ct = Active \<longleftrightarrow> ct_hash ct = tip t)
    \<and> (\<forall>ct \<in> set tips. \<exists>e. map_of (headers t) (ct_hash ct) = Some e \<and> ct_height ct = he_height e
         \<and> branch_walk (headers t) (best_chain t) (he_height e) (ct_hash ct) 0 = Some (ct_branch_len ct))"
proof -
  have ok: "hm_ok (headers t)" using assms(2) by (simp add: tree_ok_def tree_inv_def wf_headers_def)
  define parents where "parents = map (\<lambda>(_, e). prev_blockhash (he_header e)) (filter (\<lambda>(_, e). 0 < he_height e) (headers t))"
  define leaves where "leaves = filter (\<lambda>(h, _). h \<notin> set parents) (ho (headers t))"
  define mk where "mk = (\<lambda>(h :: block_hash, e :: header_entry). map_option (\<lambda>len. \<lparr>ct_hash = h, ct_height = he_height e, ct_branch_len = len,
      ct_status = (if h = tip t then Active else HeadersOnly)\<rparr>)
      (branch_walk (headers t) (best_chain t) (he_height e) h 0))"
  have mem: "(h, e) \<in> set leaves \<longleftrightarrow> map_of (headers t) h = Some e
      \<and> (\<forall>h' e'. map_of (headers t) h' = Some e' \<longrightarrow> 0 < he_height e' \<longrightarrow> prev_blockhash (he_header e') \<noteq> h)" for h e
    using assms(1) ok by (auto simp: leaves_def parents_def hm_get_iff)
  have walk: "\<exists>len. branch_walk (headers t) (best_chain t) (he_height e) h 0 = Some len" if "(h, e) \<in> set leaves" for h e
    using branch_walk_spec [OF assms(2,3), of h e 0] that mem by blast
  have "mk x \<noteq> None" if "x \<in> set leaves" for x using walk that by (cases x) (auto simp: mk_def)
  then have some: "all_some (map mk leaves) = Some (map (the \<circ> mk) leaves)" by (rule all_some_map)
  have tips: "chain_tips ho t = all_some (map mk leaves)"
    by (simp add: chain_tips_def mk_def leaves_def parents_def Let_def)
  have facts: "ct_hash ((the \<circ> mk) kv) = fst kv" "ct_height ((the \<circ> mk) kv) = he_height (snd kv)"
      "ct_status ((the \<circ> mk) kv) = Active \<longleftrightarrow> fst kv = tip t"
      "branch_walk (headers t) (best_chain t) (he_height (snd kv)) (fst kv) 0 = Some (ct_branch_len ((the \<circ> mk) kv))"
    if "kv \<in> set leaves" for kv using walk [of "fst kv" "snd kv"] that by (auto simp: mk_def split: prod.splits)
  have "ct_hash ` set (map (the \<circ> mk) leaves) = fst ` set leaves"
    using facts(1) by (simp add: image_image cong: image_cong_simp)
  also have "\<dots> = {h. \<exists>e. map_of (headers t) h = Some e
      \<and> (\<forall>h' e'. map_of (headers t) h' = Some e' \<longrightarrow> 0 < he_height e' \<longrightarrow> prev_blockhash (he_header e') \<noteq> h)}"
    unfolding fst_image_mem using mem by (intro Collect_cong) simp
  finally have hashes: "ct_hash ` set (map (the \<circ> mk) leaves) = {h. \<exists>e. map_of (headers t) h = Some e
      \<and> (\<forall>h' e'. map_of (headers t) h' = Some e' \<longrightarrow> 0 < he_height e' \<longrightarrow> prev_blockhash (he_header e') \<noteq> h)}" .
  have "\<exists>e. map_of (headers t) (ct_hash ct) = Some e \<and> ct_height ct = he_height e
      \<and> branch_walk (headers t) (best_chain t) (he_height e) (ct_hash ct) 0 = Some (ct_branch_len ct)"
    and "ct_status ct = Active \<longleftrightarrow> ct_hash ct = tip t" if ct: "ct \<in> set (map (the \<circ> mk) leaves)" for ct
  proof -
    obtain kv where kv: "kv \<in> set leaves" "ct = (the \<circ> mk) kv" using ct by auto
    have "map_of (headers t) (fst kv) = Some (snd kv)" using mem [of "fst kv" "snd kv"] kv(1) by simp
    then show "\<exists>e. map_of (headers t) (ct_hash ct) = Some e \<and> ct_height ct = he_height e
      \<and> branch_walk (headers t) (best_chain t) (he_height e) (ct_hash ct) 0 = Some (ct_branch_len ct)"
      using facts [OF kv(1)] unfolding kv(2) by auto
    show "ct_status ct = Active \<longleftrightarrow> ct_hash ct = tip t" using facts(1,3) [OF kv(1)] unfolding kv(2) by simp
  qed
  then show ?thesis using some tips hashes by auto
qed

text \<open>When every header carries work, the active tip is among the tips, on no branch of its own.\<close>

lemma active_tip:
  assumes "tree_ok C t" "best_ok t" "\<forall>hdr. 0 < c_work C hdr"
  shows "\<forall>h' e'. map_of (headers t) h' = Some e' \<longrightarrow> 0 < he_height e' \<longrightarrow> prev_blockhash (he_header e') \<noteq> tip t"
    "\<exists>e. map_of (headers t) (tip t) = Some e
      \<and> branch_walk (headers t) (best_chain t) (he_height e) (tip t) 0 = Some 0"
proof -
  obtain e where e: "map_of (headers t) (tip t) = Some e" "he_height e = tip_height t" "he_work e = tip_work t"
    using assms(1) by (auto simp: tree_ok_def tree_inv_def tip_ok_def)
  have wf: "wf_headers C (headers t)" using assms(1) by (simp add: tree_ok_def tree_inv_def)
  have "he_work x \<le> tip_work t" if "map_of (headers t) h = Some x" for h x
    using assms(1) that by (auto simp: tree_ok_def tree_inv_def heaviest_but_def)
  then show "\<forall>h' e'. map_of (headers t) h' = Some e' \<longrightarrow> 0 < he_height e' \<longrightarrow> prev_blockhash (he_header e') \<noteq> tip t"
    using wf_headers_parent [OF wf] e assms(3)
    by (metis add.commute le_add2 less_add_same_cancel2 not_le option.inject less_numeral_extra(3))
  have "best_chain t ! tip_height t = tip t" "tip_height t < length (best_chain t)"
    using best_chain_facts(1) [OF assms(1,2)] assms(2)
    by (cases "best_chain t" rule: rev_cases; simp add: best_ok_def nth_append)+
  then show "\<exists>e. map_of (headers t) (tip t) = Some e
      \<and> branch_walk (headers t) (best_chain t) (he_height e) (tip t) 0 = Some 0"
    using e by (intro exI [where x = e]) (simp add: branch_walk.simps)
qed

section \<open>Recovery requests\<close>

text \<open>
  A sequence of announcements of missing blocks, as \<open>(hash, proven, now)\<close>, and how many of them led to
  a request for the block \<open>m\<close>.
\<close>

fun recovery_run :: "(block_hash \<times> bool \<times> nat) list \<Rightarrow> tree \<Rightarrow> bool list \<times> tree" where
  "recovery_run [] t = ([], t)"
| "recovery_run ((h, proven, now) # calls) t =
     (let (due, t) = recovery_due h proven now t; (rest, t) = recovery_run calls t in (due # rest, t))"

definition requests_for :: "block_hash \<Rightarrow> (block_hash \<times> bool \<times> nat) list \<Rightarrow> tree \<Rightarrow> nat" where
  "requests_for m calls t =
     length (filter (\<lambda>((h, _), due). h = m \<and> due) (zip calls (fst (recovery_run calls t))))"

text \<open>The requests out for \<open>m\<close> in a window that starts at \<open>T\<close>.\<close>

definition window_count :: "block_hash \<Rightarrow> nat \<Rightarrow> tree \<Rightarrow> nat" where
  "window_count m T t = (case map_of (recoveries t) m of None \<Rightarrow> 0 | Some r \<Rightarrow> unat (rc_requests r))"

definition recovery_inv :: "block_hash \<Rightarrow> nat \<Rightarrow> tree \<Rightarrow> bool" where
  "recovery_inv m T t \<longleftrightarrow> hm_ok (recoveries t) \<and>
     (\<forall>r. map_of (recoveries t) m = Some r \<longrightarrow> T \<le> rc_started r \<and> unat (rc_requests r) \<le> 3)"

lemma recovery_due_step:
  assumes "recovery_inv m T t" "T \<le> now" "now < T + RECOVERY_INTERVAL"
  shows "recovery_inv m T (snd (recovery_due h proven now t))"
    "window_count m T (snd (recovery_due h proven now t)) =
       window_count m T t + (if h = m \<and> fst (recovery_due h proven now t) then 1 else 0)"
proof -
  define rs where "rs = filter (\<lambda>(_, r). now - rc_started r < RECOVERY_INTERVAL) (recoveries t)"
  have ok: "hm_ok (recoveries t)" "hm_ok rs" using assms(1) by (auto simp: recovery_inv_def rs_def)
  have get: "map_of rs m = map_of (recoveries t) m"
    using hm_get_retain [OF ok(1), of "\<lambda>_ r. now - rc_started r < RECOVERY_INTERVAL" m] assms
    by (fastforce simp: rs_def recovery_inv_def split: option.splits)
  have due: "recovery_due h proven now t = (case map_of rs h of
      None \<Rightarrow> (True, t\<lparr>recoveries := AList.update h \<lparr>rc_started = now, rc_requests = 1\<rparr> rs\<rparr>)
    | Some r \<Rightarrow> (if proven \<and> rc_requests r < RECOVERY_PEERS
        then (True, t\<lparr>recoveries := AList.map_entry h (\<lambda>r. r\<lparr>rc_requests := rc_requests r + 1\<rparr>) rs\<rparr>)
        else (False, t\<lparr>recoveries := rs\<rparr>)))"
    unfolding recovery_due_def rs_def Let_def by (rule refl)
  have inc: "unat (x + 1) = unat x + 1" "unat x + 1 \<le> 3" if "x < RECOVERY_PEERS" for x
    using that by (simp_all add: RECOVERY_PEERS_def word_less_nat_alt unat_word_ariths)
  show "recovery_inv m T (snd (recovery_due h proven now t))"
    using assms get ok inc unfolding due
    by (auto simp: recovery_inv_def hm_get_insert hm_get_map_entry split: option.splits)
  show "window_count m T (snd (recovery_due h proven now t)) =
       window_count m T t + (if h = m \<and> fst (recovery_due h proven now t) then 1 else 0)"
    using get inc unfolding due
    by (auto simp: window_count_def hm_get_insert hm_get_map_entry split: option.splits)
qed

lemma recovery_run_bound:
  assumes "recovery_inv m T t" "\<forall>(h, proven, now) \<in> set calls. T \<le> now \<and> now < T + RECOVERY_INTERVAL"
  shows "recovery_inv m T (snd (recovery_run calls t))
    \<and> window_count m T (snd (recovery_run calls t)) = window_count m T t + requests_for m calls t"
  using assms
proof (induction calls arbitrary: t)
  case (Cons c calls)
  obtain h proven now where c: "c = (h, proven, now)" by (cases c)
  let ?d = "recovery_due h proven now t"
  have w: "T \<le> now" "now < T + RECOVERY_INTERVAL" using Cons.prems(2) by (auto simp: c)
  note step = recovery_due_step [OF Cons.prems(1) w, of h proven]
  have IH: "recovery_inv m T (snd (recovery_run calls (snd ?d)))
    \<and> window_count m T (snd (recovery_run calls (snd ?d))) = window_count m T (snd ?d) + requests_for m calls (snd ?d)"
    using Cons.IH [OF step(1)] Cons.prems(2) by simp
  have "requests_for m (c # calls) t = (if h = m \<and> fst ?d then 1 else 0) + requests_for m calls (snd ?d)"
    "snd (recovery_run (c # calls) t) = snd (recovery_run calls (snd ?d))"
    by (auto simp: requests_for_def c case_prod_beta Let_def)
  with IH step(2) show ?case by simp
qed (simp add: requests_for_def)

lemma requests_at_most_three:
  assumes "recovery_inv m T t" "\<forall>(h, proven, now) \<in> set calls. T \<le> now \<and> now < T + RECOVERY_INTERVAL"
  shows "requests_for m calls t \<le> 3"
proof -
  have "recovery_inv m T (snd (recovery_run calls t))"
    "requests_for m calls t \<le> window_count m T (snd (recovery_run calls t))"
    using recovery_run_bound [OF assms] by auto
  moreover from this have "window_count m T (snd (recovery_run calls t)) \<le> 3"
    by (auto simp: recovery_inv_def window_count_def split: option.splits)
  ultimately show ?thesis by linarith
qed

end
