(* ===== verification/Protocol.thy ===== *)
theory Protocol
  imports Wire Token_Bucket Session_Stats Manager Header_Serve
begin

text \<open>
  \<^verbatim>\<open>observer/src/protocol.rs\<close>: one session with a peer after its handshake. The record \<open>session\<close> is the
  \<^verbatim>\<open>Connection\<close> together with what it reaches: the shared header tree, the outbox of events, the gossip queue of
  the address manager, the registry of live sessions, and the writer, as the messages written and a
  list of the outcomes its next writes have (\<open>True\<close> once the list is used up). A handler is a step on it
  that may end with an error, one for each way the source leaves a handler early: a typed error, a
  failed write, or a panic. A handler runs as a whole; log lines are left out.

  What a handler reads from outside is the record \<open>io\<close>: the monotonic clock, the Unix time and a sample of
  the kernel's TCP statistics, each read once per message.
\<close>

section \<open>Steps\<close>

datatype session_error =
    SyncComplete
  | OtherChainErr header_error
  | PingTimeoutErr nat
  | ProtocolViolation nat
  | WriteFailed
  | Panicked

record io =
  io_now :: nat
  io_unix_ms :: u64
  io_tcp :: "tcp_stats option"

record penv =
  en_chain :: chain
  en_order :: header_order
  en_sha3 :: "u8 list \<Rightarrow> u8 list"
  en_codec :: codec
  en_max_inv :: nat

record session =
  addr_tokens :: rat
  addr_tokens_updated :: nat
  getheaders_tokens :: rat
  getheaders_tokens_updated :: nat
  getaddr_outstanding :: bool
  peer_version :: version_msg
  conn_stats :: conn_stats
  se_addr :: peer_addr
  transport_version :: u8
  connection_id :: u64
  sync_headers :: bool
  asked_for :: "block_hash option"
  probe_compact_blocks :: bool
  se_tree :: tree
  se_outbox :: outbox
  se_gossip :: "gossiped list list"
  se_registry :: registry
  se_sent :: "net_message list"
  se_writes :: "bool list"

type_synonym 'a step = "session \<Rightarrow> (session_error + 'a) \<times> session"

definition step_ret :: "'a \<Rightarrow> 'a step" where
  "step_ret x s = (Inr x, s)"

definition step_fail :: "session_error \<Rightarrow> 'a step" where
  "step_fail e s = (Inl e, s)"

definition step_bind :: "'a step \<Rightarrow> ('a \<Rightarrow> 'b step) \<Rightarrow> 'b step" where
  "step_bind m f s = (case m s of (Inl e, s) \<Rightarrow> (Inl e, s) | (Inr x, s) \<Rightarrow> f x s)"

definition step_then :: "unit step \<Rightarrow> 'b step \<Rightarrow> 'b step" where
  "step_then m n = step_bind m (\<lambda>_. n)"

definition step_get :: "(session \<Rightarrow> 'a) \<Rightarrow> 'a step" where
  "step_get f s = (Inr (f s), s)"

definition step_mod :: "(session \<Rightarrow> session) \<Rightarrow> unit step" where
  "step_mod f s = (Inr (), f s)"

definition step_when :: "bool \<Rightarrow> unit step \<Rightarrow> unit step" where
  "step_when b m = (if b then m else step_ret ())"

text \<open>\<^verbatim>\<open>writer.send(..).await?\<close>\<close>

definition send_msg :: "net_message \<Rightarrow> unit step" where
  "send_msg msg s =
     (case se_writes s of
        [] \<Rightarrow> (Inr (), s\<lparr>se_sent := se_sent s @ [msg]\<rparr>)
      | True # ws \<Rightarrow> (Inr (), s\<lparr>se_sent := se_sent s @ [msg], se_writes := ws\<rparr>)
      | False # ws \<Rightarrow> (Inl WriteFailed, s\<lparr>se_writes := ws\<rparr>))"

section \<open>Constants\<close>

definition MAX_USER_AGENT_CHARS :: nat where "MAX_USER_AGENT_CHARS = 256"
definition MAX_HEADERS_ANNOUNCED :: nat where "MAX_HEADERS_ANNOUNCED = 8"
definition MAX_BLOCK_INVS_ANNOUNCED :: nat where "MAX_BLOCK_INVS_ANNOUNCED = MAX_HEADERS_ANNOUNCED"
definition MAX_LOCATOR_SZ :: nat where "MAX_LOCATOR_SZ = 101"
definition HIGH_BANDWIDTH_COMPACT_BLOCKS :: bool where "HIGH_BANDWIDTH_COMPACT_BLOCKS = True"
definition WTXID_RELAY_VERSION :: u32 where "WTXID_RELAY_VERSION = 70016"

section \<open>Events\<close>

definition emit_event :: "penv \<Rightarrow> io \<Rightarrow> pevent \<Rightarrow> unit step" where
  "emit_event en i ev = step_mod (\<lambda>s. s\<lparr>se_outbox := emit_send
     \<lparr>pe_timestamp_ms = io_unix_ms i, pe_peer_addr = display (en_sha3 en) (se_addr s),
      pe_user_agent = vm_user_agent (peer_version s), pe_transport_version = Some (ucast (transport_version s)),
      pe_connection_id = connection_id s, pe_event = Some ev,
      pe_dropped_events = 0, pe_dropped_by_kind = None, pe_instance_id = 0\<rparr> (se_outbox s)\<rparr>)"

definition sample_tcp_stats :: "io \<Rightarrow> tcp_stats option" where
  "sample_tcp_stats i = map_option tcp_stats_event (io_tcp i)"

fun unplaced_for :: "header_error \<Rightarrow> unplaced_reason" where
  "unplaced_for OrphanHeader = UnplacedOrphan"
| "unplaced_for WeakerChain = UnplacedWeakerChain"
| "unplaced_for InvalidPow = UnplacedInvalidPow"
| "unplaced_for TargetTooEasy = UnplacedInvalidPow"
| "unplaced_for CheckpointMismatch = UnplacedCheckpointMismatch"
| "unplaced_for ForkBelowCheckpoint = UnplacedForkBelowCheckpoint"

definition placement :: "tree \<Rightarrow> block_hash \<Rightarrow> announcement_type \<Rightarrow> unplaced_reason option" where
  "placement t h ty =
     (case (height_of t h, rejection_of (refused t) h) of
        (Some _, _) \<Rightarrow> None
      | (None, Some reason) \<Rightarrow> Some (unplaced_for reason)
      | (None, None) \<Rightarrow> if ty = AnnInv then Some NoHeader else Some UnplacedOrphan)"

definition emit_block_announcement ::
  "penv \<Rightarrow> io \<Rightarrow> block_hash \<Rightarrow> announcement_type \<Rightarrow> nat \<Rightarrow> bool \<Rightarrow> (u32 \<times> u32) option \<Rightarrow> unit step" where
  "emit_block_announcement en i h ty batch_size new_to_us shape =
     step_bind (step_get se_tree) (\<lambda>t.
       emit_event en i (BlockAnnouncement
         \<lparr>ba_hash = h, ba_type = ty, ba_tcp = sample_tcp_stats i, ba_batch_size = of_nat batch_size,
          ba_height = height_of t h, ba_new_to_us = new_to_us, ba_shape = shape, ba_unplaced = placement t h ty\<rparr>))"

definition emit_compact_block_probe :: "penv \<Rightarrow> io \<Rightarrow> block_hash \<Rightarrow> probe_stage \<Rightarrow> unit step" where
  "emit_compact_block_probe en i h stage = emit_event en i (CompactBlockProbe h stage (sample_tcp_stats i))"

section \<open>Headers\<close>

text \<open>Building a locator on an empty best chain panics.\<close>

definition send_getheaders :: "unit step" where
  "send_getheaders =
     step_bind (step_get se_tree) (\<lambda>t.
       case build_locator t of
         None \<Rightarrow> step_fail Panicked
       | Some locator \<Rightarrow> send_msg (GetHeadersMsg \<lparr>gh_version = WTXID_RELAY_VERSION, gh_locator = locator, gh_stop = 0\<rparr>))"

definition recover_headers :: "io \<Rightarrow> block_hash \<Rightarrow> bool \<Rightarrow> unit step" where
  "recover_headers i missing proven =
     step_bind (step_get id) (\<lambda>s.
       if asked_for s = Some missing then step_ret ()
       else if rejection_of (refused (se_tree s)) missing \<noteq> None then step_ret ()
       else let (due, t) = recovery_due missing proven (io_now i) (se_tree s) in
         step_then (step_mod (\<lambda>s. s\<lparr>se_tree := t\<rparr>))
           (if \<not> due then step_ret ()
            else step_then (step_mod (\<lambda>s. s\<lparr>asked_for := Some missing\<rparr>)) send_getheaders))"

definition accept_headers :: "penv \<Rightarrow> io \<Rightarrow> header list \<Rightarrow> (nat \<times> header_error option) step" where
  "accept_headers en i hdrs =
     step_bind (step_get id) (\<lambda>s.
       case insert_batch (en_order en) (en_chain en) hdrs (se_tree s) of
         None \<Rightarrow> step_fail Panicked
       | Some (accepted, err, t) \<Rightarrow>
           step_then (step_mod (\<lambda>s. s\<lparr>se_tree := t\<rparr>))
             (if err = Some OrphanHeader \<and> \<not> sync_headers s
              then step_then
                     (if hdrs = [] then step_ret () else recover_headers i (c_hash (en_chain en) (last hdrs)) True)
                     (step_ret (accepted, None))
              else step_ret (accepted,
                     case err of None \<Rightarrow> None | Some e \<Rightarrow> if is_other_chain e then Some e else None)))"

fun announce_headers :: "penv \<Rightarrow> io \<Rightarrow> nat \<Rightarrow> (header \<times> bool) list \<Rightarrow> unit step" where
  "announce_headers en i n [] = step_ret ()"
| "announce_headers en i n ((hdr, known) # rest) =
     step_then (emit_block_announcement en i (c_hash (en_chain en) hdr) AnnHeaders n (\<not> known) None)
       (announce_headers en i n rest)"

definition handle_headers :: "penv \<Rightarrow> io \<Rightarrow> header list \<Rightarrow> unit step" where
  "handle_headers en i hdrs =
     step_bind (step_get id) (\<lambda>s.
       if hdrs = [] then (if sync_headers s then step_fail SyncComplete else step_ret ())
       else
         let known_before = map (\<lambda>h. seen_hash (se_tree s) (c_hash (en_chain en) h)) hdrs in
         step_bind (accept_headers en i hdrs) (\<lambda>(accepted, other_chain).
           step_then (step_when (\<not> sync_headers s \<and> length hdrs \<le> MAX_HEADERS_ANNOUNCED)
                        (announce_headers en i (length hdrs) (zip hdrs known_before)))
             (case other_chain of
                Some reason \<Rightarrow> step_fail (OtherChainErr reason)
              | None \<Rightarrow> step_when (sync_headers s \<and> 0 < accepted) send_getheaders)))"

definition request_compact_block_coinbase :: "penv \<Rightarrow> io \<Rightarrow> block_hash \<Rightarrow> unit step" where
  "request_compact_block_coinbase en i h =
     step_then (send_msg (GetBlockTxn h [0])) (emit_compact_block_probe en i h ProbeRequested)"

definition handle_cmpct_block :: "penv \<Rightarrow> io \<Rightarrow> cmpct_block \<Rightarrow> unit step" where
  "handle_cmpct_block en i cb =
     (let h = c_hash (en_chain en) (cb_header cb) in
      step_bind (step_get id) (\<lambda>s.
        let known = seen_hash (se_tree s) h in
        step_bind (accept_headers en i [cb_header cb]) (\<lambda>(_, other_chain).
          step_then (emit_block_announcement en i h AnnCompactBlock 1 (\<not> known)
                       (Some (of_nat (cb_short_ids cb), of_nat (cb_prefilled cb))))
            (case other_chain of
               Some reason \<Rightarrow> step_fail (OtherChainErr reason)
             | None \<Rightarrow> step_when (probe_compact_blocks s) (request_compact_block_coinbase en i h)))))"

definition handle_blocktxn :: "penv \<Rightarrow> io \<Rightarrow> block_hash \<Rightarrow> unit step" where
  "handle_blocktxn en i h = emit_compact_block_probe en i h ProbeAnswered"

section \<open>Inventory\<close>

fun inv_block :: "inventory \<Rightarrow> (block_hash \<times> bool) option" where
  "inv_block (InvBlock h) = Some (h, False)"
| "inv_block (InvWitnessBlock h) = Some (h, False)"
| "inv_block (InvCompactBlock h) = Some (h, True)"
| "inv_block InvOther = None"

fun inv_loop :: "penv \<Rightarrow> io \<Rightarrow> nat \<Rightarrow> inventory list \<Rightarrow> nat \<Rightarrow> inventory list \<Rightarrow> inventory list step" where
  "inv_loop en i blocks [] announced getdata = step_ret getdata"
| "inv_loop en i blocks (item # rest) announced getdata =
     (case inv_block item of
        None \<Rightarrow> inv_loop en i blocks rest announced getdata
      | Some (h, cmpct) \<Rightarrow>
          (if MAX_BLOCK_INVS_ANNOUNCED \<le> announced then step_ret getdata
           else step_bind (step_get (\<lambda>s. seen_hash (se_tree s) h)) (\<lambda>known.
             step_then (emit_block_announcement en i h AnnInv blocks (\<not> known) None)
               (step_then (step_when (\<not> known) (recover_headers i h False))
                 (inv_loop en i blocks rest (announced + 1)
                    (if cmpct then getdata @ [InvCompactBlock h] else getdata))))))"

definition handle_inv :: "penv \<Rightarrow> io \<Rightarrow> inventory list \<Rightarrow> unit step" where
  "handle_inv en i invs =
     (if en_max_inv en < length invs then step_fail (ProtocolViolation (length invs))
      else let blocks = length (filter (\<lambda>x. inv_block x \<noteq> None) invs) in
        step_bind (inv_loop en i blocks invs 0 []) (\<lambda>getdata.
          step_when (getdata \<noteq> []) (send_msg (GetData getdata))))"

section \<open>Pings\<close>

definition handle_ping :: "u64 \<Rightarrow> unit step" where
  "handle_ping nonce = send_msg (Pong nonce)"

text \<open>\<^verbatim>\<open>rtt_ms as u32\<close> truncates.\<close>

definition handle_pong :: "penv \<Rightarrow> io \<Rightarrow> u64 \<Rightarrow> unit step" where
  "handle_pong en i nonce =
     step_bind (step_get conn_stats) (\<lambda>st.
       let (claimed, st) = claim_pong nonce (io_now i) st in
       if \<not> claimed then step_mod (\<lambda>s. s\<lparr>conn_stats := st\<rparr>)
       else let rtt_ms = sat_sub (io_unix_ms i) nonce in
         step_then (step_mod (\<lambda>s. s\<lparr>conn_stats := record_rtt (ucast rtt_ms) st\<rparr>))
           (emit_event en i (PingRtt rtt_ms (sample_tcp_stats i))))"

definition send_ping :: "io \<Rightarrow> unit step" where
  "send_ping i =
     step_then (step_mod (\<lambda>s. let st = record_ping (io_unix_ms i) (conn_stats s) in
         s\<lparr>conn_stats := st, se_registry := reg_refresh (connection_id s) (stats_counters st) (io_unix_ms i) (se_registry s)\<rparr>))
       (send_msg (Ping (io_unix_ms i)))"

definition ping_tick :: "io \<Rightarrow> unit step" where
  "ping_tick i =
     step_bind (step_get conn_stats) (\<lambda>st.
       case ping_timed_out (io_now i) st of
         Some waited \<Rightarrow> step_fail (PingTimeoutErr waited)
       | None \<Rightarrow> send_ping i)"

section \<open>Gossip\<close>

text \<open>
  The subtractions of the source that would underflow when more entries parsed than were received panic
  here; that this cannot happen is proved.
\<close>

definition offer_gossip :: "penv \<Rightarrow> io \<Rightarrow> addr_message \<Rightarrow> nat \<Rightarrow> gossiped list \<Rightarrow> unit step" where
  "offer_gossip en i message received parsed =
     step_bind (step_get id) (\<lambda>s.
       let self_announcement = (received = 1 \<and> length parsed = 1 \<and> g_addr (parsed ! 0) = se_addr s);
           solicited = (\<not> self_announcement \<and> getaddr_outstanding s);
           tokens = refill ADDR_RATE_PER_SEC ADDR_BURST (addr_tokens s) (io_now i - addr_tokens_updated s);
           allowed = nat \<lfloor>tokens\<rfloor>;
           rate_limited = (if \<not> solicited \<and> allowed < length parsed then length parsed - allowed else 0);
           tokens_left = (if solicited then tokens else spend tokens (length parsed - rate_limited)) in
       if received < length parsed then step_fail Panicked
       else
         step_then (step_mod (\<lambda>s. s\<lparr>getaddr_outstanding := (self_announcement \<and> getaddr_outstanding s),
             addr_tokens := tokens_left, addr_tokens_updated := io_now i\<rparr>))
         (step_then (emit_event en i (AddressAnnouncement
             \<lparr>aa_message = message, aa_unparsed = of_nat (received - length parsed),
              aa_addresses = map (\<lambda>g. (display (en_sha3 en) (g_addr g), g_services g, g_ntime g)) parsed,
              aa_solicited = solicited, aa_rate_limited = of_nat rate_limited, aa_tokens = tokens\<rparr>))
           (let kept = take (length parsed - rate_limited) parsed in
            step_when (kept \<noteq> []) (step_mod (\<lambda>s. s\<lparr>se_gossip := handle_gossip kept (se_gossip s)\<rparr>)))))"

definition parse_addr_v1 :: "addr_v1_entry \<Rightarrow> gossiped option" where
  "parse_addr_v1 e =
     (case e of (ntime, svcs, sa) \<Rightarrow>
        map_option (\<lambda>a. \<lparr>g_addr = a, g_services = svcs, g_ntime = ntime\<rparr>) (try_from_address sa))"

definition parse_addr_v2 :: "addr_v2_message \<Rightarrow> gossiped option" where
  "parse_addr_v2 m =
     map_option (\<lambda>a. \<lparr>g_addr = a, g_services = msg_services m, g_ntime = msg_time m\<rparr>) (try_from_addr_v2 m)"

definition handle_addr :: "penv \<Rightarrow> io \<Rightarrow> addr_v1_entry list \<Rightarrow> unit step" where
  "handle_addr en i addrs = offer_gossip en i MsgAddr (length addrs) (List.map_filter parse_addr_v1 addrs)"

definition offer_addrv2 :: "penv \<Rightarrow> io \<Rightarrow> nat \<Rightarrow> addr_v2_message list \<Rightarrow> unit step" where
  "offer_addrv2 en i received addrs = offer_gossip en i MsgAddrv2 received (List.map_filter parse_addr_v2 addrs)"

definition handle_addrv2 :: "penv \<Rightarrow> io \<Rightarrow> addr_v2_message list \<Rightarrow> unit step" where
  "handle_addrv2 en i addrs = offer_addrv2 en i (length addrs) addrs"

definition handle_unknown :: "penv \<Rightarrow> io \<Rightarrow> string \<Rightarrow> u8 list \<Rightarrow> unit step" where
  "handle_unknown en i command payload =
     (if command = ''addrv2''
      then (let (received, entries) = parse_addrv2_leniently (en_codec en) payload in offer_addrv2 en i received entries)
      else step_ret ())"

section \<open>Other messages\<close>

definition handle_send_cmpct :: "penv \<Rightarrow> io \<Rightarrow> bool \<Rightarrow> u64 \<Rightarrow> unit step" where
  "handle_send_cmpct en i hb v = emit_event en i (SendCmpctEv hb v)"

definition handle_fee_filter :: "penv \<Rightarrow> io \<Rightarrow> u64 \<Rightarrow> unit step" where
  "handle_fee_filter en i rate = emit_event en i (FeeFilter rate)"

definition may_answer_getheaders :: "io \<Rightarrow> bool step" where
  "may_answer_getheaders i =
     step_bind (step_get id) (\<lambda>s.
       let tokens = refill GETHEADERS_RATE_PER_SEC GETHEADERS_BURST (getheaders_tokens s)
                      (io_now i - getheaders_tokens_updated s) in
       if tokens < 1
       then step_then (step_mod (\<lambda>s. s\<lparr>getheaders_tokens := tokens, getheaders_tokens_updated := io_now i\<rparr>)) (step_ret False)
       else step_then (step_mod (\<lambda>s. s\<lparr>getheaders_tokens := spend tokens 1, getheaders_tokens_updated := io_now i\<rparr>))
              (step_ret True))"

definition handle_get_headers :: "io \<Rightarrow> get_headers_msg \<Rightarrow> unit step" where
  "handle_get_headers i msg =
     step_bind (may_answer_getheaders i) (\<lambda>may.
       if \<not> may
       then step_mod (\<lambda>s. s\<lparr>conn_stats := (conn_stats s)\<lparr>getheaders_ignored := sat_add (getheaders_ignored (conn_stats s)) 1\<rparr>\<rparr>)
       else step_bind (step_get se_tree) (\<lambda>t.
         let walked = min (length (gh_locator msg)) MAX_LOCATOR_SZ in
         case get_headers_from_locator t (take walked (gh_locator msg)) (gh_stop msg) of
           None \<Rightarrow> step_fail Panicked
         | Some hdrs \<Rightarrow> send_msg (HeadersMsg hdrs)))"

definition handle_message :: "penv \<Rightarrow> io \<Rightarrow> net_message \<Rightarrow> unit step" where
  "handle_message en i msg =
     step_then (step_mod (\<lambda>s. s\<lparr>conn_stats := record_message (message_command msg) (conn_stats s)\<rparr>))
       (case msg of
          Ping nonce \<Rightarrow> handle_ping nonce
        | Pong nonce \<Rightarrow> handle_pong en i nonce
        | InvMsg invs \<Rightarrow> handle_inv en i invs
        | HeadersMsg hdrs \<Rightarrow> handle_headers en i hdrs
        | CmpctBlock cb \<Rightarrow> handle_cmpct_block en i cb
        | AddrMsg addrs \<Rightarrow> handle_addr en i addrs
        | AddrV2Msg addrs \<Rightarrow> handle_addrv2 en i addrs
        | SendCmpct hb v \<Rightarrow> handle_send_cmpct en i hb v
        | FeeFilterMsg rate \<Rightarrow> handle_fee_filter en i rate
        | GetHeadersMsg m \<Rightarrow> handle_get_headers i m
        | BlockTxn h n \<Rightarrow> handle_blocktxn en i h
        | UnknownMsg command payload \<Rightarrow> handle_unknown en i command payload
        | _ \<Rightarrow> step_ret ())"

section \<open>The session\<close>

text \<open>What \<^verbatim>\<open>run\<close> sends before its loop.\<close>

definition run_start :: "unit step" where
  "run_start =
     step_then (send_msg (SendCmpct HIGH_BANDWIDTH_COMPACT_BLOCKS 2))
       (step_then (step_mod (\<lambda>s. s\<lparr>getaddr_outstanding := True\<rparr>))
         (step_then (send_msg GetAddr)
           (step_then (send_msg SendHeaders) send_getheaders)))"

text \<open>What the loop waits for; the error of a failed read ends the session as itself.\<close>

datatype session_input = TimerFired io | GotMessage io net_message

definition session_step :: "penv \<Rightarrow> session_input \<Rightarrow> unit step" where
  "session_step en x = (case x of TimerFired i \<Rightarrow> ping_tick i | GotMessage i msg \<Rightarrow> handle_message en i msg)"

text \<open>The loop over the inputs, up to the first error.\<close>

fun session_loop :: "penv \<Rightarrow> session_input list \<Rightarrow> unit step" where
  "session_loop en [] = step_ret ()"
| "session_loop en (x # xs) = step_then (session_step en x) (session_loop en xs)"

definition session_run :: "penv \<Rightarrow> session_input list \<Rightarrow> unit step" where
  "session_run en xs = step_then run_start (session_loop en xs)"

end
