(* ===== verification/Anyhow.thy ===== *)
theory Anyhow
  imports Policy Peer_Addr Header_Tree Protocol
begin

text \<open>
  Errors as the connection code carries them, and how it reads them: \<^verbatim>\<open>Stage\<close>, \<^verbatim>\<open>classify\<close>, \<^verbatim>\<open>is_tcp_level\<close> and
  their helpers of \<^verbatim>\<open>observer/src/connection.rs\<close>, \<^verbatim>\<open>Fault\<close> and \<^verbatim>\<open>fault_of\<close> of \<^verbatim>\<open>observer/src/transport.rs\<close>, and
  \<^verbatim>\<open>other_chain_of\<close> of \<^verbatim>\<open>observer/src/protocol.rs\<close>.

  An \<^verbatim>\<open>anyhow::Error\<close> is its context values, outermost first, over a root error and the sources of that.
  \<^verbatim>\<open>downcast_ref\<close> finds a value among the contexts and the root; a walk over \<^verbatim>\<open>chain()\<close> recognises only the root and
  its sources, since a context is there as its text.
\<close>

datatype stage =
    StTcpConnectTimeout | StTorProxyTimeout | StV2TransportTimeout | StVersionHandshakeTimeout
  | StV2TransportHandshake | StVersionHandshake | StProxyUnreachable | StNetworkDisabled

datatype fault = PeerClosed | Truncated | Decode | Oversized | WrongMagic | V2Decrypt | WriteFault

datatype io_kind =
    IoConnectionRefused | IoNetworkUnreachable | IoHostUnreachable | IoConnectionReset | IoBrokenPipe
  | IoConnectionAborted | IoUnexpectedEof | IoTimedOut | IoInvalidData | IoOtherKind

datatype cause =
    CStage stage
  | CFault fault
  | CSession session_error
  | CIo io_kind
  | CElapsed
  | CText string

record anyhow =
  contexts :: "cause list"
  root :: cause
  sources :: "cause list"

definition error_new :: "cause \<Rightarrow> anyhow" where
  "error_new c = \<lparr>contexts = [], root = c, sources = []\<rparr>"

definition with_context :: "cause \<Rightarrow> anyhow \<Rightarrow> anyhow" where
  "with_context c e = e\<lparr>contexts := c # contexts e\<rparr>"

definition downcast :: "(cause \<Rightarrow> 'a option) \<Rightarrow> anyhow \<Rightarrow> 'a option" where
  "downcast f e = (case List.map_filter f (contexts e @ [root e]) of [] \<Rightarrow> None | x # _ \<Rightarrow> Some x)"

definition chain_causes :: "anyhow \<Rightarrow> cause list" where
  "chain_causes e = root e # sources e"

section \<open>Reading an error\<close>

fun as_stage :: "cause \<Rightarrow> stage option" where
  "as_stage (CStage s) = Some s"
| "as_stage _ = None"

definition stage_of :: "anyhow \<Rightarrow> stage option" where
  "stage_of e = downcast as_stage e"

fun as_fault :: "cause \<Rightarrow> fault option" where
  "as_fault (CFault f) = Some f"
| "as_fault _ = None"

definition fault_of :: "anyhow \<Rightarrow> fault option" where
  "fault_of e = downcast as_fault e"

fun as_other_chain :: "cause \<Rightarrow> header_error option" where
  "as_other_chain (CSession (OtherChainErr r)) = Some r"
| "as_other_chain _ = None"

definition other_chain_of :: "anyhow \<Rightarrow> header_error option" where
  "other_chain_of e =
     (case downcast as_other_chain e of
        Some r \<Rightarrow> Some r
      | None \<Rightarrow> (case List.map_filter as_other_chain (chain_causes e) of [] \<Rightarrow> None | r # _ \<Rightarrow> Some r))"

fun as_ping_timeout :: "cause \<Rightarrow> nat option" where
  "as_ping_timeout (CSession (PingTimeoutErr n)) = Some n"
| "as_ping_timeout _ = None"

fun as_violation :: "cause \<Rightarrow> nat option" where
  "as_violation (CSession (ProtocolViolation n)) = Some n"
| "as_violation _ = None"

definition has_kind :: "anyhow \<Rightarrow> io_kind \<Rightarrow> bool" where
  "has_kind e k \<longleftrightarrow> list_ex (\<lambda>c. c = CIo k) (chain_causes e)"

definition is_timed_out :: "anyhow \<Rightarrow> bool" where
  "is_timed_out e \<longleftrightarrow>
     (case stage_of e of
        Some StTcpConnectTimeout \<Rightarrow> True
      | Some StTorProxyTimeout \<Rightarrow> True
      | Some StV2TransportTimeout \<Rightarrow> True
      | Some StVersionHandshakeTimeout \<Rightarrow> True
      | _ \<Rightarrow> list_ex (\<lambda>c. c = CElapsed) (chain_causes e) \<or> has_kind e IoTimedOut)"

definition is_tcp_level :: "anyhow \<Rightarrow> bool" where
  "is_tcp_level e \<longleftrightarrow>
     has_kind e IoConnectionRefused \<or> has_kind e IoNetworkUnreachable \<or> has_kind e IoHostUnreachable \<or> is_timed_out e"

section \<open>Verdicts\<close>

text \<open>\<^verbatim>\<open>classify\<close>: what the address manager records of a failed attempt.\<close>

definition classify_failure :: "anyhow \<Rightarrow> net \<Rightarrow> outcome" where
  "classify_failure e n =
     (if has_kind e IoNetworkUnreachable then OurFault NetworkUnreachable
      else case stage_of e of
        Some StNetworkDisabled \<Rightarrow> OurFault NetworkDisabled
      | Some StProxyUnreachable \<Rightarrow> OurFault ProxyUnreachable
      | Some StTorProxyTimeout \<Rightarrow> OurFault ProxyUnreachable
      | Some StTcpConnectTimeout \<Rightarrow> Failed TcpConnectTimeout
      | Some StV2TransportTimeout \<Rightarrow> Failed V2TransportTimeout
      | Some StVersionHandshakeTimeout \<Rightarrow> Failed VersionHandshakeTimeout
      | Some StV2TransportHandshake \<Rightarrow> Failed V2TransportHandshake
      | Some StVersionHandshake \<Rightarrow> Failed VersionHandshake
      | None \<Rightarrow>
          if n = NetTorV3 \<and> has_kind e IoConnectionRefused then OurFault ProxyUnreachable
          else if has_kind e IoConnectionRefused then Failed ConnectionRefused
          else if has_kind e IoHostUnreachable then Failed HostUnreachable
          else if has_kind e IoUnexpectedEof then Failed UnexpectedEof
          else Failed OtherReason)"

definition is_violation :: "anyhow \<Rightarrow> bool" where
  "is_violation e \<longleftrightarrow> fault_of e = Some Oversized \<or> downcast as_violation e \<noteq> None"

fun fault_reason :: "fault \<Rightarrow> disconnect_reason" where
  "fault_reason PeerClosed = DisPeerClosed"
| "fault_reason Truncated = DisTruncated"
| "fault_reason Decode = DisDecodeError"
| "fault_reason Oversized = DisOversizedMessage"
| "fault_reason WrongMagic = DisWrongMagic"
| "fault_reason V2Decrypt = DisV2DecryptError"
| "fault_reason WriteFault = DisWriteError"

definition classify_session_end :: "anyhow option \<Rightarrow> disconnect_reason" where
  "classify_session_end err =
     (case err of
        None \<Rightarrow> DisUnknown
      | Some e \<Rightarrow>
          if other_chain_of e \<noteq> None then DisOtherChain
          else case fault_of e of
            Some f \<Rightarrow> fault_reason f
          | None \<Rightarrow>
              if downcast as_ping_timeout e \<noteq> None then DisPingTimeout
              else if downcast as_violation e \<noteq> None then DisProtocolViolation
              else if has_kind e IoConnectionReset \<or> has_kind e IoBrokenPipe \<or> has_kind e IoConnectionAborted
              then DisConnectionReset
              else if has_kind e IoUnexpectedEof then DisPeerClosed
              else DisOther)"

section \<open>What the reading rests on\<close>

lemma downcast_new [simp]: "downcast f (error_new c) = f c"
  by (simp add: downcast_def error_new_def List.map_filter_simps split: option.splits)

lemma downcast_context [simp]: "downcast f (with_context c e) = (case f c of Some x \<Rightarrow> Some x | None \<Rightarrow> downcast f e)"
  by (simp add: downcast_def with_context_def List.map_filter_simps split: option.splits)

lemma chain_context [simp]: "chain_causes (with_context c e) = chain_causes e"
  by (simp add: chain_causes_def with_context_def)

lemma chain_new [simp]: "chain_causes (error_new c) = [c]"
  by (simp add: chain_causes_def error_new_def)

lemma has_kind_context [simp]: "has_kind (with_context c e) k = has_kind e k"
  by (simp add: has_kind_def)

end
