(* ===== verification/Handshake.thy ===== *)
theory Handshake
  imports Anyhow
begin

text \<open>
  The start and the end of a session (\<^verbatim>\<open>observer/src/protocol.rs\<close>): the version handshake, what is published and
  registered once it is done, and \<^verbatim>\<open>run_session\<close>, which runs the message loop and carries its error out.

  What the peer and the clocks do is a \<open>script\<close>: the reads of the handshake in order (the deadline strikes when
  they run out), the inputs of the loop and the read error it ends with, the outcomes of the writes, the
  times. The sender's address of a version message is not kept: nothing reads it.
\<close>

section \<open>The version handshake\<close>

definition cap_user_agent :: "string \<Rightarrow> string" where
  "cap_user_agent ua = take MAX_USER_AGENT_CHARS ua"

definition SERVICE_NETWORK :: u64 where "SERVICE_NETWORK = 1"
definition SERVICE_WITNESS :: u64 where "SERVICE_WITNESS = 8"

definition build_version :: "string \<Rightarrow> 32 word \<Rightarrow> 64 word \<Rightarrow> u64 \<Rightarrow> net_message" where
  "build_version user_agent start_height timestamp nonce =
     Version \<lparr>vm_version = WTXID_RELAY_VERSION, vm_services = SERVICE_NETWORK OR SERVICE_WITNESS,
       vm_timestamp = timestamp, vm_receiver = Some ''0.0.0.0:0'', vm_nonce = nonce, vm_user_agent = user_agent,
       vm_start_height = start_height, vm_relay = False\<rparr>"

record handshake_info =
  hi_version :: version_msg
  hi_send_addr_v2 :: bool
  hi_wtxid_relay :: bool

record hs_wire =
  hw_sent :: "net_message list"
  hw_writes :: "bool list"

text \<open>Sends in order, up to the first that fails.\<close>

fun hs_send :: "net_message list \<Rightarrow> hs_wire \<Rightarrow> bool \<times> hs_wire" where
  "hs_send [] w = (True, w)"
| "hs_send (m # ms) w =
     (case hw_writes w of
        [] \<Rightarrow> hs_send ms (w\<lparr>hw_sent := hw_sent w @ [m]\<rparr>)
      | True # ws \<Rightarrow> hs_send ms (w\<lparr>hw_sent := hw_sent w @ [m], hw_writes := ws\<rparr>)
      | False # ws \<Rightarrow> (False, w\<lparr>hw_writes := ws\<rparr>))"

definition skip_sendaddrv2 :: "version_msg \<Rightarrow> bool" where
  "skip_sendaddrv2 v \<longleftrightarrow> vm_version v = 70013 \<and> vm_user_agent v = ''/btcwire:0.5.0/utreexod:0.5.0/''"

definition version_replies :: "version_msg \<Rightarrow> net_message list" where
  "version_replies v =
     (if skip_sendaddrv2 v then [] else [SendAddrV2])
     @ (if WTXID_RELAY_VERSION \<le> vm_version v then [WtxidRelay] else []) @ [Verack]"

datatype handshake_end = HsDone handshake_info | HsError anyhow | HsStalled

text \<open>A failed write, tagged as the writers tag it.\<close>

definition write_error :: "anyhow \<Rightarrow> anyhow" where
  "write_error e = with_context (CText ''write'') (with_context (CFault WriteFault) e)"

record hs_state =
  hs_version :: "version_msg option"
  hs_verack :: bool
  hs_send_addr_v2 :: bool
  hs_wtxid :: bool
  hs_wire :: hs_wire

text \<open>One message of the peer; \<open>False\<close> when a reply could not be written.\<close>

definition handshake_message :: "net_message \<Rightarrow> hs_state \<Rightarrow> bool \<times> hs_state" where
  "handshake_message msg h =
     (case msg of
        Version v \<Rightarrow>
          (let v = v\<lparr>vm_user_agent := cap_user_agent (vm_user_agent v)\<rparr>; (ok, w) = hs_send (version_replies v) (hs_wire h) in
           if ok then (True, h\<lparr>hs_version := Some v, hs_wire := w\<rparr>) else (False, h\<lparr>hs_wire := w\<rparr>))
      | Verack \<Rightarrow> (True, h\<lparr>hs_verack := True\<rparr>)
      | SendAddrV2 \<Rightarrow> (True, h\<lparr>hs_send_addr_v2 := True\<rparr>)
      | WtxidRelay \<Rightarrow> (True, h\<lparr>hs_wtxid := True\<rparr>)
      | _ \<Rightarrow> (True, h))"

definition hs_info :: "hs_state \<Rightarrow> handshake_info option" where
  "hs_info h =
     (case hs_version h of
        Some v \<Rightarrow>
          if hs_verack h then Some \<lparr>hi_version = v, hi_send_addr_v2 = hs_send_addr_v2 h, hi_wtxid_relay = hs_wtxid h\<rparr> else None
      | None \<Rightarrow> None)"

fun handshake_loop :: "anyhow \<Rightarrow> (anyhow + net_message) list \<Rightarrow> hs_state \<Rightarrow> handshake_end \<times> hs_state" where
  "handshake_loop werr reads h =
     (case hs_info h of
        Some info \<Rightarrow> (HsDone info, h)
      | None \<Rightarrow>
          (case reads of
             [] \<Rightarrow> (HsStalled, h)
           | Inl e # reads \<Rightarrow> (HsError e, h)
           | Inr msg # reads \<Rightarrow>
               (let (ok, h) = handshake_message msg h in
                if ok then handshake_loop werr reads h else (HsError (write_error werr), h))))"

declare handshake_loop.simps [simp del]

definition version_handshake ::
  "anyhow \<Rightarrow> net_message \<Rightarrow> (anyhow + net_message) list \<Rightarrow> bool list \<Rightarrow> handshake_end \<times> hs_state" where
  "version_handshake werr ours reads writes =
     (let (ok, w) = hs_send [ours] \<lparr>hw_sent = [], hw_writes = writes\<rparr>;
          h = \<lparr>hs_version = None, hs_verack = False, hs_send_addr_v2 = False, hs_wtxid = False, hs_wire = w\<rparr> in
      if ok then handshake_loop werr reads h else (HsError (write_error werr), h))"

section \<open>Once it is done\<close>

definition addr_recv :: "version_msg \<Rightarrow> string" where
  "addr_recv v = (case vm_receiver v of None \<Rightarrow> [] | Some s \<Rightarrow> s)"

definition live_of :: "peer_addr \<Rightarrow> u8 \<Rightarrow> handshake_info \<Rightarrow> u64 \<Rightarrow> live" where
  "live_of a tv info unix_ms =
     (let v = hi_version info in
      \<lparr>lv_addr = a, lv_transport_version = tv, lv_connected_ms = unix_ms, lv_user_agent = vm_user_agent v,
       lv_protocol_version = vm_version v, lv_services = vm_services v, lv_start_height = vm_start_height v,
       lv_relay = vm_relay v, lv_sendaddrv2 = hi_send_addr_v2 info, lv_wtxid_relay = hi_wtxid_relay info,
       lv_addr_recv = addr_recv v, lv_peer_timestamp = vm_timestamp v, lv_counters = counters_default, lv_updated_ms = 0\<rparr>)"

definition emit_handshake :: "penv \<Rightarrow> u64 \<Rightarrow> u64 \<Rightarrow> peer_addr \<Rightarrow> u8 \<Rightarrow> handshake_info \<Rightarrow> outbox \<Rightarrow> outbox" where
  "emit_handshake en unix_ms cid a tv info =
     (let v = hi_version info in
      emit_send \<lparr>pe_timestamp_ms = unix_ms, pe_peer_addr = display (en_sha3 en) a, pe_user_agent = vm_user_agent v,
        pe_transport_version = Some (ucast tv), pe_connection_id = cid,
        pe_event = Some (Handshake \<lparr>hs_protocol_version = vm_version v, hs_services = vm_services v,
          hs_start_height = vm_start_height v, hs_relay = vm_relay v, hs_peer_timestamp = vm_timestamp v,
          hs_addr_recv = addr_recv v, hs_sendaddrv2 = hi_send_addr_v2 info, hs_wtxid_relay = hi_wtxid_relay info,
          hs_user_agent = vm_user_agent v, hs_nonce = vm_nonce v\<rparr>),
        pe_dropped_events = 0, pe_dropped_by_kind = None, pe_instance_id = 0\<rparr>)"

section \<open>Running a session\<close>

record pconfig =
  pc_user_agent :: string
  pc_sync_headers :: bool
  pc_probe_compact_blocks :: bool
  pc_tor_enabled :: bool

text \<open>What the tasks of an observer share.\<close>

record world =
  w_tree :: tree
  w_outbox :: outbox
  w_gossip :: "gossiped list list"
  w_life :: "lifecycle list"
  w_registry :: registry

record script =
  sc_reads :: "(anyhow + net_message) list"
  sc_inputs :: "session_input list"
  sc_last_read :: anyhow
  sc_hs_writes :: "bool list"
  sc_writes :: "bool list"
  sc_write_error :: anyhow
  sc_timestamp :: "64 word"
  sc_nonce :: u64
  sc_connected_at :: nat
  sc_unix_ms :: u64
  sc_undecodable :: u32

record session_end =
  end_connected_at :: nat
  end_error :: "anyhow option"
  end_user_agent :: string
  end_messages_by_command :: "(string, u32) btree"
  end_messages_other :: u32
  end_unsolicited_pongs :: u32
  end_undecodable :: u32
  end_getheaders_ignored :: u32

definition end_silent :: "session_end \<Rightarrow> bool" where
  "end_silent e \<longleftrightarrow> end_messages_by_command e = [] \<and> end_messages_other e = 0"

definition session_new :: "pconfig \<Rightarrow> u8 \<Rightarrow> u64 \<Rightarrow> peer_addr \<Rightarrow> handshake_info \<Rightarrow> script \<Rightarrow> world \<Rightarrow> session" where
  "session_new cfg tv cid a info sc w =
     \<lparr>addr_tokens = ADDR_BURST, addr_tokens_updated = sc_connected_at sc, getheaders_tokens = GETHEADERS_BURST,
      getheaders_tokens_updated = sc_connected_at sc, getaddr_outstanding = False, peer_version = hi_version info,
      conn_stats = stats_new (sc_connected_at sc), se_addr = a, transport_version = tv, connection_id = cid,
      sync_headers = pc_sync_headers cfg, asked_for = None, probe_compact_blocks = pc_probe_compact_blocks cfg,
      se_tree = w_tree w, se_outbox = w_outbox w, se_gossip = w_gossip w, se_registry = w_registry w, se_sent = [],
      se_writes = sc_writes sc\<rparr>"

fun session_failure :: "anyhow \<Rightarrow> session_error \<Rightarrow> anyhow" where
  "session_failure werr WriteFailed = write_error werr"
| "session_failure werr e = error_new (CSession e)"

datatype 'a run_result = RunPanicked | RunError anyhow | RunOk 'a

definition end_of :: "anyhow \<Rightarrow> script \<Rightarrow> session \<Rightarrow> session_end" where
  "end_of e sc s =
     \<lparr>end_connected_at = sc_connected_at sc, end_error = Some e, end_user_agent = vm_user_agent (peer_version s),
      end_messages_by_command = messages_by_command (conn_stats s), end_messages_other = messages_other (conn_stats s),
      end_unsolicited_pongs = unsolicited_pongs (conn_stats s), end_undecodable = sc_undecodable sc,
      end_getheaders_ignored = getheaders_ignored (conn_stats s)\<rparr>"

text \<open>After the handshake: the peer is reported connected, published and registered until the loop has ended.\<close>

definition live_world :: "penv \<Rightarrow> u8 \<Rightarrow> u64 \<Rightarrow> peer_addr \<Rightarrow> handshake_info \<Rightarrow> script \<Rightarrow> world \<Rightarrow> world" where
  "live_world en tv cid a info sc w =
     w\<lparr>w_life := handle_connected a (vm_services (hi_version info)) tv (w_life w),
       w_outbox := emit_handshake en (sc_unix_ms sc) cid a tv info (w_outbox w),
       w_registry := reg_register cid (live_of a tv info (sc_unix_ms sc)) (w_registry w)\<rparr>"

definition live_result :: "script \<Rightarrow> (session_error + unit) \<times> session \<Rightarrow> session_end run_result" where
  "live_result sc q =
     (case fst q of
        Inl e \<Rightarrow> if e = Panicked then RunPanicked else RunOk (end_of (session_failure (sc_write_error sc) e) sc (snd q))
      | Inr _ \<Rightarrow> RunOk (end_of (sc_last_read sc) sc (snd q)))"

definition run_live ::
  "penv \<Rightarrow> pconfig \<Rightarrow> u8 \<Rightarrow> u64 \<Rightarrow> peer_addr \<Rightarrow> handshake_info \<Rightarrow> script \<Rightarrow> world \<Rightarrow> session_end run_result \<times> world" where
  "run_live en cfg tv cid a info sc w =
     (let w = live_world en tv cid a info sc w;
          q = session_run en (sc_inputs sc) (session_new cfg tv cid a info sc w);
          s = snd q in
      (live_result sc q,
       w\<lparr>w_tree := se_tree s, w_outbox := se_outbox s, w_gossip := se_gossip s, w_registry := reg_drop cid (se_registry s)\<rparr>))"

definition run_session ::
  "penv \<Rightarrow> pconfig \<Rightarrow> u8 \<Rightarrow> u64 \<Rightarrow> peer_addr \<Rightarrow> script \<Rightarrow> world \<Rightarrow> session_end run_result \<times> world" where
  "run_session en cfg tv cid a sc w =
     (case fst (version_handshake (sc_write_error sc)
        (build_version (pc_user_agent cfg) (of_nat (tip_height (w_tree w))) (sc_timestamp sc) (sc_nonce sc))
        (sc_reads sc) (sc_hs_writes sc)) of
        HsStalled \<Rightarrow> (RunError (error_new (CStage StVersionHandshakeTimeout)), w)
      | HsError e \<Rightarrow> (RunError (with_context (CStage StVersionHandshake) e), w)
      | HsDone info \<Rightarrow> run_live en cfg tv cid a info sc w)"

end
