(* ===== verification/Attempt.thy ===== *)
theory Attempt
  imports Handshake
begin

text \<open>
  \<^verbatim>\<open>observer/src/connection.rs\<close>: one attempt to reach an address, from the TCP connection to the report of its
  outcome, and the bootstrap header sync of \<^verbatim>\<open>observer/src/lib.rs\<close> that is built on it. What the network does is
  given by scripts: the outcome of each call that can fail, with \<open>None\<close> where a deadline strikes. The
  identifiers of connections come from a counter and are an argument.
\<close>

section \<open>Connecting\<close>

type_synonym 'a fallible = "anyhow + 'a"

record tcp_script =
  ts_proxy_parsed :: bool
  ts_socks :: "unit fallible option"
  ts_connect :: "unit fallible option"
  ts_nodelay :: "unit fallible"
  ts_user_timeout :: "unit fallible"

definition context_of :: "cause \<Rightarrow> 'a fallible \<Rightarrow> 'a fallible" where
  "context_of c r = (case r of Inl e \<Rightarrow> Inl (with_context c e) | Inr x \<Rightarrow> Inr x)"

definition and_then :: "'a fallible \<Rightarrow> 'b fallible \<Rightarrow> 'b fallible" where
  "and_then r r' = (case r of Inl e \<Rightarrow> Inl e | Inr _ \<Rightarrow> r')"

definition timed :: "stage \<Rightarrow> 'a fallible option \<Rightarrow> 'a fallible" where
  "timed st r = (case r of None \<Rightarrow> Inl (error_new (CStage st)) | Some r \<Rightarrow> r)"

definition configure_stream :: "tcp_script \<Rightarrow> unit fallible" where
  "configure_stream ts =
     and_then (context_of (CText ''set_nodelay'') (ts_nodelay ts)) (context_of (CText ''TCP_USER_TIMEOUT'') (ts_user_timeout ts))"

definition tor_connect :: "bool \<Rightarrow> tcp_script \<Rightarrow> unit fallible" where
  "tor_connect enabled ts =
     (if \<not> enabled
      then Inl (with_context (CText ''attempted to connect to a TorV3 address, but Tor is disabled'')
                  (error_new (CStage StNetworkDisabled)))
      else if \<not> ts_proxy_parsed ts
      then Inl (with_context (CText ''invalid SOCKS5 proxy address'') (error_new (CText ''invalid socket address'')))
      else and_then (timed StTorProxyTimeout (map_option (context_of (CStage StProxyUnreachable)) (ts_socks ts)))
             (configure_stream ts))"

definition ip_connect :: "peer_addr \<Rightarrow> tcp_script \<Rightarrow> unit fallible" where
  "ip_connect a ts =
     (case socket_addr a of
        None \<Rightarrow> Inl (error_new (CText ''address has no socket address''))
      | Some _ \<Rightarrow>
          and_then (timed StTcpConnectTimeout (map_option (context_of (CText ''TCP connect'')) (ts_connect ts)))
            (configure_stream ts))"

definition tcp_connect :: "peer_addr \<Rightarrow> bool \<Rightarrow> tcp_script \<Rightarrow> unit fallible" where
  "tcp_connect a tor_enabled ts =
     (case net_of a of
        NetTorV3 \<Rightarrow> tor_connect tor_enabled ts
      | NetI2p \<Rightarrow> Inl (with_context (CText ''I2P is not supported yet'') (error_new (CStage StNetworkDisabled)))
      | _ \<Rightarrow> ip_connect a ts)"

record conn_script =
  cs_tcp :: tcp_script
  cs_v2 :: "unit fallible option"
  cs_session :: script

definition connect_v2 ::
  "penv \<Rightarrow> pconfig \<Rightarrow> u64 \<Rightarrow> dial \<Rightarrow> conn_script \<Rightarrow> world \<Rightarrow> session_end run_result \<times> world" where
  "connect_v2 en cfg cid d cs w =
     (case and_then (tcp_connect (d_addr d) (pc_tor_enabled cfg) (cs_tcp cs))
             (timed StV2TransportTimeout (map_option (context_of (CStage StV2TransportHandshake)) (cs_v2 cs))) of
        Inl e \<Rightarrow> (RunError e, w)
      | Inr _ \<Rightarrow> run_session en cfg 2 cid (d_addr d) (cs_session cs) w)"

definition connect_v1 ::
  "penv \<Rightarrow> pconfig \<Rightarrow> u64 \<Rightarrow> dial \<Rightarrow> conn_script \<Rightarrow> world \<Rightarrow> session_end run_result \<times> world" where
  "connect_v1 en cfg cid d cs w =
     (case tcp_connect (d_addr d) (pc_tor_enabled cfg) (cs_tcp cs) of
        Inl e \<Rightarrow> (RunError e, w)
      | Inr _ \<Rightarrow> run_session en cfg 1 cid (d_addr d) (cs_session cs) w)"

text \<open>What happens when each of the two transports is tried, and the clocks of the attempt.\<close>

record attempt_script =
  at_v2 :: conn_script
  at_v1 :: conn_script
  at_started :: nat
  at_uptime_read :: nat
  at_elapsed_read :: nat
  at_unix_ms :: u64

definition with_version :: "u8 \<Rightarrow> 'a run_result \<times> world \<Rightarrow> (u8 \<times> 'a) run_result \<times> world" where
  "with_version v r = (case r of (RunOk x, w) \<Rightarrow> (RunOk (v, x), w) | (RunError e, w) \<Rightarrow> (RunError e, w)
                        | (RunPanicked, w) \<Rightarrow> (RunPanicked, w))"

definition connect_and_run ::
  "penv \<Rightarrow> pconfig \<Rightarrow> u64 \<Rightarrow> dial \<Rightarrow> attempt_script \<Rightarrow> world \<Rightarrow> (u8 \<times> session_end) run_result \<times> world" where
  "connect_and_run en cfg cid d ats w =
     (case d_transport d of
        HintV2 \<Rightarrow> with_version 2 (connect_v2 en cfg cid d (at_v2 ats) w)
      | HintV1Only \<Rightarrow> with_version 1 (connect_v1 en cfg cid d (at_v1 ats) w)
      | HintUnknown \<Rightarrow>
          (case connect_v2 en cfg cid d (at_v2 ats) w of
             (RunError e, w) \<Rightarrow>
               if is_tcp_level e then (RunError e, w)
               else with_version 1 (connect_v1 en cfg cid d (at_v1 ats) (w\<lparr>w_life := handle_v1_only (d_addr d) (w_life w)\<rparr>))
           | r \<Rightarrow> with_version 2 r))"

section \<open>The outcome\<close>

definition session_outcome :: "session_end \<Rightarrow> u32 \<Rightarrow> outcome" where
  "session_outcome fin uptime_secs =
     (if (case end_error fin of None \<Rightarrow> False | Some e \<Rightarrow> other_chain_of e \<noteq> None) then OtherChain
      else if (case end_error fin of None \<Rightarrow> False | Some e \<Rightarrow> is_violation e) then Violated
      else Disconnected uptime_secs (end_silent fin))"

text \<open>Durations are nanoseconds; \<^verbatim>\<open>as\<close> truncates.\<close>

definition as_millis :: "nat \<Rightarrow> u64" where
  "as_millis ns = of_nat (ns div 1000000)"

definition as_secs_u32 :: "nat \<Rightarrow> u32" where
  "as_secs_u32 ns = ucast (of_nat (ns div NANOS_PER_SEC) :: u64)"

definition disconnected_result :: "nat \<Rightarrow> nat \<Rightarrow> disconnect_reason \<Rightarrow> session_end \<Rightarrow> connection_result" where
  "disconnected_result setup uptime r fin =
     ResDisconnected \<lparr>dc_setup_ms = as_millis setup, dc_uptime_ms = as_millis uptime, dc_reason = r,
       dc_messages_by_command = end_messages_by_command fin, dc_messages_other = end_messages_other fin,
       dc_unsolicited_pongs = end_unsolicited_pongs fin, dc_undecodable = end_undecodable fin,
       dc_getheaders_ignored = end_getheaders_ignored fin\<rparr>"

fun our_fault_event :: "our_fault \<Rightarrow> our_fault_reason" where
  "our_fault_event NetworkUnreachable = FaultNetworkUnreachable"
| "our_fault_event ProxyUnreachable = FaultProxyUnreachable"
| "our_fault_event NetworkDisabled = FaultNetworkDisabled"

fun failure_event :: "reason \<Rightarrow> failure_reason" where
  "failure_event ConnectionRefused = FailConnectionRefused"
| "failure_event HostUnreachable = FailHostUnreachable"
| "failure_event TcpConnectTimeout = FailTcpConnectTimeout"
| "failure_event V2TransportTimeout = FailV2TransportTimeout"
| "failure_event VersionHandshakeTimeout = FailVersionHandshakeTimeout"
| "failure_event V2TransportHandshake = FailV2TransportHandshake"
| "failure_event VersionHandshake = FailVersionHandshake"
| "failure_event UnexpectedEof = FailUnexpectedEof"
| "failure_event OtherReason = FailOther"

fun failed_result :: "outcome \<Rightarrow> nat \<Rightarrow> connection_result" where
  "failed_result (OurFault r) elapsed = ResOurFault (our_fault_event r) (as_millis elapsed)"
| "failed_result (Failed r) elapsed = ResFailed (failure_event r) (as_millis elapsed)"
| "failed_result _ elapsed = ResFailed FailUnknown (as_millis elapsed)"

definition emit_result ::
  "penv \<Rightarrow> u64 \<Rightarrow> u64 \<Rightarrow> dial \<Rightarrow> u32 option \<Rightarrow> string \<Rightarrow> connection_result \<Rightarrow> world \<Rightarrow> world" where
  "emit_result en unix_ms cid d tv ua res w = w\<lparr>w_outbox := emit_send
     \<lparr>pe_timestamp_ms = unix_ms, pe_peer_addr = display (en_sha3 en) (d_addr d), pe_user_agent = ua,
      pe_transport_version = tv, pe_connection_id = cid, pe_event = Some (ConnectionResult res),
      pe_dropped_events = 0, pe_dropped_by_kind = None, pe_instance_id = 0\<rparr> (w_outbox w)\<rparr>"

fun attempted_version :: "transport_hint \<Rightarrow> u32 option" where
  "attempted_version HintV2 = Some 2"
| "attempted_version HintV1Only = Some 1"
| "attempted_version HintUnknown = None"

text \<open>Dropping the guard of the attempt reports it to the manager.\<close>

definition end_attempt :: "end_guard \<Rightarrow> world \<Rightarrow> world" where
  "end_attempt g w = w\<lparr>w_life := w_life w @ [guard_drop g]\<rparr>"

definition attempt :: "penv \<Rightarrow> pconfig \<Rightarrow> u64 \<Rightarrow> dial \<Rightarrow> attempt_script \<Rightarrow> world \<Rightarrow> world" where
  "attempt en cfg cid d ats w =
     (let g = guard_new (d_addr d) in
      case connect_and_run en cfg cid d ats w of
        (RunPanicked, w) \<Rightarrow> end_attempt g w
      | (RunOk (v, fin), w) \<Rightarrow>
          (let uptime = at_uptime_read ats - end_connected_at fin;
               setup = (at_elapsed_read ats - at_started ats) - uptime;
               res = disconnected_result setup uptime (classify_session_end (end_error fin)) fin;
               out = session_outcome fin (as_secs_u32 uptime) in
           end_attempt (guard_finish g out)
             (emit_result en (at_unix_ms ats) cid d (Some (ucast v)) (end_user_agent fin) res w))
      | (RunError e, w) \<Rightarrow>
          (let out = classify_failure e (net_of (d_addr d)) in
           end_attempt (guard_finish g out)
             (emit_result en (at_unix_ms ats) cid d (attempted_version (d_transport d)) []
               (failed_result out (at_elapsed_read ats - at_started ats)) w)))"

section \<open>The bootstrap sync\<close>

definition bootstrap_attempt ::
  "penv \<Rightarrow> pconfig \<Rightarrow> u64 \<Rightarrow> peer_addr \<Rightarrow> attempt_script \<Rightarrow> world \<Rightarrow> nat run_result \<times> world" where
  "bootstrap_attempt en cfg cid a ats w =
     (let g = guard_new a in
      case connect_and_run en cfg cid \<lparr>d_addr = a, d_transport = HintUnknown\<rparr> ats w of
        (RunPanicked, w) \<Rightarrow> (RunPanicked, end_attempt g w)
      | (RunOk (v, fin), w) \<Rightarrow>
          (RunOk (end_connected_at fin),
           end_attempt (guard_finish g (session_outcome fin (as_secs_u32 (at_uptime_read ats - end_connected_at fin)))) w)
      | (RunError e, w) \<Rightarrow> (RunError e, end_attempt (guard_finish g (classify_failure e (net_of a))) w))"

definition signals_sync_complete :: "anyhow \<Rightarrow> bool" where
  "signals_sync_complete e \<longleftrightarrow>
     downcast (\<lambda>c. if c = CSession SyncComplete then Some () else None) e \<noteq> None
     \<or> list_ex (\<lambda>c. c = CSession SyncComplete) (chain_causes e)"

text \<open>
  Peers are tried in turn, over and over, each attempt with its identifier and script: \<open>True\<close> once the
  sync counts as complete, \<open>False\<close> while it has not, \<open>None\<close> for a panic.
\<close>

fun bootstrap_sync ::
  "penv \<Rightarrow> pconfig \<Rightarrow> (u64 \<times> peer_addr \<times> attempt_script) list \<Rightarrow> world \<Rightarrow> bool option \<times> world" where
  "bootstrap_sync en cfg [] w = (Some False, w)"
| "bootstrap_sync en cfg ((cid, a, ats) # tries) w =
     (case bootstrap_attempt en cfg cid a ats w of
        (RunPanicked, w) \<Rightarrow> (None, w)
      | (RunOk _, w) \<Rightarrow> (Some True, w)
      | (RunError e, w) \<Rightarrow> if signals_sync_complete e then (Some True, w) else bootstrap_sync en cfg tries w)"

end
