(* ===== verification/Header_Held.thy ===== *)
theory Header_Held
  imports Header_Serve
begin

text \<open>
  What answering peers needs of a tree without any assumption on what was inserted: the best chain is not
  empty and its blocks are held. A batch keeps that unconditionally, since whenever headers are pruned
  the best chain is rebuilt.
\<close>

definition best_held :: "tree \<Rightarrow> bool" where
  "best_held t \<longleftrightarrow> best_chain t \<noteq> [] \<and> set (best_chain t) \<subseteq> dom (map_of (headers t))"

definition tree_held :: "chain \<Rightarrow> tree \<Rightarrow> bool" where
  "tree_held C t \<longleftrightarrow> tree_ok C t \<and> best_held t"

lemma best_ok_held: "best_ok t \<Longrightarrow> best_held t"
  using descends_set [of "headers t" "rev (best_chain t)"] by (auto simp: best_ok_def best_held_def)

lemma best_held_mono:
  "best_held t \<Longrightarrow> best_chain t' = best_chain t \<Longrightarrow> map_of (headers t) \<subseteq>\<^sub>m map_of (headers t') \<Longrightarrow> best_held t'"
  unfolding best_held_def using map_le_implies_dom_le by fastforce

lemma insert_inner_held:
  assumes "hash_order ho" "tree_held C t" "insert_inner ho C hdr t = Some (res, t')"
  shows "tree_held C t'"
proof -
  have ok: "tree_ok C t" "best_held t" using assms(2) by (auto simp: tree_held_def)
  have "tree_ok C t'" using insert_inner_ok [OF assms(1) ok(1), of hdr] assms(3) by auto
  moreover have "best_held t'"
  proof (rule insert_inner_cases [OF assms(1) ok(1), of hdr])
    fix p t''
    assume a: "insert_inner ho C hdr t = Some (Inr True, t'')" "map_of (headers t) (c_hash C hdr) = None"
      "map_of (headers t) (prev_blockhash hdr) = Some p" "validate_header C t hdr (he_height p + 1) p = Inr ()"
    let ?h = "c_hash C hdr" and ?n = "he_height p + 1" and ?w = "he_work p + c_work C hdr"
    have e: "map_of (headers (attached C hdr p t)) ?h = Some \<lparr>he_header = hdr, he_height = ?n, he_work = ?w\<rparr>"
      by (simp add: attached_get)
    have "\<forall>r. reached_checkpoint (attached C hdr p t) = Some r \<longrightarrow> r < ?n" using validate_header_Inr(3) [OF a(4)] by simp
    from note_checkpoint_ok [OF assms(1) attached_inv(1) [OF ok(1) a(2-4)] e _ this] obtain t1 where
      t1: "note_checkpoint ho ?h ?n (attached C hdr p t) = Some t1" "noted ?n (attached C hdr p t) t1" by auto
    have "best_held (attached C hdr p t)"
      using ok(2) by (rule best_held_mono) (auto simp: attached_get map_le_def a(2))
    then have "best_held t1"
      using t1(2) best_ok_held by (auto simp: noted_def best_held_def)
    moreover have "t' = weighed ?h ?n ?w t1"
      using assms(3) a(2-4) t1(1) by (simp add: insert_inner_def Let_def contains_key_def attached_def weighed_def)
    ultimately show "best_held t'" by (simp add: best_held_def)
  qed (use assms(3) ok(2) in \<open>auto simp: best_held_def\<close>)
  ultimately show ?thesis by (simp add: tree_held_def)
qed

lemma insert_all_held:
  assumes "hash_order ho" "tree_held C t"
  shows "\<exists>n' err' t'. insert_all ho C hdrs n err t = Some (n', err', t') \<and> tree_held C t'"
  using assms(2)
proof (induction hdrs arbitrary: n err t)
  case (Cons hdr hdrs)
  obtain res t1 where t1: "insert_inner ho C hdr t = Some (res, t1)"
    using insert_inner_ok [OF assms(1), of C t hdr] Cons.prems by (auto simp: tree_held_def)
  obtain n1 err1 where "insert_all ho C (hdr # hdrs) n err t = insert_all ho C hdrs n1 err1 t1"
    using insert_all_Cons [OF t1] by blast
  with Cons.IH [OF insert_inner_held [OF assms(1) Cons.prems t1], of n1 err1] show ?case by simp
qed simp

lemma insert_batch_held:
  assumes "hash_order ho" "tree_held C t"
  obtains n err t' where "insert_batch ho C hdrs t = Some (n, err, t')" "tree_held C t'"
proof -
  obtain n err t1 where t1: "insert_all ho C hdrs 0 None t = Some (n, err, t1)" "tree_held C t1"
    using insert_all_held [OF assms, of hdrs 0 None] by blast
  show ?thesis
  proof (cases "tip t1 = tip t")
    case True
    then show ?thesis using t1 by (intro that [of n err t1]) (simp_all add: insert_batch_def)
  next
    case False
    have ok: "tree_ok C t1" using t1(2) by (simp add: tree_held_def)
    obtain e where "wf_headers C (headers t1)" "map_of (headers t1) (tip t1) = Some e"
      using ok by (auto simp: tree_ok_def tree_inv_def tip_ok_def)
    from rebuild_best_chain_total [OF this] obtain ks where ks:
      "rebuild_best_chain t1 = Some (t1\<lparr>best_chain := rev ks\<rparr>)" "descends (headers t1) ks" "hd ks = tip t1" by blast
    let ?t = "t1\<lparr>best_chain := rev ks\<rparr>"
    have "tree_ok C ?t" using ok
      by (simp add: tree_ok_def tree_inv_def tip_ok_def heaviest_but_def checkpoints_obeyed_def reached_ok_def)
    moreover have "best_ok ?t" using ks by (simp add: best_ok_def last_rev)
    ultimately show ?thesis using False t1(1) ks(1) best_ok_held
      by (intro that [of n err ?t]) (simp_all add: insert_batch_def tree_held_def)
  qed
qed

lemma tree_held_recovery: "tree_held C t \<Longrightarrow> tree_held C (snd (recovery_due m p now t))"
  by (auto simp: recovery_due_def Let_def tree_held_def best_held_def tree_ok_def tree_inv_def tip_ok_def heaviest_but_def
      checkpoints_obeyed_def reached_ok_def split: option.splits)

lemma build_locator_held:
  assumes "best_held t"
  obtains l where "build_locator t = Some l"
  using assms by (cases "best_chain t") (auto simp: best_held_def build_locator_def Let_def)

lemma get_headers_held:
  assumes "best_held t"
  obtains out where "get_headers_from_locator t loc stop = Some out" "length out \<le> 2000"
proof -
  let ?s = "locator_start t loc" and ?bc = "best_chain t"
  have "?s \<le> length ?bc"
    using assms by (cases ?bc) (auto simp: locator_start_def best_held_def find_Some_iff split: option.splits)
  moreover have "\<forall>h \<in> set (take (min (?s + 2000) (length ?bc) - ?s) (drop ?s ?bc)). map_of (headers t) h \<noteq> None"
    using assms by (auto simp: best_held_def dest!: in_set_takeD in_set_dropD)
  from serve_headers_spec [OF this, of stop] obtain out where
    "serve_headers (headers t) stop (take (min (?s + 2000) (length ?bc) - ?s) (drop ?s ?bc)) = Some out"
    "length out \<le> length (take (min (?s + 2000) (length ?bc) - ?s) (drop ?s ?bc))" by blast
  ultimately show ?thesis by (intro that [of out]) (auto simp: get_headers_from_locator_def Let_def)
qed

end
