(* ===== verification/Session_Inv.thy ===== *)
theory Session_Inv
  imports Protocol Header_Held
begin

text \<open>
  What holds of a session whatever its peer sends: its invariant is kept by every handler and no handler
  panics. The rules for the step combinators let the handlers be checked along their text.
\<close>

section \<open>Rules for steps\<close>

text \<open>A step leaves the state in \<open>P\<close>, and the error it ends with, if any, is one of \<open>Q\<close>.\<close>

definition step_keeps :: "(session_error \<Rightarrow> bool) \<Rightarrow> (session \<Rightarrow> bool) \<Rightarrow> 'a step \<Rightarrow> session \<Rightarrow> bool" where
  "step_keeps Q P m s \<longleftrightarrow> P (snd (m s)) \<and> (\<forall>e. fst (m s) = Inl e \<longrightarrow> Q e)"

abbreviation no_panic :: "session_error \<Rightarrow> bool" where
  "no_panic e \<equiv> e \<noteq> Panicked"

named_theorems keeps_rules "rules for steps that keep a predicate"

lemma keeps_bind: "step_keeps Q P m s \<Longrightarrow> (\<And>x s'. P s' \<Longrightarrow> step_keeps Q P (f x) s') \<Longrightarrow> step_keeps Q P (step_bind m f) s"
  by (auto simp: step_keeps_def step_bind_def split: prod.splits sum.splits)

lemma keeps_then [keeps_rules]: "step_keeps Q P m s \<Longrightarrow> (\<And>s'. P s' \<Longrightarrow> step_keeps Q P n s') \<Longrightarrow> step_keeps Q P (step_then m n) s"
  unfolding step_then_def by (rule keeps_bind)

lemma keeps_get [keeps_rules]: "step_keeps Q P (f (g s)) s \<Longrightarrow> step_keeps Q P (step_bind (step_get g) f) s"
  by (simp add: step_keeps_def step_bind_def step_get_def)

lemma keeps_mod [keeps_rules]: "P (f s) \<Longrightarrow> step_keeps Q P (step_mod f) s"
  by (simp add: step_keeps_def step_mod_def)

lemma keeps_ret [keeps_rules]: "P s \<Longrightarrow> step_keeps Q P (step_ret x) s"
  by (simp add: step_keeps_def step_ret_def)

lemma keeps_fail [keeps_rules]: "P s \<Longrightarrow> Q e \<Longrightarrow> step_keeps Q P (step_fail e) s"
  by (simp add: step_keeps_def step_fail_def)

lemma keeps_when [keeps_rules]: "P s \<Longrightarrow> (b \<Longrightarrow> step_keeps Q P m s) \<Longrightarrow> step_keeps Q P (step_when b m) s"
  by (simp add: step_when_def keeps_ret)

text \<open>A step that changes the state first, with the changed state known to what follows.\<close>

lemma keeps_mod_then: "step_keeps Q P n (f s) \<Longrightarrow> step_keeps Q P (step_then (step_mod f) n) s"
  by (simp add: step_keeps_def step_then_def step_bind_def step_mod_def)

section \<open>The invariant\<close>

definition session_ok :: "penv \<Rightarrow> session \<Rightarrow> bool" where
  "session_ok en s \<longleftrightarrow>
     tree_held (en_chain en) (se_tree s) \<and> stats_ok (conn_stats s)
     \<and> 0 \<le> addr_tokens s \<and> addr_tokens s \<le> ADDR_BURST
     \<and> 0 \<le> getheaders_tokens s \<and> getheaders_tokens s \<le> GETHEADERS_BURST
     \<and> length (ob_queue (se_outbox s)) \<le> EVENT_QUEUE \<and> length (se_gossip s) \<le> GOSSIP_QUEUE
     \<and> hm_ok (se_registry s)"

lemma session_ok_frame [simp]:
  "session_ok en (s\<lparr>asked_for := h\<rparr>) = session_ok en s"
  "session_ok en (s\<lparr>getaddr_outstanding := b\<rparr>) = session_ok en s"
  "session_ok en (s\<lparr>se_sent := ms\<rparr>) = session_ok en s"
  "session_ok en (s\<lparr>se_writes := ws\<rparr>) = session_ok en s"
  "session_ok en (s\<lparr>addr_tokens_updated := n\<rparr>) = session_ok en s"
  "session_ok en (s\<lparr>getheaders_tokens_updated := n\<rparr>) = session_ok en s"
  by (simp_all add: session_ok_def)

lemma keeps_send [keeps_rules]: "session_ok en s \<Longrightarrow> step_keeps no_panic (session_ok en) (send_msg m) s"
  by (auto simp: step_keeps_def send_msg_def split: list.splits bool.splits)

lemma outbox_bound: "length (ob_queue ob) \<le> EVENT_QUEUE \<Longrightarrow> length (ob_queue (emit_send ev ob)) \<le> EVENT_QUEUE"
  by (cases rule: emit_send_cases [of ev ob]) (auto simp: count_drop_def Let_def split: option.splits)

lemma keeps_emit [keeps_rules]: "session_ok en s \<Longrightarrow> step_keeps no_panic (session_ok en) (emit_event en' i ev) s"
  unfolding emit_event_def by (rule keeps_mod) (simp add: session_ok_def outbox_bound)

lemma keeps_announce [keeps_rules]:
  "session_ok en s \<Longrightarrow> step_keeps no_panic (session_ok en) (emit_block_announcement en' i h ty n new shape) s"
  unfolding emit_block_announcement_def by (intro keeps_rules)

lemma keeps_probe [keeps_rules]: "session_ok en s \<Longrightarrow> step_keeps no_panic (session_ok en) (emit_compact_block_probe en' i h st) s"
  unfolding emit_compact_block_probe_def by (intro keeps_rules)

section \<open>Every handler keeps it\<close>

lemma keeps_getheaders [keeps_rules]: "session_ok en s \<Longrightarrow> step_keeps no_panic (session_ok en) send_getheaders s"
proof -
  assume ok: "session_ok en s"
  then obtain l where "build_locator (se_tree s) = Some l"
    by (meson build_locator_held session_ok_def tree_held_def)
  with ok show ?thesis unfolding send_getheaders_def by (intro keeps_get) (simp add: keeps_send)
qed

lemma session_ok_tree: "session_ok en s \<Longrightarrow> tree_held (en_chain en) t \<Longrightarrow> session_ok en (s\<lparr>se_tree := t\<rparr>)"
  by (simp add: session_ok_def)

lemma keeps_recover [keeps_rules]: "session_ok en s \<Longrightarrow> step_keeps no_panic (session_ok en) (recover_headers i h p) s"
proof -
  assume ok: "session_ok en s"
  obtain due t where t: "recovery_due h p (io_now i) (se_tree s) = (due, t)" by fastforce
  have "tree_held (en_chain en) t"
    using tree_held_recovery [of "en_chain en" "se_tree s" h p "io_now i"] ok by (simp add: session_ok_def t)
  then have ok': "session_ok en (s\<lparr>se_tree := t\<rparr>)" using ok by (rule session_ok_tree [rotated])
  show ?thesis unfolding recover_headers_def
    using ok ok' by (intro keeps_get) (auto simp: t intro!: keeps_rules)
qed

lemma keeps_accept:
  assumes "hash_order (en_order en)" "session_ok en s"
  shows "step_keeps no_panic (session_ok en) (accept_headers en i hdrs) s"
proof -
  have "tree_held (en_chain en) (se_tree s)" using assms(2) by (simp add: session_ok_def)
  from insert_batch_held [OF assms(1) this, of hdrs] obtain n err t where
    t: "insert_batch (en_order en) (en_chain en) hdrs (se_tree s) = Some (n, err, t)" "tree_held (en_chain en) t" by blast
  have "session_ok en (s\<lparr>se_tree := t\<rparr>)" using assms(2) t(2) by (rule session_ok_tree)
  with assms(2) show ?thesis unfolding accept_headers_def
    by (intro keeps_get) (auto simp: t(1) intro!: keeps_rules)
qed

lemma keeps_announce_headers [keeps_rules]:
  "session_ok en s \<Longrightarrow> step_keeps no_panic (session_ok en) (announce_headers en' i n xs) s"
proof (induction xs arbitrary: s)
  case (Cons x xs)
  then show ?case by (cases x) (auto intro!: keeps_rules)
qed (simp add: keeps_ret)

lemma keeps_headers:
  assumes "hash_order (en_order en)" "session_ok en s"
  shows "step_keeps no_panic (session_ok en) (handle_headers en i hdrs) s"
  unfolding handle_headers_def Let_def using assms
  by (auto intro!: keeps_get keeps_bind keeps_accept keeps_rules split: prod.splits option.splits)

lemma keeps_cmpct:
  assumes "hash_order (en_order en)" "session_ok en s"
  shows "step_keeps no_panic (session_ok en) (handle_cmpct_block en i cb) s"
  unfolding handle_cmpct_block_def Let_def request_compact_block_coinbase_def using assms
  by (auto intro!: keeps_get keeps_bind keeps_accept keeps_rules split: prod.splits option.splits)

lemma keeps_inv_loop: "session_ok en s \<Longrightarrow> step_keeps no_panic (session_ok en) (inv_loop en' i n xs a g) s"
proof (induction xs arbitrary: s a g)
  case (Cons x xs)
  then show ?case by (auto intro!: keeps_rules split: option.splits)
qed (simp add: keeps_ret)

lemma keeps_inv: "session_ok en s \<Longrightarrow> step_keeps no_panic (session_ok en) (handle_inv en' i xs) s"
  unfolding handle_inv_def Let_def by (auto intro!: keeps_rules keeps_bind keeps_inv_loop)

lemma session_ok_stats: "session_ok en s \<Longrightarrow> stats_ok st \<Longrightarrow> session_ok en (s\<lparr>conn_stats := st\<rparr>)"
  by (simp add: session_ok_def)

lemma session_ok_stats_of: "session_ok en s \<Longrightarrow> stats_ok (conn_stats s)"
  by (simp add: session_ok_def)

lemma keeps_pong: "session_ok en s \<Longrightarrow> step_keeps no_panic (session_ok en) (handle_pong en' i n) s"
  unfolding handle_pong_def Let_def
  by (intro keeps_get)
    (auto simp: case_prod_beta intro!: keeps_rules session_ok_stats stats_ok_pong stats_ok_rtt dest: session_ok_stats_of)

lemma keeps_ping_tick: "session_ok en s \<Longrightarrow> step_keeps no_panic (session_ok en) (ping_tick i) s"
  unfolding ping_tick_def send_ping_def
  by (intro keeps_get)
    (auto simp: session_ok_def stats_ok_ping reg_refresh_def Let_def intro!: keeps_rules split: option.splits)

section \<open>Gossip and requests for headers\<close>

lemma kept_le: "0 \<le> t \<Longrightarrow> of_nat (min n (nat \<lfloor>t\<rfloor>)) \<le> (t :: rat)"
proof -
  assume "0 \<le> t"
  then have "(of_nat (nat \<lfloor>t\<rfloor>) :: rat) \<le> t" by (simp add: of_nat_nat)
  moreover have "(of_nat (min n (nat \<lfloor>t\<rfloor>)) :: rat) \<le> of_nat (nat \<lfloor>t\<rfloor>)" by (subst of_nat_le_iff) simp
  ultimately show ?thesis by linarith
qed

text \<open>How many of the parsed addresses an unsolicited message keeps.\<close>

lemma kept_count: "n - (if a < n then n - a else 0) = min n (a :: nat)"
  by simp

lemma session_ok_addr:
  "session_ok en s \<Longrightarrow> 0 \<le> t \<Longrightarrow> t \<le> ADDR_BURST
   \<Longrightarrow> session_ok en (s\<lparr>getaddr_outstanding := b, addr_tokens := t, addr_tokens_updated := n\<rparr>)"
  by (simp add: session_ok_def)

lemma keeps_offer_gossip:
  assumes "session_ok en s" "length parsed \<le> received"
  shows "step_keeps no_panic (session_ok en) (offer_gossip en' i msg received parsed) s"
proof -
  define t where "t = refill ADDR_RATE_PER_SEC ADDR_BURST (addr_tokens s) (io_now i - addr_tokens_updated s)"
  have t: "0 \<le> t" "t \<le> ADDR_BURST"
    using addr_bucket.refill_bounds [of "addr_tokens s"] assms(1) by (auto simp: t_def session_ok_def)
  have sp: "0 \<le> spend t (min n (nat \<lfloor>t\<rfloor>))" "spend t (min n (nat \<lfloor>t\<rfloor>)) \<le> ADDR_BURST" for n
    using addr_bucket.spend_bounds [OF kept_le [OF t(1)] t(2)] by auto
  have gossip: "session_ok en s' \<Longrightarrow> session_ok en (s'\<lparr>se_gossip := handle_gossip g (se_gossip s')\<rparr>)" for s' g
    by (auto simp: session_ok_def handle_gossip_def)
  define self where "self = (received = 1 \<and> length parsed = 1 \<and> g_addr (parsed ! 0) = se_addr s)"
  define sol where "sol = (\<not> self \<and> getaddr_outstanding s)"
  define rl where "rl = (if \<not> sol \<and> nat \<lfloor>t\<rfloor> < length parsed then length parsed - nat \<lfloor>t\<rfloor> else 0)"
  define left where "left = (if sol then t else spend t (length parsed - rl))"
  have "\<not> sol \<Longrightarrow> length parsed - rl = min (length parsed) (nat \<lfloor>t\<rfloor>)" by (simp add: rl_def)
  then have left: "0 \<le> left" "left \<le> ADDR_BURST" using sp [of "length parsed"] t by (simp_all add: left_def)
  have upd: "session_ok en (s\<lparr>getaddr_outstanding := b, addr_tokens := left, addr_tokens_updated := n\<rparr>)" for b n
    using assms(1) left by (rule session_ok_addr)
  show ?thesis unfolding offer_gossip_def
  proof (rule keeps_get, unfold Let_def id_apply,
      fold t_def self_def, fold sol_def, fold rl_def, fold left_def)
    show "step_keeps no_panic (session_ok en) (if received < length parsed then step_fail Panicked
      else step_then (step_mod (\<lambda>s. s\<lparr>getaddr_outstanding := (self \<and> getaddr_outstanding s), addr_tokens := left,
          addr_tokens_updated := io_now i\<rparr>))
        (step_then (emit_event en' i (AddressAnnouncement
            \<lparr>aa_message = msg, aa_unparsed = of_nat (received - length parsed),
             aa_addresses = map (\<lambda>g. (display (en_sha3 en') (g_addr g), g_services g, g_ntime g)) parsed,
             aa_solicited = sol, aa_rate_limited = of_nat rl, aa_tokens = t\<rparr>))
          (step_when (take (length parsed - rl) parsed \<noteq> [])
            (step_mod (\<lambda>s. s\<lparr>se_gossip := handle_gossip (take (length parsed - rl) parsed) (se_gossip s)\<rparr>))))) s"
      using assms(2) by (intro keeps_rules upd gossip | simp)+
  qed
qed

lemma length_map_filter: "length (List.map_filter f xs) \<le> length xs"
  by (induction xs) (auto simp: List.map_filter_simps split: option.splits)

lemma keeps_addr: "session_ok en s \<Longrightarrow> step_keeps no_panic (session_ok en) (handle_addr en' i xs) s"
  unfolding handle_addr_def by (rule keeps_offer_gossip [OF _ length_map_filter])

lemma keeps_offer_addrv2:
  "session_ok en s \<Longrightarrow> length xs \<le> n \<Longrightarrow> step_keeps no_panic (session_ok en) (offer_addrv2 en' i n xs) s"
  unfolding offer_addrv2_def using length_map_filter [of parse_addr_v2 xs] by (intro keeps_offer_gossip) auto

lemma keeps_unknown: "session_ok en s \<Longrightarrow> step_keeps no_panic (session_ok en) (handle_unknown en' i c p) s"
  unfolding handle_unknown_def
  using parse_addrv2_length [of "en_codec en'" p] by (auto simp: case_prod_beta intro!: keeps_rules keeps_offer_addrv2)

lemma keeps_may_answer: "session_ok en s \<Longrightarrow> step_keeps no_panic (session_ok en) (may_answer_getheaders i) s"
proof -
  assume ok: "session_ok en s"
  define t where "t = refill GETHEADERS_RATE_PER_SEC GETHEADERS_BURST (getheaders_tokens s) (io_now i - getheaders_tokens_updated s)"
  have t: "0 \<le> t" "t \<le> GETHEADERS_BURST"
    using getheaders_bucket.refill_bounds [of "getheaders_tokens s"] ok by (auto simp: t_def session_ok_def)
  have sp: "1 \<le> t \<Longrightarrow> 0 \<le> spend t 1 \<and> spend t 1 \<le> GETHEADERS_BURST"
    using getheaders_bucket.spend_bounds [of 1 t] t by simp
  have upd: "0 \<le> x \<Longrightarrow> x \<le> GETHEADERS_BURST
      \<Longrightarrow> session_ok en (s\<lparr>getheaders_tokens := x, getheaders_tokens_updated := io_now i\<rparr>)" for x
    using ok by (simp add: session_ok_def)
  show ?thesis unfolding may_answer_getheaders_def Let_def
    using t sp upd ok by (intro keeps_get) (auto simp: t_def [symmetric] not_less intro!: keeps_rules)
qed

lemma keeps_get_headers: "session_ok en s \<Longrightarrow> step_keeps no_panic (session_ok en) (handle_get_headers i m) s"
  unfolding handle_get_headers_def
proof (rule keeps_bind [OF keeps_may_answer], assumption)
  fix may s' assume ok: "session_ok en s'"
  obtain out where "get_headers_from_locator (se_tree s') (take (min (length (gh_locator m)) MAX_LOCATOR_SZ) (gh_locator m))
      (gh_stop m) = Some out"
    using ok get_headers_held by (metis session_ok_def tree_held_def)
  with ok show "step_keeps no_panic (session_ok en) (if \<not> may
       then step_mod (\<lambda>s. s\<lparr>conn_stats := (conn_stats s)\<lparr>getheaders_ignored := sat_add (getheaders_ignored (conn_stats s)) 1\<rparr>\<rparr>)
       else step_bind (step_get se_tree) (\<lambda>t.
         let walked = min (length (gh_locator m)) MAX_LOCATOR_SZ in
         case get_headers_from_locator t (take walked (gh_locator m)) (gh_stop m) of
           None \<Rightarrow> step_fail Panicked
         | Some hdrs \<Rightarrow> send_msg (HeadersMsg hdrs))) s'"
    by (auto simp: Let_def intro!: keeps_rules session_ok_stats dest: session_ok_stats_of)
qed

lemmas keeps_handlers = keeps_pong keeps_inv keeps_headers keeps_cmpct keeps_addr keeps_offer_addrv2 keeps_unknown
  keeps_get_headers

lemma keeps_message:
  assumes "hash_order (en_order en)" "session_ok en s"
  shows "step_keeps no_panic (session_ok en) (handle_message en i msg) s"
  unfolding handle_message_def
proof (rule keeps_then)
  show "step_keeps no_panic (session_ok en) (step_mod (\<lambda>s. s\<lparr>conn_stats := record_message (message_command msg) (conn_stats s)\<rparr>)) s"
    using assms(2) by (intro keeps_mod session_ok_stats stats_ok_message) (auto dest: session_ok_stats_of)
next
  fix s' assume "session_ok en s'"
  then show "step_keeps no_panic (session_ok en) (case msg of
          Ping nonce \<Rightarrow> handle_ping nonce
        | Pong nonce \<Rightarrow> handle_pong en i nonce
        | InvMsg invs \<Rightarrow> handle_inv en i invs
        | HeadersMsg hdrs \<Rightarrow> handle_headers en i hdrs
        | CmpctBlock cb \<Rightarrow> handle_cmpct_block en i cb
        | AddrMsg addrs \<Rightarrow> handle_addr en i addrs
        | AddrV2Msg addrs \<Rightarrow> handle_addrv2 en i addrs
        | SendCmpct hb v \<Rightarrow> handle_send_cmpct en i hb v
        | FeeFilterMsg rate \<Rightarrow> handle_fee_filter en i rate
        | GetHeadersMsg m \<Rightarrow> handle_get_headers i m
        | BlockTxn h n \<Rightarrow> handle_blocktxn en i h
        | UnknownMsg command payload \<Rightarrow> handle_unknown en i command payload
        | _ \<Rightarrow> step_ret ()) s'"
    using assms(1)
    by (cases msg) (simp_all add: keeps_handlers keeps_rules handle_ping_def handle_send_cmpct_def handle_fee_filter_def
        handle_blocktxn_def handle_addrv2_def)
qed

lemma keeps_session_loop:
  "hash_order (en_order en) \<Longrightarrow> session_ok en s \<Longrightarrow> step_keeps no_panic (session_ok en) (session_loop en xs) s"
proof (induction xs arbitrary: s)
  case (Cons x xs)
  then show ?case
    by (auto simp: session_step_def intro!: keeps_then keeps_ping_tick keeps_message split: session_input.splits)
qed (simp add: keeps_ret)

lemma keeps_run_start: "session_ok en s \<Longrightarrow> step_keeps no_panic (session_ok en) run_start s"
  unfolding run_start_def by (intro keeps_rules) simp_all

end
