(* ===== verification/Header_Spec.thy ===== *)
theory Header_Spec
  imports Header_Serve
begin

text \<open>
  The properties of the header tree (\<^verbatim>\<open>observer/src/headertree.rs\<close>), from its construction through any number of
  batches, and of what it answers to peers and to the operator.
\<close>

section \<open>A tree over its life\<close>

fun insert_batches :: "header_order \<Rightarrow> chain \<Rightarrow> header list list \<Rightarrow> tree \<Rightarrow> tree option" where
  "insert_batches ho C [] t = Some t"
| "insert_batches ho C (hdrs # rest) t =
     (case insert_batch ho C hdrs t of None \<Rightarrow> None | Some (_, _, t') \<Rightarrow> insert_batches ho C rest t')"

lemma insert_batches_ok:
  assumes "hash_order ho" "tree_ok C t"
  shows "\<exists>t'. insert_batches ho C batches t = Some t' \<and> tree_ok C t' \<and> reach t \<le> reach t'"
  using assms(2)
proof (induction batches arbitrary: t)
  case (Cons hdrs rest)
  from insert_batch_ok [OF assms(1) Cons.prems, of hdrs] obtain n err t1 where
    t1: "insert_batch ho C hdrs t = Some (n, err, t1)" "tree_ok C t1" "reach t \<le> reach t1" by blast
  with Cons.IH [OF t1(2)] show ?case by fastforce
qed simp

lemma tree_life:
  assumes "hash_order ho" "distinct (map cp_height cps)" "with_checkpoints ho C cps = Some t0"
  obtains t where "insert_batches ho C batches t0 = Some t" "tree_ok C t" "reach t0 \<le> reach t"
proof -
  have "tree_ok C t0" using with_checkpoints_ok [OF assms(1,2), of C] assms(3) by auto
  from insert_batches_ok [OF assms(1) this, of batches] that show ?thesis by blast
qed

section \<open>A small chain, for the witnesses\<close>

definition demo_header :: "block_hash \<Rightarrow> u32 \<Rightarrow> header" where
  "demo_header prev nonce =
     \<lparr>hdr_version = 1, prev_blockhash = prev, merkle_root = 0, hdr_time = 0, hdr_bits = 5, hdr_nonce = nonce\<rparr>"

definition demo_chain :: chain where
  "demo_chain = \<lparr>c_hash = (\<lambda>h. ucast (hdr_nonce h) + 1), c_work = (\<lambda>_. 1), c_target = (\<lambda>_. 1), c_max_target = 1,
     c_min_difficulty = False, c_difficulty = (\<lambda>_. 1), c_retarget = (\<lambda>_ p. hdr_bits p), c_pow_ok = (\<lambda>b h. b = hdr_bits h),
     c_genesis = demo_header 0 0\<rparr>"

text \<open>The genesis block, with a checkpoint at height one, and two headers on top of each other.\<close>

definition demo_cps :: "checkpoint list" where
  "demo_cps = [\<lparr>cp_height = 1, cp_hash = 2\<rparr>]"

definition demo_batch :: "header list" where
  "demo_batch = [demo_header 1 1, demo_header 2 2]"

definition demo_tree :: tree where
  "demo_tree = (tree_new demo_chain)\<lparr>checkpoints := demo_cps\<rparr>"

lemma demo_with_checkpoints: "with_checkpoints id demo_chain demo_cps = Some demo_tree"
  by (simp add: with_checkpoints_def demo_tree_def demo_cps_def note_checkpoint_def tree_new_def Let_def)

lemma demo_distinct: "distinct (map cp_height demo_cps)"
  by (simp add: demo_cps_def)

lemma demo_tree_ok: "tree_ok demo_chain demo_tree" "best_ok demo_tree"
  using with_checkpoints_ok [OF hash_order_id demo_distinct, of demo_chain] by (simp_all add: demo_with_checkpoints)

section \<open>Properties\<close>

text \<open>
  C5. A tree built with checkpoints at distinct heights takes any sequence of batches of headers, valid or
  not, without ever panicking or looping, and afterwards is again a tree: it holds the genesis block and with
  every other header its parent, one lower, with the sum of the work; its tip is a header it holds and
  none it holds has more work.
\<close>

theorem tree_survives_any_batches:
  assumes "hash_order ho" "distinct (map cp_height cps)"
  shows "\<exists>t0 t. with_checkpoints ho C cps = Some t0 \<and> insert_batches ho C batches t0 = Some t
    \<and> wf_headers C (headers t)
    \<and> (\<exists>e. map_of (headers t) (tip t) = Some e \<and> he_height e = tip_height t \<and> he_work e = tip_work t)
    \<and> (\<forall>h e. map_of (headers t) h = Some e \<longrightarrow> he_work e \<le> tip_work t)"
proof -
  obtain t0 where t0: "with_checkpoints ho C cps = Some t0" using with_checkpoints_ok [OF assms, of C] by blast
  from tree_life [OF assms this, of batches] obtain t where
    "insert_batches ho C batches t0 = Some t" "tree_ok C t" by blast
  with t0 show ?thesis by (auto simp: tree_ok_def tree_inv_def tip_ok_def heaviest_but_def)
qed

theorem tree_survives_any_batches_witness:
  "\<exists>t e. insert_batches id demo_chain [demo_batch, demo_batch] demo_tree = Some t
    \<and> map_of (headers t) (tip t) = Some e \<and> he_work e = tip_work t"
  using tree_survives_any_batches [OF hash_order_id demo_distinct, of demo_chain "[demo_batch, demo_batch]"]
  by (auto simp: demo_with_checkpoints)

text \<open>
  C7. The two walks towards the genesis block, which are loops without a bound in the code, end on every tree that batches can
  build, and from every header: after as many steps as its height, at the genesis block, without indexing a header that
  is not there. Rebuilding the best chain, which is such a walk from the tip, so always returns.
\<close>

theorem header_walks_end:
  assumes "hash_order ho" "distinct (map cp_height cps)" "with_checkpoints ho C cps = Some t0" "insert_batches ho C batches t0 = Some t"
    "map_of (headers t) h = Some e"
  shows "\<exists>ks. chain_back (headers t) h [] = Some ks \<and> keep_walk (headers t) h [] = Some ks
    \<and> length ks = he_height e + 1 \<and> hd ks = h \<and> last ks = c_hash C (c_genesis C)
    \<and> (\<exists>t'. rebuild_best_chain t = Some t')"
proof -
  have ok: "tree_ok C t" using tree_life [OF assms(1-3), of batches] assms(4) by (metis option.inject)
  then have wf: "wf_headers C (headers t)" by (simp add: tree_ok_def tree_inv_def)
  obtain ks where ks: "chain_back (headers t) h [] = Some ks" "keep_walk (headers t) h [] = Some ks" "descends (headers t) ks"
    "hd ks = h" "length ks = he_height e + 1" using walks_descend [OF wf assms(5), of "[]"] by auto
  obtain x where "map_of (headers t) (ks ! he_height e) = Some x" "he_height x = 0"
    using descends_height [OF ks(3), of "he_height e"] ks(5) by auto
  then have "ks ! he_height e = c_hash C (c_genesis C)" using wf by (auto simp: wf_headers_def wf_entry_def)
  then have "last ks = c_hash C (c_genesis C)" using ks(5) by (cases "ks = []") (simp_all add: last_conv_nth)
  moreover obtain y where "map_of (headers t) (tip t) = Some y" using ok by (auto simp: tree_ok_def tree_inv_def tip_ok_def)
  from rebuild_best_chain_total [OF wf this] have "\<exists>t'. rebuild_best_chain t = Some t'" by blast
  ultimately show ?thesis using ks by blast
qed

theorem header_walks_end_witness:
  "\<exists>t ks. insert_batches id demo_chain [demo_batch] demo_tree = Some t \<and> chain_back (headers t) 1 [] = Some ks \<and> hd ks = 1"
proof -
  obtain t where t: "insert_batches id demo_chain [demo_batch] demo_tree = Some t" "tree_ok demo_chain t"
    by (rule tree_life [OF hash_order_id demo_distinct demo_with_checkpoints])
  then obtain e where "map_of (headers t) 1 = Some e"
    by (auto simp: tree_ok_def tree_inv_def wf_headers_def demo_chain_def demo_header_def)
  from header_walks_end [OF hash_order_id demo_distinct demo_with_checkpoints t(1) this] t(1) show ?thesis by blast
qed

text \<open>
  C13. A header is accepted only when all of the rules hold for it on its own branch: its parent is held, its
  target is within the network's limit, it agrees with the checkpoint of its height, it does not fork off at or
  below the checkpoint reached, and its proof of work meets the bits its branch demands. The accepted header
  is then in the tree, one above its parent, and the tip has at least its work.
\<close>

theorem accepted_headers_are_valid:
  assumes "hash_order ho" "tree_ok C t" "insert_inner ho C hdr t = Some (Inr True, t')"
  shows "\<exists>p bits. map_of (headers t) (prev_blockhash hdr) = Some p
    \<and> c_target C hdr \<le> c_max_target C
    \<and> (\<forall>c \<in> set (checkpoints t). cp_height c = he_height p + 1 \<longrightarrow> cp_hash c = c_hash C hdr)
    \<and> (\<forall>r. reached_checkpoint t = Some r \<longrightarrow> r < he_height p + 1)
    \<and> expected_bits C (headers t) hdr (he_height p + 1) p = Some bits \<and> c_pow_ok C bits hdr
    \<and> map_of (headers t') (c_hash C hdr) =
        Some \<lparr>he_header = hdr, he_height = he_height p + 1, he_work = he_work p + c_work C hdr\<rparr>
    \<and> he_work p + c_work C hdr \<le> tip_work t'"
proof (rule insert_inner_cases [OF assms(1,2), of hdr])
  fix p t''
  assume a: "insert_inner ho C hdr t = Some (Inr True, t'')" "tree_ok C t''"
    "map_of (headers t) (prev_blockhash hdr) = Some p" "validate_header C t hdr (he_height p + 1) p = Inr ()"
    "map_of (headers t'') (c_hash C hdr) =
      Some \<lparr>he_header = hdr, he_height = he_height p + 1, he_work = he_work p + c_work C hdr\<rparr>"
  have t': "t'' = t'" using a(1) assms(3) by simp
  have "he_work p + c_work C hdr \<le> tip_work t'"
    using a(2,5) unfolding t' by (force simp: tree_ok_def tree_inv_def heaviest_but_def)
  moreover have "cp_hash c = c_hash C hdr" if "c \<in> set (checkpoints t)" "cp_height c = he_height p + 1" for c
    using validate_header_Inr(2) [OF a(4)] find_checkpoint [of "checkpoints t" c] that assms(2)
    by (simp add: tree_ok_def tree_inv_def)
  moreover obtain bits where "expected_bits C (headers t) hdr (he_height p + 1) p = Some bits" "c_pow_ok C bits hdr"
    using validate_header_Inr(4) [OF a(4)] by blast
  ultimately show ?thesis using a(3,5) validate_header_Inr(1,3) [OF a(4)] unfolding t'
    by (intro exI [where x = p] exI [where x = bits]) simp
qed (use assms(3) in auto)

theorem accepted_headers_are_valid_witness:
  "\<exists>p. map_of (headers demo_tree) 1 = Some p \<and> c_pow_ok demo_chain 5 (demo_header 1 1)"
proof -
  obtain t' where "insert_inner id demo_chain (demo_header 1 1) demo_tree = Some (Inr True, t')"
    using demo_tree_ok(1) by (rule insert_inner_cases [OF hash_order_id, of demo_chain demo_tree "demo_header 1 1"])
      (auto simp: insert_inner_def demo_tree_def demo_chain_def demo_header_def demo_cps_def tree_new_def Let_def
        contains_key_def validate_header_def expected_bits_def split: option.splits)
  from accepted_headers_are_valid [OF hash_order_id demo_tree_ok(1) this] show ?thesis
    by (auto simp: demo_chain_def demo_header_def)
qed

text \<open>
  C14. Checkpoints are final. At any time of the life of a tree: a header at the height of a checkpoint is the
  checkpoint's; once a checkpoint is reached there is a single header per height up to it; and no batch
  takes the tree back below a checkpoint it has reached.
\<close>

theorem checkpoints_are_final:
  assumes "hash_order ho" "distinct (map cp_height cps)" "with_checkpoints ho C cps = Some t0"
    "insert_batches ho C batches t0 = Some t" "insert_batch ho C hdrs t = Some (n, err, t')"
  shows "(\<forall>c \<in> set (checkpoints t). \<forall>h e. map_of (headers t) h = Some e \<longrightarrow> he_height e = cp_height c
            \<longrightarrow> 0 < he_height e \<longrightarrow> h = cp_hash c)
    \<and> (\<forall>r h e h' e'. reached_checkpoint t = Some r \<longrightarrow> map_of (headers t) h = Some e \<longrightarrow> map_of (headers t) h' = Some e'
            \<longrightarrow> he_height e = he_height e' \<longrightarrow> he_height e \<le> r \<longrightarrow> h = h')
    \<and> (\<forall>r. reached_checkpoint t = Some r \<longrightarrow> (\<exists>r' \<ge> r. reached_checkpoint t' = Some r'))"
proof -
  obtain t1 where "insert_batches ho C batches t0 = Some t1" "tree_ok C t1" by (rule tree_life [OF assms(1-3), of batches])
  then have ok: "tree_ok C t" using assms(4) by simp
  from insert_batch_ok [OF assms(1) ok, of hdrs] assms(5) have le: "reach t \<le> reach t'" by auto
  have "\<exists>r' \<ge> r. reached_checkpoint t' = Some r'" if "reached_checkpoint t = Some r" for r
    using le that by (auto simp: reach_def split: option.splits)
  moreover have "checkpoints_obeyed t" "reached_ok {} t" using ok by (simp_all add: tree_ok_def tree_inv_def)
  ultimately show ?thesis unfolding checkpoints_obeyed_def reached_ok_def by meson
qed

theorem checkpoints_are_final_witness:
  "\<exists>t n err t'. insert_batches id demo_chain [demo_batch] demo_tree = Some t
    \<and> insert_batch id demo_chain demo_batch t = Some (n, err, t')
    \<and> (reached_checkpoint t = None \<or> (\<exists>r'. reached_checkpoint t' = Some r'))"
proof -
  obtain t where t: "insert_batches id demo_chain [demo_batch] demo_tree = Some t" "tree_ok demo_chain t"
    by (rule tree_life [OF hash_order_id demo_distinct demo_with_checkpoints])
  from insert_batch_ok [OF hash_order_id t(2), of demo_batch] obtain n err t' where
    t': "insert_batch id demo_chain demo_batch t = Some (n, err, t')" by blast
  from checkpoints_are_final [OF hash_order_id demo_distinct demo_with_checkpoints t(1) t'] t(1) t' show ?thesis
    by (cases "reached_checkpoint t") blast+
qed

text \<open>
  After a batch the best chain is again the path from the genesis block to the tip: as long as the tip's
  height plus one, with the block of height \<open>i\<close> at position \<open>i\<close>, each one the child of the one before. The
  one case left open is a tip that a newly reached checkpoint removes and the same batch brings back.
\<close>

theorem best_chain_is_the_path_to_the_tip:
  assumes "hash_order ho" "tree_ok C t" "best_ok t" "insert_batch ho C hdrs t = Some (n, err, t')"
    "tip t \<notin> c_hash C ` set hdrs \<or> reached_checkpoint t' = reached_checkpoint t"
  shows "length (best_chain t') = tip_height t' + 1 \<and> last (best_chain t') = tip t'
    \<and> best_chain t' ! 0 = c_hash C (c_genesis C)
    \<and> (\<forall>i < length (best_chain t'). \<exists>e. map_of (headers t') (best_chain t' ! i) = Some e \<and> he_height e = i
         \<and> (0 < i \<longrightarrow> prev_blockhash (he_header e) = best_chain t' ! (i - 1)))"
proof -
  have reach: "reached_checkpoint t' = reached_checkpoint t \<Longrightarrow> reach t' = reach t" by (simp add: reach_def)
  have ok: "tree_ok C t'" "best_ok t'"
    using insert_batch_ok [OF assms(1,2), of hdrs] assms(3-5) reach by auto
  note f = best_chain_facts [OF ok]
  have "\<exists>e. map_of (headers t') (best_chain t' ! i) = Some e \<and> he_height e = i
      \<and> (0 < i \<longrightarrow> prev_blockhash (he_header e) = best_chain t' ! (i - 1))" if "i < length (best_chain t')" for i
    using f(2) [OF that] f(3) [OF _ that] by (cases "i = 0") auto
  then show ?thesis using f(1,4) ok(2) by (simp add: best_ok_def)
qed

theorem best_chain_is_the_path_to_the_tip_witness:
  "\<exists>n err t'. insert_batch id demo_chain demo_batch demo_tree = Some (n, err, t')
    \<and> length (best_chain t') = tip_height t' + 1 \<and> last (best_chain t') = tip t'"
proof -
  from insert_batch_ok [OF hash_order_id demo_tree_ok(1), of demo_batch] obtain n err t' where
    t': "insert_batch id demo_chain demo_batch demo_tree = Some (n, err, t')" by blast
  have "tip demo_tree \<notin> c_hash demo_chain ` set demo_batch"
    by (simp add: demo_tree_def demo_batch_def demo_chain_def demo_header_def tree_new_def Let_def)
  with best_chain_is_the_path_to_the_tip [OF hash_order_id demo_tree_ok t'] t' show ?thesis by blast
qed

text \<open>
  The block locator sent to a peer starts with the tip, ends with the genesis block, names blocks of the
  best chain at strictly decreasing heights, and has at most 45 hashes; building it never panics.
\<close>

theorem locator_spans_the_chain:
  assumes "tree_ok C t" "best_ok t" "tip_height t < 2 ^ 32"
  shows "\<exists>hs. build_locator t = Some (map (nth (best_chain t)) hs) \<and> hs \<noteq> [] \<and> hd hs = tip_height t \<and> last hs = 0
    \<and> sorted_wrt (>) hs \<and> (\<forall>h \<in> set hs. h < length (best_chain t)) \<and> length hs \<le> 45"
  by (rule build_locator_spec [OF assms])
    (use best_chain_facts(1) [OF assms(1,2)] in \<open>auto simp: less_Suc_eq_le\<close>)

theorem locator_spans_the_chain_witness:
  "\<exists>hs. build_locator demo_tree = Some (map (nth (best_chain demo_tree)) hs) \<and> length hs \<le> 45"
  using locator_spans_the_chain [OF demo_tree_ok] by (auto simp: demo_tree_def tree_new_def Let_def)

lemma serve_headers_cut:
  "\<forall>h \<in> set hs. map_of m h \<noteq> None \<Longrightarrow>
   serve_headers m stop hs = Some (map (\<lambda>h. he_header (the (map_of m h)))
     (if stop \<noteq> 0 \<and> stop \<in> set hs then takeWhile (\<lambda>h. h \<noteq> stop) hs @ [stop] else hs))"
  by (induction hs) auto

lemma locator_start_first:
  assumes "tree_ok C t" "best_ok t"
  shows "(case find (\<lambda>h. h \<in> set (best_chain t)) loc of None \<Rightarrow> locator_start t loc = 1
    | Some h \<Rightarrow> best_chain t ! (locator_start t loc - 1) = h)"
proof -
  let ?P = "\<lambda>h. case map_of (headers t) h of None \<Rightarrow> False
    | Some e \<Rightarrow> he_height e < length (best_chain t) \<and> best_chain t ! he_height e = h"
  note bc = best_chain_facts [OF assms]
  have "?P h \<longleftrightarrow> h \<in> set (best_chain t)" for h
  proof
    assume "h \<in> set (best_chain t)"
    then obtain i where i: "i < length (best_chain t)" "h = best_chain t ! i" by (auto simp: in_set_conv_nth)
    with bc(2) [OF i(1)] show "?P h" by auto
  next
    show "?P h \<Longrightarrow> h \<in> set (best_chain t)" by (auto split: option.splits dest: nth_mem)
  qed
  then have P: "?P = (\<lambda>h. h \<in> set (best_chain t))" by blast
  show ?thesis
  proof (cases "find ?P loc")
    case (Some h)
    then have "?P h" by (auto simp: find_Some_iff)
    then show ?thesis using Some by (auto simp: locator_start_def P [symmetric] split: option.splits)
  qed (simp add: locator_start_def P [symmetric])
qed

text \<open>
  C15. A peer's \<^verbatim>\<open>getheaders\<close> is answered without underflow or panic, whatever locator and stop hash it sends. The answer starts
  after the first block of the locator that is on the best chain, or after the genesis block when none is; it is the next 2000 headers of
  the best chain, or as many as there are, in order and each linked to the one before, cut off after the stop hash if that is one of them.
\<close>

theorem served_headers_continue_the_locator:
  assumes "tree_ok C t" "best_ok t"
  shows "\<exists>out s. get_headers_from_locator t locator stop = Some out \<and> 1 \<le> s \<and> s \<le> length (best_chain t)
    \<and> (case find (\<lambda>h. h \<in> set (best_chain t)) locator of None \<Rightarrow> s = 1 | Some h \<Rightarrow> best_chain t ! (s - 1) = h)
    \<and> map (c_hash C) out =
        (let next2000 = take 2000 (drop s (best_chain t))
         in if stop \<noteq> 0 \<and> stop \<in> set next2000 then takeWhile (\<lambda>h. h \<noteq> stop) next2000 @ [stop] else next2000)
    \<and> (\<forall>i < length out. prev_blockhash (out ! i) = best_chain t ! (s + i - 1))"
proof -
  let ?s = "locator_start t locator" and ?bc = "best_chain t"
  define next_hashes where "next_hashes = take 2000 (drop ?s ?bc)"
  define w where "w = (if stop \<noteq> 0 \<and> stop \<in> set next_hashes then takeWhile (\<lambda>h. h \<noteq> stop) next_hashes @ [stop] else next_hashes)"
  define out where "out = map (\<lambda>h. he_header (the (map_of (headers t) h))) w"
  note s = locator_start_bounds(1,2) [OF assms, of locator]
  note bc = best_chain_facts [OF assms]
  have held: "map_of (headers t) h \<noteq> None \<and> c_hash C (he_header (the (map_of (headers t) h))) = h" if "h \<in> set ?bc" for h
  proof -
    obtain i where "i < length ?bc" "h = ?bc ! i" using \<open>h \<in> set ?bc\<close> by (metis in_set_conv_nth)
    with bc(2) obtain e where "map_of (headers t) h = Some e" by blast
    with assms(1) show ?thesis by (auto simp: tree_ok_def tree_inv_def wf_headers_def wf_entry_def)
  qed
  have sub: "set next_hashes \<subseteq> set ?bc" unfolding next_hashes_def by (meson in_set_dropD in_set_takeD subsetI)
  then have mem: "\<forall>h \<in> set next_hashes. map_of (headers t) h \<noteq> None" using held by blast
  have "min (?s + 2000) (length ?bc) - ?s = min 2000 (length (drop ?s ?bc))" using s by simp
  moreover have "take (min 2000 (length xs)) xs = take 2000 xs" for xs :: "block_hash list" by (simp add: min_def)
  ultimately have "take (min (?s + 2000) (length ?bc) - ?s) (drop ?s ?bc) = next_hashes" by (simp only: next_hashes_def)
  moreover have "get_headers_from_locator t locator stop =
      serve_headers (headers t) stop (take (min (?s + 2000) (length ?bc) - ?s) (drop ?s ?bc))"
    using s by (simp add: get_headers_from_locator_def Let_def)
  ultimately have out: "get_headers_from_locator t locator stop = Some out"
    unfolding out_def w_def using serve_headers_cut [OF mem, of stop] by simp
  have "set w \<subseteq> set ?bc" using sub by (auto simp: w_def dest: set_takeWhileD split: if_splits)
  then have hashes: "map (c_hash C) out = w" using held by (auto simp: out_def intro!: map_idI)
  obtain k where k: "w = take k next_hashes"
  proof (cases "stop \<noteq> 0 \<and> stop \<in> set next_hashes")
    case True
    then obtain ys zs where ys: "next_hashes = ys @ stop # zs" "stop \<notin> set ys" by (meson split_list_first)
    then have "takeWhile (\<lambda>h. h \<noteq> stop) next_hashes @ [stop] = take (Suc (length ys)) next_hashes" using ys by (auto simp: takeWhile_append)
    with True that show ?thesis by (simp add: w_def)
  next
    case False
    then show ?thesis using that [of "length next_hashes"] by (auto simp: w_def)
  qed
  have "prev_blockhash (out ! i) = ?bc ! (?s + i - 1)" if i: "i < length out" for i
  proof -
    have "i < length w" using i by (simp add: out_def)
    then have lt: "?s + i < length ?bc" "w ! i = ?bc ! (?s + i)" using s by (auto simp: k next_hashes_def)
    obtain e where "map_of (headers t) (?bc ! (?s + i)) = Some e" "prev_blockhash (he_header e) = ?bc ! (?s + i - 1)"
      using bc(3) [of "?s + i"] s(1) lt(1) by auto
    then show ?thesis using \<open>i < length w\<close> lt(2) by (simp add: out_def)
  qed
  moreover note locator_start_first [OF assms, of locator] s out
  ultimately show ?thesis
    using hashes unfolding w_def next_hashes_def by (intro exI [where x = out] exI [where x = ?s]) (simp only: Let_def, simp)
qed

theorem served_headers_continue_the_locator_witness: "get_headers_from_locator demo_tree [7, 1] 0 = Some []"
proof -
  have "best_chain demo_tree = [1]" by (simp add: demo_tree_def tree_new_def demo_chain_def demo_header_def Let_def)
  then show ?thesis
    using served_headers_continue_the_locator [OF demo_tree_ok, of "[7, 1]" 0] by (auto simp: Let_def)
qed

text \<open>
  The chain tips reported are exactly the headers without a child, each with its height and with the number of
  its ancestors, itself included, that are off the best chain; only the tip of the tree is active.
\<close>

theorem chain_tips_are_the_leaves:
  assumes "hash_order ho" "tree_ok C t" "best_ok t"
  shows "\<exists>tips. chain_tips ho t = Some tips
    \<and> ct_hash ` set tips = {h. \<exists>e. map_of (headers t) h = Some e
         \<and> (\<forall>h' e'. map_of (headers t) h' = Some e' \<longrightarrow> 0 < he_height e' \<longrightarrow> prev_blockhash (he_header e') \<noteq> h)}
    \<and> (\<forall>ct \<in> set tips. (ct_status ct = Active \<longleftrightarrow> ct_hash ct = tip t)
         \<and> (\<exists>e anc. map_of (headers t) (ct_hash ct) = Some e \<and> ct_height ct = he_height e
              \<and> ct_branch_len ct \<le> he_height e
              \<and> walk_back (headers t) (ct_hash ct) (ct_branch_len ct) = Some anc
              \<and> c_hash C (he_header anc) \<in> set (best_chain t)
              \<and> (\<forall>j < ct_branch_len ct. \<forall>x. walk_back (headers t) (ct_hash ct) j = Some x
                    \<longrightarrow> c_hash C (he_header x) \<notin> set (best_chain t))))"
proof -
  obtain tips where tips: "chain_tips ho t = Some tips"
    "ct_hash ` set tips = {h. \<exists>e. map_of (headers t) h = Some e
       \<and> (\<forall>h' e'. map_of (headers t) h' = Some e' \<longrightarrow> 0 < he_height e' \<longrightarrow> prev_blockhash (he_header e') \<noteq> h)}"
    "\<forall>ct \<in> set tips. ct_status ct = Active \<longleftrightarrow> ct_hash ct = tip t"
    "\<forall>ct \<in> set tips. \<exists>e. map_of (headers t) (ct_hash ct) = Some e \<and> ct_height ct = he_height e
       \<and> branch_walk (headers t) (best_chain t) (he_height e) (ct_hash ct) 0 = Some (ct_branch_len ct)"
    using chain_tips_total [OF assms] by blast
  have "\<exists>e anc. map_of (headers t) (ct_hash ct) = Some e \<and> ct_height ct = he_height e
      \<and> ct_branch_len ct \<le> he_height e \<and> walk_back (headers t) (ct_hash ct) (ct_branch_len ct) = Some anc
      \<and> c_hash C (he_header anc) \<in> set (best_chain t)
      \<and> (\<forall>j < ct_branch_len ct. \<forall>x. walk_back (headers t) (ct_hash ct) j = Some x
            \<longrightarrow> c_hash C (he_header x) \<notin> set (best_chain t))" if ct: "ct \<in> set tips" for ct
  proof -
    obtain e where e: "map_of (headers t) (ct_hash ct) = Some e" "ct_height ct = he_height e"
      "branch_walk (headers t) (best_chain t) (he_height e) (ct_hash ct) 0 = Some (ct_branch_len ct)"
      using tips(4) ct by blast
    from branch_walk_spec [OF assms(2,3) e(1), of 0] e(3) obtain anc where
      "ct_branch_len ct \<le> he_height e" "walk_back (headers t) (ct_hash ct) (ct_branch_len ct) = Some anc"
      "c_hash C (he_header anc) = best_chain t ! (he_height e - ct_branch_len ct)"
      "he_height e - ct_branch_len ct < length (best_chain t)"
      "\<forall>j < ct_branch_len ct. \<forall>x. walk_back (headers t) (ct_hash ct) j = Some x
         \<longrightarrow> c_hash C (he_header x) \<notin> set (best_chain t)" by auto
    with e(1,2) show ?thesis by (intro exI [where x = e] exI [where x = anc]) simp
  qed
  with tips(1-3) show ?thesis by blast
qed

theorem chain_tips_are_the_leaves_witness:
  "\<exists>tips. chain_tips id demo_tree = Some tips \<and> ct_hash ` set tips = {1}"
  using chain_tips_are_the_leaves [OF hash_order_id demo_tree_ok]
  by (auto simp: demo_tree_def tree_new_def demo_chain_def demo_header_def Let_def split: if_splits)

text \<open>
  A window of ten seconds that no request for a missing block precedes by less than ten seconds sees at most
  three requests for that block, however many peers announce it and whatever else is announced meanwhile.
\<close>

theorem at_most_three_requests:
  assumes "hm_ok (recoveries t)" "\<forall>r. map_of (recoveries t) m = Some r \<longrightarrow> T \<le> rc_started r \<and> unat (rc_requests r) \<le> 3"
    "\<forall>(h, proven, now) \<in> set calls. T \<le> now \<and> now < T + RECOVERY_INTERVAL"
  shows "requests_for m calls t \<le> 3"
  by (rule requests_at_most_three [OF _ assms(3)]) (simp add: recovery_inv_def assms(1,2))

theorem at_most_three_requests_witness:
  "requests_for 9 [(9, True, 5), (8, False, 6), (9, True, 7), (9, True, 8), (9, True, 9)] demo_tree \<le> 3"
  using at_most_three_requests [of demo_tree 9 5 "[(9, True, 5), (8, False, 6), (9, True, 7), (9, True, 8), (9, True, 9)]"]
  by (simp add: demo_tree_def tree_new_def Let_def hm_ok_def RECOVERY_INTERVAL_def)

text \<open>
  A header on top of a refused one is refused for the same reason, without being validated, and both stay
  remembered, the parent as the newer; the memory keeps its two maps in agreement and never holds more
  than 8192 refusals. The counter of refusals is taken not to wrap.
\<close>

theorem refused_branches_stay_refused:
  assumes "refusals_ok (refused t)" "unat (rejected_seq (refused t)) + 2 < 2 ^ 64"
    "map_of (headers t) (c_hash C hdr) = None" "map_of (headers t) (prev_blockhash hdr) = None"
    "rejection_of (refused t) (prev_blockhash hdr) = Some reason" "c_hash C hdr \<noteq> prev_blockhash hdr"
  shows "\<exists>t'. insert_inner ho C hdr t = Some (Inl reason, t') \<and> headers t' = headers t
    \<and> rejection_of (refused t') (prev_blockhash hdr) = Some reason
    \<and> rejection_of (refused t') (c_hash C hdr) \<noteq> None
    \<and> refusals_ok (refused t') \<and> length (rejected (refused t')) \<le> 8192"
proof -
  let ?t = "touch_rejected (prev_blockhash hdr) (refused t)"
  let ?r = "remember_rejected (c_hash C hdr) reason ?t"
  have touched: "refusals_ok ?t" "unat (rejected_seq ?t) + 1 < 2 ^ 64"
    using touch_rejected_ok(1,3) [OF assms(1)] assms(2) by (simp_all add: unat_word_ariths)
  have "insert_inner ho C hdr t = Some (Inl reason, t\<lparr>refused := ?r\<rparr>)"
    using assms(3-5) by (simp add: insert_inner_def contains_key_def)
  moreover have "refusals_ok ?r" by (rule remember_rejected_ok [OF touched])
  moreover have "rejection_of ?r (c_hash C hdr) \<noteq> None" using remember_rejected_known [OF touched] by simp
  moreover have "rejection_of ?r (prev_blockhash hdr) = Some reason"
    by (rule inherited_survives [OF assms(1,2,5,6)])
  ultimately show ?thesis by (simp add: refusals_ok_def REJECTED_REMEMBERED_def)
qed

theorem refused_branches_stay_refused_witness:
  "\<exists>t'. insert_inner id demo_chain (demo_header 70 80)
        (demo_tree\<lparr>refused := remember_rejected 70 InvalidPow refusals_empty\<rparr>) = Some (Inl InvalidPow, t')
    \<and> rejection_of (refused t') 70 = Some InvalidPow"
proof -
  let ?r = "remember_rejected 70 InvalidPow refusals_empty"
  have ok: "refusals_ok ?r" by (rule remember_rejected_ok [OF refusals_ok_empty]) (simp add: refusals_empty_def)
  have r: "rejected_seq ?r = 1" "rejection_of ?r 70 = Some InvalidPow"
    by (simp_all add: remember_rejected_def refusals_empty_def contains_key_def next_rejected_seq_def rejection_of_def
        REJECTED_REMEMBERED_def)
  from refused_branches_stay_refused [of "demo_tree\<lparr>refused := ?r\<rparr>" demo_chain "demo_header 70 80" InvalidPow id] ok r
  show ?thesis by (auto simp: demo_tree_def tree_new_def demo_chain_def demo_header_def Let_def)
qed

end
