(* ===== verification/Session_Spec.thy ===== *)
theory Session_Spec
  imports Session_Inv Handshake Header_Spec
begin

text \<open>
  What a peer can make a session do: nothing it sends ends it in a panic, and the two token buckets bound
  how many gossiped addresses are passed on and how often \<^verbatim>\<open>getheaders\<close> is answered. The locale \<open>step_frame\<close> extends \<open>stats_frame\<close>
  and that \<open>quiet_frame\<close>: they collect what the handlers leave alone, and are interpreted for each bucket, for the state of
  the pings and for the registry.
\<close>

section \<open>What most handlers leave alone\<close>

abbreviation any_error :: "session_error \<Rightarrow> bool" where
  "any_error e \<equiv> True"

fun is_headers_msg :: "net_message \<Rightarrow> bool" where
  "is_headers_msg (HeadersMsg _) = True"
| "is_headers_msg _ = False"

text \<open>The addresses a message offers: how it came, how many entries it had and those that were understood.\<close>

fun gossip_of :: "penv \<Rightarrow> net_message \<Rightarrow> (addr_message \<times> nat \<times> gossiped list) option" where
  "gossip_of en (AddrMsg xs) = Some (MsgAddr, length xs, List.map_filter parse_addr_v1 xs)"
| "gossip_of en (AddrV2Msg xs) = Some (MsgAddrv2, length xs, List.map_filter parse_addr_v2 xs)"
| "gossip_of en (UnknownMsg command payload) =
     (if command = ''addrv2''
      then (let (n, xs) = parse_addrv2_leniently (en_codec en) payload in Some (MsgAddrv2, n, List.map_filter parse_addr_v2 xs))
      else None)"
| "gossip_of en _ = None"

lemma gossip_message:
  "gossip_of en msg = Some (am, n, ps) \<Longrightarrow> handle_message en i msg =
     step_then (step_mod (\<lambda>s. s\<lparr>conn_stats := record_message (message_command msg) (conn_stats s)\<rparr>)) (offer_gossip en i am n ps)"
  by (cases msg) (auto simp: handle_message_def handle_addr_def handle_addrv2_def offer_addrv2_def handle_unknown_def
      split: if_splits prod.splits)

locale quiet_frame =
  fixes P :: "session \<Rightarrow> bool"
  assumes frame_upd: "P (s\<lparr>se_tree := t\<rparr>) = P s" "P (s\<lparr>se_outbox := ob\<rparr>) = P s"
      "P (s\<lparr>conn_stats := record_message c (conn_stats s)\<rparr>) = P s"
      "P (s\<lparr>asked_for := a\<rparr>) = P s" "P (s\<lparr>se_writes := ws\<rparr>) = P s"
    and frame_sent: "\<not> is_headers_msg m \<Longrightarrow> P (s\<lparr>se_sent := se_sent s @ [m]\<rparr>) = P s"
begin

lemma frame_send: "P s \<Longrightarrow> \<not> is_headers_msg m \<Longrightarrow> step_keeps any_error P (send_msg m) s"
  by (auto simp: step_keeps_def send_msg_def frame_upd frame_sent split: list.splits bool.splits)

lemma frame_emit: "P s \<Longrightarrow> step_keeps any_error P (emit_event en i ev) s"
  unfolding emit_event_def by (intro keeps_mod) (simp add: frame_upd)

lemma frame_fail: "P s \<Longrightarrow> step_keeps any_error P (step_fail e) s"
  by (rule keeps_fail) simp_all

lemmas frame_rules = keeps_then keeps_get keeps_mod keeps_ret keeps_when keeps_bind frame_send frame_emit frame_fail

lemma frame_announce: "P s \<Longrightarrow> step_keeps any_error P (emit_block_announcement en i h ty n new shape) s"
  unfolding emit_block_announcement_def by (intro frame_rules)

lemma frame_probe: "P s \<Longrightarrow> step_keeps any_error P (emit_compact_block_probe en i h st) s"
  unfolding emit_compact_block_probe_def by (intro frame_rules)

lemma frame_getheaders: "P s \<Longrightarrow> step_keeps any_error P send_getheaders s"
  unfolding send_getheaders_def by (auto intro!: frame_send frame_fail keeps_get split: option.splits)

lemma frame_recover: "P s \<Longrightarrow> step_keeps any_error P (recover_headers i h p) s"
  unfolding recover_headers_def
  by (intro keeps_get) (auto simp: frame_upd Let_def intro!: keeps_then keeps_mod keeps_ret frame_getheaders split: prod.splits)

lemma frame_accept: "P s \<Longrightarrow> step_keeps any_error P (accept_headers en i hdrs) s"
  unfolding accept_headers_def
  by (intro keeps_get)
    (auto simp: frame_upd intro!: keeps_then keeps_mod keeps_ret frame_fail frame_recover split: option.splits)

lemma frame_announce_headers: "P s \<Longrightarrow> step_keeps any_error P (announce_headers en i n xs) s"
proof (induction xs arbitrary: s)
  case (Cons x xs)
  then show ?case by (cases x) (auto intro!: keeps_then frame_announce)
qed (simp add: keeps_ret)

lemma frame_headers: "P s \<Longrightarrow> step_keeps any_error P (handle_headers en i hdrs) s"
  unfolding handle_headers_def Let_def
  by (intro keeps_get)
    (auto intro!: keeps_bind keeps_then keeps_when keeps_ret frame_accept frame_announce_headers frame_fail frame_getheaders
      split: prod.splits option.splits)

lemma frame_cmpct: "P s \<Longrightarrow> step_keeps any_error P (handle_cmpct_block en i cb) s"
  unfolding handle_cmpct_block_def Let_def request_compact_block_coinbase_def
  by (intro keeps_get)
    (auto intro!: keeps_bind keeps_then keeps_when frame_accept frame_announce frame_fail frame_send frame_probe
      split: prod.splits option.splits)

lemma frame_inv_loop: "P s \<Longrightarrow> step_keeps any_error P (inv_loop en i n xs a g) s"
proof (induction xs arbitrary: s a g)
  case (Cons x xs)
  then show ?case
    by (auto intro!: keeps_ret keeps_get keeps_then keeps_when frame_announce frame_recover split: option.splits)
qed (simp add: keeps_ret)

lemma frame_inv: "P s \<Longrightarrow> step_keeps any_error P (handle_inv en i xs) s"
  unfolding handle_inv_def Let_def
  by (auto intro!: frame_fail keeps_bind frame_inv_loop keeps_when frame_send)

lemma frame_recorded: "P s \<Longrightarrow> step_keeps any_error P (step_mod (\<lambda>s. s\<lparr>conn_stats := record_message c (conn_stats s)\<rparr>)) s"
  by (intro keeps_mod) (simp add: frame_upd)

lemma frame_message:
  assumes "P s"
    and gossip: "\<And>am n ps s. gossip_of en msg = Some (am, n, ps) \<Longrightarrow> P s \<Longrightarrow> step_keeps any_error P (offer_gossip en i am n ps) s"
    and get_headers: "\<And>m s. msg = GetHeadersMsg m \<Longrightarrow> P s \<Longrightarrow> step_keeps any_error P (handle_get_headers i m) s"
    and pong: "\<And>n s. msg = Pong n \<Longrightarrow> P s \<Longrightarrow> step_keeps any_error P (handle_pong en i n) s"
  shows "step_keeps any_error P (handle_message en i msg) s"
proof (cases "gossip_of en msg")
  case None
  then show ?thesis unfolding handle_message_def
    by (intro keeps_then [OF frame_recorded [OF assms(1)]], cases msg)
      (auto simp: handle_unknown_def handle_ping_def handle_send_cmpct_def handle_fee_filter_def handle_blocktxn_def
        intro!: frame_send frame_emit frame_probe pong get_headers frame_inv frame_headers frame_cmpct keeps_ret
        split: if_splits prod.splits)
next
  case (Some g)
  then show ?thesis
    using gossip by (cases g) (auto simp: gossip_message intro!: keeps_then frame_recorded assms(1))
qed

end

text \<open>What the statistics do not matter to is kept by pongs as well, and by the timer what the registry does not matter to.\<close>

locale stats_frame = quiet_frame +
  assumes frame_stats: "P (s\<lparr>conn_stats := st\<rparr>) = P s"
begin

lemma frame_pong: "P s \<Longrightarrow> step_keeps any_error P (handle_pong en i n) s"
  unfolding handle_pong_def Let_def
  by (intro keeps_get) (auto simp: case_prod_beta frame_upd frame_stats intro!: keeps_mod keeps_then frame_emit)

end

locale step_frame = stats_frame +
  assumes frame_registry: "P (s\<lparr>se_registry := r\<rparr>) = P s"
begin

lemma frame_ping_tick: "P s \<Longrightarrow> step_keeps any_error P (ping_tick i) s"
  unfolding ping_tick_def send_ping_def
  by (intro keeps_get) (auto simp: frame_upd frame_stats frame_registry Let_def intro!: frame_fail keeps_then keeps_mod frame_send split: option.splits)

end

section \<open>Messages that carry addresses\<close>

lemma gossip_length: "gossip_of en msg = Some (am, n, ps) \<Longrightarrow> length ps \<le> n"
proof (cases msg)
  case (UnknownMsg c p)
  assume "gossip_of en msg = Some (am, n, ps)"
  then show ?thesis
    using UnknownMsg parse_addrv2_length [of "en_codec en" p]
      length_map_filter [of parse_addr_v2 "snd (parse_addrv2_leniently (en_codec en) p)"]
    by (simp add: case_prod_beta split: if_splits)
qed (auto simp: length_map_filter)

text \<open>The part of a session that gossip changes.\<close>

definition addr_part :: "session \<Rightarrow> rat \<times> nat \<times> bool \<times> gossiped list list \<times> peer_addr" where
  "addr_part s = (addr_tokens s, addr_tokens_updated s, getaddr_outstanding s, se_gossip s, se_addr s)"

interpretation addr_frame: step_frame "\<lambda>s. addr_part s = v" for v
  by unfold_locales (simp_all add: addr_part_def)

lemma addr_part_get_headers: "addr_part s = v \<Longrightarrow> step_keeps any_error (\<lambda>s. addr_part s = v) (handle_get_headers i m) s"
  by (auto simp: handle_get_headers_def may_answer_getheaders_def step_keeps_def step_bind_def step_then_def step_get_def
      step_mod_def step_ret_def step_fail_def send_msg_def Let_def addr_part_def split: option.splits list.splits bool.splits)

text \<open>
  What a message with addresses does to it. A peer that announces just itself does not answer our request; the first other message
  does, and is not charged.
\<close>

definition announces_itself :: "peer_addr \<Rightarrow> nat \<Rightarrow> gossiped list \<Rightarrow> bool" where
  "announces_itself a n ps \<longleftrightarrow> n = 1 \<and> length ps = 1 \<and> g_addr (ps ! 0) = a"

lemma addr_part_gossip:
  assumes "length ps \<le> n" "se_gossip s = []"
    and t_def: "t = refill ADDR_RATE_PER_SEC ADDR_BURST (addr_tokens s) (io_now i - addr_tokens_updated s)"
  shows "getaddr_outstanding s \<longrightarrow> announces_itself (se_addr s) n ps \<Longrightarrow> addr_part (snd (offer_gossip en i am n ps s)) =
      (spend t (min (length ps) (nat \<lfloor>t\<rfloor>)), io_now i, getaddr_outstanding s,
       if ps = [] \<or> nat \<lfloor>t\<rfloor> = 0 then [] else [take (nat \<lfloor>t\<rfloor>) ps], se_addr s)"
    and "getaddr_outstanding s \<Longrightarrow> \<not> announces_itself (se_addr s) n ps \<Longrightarrow> addr_part (snd (offer_gossip en i am n ps s)) =
      (t, io_now i, False, if ps = [] then [] else [ps], se_addr s)"
proof -
  have n: "\<not> n < length ps" "\<not> (P \<and> n < length ps)" for P using assms(1) by auto
  show "addr_part (snd (offer_gossip en i am n ps s)) = (spend t (min (length ps) (nat \<lfloor>t\<rfloor>)), io_now i, getaddr_outstanding s,
       if ps = [] \<or> nat \<lfloor>t\<rfloor> = 0 then [] else [take (nat \<lfloor>t\<rfloor>) ps], se_addr s)"
    if "getaddr_outstanding s \<longrightarrow> announces_itself (se_addr s) n ps"
  proof -
    have sol: "(\<not> (n = 1 \<and> length ps = 1 \<and> g_addr (ps ! 0) = se_addr s) \<and> getaddr_outstanding s) = False"
      "((n = 1 \<and> length ps = 1 \<and> g_addr (ps ! 0) = se_addr s) \<and> getaddr_outstanding s) = getaddr_outstanding s"
      using that by (auto simp: announces_itself_def)
    show ?thesis unfolding offer_gossip_def Let_def step_bind_def step_get_def id_def prod.case sum.case sol
      by (simp add: step_bind_def step_then_def step_get_def step_mod_def step_when_def step_ret_def emit_event_def addr_part_def
          t_def [symmetric] assms(2) n handle_gossip_def GOSSIP_QUEUE_def if_distrib [of snd] if_distribR if_distrib [of se_gossip] cong: if_cong)
        (use that in \<open>auto simp: announces_itself_def not_le not_less le_nat_iff\<close>)
  qed
  show "addr_part (snd (offer_gossip en i am n ps s)) = (t, io_now i, False, if ps = [] then [] else [ps], se_addr s)"
    if "getaddr_outstanding s" "\<not> announces_itself (se_addr s) n ps"
  proof -
    have sol: "(\<not> (n = 1 \<and> length ps = 1 \<and> g_addr (ps ! 0) = se_addr s) \<and> getaddr_outstanding s) = True"
      "((n = 1 \<and> length ps = 1 \<and> g_addr (ps ! 0) = se_addr s) \<and> getaddr_outstanding s) = False"
      using that by (auto simp: announces_itself_def)
    show ?thesis unfolding offer_gossip_def Let_def step_bind_def step_get_def id_def prod.case sum.case sol
      by (simp add: step_bind_def step_then_def step_get_def step_mod_def step_when_def step_ret_def emit_event_def addr_part_def
          t_def [symmetric] assms(2) n handle_gossip_def GOSSIP_QUEUE_def if_distrib [of snd] if_distribR if_distrib [of se_gossip] cong: if_cong)
        (use that in \<open>auto simp: announces_itself_def\<close>)
  qed
qed

section \<open>Runs of a session\<close>

fun input_io :: "session_input \<Rightarrow> io" where
  "input_io (TimerFired i) = i"
| "input_io (GotMessage i _) = i"

abbreviation input_time :: "session_input \<Rightarrow> nat" where
  "input_time x \<equiv> io_now (input_io x)"

text \<open>The loop with the address manager taking the gossip after each input: all the addresses it got.\<close>

fun gossip_taken :: "penv \<Rightarrow> session_input list \<Rightarrow> session \<Rightarrow> gossiped list" where
  "gossip_taken en [] s = []"
| "gossip_taken en (x # xs) s =
     (case session_step en x (s\<lparr>se_gossip := []\<rparr>) of
        (Inl _, s') \<Rightarrow> concat (se_gossip s')
      | (Inr _, s') \<Rightarrow> concat (se_gossip s') @ gossip_taken en xs s')"

text \<open>How many addresses the reply to our request holds: the first message with addresses that is more than an announcement of the peer itself.\<close>

fun reply_length :: "penv \<Rightarrow> peer_addr \<Rightarrow> session_input list \<Rightarrow> nat" where
  "reply_length en a [] = 0"
| "reply_length en a (TimerFired i # xs) = reply_length en a xs"
| "reply_length en a (GotMessage i msg # xs) =
     (case gossip_of en msg of
        None \<Rightarrow> reply_length en a xs
      | Some (am, n, ps) \<Rightarrow> if announces_itself a n ps then reply_length en a xs else length ps)"

definition uncharged :: "penv \<Rightarrow> session_input list \<Rightarrow> session \<Rightarrow> nat" where
  "uncharged en xs s = (if getaddr_outstanding s then reply_length en (se_addr s) xs else 0)"

lemma addr_step:
  assumes "se_gossip s = []" "0 \<le> addr_tokens s" "session_step en x s = (r, s')"
  obtains k free where "length (concat (se_gossip s')) \<le> k + free" "\<And>xs. free + uncharged en xs s' \<le> uncharged en (x # xs) s"
    "bucket_step ADDR_RATE_PER_SEC ADDR_BURST (input_time x) (addr_tokens s, addr_tokens_updated s)
       (addr_tokens s', addr_tokens_updated s') k"
proof -
  have unchanged: "addr_part s' = addr_part s \<Longrightarrow> (\<And>xs. reply_length en (se_addr s) (x # xs) = reply_length en (se_addr s) xs) \<Longrightarrow> thesis"
    by (rule that [of 0 0]) (use assms(1) in \<open>auto simp: addr_part_def bucket_step_def uncharged_def\<close>)
  show thesis
  proof (cases x)
    case (TimerFired i)
    then show ?thesis
      using addr_frame.frame_ping_tick [of s "addr_part s" i] assms(3)
      by (intro unchanged) (simp_all add: session_step_def step_keeps_def)
  next
    case (GotMessage i msg)
    show ?thesis
    proof (cases "gossip_of en msg")
      case None
      show ?thesis
        using addr_frame.frame_message [OF refl _ addr_part_get_headers addr_frame.frame_pong, of en msg s i] None assms(3) GotMessage
        by (intro unchanged) (simp_all add: session_step_def step_keeps_def)
    next
      case (Some g)
      then obtain am n ps where g: "gossip_of en msg = Some (am, n, ps)" by (cases g) auto
      let ?s = "s\<lparr>conn_stats := record_message (message_command msg) (conn_stats s)\<rparr>"
      define t where "t = refill ADDR_RATE_PER_SEC ADDR_BURST (addr_tokens s) (io_now i - addr_tokens_updated s)"
      have s': "s' = snd (offer_gossip en i am n ps ?s)"
        using assms(3) GotMessage
        by (simp add: session_step_def gossip_message [OF g] step_then_def step_bind_def step_mod_def)
      have len: "length ps \<le> n" using gossip_length [OF g] .
      show ?thesis
      proof (cases "getaddr_outstanding s \<longrightarrow> announces_itself (se_addr s) n ps")
        case True
        define k where "k = min (length ps) (nat \<lfloor>t\<rfloor>)"
        have "addr_part s' = (spend t k, io_now i, getaddr_outstanding s, if ps = [] \<or> nat \<lfloor>t\<rfloor> = 0 then [] else [take (nat \<lfloor>t\<rfloor>) ps], se_addr s)"
          unfolding s' k_def using addr_part_gossip(1) [of ps n ?s t i en am, OF len] assms(1) True by (simp add: t_def)
        moreover have "of_nat k \<le> t"
          unfolding k_def using addr_bucket.refill_bounds [OF assms(2)] by (intro kept_le) (simp add: t_def)
        ultimately show ?thesis using True
          by (intro that [of k 0])
            (auto simp: addr_part_def bucket_step_def GotMessage t_def [symmetric] k_def uncharged_def g split: if_splits)
      next
        case False
        have "addr_part s' = (t, io_now i, False, if ps = [] then [] else [ps], se_addr s)"
          unfolding s' using addr_part_gossip(2) [of ps n ?s t i en am, OF len] assms(1) False by (simp add: t_def)
        moreover have "spend t 0 = t" "0 \<le> t"
          using addr_bucket.refill_is_double [of "addr_tokens s"] addr_bucket.refill_bounds [OF assms(2)] by (simp_all add: spend_def t_def)
        ultimately show ?thesis using False
          by (intro that [of 0 "length ps"])
            (auto simp: addr_part_def bucket_step_def GotMessage t_def [symmetric] uncharged_def g split: if_splits)
      qed
    qed
  qed
qed

lemma sorted_time:
  "sorted (u # map input_time (x # xs) @ [T]) \<Longrightarrow> u' \<le> input_time x
   \<Longrightarrow> u \<le> input_time x \<and> input_time x \<le> T \<and> sorted (u' # map input_time xs @ [T])"
  by auto

lemma gossip_uses:
  assumes "0 \<le> addr_tokens s" "addr_tokens s \<le> ADDR_BURST" "sorted (addr_tokens_updated s # map input_time xs @ [T])"
  shows "\<exists>uses. bucket_run ADDR_RATE_PER_SEC ADDR_BURST (addr_tokens s) uses
    \<and> length (gossip_taken en xs s) \<le> uncharged en xs s + sum_list (map snd uses)
    \<and> sum_list (map fst uses) \<le> T - addr_tokens_updated s \<and> length uses \<le> length xs"
  using assms
proof (induction xs arbitrary: s)
  case Nil
  then show ?case by (intro exI [of _ "[]"]) simp
next
  case (Cons x xs)
  obtain r s' where step: "session_step en x (s\<lparr>se_gossip := []\<rparr>) = (r, s')" by fastforce
  have same: "uncharged en ys (s\<lparr>se_gossip := []\<rparr>) = uncharged en ys s" for ys by (simp add: uncharged_def)
  obtain k free where k: "length (concat (se_gossip s')) \<le> k + free" "\<And>ys. free + uncharged en ys s' \<le> uncharged en (x # ys) s"
      "bucket_step ADDR_RATE_PER_SEC ADDR_BURST (input_time x) (addr_tokens s, addr_tokens_updated s)
        (addr_tokens s', addr_tokens_updated s') k"
    by (rule addr_step [OF _ _ step]) (use Cons.prems in \<open>auto simp: same\<close>)
  have u: "addr_tokens_updated s \<le> input_time x" using Cons.prems(3) by simp
  note b = addr_bucket.bucket_step_bounds [OF k(3) Cons.prems(1,2) u]
  note time = sorted_time [OF Cons.prems(3) b(3)]
  obtain uses where uses: "bucket_run ADDR_RATE_PER_SEC ADDR_BURST (addr_tokens s') uses"
      "length (gossip_taken en xs s') \<le> uncharged en xs s' + sum_list (map snd uses)"
      "sum_list (map fst uses) \<le> T - addr_tokens_updated s'" "length uses \<le> length xs"
    using Cons.IH [OF b(1,2)] time by blast
  obtain uses' where uses': "bucket_run ADDR_RATE_PER_SEC ADDR_BURST (addr_tokens s) uses'"
      "sum_list (map snd uses') = k + sum_list (map snd uses)"
      "sum_list (map fst uses') \<le> T - addr_tokens_updated s" "length uses' \<le> Suc (length uses)"
    by (rule addr_bucket.bucket_step_run [OF k(3) u _ uses(1,3)]) (use time in auto)
  have "length (gossip_taken en (x # xs) s) \<le> k + free + (uncharged en xs s' + sum_list (map snd uses))"
    using k(1) uses(2) by (simp add: step split: sum.split)
  with uses' uses(4) k(2) [of xs] show ?case by (intro exI [of _ uses']) auto
qed

section \<open>Answers to getheaders\<close>

definition headers_sent :: "session \<Rightarrow> nat" where
  "headers_sent s = length (filter is_headers_msg (se_sent s))"

definition headers_part :: "session \<Rightarrow> rat \<times> nat \<times> nat" where
  "headers_part s = (getheaders_tokens s, getheaders_tokens_updated s, headers_sent s)"

interpretation headers_frame: step_frame "\<lambda>s. headers_part s = v" for v
  by unfold_locales (simp_all add: headers_part_def headers_sent_def)

lemma headers_part_gossip: "headers_part (snd (offer_gossip en i am n ps s)) = headers_part s"
  by (simp add: offer_gossip_def Let_def step_bind_def step_then_def step_get_def step_mod_def step_when_def step_ret_def
      step_fail_def emit_event_def headers_part_def headers_sent_def)

lemma headers_part_get_headers:
  assumes "handle_get_headers i m s = (r, s')" "0 \<le> getheaders_tokens s"
  obtains k where "headers_sent s' \<le> headers_sent s + k"
    "bucket_step GETHEADERS_RATE_PER_SEC GETHEADERS_BURST (io_now i) (getheaders_tokens s, getheaders_tokens_updated s)
       (getheaders_tokens s', getheaders_tokens_updated s') k"
proof -
  define t where "t = refill GETHEADERS_RATE_PER_SEC GETHEADERS_BURST (getheaders_tokens s) (io_now i - getheaders_tokens_updated s)"
  note steps = handle_get_headers_def may_answer_getheaders_def step_bind_def step_then_def step_get_def step_mod_def
    step_ret_def step_fail_def Let_def
  show thesis
  proof (cases "t < 1")
    case True
    then have "getheaders_tokens s' = t \<and> getheaders_tokens_updated s' = io_now i \<and> se_sent s' = se_sent s"
      using assms(1) True by (auto simp: steps t_def [symmetric])
    moreover have "spend t 0 = t" using getheaders_bucket.refill_f64 by (simp add: spend_def t_def)
    ultimately show ?thesis using getheaders_bucket.refill_bounds [OF assms(2), of "io_now i - getheaders_tokens_updated s"]
      by (intro that [of 0]) (simp_all add: headers_sent_def bucket_step_def t_def [symmetric])
  next
    case False
    let ?s = "s\<lparr>getheaders_tokens := spend t 1, getheaders_tokens_updated := io_now i\<rparr>"
    have "s' = ?s \<or> (\<exists>hdrs. send_msg (HeadersMsg hdrs) ?s = (r, s'))"
      using assms(1) False by (auto simp: steps t_def [symmetric] split: option.splits)
    then have "getheaders_tokens s' = spend t 1 \<and> getheaders_tokens_updated s' = io_now i \<and> headers_sent s' \<le> headers_sent s + 1"
      by (cases "se_writes s") (auto simp: send_msg_def headers_sent_def split: bool.splits)
    with False show ?thesis by (intro that [of 1]) (simp_all add: bucket_step_def t_def)
  qed
qed

lemma headers_step:
  assumes "session_step en x s = (r, s')" "0 \<le> getheaders_tokens s"
  obtains k where "headers_sent s' \<le> headers_sent s + k"
    "bucket_step GETHEADERS_RATE_PER_SEC GETHEADERS_BURST (input_time x) (getheaders_tokens s, getheaders_tokens_updated s)
       (getheaders_tokens s', getheaders_tokens_updated s') k"
proof -
  have unchanged: "headers_part s' = headers_part s \<Longrightarrow> thesis"
    by (rule that [of 0]) (auto simp: headers_part_def bucket_step_def)
  show thesis
  proof (cases x)
    case (TimerFired i)
    then show ?thesis
      using headers_frame.frame_ping_tick [of s "headers_part s" i] assms(1)
      by (intro unchanged) (simp add: session_step_def step_keeps_def)
  next
    case (GotMessage i msg)
    let ?s = "s\<lparr>conn_stats := record_message (message_command msg) (conn_stats s)\<rparr>"
    consider (gossip) am n ps where "gossip_of en msg = Some (am, n, ps)"
      | (getheaders) m where "msg = GetHeadersMsg m"
      | (other) "gossip_of en msg = None" "\<And>m. msg \<noteq> GetHeadersMsg m" by (metis option.exhaust prod.exhaust)
    then show ?thesis
    proof cases
      case gossip
      then show ?thesis using assms(1) GotMessage headers_part_gossip [of en i am n ps ?s]
        by (intro unchanged)
          (simp add: session_step_def gossip_message [OF gossip] step_then_def step_bind_def step_mod_def headers_part_def headers_sent_def)
    next
      case getheaders
      have "handle_get_headers i m ?s = (r, s')"
        using assms(1) GotMessage getheaders
        by (simp add: session_step_def handle_message_def step_then_def step_bind_def step_mod_def)
      from headers_part_get_headers [OF this] that GotMessage assms(2) show ?thesis by (auto simp: headers_sent_def)
    next
      case other
      then show ?thesis
        using headers_frame.frame_message [OF refl _ _ headers_frame.frame_pong, of en msg s i] other assms(1) GotMessage
        by (intro unchanged) (simp add: session_step_def step_keeps_def)
    qed
  qed
qed

lemma headers_uses:
  assumes "0 \<le> getheaders_tokens s" "getheaders_tokens s \<le> GETHEADERS_BURST"
    "sorted (getheaders_tokens_updated s # map input_time xs @ [T])"
  shows "\<exists>uses. bucket_run GETHEADERS_RATE_PER_SEC GETHEADERS_BURST (getheaders_tokens s) uses
    \<and> headers_sent (snd (session_loop en xs s)) - headers_sent s \<le> sum_list (map snd uses)
    \<and> sum_list (map fst uses) \<le> T - getheaders_tokens_updated s \<and> length uses \<le> length xs"
  using assms
proof (induction xs arbitrary: s)
  case Nil
  then show ?case by (intro exI [of _ "[]"]) (simp add: step_ret_def)
next
  case (Cons x xs)
  obtain r s' where step: "session_step en x s = (r, s')" by fastforce
  obtain k where k: "headers_sent s' \<le> headers_sent s + k"
      "bucket_step GETHEADERS_RATE_PER_SEC GETHEADERS_BURST (input_time x) (getheaders_tokens s, getheaders_tokens_updated s)
        (getheaders_tokens s', getheaders_tokens_updated s') k"
    by (rule headers_step [OF step Cons.prems(1)])
  have u: "getheaders_tokens_updated s \<le> input_time x" using Cons.prems(3) by simp
  note b = getheaders_bucket.bucket_step_bounds [OF k(2) Cons.prems(1,2) u]
  note time = sorted_time [OF Cons.prems(3) b(3)]
  obtain uses where uses: "bucket_run GETHEADERS_RATE_PER_SEC GETHEADERS_BURST (getheaders_tokens s') uses"
      "headers_sent (snd (session_loop en xs s')) - headers_sent s' \<le> sum_list (map snd uses)"
      "sum_list (map fst uses) \<le> T - getheaders_tokens_updated s'" "length uses \<le> length xs"
    using Cons.IH [OF b(1,2)] time by blast
  obtain uses' where uses': "bucket_run GETHEADERS_RATE_PER_SEC GETHEADERS_BURST (getheaders_tokens s) uses'"
      "sum_list (map snd uses') = k + sum_list (map snd uses)"
      "sum_list (map fst uses') \<le> T - getheaders_tokens_updated s" "length uses' \<le> Suc (length uses)"
    by (rule getheaders_bucket.bucket_step_run [OF k(2) u _ uses(1,3)]) (use time in auto)
  have "headers_sent (snd (session_loop en (x # xs) s)) - headers_sent s \<le> k + sum_list (map snd uses)"
    using k(1) uses(2) by (cases r) (simp_all add: step step_then_def step_bind_def)
  with uses' uses(4) show ?case by (intro exI [of _ uses']) auto
qed

section \<open>Inventories\<close>

text \<open>What a step adds to what was sent and queued.\<close>

definition adds :: "(net_message \<Rightarrow> bool) \<Rightarrow> nat \<Rightarrow> session \<Rightarrow> session \<Rightarrow> bool" where
  "adds M k s s' \<longleftrightarrow>
     (\<exists>ms. se_sent s' = se_sent s @ ms \<and> list_all M ms)
     \<and> length (ob_queue (se_outbox s')) \<le> length (ob_queue (se_outbox s)) + k"

fun is_getheaders :: "net_message \<Rightarrow> bool" where
  "is_getheaders (GetHeadersMsg _) = True"
| "is_getheaders _ = False"

lemma adds_refl: "adds M k s s"
  by (simp add: adds_def)

lemma adds_trans: "adds M j s s' \<Longrightarrow> adds M k s' s'' \<Longrightarrow> adds M (j + k) s s''"
  by (auto simp: adds_def)

lemma adds_weaken: "adds M j s s' \<Longrightarrow> (\<And>m. M m \<Longrightarrow> N m) \<Longrightarrow> j \<le> k \<Longrightarrow> adds N k s s'"
  by (fastforce simp: adds_def list_all_iff)

lemma adds_send: "M m \<Longrightarrow> adds M 0 s (snd (send_msg m s))"
  by (auto simp: adds_def send_msg_def split: list.splits bool.splits)

lemma adds_announce: "fst (emit_block_announcement en i h ty n new shape s) = Inr ()
    \<and> adds M 1 s (snd (emit_block_announcement en i h ty n new shape s))"
proof -
  have "length (ob_queue (emit_send ev ob)) \<le> length (ob_queue ob) + 1" for ev ob
    by (cases rule: emit_send_cases [of ev ob]) (auto simp: count_drop_def Let_def split: option.splits)
  then show ?thesis
    by (simp add: emit_block_announcement_def emit_event_def step_bind_def step_get_def step_mod_def adds_def)
qed

lemma adds_getheaders: "adds is_getheaders 0 s (snd (send_getheaders s))"
  by (auto simp: send_getheaders_def step_bind_def step_get_def step_fail_def adds_refl intro!: adds_send split: option.splits)

lemma adds_recover: "adds is_getheaders 0 s (snd (recover_headers i h p s))"
proof -
  have tree: "adds is_getheaders 0 (s\<lparr>se_tree := t, asked_for := a\<rparr>) s' \<Longrightarrow> adds is_getheaders 0 s s'" for t a s'
    by (simp add: adds_def)
  have "adds is_getheaders 0 s (snd (send_getheaders (s\<lparr>se_tree := t, asked_for := a\<rparr>)))" for t a
    using adds_getheaders by (rule tree)
  then show ?thesis
    by (auto simp: recover_headers_def step_bind_def step_then_def step_get_def step_ret_def step_mod_def adds_def Let_def
        split: prod.splits)
qed

lemma inv_loop_block:
  assumes "inv_block x = Some (h, c)" "a < MAX_BLOCK_INVS_ANNOUNCED" "inv_loop en i n (x # xs) a g s = (r, s')"
  obtains (stop) e where "r = Inl e" "adds is_getheaders 1 s s'"
  | (go) s2 where "adds is_getheaders 1 s s2"
      "inv_loop en i n xs (Suc a) (if c then g @ [InvCompactBlock h] else g) s2 = (r, s')"
proof -
  define known where "known = seen_hash (se_tree s) h"
  define s1 where "s1 = snd (emit_block_announcement en i h AnnInv n (\<not> known) None s)"
  define r2 where "r2 = step_when (\<not> known) (recover_headers i h False) s1"
  have s1: "adds is_getheaders 1 s s1" "emit_block_announcement en i h AnnInv n (\<not> known) None s = (Inr (), s1)"
    using adds_announce [of en i h AnnInv n "\<not> known" None s is_getheaders] by (auto simp: s1_def intro: prod_eqI)
  have s2: "adds is_getheaders 1 s (snd r2)"
    using adds_trans [OF s1(1), of 0 "snd r2"] adds_recover [of s1 i h False]
    by (cases known) (simp_all add: r2_def step_when_def step_ret_def s1 adds_refl)
  have eq: "(case r2 of (Inl e, s) \<Rightarrow> (Inl e, s)
      | (Inr _, s2) \<Rightarrow> inv_loop en i n xs (Suc a) (if c then g @ [InvCompactBlock h] else g) s2) = (r, s')"
    using assms s1(2) known_def by (cases c) (simp_all add: step_bind_def step_then_def step_get_def r2_def)
  show ?thesis
  proof (cases r2)
    case (Pair q s2')
    then show ?thesis using eq s2 by (cases q) (auto intro: stop go)
  qed
qed

lemma inv_block_compact: "inv_block x = Some (h, True) \<Longrightarrow> x = InvCompactBlock h"
  by (cases x) auto

lemma adds_inv_loop:
  assumes "a \<le> MAX_BLOCK_INVS_ANNOUNCED" "inv_loop en i n xs a g s = (r, s')"
  shows "adds is_getheaders (MAX_BLOCK_INVS_ANNOUNCED - a) s s'
    \<and> (\<forall>g'. r = Inr g' \<longrightarrow> (\<exists>h. g' = g @ map InvCompactBlock h \<and> length h \<le> MAX_BLOCK_INVS_ANNOUNCED - a
          \<and> InvCompactBlock ` set h \<subseteq> set xs))"
  using assms
proof (induction xs arbitrary: a g s)
  case Nil
  then show ?case by (auto simp: step_ret_def adds_refl intro: exI [of _ "[]"])
next
  case (Cons x xs)
  consider (other) "inv_block x = None" | (full) hc where "inv_block x = Some hc" "MAX_BLOCK_INVS_ANNOUNCED \<le> a"
    | (block) h c where "inv_block x = Some (h, c)" "a < MAX_BLOCK_INVS_ANNOUNCED" by (metis linorder_not_le option.exhaust prod.exhaust)
  then show ?case
  proof cases
    case other
    then have "inv_loop en i n xs a g s = (r, s')" using Cons.prems(2) by simp
    from Cons.IH [OF Cons.prems(1) this] show ?thesis by auto blast
  next
    case full
    then show ?thesis using Cons.prems by (auto simp: step_ret_def adds_refl split: prod.splits intro: exI [of _ "[]"])
  next
    case block
    from block Cons.prems(2) show ?thesis
    proof (cases rule: inv_loop_block)
      case (stop e)
      then show ?thesis using block(2) adds_weaken [OF stop(2), of is_getheaders "MAX_BLOCK_INVS_ANNOUNCED - a"] by simp
    next
      case (go s2)
      let ?g = "if c then g @ [InvCompactBlock h] else g"
      have IH: "adds is_getheaders (MAX_BLOCK_INVS_ANNOUNCED - Suc a) s2 s'"
        "\<And>g'. r = Inr g' \<Longrightarrow> \<exists>h. g' = ?g @ map InvCompactBlock h \<and> length h \<le> MAX_BLOCK_INVS_ANNOUNCED - Suc a
          \<and> InvCompactBlock ` set h \<subseteq> set xs"
        using Cons.IH [OF _ go(2)] block(2) by auto
      have "adds is_getheaders (MAX_BLOCK_INVS_ANNOUNCED - a) s s'"
        using adds_trans [OF go(1) IH(1)] block(2) by (simp add: Suc_diff_Suc)
      moreover have "\<exists>h'. g' = g @ map InvCompactBlock h' \<and> length h' \<le> MAX_BLOCK_INVS_ANNOUNCED - a
          \<and> InvCompactBlock ` set h' \<subseteq> set (x # xs)" if r: "r = Inr g'" for g'
      proof -
        obtain h' where "g' = ?g @ map InvCompactBlock h'" "length h' \<le> MAX_BLOCK_INVS_ANNOUNCED - Suc a"
          "InvCompactBlock ` set h' \<subseteq> set xs" using IH(2) [OF r] by blast
        with block inv_block_compact [of x h] show ?thesis by (intro exI [of _ "if c then h # h' else h'"]) auto
      qed
      ultimately show ?thesis by blast
    qed
  qed
qed

section \<open>Peers that stop answering\<close>

definition awaiting :: "nat \<Rightarrow> session \<Rightarrow> bool" where
  "awaiting t s \<longleftrightarrow> outstanding_pings (conn_stats s) \<noteq> [] \<and> last_pong (conn_stats s) = t"

lemma record_message_pings [simp]:
  "outstanding_pings (record_message c st) = outstanding_pings st" "last_pong (record_message c st) = last_pong st"
  by (simp_all add: record_message_def split: option.splits)

interpretation awaiting_frame: quiet_frame "awaiting t" for t
  by unfold_locales (simp_all add: awaiting_def)

interpretation last_pong_frame: quiet_frame "\<lambda>s. last_pong (conn_stats s) = t" for t
  by unfold_locales simp_all

lemma stats_offer_gossip: "conn_stats (snd (offer_gossip en i am n ps s)) = conn_stats s"
  by (simp add: offer_gossip_def Let_def step_bind_def step_then_def step_get_def step_mod_def step_when_def step_ret_def
      step_fail_def emit_event_def)

lemma stats_get_headers:
  "outstanding_pings (conn_stats (snd (handle_get_headers i m s))) = outstanding_pings (conn_stats s)
   \<and> last_pong (conn_stats (snd (handle_get_headers i m s))) = last_pong (conn_stats s)"
  by (auto simp: handle_get_headers_def may_answer_getheaders_def step_bind_def step_then_def step_get_def step_mod_def
      step_ret_def step_fail_def send_msg_def Let_def split: option.splits list.splits bool.splits)

lemma record_ping_awaits: "outstanding_pings (record_ping n st) \<noteq> []" "last_pong (record_ping n st) = last_pong st"
  by (cases "outstanding_pings st"; simp add: record_ping_def Let_def OUTSTANDING_PINGS_def)+

lemma stats_ping_tick:
  assumes "ping_tick i s = (Inr u, s')"
  shows "awaiting (last_pong (conn_stats s)) s'" "\<not> (outstanding_pings (conn_stats s) \<noteq> [] \<and> PING_TIMEOUT \<le> io_now i - last_pong (conn_stats s))"
  using assms
  by (auto simp: ping_tick_def ping_timed_out_def send_ping_def step_bind_def step_then_def step_get_def step_mod_def step_fail_def
      send_msg_def record_ping_awaits awaiting_def Let_def split: if_splits list.splits bool.splits)

fun is_pong_input :: "session_input \<Rightarrow> bool" where
  "is_pong_input (GotMessage _ (Pong _)) = True"
| "is_pong_input _ = False"

text \<open>Only a pong puts the deadline off.\<close>

lemma mute_step:
  assumes "\<not> is_pong_input x" "session_step en x s = (Inr u, s')"
  shows "last_pong (conn_stats s') = last_pong (conn_stats s)" "awaiting t s \<Longrightarrow> awaiting t s'"
proof -
  have msg: "step_keeps any_error P (handle_message en i msg) s" if P: "P s" "quiet_frame P" "x = GotMessage i msg"
    and st: "\<And>s s'. outstanding_pings (conn_stats s') = outstanding_pings (conn_stats s)
      \<Longrightarrow> last_pong (conn_stats s') = last_pong (conn_stats s) \<Longrightarrow> P s \<Longrightarrow> P s'" for P i msg
  proof (rule quiet_frame.frame_message [OF P(2,1)])
    show "step_keeps any_error P (offer_gossip en i am n ps) s" if "P s" for am n ps s
      using st [OF _ _ that] by (simp add: step_keeps_def stats_offer_gossip)
    show "step_keeps any_error P (handle_get_headers i m) s" if "P s" for m s
      using st [OF _ _ that] stats_get_headers [of i m s] by (simp add: step_keeps_def)
  qed (use assms(1) P(3) in auto)
  show "last_pong (conn_stats s') = last_pong (conn_stats s)"
    using msg [of "\<lambda>s'. last_pong (conn_stats s') = last_pong (conn_stats s)", OF _ last_pong_frame.quiet_frame_axioms] assms(2)
    by (cases x) (auto simp: session_step_def step_keeps_def awaiting_def dest: stats_ping_tick(1))
  show "awaiting t s'" if "awaiting t s"
    using msg [of "awaiting t", OF that awaiting_frame.quiet_frame_axioms] assms(2) that
    by (cases x) (auto simp: session_step_def step_keeps_def awaiting_def dest: stats_ping_tick(1))
qed

lemma mute_loop:
  assumes "list_all (\<lambda>x. \<not> is_pong_input x) xs" "session_loop en xs s = (Inr u, s')"
  shows "last_pong (conn_stats s') = last_pong (conn_stats s)" "awaiting t s \<Longrightarrow> awaiting t s'"
  using assms
proof (induction xs arbitrary: s)
  case (Cons x xs)
  { case 1 then show ?case using Cons.IH(1) mute_step(1) [of x en s]
      by (fastforce simp: step_then_def step_bind_def split: prod.splits sum.splits) }
  { case 2 then show ?case using Cons.IH(2) mute_step(2) [of x en s]
      by (fastforce simp: step_then_def step_bind_def split: prod.splits sum.splits) }
qed (simp_all add: step_ret_def)

lemma session_loop_append:
  "session_loop en (xs @ ys) s = (case session_loop en xs s of (Inl e, s') \<Rightarrow> (Inl e, s') | (Inr _, s') \<Rightarrow> session_loop en ys s')"
  by (induction xs arbitrary: s) (auto simp: step_then_def step_bind_def step_ret_def split: prod.splits sum.splits)

section \<open>The registry\<close>

text \<open>A session touches no other session's registration.\<close>

definition only_own :: "u64 \<Rightarrow> registry \<Rightarrow> session \<Rightarrow> bool" where
  "only_own cid R s \<longleftrightarrow> connection_id s = cid \<and> (\<forall>k. k \<noteq> cid \<longrightarrow> map_of (se_registry s) k = map_of R k)"

interpretation registry_frame: stats_frame "only_own cid R" for cid R
  by unfold_locales (simp_all add: only_own_def)

lemma registry_ping_tick: "only_own cid R s \<Longrightarrow> step_keeps any_error (only_own cid R) (ping_tick i) s"
  unfolding ping_tick_def send_ping_def
  by (intro keeps_get)
    (auto simp: only_own_def reg_refresh_def map_of_map_entry Let_def
      intro!: keeps_fail keeps_then keeps_mod registry_frame.frame_send split: option.splits)

lemma registry_session_run: "only_own cid R s \<Longrightarrow> step_keeps any_error (only_own cid R) (session_run en xs) s"
proof -
  have gossip: "step_keeps any_error (only_own cid R) (offer_gossip en i am n ps) s" if "only_own cid R s" for en i am n ps s
    using that by (auto simp: step_keeps_def only_own_def offer_gossip_def Let_def step_bind_def step_then_def step_get_def
        step_mod_def step_when_def step_ret_def step_fail_def emit_event_def)
  have get: "step_keeps any_error (only_own cid R) (handle_get_headers i m) s" if "only_own cid R s" for i m s
    using that by (auto simp: step_keeps_def only_own_def handle_get_headers_def may_answer_getheaders_def step_bind_def
        step_then_def step_get_def step_mod_def step_ret_def step_fail_def send_msg_def Let_def
        split: option.splits list.splits bool.splits)
  have step: "step_keeps any_error (only_own cid R) (session_step en x) s" if "only_own cid R s" for x s
    unfolding session_step_def
    using that by (auto intro!: registry_ping_tick registry_frame.frame_message registry_frame.frame_pong gossip get split: session_input.split)
  have "step_keeps any_error (only_own cid R) (session_loop en xs) s" if "only_own cid R s" for s
    using that by (induction xs arbitrary: s) (auto intro!: keeps_ret keeps_then step)
  moreover have "step_keeps any_error (only_own cid R) run_start s" if "only_own cid R s" for s
    unfolding run_start_def using that
    by (intro keeps_then registry_frame.frame_send registry_frame.frame_getheaders keeps_mod) (auto simp: only_own_def)
  moreover assume "only_own cid R s"
  ultimately show ?thesis unfolding session_run_def by (intro keeps_then)
qed

section \<open>Properties\<close>

lemma session_ok_new:
  assumes "tree_held (en_chain en) (w_tree w)" "length (ob_queue (w_outbox w)) \<le> EVENT_QUEUE"
    "length (w_gossip w) \<le> GOSSIP_QUEUE" "hm_ok (w_registry w)"
  shows "session_ok en (session_new cfg tv cid a info sc w)"
  using assms addr_bucket.burst(1) getheaders_bucket.burst(1)
  by (simp add: session_ok_def session_new_def stats_ok_new)

lemma session_run_ok:
  assumes "hash_order (en_order en)" "session_ok en s"
  shows "fst (session_run en xs s) \<noteq> Inl Panicked" "session_ok en (snd (session_run en xs s))"
proof -
  have "step_keeps no_panic (session_ok en) (session_run en xs) s"
    unfolding session_run_def using assms by (intro keeps_then keeps_run_start keeps_session_loop)
  then show "fst (session_run en xs s) \<noteq> Inl Panicked" "session_ok en (snd (session_run en xs s))"
    by (auto simp: step_keeps_def)
qed

definition sample_penv :: penv where
  "sample_penv = \<lparr>en_chain = demo_chain, en_order = id, en_sha3 = (\<lambda>_. replicate 32 0),
     en_codec = \<lparr>cd_u32 = (\<lambda>_. None), cd_u16 = (\<lambda>_. None), cd_compact = (\<lambda>_. None), cd_emit_compact = (\<lambda>_. []),
       cd_addr = (\<lambda>_. None)\<rparr>, en_max_inv = 50000\<rparr>"

definition demo_info :: handshake_info where
  "demo_info = \<lparr>hi_version = \<lparr>vm_version = 70016, vm_services = 9, vm_timestamp = 0, vm_receiver = None, vm_nonce = 7,
     vm_user_agent = ''/peer/'', vm_start_height = 0, vm_relay = True\<rparr>, hi_send_addr_v2 = True, hi_wtxid_relay = True\<rparr>"

definition demo_world :: world where
  "demo_world = \<lparr>w_tree = demo_tree, w_outbox = outbox_new 1, w_gossip = [], w_life = [], w_registry = registry_new\<rparr>"

definition demo_script :: script where
  "demo_script = \<lparr>sc_reads = [Inr (Version (hi_version demo_info)), Inr Verack], sc_inputs = [],
     sc_last_read = error_new (CIo IoUnexpectedEof), sc_hs_writes = [], sc_writes = [], sc_write_error = error_new (CIo IoBrokenPipe),
     sc_timestamp = 0, sc_nonce = 1, sc_connected_at = 5, sc_unix_ms = 100, sc_undecodable = 0\<rparr>"

definition sample_pcfg :: pconfig where
  "sample_pcfg = \<lparr>pc_user_agent = ''/p2p-observer:0.1.0/'', pc_sync_headers = False, pc_probe_compact_blocks = False, pc_tor_enabled = False\<rparr>"

definition demo_session :: session where
  "demo_session = session_new sample_pcfg 2 1 (peer_addr.Ipv4 [1, 2, 3, 4] 8333) demo_info demo_script demo_world"

definition demo_io :: "nat \<Rightarrow> io" where
  "demo_io n = \<lparr>io_now = n, io_unix_ms = of_nat n, io_tcp = None\<rparr>"

lemma demo_world_ok:
  "tree_held demo_chain (w_tree demo_world)" "length (ob_queue (w_outbox demo_world)) \<le> EVENT_QUEUE"
  "length (w_gossip demo_world) \<le> GOSSIP_QUEUE" "hm_ok (w_registry demo_world)"
  using demo_tree_ok best_ok_held by (auto simp: demo_world_def tree_held_def outbox_new_def registry_new_def hm_ok_def)

text \<open>
  C34. Nothing a peer sends can make a session panic: whatever messages arrive, in whatever order and at whatever
  times, and whichever writes fail, the session ends with one of its typed errors or goes on; the header tree
  keeps its invariant and can always answer, and the queues, the statistics and both buckets stay within their bounds.
\<close>

theorem no_peer_can_break_a_session:
  assumes "hash_order (en_order en)" "tree_held (en_chain en) (w_tree w)" "length (ob_queue (w_outbox w)) \<le> EVENT_QUEUE"
    "length (w_gossip w) \<le> GOSSIP_QUEUE" "hm_ok (w_registry w)"
  shows "fst (session_run en xs (session_new cfg tv cid a info sc w)) \<noteq> Inl Panicked
    \<and> session_ok en (snd (session_run en xs (session_new cfg tv cid a info sc w)))"
  using session_run_ok [OF assms(1) session_ok_new [OF assms(2-5)]] by blast

theorem no_peer_can_break_a_session_witness:
  "fst (session_run sample_penv [GotMessage (demo_io 6) (HeadersMsg demo_batch), TimerFired (demo_io 7)] demo_session) \<noteq> Inl Panicked"
  using no_peer_can_break_a_session [of sample_penv demo_world] demo_world_ok
  by (simp add: sample_penv_def demo_session_def hash_order_id)

text \<open>
  C35. A peer cannot make us take in addresses faster than a bucket of 1000 that refills at a tenth of an address per second, with one
  exception, the reply to our own request: over any inputs in the order of the clock, the number of addresses handed to the address manager
  stays below that, up to the rounding of the arithmetic, and the addresses of the one message that is that reply, the first with
  addresses that is more than an announcement of the peer itself, and only while the request is unanswered.
\<close>

theorem gossip_is_rate_limited:
  assumes "0 \<le> addr_tokens s" "addr_tokens s \<le> ADDR_BURST" "sorted (addr_tokens_updated s # map input_time xs @ [T])"
  shows "of_nat (length (gossip_taken en xs s)) \<le>
    of_nat (if getaddr_outstanding s then reply_length en (se_addr s) xs else 0)
    + 1000 + ADDR_RATE_PER_SEC * (of_nat (T - addr_tokens_updated s) / 10 ^ 9) * (1 + 2 powi (- 51)) + of_nat (length xs) * 2 powi (- 40)"
proof -
  obtain uses where uses: "bucket_run ADDR_RATE_PER_SEC ADDR_BURST (addr_tokens s) uses"
      "length (gossip_taken en xs s) \<le> uncharged en xs s + sum_list (map snd uses)"
      "sum_list (map fst uses) \<le> T - addr_tokens_updated s" "length uses \<le> length xs"
    using gossip_uses [OF assms] by blast
  have "of_nat (length (gossip_taken en xs s) - uncharged en xs s) \<le>
      ADDR_BURST + ADDR_RATE_PER_SEC * seconds (T - addr_tokens_updated s) * (1 + 2 powi (- 51)) + of_nat (length xs) * 2 powi (- 40)"
    by (rule addr_bucket.bucket_total [OF assms(1,2) uses(1,3,4)]) (use uses(2) in simp)
  moreover have "(of_nat (length (gossip_taken en xs s)) :: rat) \<le>
      of_nat (uncharged en xs s) + of_nat (length (gossip_taken en xs s) - uncharged en xs s)"
    unfolding of_nat_add [symmetric] of_nat_le_iff by simp
  ultimately show ?thesis unfolding ADDR_BURST_def [symmetric] uncharged_def [symmetric] by (simp add: seconds_def NANOS_PER_SEC_def)
qed

text \<open>A reply of two addresses, which is free, and a message of one, which is not: all three are passed on.\<close>

definition demo_gossip :: "session_input list" where
  "demo_gossip =
     [GotMessage (demo_io 5) (AddrMsg [(1, 9, Some \<lparr>sa_ip = V4 [5, 6, 7, 8], sa_port = 8333\<rparr>), (2, 9, Some \<lparr>sa_ip = V4 [6, 6, 7, 8], sa_port = 8333\<rparr>)]),
      GotMessage (demo_io 5) (AddrMsg [(3, 9, Some \<lparr>sa_ip = V4 [7, 6, 7, 8], sa_port = 8333\<rparr>)])]"

lemma demo_gossip_taken:
  "length (gossip_taken sample_penv demo_gossip (demo_session\<lparr>getaddr_outstanding := True\<rparr>)) = 3"
  "reply_length sample_penv a demo_gossip = 2"
proof -
  show "reply_length sample_penv a demo_gossip = 2" by (simp add: demo_gossip_def announces_itself_def List.map_filter_simps parse_addr_v1_def try_from_address_def
      from_socket_addr_def)
  have full: "refill ADDR_RATE_PER_SEC ADDR_BURST 1000 0 = 1000" "nat \<lfloor>1000 :: rat\<rfloor> = 1000"
    using f64_int [of 1000] by (simp_all add: refill_def as_secs_f64_def ADDR_BURST_def)
  show "length (gossip_taken sample_penv demo_gossip (demo_session\<lparr>getaddr_outstanding := True\<rparr>)) = 3"
    by (simp add: demo_gossip_def demo_session_def session_new_def demo_script_def demo_io_def session_step_def handle_message_def handle_addr_def
        offer_gossip_def step_bind_def step_then_def step_get_def step_mod_def step_when_def step_ret_def emit_event_def Let_def
        List.map_filter_simps parse_addr_v1_def try_from_address_def from_socket_addr_def ADDR_BURST_def full [unfolded ADDR_BURST_def] handle_gossip_def GOSSIP_QUEUE_def)
qed

theorem gossip_is_rate_limited_witness:
  "length (gossip_taken sample_penv demo_gossip (demo_session\<lparr>getaddr_outstanding := True\<rparr>)) = 3 \<and>
   of_nat (length (gossip_taken sample_penv demo_gossip (demo_session\<lparr>getaddr_outstanding := True\<rparr>))) \<le>
    2 + 1000 + ADDR_RATE_PER_SEC * (of_nat (8 - addr_tokens_updated demo_session) / 10 ^ 9) * (1 + 2 powi (- 51)) + 2 * 2 powi (- 40)"
proof -
  let ?s = "demo_session\<lparr>getaddr_outstanding := True\<rparr>"
  have len: "(of_nat (length demo_gossip) :: rat) = 2" by (simp add: demo_gossip_def)
  have "0 \<le> addr_tokens ?s" "addr_tokens ?s \<le> ADDR_BURST" "sorted (addr_tokens_updated ?s # map input_time demo_gossip @ [8])"
    by (simp_all add: demo_session_def session_new_def demo_script_def demo_gossip_def demo_io_def ADDR_BURST_def)
  from gossip_is_rate_limited [OF this, of sample_penv] demo_gossip_taken(1) show ?thesis by (simp add: demo_gossip_taken(2) len)
qed

text \<open>
  A peer cannot make us answer \<^verbatim>\<open>getheaders\<close> faster than a bucket of 4 that refills at one in thirty seconds,
  up to rounding, whatever else it sends.
\<close>

theorem getheaders_answers_are_rate_limited:
  assumes "0 \<le> getheaders_tokens s" "getheaders_tokens s \<le> GETHEADERS_BURST"
    "sorted (getheaders_tokens_updated s # map input_time xs @ [T])"
  shows "of_nat (headers_sent (snd (session_loop en xs s)) - headers_sent s) \<le>
    4 + GETHEADERS_RATE_PER_SEC * (of_nat (T - getheaders_tokens_updated s) / 10 ^ 9) * (1 + 2 powi (- 51))
      + of_nat (length xs) * 2 powi (- 40)"
proof -
  obtain uses where uses: "bucket_run GETHEADERS_RATE_PER_SEC GETHEADERS_BURST (getheaders_tokens s) uses"
      "headers_sent (snd (session_loop en xs s)) - headers_sent s \<le> sum_list (map snd uses)"
      "sum_list (map fst uses) \<le> T - getheaders_tokens_updated s" "length uses \<le> length xs"
    using headers_uses [OF assms] by blast
  have "of_nat (headers_sent (snd (session_loop en xs s)) - headers_sent s) \<le>
      GETHEADERS_BURST + GETHEADERS_RATE_PER_SEC * seconds (T - getheaders_tokens_updated s) * (1 + 2 powi (- 51))
        + of_nat (length xs) * 2 powi (- 40)"
    by (rule getheaders_bucket.bucket_total [OF assms(1,2) uses(1,3,4,2)])
  then show ?thesis unfolding GETHEADERS_BURST_def [symmetric] by (simp add: seconds_def NANOS_PER_SEC_def)
qed

theorem getheaders_answers_are_rate_limited_witness:
  "of_nat (headers_sent (snd (session_loop sample_penv [TimerFired (demo_io 7)] demo_session)) - headers_sent demo_session) \<le>
    4 + GETHEADERS_RATE_PER_SEC * (of_nat (8 - getheaders_tokens_updated demo_session) / 10 ^ 9) * (1 + 2 powi (- 51))
      + of_nat (length [TimerFired (demo_io 7)]) * 2 powi (- 40)"
  by (rule getheaders_answers_are_rate_limited)
    (simp_all add: demo_session_def session_new_def demo_script_def demo_io_def GETHEADERS_BURST_def)

text \<open>
  An inventory over the protocol limit is a violation and has no other effect. Any other makes us publish at
  most eight announcements and send, besides requests for headers, at most one request for data, for at most
  eight of the compact blocks it named.
\<close>

theorem inventories_have_bounded_effect:
  "(en_max_inv en < length invs \<longrightarrow> handle_inv en i invs s = (Inl (ProtocolViolation (length invs)), s))
   \<and> length (ob_queue (se_outbox (snd (handle_inv en i invs s)))) \<le> length (ob_queue (se_outbox s)) + 8
   \<and> (\<exists>ms data. se_sent (snd (handle_inv en i invs s)) = se_sent s @ ms @ data \<and> list_all is_getheaders ms
        \<and> (data = [] \<or> (\<exists>hs. data = [GetData (map InvCompactBlock hs)] \<and> length hs \<le> 8 \<and> InvCompactBlock ` set hs \<subseteq> set invs)))"
proof -
  let ?n = "length (filter (\<lambda>x. inv_block x \<noteq> None) invs)"
  obtain r s1 where loop: "inv_loop en i ?n invs 0 [] s = (r, s1)" by fastforce
  note L = adds_inv_loop [OF _ this, of, simplified]
  have q: "length (ob_queue (se_outbox (snd (send_msg m s)))) = length (ob_queue (se_outbox s))" for m s
    by (auto simp: send_msg_def split: list.splits bool.splits)
  have sent: "se_sent (snd (send_msg m s)) = se_sent s \<or> se_sent (snd (send_msg m s)) = se_sent s @ [m]" for m s
    by (auto simp: send_msg_def split: list.splits bool.splits)
  obtain ms where ms: "se_sent s1 = se_sent s @ ms" "list_all is_getheaders ms"
    "length (ob_queue (se_outbox s1)) \<le> length (ob_queue (se_outbox s)) + 8"
    using L by (auto simp: adds_def MAX_BLOCK_INVS_ANNOUNCED_def MAX_HEADERS_ANNOUNCED_def)
  show ?thesis
  proof (cases "en_max_inv en < length invs")
    case True
    then show ?thesis by (auto simp: handle_inv_def step_fail_def intro!: exI [of _ "[]"])
  next
    case False
    show ?thesis
    proof (cases r)
      case (Inl e)
      then have "snd (handle_inv en i invs s) = s1" using False loop by (simp add: handle_inv_def step_bind_def)
      then show ?thesis using False ms by (metis append_Nil2)
    next
      case (Inr g)
      then obtain hs where hs: "g = map InvCompactBlock hs" "length hs \<le> 8" "InvCompactBlock ` set hs \<subseteq> set invs"
        using L by (auto simp: MAX_BLOCK_INVS_ANNOUNCED_def MAX_HEADERS_ANNOUNCED_def)
      have "snd (handle_inv en i invs s) = snd (step_when (g \<noteq> []) (send_msg (GetData g)) s1)"
        using False loop Inr by (simp add: handle_inv_def step_bind_def)
      then consider "snd (handle_inv en i invs s) = s1" | "snd (handle_inv en i invs s) = snd (send_msg (GetData g) s1)"
        by (cases "g = []") (auto simp: step_when_def step_ret_def)
      then show ?thesis
        using False ms hs q [of "GetData g" s1] sent [of "GetData g" s1]
        by cases (auto 4 4)
    qed
  qed
qed

theorem inventories_have_bounded_effect_witness:
  "handle_inv (sample_penv\<lparr>en_max_inv := 0\<rparr>) (demo_io 6) [InvOther] demo_session = (Inl (ProtocolViolation 1), demo_session)"
  using inventories_have_bounded_effect [of "sample_penv\<lparr>en_max_inv := 0\<rparr>" "[InvOther]" "demo_io 6" demo_session] by simp

text \<open>
  C36. A peer that stops answering our pings is dropped: if no pong arrives, the timer fires, and fires again twenty
  minutes or more after the last pong, the session has ended by then.
\<close>

theorem mute_peers_are_dropped:
  assumes "xs = before @ TimerFired i # between @ TimerFired j # after"
    "list_all (\<lambda>x. \<not> is_pong_input x) xs" "last_pong (conn_stats s) + 20 * 60 * 10 ^ 9 \<le> io_now j"
  shows "fst (session_loop en xs s) \<noteq> Inr ()"
proof
  assume "fst (session_loop en xs s) = Inr ()"
  then obtain s1 s2 s3 s4 where s1: "session_loop en before s = (Inr (), s1)" and s2: "ping_tick i s1 = (Inr (), s2)"
    and s3: "session_loop en between s2 = (Inr (), s3)" and s4: "ping_tick j s3 = (Inr (), s4)"
    by (auto simp: assms(1) session_loop_append step_then_def step_bind_def session_step_def split: prod.splits sum.splits)
  have "awaiting (last_pong (conn_stats s)) s2"
    using stats_ping_tick(1) [OF s2] mute_loop(1) [OF _ s1] assms(1,2) by simp
  then have "awaiting (last_pong (conn_stats s)) s3" using mute_loop(2) [OF _ s3] assms(1,2) by simp
  then show False using stats_ping_tick(2) [OF s4] assms(3) by (auto simp: awaiting_def PING_TIMEOUT_def)
qed

theorem mute_peers_are_dropped_witness:
  "fst (session_loop sample_penv [TimerFired (demo_io 6), GotMessage (demo_io 7) Verack, TimerFired (demo_io 1200000000005)] demo_session) \<noteq> Inr ()"
  by (rule mute_peers_are_dropped [of _ "[]" "demo_io 6" "[GotMessage (demo_io 7) Verack]" "demo_io 1200000000005" "[]"])
    (simp_all add: demo_session_def session_new_def demo_script_def stats_new_def demo_io_def)

end
