(* ===== verification/Attempt_Spec.thy ===== *)
theory Attempt_Spec
  imports Attempt Session_Spec
begin

text \<open>
  What an attempt promises the rest of the observer: it reports its end exactly once, leaves the registry as it
  found it, blames a peer only for what the peer did, and never panics whatever the peer does.
\<close>

section \<open>The handshake\<close>

text \<open>A handshake whose writes succeed is decided by what was read: by both messages being there.\<close>

lemma hs_send_all: "hw_writes w = [] \<Longrightarrow> hs_send ms w = (True, w\<lparr>hw_sent := hw_sent w @ ms\<rparr>)"
  by (induction ms arbitrary: w) auto

lemma handshake_loop_simps:
  "hs_info h = Some info \<Longrightarrow> handshake_loop werr reads h = (HsDone info, h)"
  "hs_info h = None \<Longrightarrow> handshake_loop werr [] h = (HsStalled, h)"
  "hs_info h = None \<Longrightarrow> handshake_loop werr (Inl e # reads) h = (HsError e, h)"
  "hs_info h = None \<Longrightarrow> handshake_message msg h = (ok, h')
   \<Longrightarrow> handshake_loop werr (Inr msg # reads) h = (if ok then handshake_loop werr reads h' else (HsError (write_error werr), h'))"
  by (subst handshake_loop.simps; simp)+

lemma hs_info_None: "hs_info h = None \<longleftrightarrow> hs_version h = None \<or> \<not> hs_verack h"
  by (auto simp: hs_info_def split: option.splits)

lemma handshake_message_ok:
  assumes "hw_writes (hs_wire h) = []"
  obtains h' where "handshake_message msg h = (True, h')" "hw_writes (hs_wire h') = []"
    "hs_version h' \<noteq> None \<longleftrightarrow> hs_version h \<noteq> None \<or> (\<exists>v. msg = Version v)" "hs_verack h' \<longleftrightarrow> hs_verack h \<or> msg = Verack"
  using assms by (cases msg) (auto simp: handshake_message_def hs_send_all Let_def)

lemma handshake_loop_completes:
  assumes "hw_writes (hs_wire h) = []" "list_all (\<lambda>r. \<not> isl r) reads"
  shows "(\<exists>info. fst (handshake_loop werr reads h) = HsDone info) \<longleftrightarrow>
    (hs_version h \<noteq> None \<or> (\<exists>v. Inr (Version v) \<in> set reads)) \<and> (hs_verack h \<or> Inr Verack \<in> set reads)"
  using assms
proof (induction reads arbitrary: h)
  case Nil
  then show ?case using hs_info_None [of h] by (cases "hs_info h") (auto simp: handshake_loop_simps)
next
  case (Cons r reads)
  then obtain msg where r: "r = Inr msg" by (cases r) auto
  obtain h' where h': "handshake_message msg h = (True, h')" "hw_writes (hs_wire h') = []"
      "hs_version h' \<noteq> None \<longleftrightarrow> hs_version h \<noteq> None \<or> (\<exists>v. msg = Version v)" "hs_verack h' \<longleftrightarrow> hs_verack h \<or> msg = Verack"
    by (rule handshake_message_ok [OF Cons.prems(1), of msg])
  show ?case
  proof (cases "hs_info h")
    case None
    then have "handshake_loop werr (r # reads) h = handshake_loop werr reads h'"
      by (simp add: r handshake_loop_simps(4) [OF None h'(1)])
    then show ?thesis using Cons.IH [OF h'(2)] Cons.prems(2) h'(3,4) by (auto simp: r)
  next
    case (Some info)
    then show ?thesis using hs_info_None [of h] by (simp add: handshake_loop_simps)
  qed
qed

text \<open>What a completed handshake reports was said by the peer.\<close>

definition hs_said :: "(anyhow + net_message) set \<Rightarrow> hs_state \<Rightarrow> bool" where
  "hs_said R h \<longleftrightarrow>
     (\<forall>v. hs_version h = Some v \<longrightarrow> (\<exists>v'. Inr (Version v') \<in> R \<and> v = v'\<lparr>vm_user_agent := take 256 (vm_user_agent v')\<rparr>))
     \<and> (hs_verack h \<longrightarrow> Inr Verack \<in> R) \<and> (hs_send_addr_v2 h \<longrightarrow> Inr SendAddrV2 \<in> R) \<and> (hs_wtxid h \<longrightarrow> Inr WtxidRelay \<in> R)"

lemma hs_said_message: "hs_said R h \<Longrightarrow> Inr msg \<in> R \<Longrightarrow> hs_said R (snd (handshake_message msg h))"
  by (cases msg) (auto simp: hs_said_def handshake_message_def cap_user_agent_def MAX_USER_AGENT_CHARS_def Let_def split: prod.splits)

lemma hs_said_loop: "hs_said R h \<Longrightarrow> set reads \<subseteq> R \<Longrightarrow> hs_said R (snd (handshake_loop werr reads h))"
proof (induction reads arbitrary: h)
  case Nil
  then show ?case by (cases "hs_info h") (simp_all add: handshake_loop_simps)
next
  case (Cons r reads)
  show ?case
  proof (cases "hs_info h")
    case None
    show ?thesis
    proof (cases r)
      case (Inr msg)
      obtain ok h' where h': "handshake_message msg h = (ok, h')" by fastforce
      then have "hs_said R h'" using hs_said_message [OF Cons.prems(1), of msg] Cons.prems(2) Inr by simp
      then show ?thesis using Cons.IH [of h'] Cons.prems(2) by (simp add: Inr handshake_loop_simps(4) [OF None h'])
    qed (use Cons.prems None in \<open>simp add: handshake_loop_simps\<close>)
  qed (use Cons.prems in \<open>simp add: handshake_loop_simps\<close>)
qed

lemma handshake_loop_done:
  "fst (handshake_loop werr reads h) = HsDone info \<Longrightarrow> hs_info (snd (handshake_loop werr reads h)) = Some info"
proof (induction reads arbitrary: h)
  case Nil
  then show ?case by (cases "hs_info h") (simp_all add: handshake_loop_simps)
next
  case (Cons r reads)
  show ?case
  proof (cases "hs_info h")
    case None
    show ?thesis
    proof (cases r)
      case (Inr msg)
      obtain ok h' where h': "handshake_message msg h = (ok, h')" by fastforce
      then show ?thesis using Cons by (auto simp: Inr handshake_loop_simps(4) [OF None h'] split: if_splits)
    qed (use Cons.prems None in \<open>simp add: handshake_loop_simps\<close>)
  qed (use Cons.prems in \<open>simp add: handshake_loop_simps\<close>)
qed

section \<open>What a session does to the world\<close>

definition world_ok :: "penv \<Rightarrow> world \<Rightarrow> bool" where
  "world_ok en w \<longleftrightarrow> tree_held (en_chain en) (w_tree w) \<and> length (ob_queue (w_outbox w)) \<le> EVENT_QUEUE
     \<and> length (w_gossip w) \<le> GOSSIP_QUEUE \<and> hm_ok (w_registry w)"

fun note_for :: "peer_addr \<Rightarrow> lifecycle \<Rightarrow> bool" where
  "note_for a (LConnected b _ _) = (b = a)"
| "note_for a (LV1Only b) = (b = a)"
| "note_for a (LEnded _ _) = False"

text \<open>A step of the attempt: it adds notes on its address and leaves other registrations alone.\<close>

definition attempt_step :: "u64 \<Rightarrow> peer_addr \<Rightarrow> world \<Rightarrow> world \<Rightarrow> lifecycle list \<Rightarrow> bool" where
  "attempt_step cid a w w' notes \<longleftrightarrow>
     w_life w' = w_life w @ notes \<and> list_all (note_for a) notes
     \<and> (\<forall>k. map_of (w_registry w') k = map_of (w_registry w) k \<or> k = cid \<and> map_of (w_registry w') k = None)"

lemma attempt_step_refl: "attempt_step cid a w w []"
  by (simp add: attempt_step_def)

lemma attempt_step_trans:
  "attempt_step cid a w w' ns \<Longrightarrow> attempt_step cid a w' w'' ms \<Longrightarrow> attempt_step cid a w w'' (ns @ ms)"
  by (simp add: attempt_step_def) metis

lemma run_live_step:
  assumes "run_live en cfg tv cid a info sc w = (r, w')"
  shows "attempt_step cid a w w' [LConnected a (vm_services (hi_version info)) tv]"
proof -
  define w1 where "w1 = live_world en tv cid a info sc w"
  define s where "s = snd (session_run en (sc_inputs sc) (session_new cfg tv cid a info sc w1))"
  have w': "w' = w1\<lparr>w_tree := se_tree s, w_outbox := se_outbox s, w_gossip := se_gossip s, w_registry := reg_drop cid (se_registry s)\<rparr>"
    using assms by (auto simp: run_live_def w1_def s_def Let_def)
  have "only_own cid (w_registry w1) (session_new cfg tv cid a info sc w1)" by (simp add: only_own_def session_new_def)
  then have "only_own cid (w_registry w1) s"
    using registry_session_run by (simp add: step_keeps_def s_def)
  then have "map_of (w_registry w') k = (if k = cid then None else map_of (w_registry w) k)" for k
    by (auto simp: w' reg_drop_def delete_conv' only_own_def w1_def live_world_def reg_register_def update_conv')
  then show ?thesis by (auto simp: attempt_step_def w' w1_def live_world_def handle_connected_def)
qed

lemma run_live_ok:
  assumes "hash_order (en_order en)" "world_ok en w" "run_live en cfg tv cid a info sc w = (r, w')"
  shows "r \<noteq> RunPanicked" "world_ok en w'"
proof -
  define w1 where "w1 = live_world en tv cid a info sc w"
  define q where "q = session_run en (sc_inputs sc) (session_new cfg tv cid a info sc w1)"
  have "session_ok en (session_new cfg tv cid a info sc w1)"
    using assms(2) by (intro session_ok_new)
      (auto simp: w1_def live_world_def world_ok_def emit_handshake_def Let_def outbox_bound reg_register_def)
  note ok = session_run_ok [OF assms(1) this, of "sc_inputs sc", folded q_def]
  have eq: "r = live_result sc q" "w' = w1\<lparr>w_tree := se_tree (snd q), w_outbox := se_outbox (snd q),
      w_gossip := se_gossip (snd q), w_registry := reg_drop cid (se_registry (snd q))\<rparr>"
    using assms(3) by (auto simp: run_live_def w1_def q_def Let_def)
  show "r \<noteq> RunPanicked" using eq(1) ok(1) by (auto simp: live_result_def split: sum.splits)
  show "world_ok en w'" using eq(2) ok(2) by (simp add: session_ok_def world_ok_def reg_drop_def)
qed

lemma run_session_cases:
  assumes "run_session en cfg tv cid a sc w = (r, w')"
  obtains (failed) e where "r = RunError e" "w' = w"
  | (ran) info where "run_live en cfg tv cid a info sc w = (r, w')"
  using assms by (auto simp: run_session_def split: handshake_end.splits)

lemma connect_cases:
  assumes "connect_v1 en cfg cid d cs w = (r, w') \<or> connect_v2 en cfg cid d cs w = (r, w')"
  obtains (failed) e where "r = RunError e" "w' = w"
  | (ran) tv info where "run_live en cfg tv cid (d_addr d) info (cs_session cs) w = (r, w')"
  using assms unfolding connect_v1_def connect_v2_def
  by (auto split: sum.splits elim!: run_session_cases)

lemma with_version_eq: "with_version v (r, w) = (r', w') \<Longrightarrow> w' = w \<and> (r' = RunPanicked \<longleftrightarrow> r = RunPanicked)"
  by (cases r) (auto simp: with_version_def)

lemma connect_step:
  assumes "connect_v1 en cfg cid d cs w = (r, w') \<or> connect_v2 en cfg cid d cs w = (r, w')"
  shows "\<exists>ns. attempt_step cid (d_addr d) w w' ns \<and> LV1Only (d_addr d) \<notin> set ns \<and> length ns \<le> 1"
  using assms
proof (rule connect_cases)
  fix e assume "r = RunError e" "w' = w"
  then show ?thesis using attempt_step_refl by (intro exI [of _ "[]"]) simp
next
  fix tv info assume "run_live en cfg tv cid (d_addr d) info (cs_session cs) w = (r, w')"
  from run_live_step [OF this] show ?thesis by (intro exI conjI, assumption) simp_all
qed

lemma connect_failed:
  assumes "connect_v2 en cfg cid d cs w = (RunError e, w')"
  shows "w' = w"
  using disjI2 [OF assms]
proof (rule connect_cases)
  fix tv info assume "run_live en cfg tv cid (d_addr d) info (cs_session cs) w = (RunError e, w')"
  moreover have "live_result sc q \<noteq> RunError e" for sc q by (simp add: live_result_def split: sum.splits)
  ultimately show ?thesis by (simp add: run_live_def Let_def)
qed simp

lemma connect_ok:
  assumes "hash_order (en_order en)" "world_ok en w"
    "connect_v1 en cfg cid d cs w = (r, w') \<or> connect_v2 en cfg cid d cs w = (r, w')"
  shows "r \<noteq> RunPanicked \<and> world_ok en w'"
  using assms(3) by (rule connect_cases) (use assms(2) run_live_ok [OF assms(1,2)] in auto)

lemma world_ok_life [simp]: "world_ok en (w\<lparr>w_life := l\<rparr>) = world_ok en w"
  by (simp add: world_ok_def)

definition falls_back :: "penv \<Rightarrow> pconfig \<Rightarrow> u64 \<Rightarrow> dial \<Rightarrow> attempt_script \<Rightarrow> world \<Rightarrow> bool" where
  "falls_back en cfg cid d ats w \<longleftrightarrow>
     d_transport d = HintUnknown \<and> (\<exists>e. fst (connect_v2 en cfg cid d (at_v2 ats) w) = RunError e \<and> \<not> is_tcp_level e)"

text \<open>Which connection an attempt comes down to.\<close>

lemma connect_and_run_cases:
  assumes "connect_and_run en cfg cid d ats w = (r, w')"
  obtains (direct) q cs where "\<not> falls_back en cfg cid d ats w"
      "connect_v1 en cfg cid d cs w = (q, w') \<or> connect_v2 en cfg cid d cs w = (q, w')" "r = RunPanicked \<longleftrightarrow> q = RunPanicked"
  | (fallback) q where "falls_back en cfg cid d ats w"
      "connect_v1 en cfg cid d (at_v1 ats) (w\<lparr>w_life := handle_v1_only (d_addr d) (w_life w)\<rparr>) = (q, w')"
      "r = RunPanicked \<longleftrightarrow> q = RunPanicked"
proof -
  obtain q1 w1 q2 w2 where q: "connect_v1 en cfg cid d (at_v1 ats) w = (q1, w1)" "connect_v2 en cfg cid d (at_v2 ats) w = (q2, w2)"
    by fastforce
  obtain q3 w3 where q3: "connect_v1 en cfg cid d (at_v1 ats) (w\<lparr>w_life := handle_v1_only (d_addr d) (w_life w)\<rparr>) = (q3, w3)" by fastforce
  show thesis
  proof (cases "falls_back en cfg cid d ats w")
    case True
    then obtain e where e: "q2 = RunError e" "\<not> is_tcp_level e" "d_transport d = HintUnknown" by (auto simp: falls_back_def q)
    then have "w2 = w" using connect_failed q(2) by blast
    with e assms q(2) q3 have "with_version 1 (q3, w3) = (r, w')" by (simp add: connect_and_run_def)
    from with_version_eq [OF this] True q3 show ?thesis by (intro fallback [of q3]) auto
  next
    case False
    show ?thesis
    proof (cases "d_transport d")
      case HintV1Only
      then have "with_version 1 (q1, w1) = (r, w')" using assms q by (simp add: connect_and_run_def)
      from with_version_eq [OF this] False q show ?thesis by (intro direct [of "at_v1 ats" q1]) auto
    next
      case HintV2
      then have "with_version 2 (q2, w2) = (r, w')" using assms q by (simp add: connect_and_run_def)
      from with_version_eq [OF this] False q show ?thesis by (intro direct [of "at_v2 ats" q2]) auto
    next
      case HintUnknown
      then have "w' = w2 \<and> (r = RunPanicked \<longleftrightarrow> q2 = RunPanicked)"
        using assms q(2) False
        by (cases q2) (auto simp: connect_and_run_def falls_back_def with_version_def split: if_splits)
      with False q(2) show ?thesis by (intro direct [of "at_v2 ats" q2]) auto
    qed
  qed
qed

lemma connect_and_run_step:
  assumes "connect_and_run en cfg cid d ats w = (r, w')"
  shows "\<exists>ns. attempt_step cid (d_addr d) w w' ns \<and> (LV1Only (d_addr d) \<in> set ns \<longleftrightarrow> falls_back en cfg cid d ats w) \<and> length ns \<le> 2"
  using assms
proof (cases rule: connect_and_run_cases)
  case (direct q cs)
  then show ?thesis using connect_step [OF direct(2)] by auto
next
  case (fallback q)
  let ?w = "w\<lparr>w_life := handle_v1_only (d_addr d) (w_life w)\<rparr>"
  obtain ns where ns: "attempt_step cid (d_addr d) ?w w' ns" "length ns \<le> 1" using connect_step [OF disjI1 [OF fallback(2)]] by blast
  have "attempt_step cid (d_addr d) w ?w [LV1Only (d_addr d)]" by (simp add: attempt_step_def handle_v1_only_def)
  from attempt_step_trans [OF this ns(1)] ns(2) fallback(1) show ?thesis by (intro exI [of _ "[LV1Only (d_addr d)] @ ns"]) simp
qed

lemma connect_and_run_ok:
  assumes "hash_order (en_order en)" "world_ok en w" "connect_and_run en cfg cid d ats w = (r, w')"
  shows "r \<noteq> RunPanicked \<and> world_ok en w'"
  using assms(3)
proof (cases rule: connect_and_run_cases)
  case (direct q cs)
  then show ?thesis using connect_ok [OF assms(1,2) direct(2)] by simp
next
  case (fallback q)
  then show ?thesis using connect_ok [OF assms(1) _ disjI1 [OF fallback(2)]] assms(2) by simp
qed

lemma attempt_ending:
  assumes "connect_and_run en cfg cid d ats w = (r, w')"
  shows "\<exists>out. w_life (attempt en cfg cid d ats w) = w_life w' @ [LEnded (d_addr d) out]"
    "w_registry (attempt en cfg cid d ats w) = w_registry w'" "w_tree (attempt en cfg cid d ats w) = w_tree w'"
    "w_gossip (attempt en cfg cid d ats w) = w_gossip w'"
    "length (ob_queue (w_outbox w')) \<le> EVENT_QUEUE \<Longrightarrow> length (ob_queue (w_outbox (attempt en cfg cid d ats w))) \<le> EVENT_QUEUE"
  using assms
  by (cases r; simp add: attempt_def Let_def end_attempt_def guard_drop_def guard_finish_def guard_new_def emit_result_def
      outbox_bound split: prod.splits)+

section \<open>Properties\<close>

text \<open>
  With writes that succeed and a stream that does not fail, the handshake completes exactly when a version and a
  verack were among the messages, in either order and whatever came between them.
\<close>

theorem handshake_needs_version_and_verack:
  assumes "list_all (\<lambda>r. \<not> isl r) reads"
  shows "(\<exists>info. fst (version_handshake werr ours reads []) = HsDone info) \<longleftrightarrow>
    (\<exists>v. Inr (Version v) \<in> set reads) \<and> Inr Verack \<in> set reads"
  using handshake_loop_completes [OF _ assms] by (simp add: version_handshake_def)

theorem handshake_needs_version_and_verack_witness:
  "(\<exists>info. fst (version_handshake (error_new CElapsed) Verack [Inr Verack, Inr (Ping 3), Inr (Version (hi_version demo_info))] []) = HsDone info)
   = ((\<exists>v. Inr (Version v) \<in> set [Inr Verack, Inr (Ping 3), Inr (Version (hi_version demo_info)) :: anyhow + net_message])
      \<and> Inr Verack \<in> set [Inr Verack, Inr (Ping 3), Inr (Version (hi_version demo_info)) :: anyhow + net_message])"
  by (rule handshake_needs_version_and_verack) simp

text \<open>
  What a completed handshake records was said by the peer: one of its version messages with the user agent cut to
  256 characters, and the feature announcements it did make.
\<close>

theorem handshake_records_what_was_said:
  assumes "fst (version_handshake werr ours reads writes) = HsDone info"
  shows "(\<exists>v. Inr (Version v) \<in> set reads \<and> hi_version info = v\<lparr>vm_user_agent := take 256 (vm_user_agent v)\<rparr>)
    \<and> Inr Verack \<in> set reads
    \<and> (hi_send_addr_v2 info \<longrightarrow> Inr SendAddrV2 \<in> set reads) \<and> (hi_wtxid_relay info \<longrightarrow> Inr WtxidRelay \<in> set reads)"
proof -
  obtain w where w: "fst (hs_send [ours] \<lparr>hw_sent = [], hw_writes = writes\<rparr>)" "snd (hs_send [ours] \<lparr>hw_sent = [], hw_writes = writes\<rparr>) = w"
    using assms by (auto simp: version_handshake_def Let_def split: prod.splits if_splits)
  let ?h = "\<lparr>hs_version = None, hs_verack = False, hs_send_addr_v2 = False, hs_wtxid = False, hs_wire = w\<rparr>"
  have "fst (handshake_loop werr reads ?h) = HsDone info"
    using assms w by (simp add: version_handshake_def Let_def case_prod_beta)
  from handshake_loop_done [OF this] have "hs_info (snd (handshake_loop werr reads ?h)) = Some info" .
  moreover have "hs_said (set reads) (snd (handshake_loop werr reads ?h))"
    by (rule hs_said_loop) (simp_all add: hs_said_def)
  ultimately show ?thesis by (auto simp: hs_info_def hs_said_def split: option.splits if_splits)
qed

theorem handshake_records_what_was_said_witness:
  "\<exists>info. fst (version_handshake (error_new CElapsed) Verack [Inr Verack, Inr (Version (hi_version demo_info))] []) = HsDone info
    \<and> length (vm_user_agent (hi_version info)) \<le> 256"
proof -
  have "list_all (\<lambda>r. \<not> isl r) [Inr Verack, Inr (Version (hi_version demo_info)) :: anyhow + net_message]" by simp
  then have "\<exists>info. fst (version_handshake (error_new CElapsed) Verack [Inr Verack, Inr (Version (hi_version demo_info))] []) = HsDone info"
    by (simp add: version_handshake_def handshake_loop_completes)
  then obtain info where
    i: "fst (version_handshake (error_new CElapsed) Verack [Inr Verack, Inr (Version (hi_version demo_info))] []) = HsDone info" ..
  from handshake_records_what_was_said [OF this] i show ?thesis by auto
qed

text \<open>
  C37. Every attempt reports its end exactly once, as its last report, for the address it dialled and after at most two
  notes on it, and leaves the registry with the sessions it found. It never panics, and keeps the header tree and
  the queues in order, whatever the network and the peer do.
\<close>

theorem attempts_report_once:
  assumes "hash_order (en_order en)" "world_ok en w" "map_of (w_registry w) cid = None"
  shows "\<exists>ns out. w_life (attempt en cfg cid d ats w) = w_life w @ ns @ [LEnded (d_addr d) out]
    \<and> list_all (note_for (d_addr d)) ns \<and> length ns \<le> 2
    \<and> (LV1Only (d_addr d) \<in> set ns \<longleftrightarrow> falls_back en cfg cid d ats w)
    \<and> map_of (w_registry (attempt en cfg cid d ats w)) = map_of (w_registry w) \<and> world_ok en (attempt en cfg cid d ats w)"
proof -
  obtain r w' where run: "connect_and_run en cfg cid d ats w = (r, w')" by fastforce
  obtain ns where ns: "attempt_step cid (d_addr d) w w' ns"
      "LV1Only (d_addr d) \<in> set ns \<longleftrightarrow> falls_back en cfg cid d ats w" "length ns \<le> 2"
    using connect_and_run_step [OF run] by blast
  have ok: "world_ok en w'" using connect_and_run_ok [OF assms(1,2) run] by blast
  have reg: "map_of (w_registry w') = map_of (w_registry w)"
    using ns(1) assms(3) by (intro ext) (metis attempt_step_def)
  obtain out where "w_life (attempt en cfg cid d ats w) = w_life w' @ [LEnded (d_addr d) out]"
    using attempt_ending(1) [OF run] by blast
  with ns ok reg attempt_ending(2-5) [OF run] show ?thesis
    by (intro exI [of _ ns] exI [of _ out]) (auto simp: attempt_step_def world_ok_def)
qed

definition demo_tcp :: tcp_script where
  "demo_tcp = \<lparr>ts_proxy_parsed = True, ts_socks = None, ts_connect = Some (Inr ()), ts_nodelay = Inr (), ts_user_timeout = Inr ()\<rparr>"

definition demo_conn :: conn_script where
  "demo_conn = \<lparr>cs_tcp = demo_tcp, cs_v2 = Some (Inr ()), cs_session = demo_script\<rparr>"

definition demo_attempt :: attempt_script where
  "demo_attempt = \<lparr>at_v2 = demo_conn, at_v1 = demo_conn, at_started = 0, at_uptime_read = 9, at_elapsed_read = 9, at_unix_ms = 100\<rparr>"

definition demo_dial :: dial where
  "demo_dial = \<lparr>d_addr = Ipv4 [1, 2, 3, 4] 8333, d_transport = HintUnknown\<rparr>"

lemma demo_world_ok': "world_ok sample_penv demo_world"
  using demo_world_ok by (simp add: world_ok_def sample_penv_def)

theorem attempts_report_once_witness:
  "\<exists>ns out. w_life (attempt sample_penv sample_pcfg 1 demo_dial demo_attempt demo_world) = ns @ [LEnded (Ipv4 [1, 2, 3, 4] 8333) out] \<and> length ns \<le> 2"
proof -
  have "hash_order (en_order sample_penv)" "map_of (w_registry demo_world) 1 = None"
    by (simp_all add: sample_penv_def hash_order_id demo_world_def registry_new_def)
  from attempts_report_once [OF this(1) demo_world_ok' this(2), of sample_pcfg demo_dial demo_attempt] show ?thesis
    by (auto simp: demo_dial_def demo_world_def)
qed

text \<open>
  What is wrong on our side is not held against the peer: an onion address that cannot be reached because Tor is
  switched off, the proxy does not answer in time or the proxy refuses, and any address of a network without a
  transport, end the attempt without counting as a failure of the address.
\<close>

theorem our_faults_spare_the_peer:
  assumes "net_of a = NetI2p \<or> net_of a = NetTorV3 \<and> ts_proxy_parsed ts \<and> ts_nodelay ts = Inr () \<and> ts_user_timeout ts = Inr ()"
    "tcp_connect a tor_enabled ts = Inl e"
  shows "\<exists>f. classify_failure e (net_of a) = OurFault f"
proof (cases "net_of a = NetI2p")
  case True
  with assms(2) show ?thesis by (auto simp: tcp_connect_def classify_failure_def stage_of_def)
next
  case False
  then have tor: "net_of a = NetTorV3" "ts_proxy_parsed ts" "configure_stream ts = Inr ()"
    using assms(1) by (auto simp: configure_stream_def context_of_def and_then_def)
  then have "stage_of e \<in> {Some StNetworkDisabled, Some StTorProxyTimeout, Some StProxyUnreachable}"
    using assms(2) by (auto simp: tcp_connect_def tor_connect_def and_then_def timed_def context_of_def stage_of_def
        split: if_splits option.splits sum.splits)
  then show ?thesis by (auto simp: classify_failure_def)
qed

theorem our_faults_spare_the_peer_witness:
  "\<exists>f. classify_failure (error_new (CStage StTorProxyTimeout)) (net_of (TorV3 (replicate 32 0) 8333)) = OurFault f"
  by (rule our_faults_spare_the_peer [of _ demo_tcp True])
    (simp_all add: demo_tcp_def tcp_connect_def tor_connect_def timed_def and_then_def)

text \<open>
  How a session ended decides how its address is judged: headers of another chain and a breach of the protocol are
  verdicts of their own, with their own reason in the published result, and every other ending is a
  disconnect; that of a peer that sent nothing counts as silent.
\<close>

theorem session_endings_are_judged:
  assumes "session_run en (sc_inputs sc) (session_new cfg tv cid a info sc (live_world en tv cid a info sc w)) = (Inl e, s)"
    "e \<noteq> Panicked" "sc_write_error sc = error_new (CIo k)"
  shows "\<exists>fin w'. run_live en cfg tv cid a info sc w = (RunOk fin, w')
    \<and> session_outcome fin up =
        (case e of OtherChainErr _ \<Rightarrow> OtherChain | ProtocolViolation _ \<Rightarrow> Violated
         | _ \<Rightarrow> Disconnected up (messages_by_command (conn_stats s) = [] \<and> messages_other (conn_stats s) = 0))
    \<and> classify_session_end (end_error fin) =
        (case e of OtherChainErr _ \<Rightarrow> DisOtherChain | ProtocolViolation _ \<Rightarrow> DisProtocolViolation
         | PingTimeoutErr _ \<Rightarrow> DisPingTimeout | WriteFailed \<Rightarrow> DisWriteError | _ \<Rightarrow> DisOther)"
proof -
  let ?fin = "end_of (session_failure (sc_write_error sc) e) sc s"
  have run: "\<exists>w'. run_live en cfg tv cid a info sc w = (RunOk ?fin, w')"
    using assms(1,2) by (simp add: run_live_def live_result_def Let_def)
  have "session_outcome ?fin up = (case e of OtherChainErr _ \<Rightarrow> OtherChain | ProtocolViolation _ \<Rightarrow> Violated
      | _ \<Rightarrow> Disconnected up (messages_by_command (conn_stats s) = [] \<and> messages_other (conn_stats s) = 0))"
    using assms(2,3) by (cases e)
      (simp_all add: session_outcome_def end_of_def end_silent_def other_chain_of_def is_violation_def fault_of_def write_error_def
        List.map_filter_simps)
  moreover have "classify_session_end (end_error ?fin) =
        (case e of OtherChainErr _ \<Rightarrow> DisOtherChain | ProtocolViolation _ \<Rightarrow> DisProtocolViolation
         | PingTimeoutErr _ \<Rightarrow> DisPingTimeout | WriteFailed \<Rightarrow> DisWriteError | _ \<Rightarrow> DisOther)"
    using assms(2,3) by (cases e)
      (simp_all add: classify_session_end_def end_of_def other_chain_of_def fault_of_def write_error_def has_kind_def
        List.map_filter_simps)
  ultimately show ?thesis using run by blast
qed

definition cut_script :: script where
  "cut_script = demo_script\<lparr>sc_writes := [False]\<rparr>"

lemma cut_session_run:
  "session_run sample_penv (sc_inputs cut_script)
     (session_new sample_pcfg 2 1 a demo_info cut_script (live_world sample_penv 2 1 a demo_info cut_script w)) =
   (Inl WriteFailed, (session_new sample_pcfg 2 1 a demo_info cut_script (live_world sample_penv 2 1 a demo_info cut_script w))\<lparr>se_writes := []\<rparr>)"
  by (simp add: session_run_def run_start_def step_then_def step_bind_def send_msg_def session_new_def cut_script_def)

theorem session_endings_are_judged_witness:
  "\<exists>fin w'. run_live sample_penv sample_pcfg 2 1 (d_addr demo_dial) demo_info cut_script demo_world = (RunOk fin, w')
    \<and> session_outcome fin 3 = Disconnected 3 True \<and> classify_session_end (end_error fin) = DisWriteError"
proof -
  have "sc_write_error cut_script = error_new (CIo IoBrokenPipe)" by (simp add: cut_script_def demo_script_def)
  from session_endings_are_judged [OF cut_session_run _ this, of "d_addr demo_dial" demo_world 3] show ?thesis
    by (simp add: session_new_def stats_new_def)
qed

section \<open>Where the code and its comments differ\<close>

text \<open>
  An attempt opens a session when it connects and the version handshake completes: over the new transport, or over the old one after the new
  one failed for a reason that lets the attempt fall back.
\<close>

definition opens_session :: "penv \<Rightarrow> pconfig \<Rightarrow> u64 \<Rightarrow> peer_addr \<Rightarrow> attempt_script \<Rightarrow> world \<Rightarrow> u8 \<Rightarrow> handshake_info \<Rightarrow> script \<Rightarrow> bool" where
  "opens_session en cfg cid a ats w tv info sc \<longleftrightarrow>
     (tv = 2 \<and> sc = cs_session (at_v2 ats) \<and> tcp_connect a (pc_tor_enabled cfg) (cs_tcp (at_v2 ats)) = Inr () \<and> cs_v2 (at_v2 ats) = Some (Inr ())
      \<or> tv = 1 \<and> sc = cs_session (at_v1 ats) \<and> falls_back en cfg cid \<lparr>d_addr = a, d_transport = HintUnknown\<rparr> ats w
        \<and> tcp_connect a (pc_tor_enabled cfg) (cs_tcp (at_v1 ats)) = Inr ())
     \<and> fst (version_handshake (sc_write_error sc) (build_version (pc_user_agent cfg) (of_nat (tip_height (w_tree w))) (sc_timestamp sc) (sc_nonce sc))
          (sc_reads sc) (sc_hs_writes sc)) = HsDone info"

lemma opened_session_runs:
  assumes "opens_session en cfg cid a ats w tv info sc"
  obtains l where "connect_and_run en cfg cid \<lparr>d_addr = a, d_transport = HintUnknown\<rparr> ats w = with_version tv (run_live en cfg tv cid a info sc (w\<lparr>w_life := l\<rparr>))"
proof (cases "tv = 2")
  case True
  have run: "connect_v2 en cfg cid \<lparr>d_addr = a, d_transport = HintUnknown\<rparr> (at_v2 ats) w = run_live en cfg 2 cid a info sc w"
    using assms True by (auto simp: opens_session_def connect_v2_def and_then_def timed_def context_of_def run_session_def)
  obtain r w1 where r: "run_live en cfg 2 cid a info sc w = (r, w1)" by fastforce
  have "r \<noteq> RunError e" for e using r by (auto simp: run_live_def live_result_def Let_def split: sum.splits if_splits)
  then have "connect_and_run en cfg cid \<lparr>d_addr = a, d_transport = HintUnknown\<rparr> ats w = with_version tv (run_live en cfg tv cid a info sc w)"
    using run True r by (cases r) (auto simp: connect_and_run_def)
  then show thesis using that [of "w_life w"] by simp
next
  case False
  then have o: "tv = 1" "sc = cs_session (at_v1 ats)" "falls_back en cfg cid \<lparr>d_addr = a, d_transport = HintUnknown\<rparr> ats w"
    "tcp_connect a (pc_tor_enabled cfg) (cs_tcp (at_v1 ats)) = Inr ()"
    using assms by (auto simp: opens_session_def)
  then obtain e w1 where e: "connect_v2 en cfg cid \<lparr>d_addr = a, d_transport = HintUnknown\<rparr> (at_v2 ats) w = (RunError e, w1)" "\<not> is_tcp_level e"
    by (auto simp: falls_back_def prod_eq_iff)
  from connect_failed [OF e(1)] e o assms show thesis
    by (intro that [of "handle_v1_only a (w_life w)"]) (simp add: connect_and_run_def connect_v1_def run_session_def opens_session_def)
qed

text \<open>
  C38. The bootstrap sync counts as complete as soon as one session was opened, on either transport and whatever the
  peer does in it: the error of the session is carried inside its result and not looked at, so a peer that hangs up after the
  handshake ends the sync like one that served every header, and the tree is the one that session left.
\<close>

theorem bootstrap_accepts_any_session:
  assumes "hash_order (en_order en)" "world_ok en w" "opens_session en cfg cid a ats w tv info sc"
  shows "fst (bootstrap_sync en cfg ((cid, a, ats) # tries) w) = Some True
    \<and> w_tree (snd (bootstrap_sync en cfg ((cid, a, ats) # tries) w)) =
        se_tree (snd (session_run en (sc_inputs sc) (session_new cfg tv cid a info sc (live_world en tv cid a info sc w))))"
proof -
  obtain l where run: "connect_and_run en cfg cid \<lparr>d_addr = a, d_transport = HintUnknown\<rparr> ats w =
      with_version tv (run_live en cfg tv cid a info sc (w\<lparr>w_life := l\<rparr>))"
    using opened_session_runs [OF assms(3)] by blast
  obtain r w' where live: "run_live en cfg tv cid a info sc (w\<lparr>w_life := l\<rparr>) = (r, w')" by fastforce
  have "r \<noteq> RunPanicked" using run_live_ok(1) [OF assms(1) _ live] assms(2) by simp
  moreover have "r \<noteq> RunError e" for e using live by (auto simp: run_live_def live_result_def Let_def split: sum.splits if_splits)
  ultimately obtain fin where r: "r = RunOk fin" by (cases r) auto
  have "session_new cfg tv cid a info sc (live_world en tv cid a info sc (w\<lparr>w_life := l\<rparr>)) =
      session_new cfg tv cid a info sc (live_world en tv cid a info sc w)"
    by (simp add: session_new_def live_world_def)
  then have "w_tree w' = se_tree (snd (session_run en (sc_inputs sc) (session_new cfg tv cid a info sc (live_world en tv cid a info sc w))))"
    using live by (auto simp: run_live_def Let_def)
  then show ?thesis by (simp add: bootstrap_attempt_def run live r with_version_def Let_def end_attempt_def)
qed

definition cut_attempt :: attempt_script where
  "cut_attempt = demo_attempt\<lparr>at_v2 := demo_conn\<lparr>cs_session := cut_script\<rparr>\<rparr>"

lemma demo_handshake:
  "fst (version_handshake werr ours (sc_reads demo_script) []) = HsDone (demo_info\<lparr>hi_send_addr_v2 := False, hi_wtxid_relay := False\<rparr>)"
  by (simp add: version_handshake_def demo_script_def demo_info_def handshake_loop.simps hs_info_def handshake_message_def
      hs_send_all cap_user_agent_def MAX_USER_AGENT_CHARS_def Let_def)

theorem bootstrap_accepts_any_session_witness:
  "fst (bootstrap_sync sample_penv sample_pcfg [(1, Ipv4 [1, 2, 3, 4] 8333, cut_attempt)] demo_world) = Some True
   \<and> w_tree (snd (bootstrap_sync sample_penv sample_pcfg [(1, Ipv4 [1, 2, 3, 4] 8333, cut_attempt)] demo_world)) = demo_tree"
proof -
  let ?info = "demo_info\<lparr>hi_send_addr_v2 := False, hi_wtxid_relay := False\<rparr>"
  have "opens_session sample_penv sample_pcfg 1 (Ipv4 [1, 2, 3, 4] 8333) cut_attempt demo_world 2 ?info cut_script"
    using demo_handshake by (simp add: opens_session_def cut_attempt_def demo_attempt_def demo_conn_def cut_script_def demo_script_def
        tcp_connect_def ip_connect_def demo_tcp_def socket_addr_def timed_def and_then_def context_of_def configure_stream_def)
  moreover have "se_tree (snd (session_run sample_penv (sc_inputs cut_script) (session_new sample_pcfg 2 1 (Ipv4 [1, 2, 3, 4] 8333) ?info cut_script
      (live_world sample_penv 2 1 (Ipv4 [1, 2, 3, 4] 8333) ?info cut_script demo_world)))) = demo_tree"
    by (simp add: session_run_def run_start_def step_then_def step_bind_def send_msg_def session_new_def cut_script_def live_world_def demo_world_def)
  ultimately show ?thesis
    using bootstrap_accepts_any_session [OF _ demo_world_ok', of sample_pcfg 1 _ cut_attempt] by (simp add: sample_penv_def hash_order_id)
qed

text \<open>An address of a network without a transport is never contacted, and is recorded as speaking only the old one.\<close>

theorem v1_only_without_contact:
  assumes "net_of (d_addr d) = NetI2p" "d_transport d = HintUnknown"
  shows "w_life (attempt en cfg cid d ats w) = w_life w @ [LV1Only (d_addr d), LEnded (d_addr d) (OurFault NetworkDisabled)]"
  using assms
  by (simp add: attempt_def connect_and_run_def connect_v2_def connect_v1_def tcp_connect_def and_then_def is_tcp_level_def
      is_timed_out_def stage_of_def has_kind_def with_version_def Let_def end_attempt_def emit_result_def guard_drop_def
      guard_finish_def guard_new_def handle_v1_only_def classify_failure_def)

text \<open>A peer with which the encrypted transport was set up, but whose stream failed in the version handshake, is recorded so as well.\<close>

theorem v1_only_after_working_v2:
  assumes "d_transport d = HintUnknown" "tcp_connect (d_addr d) (pc_tor_enabled cfg) (cs_tcp (at_v2 ats)) = Inr ()"
    "cs_v2 (at_v2 ats) = Some (Inr ())" "sc_hs_writes (cs_session (at_v2 ats)) = []"
    "sc_reads (cs_session (at_v2 ats)) = [Inl (with_context (CFault PeerClosed) (error_new (CIo IoConnectionAborted)))]"
  shows "falls_back en cfg cid d ats w"
proof -
  have "fst (version_handshake werr ours [Inl e] []) = HsError e" for werr ours e
    by (simp add: version_handshake_def handshake_loop.simps hs_info_def)
  then show ?thesis
    using assms by (simp add: falls_back_def connect_v2_def and_then_def timed_def context_of_def run_session_def is_tcp_level_def
        is_timed_out_def stage_of_def has_kind_def)
qed

text \<open>An unreadable proxy setting counts against every onion address that is dialled.\<close>

theorem malformed_proxy_blames_the_peer:
  assumes "net_of a = NetTorV3" "\<not> ts_proxy_parsed ts"
  shows "\<exists>e. tcp_connect a True ts = Inl e \<and> classify_failure e (net_of a) = Failed OtherReason"
  using assms by (simp add: tcp_connect_def tor_connect_def classify_failure_def stage_of_def has_kind_def)

end
