(* ===== verification/Attempt_Refines.thy ===== *)
theory Attempt_Refines
  imports Dial_System Attempt_Spec
begin

text \<open>
  The connection tasks of the system model (\<^verbatim>\<open>Dial_System\<close>) are abstract: a task may report that it connected, that only
  the old transport works, and its end, and send gossip meanwhile. Here the detailed model of an attempt
  (\<^verbatim>\<open>observer/src/connection.rs\<close> with the handshake and the session of \<^verbatim>\<open>observer/src/protocol.rs\<close>) is shown to be such a
  task: everything it does to the two queues it shares with the manager is a run of the system made of events of
  that task.
\<close>

section \<open>What a session does to the gossip queue\<close>

text \<open>Some batches were offered to the queue, which dropped those it had no room for.\<close>

definition offered :: "gossiped list list \<Rightarrow> gossiped list list \<Rightarrow> bool" where
  "offered G q \<longleftrightarrow> (\<exists>gs. q = foldl (\<lambda>q g. handle_gossip g q) G gs)"

lemma offered_refl: "offered G G"
  unfolding offered_def by (intro exI [of _ "[]"]) simp

lemma offered_handle: "offered G q \<Longrightarrow> offered G (handle_gossip g q)"
  unfolding offered_def by (metis foldl_Cons foldl_Nil foldl_append)

lemma offered_trans: "offered G q \<Longrightarrow> offered q r \<Longrightarrow> offered G r"
  unfolding offered_def by (metis foldl_append)

definition gossip_from :: "gossiped list list \<Rightarrow> session \<Rightarrow> bool" where
  "gossip_from G s \<longleftrightarrow> offered G (se_gossip s)"

interpretation gossip_frame: step_frame "gossip_from G" for G
  by unfold_locales (simp_all add: gossip_from_def)

lemma gossip_offer:
  "gossip_from G s \<Longrightarrow> step_keeps any_error (gossip_from G) (offer_gossip en i am n ps) s"
  by (auto simp: step_keeps_def gossip_from_def offered_handle offer_gossip_def Let_def step_bind_def step_then_def step_get_def
      step_mod_def step_when_def step_ret_def step_fail_def emit_event_def)

lemma gossip_get_headers:
  "gossip_from G s \<Longrightarrow> step_keeps any_error (gossip_from G) (handle_get_headers i m) s"
  by (auto simp: step_keeps_def gossip_from_def handle_get_headers_def may_answer_getheaders_def step_bind_def
      step_then_def step_get_def step_mod_def step_ret_def step_fail_def send_msg_def Let_def
      split: option.splits list.splits bool.splits)

lemma gossip_session_run:
  assumes "gossip_from G s"
  shows "step_keeps any_error (gossip_from G) (session_run en xs) s"
proof -
  have step: "step_keeps any_error (gossip_from G) (session_step en x) s" if "gossip_from G s" for x s
    unfolding session_step_def
    using that by (auto intro!: gossip_frame.frame_ping_tick gossip_frame.frame_message gossip_frame.frame_pong gossip_offer
        gossip_get_headers split: session_input.split)
  have "step_keeps any_error (gossip_from G) (session_loop en xs) s" if "gossip_from G s" for s
    using that by (induction xs arbitrary: s) (auto intro!: keeps_ret keeps_then step)
  moreover have "step_keeps any_error (gossip_from G) run_start s" if "gossip_from G s" for s
    unfolding run_start_def using that
    by (intro keeps_then gossip_frame.frame_send gossip_frame.frame_getheaders keeps_mod) (auto simp: gossip_from_def)
  ultimately show ?thesis unfolding session_run_def using assms by (intro keeps_then)
qed

lemma run_live_gossip:
  assumes "run_live en cfg tv cid a info sc w = (r, w')"
  shows "offered (w_gossip w) (w_gossip w')"
proof -
  define w1 where "w1 = live_world en tv cid a info sc w"
  have "gossip_from (w_gossip w1) (session_new cfg tv cid a info sc w1)"
    by (simp add: gossip_from_def session_new_def offered_refl)
  from gossip_session_run [OF this, of en "sc_inputs sc"] show ?thesis
    using assms by (auto simp: run_live_def Let_def w1_def step_keeps_def gossip_from_def live_world_def)
qed

lemma connect_gossip:
  assumes "connect_v1 en cfg cid d cs w = (r, w') \<or> connect_v2 en cfg cid d cs w = (r, w')"
  shows "offered (w_gossip w) (w_gossip w')"
  using assms by (rule connect_cases) (auto simp: offered_refl dest: run_live_gossip)

lemma connect_and_run_gossip:
  assumes "connect_and_run en cfg cid d ats w = (r, w')"
  shows "offered (w_gossip w) (w_gossip w')"
  using assms
proof (cases rule: connect_and_run_cases)
  case (direct q cs)
  then show ?thesis using connect_gossip by blast
next
  case (fallback q)
  then show ?thesis using connect_gossip [OF disjI1 [OF fallback(2)]] by simp
qed

section \<open>Runs of one task\<close>

text \<open>The events of the task of an address, and the end it may report.\<close>

fun task_event :: "peer_addr \<Rightarrow> event \<Rightarrow> bool" where
  "task_event a (EvGossipSend _) = True"
| "task_event a (EvTaskConnected b _ _) = (b = a)"
| "task_event a (EvTaskV1Only b) = (b = a)"
| "task_event a (EvTaskEnd g) = (guard_addr g = a)"
| "task_event a _ = False"

definition task_run :: "env \<Rightarrow> peer_addr \<Rightarrow> sys \<Rightarrow> sys \<Rightarrow> bool" where
  "task_run env a s s' \<longleftrightarrow> (\<exists>tr. sys_run env s tr s' \<and> (\<forall>x \<in> set tr. task_event a (fst x) \<and> snd x = []))"

lemma task_run_refl: "task_run env a s s"
  unfolding task_run_def by (intro exI [of _ "[]"]) (simp add: run_refl)

lemma task_run_step:
  assumes "task_run env a s s'" "task_event a ev" "sys_step env ev s' = Some ([], s'')"
  shows "task_run env a s s''"
proof -
  obtain tr where tr: "sys_run env s tr s'" "\<forall>x \<in> set tr. task_event a (fst x) \<and> snd x = []"
    using assms(1) by (auto simp: task_run_def)
  have "event_ok ev" using assms(2) by (cases ev) auto
  from run_step [OF tr(1) this assms(3)] tr(2) assms(2) show ?thesis
    unfolding task_run_def by (intro exI [of _ "tr @ [(ev, [])]"]) auto
qed

lemma task_run_gossip:
  assumes "offered (s_gossip s) q" "task_run env a s0 s"
  shows "task_run env a s0 (s\<lparr>s_gossip := q\<rparr>)"
proof -
  obtain gs where q: "q = foldl (\<lambda>q g. handle_gossip g q) (s_gossip s) gs" using assms(1) by (auto simp: offered_def)
  have "task_run env a s0 (s\<lparr>s_gossip := foldl (\<lambda>q g. handle_gossip g q) (s_gossip s) gs\<rparr>)"
  proof (induction gs rule: rev_induct)
    case (snoc g gs)
    then show ?case by (rule task_run_step [where ev = "EvGossipSend g"]) simp_all
  qed (use assms(2) in simp)
  then show ?thesis by (simp add: q)
qed

lemma task_run_notes:
  assumes "list_all (note_for a) ns" "a \<in> set (s_tasks s)" "task_run env a s0 s"
  shows "task_run env a s0 (s\<lparr>s_life := s_life s @ ns\<rparr>)"
  using assms(1)
proof (induction ns rule: rev_induct)
  case (snoc n ns)
  then have IH: "task_run env a s0 (s\<lparr>s_life := s_life s @ ns\<rparr>)" by simp
  show ?case
  proof (cases n)
    case (LConnected b svcs v)
    then show ?thesis using snoc.prems assms(2)
      by (intro task_run_step [OF IH, of "EvTaskConnected a svcs v"]) (simp_all add: handle_connected_def)
  next
    case (LV1Only b)
    then show ?thesis using snoc.prems assms(2)
      by (intro task_run_step [OF IH, of "EvTaskV1Only a"]) (simp_all add: handle_v1_only_def)
  qed (use snoc.prems in simp)
qed (use assms(3) in simp)

lemma task_run_end:
  assumes "a \<in> set (s_tasks s)" "task_run env a s0 s"
  shows "task_run env a s0 (s\<lparr>s_tasks := remove1 a (s_tasks s), s_life := s_life s @ [LEnded a out]\<rparr>)"
  by (rule task_run_step [OF assms(2), of "EvTaskEnd \<lparr>guard_addr = a, guard_outcome = Some out\<rparr>"])
    (use assms(1) in \<open>simp_all add: guard_drop_def\<close>)


section \<open>Attempts are tasks\<close>

lemma attempt_task_run:
  fixes en cfg cid ats
  assumes "s_life s = w_life w" "s_gossip s = w_gossip w" "d_addr d \<in> set (s_tasks s)"
  defines "w' \<equiv> attempt en cfg cid d ats w"
  shows "task_run env (d_addr d) s
    (s\<lparr>s_tasks := remove1 (d_addr d) (s_tasks s), s_life := w_life w', s_gossip := w_gossip w'\<rparr>)"
proof -
  obtain r w1 where run: "connect_and_run en cfg cid d ats w = (r, w1)" by fastforce
  obtain ns where ns: "w_life w1 = w_life w @ ns" "list_all (note_for (d_addr d)) ns"
    using connect_and_run_step [OF run] by (auto simp: attempt_step_def)
  obtain out where out: "w_life w' = w_life w1 @ [LEnded (d_addr d) out]" "w_gossip w' = w_gossip w1"
    using attempt_ending(1,4) [OF run] by (auto simp: w'_def)
  let ?s1 = "s\<lparr>s_gossip := w_gossip w1\<rparr>" and ?s2 = "s\<lparr>s_gossip := w_gossip w1, s_life := s_life s @ ns\<rparr>"
  have "task_run env (d_addr d) s ?s1"
    by (rule task_run_gossip) (simp_all add: task_run_refl assms(2) connect_and_run_gossip [OF run])
  from task_run_notes [OF ns(2) _ this] have "task_run env (d_addr d) s ?s2" using assms(3) by simp
  from task_run_end [OF _ this, of out] show ?thesis using assms(1,3) ns(1) out by (cases s) simp
qed

end
