(* ===== verification/V1_Transport.thy ===== *)
theory V1_Transport
  imports Anyhow
begin

text \<open>
  \<^verbatim>\<open>observer/src/transport.rs\<close>: the reader of the plain-text transport, which keeps what it has read of a message when a
  call is cancelled, and the fallback for messages that do not decode. The hash, the decoder of whole messages, the
  check of command strings and the size limit are the \<^verbatim>\<open>bitcoin\<close> and \<^verbatim>\<open>p2p\<close> crates': they are the record \<open>v1_env\<close>, an
  argument. What a socket has to offer is a list of chunks; an empty chunk is the end of the stream.
\<close>

section \<open>Messages that do not decode\<close>

record v1_env =
  ve_max_msg :: nat
  ve_sha256d :: "u8 list \<Rightarrow> u8 list"
  ve_decode :: "u8 list \<Rightarrow> net_message option"
  ve_decode_v2 :: "u8 list \<Rightarrow> net_message option"
  ve_command_ok :: "string \<Rightarrow> bool"

definition in_range :: "nat \<Rightarrow> nat \<Rightarrow> u8 \<Rightarrow> bool" where
  "in_range l h b \<longleftrightarrow> l \<le> unat b \<and> unat b \<le> h"

text \<open>\<^verbatim>\<open>String::from_utf8\<close>: the well-formed byte sequences; a string is the list of its bytes.\<close>

fun utf8_valid :: "u8 list \<Rightarrow> bool" where
  "utf8_valid [] = True"
| "utf8_valid (a # bs) =
     (if in_range 0 127 a then utf8_valid bs
      else case bs of
        b # bs \<Rightarrow>
          if in_range 194 223 a then in_range 128 191 b \<and> utf8_valid bs
          else (case bs of
            c # bs \<Rightarrow>
              if in_range 224 239 a
              then in_range (if a = 224 then 160 else 128) (if a = 237 then 159 else 191) b \<and> in_range 128 191 c \<and> utf8_valid bs
              else (case bs of
                d # bs \<Rightarrow> in_range 240 244 a \<and> in_range (if a = 240 then 144 else 128) (if a = 244 then 143 else 191) b
                    \<and> in_range 128 191 c \<and> in_range 128 191 d \<and> utf8_valid bs
              | [] \<Rightarrow> False)
          | [] \<Rightarrow> False)
      | [] \<Rightarrow> False)"

definition from_utf8 :: "u8 list \<Rightarrow> string option" where
  "from_utf8 bs = (if utf8_valid bs then Some (map (\<lambda>b. char_of (unat b)) bs) else None)"

definition undecodable :: "v1_env \<Rightarrow> u8 list \<Rightarrow> u8 list \<Rightarrow> net_message option" where
  "undecodable ve command payload =
     (case from_utf8 (takeWhile (\<lambda>b. b \<noteq> 0) command) of
        None \<Rightarrow> None
      | Some c \<Rightarrow> if ve_command_ok ve c then Some (UnknownMsg c payload) else None)"

definition SHORT_IDS :: "string list" where
  "SHORT_IDS = [''addr'', ''block'', ''blocktxn'', ''cmpctblock'', ''feefilter'', ''filteradd'', ''filterclear'', ''filterload'',
     ''getblocks'', ''getblocktxn'', ''getdata'', ''getheaders'', ''headers'', ''inv'', ''mempool'', ''merkleblock'',
     ''notfound'', ''ping'', ''pong'', ''sendcmpct'', ''tx'', ''getcfilters'', ''cfilter'', ''getcfheaders'', ''cfheaders'',
     ''getcfcheckpt'', ''cfcheckpt'', ''addrv2'']"

definition as_bytes :: "string \<Rightarrow> u8 list" where
  "as_bytes s = map (\<lambda>c. of_nat (of_char c)) s"

definition v2_undecodable :: "v1_env \<Rightarrow> u8 list \<Rightarrow> net_message option" where
  "v2_undecodable ve body =
     (case body of
        [] \<Rightarrow> None
      | i # rest \<Rightarrow>
          if i = 0 then (if length rest < 12 then None else undecodable ve (take 12 rest) (drop 12 rest))
          else if unat i - 1 < length SHORT_IDS then undecodable ve (as_bytes (SHORT_IDS ! (unat i - 1))) rest
          else None)"

section \<open>The encrypted transport\<close>

text \<open>What the cipher reports: an I/O error, a packet that does not decrypt, or another failure.\<close>

datatype v2_error = V2Io io_kind | V2Decryption | V2OtherError

definition v2_fault :: "v2_error \<Rightarrow> anyhow" where
  "v2_fault e =
     (case e of
        V2Io k \<Rightarrow> (let err = \<lparr>contexts = [], root = CText ''bip324'', sources = [CIo k]\<rparr>
                   in if k = IoConnectionAborted then with_context (CFault PeerClosed) err else err)
      | V2Decryption \<Rightarrow> with_context (CFault V2Decrypt) (error_new (CText ''bip324''))
      | V2OtherError \<Rightarrow> error_new (CText ''bip324''))"

text \<open>One packet, or the error of reading it, and the count of messages that did not decode.\<close>

definition v2_recv :: "v1_env \<Rightarrow> v2_error + u8 list \<Rightarrow> u32 \<Rightarrow> (anyhow + net_message) \<times> u32" where
  "v2_recv ve packet n =
     (case packet of
        Inl e \<Rightarrow> (Inl (with_context (CText ''v2 read'') (v2_fault e)), n)
      | Inr body \<Rightarrow>
          (case ve_decode_v2 ve body of
             Some msg \<Rightarrow> (Inr msg, n)
           | None \<Rightarrow>
               (case v2_undecodable ve body of
                  Some msg \<Rightarrow> (Inr msg, sat_add n 1)
                | None \<Rightarrow>
                    (Inl (with_context (CText ''v2 deserialize'') (with_context (CFault Decode) (error_new (CText ''deserialize'')))), n))))"

section \<open>The plain-text reader\<close>

datatype v1_state =
    V1Header "u8 list" nat
  | V1Payload "u8 list" "u8 list" nat

record v1_reader =
  rd_state :: v1_state
  rd_undecodable :: u32
  rd_magic :: "u8 list"

abbreviation v1_idle :: v1_state where
  "v1_idle \<equiv> V1Header (replicate 24 0) 0"

definition v1_new :: "u8 list \<Rightarrow> v1_reader" where
  "v1_new magic = \<lparr>rd_state = v1_idle, rd_undecodable = 0, rd_magic = magic\<rparr>"

datatype chunk = Bytes "u8 list" | ReadErr anyhow

datatype fill_end = Filled | Waiting | FillEof | FillErr anyhow

definition write_at :: "nat \<Rightarrow> u8 list \<Rightarrow> u8 list \<Rightarrow> u8 list" where
  "write_at pos bs buf = take pos buf @ bs @ drop (pos + length bs) buf"

text \<open>Reads into the buffer from \<open>pos\<close> on until it is full, or nothing more is there.\<close>

fun fill :: "u8 list \<Rightarrow> nat \<Rightarrow> chunk list \<Rightarrow> fill_end \<times> u8 list \<times> nat \<times> chunk list" where
  "fill buf pos cs =
     (if length buf \<le> pos then (Filled, buf, pos, cs)
      else case cs of
        [] \<Rightarrow> (Waiting, buf, pos, [])
      | ReadErr e # cs \<Rightarrow> (FillErr e, buf, pos, cs)
      | Bytes bs # cs \<Rightarrow>
          (let n = min (length buf - pos) (length bs); buf' = write_at pos (take n bs) buf in
           if bs = [] then (FillEof, buf, pos, cs)
           else if n < length bs then (Filled, buf', pos + n, Bytes (drop n bs) # cs)
           else fill buf' (pos + n) cs))"

declare fill.simps [simp del]

definition le_u32 :: "u8 list \<Rightarrow> nat" where
  "le_u32 bs = unat (bs ! 0) + 2 ^ 8 * unat (bs ! 1) + 2 ^ 16 * unat (bs ! 2) + 2 ^ 24 * unat (bs ! 3)"

definition payload_len :: "u8 list \<Rightarrow> nat" where
  "payload_len header = le_u32 (take 4 (drop 16 header))"

definition MAX_V1_PAYLOAD :: "v1_env \<Rightarrow> nat" where
  "MAX_V1_PAYLOAD ve = ve_max_msg ve - 24"

text \<open>What a complete header is answered with.\<close>

definition check_header :: "v1_env \<Rightarrow> u8 list \<Rightarrow> u8 list \<Rightarrow> anyhow option" where
  "check_header ve magic header =
     (if take 4 header \<noteq> magic then Some (with_context (CFault WrongMagic) (error_new (CIo IoInvalidData)))
      else if MAX_V1_PAYLOAD ve < payload_len header then Some (with_context (CFault Oversized) (error_new (CIo IoInvalidData)))
      else None)"

text \<open>What a complete frame is answered with; \<open>True\<close> when it was counted as undecodable.\<close>

datatype frame_end = FrameCorrupt anyhow | FrameUnreadable anyhow | FrameMsg net_message bool

definition check_frame :: "v1_env \<Rightarrow> u8 list \<Rightarrow> u8 list \<Rightarrow> frame_end" where
  "check_frame ve header buf =
     (if take 4 (ve_sha256d ve (drop 24 buf)) \<noteq> take 4 (drop 20 header)
      then FrameCorrupt (with_context (CFault Decode) (error_new (CIo IoInvalidData)))
      else case ve_decode ve buf of
        Some msg \<Rightarrow> FrameMsg msg False
      | None \<Rightarrow>
          (case undecodable ve (take 12 (drop 4 header)) (drop 24 buf) of
             Some msg \<Rightarrow> FrameMsg msg True
           | None \<Rightarrow> FrameUnreadable
               (with_context (CText ''v1 deserialize'') (with_context (CFault Decode) (error_new (CText ''deserialize''))))))"

datatype recv_end = RecvMsg net_message | RecvErr anyhow | RecvWaiting

definition eof_error :: "fault \<Rightarrow> anyhow" where
  "eof_error f = with_context (CFault f) (error_new (CIo IoUnexpectedEof))"

text \<open>The payload part of \<^verbatim>\<open>recv\<close>, with the header already read.\<close>

definition recv_payload ::
  "v1_env \<Rightarrow> u8 list \<Rightarrow> u8 list \<Rightarrow> nat \<Rightarrow> v1_reader \<Rightarrow> chunk list \<Rightarrow> recv_end \<times> v1_reader \<times> chunk list" where
  "recv_payload ve header buf pos rd cs =
     (case fill buf pos cs of
        (Waiting, buf, pos, cs) \<Rightarrow> (RecvWaiting, rd\<lparr>rd_state := V1Payload header buf pos\<rparr>, cs)
      | (FillErr e, buf, pos, cs) \<Rightarrow>
          (RecvErr (with_context (CText ''v1 payload read'') e), rd\<lparr>rd_state := V1Payload header buf pos\<rparr>, cs)
      | (FillEof, buf, pos, cs) \<Rightarrow> (RecvErr (eof_error Truncated), rd\<lparr>rd_state := V1Payload header buf pos\<rparr>, cs)
      | (Filled, buf, pos, cs) \<Rightarrow>
          (case check_frame ve header buf of
             FrameCorrupt e \<Rightarrow> (RecvErr e, rd\<lparr>rd_state := V1Payload header buf pos\<rparr>, cs)
           | FrameUnreadable e \<Rightarrow> (RecvErr e, rd\<lparr>rd_state := v1_idle\<rparr>, cs)
           | FrameMsg msg counted \<Rightarrow>
               (RecvMsg msg, rd\<lparr>rd_state := v1_idle,
                  rd_undecodable := (if counted then sat_add (rd_undecodable rd) 1 else rd_undecodable rd)\<rparr>, cs)))"

definition recv_header :: "v1_env \<Rightarrow> u8 list \<Rightarrow> nat \<Rightarrow> v1_reader \<Rightarrow> chunk list \<Rightarrow> recv_end \<times> v1_reader \<times> chunk list" where
  "recv_header ve buf pos rd cs =
     (case fill buf pos cs of
        (Waiting, buf, pos, cs) \<Rightarrow> (RecvWaiting, rd\<lparr>rd_state := V1Header buf pos\<rparr>, cs)
      | (FillErr e, buf, pos, cs) \<Rightarrow>
          (RecvErr (with_context (CText ''v1 header read'') e), rd\<lparr>rd_state := V1Header buf pos\<rparr>, cs)
      | (FillEof, buf, pos, cs) \<Rightarrow>
          (RecvErr (eof_error (if pos = 0 then PeerClosed else Truncated)), rd\<lparr>rd_state := V1Header buf pos\<rparr>, cs)
      | (Filled, buf, pos, cs) \<Rightarrow>
          (case check_header ve (rd_magic rd) buf of
             Some e \<Rightarrow> (RecvErr e, rd\<lparr>rd_state := V1Header buf pos\<rparr>, cs)
           | None \<Rightarrow> recv_payload ve buf (buf @ replicate (payload_len buf) 0) 24 rd cs))"

definition v1_recv :: "v1_env \<Rightarrow> v1_reader \<Rightarrow> chunk list \<Rightarrow> recv_end \<times> v1_reader \<times> chunk list" where
  "v1_recv ve rd cs =
     (case rd_state rd of
        V1Header buf pos \<Rightarrow> recv_header ve buf pos rd cs
      | V1Payload header buf pos \<Rightarrow> recv_payload ve header buf pos rd cs)"

end
