(* ===== verification/V1_Spec.thy ===== *)
theory V1_Spec
  imports V1_Transport
begin

text \<open>
  The plain-text reader against a reference that cuts the whole stream into frames: the messages it hands up depend
  only on the bytes of the stream, not on how they arrive or on which calls are cancelled.
\<close>

section \<open>Filling a buffer\<close>

fun chunk_bytes :: "chunk \<Rightarrow> u8 list" where
  "chunk_bytes (Bytes bs) = bs"
| "chunk_bytes (ReadErr _) = []"

definition bytes_of :: "chunk list \<Rightarrow> u8 list" where
  "bytes_of cs = concat (map chunk_bytes cs)"

text \<open>A stream that neither fails nor ends.\<close>

definition clean :: "chunk list \<Rightarrow> bool" where
  "clean cs \<longleftrightarrow> list_all (\<lambda>c. chunk_bytes c \<noteq> []) cs"

lemma bytes_of_simps [simp]:
  "bytes_of [] = []" "bytes_of (c # cs) = chunk_bytes c @ bytes_of cs" "bytes_of (cs @ ds) = bytes_of cs @ bytes_of ds"
  by (simp_all add: bytes_of_def)

lemma clean_simps [simp]:
  "clean []" "clean (c # cs) \<longleftrightarrow> chunk_bytes c \<noteq> [] \<and> clean cs" "clean (cs @ ds) \<longleftrightarrow> clean cs \<and> clean ds"
  by (simp_all add: clean_def)

lemma length_write_at [simp]: "pos + length bs \<le> length buf \<Longrightarrow> length (write_at pos bs buf) = length buf"
  by (simp add: write_at_def)

lemma write_at_write_at:
  "pos + length a + length b \<le> length buf
   \<Longrightarrow> write_at (pos + length a) b (write_at pos a buf) = write_at pos (a @ b) buf"
  by (simp add: write_at_def add.assoc add.commute add.left_commute)

lemma take_write_at: "pos + length bs \<le> length buf \<Longrightarrow> take (pos + length bs) (write_at pos bs buf) = take pos buf @ bs"
  by (simp add: write_at_def)

lemma write_at_Nil [simp]: "write_at pos [] buf = buf"
  by (simp add: write_at_def)

lemma fill_clean:
  assumes "clean cs" "pos \<le> length buf"
  shows "(length (bytes_of cs) < length buf - pos
      \<and> fill buf pos cs = (Waiting, write_at pos (bytes_of cs) buf, pos + length (bytes_of cs), []))
    \<or> (length buf - pos \<le> length (bytes_of cs)
      \<and> (\<exists>cs'. fill buf pos cs = (Filled, write_at pos (take (length buf - pos) (bytes_of cs)) buf, length buf, cs')
            \<and> clean cs' \<and> bytes_of cs' = drop (length buf - pos) (bytes_of cs)))"
  using assms
proof (induction cs arbitrary: buf pos)
  case Nil
  then show ?case by (subst (1 2) fill.simps) auto
next
  case (Cons c cs)
  obtain bs where c: "c = Bytes bs" "bs \<noteq> []" using Cons.prems(1) by (cases c) auto
  consider (full) "length buf = pos" | (over) "pos < length buf" "length buf - pos < length bs"
    | (under) "pos < length buf" "length bs \<le> length buf - pos" using Cons.prems(2) by linarith
  then show ?case
  proof cases
    case full
    then show ?thesis using Cons.prems by (subst (1 2) fill.simps) auto
  next
    case over
    then show ?thesis using Cons.prems c by (subst (1 2) fill.simps) (auto simp: Let_def)
  next
    case under
    let ?buf = "write_at pos bs buf" and ?pos = "pos + length bs"
    have eq: "fill buf pos (c # cs) = fill ?buf ?pos cs"
      using under c by (subst fill.simps) (simp add: Let_def)
    have fits: "?pos \<le> length ?buf" "length ?buf = length buf" using under by simp_all
    from Cons.IH [OF _ fits(1)] Cons.prems(1)
    consider (wait) "length (bytes_of cs) < length buf - ?pos"
        "fill ?buf ?pos cs = (Waiting, write_at ?pos (bytes_of cs) ?buf, ?pos + length (bytes_of cs), [])"
      | (filled) cs' where "length buf - ?pos \<le> length (bytes_of cs)" "clean cs'" "bytes_of cs' = drop (length buf - ?pos) (bytes_of cs)"
        "fill ?buf ?pos cs = (Filled, write_at ?pos (take (length buf - ?pos) (bytes_of cs)) ?buf, length buf, cs')"
      by (auto simp: fits)
    then show ?thesis
    proof cases
      case wait
      then show ?thesis using under write_at_write_at [of pos bs "bytes_of cs" buf] unfolding eq by (simp add: c(1))
    next
      case filled
      then show ?thesis using under write_at_write_at [of pos bs "take (length buf - ?pos) (bytes_of cs)" buf]
        unfolding eq by (simp add: c(1))
    qed
  qed
qed

section \<open>The reference\<close>

datatype frame_cut = Incomplete | BadFrame anyhow | GoodFrame net_message bool nat

definition first_frame :: "v1_env \<Rightarrow> u8 list \<Rightarrow> u8 list \<Rightarrow> frame_cut" where
  "first_frame ve magic bs =
     (if length bs < 24 then Incomplete
      else case check_header ve magic (take 24 bs) of
        Some e \<Rightarrow> BadFrame e
      | None \<Rightarrow>
          (let n = 24 + payload_len (take 24 bs) in
           if length bs < n then Incomplete
           else case check_frame ve (take 24 bs) (take n bs) of
             FrameCorrupt e \<Rightarrow> BadFrame e
           | FrameUnreadable e \<Rightarrow> BadFrame e
           | FrameMsg msg counted \<Rightarrow> GoodFrame msg counted n))"

lemma first_frame_length: "first_frame ve magic bs = GoodFrame msg c n \<Longrightarrow> 24 \<le> n \<and> n \<le> length bs"
  by (auto simp: first_frame_def Let_def split: if_splits option.splits frame_end.splits)

function v1_frames :: "v1_env \<Rightarrow> u8 list \<Rightarrow> u8 list \<Rightarrow> net_message list \<times> anyhow option" where
  "v1_frames ve magic bs =
     (case first_frame ve magic bs of
        Incomplete \<Rightarrow> ([], None)
      | BadFrame e \<Rightarrow> ([], Some e)
      | GoodFrame msg c n \<Rightarrow> (let (msgs, e) = v1_frames ve magic (drop n bs) in (msg # msgs, e)))"
  by pat_completeness auto
termination
  by (relation "measure (\<lambda>(ve, magic, bs). length bs)") (auto dest!: first_frame_length)

declare v1_frames.simps [simp del]

section \<open>One call\<close>

text \<open>The reader holds a prefix of a frame.\<close>

fun state_holds :: "v1_env \<Rightarrow> u8 list \<Rightarrow> v1_state \<Rightarrow> u8 list \<Rightarrow> bool" where
  "state_holds ve magic (V1Header buf pos) p \<longleftrightarrow> length buf = 24 \<and> pos < 24 \<and> take pos buf = p"
| "state_holds ve magic (V1Payload header buf pos) p \<longleftrightarrow>
     length header = 24 \<and> take 24 buf = header \<and> length buf = 24 + payload_len header \<and> check_header ve magic header = None
     \<and> 24 \<le> pos \<and> pos < length buf \<and> take pos buf = p"

definition rd_holds :: "v1_env \<Rightarrow> v1_reader \<Rightarrow> u8 list \<Rightarrow> bool" where
  "rd_holds ve rd p \<longleftrightarrow> state_holds ve (rd_magic rd) (rd_state rd) p"

lemma rd_holds_idle: "rd_holds ve (rd\<lparr>rd_state := v1_idle\<rparr>) []" "rd_holds ve (rd\<lparr>rd_state := v1_idle, rd_undecodable := n\<rparr>) []"
  by (simp_all add: rd_holds_def)

text \<open>What a call does with a stream: it agrees with the first frame of what is held and what arrives.\<close>

definition agrees :: "v1_env \<Rightarrow> v1_reader \<Rightarrow> chunk list \<Rightarrow> u8 list \<Rightarrow> recv_end \<times> v1_reader \<times> chunk list \<Rightarrow> bool" where
  "agrees ve rd cs p r \<longleftrightarrow>
     (case first_frame ve (rd_magic rd) (p @ bytes_of cs) of
        Incomplete \<Rightarrow> \<exists>rd'. r = (RecvWaiting, rd', []) \<and> rd_holds ve rd' (p @ bytes_of cs) \<and> rd_magic rd' = rd_magic rd
      | BadFrame e \<Rightarrow> fst r = RecvErr e
      | GoodFrame msg c n \<Rightarrow>
          \<exists>rd' cs'. r = (RecvMsg msg, rd', cs') \<and> rd_holds ve rd' [] \<and> rd_magic rd' = rd_magic rd \<and> clean cs'
            \<and> length p < n \<and> bytes_of cs' = drop n (p @ bytes_of cs))"

lemma payload_agrees:
  assumes "length header = 24" "take 24 buf = header" "length buf = 24 + payload_len header"
    "check_header ve (rd_magic rd) header = None" "24 \<le> pos" "pos \<le> length buf" "clean cs" "take pos buf = q"
    "q @ bytes_of cs = p @ bytes_of ds" "length p < length buf"
  shows "agrees ve rd ds p (recv_payload ve header buf pos rd cs)"
proof -
  let ?all = "q @ bytes_of cs"
  have q: "length q = pos" using assms(6,8) by auto
  moreover have "take 24 q = header" using assms(2,5,8) by auto
  ultimately have q: "length q = pos" "take 24 ?all = header" using assms(5) by simp_all
  have n: "24 + payload_len (take 24 ?all) = length buf" using q assms(3) by simp
  from fill_clean [OF assms(7,6)] show ?thesis
  proof (elim disjE conjE exE)
    assume lt: "length (bytes_of cs) < length buf - pos"
      and f: "fill buf pos cs = (Waiting, write_at pos (bytes_of cs) buf, pos + length (bytes_of cs), [])"
    have "pos + length (bytes_of cs) < length buf" using lt by simp
    then have "first_frame ve (rd_magic rd) ?all = Incomplete" using q n assms(4,5) by (simp add: first_frame_def Let_def)
    moreover have "state_holds ve (rd_magic rd) (V1Payload header (write_at pos (bytes_of cs) buf) (pos + length (bytes_of cs))) ?all"
      using lt assms take_write_at [of pos "bytes_of cs" buf] by (auto simp: write_at_def)
    ultimately show ?thesis using f by (simp add: agrees_def recv_payload_def rd_holds_def assms(9) [symmetric])
  next
    fix cs'
    assume ge: "length buf - pos \<le> length (bytes_of cs)" "clean cs'" "bytes_of cs' = drop (length buf - pos) (bytes_of cs)"
      and f: "fill buf pos cs = (Filled, write_at pos (take (length buf - pos) (bytes_of cs)) buf, length buf, cs')"
    have w: "write_at pos (take (length buf - pos) (bytes_of cs)) buf = take (length buf) ?all"
      using ge(1) assms(6,8) q(1) by (auto simp: write_at_def)
    have "\<not> pos + length (bytes_of cs) < length buf" using ge(1) by simp
    then have "first_frame ve (rd_magic rd) ?all = (case check_frame ve header (take (length buf) ?all) of
        FrameCorrupt e \<Rightarrow> BadFrame e | FrameUnreadable e \<Rightarrow> BadFrame e | FrameMsg msg c \<Rightarrow> GoodFrame msg c (length buf))"
      using q n assms(4,5) by (simp add: first_frame_def Let_def)
    then show ?thesis
      using f w ge(2,3) assms(6,10) q(1) rd_holds_idle
      by (simp add: agrees_def recv_payload_def assms(9) [symmetric] split: frame_end.split)
  qed
qed

lemma recv_agrees:
  assumes "rd_holds ve rd p" "clean cs"
  shows "agrees ve rd cs p (v1_recv ve rd cs)"
proof (cases "rd_state rd")
  case (V1Payload header buf pos)
  then have "agrees ve rd cs p (recv_payload ve header buf pos rd cs)"
    using assms by (intro payload_agrees [where q = p]) (auto simp: rd_holds_def)
  then show ?thesis using V1Payload by (simp add: v1_recv_def)
next
  case (V1Header buf pos)
  then have h: "length buf = 24" "pos < 24" "take pos buf = p" using assms(1) by (auto simp: rd_holds_def)
  then have p: "length p = pos" by auto
  have "pos \<le> length buf" using h by simp
  from fill_clean [OF assms(2) this] show ?thesis
  proof (elim disjE conjE exE)
    assume lt: "length (bytes_of cs) < length buf - pos"
      and f: "fill buf pos cs = (Waiting, write_at pos (bytes_of cs) buf, pos + length (bytes_of cs), [])"
    have "pos + length (bytes_of cs) < 24" using lt h by simp
    then have "first_frame ve (rd_magic rd) (p @ bytes_of cs) = Incomplete" using p by (simp add: first_frame_def)
    moreover have "state_holds ve (rd_magic rd) (V1Header (write_at pos (bytes_of cs) buf) (pos + length (bytes_of cs))) (p @ bytes_of cs)"
      using lt h take_write_at [of pos "bytes_of cs" buf] by simp
    ultimately show ?thesis using f V1Header by (simp add: agrees_def v1_recv_def recv_header_def rd_holds_def)
  next
    fix cs'
    assume ge: "length buf - pos \<le> length (bytes_of cs)" "clean cs'" "bytes_of cs' = drop (length buf - pos) (bytes_of cs)"
      and f: "fill buf pos cs = (Filled, write_at pos (take (length buf - pos) (bytes_of cs)) buf, length buf, cs')"
    define hd where "hd = take 24 (p @ bytes_of cs)"
    have w: "write_at pos (take (length buf - pos) (bytes_of cs)) buf = hd"
      using ge(1) h p by (auto simp: write_at_def hd_def)
    have hd: "length hd = 24" "hd @ bytes_of cs' = p @ bytes_of cs"
      using ge h p by (auto simp: hd_def)
    show ?thesis
    proof (cases "check_header ve (rd_magic rd) hd")
      case (Some e)
      have "\<not> length (p @ bytes_of cs) < 24" using ge(1) h p by simp
      then have "first_frame ve (rd_magic rd) (p @ bytes_of cs) = BadFrame e"
        unfolding first_frame_def hd_def [symmetric] using Some by (simp only: if_False option.case)
      then show ?thesis using f w V1Header Some by (simp add: agrees_def v1_recv_def recv_header_def)
    next
      case None
      have "agrees ve rd cs p (recv_payload ve hd (hd @ replicate (payload_len hd) 0) 24 rd cs')"
        using None hd ge(2) p h by (intro payload_agrees [where q = hd]) auto
      then show ?thesis using f w V1Header None by (simp add: v1_recv_def recv_header_def)
    qed
  qed
qed

section \<open>Runs of calls\<close>

text \<open>
  At most \<open>n\<close> calls. A call that has to wait is cancelled, and the next one finds what arrived in the meantime; the
  result is the messages handed up and the error of the call that failed.
\<close>

fun v1_calls :: "v1_env \<Rightarrow> nat \<Rightarrow> v1_reader \<Rightarrow> chunk list \<Rightarrow> chunk list list \<Rightarrow> net_message list \<times> anyhow option" where
  "v1_calls ve 0 rd cs later = ([], None)"
| "v1_calls ve (Suc n) rd cs later =
     (case v1_recv ve rd cs of
        (RecvErr e, rd, cs) \<Rightarrow> ([], Some e)
      | (RecvMsg msg, rd, cs) \<Rightarrow> (let (msgs, e) = v1_calls ve n rd cs later in (msg # msgs, e))
      | (RecvWaiting, rd, cs) \<Rightarrow> (case later of [] \<Rightarrow> ([], None) | ds # later \<Rightarrow> v1_calls ve n rd (cs @ ds) later))"

lemma v1_calls_frames:
  assumes "rd_holds ve rd p" "clean cs" "list_all clean later" "length (bytes_of (cs @ concat later)) + length later < n"
  shows "v1_calls ve n rd cs later = v1_frames ve (rd_magic rd) (p @ bytes_of (cs @ concat later))"
  using assms
proof (induction n arbitrary: rd p cs later)
  case (Suc n)
  note ag = recv_agrees [OF Suc.prems(1,2), unfolded agrees_def]
  have more: "clean (concat later)" using Suc.prems(3) by (induction later) auto
  have ext: "first_frame ve magic (bs @ xs) = first_frame ve magic bs" if "first_frame ve magic bs \<noteq> Incomplete" for magic bs xs
    using that by (auto simp: first_frame_def Let_def split: if_splits option.splits)
  show ?case
  proof (cases "first_frame ve (rd_magic rd) (p @ bytes_of cs)")
    case Incomplete
    with ag obtain rd' where rd': "v1_recv ve rd cs = (RecvWaiting, rd', [])" "rd_holds ve rd' (p @ bytes_of cs)" "rd_magic rd' = rd_magic rd"
      by auto
    show ?thesis
    proof (cases later)
      case Nil
      then show ?thesis using Incomplete rd'(1) by (subst v1_frames.simps) simp
    next
      case (Cons ds rest)
      then show ?thesis using Suc.IH [OF rd'(2), of ds rest] Suc.prems(3,4) rd'(1,3) by simp
    qed
  next
    case (BadFrame e)
    then have "fst (v1_recv ve rd cs) = RecvErr e" using ag by simp
    moreover have "first_frame ve (rd_magic rd) (p @ bytes_of (cs @ concat later)) = BadFrame e"
      using ext [of "rd_magic rd" "p @ bytes_of cs" "bytes_of (concat later)"] BadFrame by simp
    ultimately show ?thesis by (subst v1_frames.simps) (auto split: prod.splits)
  next
    case (GoodFrame msg c k)
    with ag obtain rd' cs' where rd': "v1_recv ve rd cs = (RecvMsg msg, rd', cs')" "rd_holds ve rd' []" "rd_magic rd' = rd_magic rd"
        "clean cs'" "length p < k" "bytes_of cs' = drop k (p @ bytes_of cs)" by auto
    have k: "k \<le> length (p @ bytes_of cs)" using first_frame_length [OF GoodFrame] by simp
    have "length (bytes_of (cs' @ concat later)) + length later < n" using Suc.prems(4) rd'(5,6) k by simp
    from Suc.IH [OF rd'(2,4) Suc.prems(3) this]
    have "v1_calls ve n rd' cs' later = v1_frames ve (rd_magic rd) (drop k (p @ bytes_of (cs @ concat later)))"
      using rd'(3,6) k by simp
    moreover have "first_frame ve (rd_magic rd) (p @ bytes_of (cs @ concat later)) = GoodFrame msg c k"
      using ext [of "rd_magic rd" "p @ bytes_of cs" "bytes_of (concat later)"] GoodFrame by simp
    ultimately show ?thesis using rd'(1) by (subst v1_frames.simps) simp
  qed
qed simp

section \<open>Bounds\<close>

fun state_bounded :: "nat \<Rightarrow> v1_state \<Rightarrow> bool" where
  "state_bounded m (V1Header buf pos) \<longleftrightarrow> length buf = 24"
| "state_bounded m (V1Payload header buf pos) \<longleftrightarrow> length buf \<le> m"

lemma length_fill: "fill buf pos cs = (r, buf', pos', cs') \<Longrightarrow> length buf' = length buf"
proof (induction cs arbitrary: buf pos)
  case Nil
  then show ?case by (subst (asm) fill.simps) (auto split: if_splits)
next
  case (Cons c cs)
  have step: "fill buf pos (Bytes bs # cs) = (if length buf - pos < length bs
      then (Filled, write_at pos (take (length buf - pos) bs) buf, length buf, Bytes (drop (length buf - pos) bs) # cs)
      else fill (write_at pos bs buf) (pos + length bs) cs)" if "pos < length buf" "bs \<noteq> []" for bs
    using that by (simp add: fill.simps [of buf pos "_ # _"] Let_def)
  show ?case
  proof (cases "pos < length buf \<and> chunk_bytes c \<noteq> []")
    case True
    then obtain bs where "c = Bytes bs" "bs \<noteq> []" by (cases c) auto
    then show ?thesis using Cons.prems Cons.IH [of "write_at pos bs buf" "pos + length bs"] True
      by (auto simp: step split: if_splits)
  next
    case False
    then show ?thesis using Cons.prems by (cases c) (auto simp: fill.simps [of buf pos "_ # _"] Let_def split: if_splits)
  qed
qed

lemma recv_payload_bounded:
  assumes "length buf \<le> m" "recv_payload ve header buf pos rd cs = (r, rd', cs')"
  shows "state_bounded m (rd_state rd')"
proof -
  obtain fr buf' pos' ds where f: "fill buf pos cs = (fr, buf', pos', ds)" by (metis prod_cases4)
  show ?thesis
    using assms length_fill [OF f] by (cases fr) (auto simp: recv_payload_def f split: frame_end.splits)
qed

lemma recv_bounded:
  assumes "state_bounded (max 24 (ve_max_msg ve)) (rd_state rd)" "v1_recv ve rd cs = (r, rd', cs')"
  shows "state_bounded (max 24 (ve_max_msg ve)) (rd_state rd')"
proof (cases "rd_state rd")
  case (V1Header buf pos)
  obtain fr buf' pos' ds where f: "fill buf pos cs = (fr, buf', pos', ds)" by (metis prod_cases4)
  have len: "length buf' = 24" using length_fill [OF f] assms(1) V1Header by simp
  have ok: "check_header ve (rd_magic rd) buf' = None \<Longrightarrow> length (buf' @ replicate (payload_len buf') 0) \<le> max 24 (ve_max_msg ve)"
    using len by (auto simp: check_header_def MAX_V1_PAYLOAD_def split: if_splits)
  show ?thesis
    using assms(2) len
    by (cases fr) (auto simp: v1_recv_def V1Header recv_header_def f intro: recv_payload_bounded [OF ok] split: option.splits)
next
  case (V1Payload header buf pos)
  then show ?thesis using assms recv_payload_bounded [of buf _ ve header pos rd cs] by (simp add: v1_recv_def)
qed

text \<open>Any number of calls.\<close>

fun v1_after :: "v1_env \<Rightarrow> chunk list list \<Rightarrow> v1_reader \<Rightarrow> v1_reader" where
  "v1_after ve [] rd = rd"
| "v1_after ve (cs # css) rd = v1_after ve css (fst (snd (v1_recv ve rd cs)))"

lemma v1_after_bounded:
  "state_bounded (max 24 (ve_max_msg ve)) (rd_state rd) \<Longrightarrow> state_bounded (max 24 (ve_max_msg ve)) (rd_state (v1_after ve css rd))"
proof (induction css arbitrary: rd)
  case (Cons cs css)
  then show ?case by (cases "v1_recv ve rd cs") (auto dest: recv_bounded)
qed simp

section \<open>Properties\<close>

text \<open>
  C39. The messages handed up, and the error that stops the reader, are those of cutting the bytes of the stream into
  frames: they do not depend on how the bytes were split into reads, nor on how many calls were cancelled while
  waiting and what arrived before each was made again.
\<close>

theorem reading_is_cancel_safe:
  assumes "clean cs" "list_all clean later" "length (bytes_of (cs @ concat later)) + length later < n"
  shows "v1_calls ve n (v1_new magic) cs later = v1_frames ve magic (bytes_of (cs @ concat later))"
  using v1_calls_frames [OF _ assms, of ve "v1_new magic" "[]"] by (simp add: v1_new_def rd_holds_def)

definition toy_v1 :: v1_env where
  "toy_v1 = \<lparr>ve_max_msg = 30, ve_sha256d = (\<lambda>_. [0, 0, 0, 0]), ve_decode = (\<lambda>bs. if length bs = 24 then Some Verack else None),
     ve_decode_v2 = (\<lambda>_. None), ve_command_ok = (\<lambda>_. True)\<rparr>"

theorem reading_is_cancel_safe_witness:
  "v1_calls toy_v1 99 (v1_new [1, 2, 3, 4]) [Bytes [1, 2]] [[Bytes [3], Bytes (4 # replicate 20 0)], [Bytes [1, 2]]] =
   v1_frames toy_v1 [1, 2, 3, 4] ([1, 2, 3, 4] @ replicate 20 0 @ [1, 2])"
  using reading_is_cancel_safe [of "[Bytes [1, 2]]" "[[Bytes [3], Bytes (4 # replicate 20 0)], [Bytes [1, 2]]]" 99 toy_v1 "[1, 2, 3, 4]"]
  by simp

text \<open>
  A peer cannot make the reader allocate more than the limit on messages: whatever it sends and however often it is
  read from, the buffer is the header's or stays within the limit.
\<close>

theorem reader_memory_is_bounded:
  "state_bounded (max 24 (ve_max_msg ve)) (rd_state (v1_after ve css (v1_new magic)))"
  by (rule v1_after_bounded) (simp add: v1_new_def)

text \<open>
  The end of the stream is told apart by where it falls: between messages the peer closed the connection, inside
  one the stream was cut.
\<close>

theorem end_of_stream_is_told_apart:
  assumes "rd_holds ve rd p"
  shows "fst (v1_recv ve rd [Bytes []]) = RecvErr (eof_error (if p = [] then PeerClosed else Truncated))"
  using assms
  by (cases "rd_state rd")
    (auto simp: rd_holds_def v1_recv_def recv_header_def recv_payload_def fill.simps Let_def)

theorem end_of_stream_is_told_apart_witness:
  "fst (v1_recv toy_v1 (v1_new [1, 2, 3, 4]) [Bytes []]) = RecvErr (eof_error PeerClosed)"
  using end_of_stream_is_told_apart [of toy_v1 "v1_new [1, 2, 3, 4]" "[]"] by (simp add: rd_holds_def v1_new_def)

text \<open>
  A payload that does not decode costs one message, not the session: a frame with the right magic, length and
  checksum whose command is readable is handed up under that command with its payload, whatever the payload.
\<close>

theorem undecodable_payloads_are_handed_up:
  assumes "length header = 24" "check_header ve magic header = None" "length payload = payload_len header"
    "take 4 (ve_sha256d ve payload) = drop 20 header" "ve_decode ve (header @ payload) = None"
    "from_utf8 (takeWhile (\<lambda>b. b \<noteq> 0) (take 12 (drop 4 header))) = Some c" "ve_command_ok ve c"
  shows "v1_frames ve magic (header @ payload @ rest) =
    (UnknownMsg c payload # fst (v1_frames ve magic rest), snd (v1_frames ve magic rest))"
proof -
  have "first_frame ve magic (header @ payload @ rest) = GoodFrame (UnknownMsg c payload) True (24 + length payload)"
    using assms by (simp add: first_frame_def check_frame_def undecodable_def Let_def)
  then show ?thesis using assms(1) by (subst v1_frames.simps) (simp add: case_prod_beta)
qed

theorem undecodable_payloads_are_handed_up_witness:
  "v1_frames toy_v1 [1, 2, 3, 4] (([1, 2, 3, 4, 112] @ replicate 11 0 @ [1, 0, 0, 0, 0, 0, 0, 0]) @ [7] @ []) =
   (UnknownMsg ''p'' [7] # fst (v1_frames toy_v1 [1, 2, 3, 4] []), snd (v1_frames toy_v1 [1, 2, 3, 4] []))"
  by (rule undecodable_payloads_are_handed_up)
    (simp_all add: toy_v1_def check_header_def payload_len_def le_u32_def MAX_V1_PAYLOAD_def from_utf8_def in_range_def numeral_nat(1)
      char_of_def bit_Suc_0_iff)

end
