(* ===== verification/Tcp_Info.thy ===== *)
theory Tcp_Info
  imports Emit
begin

text \<open>
  \<^verbatim>\<open>observer/src/tcp.rs\<close>, \<^verbatim>\<open>tcp_info\<close>: what the kernel answers, as a sample. The result of \<^verbatim>\<open>getsockopt\<close> is an argument: \<open>None\<close> for an error, otherwise
  the structure and how many bytes of it were filled in. Where each field ends in it is the C library's.
\<close>

section \<open>Linux\<close>

record linux_tcp_info =
  tcpi_rtt :: u32
  tcpi_rttvar :: u32
  tcpi_total_retrans :: u32
  tcpi_snd_cwnd :: u32
  tcpi_min_rtt :: u32
  tcpi_lost :: u32
  tcpi_reordering :: u32
  tcpi_delivery_rate :: u64
  tcpi_bytes_received :: u64

record tcp_info_layout =
  end_min_rtt :: nat
  end_lost :: nat
  end_reordering :: nat
  end_delivery_rate :: nat
  end_bytes_received :: nat

definition tcp_info_linux :: "tcp_info_layout \<Rightarrow> (linux_tcp_info \<times> nat) option \<Rightarrow> tcp_stats option" where
  "tcp_info_linux L answer =
     (case answer of
        None \<Rightarrow> None
      | Some (info, filled) \<Rightarrow>
          Some \<lparr>srtt_us = tcpi_rtt info, rttvar_us = tcpi_rttvar info, total_retrans = tcpi_total_retrans info, snd_cwnd = tcpi_snd_cwnd info,
            min_rtt_us = (if end_min_rtt L \<le> filled then Some (tcpi_min_rtt info) else None),
            lost = (if end_lost L \<le> filled then Some (tcpi_lost info) else None),
            reordering = (if end_reordering L \<le> filled then Some (tcpi_reordering info) else None),
            delivery_rate = (if end_delivery_rate L \<le> filled then Some (tcpi_delivery_rate info) else None),
            bytes_received = (if end_bytes_received L \<le> filled then Some (tcpi_bytes_received info) else None)\<rparr>)"

section \<open>macOS\<close>

text \<open>Times are in milliseconds; the products wrap, as they do in a release build. The count of retransmissions is cut to 32 bits.\<close>

record mac_tcp_info =
  mac_srtt :: u32
  mac_rttvar :: u32
  mac_rxretransmitpackets :: u64
  mac_snd_cwnd :: u32
  mac_rxbytes :: u64

definition tcp_info_mac :: "mac_tcp_info option \<Rightarrow> tcp_stats option" where
  "tcp_info_mac answer =
     (case answer of
        None \<Rightarrow> None
      | Some info \<Rightarrow>
          Some \<lparr>srtt_us = mac_srtt info * 1000, rttvar_us = mac_rttvar info * 1000, total_retrans = ucast (mac_rxretransmitpackets info),
            snd_cwnd = mac_snd_cwnd info, min_rtt_us = None, lost = None, reordering = None, delivery_rate = None,
            bytes_received = Some (mac_rxbytes info)\<rparr>)"

text \<open>A sample does not depend on what the kernel did not write.\<close>

lemma unwritten_fields_do_not_show:
  assumes "filled < end_min_rtt L" "filled < end_delivery_rate L"
  shows "tcp_info_linux L (Some (info\<lparr>tcpi_min_rtt := x, tcpi_delivery_rate := y\<rparr>, filled)) = tcp_info_linux L (Some (info, filled))"
  using assms by (simp add: tcp_info_linux_def)

lemma mac_times_exact:
  assumes "tcp_info_mac (Some info) = Some t" "unat (mac_srtt info) \<le> 4294967"
  shows "unat (srtt_us t) = unat (mac_srtt info) * 1000"
proof -
  have "unat (mac_srtt info * 1000) = unat (mac_srtt info) * unat (1000 :: u32) mod 2 ^ 32" by (simp add: unat_word_ariths)
  moreover have "unat (mac_srtt info) * unat (1000 :: u32) < 2 ^ 32" using assms(2) by simp
  ultimately show ?thesis using assms(1) by (auto simp: tcp_info_mac_def)
qed

end
