(* ===== verification/Addr_Text.thy ===== *)
theory Addr_Text
  imports Banlist
begin

text \<open>
  Addresses as text: \<^verbatim>\<open>PeerAddr::parse\<close> of \<^verbatim>\<open>observer/src/addresses/peer_addr.rs\<close> and the text form of networks,
  \<^verbatim>\<open>IpNet::from_str\<close> and its \<^verbatim>\<open>Display\<close>, of \<^verbatim>\<open>banlist.rs\<close>. Both use the address parser of the standard library
  (\<^verbatim>\<open>core::net::parser\<close>), which is modelled here: a reader takes a string and gives a value with what is left, or \<open>None\<close> without
  having consumed anything.

  The lemmas show that what is printed is read back.
\<close>

section \<open>The parser of the standard library\<close>

text \<open>\<^verbatim>\<open>char::to_digit\<close>.\<close>

definition digit_val :: "nat \<Rightarrow> char \<Rightarrow> nat option" where
  "digit_val radix c =
     (let n = of_char c :: nat;
          d = (if 48 \<le> n \<and> n \<le> 57 then n - 48
               else if 97 \<le> n \<and> n \<le> 122 then n - 87
               else if 65 \<le> n \<and> n \<le> 90 then n - 55 else 36)
      in if d < radix then Some d else None)"

definition digits_val :: "nat \<Rightarrow> string \<Rightarrow> nat" where
  "digits_val radix ds = foldl (\<lambda>v c. v * radix + (case digit_val radix c of None \<Rightarrow> 0 | Some d \<Rightarrow> d)) 0 ds"

text \<open>
  A number of at most \<open>maxd\<close> digits, not above \<open>most\<close>, the largest value of its type. All the digits there are belong to it.
\<close>

definition read_number :: "nat \<Rightarrow> nat option \<Rightarrow> nat \<Rightarrow> bool \<Rightarrow> string \<Rightarrow> (nat \<times> string) option" where
  "read_number radix maxd most allow_zero_prefix s =
     (let ds = takeWhile (\<lambda>c. digit_val radix c \<noteq> None) s; v = digits_val radix ds in
      if ds = [] \<or> (case maxd of None \<Rightarrow> False | Some m \<Rightarrow> m < length ds)
         \<or> \<not> allow_zero_prefix \<and> hd ds = CHR ''0'' \<and> 1 < length ds \<or> most < v
      then None else Some (v, drop (length ds) s))"

definition read_given_char :: "char \<Rightarrow> string \<Rightarrow> string option" where
  "read_given_char c s = (case s of [] \<Rightarrow> None | x # xs \<Rightarrow> if x = c then Some xs else None)"

text \<open>A separator before every element but the first.\<close>

definition read_separator :: "char \<Rightarrow> nat \<Rightarrow> (string \<Rightarrow> ('a \<times> string) option) \<Rightarrow> string \<Rightarrow> ('a \<times> string) option" where
  "read_separator sep index inner s =
     (case (if 0 < index then read_given_char sep s else Some s) of None \<Rightarrow> None | Some s \<Rightarrow> inner s)"

fun read_octets :: "nat \<Rightarrow> nat \<Rightarrow> string \<Rightarrow> (u8 list \<times> string) option" where
  "read_octets 0 i s = Some ([], s)"
| "read_octets (Suc n) i s =
     (case read_separator (CHR ''.'') i (read_number 10 (Some 3) 255 False) s of
        None \<Rightarrow> None
      | Some (v, s) \<Rightarrow>
          (case read_octets n (i + 1) s of None \<Rightarrow> None | Some (vs, s) \<Rightarrow> Some (of_nat v # vs, s)))"

definition read_ipv4_addr :: "string \<Rightarrow> (u8 list \<times> string) option" where
  "read_ipv4_addr s = read_octets 4 0 s"

text \<open>
  \<open>left\<close> groups may still be read. An embedded IPv4 address takes two of them and ends the list.
\<close>

fun read_groups :: "nat \<Rightarrow> nat \<Rightarrow> string \<Rightarrow> nat list \<times> bool \<times> string" where
  "read_groups 0 i s = ([], False, s)"
| "read_groups (Suc left) i s =
     (case (if 0 < left then read_separator (CHR '':'') i read_ipv4_addr s else None) of
        Some (b, s) \<Rightarrow> (v6_segments b, True, s)
      | None \<Rightarrow>
          (case read_separator (CHR '':'') i (read_number 16 (Some 4) 65535 True) s of
             None \<Rightarrow> ([], False, s)
           | Some (g, s) \<Rightarrow> (let (gs, v4, s) = read_groups left (i + 1) s in (g # gs, v4, s))))"

definition read_colons :: "string \<Rightarrow> string option" where
  "read_colons s = Option.bind (read_given_char (CHR '':'') s) (read_given_char (CHR '':''))"

definition read_ipv6_groups :: "string \<Rightarrow> (nat list \<times> string) option" where
  "read_ipv6_groups s =
     (let (head, head_v4, s) = read_groups 8 0 s in
      if length head = 8 then Some (head, s)
      else if head_v4 then None
      else case read_colons s of
             None \<Rightarrow> None
           | Some s \<Rightarrow>
               (let (tail, _, s) = read_groups (8 - (length head + 1)) 0 s
                in Some (head @ replicate (8 - length head - length tail) 0 @ tail, s)))"

fun segment_octets :: "nat list \<Rightarrow> u8 list" where
  "segment_octets [] = []"
| "segment_octets (g # gs) = of_nat (g div 256) # of_nat (g mod 256) # segment_octets gs"

definition read_ipv6_addr :: "string \<Rightarrow> (u8 list \<times> string) option" where
  "read_ipv6_addr s = map_option (\<lambda>(gs, s). (segment_octets gs, s)) (read_ipv6_groups s)"

definition read_ip_addr :: "string \<Rightarrow> (ip_addr \<times> string) option" where
  "read_ip_addr s =
     (case read_ipv4_addr s of
        Some (b, s) \<Rightarrow> Some (V4 b, s)
      | None \<Rightarrow> map_option (\<lambda>(b, s). (V6 b, s)) (read_ipv6_addr s))"

definition read_port :: "string \<Rightarrow> (nat \<times> string) option" where
  "read_port s = Option.bind (read_given_char (CHR '':'') s) (read_number 10 None 65535 True)"

definition read_socket_addr_v4 :: "string \<Rightarrow> (sock_addr \<times> string) option" where
  "read_socket_addr_v4 s =
     (case read_ipv4_addr s of
        None \<Rightarrow> None
      | Some (b, s) \<Rightarrow>
          (case read_port s of None \<Rightarrow> None | Some (p, s) \<Rightarrow> Some (\<lparr>sa_ip = V4 b, sa_port = of_nat p\<rparr>, s)))"

text \<open>A scope may follow the address; it is dropped.\<close>

definition read_scope_id :: "string \<Rightarrow> string" where
  "read_scope_id s =
     (case Option.bind (read_given_char (CHR ''%'') s) (read_number 10 None (2 ^ 32 - 1) True) of
        None \<Rightarrow> s | Some (_, s) \<Rightarrow> s)"

definition read_socket_addr_v6 :: "string \<Rightarrow> (sock_addr \<times> string) option" where
  "read_socket_addr_v6 s =
     (case read_given_char (CHR ''['') s of
        None \<Rightarrow> None
      | Some s \<Rightarrow>
          (case read_ipv6_addr s of
             None \<Rightarrow> None
           | Some (b, s) \<Rightarrow>
               (case read_given_char (CHR '']'') (read_scope_id s) of
                  None \<Rightarrow> None
                | Some s \<Rightarrow>
                    (case read_port s of
                       None \<Rightarrow> None | Some (p, s) \<Rightarrow> Some (\<lparr>sa_ip = V6 b, sa_port = of_nat p\<rparr>, s)))))"

text \<open>The whole string has to be read.\<close>

definition whole :: "('a \<times> string) option \<Rightarrow> 'a option" where
  "whole r = (case r of Some (v, []) \<Rightarrow> Some v | _ \<Rightarrow> None)"

definition parse_ip_addr :: "string \<Rightarrow> ip_addr option" where
  "parse_ip_addr s = whole (read_ip_addr s)"

definition parse_socket_addr :: "string \<Rightarrow> sock_addr option" where
  "parse_socket_addr s =
     whole (case read_socket_addr_v4 s of Some r \<Rightarrow> Some r | None \<Rightarrow> read_socket_addr_v6 s)"

text \<open>\<^verbatim>\<open>str::parse\<close> for an unsigned integer: a plus sign is allowed.\<close>

definition parse_uint :: "nat \<Rightarrow> string \<Rightarrow> nat option" where
  "parse_uint most s =
     (let ds = (case s of c # cs \<Rightarrow> if c = CHR ''+'' \<and> cs \<noteq> [] then cs else s | [] \<Rightarrow> s) in
      if ds = [] \<or> \<not> list_all (\<lambda>c. digit_val 10 c \<noteq> None) ds \<or> most < digits_val 10 ds
      then None else Some (digits_val 10 ds))"

section \<open>Peer addresses\<close>

definition ascii_lower :: "char \<Rightarrow> char" where
  "ascii_lower c = (let n = of_char c :: nat in if 65 \<le> n \<and> n \<le> 90 then char_of (n + 32) else c)"

definition strip_prefix :: "string \<Rightarrow> string \<Rightarrow> string option" where
  "strip_prefix pre s = (if prefix pre s then Some (drop (length pre) s) else None)"

text \<open>\<^verbatim>\<open>rsplit_once\<close>: around the last occurrence. \<^verbatim>\<open>split_once\<close>: around the first.\<close>

definition rsplit_once :: "char \<Rightarrow> string \<Rightarrow> (string \<times> string) option" where
  "rsplit_once c s =
     (case dropWhile (\<lambda>x. x \<noteq> c) (rev s) of
        [] \<Rightarrow> None
      | _ # before \<Rightarrow> Some (rev before, rev (takeWhile (\<lambda>x. x \<noteq> c) (rev s))))"

definition split_once :: "char \<Rightarrow> string \<Rightarrow> (string \<times> string) option" where
  "split_once c s =
     (case dropWhile (\<lambda>x. x \<noteq> c) s of [] \<Rightarrow> None | _ # after \<Rightarrow> Some (takeWhile (\<lambda>x. x \<noteq> c) s, after))"

definition parse_i2p :: "string \<Rightarrow> u16 \<Rightarrow> peer_addr option" where
  "parse_i2p b32 p =
     (case base32_decode b32 of
        None \<Rightarrow> None | Some hash \<Rightarrow> if length hash = 32 then Some (I2p hash p) else None)"

definition peer_parse :: "(u8 list \<Rightarrow> u8 list) \<Rightarrow> string \<Rightarrow> peer_addr option" where
  "peer_parse sha3 s =
     (let lower = map ascii_lower s;
          plain = map_option from_socket_addr (parse_socket_addr lower) in
      case strip_prefix ''cjdns:'' lower of
        Some rest \<Rightarrow>
          (case parse_socket_addr rest of
             None \<Rightarrow> None
           | Some sa \<Rightarrow> (case sa_ip sa of V4 _ \<Rightarrow> None | V6 b \<Rightarrow> Some (Cjdns b (sa_port sa))))
      | None \<Rightarrow>
          (case rsplit_once (CHR '':'') lower of
             None \<Rightarrow> plain
           | Some (host, p) \<Rightarrow>
               (case parse_uint 65535 p of
                  None \<Rightarrow> plain
                | Some p \<Rightarrow>
                    (case strip_suffix ''.b32.i2p'' host of
                       Some b32 \<Rightarrow> parse_i2p b32 (of_nat p)
                     | None \<Rightarrow>
                         (if suffix ''.onion'' host
                          then map_option (\<lambda>key. TorV3 key (of_nat p)) (onion_key sha3 host)
                          else plain)))))"

section \<open>Networks\<close>

fun show_ip :: "ip_addr \<Rightarrow> string" where
  "show_ip (V4 b) = show_v4 b"
| "show_ip (V6 b) = show_v6 b"

definition show_net :: "ip_net \<Rightarrow> string" where
  "show_net n = show_ip (net_addr n) @ ''/'' @ show_dec (unat (net_prefix_len n))"

datatype net_error = InvalidAddress string | InvalidPrefix string | PrefixTooLong nat nat ip_addr

definition net_from_str :: "string \<Rightarrow> net_error + ip_net" where
  "net_from_str s =
     (let (addr_str, prefix_str) =
            (case split_once (CHR ''/'') s of Some (a, p) \<Rightarrow> (a, Some p) | None \<Rightarrow> (s, None)) in
      case parse_ip_addr addr_str of
        None \<Rightarrow> Inl (InvalidAddress addr_str)
      | Some addr \<Rightarrow>
          (let max_prefix = (case addr of V4 _ \<Rightarrow> 32 | V6 _ \<Rightarrow> 128) in
           case (case prefix_str of
                   Some p \<Rightarrow> (case parse_uint 255 p of None \<Rightarrow> Inl (InvalidPrefix p) | Some n \<Rightarrow> Inr n)
                 | None \<Rightarrow> Inr max_prefix) of
             Inl e \<Rightarrow> Inl e
           | Inr len \<Rightarrow>
               (if max_prefix < len then Inl (PrefixTooLong len max_prefix addr)
                else Inr \<lparr>net_addr = addr, net_prefix_len = of_nat len\<rparr>)))"

section \<open>Numbers are read back\<close>

lemma digits_checked:
  "\<forall>d \<in> set [0 ..< 16]. digit_val 10 (digit_char d) = (if d < 10 then Some d else None)"
  "\<forall>d \<in> set [0 ..< 16]. digit_val 16 (digit_char d) = Some d"
  "\<forall>d \<in> set [0 ..< 16]. (digit_char d = CHR ''0'') = (d = 0)"
  "\<forall>d \<in> set [0 ..< 16]. digit_char d \<in> set ''0123456789abcdef''"
  by code_simp+

lemma digit_char_facts:
  assumes "d < 16"
  shows "r \<in> {10, 16} \<Longrightarrow> digit_val r (digit_char d) = (if d < r then Some d else None)"
    "digit_char d = CHR ''0'' \<longleftrightarrow> d = 0" "digit_char d \<in> set ''0123456789abcdef''"
proof -
  have d: "d \<in> set [0 ..< 16]" using assms by simp
  show "r \<in> {10, 16} \<Longrightarrow> digit_val r (digit_char d) = (if d < r then Some d else None)"
    using digits_checked(1,2) [rule_format, OF d] assms by (elim insertE) simp_all
  show "digit_char d = CHR ''0'' \<longleftrightarrow> d = 0" "digit_char d \<in> set ''0123456789abcdef''"
    by (rule digits_checked(3,4) [rule_format, OF d])+
qed

definition hex_char :: "char \<Rightarrow> bool" where
  "hex_char c \<longleftrightarrow> c \<in> set ''0123456789abcdef''"

lemma digits_val_snoc: "digits_val r (ds @ [c]) = digits_val r ds * r + (case digit_val r c of None \<Rightarrow> 0 | Some d \<Rightarrow> d)"
  by (simp add: digits_val_def)

lemma show_radix_facts:
  assumes "r \<in> {10, 16}"
  shows "digits_val r (show_radix r n) = n" "\<forall>c \<in> set (show_radix r n). digit_val r c \<noteq> None \<and> hex_char c"
    "show_radix r n \<noteq> []" "hd (show_radix r n) = CHR ''0'' \<Longrightarrow> n = 0" "n < r ^ k \<Longrightarrow> 0 < k \<Longrightarrow> length (show_radix r n) \<le> k"
proof -
  have r: "2 \<le> r" "r \<le> 16" using assms by auto
  have "digits_val r (show_radix r n) = n \<and> (\<forall>c \<in> set (show_radix r n). digit_val r c \<noteq> None \<and> hex_char c)
      \<and> show_radix r n \<noteq> [] \<and> (hd (show_radix r n) = CHR ''0'' \<longrightarrow> n = 0)
      \<and> (\<forall>k. n < r ^ k \<longrightarrow> 0 < k \<longrightarrow> length (show_radix r n) \<le> k)"
  proof (induction n rule: less_induct)
    case (less n)
    show ?case
    proof (cases "n < r")
      case True
      then have "show_radix r n = [digit_char n]" by (simp add: show_radix.simps)
      with True r digit_char_facts [of n] assms show ?thesis
        by (auto simp: digits_val_def hex_char_def)
    next
      case False
      then have eq: "show_radix r n = show_radix r (n div r) @ [digit_char (n mod r)]" using r by (simp add: show_radix.simps [of r n])
      have "n mod r < r" using r by simp
      then have m: "n mod r < 16" using r by linarith
      have IH: "n div r < n" using False r by simp
      note \<open>n mod r < r\<close>
      moreover have "n div r \<noteq> 0" using False r by (simp add: div_eq_0_iff)
      moreover have "length (show_radix r (n div r)) \<le> k" if "n < r ^ Suc k" "0 < k" for k
        using less.IH [OF IH] that r by (simp add: less_mult_imp_div_less mult.commute)
      then have "length (show_radix r n) \<le> k" if "n < r ^ k" "0 < k" for k
        using that False by (cases k; cases "k = 1") (auto simp: eq)
      ultimately show ?thesis
        using less.IH [OF IH] digit_char_facts(1) [OF m assms] digit_char_facts(3) [OF m] r
        by (auto simp: eq digits_val_snoc hex_char_def)
    qed
  qed
  then show "digits_val r (show_radix r n) = n" "\<forall>c \<in> set (show_radix r n). digit_val r c \<noteq> None \<and> hex_char c"
    "show_radix r n \<noteq> []" "hd (show_radix r n) = CHR ''0'' \<Longrightarrow> n = 0" "n < r ^ k \<Longrightarrow> 0 < k \<Longrightarrow> length (show_radix r n) \<le> k"
    by auto
qed

text \<open>What may follow a number in radix \<open>r\<close>.\<close>

definition no_digit :: "nat \<Rightarrow> string \<Rightarrow> bool" where
  "no_digit r rest \<longleftrightarrow> (case rest of [] \<Rightarrow> True | c # _ \<Rightarrow> digit_val r c = None)"

lemma read_number_show:
  assumes "r \<in> {10, 16}" "no_digit r rest" "n \<le> most" "\<And>m. maxd = Some m \<Longrightarrow> n < r ^ m \<and> 0 < m"
  shows "read_number r maxd most z (show_radix r n @ rest) = Some (n, rest)"
proof -
  note f = show_radix_facts [OF assms(1), of n]
  have "takeWhile (\<lambda>c. digit_val r c \<noteq> None) (show_radix r n @ rest) = show_radix r n"
    using f(2) assms(2) by (cases rest) (auto simp: takeWhile_append no_digit_def)
  moreover have "length (show_radix r n) = 1" if "hd (show_radix r n) = CHR ''0''"
  proof -
    have "n = 0" by (rule f(4) [OF that])
    then show ?thesis using assms(1) by (auto simp: show_radix.simps)
  qed
  moreover have "length (show_radix r n) \<le> m" if "maxd = Some m" for m
    using f(5) assms(4) [OF that] by blast
  ultimately show ?thesis using f(1,3) assms(3)
    by (cases maxd) (auto simp: read_number_def Let_def not_less)
qed

lemma read_number_none: "no_digit r s \<Longrightarrow> read_number r maxd most z s = None"
  by (cases s) (simp_all add: read_number_def no_digit_def)

lemma parse_uint_show:
  assumes "n \<le> most"
  shows "parse_uint most (show_dec n) = Some n"
proof -
  note f = show_radix_facts [of 10 n]
  have "CHR ''+'' \<notin> set (show_dec n)" using f(2) by (force simp: hex_char_def)
  then have "(case show_dec n of c # cs \<Rightarrow> if c = CHR ''+'' \<and> cs \<noteq> [] then cs else show_dec n | [] \<Rightarrow> show_dec n) = show_dec n"
    by (auto split: list.splits)
  then show ?thesis using f(1-3) assms by (simp add: parse_uint_def Let_def list_all_iff)
qed

end
