(* ===== verification/Addr_Readback.thy ===== *)
theory Addr_Readback
  imports Addr_Text
begin

text \<open>
  \<^verbatim>\<open>PeerAddr::parse\<close> reads back what \<^verbatim>\<open>Display\<close> prints, as its comment promises, and \<^verbatim>\<open>IpNet::from_str\<close> what the \<^verbatim>\<open>Display\<close>
  of a network prints. The lemmas go up the readers of \<open>Addr_Text\<close>: octets, groups, addresses, socket addresses.
\<close>

section \<open>IPv4\<close>

lemma read_given_char_simps [simp]:
  "read_given_char c [] = None" "read_given_char c (x # xs) = (if x = c then Some xs else None)"
  by (simp_all add: read_given_char_def)

lemma separators_no_digit:
  "digit_val 10 (CHR ''.'') = None" "digit_val 16 (CHR '':'') = None" "digit_val 10 (CHR '':'') = None"
  "digit_val 16 (CHR '']'') = None" "digit_val 10 (CHR ''['') = None" "digit_val 16 (CHR ''/'') = None"
  by code_simp+

lemma no_digit_simps [simp]: "no_digit r []" "no_digit r (c # s) \<longleftrightarrow> digit_val r c = None"
  by (simp_all add: no_digit_def)

lemma read_octet:
  fixes x :: u8
  assumes "no_digit 10 rest"
  shows "read_number 10 (Some 3) 255 False (show_dec (unat x) @ rest) = Some (unat x, rest)"
proof -
  have "unat x < 256" using unsigned_less [of x] by simp
  then show ?thesis using assms by (intro read_number_show) auto
qed

lemma read_octets_show:
  "b \<noteq> [] \<Longrightarrow> no_digit 10 rest \<Longrightarrow>
     read_octets (length b) i ((if 0 < i then ''.'' else []) @ show_v4 b @ rest) = Some (b, rest)"
proof (induction b arbitrary: i)
  case (Cons x b)
  show ?case
  proof (cases b)
    case Nil
    with Cons.prems read_octet [of rest x] show ?thesis by (simp add: show_v4_def read_separator_def)
  next
    case (Cons y ys)
    then have eq: "show_v4 (x # b) = show_dec (unat x) @ ''.'' @ show_v4 b" by (simp add: show_v4_def)
    have "read_octets (length b) (i + 1) (''.'' @ show_v4 b @ rest) = Some (b, rest)"
      using Cons.IH [of "i + 1"] Cons.prems Cons by simp
    with read_octet [of "''.'' @ show_v4 b @ rest" x] show ?thesis
      by (cases "i = 0") (simp_all add: eq read_separator_def separators_no_digit)
  qed
qed simp

lemma read_ipv4_show: "length b = 4 \<Longrightarrow> no_digit 10 rest \<Longrightarrow> read_ipv4_addr (show_v4 b @ rest) = Some (b, rest)"
  using read_octets_show [of b rest 0] by (cases b) (auto simp: read_ipv4_addr_def)

text \<open>The trial of an IPv4 address fails unless a point follows the first digits.\<close>

lemma read_ipv4_none:
  assumes "case dropWhile (\<lambda>c. digit_val 10 c \<noteq> None) s of [] \<Rightarrow> True | c # _ \<Rightarrow> c \<noteq> CHR ''.''"
  shows "read_ipv4_addr s = None"
proof -
  have "rest = dropWhile (\<lambda>c. digit_val 10 c \<noteq> None) s" if "read_number 10 (Some 3) 255 False s = Some (v, rest)" for v rest
    using that by (auto simp: read_number_def Let_def dropWhile_eq_drop split: if_splits)
  then show ?thesis using assms
    by (auto simp: read_ipv4_addr_def eval_nat_numeral read_separator_def split: option.splits list.splits)
qed

lemma dropWhile_Cons_mem: "dropWhile P s = c # cs \<Longrightarrow> c \<in> set s"
  using set_dropWhileD [of c P s] by simp

lemma read_ipv4_no_point: "CHR ''.'' \<notin> set s \<Longrightarrow> read_ipv4_addr s = None"
  by (rule read_ipv4_none) (auto split: list.split dest: dropWhile_Cons_mem)

section \<open>Groups\<close>

text \<open>What may follow the groups of an address: neither a point, nor a digit, nor a colon with a digit behind it.\<close>

fun stops :: "string \<Rightarrow> bool" where
  "stops [] = True"
| "stops (c # cs) = (c \<noteq> CHR ''.'' \<and> digit_val 16 c = None \<and> (c = CHR '':'' \<longrightarrow> no_digit 16 cs))"

lemma no_digit_16: "no_digit 16 s \<Longrightarrow> no_digit 10 s"
  by (cases s) (auto simp: digit_val_def Let_def split: if_splits)

lemma read_ipv4_not_digit: "no_digit 16 s \<Longrightarrow> read_ipv4_addr s = None"
  using no_digit_16 [of s] read_number_none [of 10 s]
  by (simp add: read_ipv4_addr_def eval_nat_numeral read_separator_def)

lemma read_groups_stops:
  assumes "stops rest"
  shows "read_groups left i rest = ([], False, rest)"
proof -
  have inner: "read_separator (CHR '':'') i read_ipv4_addr rest = None"
    "read_separator (CHR '':'') i (read_number 16 (Some 4) 65535 True) rest = None"
    using assms read_ipv4_not_digit read_number_none [of 16]
    by (cases rest; auto simp: read_separator_def)+
  show ?thesis by (cases left) (simp_all add: inner)
qed

text \<open>One turn of the loop, \<open>t\<close> being what follows the separator.\<close>

lemma read_groups_step:
  assumes "(if 0 < i then read_given_char (CHR '':'') s else Some s) = Some t"
  shows "0 < l \<Longrightarrow> read_ipv4_addr t = Some (b, u) \<Longrightarrow> read_groups (Suc l) i s = (v6_segments b, True, u)"
    "read_ipv4_addr t = None \<Longrightarrow> read_number 16 (Some 4) 65535 True t = Some (g, u) \<Longrightarrow>
       read_groups l (i + 1) u = (gs, v4, w) \<Longrightarrow> read_groups (Suc l) i s = (g # gs, v4, w)"
  using assms by (auto simp: read_separator_def)

lemma read_groups_show:
  "\<forall>g \<in> set gs. g < 65536 \<Longrightarrow> length gs \<le> left \<Longrightarrow> stops rest \<Longrightarrow>
     read_groups left i ((if 0 < i \<and> gs \<noteq> [] then '':'' else []) @ show_groups gs @ rest) = (gs, False, rest)"
proof (induction gs arbitrary: left i)
  case Nil
  then show ?case by (simp add: read_groups_stops show_groups_def)
next
  case (Cons g gs)
  then obtain l where l: "left = Suc l" by (cases left) auto
  define more where "more = (if gs \<noteq> [] then '':'' else []) @ show_groups gs @ rest"
  have eq: "show_groups (g # gs) @ rest = show_hex g @ more"
    by (cases gs) (simp_all add: more_def show_groups_def)
  have IH: "read_groups l (i + 1) more = (gs, False, rest)"
    using Cons.IH [of l "i + 1"] Cons.prems l by (simp add: more_def)
  have m: "no_digit 16 more" "case more of [] \<Rightarrow> True | c # _ \<Rightarrow> c \<noteq> CHR ''.''"
    using Cons.prems(3) by (cases rest; cases "gs = []"; simp add: more_def show_groups_def separators_no_digit)+
  have v4: "read_ipv4_addr (show_hex g @ more) = None"
  proof (rule read_ipv4_none)
    have "CHR ''.'' \<notin> set (show_hex g)" using show_radix_facts(2) [of 16 g] by (force simp: hex_char_def)
    then show "case dropWhile (\<lambda>c. digit_val 10 c \<noteq> None) (show_hex g @ more) of [] \<Rightarrow> True | c # _ \<Rightarrow> c \<noteq> CHR ''.''"
      using m no_digit_16 [OF m(1)]
      by (cases more) (auto simp: dropWhile_append append_eq_Cons_conv Cons_eq_append_conv split: list.splits dest: dropWhile_Cons_mem)
  qed
  have num: "read_number 16 (Some 4) 65535 True (show_hex g @ more) = Some (g, more)"
    using Cons.prems(1) m(1) by (intro read_number_show) auto
  show ?case unfolding l eq by (rule read_groups_step(2) [OF _ v4 num IH]) simp
qed


section \<open>IPv6\<close>

lemma v6_segments_facts:
  assumes "even (length b)"
  shows "length (v6_segments b) = length b div 2" "\<forall>g \<in> set (v6_segments b). g < 65536"
    "segment_octets (v6_segments b) = b"
proof -
  have "length (v6_segments b) = length b div 2 \<and> (\<forall>g \<in> set (v6_segments b). g < 65536) \<and> segment_octets (v6_segments b) = b"
    using assms
  proof (induction b rule: v6_segments.induct)
    case (1 hi lo bs)
    have "unat lo < 256" "unat hi < 256" using unsigned_less [of lo] unsigned_less [of hi] by simp_all
    with 1 show ?case by (simp add: div_mult_self4)
  qed auto
  then show "length (v6_segments b) = length b div 2" "\<forall>g \<in> set (v6_segments b). g < 65536"
    "segment_octets (v6_segments b) = b" by simp_all
qed

lemma segment_octets_append: "segment_octets (gs @ hs) = segment_octets gs @ segment_octets hs"
  by (induction gs) auto

lemma segment_octets_zeros: "segment_octets (replicate n 0) = replicate (2 * n) 0"
  by (induction n) auto

text \<open>The run of zero segments: what the loop keeps of the current and of the best run.\<close>

definition zero_run :: "nat list \<Rightarrow> nat \<times> nat \<Rightarrow> bool" where
  "zero_run ys r \<longleftrightarrow> fst r + snd r \<le> length ys \<and> (\<forall>j. fst r \<le> j \<and> j < fst r + snd r \<longrightarrow> ys ! j = 0)"

lemma zero_run_extend: "zero_run pre r \<Longrightarrow> zero_run (pre @ xs) r"
  by (auto simp: zero_run_def nth_append)

lemma zero_span_run:
  "zero_run pre (bs, bl) \<Longrightarrow> zero_run pre (cs, cl) \<Longrightarrow> (0 < cl \<longrightarrow> cs + cl = length pre) \<Longrightarrow>
     zero_run (pre @ xs) (zero_span (length pre) (cs, cl) (bs, bl) xs)"
proof (induction xs arbitrary: pre cs cl bs bl)
  case (Cons x xs)
  define cur where "cur = (if cl = 0 then length pre else cs, cl + 1)"
  have ext: "zero_run (pre @ [x]) (bs, bl)" "zero_run (pre @ [x]) (0, 0)"
    by (rule zero_run_extend [OF Cons.prems(1)]) (simp add: zero_run_def)
  have cur: "zero_run (pre @ [x]) cur" "fst cur + snd cur = length (pre @ [x])" if "x = 0"
    using Cons.prems(2,3) that by (auto simp: cur_def zero_run_def nth_append less_Suc_eq)
  have "zero_run ((pre @ [x]) @ xs) (zero_span (length (pre @ [x])) cur (if bl < snd cur then cur else (bs, bl)) xs)" if "x = 0"
    using Cons.IH [of "pre @ [x]" "fst (if bl < snd cur then cur else (bs, bl))" "snd (if bl < snd cur then cur else (bs, bl))" "fst cur" "snd cur"]
      cur [OF that] ext by simp
  moreover have "zero_run ((pre @ [x]) @ xs) (zero_span (length (pre @ [x])) (0, 0) (bs, bl) xs)"
    by (rule Cons.IH) (use ext in auto)
  ultimately show ?case by (auto simp: cur_def Let_def)
qed simp

lemma zero_run_split:
  assumes "zero_run ys (start, len)"
  shows "ys = take start ys @ replicate len 0 @ drop (start + len) ys"
proof (rule nth_equalityI)
  show "length ys = length (take start ys @ replicate len 0 @ drop (start + len) ys)"
    using assms by (simp add: zero_run_def)
  show "ys ! j = (take start ys @ replicate len 0 @ drop (start + len) ys) ! j" if "j < length ys" for j
    using assms that by (auto simp: zero_run_def nth_append min_def)
qed

lemma read_groups_all:
  assumes "length gs = 8" "\<forall>g \<in> set gs. g < 65536" "stops rest"
  shows "read_ipv6_groups (show_groups gs @ rest) = Some (gs, rest)"
  using read_groups_show [OF assms(2) _ assms(3), of 8 0] assms(1) by (simp add: read_ipv6_groups_def)

lemma stops_colons: "stops (''::'' @ s)"
  by (simp add: separators_no_digit)

lemma read_groups_compressed:
  assumes "length hs + len + length ts = 8" "1 < len" "\<forall>g \<in> set hs \<union> set ts. g < 65536" "stops rest"
  shows "read_ipv6_groups (show_groups hs @ ''::'' @ show_groups ts @ rest) = Some (hs @ replicate len 0 @ ts, rest)"
proof -
  have "read_groups 8 0 (show_groups hs @ ''::'' @ show_groups ts @ rest) = (hs, False, ''::'' @ show_groups ts @ rest)"
    using read_groups_show [OF _ _ stops_colons, of hs 8 0] assms by simp
  moreover have "read_groups (8 - (length hs + 1)) 0 (show_groups ts @ rest) = (ts, False, rest)"
    using read_groups_show [OF _ _ assms(4), of ts "8 - (length hs + 1)" 0] assms by simp
  moreover have "8 - length hs - length ts = len" "length hs \<noteq> 8" using assms by simp_all
  ultimately show ?thesis by (simp add: read_ipv6_groups_def read_colons_def)
qed

lemma read_groups_mapped:
  assumes "length b = 4" "no_digit 10 rest"
  shows "read_ipv6_groups (''::ffff:'' @ show_v4 b @ rest) = Some (replicate 5 0 @ 65535 # v6_segments b, rest)"
proof -
  let ?s = "show_v4 b @ rest"
  have "read_groups 8 0 (''::ffff:'' @ ?s) = ([], False, ''::ffff:'' @ ?s)"
    using read_groups_stops [OF stops_colons, of 8 0 "''ffff:'' @ ?s"] by simp
  moreover have "read_groups 7 0 (''ffff:'' @ ?s) = (65535 # v6_segments b, True, rest)"
  proof -
    have hex: "show_hex 65535 = ''ffff''" by (simp add: show_radix.simps digit_char_def)
    have num: "read_number 16 (Some 4) 65535 True (''ffff'' @ '':'' @ ?s) = Some (65535, '':'' @ ?s)"
      unfolding hex [symmetric] by (rule read_number_show) (simp_all add: separators_no_digit)
    have "digit_val 10 (CHR ''f'') = None" by code_simp
    then have v4: "read_ipv4_addr (''ffff'' @ '':'' @ ?s) = None" by (intro read_ipv4_none) simp
    have tail: "read_groups (Suc 5) (0 + 1) ('':'' @ ?s) = (v6_segments b, True, rest)"
      by (rule read_groups_step(1) [OF _ _ read_ipv4_show [OF assms]]) simp_all
    have "read_groups (Suc (Suc 5)) 0 (''ffff'' @ '':'' @ ?s) = (65535 # v6_segments b, True, rest)"
      by (rule read_groups_step(2) [OF _ v4 num tail]) simp
    then show ?thesis by simp
  qed
  moreover have "length (v6_segments b) = 2" using v6_segments_facts(1) [of b] assms by simp
  ultimately show ?thesis by (simp add: read_ipv6_groups_def read_colons_def)
qed

lemma read_ipv6_show:
  assumes "length b = 16" "stops rest" "no_digit 10 rest"
  shows "read_ipv6_addr (show_v6 b @ rest) = Some (b, rest)"
proof -
  note f = v6_segments_facts [of b, simplified assms(1), simplified]
  show ?thesis
  proof (cases "to_ipv4_mapped b")
    case (Some v4)
    then have v4: "length v4 = 4" "b = replicate 10 0 @ [0xff, 0xff] @ v4"
      using assms(1) append_take_drop_id [of 12 b] by (auto simp: to_ipv4_mapped_def simp del: append_take_drop_id split: if_splits)
    have "read_ipv6_groups (show_v6 b @ rest) = Some (replicate 5 0 @ 65535 # v6_segments v4, rest)"
      using read_groups_mapped [OF v4(1) assms(3)] Some by (simp add: show_v6_def)
    then show ?thesis using v6_segments_facts(3) [of v4] v4
      by (simp add: read_ipv6_addr_def segment_octets_append segment_octets_zeros)
  next
    case None
    obtain start len where span: "zero_span 0 (0, 0) (0, 0) (v6_segments b) = (start, len)" by force
    have run: "zero_run (v6_segments b) (start, len)"
      using zero_span_run [of "[]" 0 0 0 0 "v6_segments b"] span by (simp add: zero_run_def)
    have "read_ipv6_groups (show_v6 b @ rest) = Some (v6_segments b, rest)"
    proof (cases "1 < len")
      case True
      have "\<forall>g \<in> set (take start (v6_segments b)) \<union> set (drop (start + len) (v6_segments b)). g < 65536"
        using f(2) by (auto dest: in_set_takeD in_set_dropD)
      then have "read_ipv6_groups (show_v6 b @ rest) = Some (take start (v6_segments b) @ replicate len 0 @ drop (start + len) (v6_segments b), rest)"
        using read_groups_compressed [of "take start (v6_segments b)" len "drop (start + len) (v6_segments b)" rest]
          run f(1) True None span assms(2) by (simp add: show_v6_def zero_run_def Let_def)
      then show ?thesis using zero_run_split [OF run] by simp
    next
      case False
      then show ?thesis using read_groups_all [OF f(1,2) assms(2)] None span by (simp add: show_v6_def)
    qed
    then show ?thesis using f(3) by (simp add: read_ipv6_addr_def)
  qed
qed


section \<open>The characters of a printed address\<close>

definition addr_char :: "char \<Rightarrow> bool" where
  "addr_char c \<longleftrightarrow> c \<in> set ''0123456789abcdef.:''"

lemma hex_char_addr: "hex_char c \<Longrightarrow> addr_char c"
  by (auto simp: hex_char_def addr_char_def)

lemma show_radix_chars: "r \<in> {10, 16} \<Longrightarrow> list_all hex_char (show_radix r n)"
  using show_radix_facts(2) [of r n] by (simp add: list_all_iff)

lemma join_chars: "list_all P sep \<Longrightarrow> list_all (list_all P) xs \<Longrightarrow> list_all P (join sep xs)"
  by (induction sep xs rule: join.induct) auto

lemma join_last:
  "xs \<noteq> [] \<Longrightarrow> list_all (\<lambda>x. x \<noteq> [] \<and> P (last x)) xs \<Longrightarrow> join sep xs \<noteq> [] \<and> P (last (join sep xs))"
  by (induction sep xs rule: join.induct) auto

lemma join_hd: "list_all (\<lambda>x. x \<noteq> [] \<and> P (hd x)) xs \<Longrightarrow> xs \<noteq> [] \<Longrightarrow> P (hd (join sep xs))"
  by (induction sep xs rule: join.induct) auto

lemma list_all_mono': "list_all P xs \<Longrightarrow> (\<And>x. P x \<Longrightarrow> Q x) \<Longrightarrow> list_all Q xs"
  by (simp add: list_all_iff)

lemma show_radix_addr: "r \<in> {10, 16} \<Longrightarrow> list_all addr_char (show_radix r n)"
  using show_radix_chars hex_char_addr list_all_mono' by blast

lemma show_v4_chars: "list_all addr_char (show_v4 b)"
  unfolding show_v4_def
  by (rule join_chars) (simp_all add: addr_char_def [of "CHR ''.''"] list_all_iff [where P = "list_all addr_char"] show_radix_addr)

lemma show_groups_chars: "list_all (\<lambda>c. hex_char c \<or> c = CHR '':'') (show_groups gs)"
  unfolding show_groups_def
  by (rule join_chars) (auto simp: list_all_iff [where P = "list_all _"] intro: list_all_mono' [OF show_radix_chars])

lemma show_v6_no_mapped: "to_ipv4_mapped b = None \<Longrightarrow> list_all (\<lambda>c. hex_char c \<or> c = CHR '':'') (show_v6 b)"
  by (simp add: show_v6_def Let_def show_groups_chars split: prod.splits)

lemma show_v6_chars: "list_all addr_char (show_v6 b)"
proof (cases "to_ipv4_mapped b")
  case None
  have "addr_char (CHR '':'')" by (simp add: addr_char_def)
  with show_v6_no_mapped [OF None] show ?thesis by (auto intro: list_all_mono' hex_char_addr)
next
  case (Some v4)
  have "list_all addr_char ''::ffff:''" by (simp add: addr_char_def)
  with Some show_v4_chars show ?thesis by (simp add: show_v6_def)
qed

lemma addr_chars_checked:
  "\<forall>c \<in> set ''0123456789abcdef.:''. ascii_lower c = c \<and> c \<noteq> CHR ''/'' \<and> c \<noteq> CHR ''n'' \<and> c \<noteq> CHR ''p''"
  by code_simp

lemma addr_char_facts: "addr_char c \<Longrightarrow> ascii_lower c = c \<and> c \<noteq> CHR ''/'' \<and> c \<noteq> CHR ''n'' \<and> c \<noteq> CHR ''p''"
  unfolding addr_char_def by (rule addr_chars_checked [rule_format])

lemma lower_addr: "list_all addr_char s \<Longrightarrow> map ascii_lower s = s"
  using addr_char_facts by (induction s) auto

lemma lower_b32: "b32_valid s \<Longrightarrow> map ascii_lower s = s"
proof (induction s)
  case (Cons c s)
  have "(of_char c :: nat) < 256" by simp
  then have "\<not> (65 \<le> (of_char c :: nat) \<and> (of_char c :: nat) \<le> 90)" if "b32_value c \<noteq> None"
    using that by (auto simp: b32_value_def Let_def word_le_nat_alt unat_of_nat split: if_splits)
  with Cons show ?case by (auto simp: ascii_lower_def Let_def simp del: not_None_eq)
qed simp


section \<open>Socket addresses\<close>

lemma colon_not_dec: "CHR '':'' \<notin> set (show_dec n)"
  using show_radix_facts(2) [of 10 n] by (force simp: hex_char_def)

lemma rsplit_once_last: "c \<notin> set p \<Longrightarrow> rsplit_once c (h @ c # p) = Some (h, p)"
  by (simp add: rsplit_once_def takeWhile_append dropWhile_append)

lemma split_once_first: "c \<notin> set a \<Longrightarrow> split_once c (a @ c # p) = Some (a, p)"
  by (simp add: split_once_def takeWhile_append dropWhile_append)

lemma port_bound: "unat (p :: u16) \<le> 65535"
proof -
  have "unat p < 65536" using unsigned_less [of p] by simp
  then show ?thesis by linarith
qed

lemma read_port_show:
  fixes p :: u16
  shows "read_port ('':'' @ show_dec (unat p)) = Some (unat p, [])"
proof -
  show ?thesis using port_bound [of p] read_number_show [of 10 "[]" "unat p" 65535 None True] by (simp add: read_port_def)
qed

lemma parse_port:
  fixes p :: u16
  shows "parse_uint 65535 (show_dec (unat p)) = Some (unat p)"
  by (rule parse_uint_show) (rule port_bound)

lemma parse_v4_socket:
  assumes "length b = 4"
  shows "parse_socket_addr (show_v4 b @ '':'' @ show_dec (unat p)) = Some \<lparr>sa_ip = V4 b, sa_port = p\<rparr>"
  using read_ipv4_show [OF assms, of "'':'' @ show_dec (unat p)"] read_port_show [of p]
  by (simp add: parse_socket_addr_def whole_def read_socket_addr_v4_def separators_no_digit)

lemma parse_v6_socket:
  assumes "length b = 16"
  shows "parse_socket_addr (''['' @ show_v6 b @ '']:'' @ show_dec (unat p)) = Some \<lparr>sa_ip = V6 b, sa_port = p\<rparr>"
proof -
  have "digit_val 10 (CHR '']'') = None" by code_simp
  then have "read_ipv6_addr (show_v6 b @ '']:'' @ show_dec (unat p)) = Some (b, '']:'' @ show_dec (unat p))"
    using assms by (intro read_ipv6_show) (simp_all add: separators_no_digit)
  moreover have "read_ipv4_addr (''['' @ s) = None" for s
    by (rule read_ipv4_none) (simp add: separators_no_digit)
  ultimately show ?thesis using read_port_show [of p]
    by (simp add: parse_socket_addr_def whole_def read_socket_addr_v4_def read_socket_addr_v6_def read_scope_id_def)
qed

text \<open>What \<^verbatim>\<open>parse\<close> does with a lower-case host, a colon and a port.\<close>

lemma peer_parse_host:
  fixes p :: u16
  assumes "map ascii_lower host = host" "\<not> prefix ''cjdns:'' (host @ '':'' @ show_dec (unat p))"
  shows "peer_parse sha3 (host @ '':'' @ show_dec (unat p)) =
    (case strip_suffix ''.b32.i2p'' host of
       Some b32 \<Rightarrow> parse_i2p b32 p
     | None \<Rightarrow> if suffix ''.onion'' host then map_option (\<lambda>key. TorV3 key p) (onion_key sha3 host)
               else map_option from_socket_addr (parse_socket_addr (host @ '':'' @ show_dec (unat p))))"
proof -
  have "map ascii_lower (host @ '':'' @ show_dec (unat p)) = host @ '':'' @ show_dec (unat p)"
    using assms(1) lower_addr [OF show_radix_addr [of 10 "unat p"]] by (simp add: ascii_lower_def)
  then show ?thesis
    using assms(2) rsplit_once_last [OF colon_not_dec, of host "unat p"] parse_port [of p]
    by (simp add: peer_parse_def Let_def strip_prefix_def split: option.splits)
qed

lemma not_suffix_last: "host \<noteq> [] \<Longrightarrow> last host \<noteq> last suf \<Longrightarrow> suf \<noteq> [] \<Longrightarrow> \<not> suffix suf host"
  by (auto simp: suffix_def)

lemma peer_parse_socket:
  fixes p :: u16
  assumes "map ascii_lower host = host" "\<not> prefix ''cjdns:'' (host @ '':'' @ show_dec (unat p))"
    "host \<noteq> []" "last host \<noteq> CHR ''n''" "last host \<noteq> CHR ''p''"
    "parse_socket_addr (host @ '':'' @ show_dec (unat p)) = Some sa"
  shows "peer_parse sha3 (host @ '':'' @ show_dec (unat p)) = Some (from_socket_addr sa)"
  using peer_parse_host [OF assms(1,2)] not_suffix_last [OF assms(3)] assms(4-6)
  by (simp add: strip_suffix_def)

lemma show_v4_ends:
  assumes "b \<noteq> []"
  shows "show_v4 b \<noteq> []" "hex_char (last (show_v4 b))" "digit_val 10 (hd (show_v4 b)) \<noteq> None"
proof -
  have "list_all (\<lambda>x. x \<noteq> [] \<and> hex_char (last x)) (map (\<lambda>x. show_dec (unat x)) b)"
    "list_all (\<lambda>x. x \<noteq> [] \<and> digit_val 10 (hd x) \<noteq> None) (map (\<lambda>x. show_dec (unat x)) b)"
    using show_radix_facts(2,3) [of 10] by (auto simp: list_all_iff) (metis hd_in_set last_in_set)+
  then show "show_v4 b \<noteq> []" "hex_char (last (show_v4 b))" "digit_val 10 (hd (show_v4 b)) \<noteq> None"
    unfolding show_v4_def using assms join_last [of "map (\<lambda>x. show_dec (unat x)) b" hex_char]
      join_hd [of "\<lambda>c. digit_val 10 c \<noteq> None" "map (\<lambda>x. show_dec (unat x)) b"] by auto
qed


lemma b32_hosts:
  fixes p :: u16
  assumes "5 < length (base32_encode bs)" "map ascii_lower suf = suf"
  shows "\<not> prefix ''cjdns:'' ((base32_encode bs @ suf) @ '':'' @ show_dec (unat p))"
    "map ascii_lower (base32_encode bs @ suf) = base32_encode bs @ suf"
proof -
  have v: "b32_valid (base32_encode bs)" by (rule base32_encode_bits)
  have "base32_encode bs ! 5 \<in> set (base32_encode bs)" using assms(1) by simp
  moreover have "b32_value (CHR '':'') = None" by code_simp
  ultimately have "base32_encode bs ! 5 \<noteq> CHR '':''" using v by (auto simp: b32_valid_def)
  moreover have "base32_encode bs ! 5 = CHR '':''" if "prefix ''cjdns:'' ((base32_encode bs @ suf) @ '':'' @ show_dec (unat p))"
  proof -
    from that obtain zs where z: "(base32_encode bs @ suf) @ '':'' @ show_dec (unat p) = ''cjdns:'' @ zs"
      unfolding prefix_def by blast
    have "((base32_encode bs @ suf) @ '':'' @ show_dec (unat p)) ! 5 = CHR '':''" unfolding z by simp
    then show ?thesis using assms(1) by (simp add: nth_append)
  qed
  ultimately show "\<not> prefix ''cjdns:'' ((base32_encode bs @ suf) @ '':'' @ show_dec (unat p))" by blast
  show "map ascii_lower (base32_encode bs @ suf) = base32_encode bs @ suf"
    using lower_b32 [OF v] assms(2) by simp
qed

section \<open>Every printed address is read back\<close>

lemma read_back_v4:
  assumes "length b = 4"
  shows "peer_parse sha3 (display sha3 (Ipv4 b p)) = Some (Ipv4 b p)"
proof -
  have b: "b \<noteq> []" using assms by auto
  note e = show_v4_ends [OF b]
  have "digit_val 10 (CHR ''c'') = None" by code_simp
  then have "hd (show_v4 b) \<noteq> CHR ''c''" using e(3) by auto
  then have "\<not> prefix ''cjdns:'' (show_v4 b @ '':'' @ show_dec (unat p))" using e(1) by (cases "show_v4 b") auto
  then show ?thesis
    using peer_parse_socket [OF lower_addr [OF show_v4_chars] _ e(1) _ _ parse_v4_socket [OF assms], of p sha3]
      addr_char_facts [OF hex_char_addr [OF e(2)]] by (simp add: from_socket_addr_def)
qed

lemma read_back_v6:
  assumes "length b = 16" "normal_addr (Ipv6 b p)"
  shows "peer_parse sha3 (display sha3 (Ipv6 b p)) = Some (Ipv6 b p)"
proof -
  have "map ascii_lower (''['' @ show_v6 b @ '']'') = ''['' @ show_v6 b @ '']''"
    using lower_addr [OF show_v6_chars [of b]] by (simp add: ascii_lower_def)
  from peer_parse_socket [OF this, of p _ sha3] parse_v6_socket [OF assms(1), of p] assms(2) show ?thesis
    by (simp add: from_socket_addr_def)
qed

lemma read_back_cjdns:
  assumes "length b = 16"
  shows "peer_parse sha3 (display sha3 (Cjdns b p)) = Some (Cjdns b p)"
proof -
  have "map ascii_lower (''cjdns:['' @ show_v6 b @ '']:'' @ show_dec (unat p)) = ''cjdns:['' @ show_v6 b @ '']:'' @ show_dec (unat p)"
    using lower_addr [OF show_v6_chars [of b]] lower_addr [OF show_radix_addr [of 10 "unat p"]] by (simp add: ascii_lower_def)
  then show ?thesis using parse_v6_socket [OF assms, of p]
    by (simp add: peer_parse_def Let_def strip_prefix_def)
qed

lemma read_back_i2p:
  assumes "length h = 32"
  shows "peer_parse sha3 (display sha3 (I2p h p)) = Some (I2p h p)"
proof -
  have "5 < length (base32_encode h)" using base32_encode_length [of h] assms by simp
  moreover have "map ascii_lower ''.b32.i2p'' = ''.b32.i2p''" by code_simp
  ultimately show ?thesis
    using peer_parse_host [OF b32_hosts(2,1), of h "''.b32.i2p''" sha3 p] base32_roundtrip [of h] assms
    by (simp add: parse_i2p_def del: append_assoc) simp
qed

lemma read_back_onion:
  assumes "length key = 32" "\<And>x. length (sha3 x) = 32"
  shows "peer_parse sha3 (display sha3 (TorV3 key p)) = Some (TorV3 key p)"
proof -
  define raw where "raw = key @ take 2 (sha3 (ascii_bytes ''.onion checksum'' @ key @ [3])) @ [3]"
  have host: "onion_host sha3 key = base32_encode raw @ ''.onion''" by (simp add: onion_host_def raw_def Let_def)
  have "length raw = 35" using assms by (simp add: raw_def)
  then have "5 < length (base32_encode raw)" using base32_encode_length [of raw] by simp
  moreover have "map ascii_lower ''.onion'' = ''.onion''" by code_simp
  moreover have "\<not> suffix ''.b32.i2p'' (base32_encode raw @ ''.onion'')" by (rule not_suffix_last) simp_all
  ultimately show ?thesis
    using peer_parse_host [OF b32_hosts(2,1), of raw "''.onion''" sha3 p] onion_key_onion_host [of key sha3] assms
    by (simp add: host strip_suffix_def suffix_def del: append_assoc) 
qed


lemma read_back:
  assumes "wf_peer_addr a" "normal_addr a" "\<And>x. length (sha3 x) = 32"
  shows "peer_parse sha3 (display sha3 a) = Some a"
  using assms read_back_v4 read_back_v6 read_back_cjdns read_back_i2p read_back_onion by (cases a) auto

section \<open>What a parser accepts is well formed\<close>

lemma read_octets_length: "read_octets n i s = Some (b, rest) \<Longrightarrow> length b = n"
  by (induction n arbitrary: i s b) (auto split: option.splits)

lemma read_ipv4_length: "read_ipv4_addr s = Some (b, rest) \<Longrightarrow> length b = 4"
  by (simp add: read_ipv4_addr_def read_octets_length)

lemma read_groups_length: "read_groups left i s = (gs, v4, rest) \<Longrightarrow> length gs \<le> left"
proof (induction left i s arbitrary: gs rule: read_groups.induct)
  case (2 left i s)
  have "length (v6_segments b) = 2" if "read_separator (CHR '':'') i read_ipv4_addr s = Some (b, u)" for b u
    using that v6_segments_facts(1) [of b] read_ipv4_length by (auto simp: read_separator_def split: option.splits)
  with 2 show ?case by (auto split: option.splits if_splits prod.splits)
qed simp

lemma segment_octets_length: "length (segment_octets gs) = 2 * length gs"
  by (induction gs) auto

lemma read_ipv6_length:
  assumes "read_ipv6_addr s = Some (b, rest)"
  shows "length b = 16"
proof -
  obtain gs where gs: "read_ipv6_groups s = Some (gs, rest)" "b = segment_octets gs"
    using assms by (auto simp: read_ipv6_addr_def)
  obtain head v4 u where head: "read_groups 8 0 s = (head, v4, u)" by (metis prod_cases3)
  have "length gs = 8"
    using gs(1) head read_groups_length [OF head] read_groups_length [of "8 - (length head + 1)" 0]
    by (fastforce simp: read_ipv6_groups_def split: if_splits option.splits prod.splits)
  then show ?thesis by (simp add: gs(2) segment_octets_length)
qed

lemma parse_ip_addr_wf: "parse_ip_addr s = Some i \<Longrightarrow> wf_ip_addr i"
  using read_ipv4_length read_ipv6_length
  by (auto simp: parse_ip_addr_def read_ip_addr_def whole_def split: option.splits list.splits)

lemma parse_socket_addr_wf: "parse_socket_addr s = Some sa \<Longrightarrow> wf_ip_addr (sa_ip sa)"
  using read_ipv4_length read_ipv6_length
  by (auto simp: parse_socket_addr_def read_socket_addr_v4_def read_socket_addr_v6_def whole_def
      split: option.splits list.splits if_splits)

lemma peer_parse_wf:
  assumes "peer_parse sha3 s = Some a"
  shows "wf_peer_addr a \<and> normal_addr a"
proof -
  have plain: "wf_peer_addr a \<and> normal_addr a" if "map_option from_socket_addr (parse_socket_addr t) = Some a" for t
    using that from_socket_addr_wf from_socket_addr_normal parse_socket_addr_wf by auto
  have cjdns: "length b = 16" if "parse_socket_addr t = Some sa" "sa_ip sa = V6 b" for t sa b
    using parse_socket_addr_wf [OF that(1)] that(2) by simp
  show ?thesis using assms plain [of "map ascii_lower s"] cjdns onion_key_Some
    by (auto simp: peer_parse_def Let_def parse_i2p_def simp del: map_option_eq_Some
        split: option.splits ip_addr.splits if_splits prod.splits)
qed

text \<open>
  C21. \<^verbatim>\<open>PeerAddr::parse\<close> reads back what is printed, on all five networks: the text of an IPv4, IPv6 (with its longest run of
  zeros left out), onion, I2P or CJDNS address parses to that address and port, exactly when the address has the length of its
  network and the normal form every constructor gives it. The hash gives 32 bytes.
\<close>

theorem printed_address_is_read_back:
  assumes "\<And>x. length (sha3 x) = 32"
  shows "peer_parse sha3 (display sha3 a) = Some a \<longleftrightarrow> wf_peer_addr a \<and> normal_addr a"
  using read_back [of a sha3] assms peer_parse_wf [of sha3 "display sha3 a" a] by blast

theorem printed_address_is_read_back_witness:
  "peer_parse (\<lambda>_. replicate 32 7) (display (\<lambda>_. replicate 32 7) (Ipv6 ([0x20, 0x01, 0x0d, 0xb8] @ replicate 11 0 @ [1]) 8333)) =
    Some (Ipv6 ([0x20, 0x01, 0x0d, 0xb8] @ replicate 11 0 @ [1]) 8333)"
proof -
  have "wf_peer_addr (Ipv6 ([0x20, 0x01, 0x0d, 0xb8] @ replicate 11 0 @ [1]) 8333)" by simp
  moreover have "normal_addr (Ipv6 ([0x20, 0x01, 0x0d, 0xb8] @ replicate 11 0 @ [1]) 8333)" by code_simp
  ultimately show ?thesis by (subst printed_address_is_read_back) simp_all
qed

section \<open>Networks\<close>

definition wf_net :: "ip_net \<Rightarrow> bool" where
  "wf_net n \<longleftrightarrow> wf_ip_addr (net_addr n) \<and> unat (net_prefix_len n) \<le> (case net_addr n of V4 _ \<Rightarrow> 32 | V6 _ \<Rightarrow> 128)"

lemma parse_show_ip:
  assumes "wf_ip_addr i"
  shows "parse_ip_addr (show_ip i) = Some i"
proof (cases i)
  case (V4 b)
  then show ?thesis using read_ipv4_show [of b "[]"] assms by (simp add: parse_ip_addr_def read_ip_addr_def whole_def)
next
  case (V6 b)
  have "read_ipv4_addr (show_v6 b) = None"
  proof (cases "to_ipv4_mapped b")
    case None
    have "\<not> hex_char (CHR ''.'')" by (simp add: hex_char_def)
    then have "CHR ''.'' \<notin> set (show_v6 b)" using show_v6_no_mapped [OF None] by (auto simp: list_all_iff)
    then show ?thesis by (rule read_ipv4_no_point)
  next
    case (Some v4)
    then show ?thesis by (intro read_ipv4_not_digit) (simp add: show_v6_def separators_no_digit)
  qed
  with V6 show ?thesis using read_ipv6_show [of b "[]"] assms by (simp add: parse_ip_addr_def read_ip_addr_def whole_def)
qed

lemma net_read_back:
  assumes "wf_net n"
  shows "net_from_str (show_net n) = Inr n"
proof -
  define m where "m = unat (net_prefix_len n)"
  have "list_all addr_char (show_ip (net_addr n))" by (cases "net_addr n") (simp_all add: show_v4_chars show_v6_chars)
  then have "CHR ''/'' \<notin> set (show_ip (net_addr n))" using addr_char_facts by (fastforce simp: list_all_iff)
  then have split: "split_once (CHR ''/'') (show_net n) = Some (show_ip (net_addr n), show_dec m)"
    by (simp add: show_net_def m_def split_once_first)
  have bound: "m \<le> (case net_addr n of V4 _ \<Rightarrow> 32 | V6 _ \<Rightarrow> 128)" using assms by (simp add: wf_net_def m_def)
  then have "m \<le> 255" by (simp split: ip_addr.splits)
  then have num: "parse_uint 255 (show_dec m) = Some m" by (rule parse_uint_show)
  have addr: "parse_ip_addr (show_ip (net_addr n)) = Some (net_addr n)" using assms by (simp add: wf_net_def parse_show_ip)
  have "n = \<lparr>net_addr = net_addr n, net_prefix_len = of_nat m\<rparr>" by (simp add: m_def)
  with bound show ?thesis by (simp add: net_from_str_def split num addr)
qed

lemma net_from_str_wf: "net_from_str s = Inr n \<Longrightarrow> wf_net n"
proof -
  have "unat (of_nat m :: u8) = m" if "m \<le> 128" for m using that by (simp add: unat_of_nat)
  then show "net_from_str s = Inr n \<Longrightarrow> wf_net n"
    by (auto simp: net_from_str_def wf_net_def Let_def unat_of_nat dest: parse_ip_addr_wf
        split: option.splits sum.splits ip_addr.splits if_splits prod.splits)
qed

text \<open>
  \<^verbatim>\<open>IpNet::from_str\<close> accepts exactly the networks with a prefix no longer than their address, and each of them is read back
  from the text its \<^verbatim>\<open>Display\<close> gives, which is the form the ban file keeps.
\<close>

theorem network_text_is_read_back:
  "(net_from_str (show_net n) = Inr n \<longleftrightarrow> wf_net n) \<and> ((\<exists>s. net_from_str s = Inr n) \<longleftrightarrow> wf_net n)"
  using net_read_back [of n] net_from_str_wf [of _ n] by blast

end
