(* ===== verification/Metrics_Registry.thy ===== *)
theory Metrics_Registry
  imports Addr_Readback Emit Ieee_Rounding
begin

text \<open>
  \<^verbatim>\<open>tools/metrics/src/metrics.rs\<close>: the series the metrics tool serves, with their kind, buckets and label names, and the limits on
  numbers a peer chose. The \<^verbatim>\<open>prometheus\<close> crate keeps the registry; what a program tells it is modelled as a list of calls. A
  registration fails for a name already taken and for buckets that do not ascend, and looking up a series panics unless there
  is one value for each label: \<open>registry_ok\<close> and \<open>call_ok\<close>.
\<close>

section \<open>Buckets\<close>

definition RTT_BUCKETS :: "rat list" where
  "RTT_BUCKETS = map f64_of [1 / 200, 1 / 100, 1 / 40, 1 / 20, 1 / 10, 3 / 20, 1 / 5, 3 / 10, 1 / 2, 3 / 4, 1, 2, 5]"

definition DELAY_BUCKETS :: "rat list" where
  "DELAY_BUCKETS = map f64_of [0, 1 / 1000, 1 / 200, 1 / 100, 1 / 20, 1 / 10, 1 / 2, 1, 5, 10, 60]"

definition SETUP_BUCKETS :: "rat list" where
  "SETUP_BUCKETS = map f64_of [1 / 20, 1 / 10, 1 / 4, 1 / 2, 1, 2, 5, 10, 30, 60]"

definition SESSION_BUCKETS :: "rat list" where
  "SESSION_BUCKETS = [1, 10, 60, 300, 900, 3600, 14400, 86400, 604800]"

definition SKEW_BUCKETS :: "rat list" where
  "SKEW_BUCKETS = [- 3600, - 600, - 60, - 10, - 1, 0, 1, 10, 60, 600, 3600]"

definition HEIGHT_DELTA_BUCKETS :: "rat list" where
  "HEIGHT_DELTA_BUCKETS = [- 1000000, - 100000, - 10000, - 1000, - 100, - 10, - 1, 0, 1, 10, 100, 1000]"

definition PROPAGATION_BUCKETS :: "rat list" where
  "PROPAGATION_BUCKETS = map f64_of [1 / 10, 1 / 4, 1 / 2, 1, 2, 5, 10, 30, 60, 120, 300, 600]"

definition BATCH_BUCKETS :: "rat list" where
  "BATCH_BUCKETS = [1, 2, 3, 4, 5, 6, 7, 8]"

definition SHORT_ID_BUCKETS :: "rat list" where
  "SHORT_ID_BUCKETS = [0, 100, 500, 1000, 2000, 3000, 4000, 5000, 7500, 10000]"

definition PREFILLED_BUCKETS :: "rat list" where
  "PREFILLED_BUCKETS = [1, 2, 5, 10, 50, 100, 500, 1000]"

definition FEE_FILTER_BUCKETS :: "rat list" where
  "FEE_FILTER_BUCKETS = [0, 1, 10, 100, 250, 500, 1000, 1500, 2000, 3000, 5000, 10000, 50000, 100000]"

definition ADDRESS_COUNT_BUCKETS :: "rat list" where
  "ADDRESS_COUNT_BUCKETS = [0, 1, 2, 3, 5, 10, 20, 50, 100, 200, 500, 1000]"

definition ADDRESS_AGE_BUCKETS :: "rat list" where
  "ADDRESS_AGE_BUCKETS = [- 600, 0, 60, 600, 3600, 21600, 86400, 259200, 604800, 2592000]"

definition CWND_BUCKETS :: "rat list" where
  "CWND_BUCKETS = [1, 2, 5, 10, 20, 50, 100, 200, 500, 1000]"

definition RETRANS_BUCKETS :: "rat list" where
  "RETRANS_BUCKETS = [0, 1, 2, 5, 10, 20, 50, 100, 500, 1000]"

definition RATE_BUCKETS :: "rat list" where
  "RATE_BUCKETS = [1000, 10000, 100000, 250000, 500000, 1000000, 2500000, 5000000, 10000000, 25000000, 50000000, 100000000, 1000000000]"

section \<open>The registry\<close>

text \<open>The fields of \<^verbatim>\<open>Metrics\<close>.\<close>

datatype metric =
    StartTimestampSeconds
  | EventsTotal
  | EventBytesTotal
  | UndecodableEventsTotal
  | EventDelaySeconds
  | LastEventTimestampSeconds
  | ObserverDroppedEvents
  | ObserverDroppedEventsByKind
  | ObserverRestartsTotal
  | ConnectionAttemptsTotal
  | ConnectionSetupSeconds
  | SessionDurationSeconds
  | SessionMessagesTotal
  | UnsolicitedPongsTotal
  | SilentSessionsTotal
  | HandshakesTotal
  | HandshakeUserAgentsTotal
  | HandshakeProtocolVersionsTotal
  | HandshakeServicesTotal
  | HandshakeFeaturesTotal
  | HandshakeClockSkewSeconds
  | HandshakeHeightDelta
  | BestHeight
  | PingRttSeconds
  | PingTcpSrttSeconds
  | PingTcpMinRttSeconds
  | PingTcpRttvarSeconds
  | PingTcpCwndSegments
  | PingTcpRetransmits
  | PingTcpDeliveryRateBytesPerSecond
  | BlockAnnouncementsTotal
  | BlocksTotal
  | BlockAnnouncementBatchSize
  | BlockPropagationSeconds
  | CompactBlockShortIds
  | CompactBlockPrefilledTxs
  | CompactBlockProbesTotal
  | FeeFiltersTotal
  | FeeFilterSatPerKvb
  | SendCmpctTotal
  | AddressAnnouncementsTotal
  | AddressAnnouncementEntries
  | AddressEntriesTotal
  | AddressEntryServicesTotal
  | AddressEntryAgeSeconds
  | UnparsedAddressEntriesTotal
  | RateLimitedAddressEntriesTotal
  | SolicitedAddressAnnouncementsTotal
  | SelfAnnouncementsTotal
  | AddressRateLimitTokens

datatype metric_kind = CounterVec | IntGaugeVec | FloatGaugeVec | HistogramVec "rat list"

text \<open>\<^verbatim>\<open>Metrics::new\<close> makes one field after the other: the name, the kind and the names of the labels.\<close>

definition reg_pipeline :: "(metric \<times> string \<times> metric_kind \<times> string list) list" where
  "reg_pipeline =
    [(StartTimestampSeconds, ''start_timestamp_seconds'', IntGaugeVec, []),
     (EventsTotal, ''events_total'', CounterVec, [''network'', ''kind'']),
     (EventBytesTotal, ''event_bytes_total'', CounterVec, [''network'', ''kind'']),
     (UndecodableEventsTotal, ''undecodable_events_total'', CounterVec, [''network'']),
     (EventDelaySeconds, ''event_delay_seconds'', HistogramVec DELAY_BUCKETS, [''network'']),
     (LastEventTimestampSeconds, ''last_event_timestamp_seconds'', IntGaugeVec, [''network'']),
     (ObserverDroppedEvents, ''observer_dropped_events'', IntGaugeVec, [''network'']),
     (ObserverDroppedEventsByKind, ''observer_dropped_events_by_kind'', IntGaugeVec, [''network'', ''kind'']),
     (ObserverRestartsTotal, ''observer_restarts_total'', CounterVec, [''network''])]"

definition reg_attempts :: "(metric \<times> string \<times> metric_kind \<times> string list) list" where
  "reg_attempts =
    [(ConnectionAttemptsTotal, ''connection_attempts_total'', CounterVec, [''network'', ''result'', ''reason'']),
     (ConnectionSetupSeconds, ''connection_setup_seconds'', HistogramVec SETUP_BUCKETS, [''network'', ''result'']),
     (SessionDurationSeconds, ''session_duration_seconds'', HistogramVec SESSION_BUCKETS, [''network'']),
     (SessionMessagesTotal, ''session_messages_total'', CounterVec, [''network'', ''command'']),
     (UnsolicitedPongsTotal, ''unsolicited_pongs_total'', CounterVec, [''network'']),
     (SilentSessionsTotal, ''silent_sessions_total'', CounterVec, [''network''])]"

definition reg_handshakes :: "(metric \<times> string \<times> metric_kind \<times> string list) list" where
  "reg_handshakes =
    [(HandshakesTotal, ''handshakes_total'', CounterVec, [''network'', ''transport'']),
     (HandshakeUserAgentsTotal, ''handshake_user_agents_total'', CounterVec, [''network'', ''user_agent'']),
     (HandshakeProtocolVersionsTotal, ''handshake_protocol_versions_total'', CounterVec, [''network'', ''version'']),
     (HandshakeServicesTotal, ''handshake_services_total'', CounterVec, [''network'', ''service'']),
     (HandshakeFeaturesTotal, ''handshake_features_total'', CounterVec, [''network'', ''feature'']),
     (HandshakeClockSkewSeconds, ''handshake_clock_skew_seconds'', HistogramVec SKEW_BUCKETS, [''network'']),
     (HandshakeHeightDelta, ''handshake_height_delta'', HistogramVec HEIGHT_DELTA_BUCKETS, [''network'']),
     (BestHeight, ''best_height'', IntGaugeVec, [''network''])]"

definition reg_path :: "(metric \<times> string \<times> metric_kind \<times> string list) list" where
  "reg_path =
    [(PingRttSeconds, ''ping_rtt_seconds'', HistogramVec RTT_BUCKETS, [''network'']),
     (PingTcpSrttSeconds, ''ping_tcp_srtt_seconds'', HistogramVec RTT_BUCKETS, [''network'']),
     (PingTcpMinRttSeconds, ''ping_tcp_min_rtt_seconds'', HistogramVec RTT_BUCKETS, [''network'']),
     (PingTcpRttvarSeconds, ''ping_tcp_rttvar_seconds'', HistogramVec RTT_BUCKETS, [''network'']),
     (PingTcpCwndSegments, ''ping_tcp_cwnd_segments'', HistogramVec CWND_BUCKETS, [''network'']),
     (PingTcpRetransmits, ''ping_tcp_retransmits'', HistogramVec RETRANS_BUCKETS, [''network'']),
     (PingTcpDeliveryRateBytesPerSecond, ''ping_tcp_delivery_rate_bytes_per_second'', HistogramVec RATE_BUCKETS, [''network''])]"

definition reg_blocks :: "(metric \<times> string \<times> metric_kind \<times> string list) list" where
  "reg_blocks =
    [(BlockAnnouncementsTotal, ''block_announcements_total'', CounterVec, [''network'', ''type'', ''height'']),
     (BlocksTotal, ''blocks_total'', CounterVec, [''network'', ''type'', ''height'']),
     (BlockAnnouncementBatchSize, ''block_announcement_batch_size'', HistogramVec BATCH_BUCKETS, [''network'']),
     (BlockPropagationSeconds, ''block_propagation_seconds'', HistogramVec PROPAGATION_BUCKETS, [''network'', ''type'', ''height'']),
     (CompactBlockShortIds, ''compact_block_short_ids'', HistogramVec SHORT_ID_BUCKETS, [''network'']),
     (CompactBlockPrefilledTxs, ''compact_block_prefilled_txs'', HistogramVec PREFILLED_BUCKETS, [''network'']),
     (CompactBlockProbesTotal, ''compact_block_probes_total'', CounterVec, [''network'', ''stage''])]"

definition reg_policy :: "(metric \<times> string \<times> metric_kind \<times> string list) list" where
  "reg_policy =
    [(FeeFiltersTotal, ''fee_filters_total'', CounterVec, [''network'']),
     (FeeFilterSatPerKvb, ''fee_filter_sat_per_kvb'', HistogramVec FEE_FILTER_BUCKETS, [''network'']),
     (SendCmpctTotal, ''send_cmpct_total'', CounterVec, [''network'', ''mode'', ''version''])]"

definition reg_gossip :: "(metric \<times> string \<times> metric_kind \<times> string list) list" where
  "reg_gossip =
    [(AddressAnnouncementsTotal, ''address_announcements_total'', CounterVec, [''network'', ''message'']),
     (AddressAnnouncementEntries, ''address_announcement_entries'', HistogramVec ADDRESS_COUNT_BUCKETS, [''network'']),
     (AddressEntriesTotal, ''address_entries_total'', CounterVec, [''network'', ''net'']),
     (AddressEntryServicesTotal, ''address_entry_services_total'', CounterVec, [''network'', ''service'']),
     (AddressEntryAgeSeconds, ''address_entry_age_seconds'', HistogramVec ADDRESS_AGE_BUCKETS, [''network'']),
     (UnparsedAddressEntriesTotal, ''unparsed_address_entries_total'', CounterVec, [''network'']),
     (RateLimitedAddressEntriesTotal, ''rate_limited_address_entries_total'', CounterVec, [''network'']),
     (SolicitedAddressAnnouncementsTotal, ''solicited_address_announcements_total'', CounterVec, [''network'']),
     (SelfAnnouncementsTotal, ''self_announcements_total'', CounterVec, [''network'']),
     (AddressRateLimitTokens, ''address_rate_limit_tokens'', FloatGaugeVec, [''network''])]"

definition metrics_new :: "(metric \<times> string \<times> metric_kind \<times> string list) list" where
  "metrics_new = reg_pipeline @ reg_attempts @ reg_handshakes @ reg_path @ reg_blocks @ reg_policy @ reg_gossip"

definition metric_info :: "metric \<Rightarrow> (string \<times> metric_kind \<times> string list) option" where
  "metric_info m = map_of metrics_new m"

text \<open>What \<^verbatim>\<open>HistogramVec::new\<close> and \<^verbatim>\<open>Registry::register\<close> ask for.\<close>

definition registry_ok :: "(metric \<times> string \<times> metric_kind \<times> string list) list \<Rightarrow> bool" where
  "registry_ok r \<longleftrightarrow>
     distinct (map (\<lambda>(_, name, _, _). name) r)
     \<and> list_all (\<lambda>(_, _, kind, labels). distinct labels \<and> (case kind of HistogramVec bs \<Rightarrow> bs \<noteq> [] \<and> sorted_wrt (<) bs | _ \<Rightarrow> True)) r"

section \<open>Calls\<close>

text \<open>
  What the tool does to a series, named by its metric and its label values: \<^verbatim>\<open>inc_by\<close>, \<^verbatim>\<open>set\<close>, \<^verbatim>\<open>observe\<close>, or only looking it
  up, which creates it.
\<close>

datatype metric_call =
    IncBy metric "string list" u64
  | SetTo metric "string list" rat
  | Observe metric "string list" rat
  | LookUp metric "string list"

fun series :: "metric_call \<Rightarrow> metric \<times> string list" where
  "series (IncBy m ls _) = (m, ls)"
| "series (SetTo m ls _) = (m, ls)"
| "series (Observe m ls _) = (m, ls)"
| "series (LookUp m ls) = (m, ls)"

text \<open>The kind has the operation, and there is a value for each label.\<close>

fun call_ok :: "metric_call \<Rightarrow> bool" where
  "call_ok c =
     (case metric_info (fst (series c)) of
        None \<Rightarrow> False
      | Some (_, kind, labels) \<Rightarrow>
          length labels = length (snd (series c))
          \<and> (case (c, kind) of
               (IncBy _ _ _, CounterVec) \<Rightarrow> True
             | (SetTo _ _ v, IntGaugeVec) \<Rightarrow> v \<in> \<int>
             | (SetTo _ _ _, FloatGaugeVec) \<Rightarrow> True
             | (Observe _ _ _, HistogramVec _) \<Rightarrow> True
             | (LookUp _ _, _) \<Rightarrow> True
             | _ \<Rightarrow> False))"

declare call_ok.simps [simp del]

section \<open>Numbers a peer chose\<close>

definition SKEW :: rat where "SKEW = 86400"
definition HEIGHT_DELTA :: rat where "HEIGHT_DELTA = 10000000"
definition FEE_FILTER :: rat where "FEE_FILTER = 1000000000"
definition ADDRESS_AGE :: rat where "ADDRESS_AGE = 86400 * 365"

text \<open>\<^verbatim>\<open>f64::clamp\<close>.\<close>

definition peer_chosen :: "rat \<Rightarrow> rat \<Rightarrow> rat" where
  "peer_chosen v limit = (if v < - limit then - limit else if limit < v then limit else v)"

lemma peer_chosen_bound: "0 \<le> limit \<Longrightarrow> \<bar>peer_chosen v limit\<bar> \<le> limit"
  by (auto simp: peer_chosen_def)

text \<open>Clamping moves no value across a bucket that lies inside the limit.\<close>

lemma peer_chosen_bucket: "\<bar>b\<bar> < limit \<Longrightarrow> peer_chosen v limit \<le> b \<longleftrightarrow> v \<le> b"
  by (auto simp: peer_chosen_def)

end
