(* ===== verification/Metrics.thy ===== *)
theory Metrics
  imports Metrics_Registry
begin

unbundle bit_operations_syntax

text \<open>
  The metrics tool, \<^verbatim>\<open>tools/metrics/src/labels.rs\<close> and \<^verbatim>\<open>lib.rs\<close>: label values, what is remembered about a network between events, and
  what each event does to the series. Events are those of \<^theory_text>\<open>Emit\<close>; a block hash stands for its text. Text is made of the
  characters below 256. Decoding is protobuf, a parameter. Arithmetic on samples is in double precision.
\<close>

section \<open>Labels\<close>

definition OTHER :: string where "OTHER = ''other''"
definition USER_AGENT_CAP :: nat where "USER_AGENT_CAP = 128"
definition PROTOCOL_VERSION_CAP :: nat where "PROTOCOL_VERSION_CAP = 32"
definition USER_AGENT_MAX_CHARS :: nat where "USER_AGENT_MAX_CHARS = 64"

record bounded =
  bd_cap :: nat
  bd_seen :: "string list"

definition bounded_new :: "nat \<Rightarrow> bounded" where
  "bounded_new cap = \<lparr>bd_cap = cap, bd_seen = []\<rparr>"

definition bounded_label :: "string \<Rightarrow> bounded \<Rightarrow> string \<times> bounded" where
  "bounded_label v b =
     (if v \<in> set (bd_seen b) then (v, b)
      else if length (bd_seen b) < bd_cap b then (v, b\<lparr>bd_seen := v # bd_seen b\<rparr>)
      else (OTHER, b))"

definition enum_label :: "string \<Rightarrow> string \<Rightarrow> string" where
  "enum_label name pre = map ascii_lower (case strip_prefix pre name of Some rest \<Rightarrow> rest | None \<Rightarrow> name)"

definition transport_label :: "u32 option \<Rightarrow> string" where
  "transport_label v = (if v = Some 1 then ''v1'' else if v = Some 2 then ''v2'' else ''unknown'')"

text \<open>\<^verbatim>\<open>str::split\<close> on a character, and \<^verbatim>\<open>str::trim\<close>.\<close>

fun split_on :: "char \<Rightarrow> string \<Rightarrow> string list" where
  "split_on c [] = [[]]"
| "split_on c (x # xs) =
     (if x = c then [] # split_on c xs
      else case split_on c xs of [] \<Rightarrow> [[x]] | w # ws \<Rightarrow> (x # w) # ws)"

definition is_space :: "char \<Rightarrow> bool" where
  "is_space c \<longleftrightarrow> (let n = of_char c :: nat in 9 \<le> n \<and> n \<le> 13 \<or> n = 32 \<or> n = 133 \<or> n = 160)"

definition trim :: "string \<Rightarrow> string" where
  "trim s = rev (dropWhile is_space (rev (dropWhile is_space s)))"

fun strip_comments :: "nat \<Rightarrow> string \<Rightarrow> string" where
  "strip_comments depth [] = []"
| "strip_comments depth (c # cs) =
     (if c = CHR ''('' then strip_comments (depth + 1) cs
      else if c = CHR '')'' then strip_comments (depth - 1) cs
      else if depth = 0 then c # strip_comments depth cs
      else strip_comments depth cs)"

definition user_agent :: "string \<Rightarrow> string" where
  "user_agent raw =
     (let joined = join ''/'' (filter (\<lambda>s. s \<noteq> []) (map trim (split_on (CHR ''/'') (strip_comments 0 raw))))
      in if joined = [] then ''unknown'' else take USER_AGENT_MAX_CHARS joined)"

definition KNOWN :: "string list" where
  "KNOWN =
    [''addr'', ''addrv2'', ''alert'', ''block'', ''blocktxn'', ''cfcheckpt'', ''cfheaders'', ''cfilter'', ''cmpctblock'',
     ''feefilter'', ''filteradd'', ''filterclear'', ''filterload'', ''getaddr'', ''getblocks'', ''getblocktxn'',
     ''getcfcheckpt'', ''getcfheaders'', ''getcfilters'', ''getdata'', ''getheaders'', ''headers'', ''inv'', ''mempool'',
     ''merkleblock'', ''notfound'', ''ping'', ''pong'', ''reject'', ''sendaddrv2'', ''sendcmpct'', ''sendheaders'',
     ''sendtxrcncl'', ''tx'', ''verack'', ''version'', ''wtxidrelay'']"

definition command_label :: "string \<Rightarrow> string" where
  "command_label raw = (if raw \<in> set KNOWN then raw else OTHER)"

definition NAMED :: "(u64 \<times> string) list" where
  "NAMED =
    [(1, ''network''), (2, ''getutxo''), (4, ''bloom''), (8, ''witness''), (16, ''xthin''), (64, ''compact_filters''),
     (push_bit 10 1, ''network_limited''), (push_bit 11 1, ''p2p_v2'')]"

definition bit_label :: "nat \<Rightarrow> string" where
  "bit_label i =
     (case find (\<lambda>(mask, _). mask = push_bit i 1) NAMED of Some (_, name) \<Rightarrow> name | None \<Rightarrow> ''bit_'' @ show_dec i)"

definition service_labels :: "u64 \<Rightarrow> string list" where
  "service_labels services =
     (if services = 0 then [''none'']
      else if services = - 1 then [''all'']
      else map bit_label (filter (\<lambda>i. services AND push_bit i 1 \<noteq> 0) [0 ..< 64]))"

definition address_net :: "string \<Rightarrow> string" where
  "address_net addr =
     (case rsplit_once (CHR '':'') addr of
        None \<Rightarrow> OTHER
      | Some (host, _) \<Rightarrow>
          (if suffix ''.onion'' host then ''onion''
           else if suffix ''.b32.i2p'' host then ''i2p''
           else case Option.bind (strip_prefix ''['' host) (strip_suffix '']'') of
             Some inner \<Rightarrow>
               (case whole (read_ipv6_addr inner) of
                  Some b \<Rightarrow> if b ! 0 = 0xfc then ''cjdns'' else ''ipv6''
                | None \<Rightarrow> OTHER)
           | None \<Rightarrow>
               (case parse_ip_addr host of
                  Some (V4 _) \<Rightarrow> ''ipv4''
                | Some (V6 b) \<Rightarrow> if b ! 0 = 0xfc then ''cjdns'' else ''ipv6''
                | None \<Rightarrow> OTHER)))"

definition addr_host :: "string \<Rightarrow> string" where
  "addr_host addr = (case rsplit_once (CHR '':'') addr of Some (host, _) \<Rightarrow> host | None \<Rightarrow> addr)"

text \<open>The names of the enumerations of \<^verbatim>\<open>events.proto\<close>, as \<^verbatim>\<open>as_str_name\<close> gives them.\<close>

fun announcement_name :: "announcement_type \<Rightarrow> string" where
  "announcement_name AnnInv = ''ANNOUNCEMENT_TYPE_INV''"
| "announcement_name AnnHeaders = ''ANNOUNCEMENT_TYPE_HEADERS''"
| "announcement_name AnnCompactBlock = ''ANNOUNCEMENT_TYPE_COMPACT_BLOCK''"

fun probe_name :: "probe_stage \<Rightarrow> string" where
  "probe_name ProbeRequested = ''PROBE_STAGE_REQUESTED''"
| "probe_name ProbeAnswered = ''PROBE_STAGE_ANSWERED''"

fun addr_message_name :: "addr_message \<Rightarrow> string" where
  "addr_message_name MsgAddr = ''ADDR_MESSAGE_ADDR''"
| "addr_message_name MsgAddrv2 = ''ADDR_MESSAGE_ADDRV2''"

fun disconnect_name :: "disconnect_reason \<Rightarrow> string" where
  "disconnect_name DisUnknown = ''DISCONNECT_REASON_UNKNOWN''"
| "disconnect_name DisPeerClosed = ''DISCONNECT_REASON_PEER_CLOSED''"
| "disconnect_name DisTruncated = ''DISCONNECT_REASON_TRUNCATED''"
| "disconnect_name DisConnectionReset = ''DISCONNECT_REASON_CONNECTION_RESET''"
| "disconnect_name DisDecodeError = ''DISCONNECT_REASON_DECODE_ERROR''"
| "disconnect_name DisV2DecryptError = ''DISCONNECT_REASON_V2_DECRYPT_ERROR''"
| "disconnect_name DisWriteError = ''DISCONNECT_REASON_WRITE_ERROR''"
| "disconnect_name DisOther = ''DISCONNECT_REASON_OTHER''"
| "disconnect_name DisOtherChain = ''DISCONNECT_REASON_OTHER_CHAIN''"
| "disconnect_name DisOversizedMessage = ''DISCONNECT_REASON_OVERSIZED_MESSAGE''"
| "disconnect_name DisPingTimeout = ''DISCONNECT_REASON_PING_TIMEOUT''"
| "disconnect_name DisProtocolViolation = ''DISCONNECT_REASON_PROTOCOL_VIOLATION''"
| "disconnect_name DisWrongMagic = ''DISCONNECT_REASON_WRONG_MAGIC''"

fun failure_name :: "failure_reason \<Rightarrow> string" where
  "failure_name FailUnknown = ''FAILURE_REASON_UNKNOWN''"
| "failure_name FailConnectionRefused = ''FAILURE_REASON_CONNECTION_REFUSED''"
| "failure_name FailHostUnreachable = ''FAILURE_REASON_HOST_UNREACHABLE''"
| "failure_name FailTcpConnectTimeout = ''FAILURE_REASON_TCP_CONNECT_TIMEOUT''"
| "failure_name FailV2TransportTimeout = ''FAILURE_REASON_V2_TRANSPORT_TIMEOUT''"
| "failure_name FailVersionHandshakeTimeout = ''FAILURE_REASON_VERSION_HANDSHAKE_TIMEOUT''"
| "failure_name FailV2TransportHandshake = ''FAILURE_REASON_V2_TRANSPORT_HANDSHAKE''"
| "failure_name FailVersionHandshake = ''FAILURE_REASON_VERSION_HANDSHAKE''"
| "failure_name FailUnexpectedEof = ''FAILURE_REASON_UNEXPECTED_EOF''"
| "failure_name FailOther = ''FAILURE_REASON_OTHER''"

fun our_fault_name :: "our_fault_reason \<Rightarrow> string" where
  "our_fault_name FaultNetworkUnreachable = ''OUR_FAULT_REASON_NETWORK_UNREACHABLE''"
| "our_fault_name FaultProxyUnreachable = ''OUR_FAULT_REASON_PROXY_UNREACHABLE''"
| "our_fault_name FaultNetworkDisabled = ''OUR_FAULT_REASON_NETWORK_DISABLED''"

fun kind_label :: "kind option \<Rightarrow> string" where
  "kind_label (Some KPingRtt) = ''ping_rtt''"
| "kind_label (Some KBlockAnnouncement) = ''block_announcement''"
| "kind_label (Some KAddressAnnouncement) = ''address_announcement''"
| "kind_label (Some KConnectionResult) = ''connection_result''"
| "kind_label (Some KHandshake) = ''handshake''"
| "kind_label (Some KCompactBlockProbe) = ''compact_block_probe''"
| "kind_label (Some KFeeFilter) = ''fee_filter''"
| "kind_label (Some KSendCmpct) = ''send_cmpct''"
| "kind_label None = ''none''"

section \<open>Memory between events\<close>

definition RECENT_BLOCKS :: nat where "RECENT_BLOCKS = 64"

record recent_blocks =
  rb_first_seen :: "(block_hash, u64) hashmap"
  rb_order :: "block_hash list"

definition first_seen :: "block_hash \<Rightarrow> recent_blocks \<Rightarrow> u64 option" where
  "first_seen h rb = map_of (rb_first_seen rb) h"

fun forget_old :: "(block_hash, u64) hashmap \<Rightarrow> block_hash list \<Rightarrow> (block_hash, u64) hashmap \<times> block_hash list" where
  "forget_old m [] = (m, [])"
| "forget_old m (old # order) =
     (if RECENT_BLOCKS < length (old # order) then forget_old (AList.delete old m) order else (m, old # order))"

definition record_block :: "block_hash \<Rightarrow> u64 \<Rightarrow> recent_blocks \<Rightarrow> recent_blocks" where
  "record_block h t rb =
     (case map_of (rb_first_seen rb) h of
        Some existing \<Rightarrow> rb\<lparr>rb_first_seen := AList.update h (min existing t) (rb_first_seen rb)\<rparr>
      | None \<Rightarrow>
          (let (m, order) = forget_old (AList.update h t (rb_first_seen rb)) (rb_order rb @ [h])
           in rb\<lparr>rb_first_seen := m, rb_order := order\<rparr>))"

record network_state =
  ns_instance :: "u64 option"
  ns_best_height :: "nat option"
  ns_blocks :: recent_blocks
  ns_user_agents :: bounded
  ns_protocol_versions :: bounded

definition network_default :: network_state where
  "network_default =
     \<lparr>ns_instance = None, ns_best_height = None, ns_blocks = \<lparr>rb_first_seen = [], rb_order = []\<rparr>,
      ns_user_agents = bounded_new USER_AGENT_CAP, ns_protocol_versions = bounded_new PROTOCOL_VERSION_CAP\<rparr>"

type_synonym met_state = "(string, network_state) hashmap"

definition network_entry :: "string \<Rightarrow> met_state \<Rightarrow> network_state" where
  "network_entry n st = (case map_of st n of None \<Rightarrow> network_default | Some s \<Rightarrow> s)"

text \<open>\<^verbatim>\<open>Args::subject\<close>, what is subscribed to, and the network of a subject.\<close>

definition met_subject :: "string option \<Rightarrow> string" where
  "met_subject network = ''p2p-observer.'' @ (case network of Some n \<Rightarrow> n | None \<Rightarrow> ''*'') @ ''.*''"

definition network_of :: "string \<Rightarrow> string option" where
  "network_of subject =
     (case split_on (CHR ''.'') subject of
        [a, n, _] \<Rightarrow> if a = ''p2p-observer'' then Some n else None
      | _ \<Rightarrow> None)"

section \<open>What an event does\<close>

definition u64_f64 :: "u64 \<Rightarrow> rat" where "u64_f64 w = f64_of (of_nat (unat w))"

abbreviation f64_sub :: "rat \<Rightarrow> rat \<Rightarrow> rat" where "f64_sub x y \<equiv> f64_of (x - y)"
abbreviation f64_div :: "rat \<Rightarrow> rat \<Rightarrow> rat" where "f64_div x y \<equiv> f64_of (x / y)"

text \<open>\<^verbatim>\<open>as i64\<close> of an unsigned value.\<close>

definition as_i64 :: "u64 \<Rightarrow> rat" where "as_i64 w = of_int (sint w)"

definition inc :: "metric \<Rightarrow> string list \<Rightarrow> metric_call" where "inc m ls = IncBy m ls 1"

definition observe_dropped_by_kind :: "string \<Rightarrow> u64 list \<Rightarrow> metric_call list" where
  "observe_dropped_by_kind n dropped =
     map (\<lambda>(k, count). SetTo ObserverDroppedEventsByKind [n, kind_label (Some k)] (as_i64 count)) (zip all_kinds dropped)"

definition observe_pipeline :: "string \<Rightarrow> peer_event \<Rightarrow> u64 \<Rightarrow> network_state \<Rightarrow> metric_call list \<times> network_state" where
  "observe_pipeline n e now st =
     (let restarted = (case ns_instance st of Some previous \<Rightarrow> previous \<noteq> pe_instance_id e | None \<Rightarrow> False)
      in ([Observe EventDelaySeconds [n] (f64_div (f64_sub (u64_f64 now) (u64_f64 (pe_timestamp_ms e))) 1000),
           SetTo LastEventTimestampSeconds [n] (as_i64 (pe_timestamp_ms e div 1000)),
           SetTo ObserverDroppedEvents [n] (as_i64 (pe_dropped_events e))]
          @ (case pe_dropped_by_kind e of Some d \<Rightarrow> observe_dropped_by_kind n d | None \<Rightarrow> [])
          @ (if restarted then inc ObserverRestartsTotal [n] # observe_dropped_by_kind n (replicate 8 0) else []),
          st\<lparr>ns_instance := Some (pe_instance_id e)\<rparr>))"

definition addr_recv_is_set :: "string \<Rightarrow> bool" where
  "addr_recv_is_set a \<longleftrightarrow> a \<noteq> [] \<and> \<not> prefix ''0.0.0.0:'' a \<and> a \<noteq> ''[::]:0''"

definition met_handshake :: "string \<Rightarrow> peer_event \<Rightarrow> handshake_event \<Rightarrow> network_state \<Rightarrow> metric_call list \<times> network_state" where
  "met_handshake n e hs st =
     (let (ua, uas) = bounded_label (user_agent (hs_user_agent hs)) (ns_user_agents st);
          (version, versions) = bounded_label (show_dec (unat (hs_protocol_version hs))) (ns_protocol_versions st);
          features = [(''relay'', hs_relay hs), (''sendaddrv2'', hs_sendaddrv2 hs), (''wtxid_relay'', hs_wtxid_relay hs),
                      (''addr_recv'', addr_recv_is_set (hs_addr_recv hs))]
      in ([inc HandshakesTotal [n, transport_label (pe_transport_version e)],
           inc HandshakeUserAgentsTotal [n, ua],
           inc HandshakeProtocolVersionsTotal [n, version]]
          @ map (\<lambda>b. inc HandshakeServicesTotal [n, b]) (service_labels (hs_services hs))
          @ map (\<lambda>(feature, _). inc HandshakeFeaturesTotal [n, feature]) (filter snd features)
          @ [Observe HandshakeClockSkewSeconds [n]
               (peer_chosen (f64_sub (f64_of (of_int (sint (hs_peer_timestamp hs)))) (u64_f64 (pe_timestamp_ms e div 1000))) SKEW)]
          @ (case ns_best_height st of
               None \<Rightarrow> []
             | Some best \<Rightarrow>
                 [Observe HandshakeHeightDelta [n]
                    (peer_chosen (f64_sub (of_int (sint (hs_start_height hs))) (of_nat best)) HEIGHT_DELTA)]),
          st\<lparr>ns_user_agents := uas, ns_protocol_versions := versions\<rparr>))"

definition observe_tcp :: "string \<Rightarrow> tcp_stats \<Rightarrow> metric_call list" where
  "observe_tcp n t =
     [Observe PingTcpSrttSeconds [n] (f64_div (of_nat (unat (srtt_us t))) 1000000),
      Observe PingTcpRttvarSeconds [n] (f64_div (of_nat (unat (rttvar_us t))) 1000000),
      Observe PingTcpCwndSegments [n] (of_nat (unat (snd_cwnd t))),
      Observe PingTcpRetransmits [n] (of_nat (unat (total_retrans t)))]
     @ (case min_rtt_us t of None \<Rightarrow> [] | Some r \<Rightarrow> [Observe PingTcpMinRttSeconds [n] (f64_div (of_nat (unat r)) 1000000)])
     @ (case delivery_rate t of None \<Rightarrow> [] | Some r \<Rightarrow> [Observe PingTcpDeliveryRateBytesPerSecond [n] (u64_f64 r)])"

definition observe_ping :: "string \<Rightarrow> u64 \<Rightarrow> tcp_stats option \<Rightarrow> metric_call list" where
  "observe_ping n rtt tcp =
     Observe PingRttSeconds [n] (f64_div (u64_f64 rtt) 1000) # (case tcp of None \<Rightarrow> [] | Some t \<Rightarrow> observe_tcp n t)"

definition observe_block_announcement ::
  "string \<Rightarrow> peer_event \<Rightarrow> block_announcement \<Rightarrow> network_state \<Rightarrow> metric_call list \<times> network_state" where
  "observe_block_announcement n e blk st =
     (let atype = enum_label (announcement_name (ba_type blk)) ''ANNOUNCEMENT_TYPE_'';
          height = (if ba_height blk \<noteq> None then ''known'' else ''unknown'');
          calls =
            [inc BlockAnnouncementsTotal [n, atype, height],
             Observe BlockAnnouncementBatchSize [n] (of_nat (unat (ba_batch_size blk)))]
            @ (case ba_shape blk of
                 None \<Rightarrow> []
               | Some (short_ids, prefilled) \<Rightarrow>
                   [Observe CompactBlockShortIds [n] (of_nat (unat short_ids)),
                    Observe CompactBlockPrefilledTxs [n] (of_nat (unat prefilled))]);
          (best, st) =
            (case ba_height blk of
               None \<Rightarrow> ([], st)
             | Some h \<Rightarrow>
                 (if (case ns_best_height st of None \<Rightarrow> True | Some b \<Rightarrow> b < h)
                  then ([SetTo BestHeight [n] (of_nat h)], st\<lparr>ns_best_height := Some h\<rparr>)
                  else ([], st)))
      in if ba_new_to_us blk
         then (calls @ best @ [inc BlocksTotal [n, atype, height]],
               st\<lparr>ns_blocks := record_block (ba_hash blk) (pe_timestamp_ms e) (ns_blocks st)\<rparr>)
         else (calls @ best
               @ (case first_seen (ba_hash blk) (ns_blocks st) of
                    None \<Rightarrow> []
                  | Some first \<Rightarrow>
                      [Observe BlockPropagationSeconds [n, atype, height]
                         (f64_div (max (f64_sub (u64_f64 (pe_timestamp_ms e)) (u64_f64 first)) 0) 1000)]),
               st))"

definition observe_connection_result :: "string \<Rightarrow> connection_result option \<Rightarrow> metric_call list" where
  "observe_connection_result n result =
     (let (calls, outcome, reason, setup_ms) =
        (case result of
           Some (ResDisconnected d) \<Rightarrow>
             ([Observe SessionDurationSeconds [n] (f64_div (u64_f64 (dc_uptime_ms d)) 1000)]
              @ map (\<lambda>(c, count). IncBy SessionMessagesTotal [n, command_label c] (ucast count)) (dc_messages_by_command d)
              @ (if 0 < dc_messages_other d then [IncBy SessionMessagesTotal [n, OTHER] (ucast (dc_messages_other d))] else [])
              @ (if 0 < dc_unsolicited_pongs d then [IncBy UnsolicitedPongsTotal [n] (ucast (dc_unsolicited_pongs d))] else [])
              @ (if dc_messages_by_command d = [] \<and> dc_messages_other d = 0 then [inc SilentSessionsTotal [n]] else []),
              ''disconnected'', enum_label (disconnect_name (dc_reason d)) ''DISCONNECT_REASON_'', dc_setup_ms d)
         | Some (ResFailed r ms) \<Rightarrow> ([], ''failed'', enum_label (failure_name r) ''FAILURE_REASON_'', ms)
         | Some (ResOurFault r ms) \<Rightarrow> ([], ''our_fault'', enum_label (our_fault_name r) ''OUR_FAULT_REASON_'', ms)
         | None \<Rightarrow> ([], ''unknown'', ''unknown'', 0))
      in calls @ [inc ConnectionAttemptsTotal [n, outcome, reason],
                  Observe ConnectionSetupSeconds [n, outcome] (f64_div (u64_f64 setup_ms) 1000)])"

definition observe_send_cmpct :: "string \<Rightarrow> bool \<Rightarrow> u64 \<Rightarrow> metric_call list" where
  "observe_send_cmpct n high_bandwidth version =
     [inc SendCmpctTotal [n, if high_bandwidth then ''high'' else ''low'',
        if version = 1 then ''1'' else if version = 2 then ''2'' else OTHER]]"

text \<open>The totals by label, gathered before each series is touched once.\<close>

definition tally :: "string list \<Rightarrow> (string, u64) hashmap" where
  "tally ls = foldl (\<lambda>m l. AList.update l (1 + (case map_of m l of None \<Rightarrow> 0 | Some c \<Rightarrow> c)) m) [] ls"

definition observe_address_announcement :: "string \<Rightarrow> peer_event \<Rightarrow> address_announcement \<Rightarrow> metric_call list" where
  "observe_address_announcement n e ann =
     (let addrs = aa_addresses ann; now_s = u64_f64 (pe_timestamp_ms e div 1000)
      in [inc AddressAnnouncementsTotal [n, enum_label (addr_message_name (aa_message ann)) ''ADDR_MESSAGE_''],
          Observe AddressAnnouncementEntries [n] (f64_of (of_nat (length addrs + unat (aa_unparsed ann))))]
         @ (if 0 < aa_unparsed ann then [IncBy UnparsedAddressEntriesTotal [n] (ucast (aa_unparsed ann))] else [])
         @ (if 0 < aa_rate_limited ann then [IncBy RateLimitedAddressEntriesTotal [n] (ucast (aa_rate_limited ann))] else [])
         @ (if aa_solicited ann then [inc SolicitedAddressAnnouncementsTotal [n]] else [])
         @ [SetTo AddressRateLimitTokens [n] (aa_tokens ann)]
         @ (case addrs of
              [(addr, _, _)] \<Rightarrow>
                if aa_unparsed ann = 0 \<and> addr_host addr = addr_host (pe_peer_addr e) then [inc SelfAnnouncementsTotal [n]] else []
            | _ \<Rightarrow> [])
         @ [LookUp AddressEntryAgeSeconds [n]]
         @ map (\<lambda>(_, _, ntime). Observe AddressEntryAgeSeconds [n]
                  (peer_chosen (f64_sub now_s (of_nat (unat ntime))) ADDRESS_AGE)) addrs
         @ map (\<lambda>(net, count). IncBy AddressEntriesTotal [n, net] count) (tally (map (\<lambda>(addr, _, _). address_net addr) addrs))
         @ map (\<lambda>(service, count). IncBy AddressEntryServicesTotal [n, service] count)
             (tally (concat (map (\<lambda>(_, services, _). service_labels services) addrs))))"

definition observe_event :: "string \<Rightarrow> peer_event \<Rightarrow> network_state \<Rightarrow> metric_call list \<times> network_state" where
  "observe_event n e st =
     (case pe_event e of
        Some (Handshake hs) \<Rightarrow> met_handshake n e hs st
      | Some (PingRtt rtt tcp) \<Rightarrow> (observe_ping n rtt tcp, st)
      | Some (BlockAnnouncement blk) \<Rightarrow> observe_block_announcement n e blk st
      | Some (ConnectionResult r) \<Rightarrow> (observe_connection_result n (Some r), st)
      | Some (AddressAnnouncement ann) \<Rightarrow> (observe_address_announcement n e ann, st)
      | Some (CompactBlockProbe _ stage _) \<Rightarrow>
          ([inc CompactBlockProbesTotal [n, enum_label (probe_name stage) ''PROBE_STAGE_'']], st)
      | Some (FeeFilter rate) \<Rightarrow>
          ([inc FeeFiltersTotal [n], Observe FeeFilterSatPerKvb [n] (peer_chosen (u64_f64 rate) FEE_FILTER)], st)
      | Some (SendCmpctEv high version) \<Rightarrow> (observe_send_cmpct n high version, st)
      | None \<Rightarrow> ([], st))"

definition met_observe :: "string \<Rightarrow> peer_event \<Rightarrow> u64 \<Rightarrow> met_state \<Rightarrow> metric_call list \<times> met_state" where
  "met_observe n e now st =
     (let (c1, s) = observe_pipeline n e now (network_entry n st); (c2, s) = observe_event n e s
      in (c1 @ c2, AList.update n s st))"

definition met_message ::
  "(u8 list \<Rightarrow> peer_event option) \<Rightarrow> string \<Rightarrow> u8 list \<Rightarrow> u64 \<Rightarrow> met_state \<Rightarrow> metric_call list \<times> met_state" where
  "met_message decode subject payload now st =
     (case network_of subject of
        None \<Rightarrow> ([], st)
      | Some n \<Rightarrow>
          (case decode payload of
             None \<Rightarrow> ([inc UndecodableEventsTotal [n]], st)
           | Some e \<Rightarrow>
               (let k = kind_label (kind_of e); (calls, st) = met_observe n e now st
                in ([inc EventsTotal [n, k], IncBy EventBytesTotal [n, k] (of_nat (length payload))] @ calls, st))))"

text \<open>\<^verbatim>\<open>run\<close>: the time of the start, then the messages of the subscription, each with the clock read for it.\<close>

fun met_messages ::
  "(u8 list \<Rightarrow> peer_event option) \<Rightarrow> (string \<times> u8 list \<times> u64) list \<Rightarrow> met_state \<Rightarrow> metric_call list \<times> met_state" where
  "met_messages decode [] st = ([], st)"
| "met_messages decode ((subject, payload, now) # msgs) st =
     (let (c1, st) = met_message decode subject payload now st; (c2, st) = met_messages decode msgs st in (c1 @ c2, st))"

definition met_run ::
  "(u8 list \<Rightarrow> peer_event option) \<Rightarrow> u64 \<Rightarrow> (string \<times> u8 list \<times> u64) list \<Rightarrow> metric_call list \<times> met_state" where
  "met_run decode start msgs =
     (let (calls, st) = met_messages decode msgs [] in (SetTo StartTimestampSeconds [] (as_i64 (start div 1000)) # calls, st))"

end
