(* ===== verification/Metrics_Spec.thy ===== *)
theory Metrics_Spec
  imports Metrics
begin

text \<open>
  What the metrics tool promises (the comments of \<^verbatim>\<open>lib.rs\<close>, \<^verbatim>\<open>labels.rs\<close> and \<^verbatim>\<open>metrics.rs\<close>): the registration succeeds and no series is
  looked up with the wrong labels; the network can grow neither the registry nor what is remembered; a number a peer chose moves
  no sum beyond a limit and changes no bucket; and, together with the printing of addresses, which networks gossip is counted under.
\<close>

section \<open>The values a label can take\<close>

definition RESULTS :: "string list" where
  "RESULTS = [''disconnected'', ''failed'', ''our_fault'', ''unknown'']"

definition REASONS :: "string list" where
  "REASONS =
     map (\<lambda>r. enum_label (disconnect_name r) ''DISCONNECT_REASON_'')
       [DisUnknown, DisOtherChain, DisPeerClosed, DisTruncated, DisDecodeError, DisOversizedMessage, DisWrongMagic,
        DisV2DecryptError, DisWriteError, DisPingTimeout, DisProtocolViolation, DisConnectionReset, DisOther]
     @ map (\<lambda>r. enum_label (failure_name r) ''FAILURE_REASON_'')
       [FailUnknown, FailConnectionRefused, FailHostUnreachable, FailTcpConnectTimeout, FailV2TransportTimeout,
        FailVersionHandshakeTimeout, FailV2TransportHandshake, FailVersionHandshake, FailUnexpectedEof, FailOther]
     @ map (\<lambda>r. enum_label (our_fault_name r) ''OUR_FAULT_REASON_'')
       [FaultNetworkUnreachable, FaultProxyUnreachable, FaultNetworkDisabled]
     @ [''unknown'']"

definition SERVICES :: "string list" where
  "SERVICES = [''none'', ''all''] @ map bit_label [0 ..< 64]"

definition ANNOUNCEMENTS :: "string list" where
  "ANNOUNCEMENTS = map (\<lambda>t. enum_label (announcement_name t) ''ANNOUNCEMENT_TYPE_'') [AnnInv, AnnHeaders, AnnCompactBlock]"

definition STAGES :: "string list" where
  "STAGES = map (\<lambda>t. enum_label (probe_name t) ''PROBE_STAGE_'') [ProbeRequested, ProbeAnswered]"

definition MESSAGES :: "string list" where
  "MESSAGES = map (\<lambda>t. enum_label (addr_message_name t) ''ADDR_MESSAGE_'') [MsgAddr, MsgAddrv2]"

definition NETS :: "string list" where
  "NETS = [''onion'', ''i2p'', ''cjdns'', ''ipv6'', ''ipv4'', OTHER]"

text \<open>For each metric the values of its labels after the network, given what is remembered.\<close>

primrec label_values :: "network_state \<Rightarrow> metric \<Rightarrow> string list list" where
  "label_values st StartTimestampSeconds = []"
| "label_values st EventsTotal = [map kind_label (None # map Some all_kinds)]"
| "label_values st EventBytesTotal = [map kind_label (None # map Some all_kinds)]"
| "label_values st UndecodableEventsTotal = []"
| "label_values st EventDelaySeconds = []"
| "label_values st LastEventTimestampSeconds = []"
| "label_values st ObserverDroppedEvents = []"
| "label_values st ObserverDroppedEventsByKind = [map kind_label (None # map Some all_kinds)]"
| "label_values st ObserverRestartsTotal = []"
| "label_values st ConnectionAttemptsTotal = [RESULTS, REASONS]"
| "label_values st ConnectionSetupSeconds = [RESULTS]"
| "label_values st SessionDurationSeconds = []"
| "label_values st SessionMessagesTotal = [OTHER # KNOWN]"
| "label_values st UnsolicitedPongsTotal = []"
| "label_values st SilentSessionsTotal = []"
| "label_values st HandshakesTotal = [[''v1'', ''v2'', ''unknown'']]"
| "label_values st HandshakeUserAgentsTotal = [OTHER # bd_seen (ns_user_agents st)]"
| "label_values st HandshakeProtocolVersionsTotal = [OTHER # bd_seen (ns_protocol_versions st)]"
| "label_values st HandshakeServicesTotal = [SERVICES]"
| "label_values st HandshakeFeaturesTotal = [[''relay'', ''sendaddrv2'', ''wtxid_relay'', ''addr_recv'']]"
| "label_values st HandshakeClockSkewSeconds = []"
| "label_values st HandshakeHeightDelta = []"
| "label_values st BestHeight = []"
| "label_values st PingRttSeconds = []"
| "label_values st PingTcpSrttSeconds = []"
| "label_values st PingTcpMinRttSeconds = []"
| "label_values st PingTcpRttvarSeconds = []"
| "label_values st PingTcpCwndSegments = []"
| "label_values st PingTcpRetransmits = []"
| "label_values st PingTcpDeliveryRateBytesPerSecond = []"
| "label_values st BlockAnnouncementsTotal = [ANNOUNCEMENTS, [''known'', ''unknown'']]"
| "label_values st BlocksTotal = [ANNOUNCEMENTS, [''known'', ''unknown'']]"
| "label_values st BlockAnnouncementBatchSize = []"
| "label_values st BlockPropagationSeconds = [ANNOUNCEMENTS, [''known'', ''unknown'']]"
| "label_values st CompactBlockShortIds = []"
| "label_values st CompactBlockPrefilledTxs = []"
| "label_values st CompactBlockProbesTotal = [STAGES]"
| "label_values st FeeFiltersTotal = []"
| "label_values st FeeFilterSatPerKvb = []"
| "label_values st SendCmpctTotal = [[''high'', ''low''], [''1'', ''2'', OTHER]]"
| "label_values st AddressAnnouncementsTotal = [MESSAGES]"
| "label_values st AddressAnnouncementEntries = []"
| "label_values st AddressEntriesTotal = [NETS]"
| "label_values st AddressEntryServicesTotal = [SERVICES]"
| "label_values st AddressEntryAgeSeconds = []"
| "label_values st UnparsedAddressEntriesTotal = []"
| "label_values st RateLimitedAddressEntriesTotal = []"
| "label_values st SolicitedAddressAnnouncementsTotal = []"
| "label_values st SelfAnnouncementsTotal = []"
| "label_values st AddressRateLimitTokens = []"

text \<open>The kind of a metric and the number of its labels.\<close>

definition metric_shape :: "metric \<Rightarrow> (metric_kind \<times> nat) option" where
  "metric_shape m = map_option (\<lambda>(_, k, ls). (k, length ls)) (metric_info m)"

lemma shape_lookup:
  "map_option (\<lambda>(_, k, ls). (k, length ls)) (map_of r m) = map_of (map (\<lambda>(m, _, k, ls). (m, k, length ls)) r) m"
  by (induction r) auto

lemma metric_shape_table:
  "metric_shape m = map_of
    [(StartTimestampSeconds, (IntGaugeVec, 0)),
     (EventsTotal, (CounterVec, 2)),
     (EventBytesTotal, (CounterVec, 2)),
     (UndecodableEventsTotal, (CounterVec, 1)),
     (EventDelaySeconds, (HistogramVec DELAY_BUCKETS, 1)),
     (LastEventTimestampSeconds, (IntGaugeVec, 1)),
     (ObserverDroppedEvents, (IntGaugeVec, 1)),
     (ObserverDroppedEventsByKind, (IntGaugeVec, 2)),
     (ObserverRestartsTotal, (CounterVec, 1)),
     (ConnectionAttemptsTotal, (CounterVec, 3)),
     (ConnectionSetupSeconds, (HistogramVec SETUP_BUCKETS, 2)),
     (SessionDurationSeconds, (HistogramVec SESSION_BUCKETS, 1)),
     (SessionMessagesTotal, (CounterVec, 2)),
     (UnsolicitedPongsTotal, (CounterVec, 1)),
     (SilentSessionsTotal, (CounterVec, 1)),
     (HandshakesTotal, (CounterVec, 2)),
     (HandshakeUserAgentsTotal, (CounterVec, 2)),
     (HandshakeProtocolVersionsTotal, (CounterVec, 2)),
     (HandshakeServicesTotal, (CounterVec, 2)),
     (HandshakeFeaturesTotal, (CounterVec, 2)),
     (HandshakeClockSkewSeconds, (HistogramVec SKEW_BUCKETS, 1)),
     (HandshakeHeightDelta, (HistogramVec HEIGHT_DELTA_BUCKETS, 1)),
     (BestHeight, (IntGaugeVec, 1)),
     (PingRttSeconds, (HistogramVec RTT_BUCKETS, 1)),
     (PingTcpSrttSeconds, (HistogramVec RTT_BUCKETS, 1)),
     (PingTcpMinRttSeconds, (HistogramVec RTT_BUCKETS, 1)),
     (PingTcpRttvarSeconds, (HistogramVec RTT_BUCKETS, 1)),
     (PingTcpCwndSegments, (HistogramVec CWND_BUCKETS, 1)),
     (PingTcpRetransmits, (HistogramVec RETRANS_BUCKETS, 1)),
     (PingTcpDeliveryRateBytesPerSecond, (HistogramVec RATE_BUCKETS, 1)),
     (BlockAnnouncementsTotal, (CounterVec, 3)),
     (BlocksTotal, (CounterVec, 3)),
     (BlockAnnouncementBatchSize, (HistogramVec BATCH_BUCKETS, 1)),
     (BlockPropagationSeconds, (HistogramVec PROPAGATION_BUCKETS, 3)),
     (CompactBlockShortIds, (HistogramVec SHORT_ID_BUCKETS, 1)),
     (CompactBlockPrefilledTxs, (HistogramVec PREFILLED_BUCKETS, 1)),
     (CompactBlockProbesTotal, (CounterVec, 2)),
     (FeeFiltersTotal, (CounterVec, 1)),
     (FeeFilterSatPerKvb, (HistogramVec FEE_FILTER_BUCKETS, 1)),
     (SendCmpctTotal, (CounterVec, 3)),
     (AddressAnnouncementsTotal, (CounterVec, 2)),
     (AddressAnnouncementEntries, (HistogramVec ADDRESS_COUNT_BUCKETS, 1)),
     (AddressEntriesTotal, (CounterVec, 2)),
     (AddressEntryServicesTotal, (CounterVec, 2)),
     (AddressEntryAgeSeconds, (HistogramVec ADDRESS_AGE_BUCKETS, 1)),
     (UnparsedAddressEntriesTotal, (CounterVec, 1)),
     (RateLimitedAddressEntriesTotal, (CounterVec, 1)),
     (SolicitedAddressAnnouncementsTotal, (CounterVec, 1)),
     (SelfAnnouncementsTotal, (CounterVec, 1)),
     (AddressRateLimitTokens, (FloatGaugeVec, 1))] m"
proof -
  have "metric_shape m = map_of (map (\<lambda>(m, _, k, ls). (m, k, length ls)) metrics_new) m"
    unfolding metric_shape_def metric_info_def by (rule shape_lookup)
  then show ?thesis
    by (simp add: metrics_new_def reg_pipeline_def reg_attempts_def reg_handshakes_def reg_path_def reg_blocks_def
        reg_policy_def reg_gossip_def)
qed

lemma metric_shapes [simp]:
  "metric_shape EventsTotal = Some (CounterVec, 2)"
  "metric_shape EventBytesTotal = Some (CounterVec, 2)"
  "metric_shape UndecodableEventsTotal = Some (CounterVec, 1)"
  "metric_shape EventDelaySeconds = Some (HistogramVec DELAY_BUCKETS, 1)"
  "metric_shape LastEventTimestampSeconds = Some (IntGaugeVec, 1)"
  "metric_shape ObserverDroppedEvents = Some (IntGaugeVec, 1)"
  "metric_shape ObserverDroppedEventsByKind = Some (IntGaugeVec, 2)"
  "metric_shape ObserverRestartsTotal = Some (CounterVec, 1)"
  "metric_shape ConnectionAttemptsTotal = Some (CounterVec, 3)"
  "metric_shape ConnectionSetupSeconds = Some (HistogramVec SETUP_BUCKETS, 2)"
  "metric_shape SessionDurationSeconds = Some (HistogramVec SESSION_BUCKETS, 1)"
  "metric_shape SessionMessagesTotal = Some (CounterVec, 2)"
  "metric_shape UnsolicitedPongsTotal = Some (CounterVec, 1)"
  "metric_shape SilentSessionsTotal = Some (CounterVec, 1)"
  "metric_shape HandshakesTotal = Some (CounterVec, 2)"
  "metric_shape HandshakeUserAgentsTotal = Some (CounterVec, 2)"
  "metric_shape HandshakeProtocolVersionsTotal = Some (CounterVec, 2)"
  "metric_shape HandshakeServicesTotal = Some (CounterVec, 2)"
  "metric_shape HandshakeFeaturesTotal = Some (CounterVec, 2)"
  "metric_shape HandshakeClockSkewSeconds = Some (HistogramVec SKEW_BUCKETS, 1)"
  "metric_shape HandshakeHeightDelta = Some (HistogramVec HEIGHT_DELTA_BUCKETS, 1)"
  "metric_shape BestHeight = Some (IntGaugeVec, 1)"
  "metric_shape PingRttSeconds = Some (HistogramVec RTT_BUCKETS, 1)"
  "metric_shape PingTcpSrttSeconds = Some (HistogramVec RTT_BUCKETS, 1)"
  "metric_shape PingTcpMinRttSeconds = Some (HistogramVec RTT_BUCKETS, 1)"
  "metric_shape PingTcpRttvarSeconds = Some (HistogramVec RTT_BUCKETS, 1)"
  "metric_shape PingTcpCwndSegments = Some (HistogramVec CWND_BUCKETS, 1)"
  "metric_shape PingTcpRetransmits = Some (HistogramVec RETRANS_BUCKETS, 1)"
  "metric_shape PingTcpDeliveryRateBytesPerSecond = Some (HistogramVec RATE_BUCKETS, 1)"
  "metric_shape BlockAnnouncementsTotal = Some (CounterVec, 3)"
  "metric_shape BlocksTotal = Some (CounterVec, 3)"
  "metric_shape BlockAnnouncementBatchSize = Some (HistogramVec BATCH_BUCKETS, 1)"
  "metric_shape BlockPropagationSeconds = Some (HistogramVec PROPAGATION_BUCKETS, 3)"
  "metric_shape CompactBlockShortIds = Some (HistogramVec SHORT_ID_BUCKETS, 1)"
  "metric_shape CompactBlockPrefilledTxs = Some (HistogramVec PREFILLED_BUCKETS, 1)"
  "metric_shape CompactBlockProbesTotal = Some (CounterVec, 2)"
  "metric_shape FeeFiltersTotal = Some (CounterVec, 1)"
  "metric_shape FeeFilterSatPerKvb = Some (HistogramVec FEE_FILTER_BUCKETS, 1)"
  "metric_shape SendCmpctTotal = Some (CounterVec, 3)"
  "metric_shape AddressAnnouncementsTotal = Some (CounterVec, 2)"
  "metric_shape AddressAnnouncementEntries = Some (HistogramVec ADDRESS_COUNT_BUCKETS, 1)"
  "metric_shape AddressEntriesTotal = Some (CounterVec, 2)"
  "metric_shape AddressEntryServicesTotal = Some (CounterVec, 2)"
  "metric_shape AddressEntryAgeSeconds = Some (HistogramVec ADDRESS_AGE_BUCKETS, 1)"
  "metric_shape UnparsedAddressEntriesTotal = Some (CounterVec, 1)"
  "metric_shape RateLimitedAddressEntriesTotal = Some (CounterVec, 1)"
  "metric_shape SolicitedAddressAnnouncementsTotal = Some (CounterVec, 1)"
  "metric_shape SelfAnnouncementsTotal = Some (CounterVec, 1)"
  "metric_shape AddressRateLimitTokens = Some (FloatGaugeVec, 1)"
  "metric_shape StartTimestampSeconds = Some (IntGaugeVec, 0)"
  by (simp_all add: metric_shape_table)

fun kind_fits :: "metric_call \<Rightarrow> metric_kind \<Rightarrow> bool" where
  "kind_fits (IncBy _ _ _) k = (k = CounterVec)"
| "kind_fits (SetTo _ _ v) k = (k = FloatGaugeVec \<or> k = IntGaugeVec \<and> v \<in> \<int>)"
| "kind_fits (Observe _ _ _) k = (case k of HistogramVec _ \<Rightarrow> True | _ \<Rightarrow> False)"
| "kind_fits (LookUp _ _) k = True"

lemma call_ok_shape:
  "call_ok c \<longleftrightarrow> (case metric_shape (fst (series c)) of None \<Rightarrow> False | Some (k, len) \<Rightarrow> length (snd (series c)) = len \<and> kind_fits c k)"
  by (cases c) (auto simp: call_ok.simps metric_shape_def split: option.splits metric_kind.splits)

section \<open>Every call is in order\<close>

text \<open>The four histograms that take numbers chosen by a peer, and their limits.\<close>

definition peer_limits :: "(metric \<times> rat \<times> rat list) list" where
  "peer_limits =
     [(HandshakeClockSkewSeconds, SKEW, SKEW_BUCKETS), (HandshakeHeightDelta, HEIGHT_DELTA, HEIGHT_DELTA_BUCKETS),
      (FeeFilterSatPerKvb, FEE_FILTER, FEE_FILTER_BUCKETS), (AddressEntryAgeSeconds, ADDRESS_AGE, ADDRESS_AGE_BUCKETS)]"

definition clamped :: "metric_call \<Rightarrow> bool" where
  "clamped c \<longleftrightarrow>
     (case c of
        Observe m _ v \<Rightarrow> (case map_of peer_limits m of None \<Rightarrow> True | Some (limit, _) \<Rightarrow> \<bar>v\<bar> \<le> limit)
      | _ \<Rightarrow> True)"

text \<open>A call for network \<open>n\<close> whose labels have the values they can take.\<close>

definition allowed :: "string \<Rightarrow> network_state \<Rightarrow> metric_call \<Rightarrow> bool" where
  "allowed n st c \<longleftrightarrow>
     (case snd (series c) of
        [] \<Rightarrow> False
      | l # vs \<Rightarrow> l = n \<and> list_all2 (\<lambda>v vals. v \<in> set vals) vs (label_values st (fst (series c))))"

definition call_good :: "string \<Rightarrow> network_state \<Rightarrow> metric_call \<Rightarrow> bool" where
  "call_good n st c \<longleftrightarrow> call_ok c \<and> allowed n st c \<and> clamped c"

lemmas good_defs = call_good_def call_ok_shape allowed_def clamped_def peer_limits_def inc_def

lemma peer_chosen_limits:
  "\<bar>peer_chosen v SKEW\<bar> \<le> SKEW" "\<bar>peer_chosen v HEIGHT_DELTA\<bar> \<le> HEIGHT_DELTA"
  "\<bar>peer_chosen v FEE_FILTER\<bar> \<le> FEE_FILTER" "\<bar>peer_chosen v ADDRESS_AGE\<bar> \<le> ADDRESS_AGE"
  by (rule peer_chosen_bound, simp add: SKEW_def HEIGHT_DELTA_def FEE_FILTER_def ADDRESS_AGE_def)+

lemma as_i64_Ints [simp]: "as_i64 w \<in> \<int>"
  unfolding as_i64_def by (rule Ints_of_int)

lemma label_facts:
  "transport_label v \<in> set [''v1'', ''v2'', ''unknown'']"
  "enum_label (announcement_name t) ''ANNOUNCEMENT_TYPE_'' \<in> set ANNOUNCEMENTS"
  "enum_label (probe_name s) ''PROBE_STAGE_'' \<in> set STAGES"
  "enum_label (addr_message_name a) ''ADDR_MESSAGE_'' \<in> set MESSAGES"
  "enum_label (disconnect_name d) ''DISCONNECT_REASON_'' \<in> set REASONS"
  "enum_label (failure_name f) ''FAILURE_REASON_'' \<in> set REASONS"
  "enum_label (our_fault_name o') ''OUR_FAULT_REASON_'' \<in> set REASONS"
  "''unknown'' \<in> set REASONS"
  "command_label c \<in> set (OTHER # KNOWN)"
  "address_net x \<in> set NETS"
  "kind_label k \<in> set (map kind_label (None # map Some all_kinds))"
proof -
  show "enum_label (disconnect_name d) ''DISCONNECT_REASON_'' \<in> set REASONS"
  proof -
    have "d \<in> set [DisUnknown, DisOtherChain, DisPeerClosed, DisTruncated, DisDecodeError, DisOversizedMessage, DisWrongMagic,
        DisV2DecryptError, DisWriteError, DisPingTimeout, DisProtocolViolation, DisConnectionReset, DisOther]" by (cases d) simp_all
    then show ?thesis unfolding REASONS_def set_append set_map by blast
  qed
  show "enum_label (failure_name f) ''FAILURE_REASON_'' \<in> set REASONS"
  proof -
    have "f \<in> set [FailUnknown, FailConnectionRefused, FailHostUnreachable, FailTcpConnectTimeout, FailV2TransportTimeout,
        FailVersionHandshakeTimeout, FailV2TransportHandshake, FailVersionHandshake, FailUnexpectedEof, FailOther]" by (cases f) simp_all
    then show ?thesis unfolding REASONS_def set_append set_map by blast
  qed
  show "enum_label (our_fault_name o') ''OUR_FAULT_REASON_'' \<in> set REASONS"
  proof -
    have "o' \<in> set [FaultNetworkUnreachable, FaultProxyUnreachable, FaultNetworkDisabled]" by (cases o') simp_all
    then show ?thesis unfolding REASONS_def set_append set_map by blast
  qed
  show "kind_label k \<in> set (map kind_label (None # map Some all_kinds))"
  proof (cases k)
    case (Some j)
    have "j \<in> set all_kinds" by (cases j) (simp_all add: all_kinds_def)
    with Some show ?thesis by simp
  qed simp
  show "enum_label (announcement_name t) ''ANNOUNCEMENT_TYPE_'' \<in> set ANNOUNCEMENTS" by (cases t) (simp_all add: ANNOUNCEMENTS_def)
  show "enum_label (probe_name s) ''PROBE_STAGE_'' \<in> set STAGES" by (cases s) (simp_all add: STAGES_def)
  show "enum_label (addr_message_name a) ''ADDR_MESSAGE_'' \<in> set MESSAGES" by (cases a) (simp_all add: MESSAGES_def)
  show "address_net x \<in> set NETS"
    by (simp add: address_net_def NETS_def split: option.splits prod.splits ip_addr.splits)
qed (simp_all add: transport_label_def REASONS_def command_label_def)

lemma service_labels_known: "set (service_labels v) \<subseteq> set SERVICES"
  by (auto simp: service_labels_def SERVICES_def)

lemma bounded_label_facts:
  assumes "bounded_label v b = (l, b')"
  shows "l \<in> set (OTHER # bd_seen b')" "set (bd_seen b) \<subseteq> set (bd_seen b')" "bd_cap b' = bd_cap b"
    "length (bd_seen b) \<le> bd_cap b \<Longrightarrow> length (bd_seen b') \<le> bd_cap b'"
  using assms by (auto simp: bounded_label_def split: if_splits)

text \<open>More labels remembered allow more.\<close>

definition grows :: "network_state \<Rightarrow> network_state \<Rightarrow> bool" where
  "grows st st' \<longleftrightarrow>
     set (bd_seen (ns_user_agents st)) \<subseteq> set (bd_seen (ns_user_agents st'))
     \<and> set (bd_seen (ns_protocol_versions st)) \<subseteq> set (bd_seen (ns_protocol_versions st'))"

lemma grows_refl [simp]: "grows st st"
  by (simp add: grows_def)

lemma grows_trans: "grows a b \<Longrightarrow> grows b c \<Longrightarrow> grows a c"
  by (auto simp: grows_def)

lemma allowed_grows:
  assumes "allowed n st c" "grows st st'"
  shows "allowed n st' c"
proof -
  have "list_all2 (\<lambda>v vals. v \<in> set vals) vs (label_values st' m)"
    if "list_all2 (\<lambda>v vals. v \<in> set vals) vs (label_values st m)" for vs m
  proof -
    have "list_all2 (\<lambda>s t. set s \<subseteq> set t) (label_values st m) (label_values st' m)"
      using assms(2) by (cases m) (simp_all add: grows_def, blast+)
    with that show ?thesis by (rule list_all2_trans [rotated 1]) auto
  qed
  with assms(1) show ?thesis by (auto simp: allowed_def split: list.splits)
qed

lemma call_good_grows: "call_good n st c \<Longrightarrow> grows st st' \<Longrightarrow> call_good n st' c"
  using allowed_grows by (auto simp: call_good_def)

lemma list_all_good_grows: "list_all (call_good n st) cs \<Longrightarrow> grows st st' \<Longrightarrow> list_all (call_good n st') cs"
  by (auto simp: list_all_iff intro: call_good_grows)

section \<open>Event by event\<close>

lemma good_dropped: "list_all (call_good n st) (observe_dropped_by_kind n d)"
  using label_facts(11) by (auto simp: observe_dropped_by_kind_def list_all_iff good_defs)

lemma good_pipeline:
  assumes "observe_pipeline n e now st = (cs, st')"
  shows "list_all (call_good n st') cs"
proof -
  have "call_good n st' (Observe EventDelaySeconds [n] v)" "call_good n st' (SetTo LastEventTimestampSeconds [n] (as_i64 x))"
    "call_good n st' (SetTo ObserverDroppedEvents [n] (as_i64 y))" "call_good n st' (inc ObserverRestartsTotal [n])" for v x y
    by (simp_all add: good_defs)
  then show ?thesis using assms good_dropped by (auto simp: observe_pipeline_def Let_def split: option.splits)
qed

lemma good_handshake:
  assumes "met_handshake n e hs st = (cs, st')"
  shows "list_all (call_good n st') cs"
proof -
  obtain ua uas where ua: "bounded_label (user_agent (hs_user_agent hs)) (ns_user_agents st) = (ua, uas)" by force
  obtain v vs where v: "bounded_label (show_dec (unat (hs_protocol_version hs))) (ns_protocol_versions st) = (v, vs)" by force
  have st': "ns_user_agents st' = uas" "ns_protocol_versions st' = vs"
    using assms ua v by (auto simp: met_handshake_def)
  have "call_good n st' (inc HandshakesTotal [n, transport_label t])" for t
    using label_facts(1) [of t] by (simp add: good_defs)
  moreover have "call_good n st' (inc HandshakeUserAgentsTotal [n, ua])"
    using bounded_label_facts(1) [OF ua] by (simp add: good_defs st')
  moreover have "call_good n st' (inc HandshakeProtocolVersionsTotal [n, v])"
    using bounded_label_facts(1) [OF v] by (simp add: good_defs st')
  moreover have "call_good n st' (inc HandshakeServicesTotal [n, b])" if "b \<in> set (service_labels w)" for b w
    using service_labels_known that by (auto simp: good_defs)
  moreover have "call_good n st' (inc HandshakeFeaturesTotal [n, x])" if "x \<in> {''relay'', ''sendaddrv2'', ''wtxid_relay'', ''addr_recv''}" for x
    using that by (auto simp: good_defs)
  moreover have "call_good n st' (Observe HandshakeClockSkewSeconds [n] (peer_chosen x SKEW))"
    "call_good n st' (Observe HandshakeHeightDelta [n] (peer_chosen x HEIGHT_DELTA))" for x
    using peer_chosen_limits by (simp_all add: good_defs)
  ultimately show ?thesis using assms ua v
    by (auto simp: met_handshake_def Let_def list_all_iff split: option.splits if_splits)
qed

lemma good_ping: "list_all (call_good n st) (observe_ping n rtt tcp)"
  by (auto simp: observe_ping_def observe_tcp_def good_defs split: option.splits)

lemma good_block:
  assumes "observe_block_announcement n e blk st = (cs, st')"
  shows "list_all (call_good n st') cs"
proof -
  let ?t = "enum_label (announcement_name (ba_type blk)) ''ANNOUNCEMENT_TYPE_''"
  let ?h = "if ba_height blk \<noteq> None then ''known'' else ''unknown''"
  have h: "?h \<in> set [''known'', ''unknown'']" by simp
  have series: "call_good n st' (inc BlockAnnouncementsTotal [n, ?t, ?h])" "call_good n st' (inc BlocksTotal [n, ?t, ?h])"
    "call_good n st' (Observe BlockPropagationSeconds [n, ?t, ?h] v)" for v
    using label_facts(2) [of "ba_type blk"] h by (simp_all add: good_defs)
  have plain: "call_good n st' (Observe BlockAnnouncementBatchSize [n] v)" "call_good n st' (Observe CompactBlockShortIds [n] v)"
    "call_good n st' (Observe CompactBlockPrefilledTxs [n] v)" "call_good n st' (SetTo BestHeight [n] (of_nat k))" for v k
    by (simp_all add: good_defs)
  let ?calls = "fst (observe_block_announcement n e blk st)"
  have "list_all (call_good n st') ?calls"
    unfolding observe_block_announcement_def Let_def
    by (cases "ba_shape blk"; cases "ba_height blk"; cases "ba_new_to_us blk") (use series plain in \<open>auto split: option.splits\<close>)
  then show ?thesis using assms by simp
qed

lemma good_connection_result: "list_all (call_good n st) (observe_connection_result n r)"
proof -
  have "call_good n st (inc ConnectionAttemptsTotal [n, o', x])" if "o' \<in> set RESULTS" "x \<in> set REASONS" for o' x
    using that by (simp add: good_defs)
  moreover have "call_good n st (Observe ConnectionSetupSeconds [n, o'] v)" if "o' \<in> set RESULTS" for o' v
    using that by (simp add: good_defs)
  moreover have "set [''disconnected'', ''failed'', ''our_fault'', ''unknown''] \<subseteq> set RESULTS" by (simp add: RESULTS_def)
  moreover have "call_good n st (IncBy SessionMessagesTotal [n, command_label c] k)" "call_good n st (IncBy SessionMessagesTotal [n, OTHER] k)" for c k
    using label_facts(9) by (simp_all add: good_defs)
  moreover have "call_good n st (Observe SessionDurationSeconds [n] v)" "call_good n st (IncBy UnsolicitedPongsTotal [n] k)"
    "call_good n st (inc SilentSessionsTotal [n])" for v k
    by (simp_all add: good_defs)
  ultimately show ?thesis using label_facts(5-8)
    by (auto simp: observe_connection_result_def Let_def list_all_iff split: option.splits connection_result.splits)
qed

lemma tally_keys: "fst ` set (tally ls) \<subseteq> set ls"
proof -
  have "fst ` set (foldl (\<lambda>m l. AList.update l (1 + (case map_of m l of None \<Rightarrow> 0 | Some c \<Rightarrow> c)) m) m ls) \<subseteq> fst ` set m \<union> set ls" for m :: "(string, u64) hashmap"
  proof (induction ls arbitrary: m)
    case (Cons l ls)
    from Cons [of "AList.update l (1 + (case map_of m l of None \<Rightarrow> 0 | Some c \<Rightarrow> c)) m"] show ?case
      by (simp add: dom_update)
  qed simp
  from this [of "[]"] show ?thesis by (simp add: tally_def)
qed

lemma good_addresses: "list_all (call_good n st) (observe_address_announcement n e ann)"
proof -
  have net: "call_good n st (IncBy AddressEntriesTotal [n, x] k)" if "(x, k) \<in> set (tally (map (\<lambda>(addr, _, _). address_net addr) xs))" for x k xs
  proof -
    have "x \<in> set (map (\<lambda>(addr, _, _). address_net addr) xs)" using that by (intro subsetD [OF tally_keys]) force
    then have "x \<in> set NETS" using label_facts(10) by auto
    then show ?thesis by (simp add: good_defs)
  qed
  have service: "call_good n st (IncBy AddressEntryServicesTotal [n, x] k)"
    if "(x, k) \<in> set (tally (concat (map (\<lambda>(_, services, _). service_labels services) xs)))" for x k xs
  proof -
    have "x \<in> set (concat (map (\<lambda>(_, services, _). service_labels services) xs))" using that by (intro subsetD [OF tally_keys]) force
    then have "x \<in> set SERVICES" using service_labels_known by auto
    then show ?thesis by (simp add: good_defs)
  qed
  have msg: "call_good n st (inc AddressAnnouncementsTotal [n, enum_label (addr_message_name m) ''ADDR_MESSAGE_''])" for m
    using label_facts(4) by (simp add: good_defs)
  have age: "call_good n st (Observe AddressEntryAgeSeconds [n] (peer_chosen v ADDRESS_AGE))" for v
    using peer_chosen_limits by (simp add: good_defs)
  have plain: "call_good n st (Observe AddressAnnouncementEntries [n] v)" "call_good n st (IncBy UnparsedAddressEntriesTotal [n] k)"
    "call_good n st (IncBy RateLimitedAddressEntriesTotal [n] k)" "call_good n st (inc SolicitedAddressAnnouncementsTotal [n])"
    "call_good n st (SetTo AddressRateLimitTokens [n] v)" "call_good n st (inc SelfAnnouncementsTotal [n])"
    "call_good n st (LookUp AddressEntryAgeSeconds [n])" for v k
    by (simp_all add: good_defs)
  have self: "list_all (call_good n st) (case aa_addresses ann of
      [(addr, _, _)] \<Rightarrow> if aa_unparsed ann = 0 \<and> addr_host addr = addr_host (pe_peer_addr e) then [inc SelfAnnouncementsTotal [n]] else []
    | _ \<Rightarrow> [])"
    using plain by (cases "aa_addresses ann"; cases "tl (aa_addresses ann)") auto
  have nets: "list_all (call_good n st) (map (\<lambda>(net, count). IncBy AddressEntriesTotal [n, net] count) (tally (map (\<lambda>(addr, _, _). address_net addr) xs)))" for xs
    using net by (auto simp: list_all_iff)
  have services: "list_all (call_good n st) (map (\<lambda>(service, count). IncBy AddressEntryServicesTotal [n, service] count)
       (tally (concat (map (\<lambda>(_, services, _). service_labels services) xs))))" for xs
    using service by (auto simp: list_all_iff)
  have ages: "list_all (call_good n st) (map (\<lambda>(_, _, ntime). Observe AddressEntryAgeSeconds [n]
       (peer_chosen (f64_sub v (of_nat (unat ntime))) ADDRESS_AGE)) xs)" for v and xs :: "(string \<times> u64 \<times> u32) list"
    using age by (auto simp: list_all_iff)
  show ?thesis
    unfolding observe_address_announcement_def Let_def list_all_append
    by (intro conjI self nets services ages) (use msg plain in simp_all)
qed

lemma good_event:
  assumes "observe_event n e st = (cs, st')"
  shows "list_all (call_good n st') cs"
proof -
  have probe: "call_good n st' (inc CompactBlockProbesTotal [n, enum_label (probe_name s) ''PROBE_STAGE_''])" for s
    using label_facts(3) by (simp add: good_defs)
  have fee: "call_good n st' (inc FeeFiltersTotal [n])" "call_good n st' (Observe FeeFilterSatPerKvb [n] (peer_chosen v FEE_FILTER))" for v
    using peer_chosen_limits by (simp_all add: good_defs)
  have cmpct: "list_all (call_good n st') (observe_send_cmpct n h v)" for h v
    by (simp add: observe_send_cmpct_def good_defs)
  show ?thesis
  proof (cases "pe_event e")
    case (Some ev)
    with assms good_handshake good_ping good_block good_connection_result good_addresses probe fee cmpct show ?thesis
      by (cases ev) (auto simp: observe_event_def)
  qed (use assms in \<open>simp add: observe_event_def\<close>)
qed

section \<open>What is remembered stays small\<close>

definition blocks_ok :: "recent_blocks \<Rightarrow> bool" where
  "blocks_ok rb \<longleftrightarrow> hm_ok (rb_first_seen rb) \<and> distinct (rb_order rb) \<and> fst ` set (rb_first_seen rb) = set (rb_order rb)
     \<and> length (rb_order rb) \<le> RECENT_BLOCKS"

definition net_ok :: "network_state \<Rightarrow> bool" where
  "net_ok st \<longleftrightarrow>
     bd_cap (ns_user_agents st) = USER_AGENT_CAP \<and> length (bd_seen (ns_user_agents st)) \<le> USER_AGENT_CAP
     \<and> bd_cap (ns_protocol_versions st) = PROTOCOL_VERSION_CAP
     \<and> length (bd_seen (ns_protocol_versions st)) \<le> PROTOCOL_VERSION_CAP \<and> blocks_ok (ns_blocks st)"

lemma net_ok_default: "net_ok network_default"
  by (simp add: net_ok_def network_default_def bounded_new_def blocks_ok_def)

lemma forget_old_ok:
  "forget_old m order = (m', order') \<Longrightarrow> hm_ok m \<Longrightarrow> distinct order \<Longrightarrow> fst ` set m = set order \<Longrightarrow>
     hm_ok m' \<and> distinct order' \<and> fst ` set m' = set order' \<and> length order' \<le> RECENT_BLOCKS"
proof (induction m order rule: forget_old.induct)
  case (2 m old order)
  show ?case
  proof (cases "RECENT_BLOCKS < length (old # order)")
    case True
    have "hm_ok (AList.delete old m)" using "2.prems"(2) by (simp add: hm_ok_def distinct_delete)
    moreover have "fst ` set (AList.delete old m) = set order"
      using "2.prems"(3,4) by (auto simp: delete_keys [symmetric] simp flip: set_map) (simp add: delete_keys)+
    ultimately show ?thesis using "2.IH" [OF True] "2.prems" True by simp
  next
    case False
    with "2.prems" show ?thesis by auto
  qed
qed simp

lemma record_block_ok:
  assumes "blocks_ok rb"
  shows "blocks_ok (record_block h t rb)"
proof (cases "map_of (rb_first_seen rb) h")
  case (Some t')
  then have "h \<in> fst ` set (rb_first_seen rb)" by (force dest: map_of_SomeD)
  with Some assms show ?thesis by (auto simp: record_block_def blocks_ok_def dom_update)
next
  case None
  obtain m order where f: "forget_old (AList.update h t (rb_first_seen rb)) (rb_order rb @ [h]) = (m, order)" by force
  have "h \<notin> set (rb_order rb)" using None assms by (auto simp: blocks_ok_def map_of_eq_None_iff)
  with forget_old_ok [OF f] assms None f show ?thesis
    by (auto simp: record_block_def blocks_ok_def dom_update)
qed

section \<open>The contract of a handler\<close>

text \<open>
  Every handler of an event works on what is remembered about its network. It makes calls whose labels the state it leaves
  allows, and it forgets no label.
\<close>

locale metric_handler =
  fixes handle :: "string \<Rightarrow> network_state \<Rightarrow> metric_call list \<times> network_state"
  assumes good: "handle n st = (cs, st') \<Longrightarrow> list_all (call_good n st') cs"
    and labels_grow: "handle n st = (cs, st') \<Longrightarrow> grows st st'"
    and keeps: "handle n st = (cs, st') \<Longrightarrow> net_ok st \<Longrightarrow> net_ok st'"

text \<open>One handler after the other.\<close>

definition handler_seq ::
  "(string \<Rightarrow> network_state \<Rightarrow> metric_call list \<times> network_state) \<Rightarrow> (string \<Rightarrow> network_state \<Rightarrow> metric_call list \<times> network_state)
    \<Rightarrow> string \<Rightarrow> network_state \<Rightarrow> metric_call list \<times> network_state" where
  "handler_seq f g n st = (let (c1, st) = f n st; (c2, st) = g n st in (c1 @ c2, st))"

locale handler_pair = fst_h: metric_handler f + snd_h: metric_handler g for f g

sublocale handler_pair \<subseteq> seq: metric_handler "handler_seq f g"
proof
  fix n st cs st'
  assume h: "handler_seq f g n st = (cs, st')"
  then obtain c1 s1 c2 where p: "f n st = (c1, s1)" "g n s1 = (c2, st')" "cs = c1 @ c2"
    by (auto simp: handler_seq_def split: prod.splits)
  show "list_all (call_good n st') cs"
    using fst_h.good [OF p(1)] snd_h.good [OF p(2)] snd_h.labels_grow [OF p(2)] p(3) by (simp add: list_all_good_grows)
  show "grows st st'" using fst_h.labels_grow [OF p(1)] snd_h.labels_grow [OF p(2)] by (rule grows_trans)
  show "net_ok st \<Longrightarrow> net_ok st'" using fst_h.keeps [OF p(1)] snd_h.keeps [OF p(2)] by blast
qed

interpretation pipeline: metric_handler "\<lambda>n. observe_pipeline n e now" for e now
proof
  fix n st cs st'
  assume h: "observe_pipeline n e now st = (cs, st')"
  show "list_all (call_good n st') cs" by (rule good_pipeline [OF h])
  show "grows st st'" "net_ok st \<Longrightarrow> net_ok st'" using h by (auto simp: observe_pipeline_def Let_def grows_def net_ok_def)
qed

lemma handshake_keeps:
  assumes "met_handshake n e hs st = (cs, st')"
  shows "grows st st'" "net_ok st \<Longrightarrow> net_ok st'"
proof -
  obtain ua uas where ua: "bounded_label (user_agent (hs_user_agent hs)) (ns_user_agents st) = (ua, uas)" by force
  obtain v vs where v: "bounded_label (show_dec (unat (hs_protocol_version hs))) (ns_protocol_versions st) = (v, vs)" by force
  have st': "st' = st\<lparr>ns_user_agents := uas, ns_protocol_versions := vs\<rparr>" using assms ua v by (simp add: met_handshake_def)
  show "grows st st'" "net_ok st \<Longrightarrow> net_ok st'"
    using bounded_label_facts(2-4) [OF ua] bounded_label_facts(2-4) [OF v] by (auto simp: st' grows_def net_ok_def)
qed

lemma block_keeps:
  assumes "observe_block_announcement n e blk st = (cs, st')"
  shows "grows st st'" "net_ok st \<Longrightarrow> net_ok st'"
proof -
  have "ns_user_agents st' = ns_user_agents st \<and> ns_protocol_versions st' = ns_protocol_versions st
      \<and> (ns_blocks st' = ns_blocks st \<or> ns_blocks st' = record_block (ba_hash blk) (pe_timestamp_ms e) (ns_blocks st))"
    using assms unfolding observe_block_announcement_def Let_def
    by (cases "ba_height blk"; cases "ba_new_to_us blk"; cases "ns_best_height st") (auto split: if_splits)
  then show "grows st st'" "net_ok st \<Longrightarrow> net_ok st'" by (auto simp: grows_def net_ok_def record_block_ok)
qed

interpretation event: metric_handler "\<lambda>n. observe_event n e" for e
proof
  fix n st cs st'
  assume h: "observe_event n e st = (cs, st')"
  show "list_all (call_good n st') cs" by (rule good_event [OF h])
  have "grows st st' \<and> (net_ok st \<longrightarrow> net_ok st')"
  proof (cases "pe_event e")
    case (Some ev)
    with h handshake_keeps block_keeps show ?thesis by (cases ev) (fastforce simp: observe_event_def)+
  qed (use h in \<open>simp add: observe_event_def\<close>)
  then show "grows st st'" "net_ok st \<Longrightarrow> net_ok st'" by blast+
qed

interpretation observe: handler_pair "\<lambda>n. observe_pipeline n e now" "\<lambda>n. observe_event n e" for e now
  by unfold_locales

section \<open>A run of the tool\<close>

text \<open>The calls made so far are in order and allowed by what is remembered of their networks.\<close>

definition call_fits :: "met_state \<Rightarrow> metric_call \<Rightarrow> bool" where
  "call_fits st c \<longleftrightarrow>
     call_ok c \<and> clamped c \<and> (case snd (series c) of [] \<Rightarrow> True | n # _ \<Rightarrow> allowed n (network_entry n st) c)"

definition tidy :: "met_state \<Rightarrow> bool" where
  "tidy st \<longleftrightarrow> list_all (\<lambda>(_, s). net_ok s) st"

lemma tidy_entry: "tidy st \<Longrightarrow> net_ok (network_entry n st)"
  using net_ok_default by (fastforce simp: tidy_def network_entry_def list_all_iff split: option.splits dest: map_of_SomeD)

lemma tidy_update: "tidy st \<Longrightarrow> net_ok s \<Longrightarrow> tidy (AList.update n s st)"
  by (induction st) (auto simp: tidy_def)

lemma network_entry_update: "network_entry n' (AList.update n s st) = (if n' = n then s else network_entry n' st)"
  by (simp add: network_entry_def update_conv')

lemma call_fits_update:
  assumes "call_fits st c" "grows (network_entry n st) s"
  shows "call_fits (AList.update n s st) c"
  using assms by (auto simp: call_fits_def network_entry_update allowed_grows split: list.splits)

lemma call_good_fits: "call_good n (network_entry n st) c \<Longrightarrow> call_fits st c"
  by (auto simp: call_good_def call_fits_def allowed_def split: list.splits)

text \<open>A handler applied to the state of one network.\<close>

definition on_network ::
  "(string \<Rightarrow> network_state \<Rightarrow> metric_call list \<times> network_state) \<Rightarrow> string \<Rightarrow> met_state \<Rightarrow> metric_call list \<times> met_state" where
  "on_network f n st = (let (cs, s) = f n (network_entry n st) in (cs, AList.update n s st))"

context metric_handler
begin

lemma on_network_keeps:
  assumes "on_network handle n st = (cs, st')" "tidy st"
  shows "tidy st'" "list_all (call_fits st') cs" "call_fits st c \<Longrightarrow> call_fits st' c"
proof -
  obtain s where s: "handle n (network_entry n st) = (cs, s)" "st' = AList.update n s st"
    using assms(1) by (auto simp: on_network_def split: prod.splits)
  show "tidy st'" using keeps [OF s(1)] tidy_entry [OF assms(2)] assms(2) by (simp add: s(2) tidy_update)
  have "list_all (call_good n (network_entry n st')) cs" using good [OF s(1)] by (simp add: s(2) network_entry_update)
  then show "list_all (call_fits st') cs" by (auto simp: list_all_iff intro: call_good_fits)
  show "call_fits st c \<Longrightarrow> call_fits st' c" using labels_grow [OF s(1)] by (simp add: s(2) call_fits_update)
qed

end

lemma met_observe_on_network:
  "met_observe n e now st = on_network (handler_seq (\<lambda>n. observe_pipeline n e now) (\<lambda>n. observe_event n e)) n st"
  by (simp add: met_observe_def on_network_def handler_seq_def split: prod.splits)

lemma met_message_keeps:
  assumes "met_message decode subject payload now st = (cs, st')" "tidy st"
  shows "tidy st' \<and> list_all (call_fits st') cs \<and> (call_fits st c \<longrightarrow> call_fits st' c)"
proof (cases "network_of subject")
  case (Some n)
  show ?thesis
  proof (cases "decode payload")
    case None
    have "call_fits st (inc UndecodableEventsTotal [n])" by (rule call_good_fits [of n]) (simp add: good_defs)
    with None Some assms show ?thesis by (auto simp: met_message_def)
  next
    case e: (Some e)
    obtain calls where o': "met_observe n e now st = (calls, st')"
      "cs = [inc EventsTotal [n, kind_label (kind_of e)], IncBy EventBytesTotal [n, kind_label (kind_of e)] (of_nat (length payload))] @ calls"
      using assms(1) Some e by (auto simp: met_message_def Let_def split: prod.splits)
    have "call_good n s (inc EventsTotal [n, kind_label k])" "call_good n s (IncBy EventBytesTotal [n, kind_label k] b)" for s k b
      using label_facts(11) [of k] by (simp_all add: good_defs)
    then have "call_fits st' (inc EventsTotal [n, kind_label k])" "call_fits st' (IncBy EventBytesTotal [n, kind_label k] b)" for k b
      by (blast intro: call_good_fits)+
    with observe.seq.on_network_keeps [OF o'(1) [unfolded met_observe_on_network] assms(2)] o'(2) show ?thesis by simp
  qed
qed (use assms in \<open>simp add: met_message_def\<close>)

lemma met_messages_keeps:
  "met_messages decode msgs st = (cs, st') \<Longrightarrow> tidy st \<Longrightarrow>
     tidy st' \<and> list_all (call_fits st') cs \<and> (call_fits st c \<longrightarrow> call_fits st' c)"
proof (induction msgs arbitrary: st cs c)
  case (Cons m msgs)
  obtain subject payload now where m: "m = (subject, payload, now)" by (metis prod_cases3)
  obtain c1 s1 c2 where p: "met_message decode subject payload now st = (c1, s1)" "met_messages decode msgs s1 = (c2, st')" "cs = c1 @ c2"
    using Cons.prems(1) m by (auto split: prod.splits)
  have s1: "tidy s1" "list_all (call_fits s1) c1" "call_fits st d \<Longrightarrow> call_fits s1 d" for d
    using met_message_keeps [OF p(1) Cons.prems(2)] by blast+
  have "tidy st'" "list_all (call_fits st') c2" "call_fits s1 d \<Longrightarrow> call_fits st' d" for d
    using Cons.IH [OF p(2) s1(1)] by blast+
  with s1(2,3) p(3) show ?case by (auto simp: list_all_iff)
qed simp

lemma met_run_keeps:
  assumes "met_run decode start msgs = (cs, st)"
  shows "tidy st" "list_all (call_fits st) cs"
proof -
  obtain calls where m: "met_messages decode msgs [] = (calls, st)" "cs = SetTo StartTimestampSeconds [] (as_i64 (start div 1000)) # calls"
    using assms by (auto simp: met_run_def split: prod.splits)
  have "tidy []" by (simp add: tidy_def)
  moreover have "call_fits st (SetTo StartTimestampSeconds [] (as_i64 x))" for x
    by (simp add: call_fits_def call_ok_shape clamped_def)
  ultimately show "tidy st" "list_all (call_fits st) cs" using met_messages_keeps [OF m(1)] m(2) by simp_all
qed

section \<open>Counting the series\<close>

lemma card_label_tuples:
  "finite {vs. list_all2 (\<lambda>v vals. v \<in> set vals) vs Vs} \<and> card {vs. list_all2 (\<lambda>v vals. v \<in> set vals) vs Vs} \<le> prod_list (map length Vs)"
proof (induction Vs)
  case (Cons V Vs)
  let ?T = "{vs. list_all2 (\<lambda>v vals. v \<in> set vals) vs Vs}"
  have eq: "{vs. list_all2 (\<lambda>v vals. v \<in> set vals) vs (V # Vs)} = (\<lambda>(v, vs). v # vs) ` (set V \<times> ?T)"
    by (auto simp: list_all2_Cons2)
  have "card ((\<lambda>(v, vs). v # vs) ` (set V \<times> ?T)) \<le> card (set V) * card ?T"
    using Cons card_image_le [of "set V \<times> ?T" "\<lambda>(v, vs). v # vs"] by (simp add: card_cartesian_product)
  also have "\<dots> \<le> length V * prod_list (map length Vs)" using Cons card_length [of V] by (intro mult_mono) auto
  finally show ?case unfolding eq using Cons by simp
qed (simp add: list_all2_Nil2)

lemma card_dependent_pairs:
  assumes "\<And>m. finite (A m) \<and> card (A m) \<le> f m"
  shows "finite {(m, x). m \<in> set ms \<and> x \<in> A m} \<and> card {(m, x). m \<in> set ms \<and> x \<in> A m} \<le> sum_list (map f ms)"
proof (induction ms)
  case (Cons m ms)
  have eq: "{(k, x). k \<in> set (m # ms) \<and> x \<in> A k} = Pair m ` A m \<union> {(k, x). k \<in> set ms \<and> x \<in> A k}" by auto
  have "card (Pair m ` A m \<union> {(k, x). k \<in> set ms \<and> x \<in> A k}) \<le> card (Pair m ` A m) + card {(k, x). k \<in> set ms \<and> x \<in> A k}"
    by (rule card_Un_le)
  also have "\<dots> \<le> f m + sum_list (map f ms)"
    using Cons assms [of m] card_image_le [of "A m" "Pair m"] by (intro add_mono) auto
  finally show ?case unfolding eq using Cons assms [of m] by simp
qed simp

definition all_metrics :: "metric list" where
  "all_metrics = map fst metrics_new"

lemmas registry_defs = metrics_new_def reg_pipeline_def reg_attempts_def reg_handshakes_def reg_path_def reg_blocks_def
  reg_policy_def reg_gossip_def

lemma all_metrics_complete: "m \<in> set all_metrics"
  by (cases m) (simp_all add: all_metrics_def registry_defs)

text \<open>The metric without a network label is counted too.\<close>

lemma label_count:
  "sum_list (map (\<lambda>m. prod_list (map length (label_values st m))) all_metrics) =
    383 + length (bd_seen (ns_user_agents st)) + length (bd_seen (ns_protocol_versions st))"
  by (simp add: all_metrics_def registry_defs RESULTS_def REASONS_def SERVICES_def KNOWN_def ANNOUNCEMENTS_def STAGES_def
      MESSAGES_def NETS_def all_kinds_def)

lemma series_bound:
  assumes "list_all (call_fits st) cs" "tidy st"
  shows "card {(m, vs). \<exists>c \<in> set cs. series c = (m, n # vs)} \<le> 543"
proof -
  let ?s = "network_entry n st"
  let ?A = "\<lambda>m. {vs. list_all2 (\<lambda>v vals. v \<in> set vals) vs (label_values ?s m)}"
  have "{(m, vs). \<exists>c \<in> set cs. series c = (m, n # vs)} \<subseteq> {(m, vs). m \<in> set all_metrics \<and> vs \<in> ?A m}"
    using assms(1) all_metrics_complete by (fastforce simp: list_all_iff call_fits_def allowed_def)
  moreover note card_dependent_pairs [of ?A "\<lambda>m. prod_list (map length (label_values ?s m))" all_metrics, OF card_label_tuples]
  ultimately have "card {(m, vs). \<exists>c \<in> set cs. series c = (m, n # vs)} \<le> sum_list (map (\<lambda>m. prod_list (map length (label_values ?s m))) all_metrics)"
    by (meson card_mono order_trans)
  also have "\<dots> \<le> 543"
    using tidy_entry [OF assms(2), of n] by (simp add: label_count net_ok_def USER_AGENT_CAP_def PROTOCOL_VERSION_CAP_def)
  finally show ?thesis .
qed

section \<open>Properties\<close>

text \<open>
  C30. Every series is bounded. Whatever peers say and however long the tool runs, a network has at most 543 series, and what is remembered
  of it is at most 128 user agents, 32 protocol versions and 64 blocks.
\<close>

theorem peers_cannot_grow_the_registry:
  "card {(m, vs). \<exists>c \<in> set (fst (met_run decode start msgs)). series c = (m, n # vs)} \<le> 543
   \<and> list_all (\<lambda>(_, s). length (bd_seen (ns_user_agents s)) \<le> 128 \<and> length (bd_seen (ns_protocol_versions s)) \<le> 32
        \<and> length (rb_order (ns_blocks s)) \<le> 64 \<and> length (rb_first_seen (ns_blocks s)) = length (rb_order (ns_blocks s)))
      (snd (met_run decode start msgs))"
proof -
  obtain cs st where r: "met_run decode start msgs = (cs, st)" by force
  have len: "length (rb_first_seen rb) = length (rb_order rb)" if "blocks_ok rb" for rb
    using that distinct_card [of "map fst (rb_first_seen rb)"] distinct_card [of "rb_order rb"] by (simp add: blocks_ok_def hm_ok_def)
  have "list_all (\<lambda>(_, s). length (bd_seen (ns_user_agents s)) \<le> 128 \<and> length (bd_seen (ns_protocol_versions s)) \<le> 32
        \<and> length (rb_order (ns_blocks s)) \<le> 64 \<and> length (rb_first_seen (ns_blocks s)) = length (rb_order (ns_blocks s))) st"
    using met_run_keeps(1) [OF r] len
    by (fastforce simp: tidy_def list_all_iff net_ok_def blocks_ok_def USER_AGENT_CAP_def PROTOCOL_VERSION_CAP_def RECENT_BLOCKS_def)
  then show ?thesis using series_bound [OF met_run_keeps(2,1) [OF r]] by (simp add: r)
qed

lemma f64_strict:
  assumes "0 \<le> x" "x + 1 / 2000 \<le> y" "y \<le> 1000"
  shows "f64_of x < f64_of y"
proof -
  have pow: "(2::rat) powi (- 53) \<le> 1 / 2 ^ 53" "(2::rat) powi (- 1074 - 1) \<le> 1 / 2 ^ 53"
    by (simp_all add: power_int_def power_divide)
  have err: "\<bar>f64_of z - z\<bar> \<le> 1 / 8000" if "0 \<le> z" "z \<le> 1000" for z
  proof -
    have "\<bar>f64_of z - z\<bar> \<le> \<bar>z\<bar> * 2 powi (- 53) + 2 powi (- 1074 - 1)" by (rule f64.fl_rel_error)
    also have "\<dots> \<le> 1000 * (1 / 2 ^ 53) + 1 / 2 ^ 53" using that pow by (intro add_mono mult_mono) auto
    also have "\<dots> \<le> 1 / 8000" by simp
    finally show ?thesis .
  qed
  have "x \<le> 1000" "0 \<le> y" using assms by linarith+
  with err [of x] err [of y] assms show ?thesis unfolding abs_le_iff by linarith
qed

lemma f64_ascending:
  "sorted_wrt (\<lambda>x y. 0 \<le> x \<and> x + 1 / 2000 \<le> y \<and> y \<le> 1000) xs \<Longrightarrow> sorted_wrt (<) (map f64_of xs)"
  unfolding sorted_wrt_map by (erule sorted_wrt_mono_rel [rotated]) (use f64_strict in blast)

lemma buckets_ascend:
  "sorted_wrt (<) RTT_BUCKETS" "sorted_wrt (<) DELAY_BUCKETS" "sorted_wrt (<) SETUP_BUCKETS" "sorted_wrt (<) PROPAGATION_BUCKETS"
  unfolding RTT_BUCKETS_def DELAY_BUCKETS_def SETUP_BUCKETS_def PROPAGATION_BUCKETS_def by (rule f64_ascending, simp)+

lemma whole_buckets_ascend:
  "sorted_wrt (<) SESSION_BUCKETS" "sorted_wrt (<) SKEW_BUCKETS" "sorted_wrt (<) HEIGHT_DELTA_BUCKETS" "sorted_wrt (<) BATCH_BUCKETS"
  "sorted_wrt (<) SHORT_ID_BUCKETS" "sorted_wrt (<) PREFILLED_BUCKETS" "sorted_wrt (<) FEE_FILTER_BUCKETS"
  "sorted_wrt (<) ADDRESS_COUNT_BUCKETS" "sorted_wrt (<) ADDRESS_AGE_BUCKETS" "sorted_wrt (<) CWND_BUCKETS"
  "sorted_wrt (<) RETRANS_BUCKETS" "sorted_wrt (<) RATE_BUCKETS"
  by (simp_all add: SESSION_BUCKETS_def SKEW_BUCKETS_def HEIGHT_DELTA_BUCKETS_def BATCH_BUCKETS_def SHORT_ID_BUCKETS_def PREFILLED_BUCKETS_def
      FEE_FILTER_BUCKETS_def ADDRESS_COUNT_BUCKETS_def ADDRESS_AGE_BUCKETS_def CWND_BUCKETS_def RETRANS_BUCKETS_def RATE_BUCKETS_def)

lemma buckets_nonempty:
  "RTT_BUCKETS \<noteq> []" "DELAY_BUCKETS \<noteq> []" "SETUP_BUCKETS \<noteq> []" "PROPAGATION_BUCKETS \<noteq> []" "SESSION_BUCKETS \<noteq> []" "SKEW_BUCKETS \<noteq> []"
  "HEIGHT_DELTA_BUCKETS \<noteq> []" "BATCH_BUCKETS \<noteq> []" "SHORT_ID_BUCKETS \<noteq> []" "PREFILLED_BUCKETS \<noteq> []" "FEE_FILTER_BUCKETS \<noteq> []"
  "ADDRESS_COUNT_BUCKETS \<noteq> []" "ADDRESS_AGE_BUCKETS \<noteq> []" "CWND_BUCKETS \<noteq> []" "RETRANS_BUCKETS \<noteq> []" "RATE_BUCKETS \<noteq> []"
  by (simp_all add: RTT_BUCKETS_def DELAY_BUCKETS_def SETUP_BUCKETS_def PROPAGATION_BUCKETS_def SESSION_BUCKETS_def SKEW_BUCKETS_def
      HEIGHT_DELTA_BUCKETS_def BATCH_BUCKETS_def SHORT_ID_BUCKETS_def PREFILLED_BUCKETS_def FEE_FILTER_BUCKETS_def
      ADDRESS_COUNT_BUCKETS_def ADDRESS_AGE_BUCKETS_def CWND_BUCKETS_def RETRANS_BUCKETS_def RATE_BUCKETS_def)

lemma registry_names_distinct: "distinct (map (\<lambda>(_, name, _, _). name) metrics_new)"
  by (simp add: registry_defs)

lemma registry_new_ok: "registry_ok metrics_new"
  unfolding registry_ok_def
proof (rule conjI [OF registry_names_distinct])
  show "list_all (\<lambda>(_, _, kind, labels). distinct labels \<and> (case kind of HistogramVec bs \<Rightarrow> bs \<noteq> [] \<and> sorted_wrt (<) bs | _ \<Rightarrow> True)) metrics_new"
    by (simp add: registry_defs buckets_ascend whole_buckets_ascend buckets_nonempty)
qed

text \<open>
  C31. The tool registers its metrics without error, and no call panics or is refused: each names a registered metric of the right kind, with
  one value for every label.
\<close>

theorem metric_calls_fit_the_registry:
  "registry_ok metrics_new \<and> list_all call_ok (fst (met_run decode start msgs))"
proof -
  obtain cs st where r: "met_run decode start msgs = (cs, st)" by force
  show ?thesis using met_run_keeps(2) [OF r] registry_new_ok by (auto simp: r list_all_iff call_fits_def)
qed

lemma limits_outside_buckets: "list_all (\<lambda>(_, limit, bs). list_all (\<lambda>b. \<bar>b\<bar> < limit) bs) peer_limits"
  by (simp add: peer_limits_def SKEW_def HEIGHT_DELTA_def FEE_FILTER_def ADDRESS_AGE_def SKEW_BUCKETS_def HEIGHT_DELTA_BUCKETS_def
      FEE_FILTER_BUCKETS_def ADDRESS_AGE_BUCKETS_def)

text \<open>
  A number a peer chose moves no sum by more than the limit of its histogram, and the clamping puts no value into another bucket.
\<close>

theorem peer_numbers_are_clamped:
  "list_all clamped (fst (met_run decode start msgs))
   \<and> list_all (\<lambda>(_, limit, bs). list_all (\<lambda>b. peer_chosen v limit \<le> b \<longleftrightarrow> v \<le> b) bs) peer_limits"
proof -
  obtain cs st where r: "met_run decode start msgs = (cs, st)" by force
  have "list_all (\<lambda>(_, limit, bs). list_all (\<lambda>b. peer_chosen v limit \<le> b \<longleftrightarrow> v \<le> b) bs) peer_limits"
    using limits_outside_buckets by (fastforce simp: list_all_iff peer_chosen_bucket)
  then show ?thesis using met_run_keeps(2) [OF r] by (auto simp: r list_all_iff call_fits_def)
qed

section \<open>Networks of gossiped addresses\<close>

lemma address_net_host:
  "address_net (h @ '':'' @ show_dec k) =
    (if suffix ''.onion'' h then ''onion'' else if suffix ''.b32.i2p'' h then ''i2p''
     else case Option.bind (strip_prefix ''['' h) (strip_suffix '']'') of
       Some inner \<Rightarrow> (case whole (read_ipv6_addr inner) of Some b \<Rightarrow> if b ! 0 = 0xfc then ''cjdns'' else ''ipv6'' | None \<Rightarrow> OTHER)
     | None \<Rightarrow> (case parse_ip_addr h of
                  Some (V4 _) \<Rightarrow> ''ipv4'' | Some (V6 b) \<Rightarrow> if b ! 0 = 0xfc then ''cjdns'' else ''ipv6'' | None \<Rightarrow> OTHER))"
  using rsplit_once_last [OF colon_not_dec, of h k] by (simp add: address_net_def)

lemma parse_cjdns_text: "parse_ip_addr (''cjdns:['' @ s) = None"
proof -
  have d: "digit_val 16 (CHR ''c'') = Some 12" "digit_val 16 (CHR ''j'') = None" "digit_val 10 (CHR ''c'') = None" by code_simp+
  have v4: "read_ipv4_addr (''cjdns:['' @ s) = None" by (rule read_ipv4_none) (simp add: d)
  have "read_number 16 (Some 4) 65535 True (''cjdns:['' @ s) = Some (12, ''jdns:['' @ s)"
    by (simp add: read_number_def digits_val_def d)
  moreover have "read_groups 7 (0 + 1) (''jdns:['' @ s) = ([], False, ''jdns:['' @ s)"
    by (rule read_groups_stops) (simp add: d)
  ultimately have "read_groups (Suc 7) 0 (''cjdns:['' @ s) = ([12], False, ''jdns:['' @ s)"
    using v4 by (intro read_groups_step(2)) auto
  then have "read_ipv6_addr (''cjdns:['' @ s) = None"
    by (simp add: read_ipv6_addr_def read_ipv6_groups_def read_colons_def)
  with v4 show ?thesis by (simp add: parse_ip_addr_def read_ip_addr_def whole_def)
qed

lemma no_host_suffix:
  "h \<noteq> [] \<Longrightarrow> last h \<noteq> CHR ''n'' \<Longrightarrow> last h \<noteq> CHR ''p'' \<Longrightarrow> \<not> suffix ''.onion'' h \<and> \<not> suffix ''.b32.i2p'' h"
  using not_suffix_last [of h "''.onion''"] not_suffix_last [of h "''.b32.i2p''"] by simp

lemma net_of_v4:
  assumes "length b = 4"
  shows "address_net (display sha3 (Ipv4 b p)) = ''ipv4''"
proof -
  have b: "b \<noteq> []" using assms by auto
  note e = show_v4_ends [OF b]
  have "hd (show_v4 b) \<noteq> CHR ''[''" using e(3) separators_no_digit(5) by auto
  then have "strip_prefix ''['' (show_v4 b) = None" using e(1) by (cases "show_v4 b") (auto simp: strip_prefix_def)
  moreover have "parse_ip_addr (show_v4 b) = Some (V4 b)" using parse_show_ip [of "V4 b"] assms by simp
  ultimately show ?thesis
    using no_host_suffix [OF e(1)] addr_char_facts [OF hex_char_addr [OF e(2)]]
    by (simp add: address_net_host [of "show_v4 b", simplified])
qed

lemma net_of_v6:
  assumes "length b = 16" "b ! 0 \<noteq> 0xfc"
  shows "address_net (display sha3 (Ipv6 b p)) = ''ipv6''"
proof -
  have "read_ipv6_addr (show_v6 b) = Some (b, [])" using read_ipv6_show [of b "[]"] assms(1) by simp
  moreover have "strip_suffix '']'' (show_v6 b @ '']'') = Some (show_v6 b)" by (rule strip_suffix_append)
  ultimately show ?thesis
    using no_host_suffix [of "''['' @ show_v6 b @ '']''"] assms(2) address_net_host [of "''['' @ show_v6 b @ '']''" "unat p"]
    by (simp add: strip_prefix_def whole_def)
qed

lemma net_of_cjdns: "address_net (display sha3 (Cjdns b p)) = OTHER"
  using no_host_suffix [of "''cjdns:['' @ show_v6 b @ '']''"] parse_cjdns_text [of "show_v6 b @ '']''"]
    address_net_host [of "''cjdns:['' @ show_v6 b @ '']''" "unat p"]
  by (simp add: strip_prefix_def)

lemma net_of_hosts:
  "address_net (display sha3 (TorV3 key p)) = ''onion''" "address_net (display sha3 (I2p h p)) = ''i2p''"
proof -
  have "suffix ''.onion'' (onion_host sha3 key)" by (simp add: onion_host_def Let_def suffix_def)
  then show "address_net (display sha3 (TorV3 key p)) = ''onion''" by (simp add: address_net_host [simplified])
  have "\<not> suffix ''.onion'' (base32_encode h @ ''.b32.i2p'')" by (rule not_suffix_last) simp_all
  then show "address_net (display sha3 (I2p h p)) = ''i2p''"
    using address_net_host [of "base32_encode h @ ''.b32.i2p''" "unat p"] by (simp add: suffix_def)
qed

text \<open>
  C32. Which network the metrics tool counts an address under, when it is printed the way the observer prints it: its own, but for CJDNS. The
  printed form of a CJDNS address starts with \<^verbatim>\<open>cjdns:\<close>, which the tool does not know, so all of them are counted as \<^verbatim>\<open>other\<close>.
\<close>

theorem gossip_is_counted_under_its_network:
  assumes "wf_peer_addr a" "normal_addr a"
  shows "address_net (display sha3 a) =
    (case net_of a of
       NetIpv4 \<Rightarrow> ''ipv4'' | NetIpv6 \<Rightarrow> ''ipv6'' | NetTorV3 \<Rightarrow> ''onion'' | NetI2p \<Rightarrow> ''i2p'' | NetCjdns \<Rightarrow> ''other'')"
  using assms net_of_v4 net_of_v6 net_of_hosts net_of_cjdns by (cases a) (simp_all add: OTHER_def del: display.simps)

theorem gossip_is_counted_under_its_network_witness:
  "address_net (display (\<lambda>_. replicate 32 7) (Cjdns (0xfc # replicate 15 1) 8333)) = ''other''"
  using gossip_is_counted_under_its_network [of "Cjdns (0xfc # replicate 15 1) 8333" "\<lambda>_. replicate 32 7"] by (simp del: display.simps)

end
