(* ===== verification/Csv.thy ===== *)
theory Csv
  imports Emit Addr_Text
begin

text \<open>
  The csv tool, \<^verbatim>\<open>tools/csv/src/main.rs\<close>: one file of block announcements and one of round trips. User agents are chosen by peers and
  may hold any character. The lemmas show that a reader of RFC 4180 finds in each file the header and one record for each event of
  its kind, with the fields as they were, and none that a peer could have forged.

  A file is the text written to it, its writes succeeding. Decoding is protobuf, a parameter.
\<close>

section \<open>Text\<close>

definition show_bool :: "bool \<Rightarrow> string" where
  "show_bool b = (if b then ''true'' else ''false'')"

text \<open>\<^verbatim>\<open>Option::map(to_string).unwrap_or_default()\<close>.\<close>

definition opt_dec :: "nat option \<Rightarrow> string" where
  "opt_dec v = (case v of None \<Rightarrow> [] | Some n \<Rightarrow> show_dec n)"

text \<open>A block hash is printed as the 64 hexadecimal digits of its number, which is all the observer writes into the field; the tool prints the field as it is.\<close>

definition hash_text :: "block_hash \<Rightarrow> string" where
  "hash_text h = map (\<lambda>i. digit_char (unat h div 16 ^ i mod 16)) (rev [0 ..< 64])"

abbreviation newline :: char where "newline \<equiv> CHR 0x0A"
abbreviation carriage_return :: char where "carriage_return \<equiv> CHR 0x0D"
abbreviation quote :: char where "quote \<equiv> CHR 0x22"

section \<open>The files\<close>

definition COMMON_HEADER :: string where
  "COMMON_HEADER = ''connection_id,timestamp_ms,peer_addr,user_agent,transport_version''"

definition TCP_STATS_HEADER :: string where
  "TCP_STATS_HEADER = ''srtt_us,rttvar_us,total_retrans,snd_cwnd,min_rtt_us,lost,reordering,delivery_rate,bytes_received''"

definition BLOCK_SPECIFIC_HEADER :: string where
  "BLOCK_SPECIFIC_HEADER = ''block_hash,announcement_type,batch_size,height,new_to_us,short_ids,prefilled_txs''"

definition PING_SPECIFIC_HEADER :: string where
  "PING_SPECIFIC_HEADER = ''rtt_ms''"

definition escape_csv :: "string \<Rightarrow> string" where
  "escape_csv s =
     (if list_ex (\<lambda>c. c \<in> {CHR '','', quote, newline, carriage_return}) s
      then [quote] @ concat (map (\<lambda>c. if c = quote then [quote, quote] else [c]) s) @ [quote]
      else s)"

definition tcp_columns :: "tcp_stats option \<Rightarrow> string" where
  "tcp_columns stats =
     (case stats of
        None \<Rightarrow> replicate 8 (CHR '','')
      | Some t \<Rightarrow>
          join '',''
            [show_dec (unat (srtt_us t)), show_dec (unat (rttvar_us t)), show_dec (unat (total_retrans t)),
             show_dec (unat (snd_cwnd t)), opt_dec (map_option unat (min_rtt_us t)), opt_dec (map_option unat (lost t)),
             opt_dec (map_option unat (reordering t)), opt_dec (map_option unat (delivery_rate t)),
             opt_dec (map_option unat (bytes_received t))])"

fun announcement_number :: "announcement_type \<Rightarrow> nat" where
  "announcement_number AnnInv = 1"
| "announcement_number AnnHeaders = 2"
| "announcement_number AnnCompactBlock = 3"

definition block_row :: "peer_event \<Rightarrow> block_announcement \<Rightarrow> string" where
  "block_row e blk =
     join '',''
       [show_dec (unat (pe_connection_id e)), show_dec (unat (pe_timestamp_ms e)), escape_csv (pe_peer_addr e),
        escape_csv (pe_user_agent e), opt_dec (map_option unat (pe_transport_version e)), hash_text (ba_hash blk),
        show_dec (announcement_number (ba_type blk)), show_dec (unat (ba_batch_size blk)), opt_dec (ba_height blk),
        show_bool (ba_new_to_us blk), opt_dec (map_option (unat \<circ> fst) (ba_shape blk)),
        opt_dec (map_option (unat \<circ> snd) (ba_shape blk)), tcp_columns (ba_tcp blk)]
     @ [newline]"

definition ping_row :: "peer_event \<Rightarrow> u64 \<Rightarrow> tcp_stats option \<Rightarrow> string" where
  "ping_row e rtt tcp =
     join '',''
       [show_dec (unat (pe_connection_id e)), show_dec (unat (pe_timestamp_ms e)), escape_csv (pe_peer_addr e),
        escape_csv (pe_user_agent e), opt_dec (map_option unat (pe_transport_version e)), show_dec (unat rtt), tcp_columns tcp]
     @ [newline]"

record csv_logger =
  block_writer :: string
  ping_writer :: string

definition write_headers :: csv_logger where
  "write_headers =
     \<lparr>block_writer = COMMON_HEADER @ '','' @ BLOCK_SPECIFIC_HEADER @ '','' @ TCP_STATS_HEADER @ [newline],
      ping_writer = COMMON_HEADER @ '','' @ PING_SPECIFIC_HEADER @ '','' @ TCP_STATS_HEADER @ [newline]\<rparr>"

definition csv_event :: "peer_event \<Rightarrow> csv_logger \<Rightarrow> csv_logger" where
  "csv_event e l =
     (case pe_event e of
        Some (PingRtt rtt tcp) \<Rightarrow> l\<lparr>ping_writer := ping_writer l @ ping_row e rtt tcp\<rparr>
      | Some (BlockAnnouncement blk) \<Rightarrow> l\<lparr>block_writer := block_writer l @ block_row e blk\<rparr>
      | _ \<Rightarrow> l)"

definition csv_main :: "(u8 list \<Rightarrow> peer_event option) \<Rightarrow> u8 list list \<Rightarrow> csv_logger" where
  "csv_main decode payloads =
     foldl (\<lambda>l p. case decode p of Some e \<Rightarrow> csv_event e l | None \<Rightarrow> l) write_headers payloads"

section \<open>A reader of RFC 4180\<close>

text \<open>
  The records of a text. A comma ends a field and a line end, of either kind, a record, unless between quotes; two quotes between
  quotes are one. \<open>cur\<close> is the field so far and \<open>fs\<close> the fields before it.
\<close>

function (sequential) csv_read :: "bool \<Rightarrow> string \<Rightarrow> string list \<Rightarrow> string \<Rightarrow> string list list" where
  "csv_read q cur fs [] = (if cur = [] \<and> fs = [] then [] else [fs @ [cur]])"
| "csv_read False cur fs (c # cs) =
     (if c = CHR '','' then csv_read False [] (fs @ [cur]) cs
      else if c = newline \<or> c = carriage_return then (fs @ [cur]) # csv_read False [] [] cs
      else if c = quote then csv_read True cur fs cs
      else csv_read False (cur @ [c]) fs cs)"
| "csv_read True cur fs (c # cs) =
     (if c = quote
      then (case cs of
              d # ds \<Rightarrow> if d = quote then csv_read True (cur @ [quote]) fs ds else csv_read False cur fs cs
            | [] \<Rightarrow> csv_read False cur fs [])
      else csv_read True (cur @ [c]) fs cs)"
  by pat_completeness auto

termination by (relation "measure (\<lambda>(_, _, _, cs). length cs)") auto

definition plain_field :: "string \<Rightarrow> bool" where
  "plain_field s \<longleftrightarrow> list_all (\<lambda>c. c \<notin> {CHR '','', quote, newline, carriage_return}) s"

lemma read_plain: "plain_field s \<Longrightarrow> csv_read False cur fs (s @ rest) = csv_read False (cur @ s) fs rest"
  by (induction s arbitrary: cur) (auto simp: plain_field_def)

lemma read_quoted:
  assumes "case rest of [] \<Rightarrow> True | d # _ \<Rightarrow> d \<noteq> quote"
  shows "csv_read True cur fs (concat (map (\<lambda>c. if c = quote then [quote, quote] else [c]) s) @ quote # rest) =
    csv_read False (cur @ s) fs rest"
proof (induction s arbitrary: cur)
  case Nil
  then show ?case using assms by (cases rest) auto
next
  case (Cons c s)
  from Cons [of "cur @ [c]"] show ?case by (cases "c = quote") auto
qed

text \<open>A cell is text that reads as a field, whatever follows that is not a quote.\<close>

definition cell :: "string \<Rightarrow> string \<Rightarrow> bool" where
  "cell text field \<longleftrightarrow>
     (\<forall>fs rest. (case rest of [] \<Rightarrow> True | d # _ \<Rightarrow> d \<noteq> quote) \<longrightarrow> csv_read False [] fs (text @ rest) = csv_read False field fs rest)"

lemma cell_plain: "plain_field s \<Longrightarrow> cell s s"
  using read_plain [of s "[]"] by (simp add: cell_def)

lemma cell_escape: "cell (escape_csv s) s"
proof (cases "list_ex (\<lambda>c. c \<in> {CHR '','', quote, newline, carriage_return}) s")
  case True
  then show ?thesis using read_quoted [where cur = "[]" and s = s] by (auto simp: cell_def escape_csv_def)
next
  case False
  then have "plain_field s" by (auto simp: plain_field_def list_all_iff list_ex_iff)
  with False cell_plain show ?thesis by (simp add: escape_csv_def)
qed

lemma read_record:
  assumes "list_all2 cell texts vals" "texts \<noteq> []"
  shows "csv_read False [] fs (join '','' texts @ newline # rest) = (fs @ vals) # csv_read False [] [] rest"
  using assms
proof (induction texts arbitrary: vals fs)
  case (Cons t ts)
  then obtain f gs where f: "vals = f # gs" "cell t f" "list_all2 cell ts gs" by (auto simp: list_all2_Cons1)
  show ?case
  proof (cases ts)
    case Nil
    with f show ?thesis by (simp add: cell_def)
  next
    case (Cons t2 ts2)
    have "csv_read False [] fs (t @ CHR '','' # (join '','' ts @ newline # rest)) = csv_read False [] (fs @ [f]) (join '','' ts @ newline # rest)"
      using f(2) by (simp add: cell_def)
    also have "\<dots> = ((fs @ [f]) @ gs) # csv_read False [] [] rest" using Cons.IH [OF f(3)] Cons by simp
    finally show ?thesis using f(1) Cons by simp
  qed
qed simp

section \<open>What the files hold\<close>

text \<open>The fields of a record, not yet escaped.\<close>

definition tcp_fields :: "tcp_stats option \<Rightarrow> string list" where
  "tcp_fields stats =
     (case stats of
        None \<Rightarrow> replicate 9 []
      | Some t \<Rightarrow>
          [show_dec (unat (srtt_us t)), show_dec (unat (rttvar_us t)), show_dec (unat (total_retrans t)),
           show_dec (unat (snd_cwnd t)), opt_dec (map_option unat (min_rtt_us t)), opt_dec (map_option unat (lost t)),
           opt_dec (map_option unat (reordering t)), opt_dec (map_option unat (delivery_rate t)),
           opt_dec (map_option unat (bytes_received t))])"

definition event_fields :: "peer_event \<Rightarrow> string list" where
  "event_fields e =
     [show_dec (unat (pe_connection_id e)), show_dec (unat (pe_timestamp_ms e)), pe_peer_addr e, pe_user_agent e,
      opt_dec (map_option unat (pe_transport_version e))]"

definition block_fields :: "peer_event \<Rightarrow> block_announcement \<Rightarrow> string list" where
  "block_fields e blk =
     event_fields e
     @ [hash_text (ba_hash blk), show_dec (announcement_number (ba_type blk)), show_dec (unat (ba_batch_size blk)),
        opt_dec (ba_height blk), show_bool (ba_new_to_us blk), opt_dec (map_option (unat \<circ> fst) (ba_shape blk)),
        opt_dec (map_option (unat \<circ> snd) (ba_shape blk))]
     @ tcp_fields (ba_tcp blk)"

definition ping_fields :: "peer_event \<Rightarrow> u64 \<Rightarrow> tcp_stats option \<Rightarrow> string list" where
  "ping_fields e rtt tcp = event_fields e @ [show_dec (unat rtt)] @ tcp_fields tcp"

definition block_records :: "peer_event \<Rightarrow> string list list" where
  "block_records e = (case pe_event e of Some (BlockAnnouncement blk) \<Rightarrow> [block_fields e blk] | _ \<Rightarrow> [])"

definition ping_records :: "peer_event \<Rightarrow> string list list" where
  "ping_records e = (case pe_event e of Some (PingRtt rtt tcp) \<Rightarrow> [ping_fields e rtt tcp] | _ \<Rightarrow> [])"

lemma plain_hex: "hex_char c \<Longrightarrow> c \<notin> {CHR '','', quote, newline, carriage_return}"
  by (auto simp: hex_char_def)

lemma plain_fields [simp]: "plain_field (show_dec n)" "plain_field (opt_dec v)" "plain_field (show_bool b)" "plain_field (hash_text h)" "plain_field []"
proof -
  show "plain_field (show_dec n)" for n
    using show_radix_facts(2) [of 10 n] plain_hex by (auto simp: plain_field_def list_all_iff)
  then show "plain_field (opt_dec v)" by (simp add: opt_dec_def plain_field_def split: option.splits)
  show "plain_field (hash_text h)"
    using digit_char_facts(3) plain_hex by (force simp: hash_text_def plain_field_def list_all_iff hex_char_def)
qed (simp_all add: plain_field_def show_bool_def)

lemma cells_plain: "list_all plain_field xs \<Longrightarrow> list_all2 cell xs xs"
  by (induction xs) (auto intro: cell_plain)

lemma join_nested: "ys \<noteq> [] \<Longrightarrow> join sep (xs @ [join sep ys]) = join sep (xs @ ys)"
proof (induction xs)
  case Nil
  then show ?case by simp
next
  case (Cons x xs)
  then show ?case by (cases xs; cases ys) auto
qed

lemma empty_columns: "join '','' (replicate 9 []) = replicate 8 (CHR '','')" "replicate 9 [] \<noteq> []" "list_all plain_field (replicate 9 [])"
  by (simp_all add: numeral_eq_Suc)

lemma tcp_columns_join: "tcp_columns s = join '','' (tcp_fields s)" "tcp_fields s \<noteq> []" "list_all plain_field (tcp_fields s)"
  by (simp_all add: tcp_columns_def tcp_fields_def empty_columns split: option.splits)

lemma event_cells:
  "list_all2 cell [show_dec (unat (pe_connection_id e)), show_dec (unat (pe_timestamp_ms e)), escape_csv (pe_peer_addr e),
     escape_csv (pe_user_agent e), opt_dec (map_option unat (pe_transport_version e))] (event_fields e)"
  by (simp add: event_fields_def cell_plain cell_escape)

text \<open>A row is one record.\<close>

lemma row_is_record:
  assumes "list_all plain_field xs" "list_all2 cell es fs"
  shows "csv_read False [] [] ((join '','' (es @ xs @ [tcp_columns s]) @ [newline]) @ rest) = (fs @ xs @ tcp_fields s) # csv_read False [] [] rest"
proof -
  have "join '','' ((es @ xs) @ [tcp_columns s]) = join '','' ((es @ xs) @ tcp_fields s)"
    unfolding tcp_columns_join(1) by (rule join_nested [OF tcp_columns_join(2)])
  moreover have "list_all2 cell (es @ xs @ tcp_fields s) (fs @ xs @ tcp_fields s)"
    using assms cells_plain [OF assms(1)] cells_plain [OF tcp_columns_join(3)] by (intro list_all2_appendI)
  ultimately show ?thesis using read_record [where fs = "[]" and rest = rest] tcp_columns_join(2) by simp
qed

lemma block_row_record: "csv_read False [] [] (block_row e blk @ rest) = block_fields e blk # csv_read False [] [] rest"
  using row_is_record [OF _ event_cells, where xs = "[hash_text (ba_hash blk), show_dec (announcement_number (ba_type blk)), show_dec (unat (ba_batch_size blk)),
        opt_dec (ba_height blk), show_bool (ba_new_to_us blk), opt_dec (map_option (unat \<circ> fst) (ba_shape blk)),
        opt_dec (map_option (unat \<circ> snd) (ba_shape blk))]"]
  by (simp add: block_row_def block_fields_def del: join.simps)

lemma ping_row_record: "csv_read False [] [] (ping_row e rtt tcp @ rest) = ping_fields e rtt tcp # csv_read False [] [] rest"
  using row_is_record [OF _ event_cells, where xs = "[show_dec (unat rtt)]"]
  by (simp add: ping_row_def ping_fields_def del: join.simps)

text \<open>What a run appends to a file, and how it reads.\<close>

definition decoded :: "(u8 list \<Rightarrow> peer_event option) \<Rightarrow> u8 list list \<Rightarrow> peer_event list" where
  "decoded decode payloads = List.map_filter decode payloads"

definition block_rows :: "peer_event \<Rightarrow> string" where
  "block_rows e = (case pe_event e of Some (BlockAnnouncement blk) \<Rightarrow> block_row e blk | _ \<Rightarrow> [])"

definition ping_rows :: "peer_event \<Rightarrow> string" where
  "ping_rows e = (case pe_event e of Some (PingRtt rtt tcp) \<Rightarrow> ping_row e rtt tcp | _ \<Rightarrow> [])"

lemma csv_event_writers:
  "block_writer (csv_event e l) = block_writer l @ block_rows e" "ping_writer (csv_event e l) = ping_writer l @ ping_rows e"
  by (simp_all add: csv_event_def block_rows_def ping_rows_def split: option.splits pevent.splits)

lemma csv_run_writers:
  "block_writer (foldl (\<lambda>l p. case decode p of Some e \<Rightarrow> csv_event e l | None \<Rightarrow> l) l ps) = block_writer l @ concat (map block_rows (decoded decode ps))
   \<and> ping_writer (foldl (\<lambda>l p. case decode p of Some e \<Rightarrow> csv_event e l | None \<Rightarrow> l) l ps) = ping_writer l @ concat (map ping_rows (decoded decode ps))"
  by (induction ps arbitrary: l) (auto simp: decoded_def map_filter_simps csv_event_writers split: option.splits)

lemma rows_read:
  "csv_read False [] [] (concat (map block_rows es)) = concat (map block_records es)"
  "csv_read False [] [] (concat (map ping_rows es)) = concat (map ping_records es)"
  by (induction es)
    (simp_all add: block_rows_def block_records_def block_row_record ping_rows_def ping_records_def ping_row_record
      split: option.splits pevent.splits)

lemma csv_header_read:
  assumes "list_all (\<lambda>c. c \<noteq> quote) h"
  shows "csv_read False cur fs (h @ newline # rest) = csv_read False cur fs (h @ [newline]) @ csv_read False [] [] rest"
  using assms by (induction h arbitrary: cur fs) auto

text \<open>
  C27. Whatever user agents peers choose, an RFC 4180 reader of either file finds the header and then one record for each event of that kind, in
  order and with the peer's text as it was, and every record has as many fields as the header has names.
\<close>

theorem csv_files_read_back:
  "csv_read False [] [] (block_writer (csv_main decode payloads)) =
     csv_read False [] [] (block_writer write_headers) @ concat (map block_records (decoded decode payloads))
   \<and> csv_read False [] [] (ping_writer (csv_main decode payloads)) =
     csv_read False [] [] (ping_writer write_headers) @ concat (map ping_records (decoded decode payloads))
   \<and> list_all (\<lambda>r. length r = length (hd (csv_read False [] [] (block_writer write_headers)))) (concat (map block_records (decoded decode payloads)))
   \<and> list_all (\<lambda>r. length r = length (hd (csv_read False [] [] (ping_writer write_headers)))) (concat (map ping_records (decoded decode payloads)))"
proof -
  define bh where "bh = COMMON_HEADER @ '','' @ BLOCK_SPECIFIC_HEADER @ '','' @ TCP_STATS_HEADER"
  define ph where "ph = COMMON_HEADER @ '','' @ PING_SPECIFIC_HEADER @ '','' @ TCP_STATS_HEADER"
  have w: "block_writer write_headers = bh @ [newline]" "ping_writer write_headers = ph @ [newline]"
    by (simp_all add: write_headers_def bh_def ph_def)
  have q: "list_all (\<lambda>c. c \<noteq> quote) bh" "list_all (\<lambda>c. c \<noteq> quote) ph"
    by (simp_all add: bh_def ph_def COMMON_HEADER_def BLOCK_SPECIFIC_HEADER_def PING_SPECIFIC_HEADER_def TCP_STATS_HEADER_def)
  have len: "length (hd (csv_read False [] [] (bh @ [newline]))) = 21" "length (hd (csv_read False [] [] (ph @ [newline]))) = 15"
    by (simp_all add: bh_def ph_def COMMON_HEADER_def BLOCK_SPECIFIC_HEADER_def PING_SPECIFIC_HEADER_def TCP_STATS_HEADER_def)
  have fields: "length (block_fields e blk) = 21" "length (ping_fields e rtt tcp) = 15" for e blk rtt tcp
    by (simp_all add: block_fields_def ping_fields_def event_fields_def tcp_fields_def split: option.splits)
  have "list_all (\<lambda>r. length r = 21) (concat (map block_records es))" "list_all (\<lambda>r. length r = 15) (concat (map ping_records es))" for es
    by (induction es) (simp_all add: block_records_def ping_records_def fields split: option.splits pevent.splits)
  then show ?thesis
    using csv_run_writers [where l = write_headers and ps = payloads and decode = decode]
    by (simp add: csv_main_def w len rows_read csv_header_read [OF q(1), where rest = "concat xs" for xs] csv_header_read [OF q(2), where rest = "concat xs" for xs])
qed

end
