(* ===== verification/Render.thy ===== *)
theory Render
  imports Csv Ieee_Rounding "HOL-Library.List_Lexorder" "HOL-Library.Char_ord" "HOL-Library.Product_Lexorder"
begin

text \<open>
  \<^verbatim>\<open>common/src/render.rs\<close>: an event as one line, for the tools that print events. Peers choose user agents and message commands, and what reads
  a log splits it at line ends. The lemmas show that no line holds a control character, whatever the event holds.

  Text is made of the characters below 256; among them Rust's \<^verbatim>\<open>escape_debug\<close> escapes the control characters, the no-break space, the soft hyphen, quotes
  and the backslash. Enumerations are the values of \<^theory_text>\<open>Emit\<close>, printed by name; a number this build has no name for is not an event here.
\<close>

section \<open>Text\<close>

definition is_control :: "char \<Rightarrow> bool" where
  "is_control c \<longleftrightarrow> (let n = of_char c :: nat in n < 32 \<or> 127 \<le> n \<and> n < 160)"

text \<open>\<^verbatim>\<open>char::escape_debug\<close>, and the escaping of \<^verbatim>\<open>{:?}\<close> on text, which leaves single quotes alone.\<close>

definition escape_debug :: "bool \<Rightarrow> char \<Rightarrow> string" where
  "escape_debug single c =
     (let n = of_char c :: nat; bs = CHR 0x5C in
      if n = 0 then [bs, CHR ''0'']
      else if n = 9 then [bs, CHR ''t'']
      else if n = 13 then [bs, CHR ''r'']
      else if n = 10 then [bs, CHR ''n'']
      else if c = quote \<or> c = bs \<or> single \<and> n = 39 then [bs, c]
      else if is_control c \<or> n = 160 \<or> n = 173 then [bs, CHR ''u'', CHR 0x7B] @ show_hex n @ [CHR 0x7D]
      else [c])"

definition debug_str :: "string \<Rightarrow> string" where
  "debug_str s = [quote] @ concat (map (escape_debug False) s) @ [quote]"

definition show_int :: "int \<Rightarrow> string" where
  "show_int i = (if i < 0 then ''-'' @ show_dec (nat (- i)) else show_dec (nat i))"

text \<open>\<^verbatim>\<open>{:.1}\<close> of a number that is not negative.\<close>

definition show_tenths :: "rat \<Rightarrow> string" where
  "show_tenths x = (let k = nat (rne (10 * x)) in show_dec (k div 10) @ ''.'' @ show_dec (k mod 10))"

definition i64_saturating_sub :: "int \<Rightarrow> int \<Rightarrow> int" where
  "i64_saturating_sub a b = max (- (2 ^ 63)) (min (2 ^ 63 - 1) (a - b))"

section \<open>Rendering\<close>

definition counted :: "string \<Rightarrow> u32 \<Rightarrow> string" where
  "counted name n = (if n = 0 then [] else '' '' @ name @ ''='' @ show_dec (unat n))"

definition one_line :: "string \<Rightarrow> string" where
  "one_line s = concat (map (\<lambda>c. if is_control c then escape_debug True c else [c]) s)"

definition render_transport :: "u32 option \<Rightarrow> string" where
  "render_transport v = (case v of Some n \<Rightarrow> ''v'' @ show_dec (unat n) | None \<Rightarrow> ''detecting'')"

definition render_tcp :: "tcp_stats option \<Rightarrow> string" where
  "render_tcp stats =
     (case stats of
        None \<Rightarrow> []
      | Some t \<Rightarrow>
          '' srtt='' @ show_dec (unat (srtt_us t)) @ [CHR 0xB5] @ ''s rttvar='' @ show_dec (unat (rttvar_us t)) @ [CHR 0xB5]
          @ ''s retrans='' @ show_dec (unat (total_retrans t)) @ '' cwnd='' @ show_dec (unat (snd_cwnd t))
          @ (case min_rtt_us t of None \<Rightarrow> [] | Some v \<Rightarrow> '' minrtt='' @ show_dec (unat v) @ [CHR 0xB5] @ ''s'')
          @ (case lost t of None \<Rightarrow> [] | Some v \<Rightarrow> '' lost='' @ show_dec (unat v))
          @ (case reordering t of None \<Rightarrow> [] | Some v \<Rightarrow> '' reorder='' @ show_dec (unat v))
          @ (case delivery_rate t of None \<Rightarrow> [] | Some v \<Rightarrow> '' rate='' @ show_dec (unat v) @ ''B/s'')
          @ (case bytes_received t of None \<Rightarrow> [] | Some v \<Rightarrow> '' rx='' @ show_dec (unat v) @ ''B''))"

fun debug_announcement :: "announcement_type \<Rightarrow> string" where
  "debug_announcement AnnInv = ''Inv''"
| "debug_announcement AnnHeaders = ''Headers''"
| "debug_announcement AnnCompactBlock = ''CompactBlock''"

fun debug_unplaced :: "unplaced_reason \<Rightarrow> string" where
  "debug_unplaced NoHeader = ''NoHeader''"
| "debug_unplaced UnplacedOrphan = ''Orphan''"
| "debug_unplaced UnplacedWeakerChain = ''WeakerChain''"
| "debug_unplaced UnplacedInvalidPow = ''InvalidPow''"
| "debug_unplaced UnplacedCheckpointMismatch = ''CheckpointMismatch''"
| "debug_unplaced UnplacedForkBelowCheckpoint = ''ForkBelowCheckpoint''"

fun debug_stage :: "probe_stage \<Rightarrow> string" where
  "debug_stage ProbeRequested = ''Requested''"
| "debug_stage ProbeAnswered = ''Answered''"

fun debug_message :: "addr_message \<Rightarrow> string" where
  "debug_message MsgAddr = ''Addr''"
| "debug_message MsgAddrv2 = ''Addrv2''"

fun debug_disconnect :: "disconnect_reason \<Rightarrow> string" where
  "debug_disconnect DisUnknown = ''Unknown''"
| "debug_disconnect DisPeerClosed = ''PeerClosed''"
| "debug_disconnect DisTruncated = ''Truncated''"
| "debug_disconnect DisConnectionReset = ''ConnectionReset''"
| "debug_disconnect DisDecodeError = ''DecodeError''"
| "debug_disconnect DisV2DecryptError = ''V2DecryptError''"
| "debug_disconnect DisWriteError = ''WriteError''"
| "debug_disconnect DisOther = ''Other''"
| "debug_disconnect DisOtherChain = ''OtherChain''"
| "debug_disconnect DisOversizedMessage = ''OversizedMessage''"
| "debug_disconnect DisPingTimeout = ''PingTimeout''"
| "debug_disconnect DisProtocolViolation = ''ProtocolViolation''"
| "debug_disconnect DisWrongMagic = ''WrongMagic''"

fun debug_failure :: "failure_reason \<Rightarrow> string" where
  "debug_failure FailUnknown = ''Unknown''"
| "debug_failure FailConnectionRefused = ''ConnectionRefused''"
| "debug_failure FailHostUnreachable = ''HostUnreachable''"
| "debug_failure FailTcpConnectTimeout = ''TcpConnectTimeout''"
| "debug_failure FailV2TransportTimeout = ''V2TransportTimeout''"
| "debug_failure FailVersionHandshakeTimeout = ''VersionHandshakeTimeout''"
| "debug_failure FailV2TransportHandshake = ''V2TransportHandshake''"
| "debug_failure FailVersionHandshake = ''VersionHandshake''"
| "debug_failure FailUnexpectedEof = ''UnexpectedEof''"
| "debug_failure FailOther = ''Other''"

fun debug_our_fault :: "our_fault_reason \<Rightarrow> string" where
  "debug_our_fault FaultNetworkUnreachable = ''NetworkUnreachable''"
| "debug_our_fault FaultProxyUnreachable = ''ProxyUnreachable''"
| "debug_our_fault FaultNetworkDisabled = ''NetworkDisabled''"

definition line_start :: "peer_event \<Rightarrow> string" where
  "line_start e = ''conn='' @ show_dec (unat (pe_connection_id e)) @ '' peer='' @ one_line (pe_peer_addr e)"

definition line_end :: "peer_event \<Rightarrow> string" where
  "line_end e = '' ts='' @ show_dec (unat (pe_timestamp_ms e))"

definition line_handshake :: "peer_event \<Rightarrow> handshake_event \<Rightarrow> string" where
  "line_handshake e hs =
     line_start e @ '' ua='' @ debug_str (hs_user_agent hs) @ '' transport='' @ render_transport (pe_transport_version e)
     @ '' version='' @ show_dec (unat (hs_protocol_version hs)) @ '' services=0x'' @ show_hex (unat (hs_services hs))
     @ '' height='' @ show_int (sint (hs_start_height hs)) @ '' relay='' @ show_bool (hs_relay hs)
     @ '' skew='' @ show_int (i64_saturating_sub (sint (hs_peer_timestamp hs)) (sint (pe_timestamp_ms e div 1000))) @ ''s addrv2=''
     @ show_bool (hs_sendaddrv2 hs) @ '' wtxidrelay='' @ show_bool (hs_wtxid_relay hs)
     @ (if hs_addr_recv hs = [] then [] else '' sees_us='' @ one_line (hs_addr_recv hs)) @ line_end e"

definition line_ping :: "peer_event \<Rightarrow> u64 \<Rightarrow> tcp_stats option \<Rightarrow> string" where
  "line_ping e rtt tcp =
     line_start e @ '' ua='' @ debug_str (pe_user_agent e) @ '' transport='' @ render_transport (pe_transport_version e)
     @ '' rtt='' @ show_dec (unat rtt) @ ''ms'' @ render_tcp tcp @ line_end e"

definition line_block :: "peer_event \<Rightarrow> block_announcement \<Rightarrow> string" where
  "line_block e blk =
     line_start e @ '' block='' @ one_line (hash_text (ba_hash blk)) @ '' type='' @ debug_announcement (ba_type blk)
     @ (case ba_height blk of None \<Rightarrow> [] | Some h \<Rightarrow> '' height='' @ show_dec h)
     @ (case ba_unplaced blk of None \<Rightarrow> [] | Some u \<Rightarrow> '' unplaced='' @ debug_unplaced u)
     @ (if ba_new_to_us blk then '' new'' else [])
     @ (if 1 < ba_batch_size blk then '' batch='' @ show_dec (unat (ba_batch_size blk)) else [])
     @ (case ba_shape blk of
          None \<Rightarrow> [] | Some (s, p) \<Rightarrow> '' shortids='' @ show_dec (unat s) @ '' prefilled='' @ show_dec (unat p))
     @ render_tcp (ba_tcp blk) @ line_end e"

definition line_addresses :: "peer_event \<Rightarrow> address_announcement \<Rightarrow> string" where
  "line_addresses e ann =
     line_start e @ '' message='' @ debug_message (aa_message ann) @ '' addresses='' @ show_dec (length (aa_addresses ann))
     @ '' solicited='' @ show_bool (aa_solicited ann) @ counted ''rate_limited'' (aa_rate_limited ann)
     @ counted ''unparsed'' (aa_unparsed ann) @ '' tokens='' @ show_tenths (aa_tokens ann) @ line_end e"

text \<open>The five commands seen most often, the names in order among equals.\<close>

definition top_commands :: "(string \<times> u32) list \<Rightarrow> (string \<times> u32) list" where
  "top_commands ms = take 5 (sort_key (\<lambda>(cmd, n). (- int (unat n), cmd)) ms)"

definition result_detail :: "connection_result option \<Rightarrow> string" where
  "result_detail r =
     (case r of
        Some (ResDisconnected d) \<Rightarrow>
          ''result=disconnected reason='' @ debug_disconnect (dc_reason d) @ '' setup='' @ show_dec (unat (dc_setup_ms d))
          @ ''ms uptime='' @ show_dec (unat (dc_uptime_ms d)) @ ''ms''
          @ counted ''unsolicited_pongs'' (dc_unsolicited_pongs d) @ counted ''undecodable'' (dc_undecodable d)
          @ counted ''getheaders_ignored'' (dc_getheaders_ignored d) @ counted ''msgs_other'' (dc_messages_other d)
          @ '' msgs=['' @ join '' '' (map (\<lambda>(cmd, n). one_line cmd @ ''='' @ show_dec (unat n)) (top_commands (dc_messages_by_command d))) @ '']''
      | Some (ResFailed f ms) \<Rightarrow> ''result=failed reason='' @ debug_failure f @ '' setup='' @ show_dec (unat ms) @ ''ms''
      | Some (ResOurFault o' ms) \<Rightarrow> ''result=our_fault reason='' @ debug_our_fault o' @ '' setup='' @ show_dec (unat ms) @ ''ms''
      | None \<Rightarrow> ''result=unset'')"

definition line_result :: "peer_event \<Rightarrow> connection_result option \<Rightarrow> string" where
  "line_result e r =
     line_start e @ '' ua='' @ debug_str (pe_user_agent e) @ '' '' @ result_detail r @ '' transport=''
     @ render_transport (pe_transport_version e) @ line_end e"

definition event_body :: "peer_event \<Rightarrow> string" where
  "event_body e =
     (case pe_event e of
        Some (Handshake hs) \<Rightarrow> line_handshake e hs
      | Some (PingRtt rtt tcp) \<Rightarrow> line_ping e rtt tcp
      | Some (BlockAnnouncement blk) \<Rightarrow> line_block e blk
      | Some (CompactBlockProbe h stage tcp) \<Rightarrow>
          line_start e @ '' block='' @ one_line (hash_text h) @ '' probe='' @ debug_stage stage @ render_tcp tcp @ line_end e
      | Some (FeeFilter rate) \<Rightarrow> line_start e @ '' feefilter='' @ show_dec (unat rate) @ ''sat/kvB'' @ line_end e
      | Some (SendCmpctEv high version) \<Rightarrow>
          line_start e @ '' sendcmpct hb='' @ show_bool high @ '' version='' @ show_dec (unat version) @ line_end e
      | Some (AddressAnnouncement ann) \<Rightarrow> line_addresses e ann
      | Some (ConnectionResult r) \<Rightarrow> line_result e (Some r)
      | None \<Rightarrow> ''unknown event from '' @ one_line (pe_peer_addr e))"

fun kind_text :: "kind \<Rightarrow> string" where
  "kind_text KPingRtt = ''ping_rtt''"
| "kind_text KBlockAnnouncement = ''block_announcement''"
| "kind_text KAddressAnnouncement = ''address_announcement''"
| "kind_text KConnectionResult = ''connection_result''"
| "kind_text KHandshake = ''handshake''"
| "kind_text KCompactBlockProbe = ''compact_block_probe''"
| "kind_text KFeeFilter = ''fee_filter''"
| "kind_text KSendCmpct = ''send_cmpct''"

definition dropped_text :: "u64 list option \<Rightarrow> string" where
  "dropped_text by_kind =
     (case by_kind of
        None \<Rightarrow> []
      | Some counts \<Rightarrow>
          (let s = join '' '' (map (\<lambda>(k, n). kind_text k @ ''='' @ show_dec (unat n)) (filter (\<lambda>(_, n). 0 < n) (zip all_kinds counts)))
           in if s = [] then [] else '' ['' @ s @ '']''))"

definition event_line :: "peer_event \<Rightarrow> string" where
  "event_line e =
     (if 0 < pe_dropped_events e
      then event_body e @ '' dropped='' @ show_dec (unat (pe_dropped_events e)) @ dropped_text (pe_dropped_by_kind e)
      else event_body e)"

section \<open>One event is one line\<close>

definition safe :: "string \<Rightarrow> bool" where
  "safe s \<longleftrightarrow> list_all (\<lambda>c. \<not> is_control c) s"

lemma safe_simps [simp]: "safe []" "safe (c # s) \<longleftrightarrow> \<not> is_control c \<and> safe s" "safe (s @ t) \<longleftrightarrow> safe s \<and> safe t"
  by (simp_all add: safe_def)

lemma safe_concat: "(\<And>x. x \<in> set xs \<Longrightarrow> safe x) \<Longrightarrow> safe (concat xs)"
  by (induction xs) auto

lemma safe_join: "safe sep \<Longrightarrow> list_all safe xs \<Longrightarrow> safe (join sep xs)"
  by (induction sep xs rule: join.induct) auto

lemma hex_chars_safe: "\<forall>c \<in> set ''0123456789abcdef''. \<not> is_control c"
  by code_simp

lemma hex_safe: "hex_char c \<Longrightarrow> \<not> is_control c"
  unfolding hex_char_def by (rule hex_chars_safe [rule_format])

lemma safe_numbers [simp]: "safe (show_dec n)" "safe (show_hex n)" "safe (show_int i)" "safe (show_bool b)" "safe (show_tenths x)" "safe (hash_text h)"
proof -
  show dec: "safe (show_dec n)" and "safe (show_hex n)" for n
    using show_radix_facts(2) [of 10 n] show_radix_facts(2) [of 16 n] hex_safe by (simp_all add: safe_def list_all_iff)
  show "safe (show_bool b)" by (simp add: show_bool_def is_control_def)
  show "safe (show_int i)" using dec by (simp add: show_int_def is_control_def)
  show "safe (show_tenths x)" using dec by (simp add: show_tenths_def is_control_def Let_def)
  have "\<not> is_control (digit_char (k mod 16))" for k 
    by (rule hex_safe) (simp add: hex_char_def digit_char_facts(3) del: set_simps)
  then show "safe (hash_text h)" by (auto simp: safe_def hash_text_def list_all_iff)
qed

lemma safe_escape [simp]: "safe (escape_debug single c)"
  by (auto simp: escape_debug_def Let_def is_control_def)

lemma safe_text [simp]: "safe (one_line s)" "safe (debug_str s)"
  by (auto simp: one_line_def debug_str_def is_control_def intro!: safe_concat)


lemma safe_names [simp]:
  "safe (debug_announcement t)" "safe (debug_unplaced u)" "safe (debug_stage st)" "safe (debug_message a)" "safe (debug_disconnect d)"
  "safe (debug_failure f)" "safe (debug_our_fault w)" "safe (kind_text k)"
proof -
  show "safe (debug_announcement t)" by (cases t) (simp_all add: is_control_def)
  show "safe (debug_unplaced u)" by (cases u) (simp_all add: is_control_def)
  show "safe (debug_stage st)" by (cases st) (simp_all add: is_control_def)
  show "safe (debug_message a)" by (cases a) (simp_all add: is_control_def)
  show "safe (debug_disconnect d)" by (cases d) (simp_all add: is_control_def)
  show "safe (debug_failure f)" by (cases f) (simp_all add: is_control_def)
  show "safe (debug_our_fault w)" by (cases w) (simp_all add: is_control_def)
  show "safe (kind_text k)" by (cases k) (simp_all add: is_control_def)
qed

lemma safe_counted [simp]: "safe name \<Longrightarrow> safe (counted name n)"
  by (simp add: counted_def is_control_def)

lemma safe_transport [simp]: "safe (render_transport v)"
  by (simp add: render_transport_def is_control_def split: option.split)

lemma safe_tcp [simp]: "safe (render_tcp t)"
proof (cases t)
  case (Some r)
  have opt: "(\<And>v. safe (f v)) \<Longrightarrow> safe (case x of None \<Rightarrow> [] | Some v \<Rightarrow> f v)" for f and x :: "'b option"
    by (cases x) auto
  show ?thesis
    unfolding render_tcp_def Some option.case safe_simps by (intro conjI opt) (simp_all add: is_control_def)
qed (simp add: render_tcp_def)

lemma safe_ends [simp]: "safe (line_start e)" "safe (line_end e)"
  by (simp_all add: line_start_def line_end_def is_control_def)

lemma safe_handshake [simp]: "safe (line_handshake e hs)"
  by (simp add: line_handshake_def is_control_def)

lemma safe_ping [simp]: "safe (line_ping e rtt tcp)"
  by (simp add: line_ping_def is_control_def)

lemma safe_block [simp]: "safe (line_block e blk)"
  unfolding line_block_def by (auto simp: is_control_def split: option.split)

lemma safe_addresses [simp]: "safe (line_addresses e ann)"
  by (simp add: line_addresses_def is_control_def)

lemma safe_detail [simp]: "safe (result_detail r)"
proof -
  have "safe (join '' '' (map (\<lambda>(cmd, n). one_line cmd @ ''='' @ show_dec (unat (n :: u32))) ms))" for ms
    by (rule safe_join) (auto simp: list_all_iff is_control_def)
  then show ?thesis
    by (cases r) (auto simp: result_detail_def is_control_def split: connection_result.split)
qed

lemma safe_result [simp]: "safe (line_result e r)"
  by (simp add: line_result_def is_control_def)

lemma safe_dropped [simp]: "safe (dropped_text counts)"
proof -
  have "safe (join '' '' (map (\<lambda>(k, n). kind_text k @ ''='' @ show_dec (unat (n :: u64))) ms))" for ms
    by (rule safe_join) (auto simp: list_all_iff is_control_def)
  then show ?thesis
    by (cases counts) (auto simp: dropped_text_def Let_def is_control_def)
qed

lemma safe_body [simp]: "safe (event_body e)"
  unfolding event_body_def by (auto simp: is_control_def split: option.split pevent.split)

text \<open>C28. An event is printed on one line: whatever a peer put into its user agent, its message commands or its addresses, the line holds no control
character, so no line end and no terminal escape.\<close>

theorem one_event_is_one_line: "list_all (\<lambda>c. \<not> is_control c) (event_line e)"
proof -
  have "safe (event_line e)"
    by (simp add: event_line_def is_control_def)
  then show ?thesis
    by (simp add: safe_def)
qed

end
