(* ===== verification/Rpc.thy ===== *)
theory Rpc
  imports Manager Header_Serve Addr_Readback Csv Session_Stats "HOL-Library.Product_Lexorder"
begin

text \<open>
  \<^verbatim>\<open>observer/src/rpc.rs\<close>, what answers requests, and \<^verbatim>\<open>tools/rpc/src/main.rs\<close>, the command line that makes them. A request
  is a subject and a payload; a payload is JSON, and so is the answer. Reading and printing JSON text is \<^verbatim>\<open>serde_json\<close>; the values
  in between are a datatype here, and so is how \<^verbatim>\<open>Deserialize\<close> reads the types of the requests from them.

  The handler holds no addresses: it asks the manager, which may be gone, and whose answers are a script of what each one meets.
  The lemmas show what a ban over RPC does, that what is printed can be asked about, and how the chain tips are ordered.
\<close>

section \<open>JSON\<close>

datatype json =
    JNull
  | JBool bool
  | JInt int
  | JFloat string
  | JStr string
  | JArr "json list"
  | JObj "(string \<times> json) list"

definition j_nat :: "nat \<Rightarrow> json" where "j_nat n = JInt (int n)"
definition j_word :: "'a::len word \<Rightarrow> json" where "j_word w = JInt (uint w)"
definition j_opt :: "('a \<Rightarrow> json) \<Rightarrow> 'a option \<Rightarrow> json" where "j_opt f x = (case x of None \<Rightarrow> JNull | Some y \<Rightarrow> f y)"

text \<open>\<^verbatim>\<open>Value::get\<close> with a name.\<close>

fun j_get :: "json \<Rightarrow> string \<Rightarrow> json option" where
  "j_get (JObj fs) k = map_of fs k"
| "j_get _ k = None"

fun j_string :: "json \<Rightarrow> string option" where
  "j_string (JStr s) = Some s"
| "j_string _ = None"

fun j_list :: "(json \<Rightarrow> 'a option) \<Rightarrow> json \<Rightarrow> 'a list option" where
  "j_list f (JArr xs) = all_some (map f xs)"
| "j_list f _ = None"

fun j_usize :: "json \<Rightarrow> nat option" where
  "j_usize (JInt i) = (if 0 \<le> i \<and> i < 2 ^ 64 then Some (nat i) else None)"
| "j_usize _ = None"

section \<open>Ban entries as JSON\<close>

definition j_net :: "json \<Rightarrow> ip_net option" where
  "j_net j = (case j_string j of None \<Rightarrow> None | Some s \<Rightarrow> (case net_from_str s of Inl _ \<Rightarrow> None | Inr n \<Rightarrow> Some n))"

definition j_comment :: "json \<Rightarrow> string option option" where
  "j_comment j = (if j = JNull then Some None else map_option Some (j_string j))"

text \<open>A field that is not there has its default.\<close>

definition j_field :: "'a \<Rightarrow> (json \<Rightarrow> 'a option) \<Rightarrow> json option \<Rightarrow> 'a option" where
  "j_field d f j = (case j of None \<Rightarrow> Some d | Some v \<Rightarrow> f v)"

definition ban_fields :: "json option \<Rightarrow> json option \<Rightarrow> json option \<Rightarrow> ban_entry option" where
  "ban_fields c ns hs =
     (case (j_field None j_comment c, j_field [] (j_list j_net) ns, j_field [] (j_list j_string) hs) of
        (Some c, Some ns, Some hs) \<Rightarrow> Some \<lparr>ban_comment = c, ban_nets = ns, ban_hosts = hs\<rparr>
      | _ \<Rightarrow> None)"

text \<open>The derived reader takes an object, with no field twice and fields it does not know ignored, or the fields in order as an array.\<close>

fun ban_from_json :: "json \<Rightarrow> ban_entry option" where
  "ban_from_json (JObj fs) =
     (if list_all (\<lambda>k. length (filter (\<lambda>(k', _). k' = k) fs) \<le> 1) [''comment'', ''nets'', ''hosts'']
      then ban_fields (map_of fs ''comment'') (map_of fs ''nets'') (map_of fs ''hosts'') else None)"
| "ban_from_json (JArr vs) =
     (case map Some vs @ [None, None, None] of
        c # ns # hs # _ \<Rightarrow> if length vs \<le> 3 then ban_fields c ns hs else None
      | _ \<Rightarrow> None)"
| "ban_from_json _ = None"

definition ban_to_json :: "ban_entry \<Rightarrow> json" where
  "ban_to_json e =
     JObj ((case ban_comment e of None \<Rightarrow> [] | Some c \<Rightarrow> [(''comment'', JStr c)])
       @ [(''nets'', JArr (map (JStr \<circ> show_net) (ban_nets e))), (''hosts'', JArr (map JStr (ban_hosts e)))])"

section \<open>Asking the manager\<close>

text \<open>What one command meets: the clock, the system calls of a save, and the words for why a save failed.\<close>

record turn =
  tn_now :: u32
  tn_calls :: "call_outcome list"
  tn_save_error :: string

text \<open>When the turns run out, the manager is gone.\<close>

record rpc_state =
  rs_turns :: "turn list"
  rs_manager :: manager
  rs_fs :: fs

text \<open>Everything else a request is answered from.\<close>

record rpc_env =
  re_sha3 :: "u8 list \<Rightarrow> u8 list"
  re_ban_file :: "ban_entry list \<Rightarrow> u8 list option"
  re_order :: entry_order
  re_parse :: "u8 list \<Rightarrow> json option"
  re_json_error :: "u8 list \<Rightarrow> string"
  re_tree :: tree
  re_tree_order :: header_order
  re_live :: registry
  re_live_order :: "(u64 \<times> live) list \<Rightarrow> (u64 \<times> live) list"
  re_now_ms :: u64
  re_instance :: u64

definition rpc_request :: "rpc_env \<Rightarrow> command \<Rightarrow> rpc_state \<Rightarrow> (reply \<times> string) option \<times> rpc_state" where
  "rpc_request env c st =
     (case rs_turns st of
        [] \<Rightarrow> (None, st)
      | t # ts \<Rightarrow>
          (let (r, m, trace) = run_command (re_sha3 env) (re_ban_file env) (re_order env) (tn_calls t) (tn_now t) c (rs_manager st) (rs_fs st)
           in (Some (r, tn_save_error t), st\<lparr>rs_turns := ts, rs_manager := m, rs_fs := last trace\<rparr>)))"

definition GONE :: string where "GONE = ''address manager unavailable''"

definition rpc_read :: "rpc_env \<Rightarrow> (json \<Rightarrow> 'a option) \<Rightarrow> u8 list \<Rightarrow> string + 'a" where
  "rpc_read env f bytes =
     (case Option.bind (re_parse env bytes) f of
        None \<Rightarrow> Inl (''invalid JSON: '' @ re_json_error env bytes) | Some v \<Rightarrow> Inr v)"

section \<open>The methods\<close>

fun class_name :: "addr_class \<Rightarrow> string" where
  "class_name ClassUnknown = ''unknown''"
| "class_name ClassGood = ''good''"
| "class_name ClassWasGood = ''was_good''"
| "class_name ClassBad = ''bad''"

fun debug_origin :: "origin \<Rightarrow> string" where
  "debug_origin Manual = ''Manual''"
| "debug_origin Gossip = ''Gossip''"

fun debug_transport :: "transport_hint \<Rightarrow> string" where
  "debug_transport HintUnknown = ''Unknown''"
| "debug_transport HintV2 = ''V2''"
| "debug_transport HintV1Only = ''V1Only''"

type_synonym answer = "(string + json) \<times> rpc_state"

definition rpc_addresses_info :: "rpc_env \<Rightarrow> rpc_state \<Rightarrow> answer" where
  "rpc_addresses_info env st =
     (case rpc_request env StatsCmd st of
        (Some (RStats s, _), st) \<Rightarrow>
          (Inr (JObj [(''total'', j_nat (st_total s)), (''unknown'', j_nat (st_unknown s)), (''good'', j_nat (st_good s)),
             (''was_good'', j_nat (st_was_good s)), (''bad'', j_nat (st_bad s)), (''dialing'', j_nat (st_dialing s)),
             (''connected'', j_nat (st_connected s))]), st)
      | (_, st) \<Rightarrow> (Inl GONE, st))"

definition live_json :: "rpc_env \<Rightarrow> u64 \<times> live \<Rightarrow> json" where
  "live_json env = (\<lambda>(i, c).
     JObj [(''connection_id'', j_word i), (''addr'', JStr (display (re_sha3 env) (lv_addr c))),
       (''transport_version'', j_word (lv_transport_version c)), (''connected_ms'', j_word (lv_connected_ms c)),
       (''uptime_ms'', j_word (sat_sub (re_now_ms env) (lv_connected_ms c))), (''user_agent'', JStr (lv_user_agent c)),
       (''protocol_version'', j_word (lv_protocol_version c)), (''services'', j_word (lv_services c)),
       (''start_height'', JInt (sint (lv_start_height c))), (''relay'', JBool (lv_relay c)),
       (''sendaddrv2'', JBool (lv_sendaddrv2 c)), (''wtxid_relay'', JBool (lv_wtxid_relay c)),
       (''addr_recv'', JStr (lv_addr_recv c)), (''peer_timestamp'', JInt (sint (lv_peer_timestamp c))),
       (''messages'', j_word (cn_messages (lv_counters c))),
       (''unsolicited_pongs'', j_word (cn_unsolicited_pongs (lv_counters c))),
       (''rtt_ms'', j_opt j_word (cn_rtt_ms (lv_counters c))), (''min_rtt_ms'', j_opt j_word (cn_min_rtt_ms (lv_counters c))),
       (''updated_ms'', j_word (lv_updated_ms c))])"

definition rpc_connections_list :: "rpc_env \<Rightarrow> rpc_state \<Rightarrow> answer" where
  "rpc_connections_list env st =
     (let conns = map (live_json env) (reg_snapshot (re_live_order env) (re_live env));
          (r, st) = rpc_request env StatsCmd st;
          dialing = (case r of Some (RStats s, _) \<Rightarrow> j_nat (st_dialing s) | _ \<Rightarrow> JNull)
      in (Inr (JObj [(''taken_ms'', j_word (re_now_ms env)), (''instance_id'', j_word (re_instance env)),
            (''connected'', j_nat (length conns)), (''dialing'', dialing), (''connections'', JArr conns)]), st))"

definition rpc_add_addresses :: "rpc_env \<Rightarrow> u8 list \<Rightarrow> rpc_state \<Rightarrow> answer" where
  "rpc_add_addresses env payload st =
     (case rpc_read env (j_list j_string) payload of
        Inl e \<Rightarrow> (Inl e, st)
      | Inr addrs \<Rightarrow>
          (let parsed = List.map_filter (peer_parse (re_sha3 env)) addrs;
               rejected = filter (\<lambda>s. peer_parse (re_sha3 env) s = None) addrs
           in case rpc_request env (AddManual parsed) st of
                (Some (RAdded added, _), st) \<Rightarrow>
                  (Inr (JObj [(''added'', j_nat added), (''rejected'', JArr (map JStr rejected))]), st)
              | (_, st) \<Rightarrow> (Inl GONE, st)))"

definition entry_json :: "rpc_env \<Rightarrow> peer_addr \<Rightarrow> entry \<Rightarrow> json" where
  "entry_json env a e =
     JObj [(''addr'', JStr (display (re_sha3 env) a)), (''class'', JStr (class_name (entry_class e))), (''services'', j_word (services e)),
       (''last_announced'', j_word (last_announced e)), (''last_attempt'', j_word (last_attempt e)),
       (''last_success'', j_word (last_success e)), (''next_attempt'', j_word (next_attempt e)), (''failures'', j_word (failures e)),
       (''short_sessions'', j_word (short_sessions e)), (''origin'', JStr (debug_origin (entry_origin e))),
       (''transport'', JStr (debug_transport (transport e)))]"

definition rpc_inspect :: "rpc_env \<Rightarrow> u8 list \<Rightarrow> rpc_state \<Rightarrow> answer" where
  "rpc_inspect env payload st =
     (case rpc_read env j_string payload of
        Inl e \<Rightarrow> (Inl e, st)
      | Inr s \<Rightarrow>
          (case peer_parse (re_sha3 env) s of
             None \<Rightarrow> (Inl (''unparseable address: '' @ s), st)
           | Some a \<Rightarrow>
               (case rpc_request env (Inspect a) st of
                  (Some (REntry e, _), st) \<Rightarrow> (Inr (j_opt (entry_json env a) e), st)
                | (_, st) \<Rightarrow> (Inl GONE, st))))"

definition rpc_due_next :: "rpc_env \<Rightarrow> u8 list \<Rightarrow> rpc_state \<Rightarrow> answer" where
  "rpc_due_next env payload st =
     (case (if payload = [] then Inr 20 else rpc_read env j_usize payload) of
        Inl e \<Rightarrow> (Inl e, st)
      | Inr limit \<Rightarrow>
          (case rpc_request env (DueNext limit) st of
             (Some (RDue due, _), st) \<Rightarrow>
               (Inr (JArr (map (\<lambda>(a, t). JObj [(''addr'', JStr (display (re_sha3 env) a)), (''next_attempt'', j_word t)]) due)), st)
           | (_, st) \<Rightarrow> (Inl GONE, st)))"

fun rpc_ban_all :: "rpc_env \<Rightarrow> ban_entry list \<Rightarrow> nat \<times> nat \<times> string option \<Rightarrow> rpc_state
    \<Rightarrow> (string + nat \<times> nat \<times> string option) \<times> rpc_state" where
  "rpc_ban_all env [] acc st = (Inr acc, st)"
| "rpc_ban_all env (e # es) (added, purged, save_error) st =
     (case rpc_request env (Ban e) st of
        (Some (RBan r, why), st) \<Rightarrow>
          rpc_ban_all env es (added + br_added r, purged + br_purged r,
            (if save_error \<noteq> None then save_error else if br_saved r then None else Some why)) st
      | (_, st) \<Rightarrow> (Inl GONE, st))"

definition rpc_ban_add :: "rpc_env \<Rightarrow> u8 list \<Rightarrow> rpc_state \<Rightarrow> answer" where
  "rpc_ban_add env payload st =
     (case rpc_read env (j_list ban_from_json) payload of
        Inl e \<Rightarrow> (Inl e, st)
      | Inr es \<Rightarrow>
          (case rpc_ban_all env es (0, 0, None) st of
             (Inl e, st) \<Rightarrow> (Inl e, st)
           | (Inr (added, purged, save_error), st) \<Rightarrow>
               (Inr (JObj ([(''added'', j_nat added), (''purged'', j_nat purged)]
                  @ (case save_error of None \<Rightarrow> [] | Some e \<Rightarrow> [(''save_error'', JStr e)]))), st)))"

definition rpc_ban_list :: "rpc_env \<Rightarrow> rpc_state \<Rightarrow> answer" where
  "rpc_ban_list env st =
     (case rpc_request env BanListCmd st of
        (Some (RBanList es, _), st) \<Rightarrow> (Inr (JArr (map ban_to_json es)), st)
      | (_, st) \<Rightarrow> (Inl GONE, st))"

fun status_name :: "chain_tip_status \<Rightarrow> string" where
  "status_name Active = ''active''"
| "status_name HeadersOnly = ''headers-only''"

definition tip_json :: "chain_tip \<Rightarrow> json" where
  "tip_json t = JObj [(''height'', j_nat (ct_height t)), (''hash'', JStr (hash_text (ct_hash t))),
     (''branch_len'', j_nat (ct_branch_len t)), (''status'', JStr (status_name (ct_status t)))]"

definition sorted_tips :: "chain_tip list \<Rightarrow> chain_tip list" where
  "sorted_tips tips = sort_key (\<lambda>t. (- int (ct_branch_len t), - int (ct_height t))) tips"

text \<open>\<open>None\<close> when the walk of \<^verbatim>\<open>chain_tips\<close> panics.\<close>

definition rpc_chain_tips :: "rpc_env \<Rightarrow> json option" where
  "rpc_chain_tips env = map_option (\<lambda>tips. JArr (map tip_json (sorted_tips tips))) (chain_tips (re_tree_order env) (re_tree env))"

definition rpc_method :: "rpc_env \<Rightarrow> string option \<Rightarrow> u8 list \<Rightarrow> rpc_state \<Rightarrow> answer option" where
  "rpc_method env method payload st =
     (case method of
        None \<Rightarrow> Some (Inl ''malformed subject'', st)
      | Some name \<Rightarrow>
          if name = ''addresses.add'' then Some (rpc_add_addresses env payload st)
          else if name = ''addresses.info'' then Some (rpc_addresses_info env st)
          else if name = ''addresses.inspect'' then Some (rpc_inspect env payload st)
          else if name = ''addresses.due'' then Some (rpc_due_next env payload st)
          else if name = ''connections.list'' then Some (rpc_connections_list env st)
          else if name = ''headertree.tips'' then map_option (\<lambda>j. (Inr j, st)) (rpc_chain_tips env)
          else if name = ''banlist.add'' then Some (rpc_ban_add env payload st)
          else if name = ''banlist.list'' then Some (rpc_ban_list env st)
          else Some (Inl (''unknown method: '' @ name), st))"

definition rpc_dispatch :: "rpc_env \<Rightarrow> string option \<Rightarrow> u8 list \<Rightarrow> rpc_state \<Rightarrow> (json \<times> rpc_state) option" where
  "rpc_dispatch env method payload st =
     map_option (\<lambda>(r, st). (case r of Inr v \<Rightarrow> v | Inl e \<Rightarrow> JObj [(''error'', JStr e)], st)) (rpc_method env method payload st)"

section \<open>Subjects\<close>

definition rpc_prefix :: "string \<Rightarrow> string" where
  "rpc_prefix network = ''p2p-observer.'' @ network @ ''.rpc''"

definition method_of :: "string \<Rightarrow> string \<Rightarrow> string option" where
  "method_of network subject = Option.bind (strip_prefix (rpc_prefix network) subject) (strip_prefix ''.'')"

text \<open>One message: what is answered, and to whom when a reply was asked for.\<close>

definition rpc_serve :: "rpc_env \<Rightarrow> string \<Rightarrow> string \<times> u8 list \<times> string option \<Rightarrow> rpc_state
    \<Rightarrow> ((string \<times> json) option \<times> rpc_state) option" where
  "rpc_serve env network = (\<lambda>(subject, payload, reply_to) st.
     map_option (\<lambda>(reply, st). (map_option (\<lambda>r. (r, reply)) reply_to, st))
       (rpc_dispatch env (method_of network subject) payload st))"

section \<open>The command line\<close>

datatype rpc_command =
    AddressesInfo
  | AddressesAdd "string list"
  | AddressesInspect string
  | AddressesDue "nat option"
  | ConnectionsList
  | HeadertreeTips
  | BanlistAdd "string option" "string list" "string list"
  | BanlistList
  | Call string string

datatype tool_payload = NoPayload | JsonPayload json | TextPayload string

text \<open>A limit is sent as decimal digits, which are its JSON text.\<close>

fun tool_request :: "rpc_command \<Rightarrow> (string + string \<times> tool_payload)" where
  "tool_request AddressesInfo = Inr (''addresses.info'', NoPayload)"
| "tool_request (AddressesAdd addrs) = Inr (''addresses.add'', JsonPayload (JArr (map JStr addrs)))"
| "tool_request (AddressesInspect a) = Inr (''addresses.inspect'', JsonPayload (JStr a))"
| "tool_request (AddressesDue limit) =
     Inr (''addresses.due'', (case limit of None \<Rightarrow> NoPayload | Some l \<Rightarrow> JsonPayload (j_nat l)))"
| "tool_request ConnectionsList = Inr (''connections.list'', NoPayload)"
| "tool_request HeadertreeTips = Inr (''headertree.tips'', NoPayload)"
| "tool_request (BanlistAdd comment ns hs) =
     (if ns = [] \<and> hs = [] then Inl ''nothing to ban: give at least one --net or --host''
      else Inr (''banlist.add'', JsonPayload (JArr [JObj
        ([(''nets'', JArr (map JStr ns)), (''hosts'', JArr (map JStr hs))]
         @ (case comment of None \<Rightarrow> [] | Some c \<Rightarrow> [(''comment'', JStr c)]))])))"
| "tool_request BanlistList = Inr (''banlist.list'', NoPayload)"
| "tool_request (Call method payload) = Inr (method, TextPayload payload)"

fun payload_bytes :: "(json \<Rightarrow> u8 list) \<Rightarrow> tool_payload \<Rightarrow> u8 list" where
  "payload_bytes text NoPayload = []"
| "payload_bytes text (JsonPayload j) = text j"
| "payload_bytes text (TextPayload s) = ascii_bytes s"

definition tool_subject :: "string \<Rightarrow> string \<Rightarrow> string" where
  "tool_subject network method = ''p2p-observer.'' @ network @ ''.rpc.'' @ method"

datatype tool_reply = ToolOk json | ToolError string

definition interpret_reply :: "json \<Rightarrow> tool_reply" where
  "interpret_reply v = (case Option.bind (j_get v ''error'') j_string of Some e \<Rightarrow> ToolError e | None \<Rightarrow> ToolOk v)"

text \<open>A command sent to the observer of the same network: what the tool reports, and the observer afterwards.\<close>

definition tool_call :: "rpc_env \<Rightarrow> string \<Rightarrow> (json \<Rightarrow> u8 list) \<Rightarrow> rpc_command \<Rightarrow> rpc_state \<Rightarrow> (tool_reply \<times> rpc_state) option" where
  "tool_call env network text cmd st =
     (case tool_request cmd of
        Inl e \<Rightarrow> Some (ToolError e, st)
      | Inr (method, p) \<Rightarrow>
          (case rpc_serve env network (tool_subject network method, payload_bytes text p, Some ''_INBOX'') st of
             Some (Some (_, reply), st) \<Rightarrow> Some (interpret_reply reply, st)
           | _ \<Rightarrow> None))"

end
