(* ===== verification/Book_Origins.thy ===== *)
theory Book_Origins
  imports Dial_System Addr_Readback
begin

text \<open>
  Where the addresses of the book come from: a session takes them out of \<^verbatim>\<open>addr\<close> and \<^verbatim>\<open>addrv2\<close> messages, an operator types them, and a
  snapshot holds what an earlier run had. Nothing else puts one in, over any run of the manager; so every address of the book has the length of its network
  and the normal form of the constructors.
\<close>

section \<open>Sources\<close>

text \<open>An address a peer announced, in either message, and one that was read from text.\<close>

definition announced :: "peer_addr \<Rightarrow> bool" where
  "announced a \<longleftrightarrow>
     (\<exists>sa. wf_ip_addr (sa_ip sa) \<and> try_from_address (Some sa) = Some a) \<or> (\<exists>msg. wf_addr_v2 (msg_addr msg) \<and> try_from_addr_v2 msg = Some a)"

definition typed :: "(u8 list \<Rightarrow> u8 list) \<Rightarrow> peer_addr \<Rightarrow> bool" where
  "typed sha3 a \<longleftrightarrow> (\<exists>s. peer_parse sha3 s = Some a)"

definition came_in :: "(u8 list \<Rightarrow> u8 list) \<Rightarrow> peer_addr \<Rightarrow> bool" where
  "came_in sha3 a \<longleftrightarrow> announced a \<or> typed sha3 a"

lemma came_in_normal: "came_in sha3 a \<Longrightarrow> wf_peer_addr a \<and> normal_addr a"
  using announced_address_is_normal from_socket_addr_wf from_socket_addr_normal peer_parse_wf
  by (auto simp: came_in_def announced_def typed_def try_from_address_def)

text \<open>What goes in from outside at an event.\<close>

fun fed :: "(peer_addr \<Rightarrow> bool) \<Rightarrow> event \<Rightarrow> bool" where
  "fed P (EvGossipSend gs) = list_all (\<lambda>g. P (g_addr g)) gs"
| "fed P (EvCommand _ _ _ (AddManual addrs)) = list_all P addrs"
| "fed P _ = True"

section \<open>Nothing else gets in\<close>

definition book_addrs :: "manager \<Rightarrow> peer_addr set" where
  "book_addrs m = fst ` set (entries (m_book m))"

lemma keys_dom: "fst ` set m = dom (map_of m)"
  by (rule dom_map_of_conv_image_fst [symmetric])

lemma apply_msg_addrs: "book_addrs (apply_msg now m msg) \<subseteq> book_addrs m"
proof (cases msg)
  case (LEnded a out)
  have "map_of (entries (m_book m)) x \<noteq> None" if "map_of (entries (record_ended a now out (m_book m))) x = Some e" for x e
    using that by (auto simp: record_ended_entries Let_def split: option.splits if_splits)
  then show ?thesis unfolding LEnded book_addrs_def keys_dom by (auto simp: dom_def)
qed (auto simp: book_addrs_def record_connected_def record_v1_only_def Let_def keys_dom hm_simps dom_def split: if_splits)

lemma apply_msgs_addrs: "book_addrs (foldl (apply_msg now) m ms) \<subseteq> book_addrs m"
  using apply_msg_addrs by (induction ms arbitrary: m) (auto, blast)

lemma manual_addrs: "fst ` set (entries (snd (insert_manual now as b))) \<subseteq> fst ` set (entries b) \<union> set as"
  unfolding insert_manual_def keys_dom
  by (rule foldl_invariant [where P = "\<lambda>s. dom (map_of (entries (snd s))) \<subseteq> dom (map_of (entries b)) \<union> set as"])
    (auto 0 4 simp: insert_manual_one_def hm_simps dest: subsetD [OF _ domI] split: prod.splits option.splits if_splits)

lemma command_addrs:
  "book_addrs (fst (snd (run_command sha3 to_json ho os now c m fs)))
   \<subseteq> book_addrs m \<union> (case c of AddManual as \<Rightarrow> set as | _ \<Rightarrow> {})"
  using manual_addrs [of now _ "m_book m"]
  by (cases c) (auto simp: book_addrs_def Let_def case_prod_beta purge_entries split: if_splits)

lemma tick_addrs:
  assumes "hash_order ho" "manager_ok m"
  shows "book_addrs (snd (tick sha3 ho now m)) = book_addrs m"
proof -
  obtain out m' where t: "tick sha3 ho now m = (out, m')" by fastforce
  from pick_after(5) [OF assms(1) _ tick_ok(4) [OF assms t]] assms(2) t show ?thesis
    unfolding book_addrs_def by (simp add: manager_ok_def) (metis list.set_map)
qed

lemma ingest_addrs:
  assumes "hash_order ho" "manager_ok m"
  shows "book_addrs (snd (manager_ingest sha3 ho now gs m)) \<subseteq> book_addrs m \<union> g_addr ` set gs"
  using ingest_keeps(5) [OF assms(1), where b = "m_book m" and ?sha3.0 = sha3 and now = now and gs = gs and bl = "m_banlist m"] assms(2)
  by (auto simp: book_addrs_def ingest_sources_def manager_ingest_def manager_ok_def case_prod_beta)

definition addrs_are :: "(peer_addr \<Rightarrow> bool) \<Rightarrow> sys \<Rightarrow> bool" where
  "addrs_are P s \<longleftrightarrow> (\<forall>a \<in> book_addrs (s_manager s). P a) \<and> (\<forall>gs \<in> set (s_gossip s). \<forall>g \<in> set gs. P (g_addr g))"

lemma step_addrs:
  assumes "sys_ok s" "event_ok ev" "fed P ev" "addrs_are P s" "sys_step env ev s = Some (ds, s')"
  shows "addrs_are P s'"
proof (cases ev)
  case (EvTick ho now)
  then show ?thesis using assms tick_addrs [OF _ sys_ok_manager [OF assms(1)], of ho "env_sha3 env" now]
    by (auto simp: addrs_are_def case_prod_beta)
next
  case (EvDeliver k now)
  then show ?thesis using assms(4,5) apply_msgs_addrs [of now "s_manager s" "take k (s_life s)"]
    by (auto simp: addrs_are_def split: if_splits)
next
  case (EvGossipSend gs)
  then show ?thesis using assms(3-5) by (auto simp: addrs_are_def handle_gossip_def list_all_iff split: if_splits)
next
  case (EvGossipRecv ho now)
  with assms(5) obtain gs rest where g: "s_gossip s = gs # rest"
    "s' = s\<lparr>s_manager := snd (manager_ingest (env_sha3 env) ho now gs (s_manager s)), s_gossip := rest\<rparr>"
    by (auto split: list.splits)
  with assms(2,4) EvGossipRecv ingest_addrs [OF _ sys_ok_manager [OF assms(1)], of ho "env_sha3 env" now gs]
  show ?thesis by (auto simp: addrs_are_def)
next
  case (EvCommand ho os now c)
  then show ?thesis using assms(3-5) command_addrs [of "env_sha3 env" "env_to_json env" ho os now c "s_manager s" "s_fs s"]
    by (cases c) (auto simp: addrs_are_def case_prod_beta list_all_iff)
qed (use assms(4,5) in \<open>auto simp: addrs_are_def split: if_splits\<close>)

text \<open>So everything in the book of a running observer came in one of those ways.\<close>

lemma run_addrs:
  assumes "sys_run env s tr s'" "sys_ok s" "addrs_are P s" "\<forall>(ev, ds) \<in> set tr. fed P ev"
  shows "addrs_are P s'"
  using assms
proof (induction rule: sys_run.induct)
  case (run_step tr s' ev ds s'')
  then show ?case using step_addrs [OF sys_run_ok [OF run_step.hyps(1) run_step.prems(1)] run_step.hyps(2)] by auto
qed simp

lemma start_addrs:
  assumes "manager_new sha3 from_json from_bytes cfg ban_file snap_file now = Inr m"
  shows "book_addrs m \<subseteq> fst ` set (persist_load from_bytes snap_file)"
  using assms unfolding manager_new_def Let_def book_addrs_def case_prod_beta
  by (auto simp: restore_def simp del: image_iff split: sum.splits) (force simp: purge_banned_def Let_def)

end
