(* ===== verification/Rpc_Spec.thy ===== *)
theory Rpc_Spec
  imports Rpc Header_Spec Book_Origins
begin

text \<open>
  What the command line and the observer promise each other: requests the tool builds are understood, what is refused changes nothing,
  a ban takes effect, printed addresses can be asked about, and the order the chain tips come in.
\<close>

section \<open>Client and server\<close>

lemma method_of_tool: "method_of network (tool_subject network method) = Some method"
  by (simp add: method_of_def tool_subject_def rpc_prefix_def strip_prefix_def prefix_def)

text \<open>The bytes of a payload are read as the value they were printed from; no value is printed as nothing.\<close>

definition sent_ok :: "rpc_env \<Rightarrow> (json \<Rightarrow> u8 list) \<Rightarrow> tool_payload \<Rightarrow> bool" where
  "sent_ok env text p \<longleftrightarrow> (case p of JsonPayload j \<Rightarrow> text j \<noteq> [] \<and> re_parse env (text j) = Some j | _ \<Rightarrow> True)"

lemma rpc_read_sent:
  "sent_ok env text (JsonPayload j) \<Longrightarrow>
     rpc_read env f (text j) = (case f j of None \<Rightarrow> Inl (''invalid JSON: '' @ re_json_error env (text j)) | Some v \<Rightarrow> Inr v)"
  by (simp add: rpc_read_def sent_ok_def)

lemma tool_call_eq:
  "tool_request cmd = Inr (method, p) \<Longrightarrow> tool_call env network text cmd st =
     map_option (\<lambda>(r, st). (interpret_reply (case r of Inr v \<Rightarrow> v | Inl e \<Rightarrow> JObj [(''error'', JStr e)]), st))
       (rpc_method env (Some method) (payload_bytes text p) st)"
  by (auto simp: tool_call_def rpc_serve_def rpc_dispatch_def method_of_tool split: option.splits prod.splits)

lemma j_strings: "j_list j_string (JArr (map JStr xs)) = Some xs"
  by (induction xs) auto

lemma j_nets: "map net_from_str texts = map Inr ns \<Longrightarrow> j_list j_net (JArr (map JStr texts)) = Some ns"
proof (induction texts arbitrary: ns)
  case (Cons t texts)
  then obtain n ns' where "ns = n # ns'" "net_from_str t = Inr n" "map net_from_str texts = map Inr ns'" by (cases ns) auto
  with Cons.IH [of ns'] show ?case by (simp add: j_net_def)
qed simp

lemma tool_ban_entry:
  assumes "map net_from_str texts = map Inr ns"
  shows "ban_from_json (JObj ([(''nets'', JArr (map JStr texts)), (''hosts'', JArr (map JStr hs))]
      @ (case c of None \<Rightarrow> [] | Some c \<Rightarrow> [(''comment'', JStr c)]))) = Some \<lparr>ban_comment = c, ban_nets = ns, ban_hosts = hs\<rparr>"
  using j_nets [OF assms] j_strings [of hs]
  by (cases c) (simp_all add: ban_fields_def j_field_def j_comment_def)

section \<open>Requests\<close>

lemma request_turn:
  assumes "rs_turns st = t # ts"
  shows "rpc_request env c st =
    (let (r, m, trace) = run_command (re_sha3 env) (re_ban_file env) (re_order env) (tn_calls t) (tn_now t) c (rs_manager st) (rs_fs st)
     in (Some (r, tn_save_error t), st\<lparr>rs_turns := ts, rs_manager := m, rs_fs := last trace\<rparr>))"
  using assms by (simp add: rpc_request_def)

lemma request_gone: "rpc_request env c st = (None, st') \<Longrightarrow> st' = st"
  by (auto simp: rpc_request_def Let_def split: list.splits prod.splits)

lemma ban_all_gone: "rpc_ban_all env es acc st = (Inl e, st') \<Longrightarrow> e = GONE"
  by (induction env es acc st rule: rpc_ban_all.induct) (auto split: option.splits prod.splits reply.splits)

text \<open>
  What the observer refuses it does not do: when a request is answered with an error, other than that the manager is gone, the
  address book, the ban list, the files and the manager's queue are as before, whatever the method and the payload.
\<close>

theorem refused_requests_change_nothing:
  assumes "rpc_method env method payload st = Some (Inl e, st')" "e \<noteq> GONE"
  shows "st' = st"
  using assms ban_all_gone
  by (auto simp: rpc_method_def rpc_add_addresses_def rpc_addresses_info_def rpc_inspect_def rpc_due_next_def rpc_connections_list_def
      rpc_ban_add_def rpc_ban_list_def Let_def split: if_splits option.splits sum.splits prod.splits reply.splits)

section \<open>The chain tips\<close>

lemma all_some_hashes:
  assumes "all_some (map f xs) = Some ys" "\<And>x y. f x = Some y \<Longrightarrow> g y = h x"
  shows "map g ys = map h xs"
  using assms(1)
proof (induction xs arbitrary: ys)
  case (Cons x xs)
  then obtain y ys' where "f x = Some y" "all_some (map f xs) = Some ys'" "ys = y # ys'" by (cases "f x") auto
  with Cons.IH [of ys'] assms(2) show ?case by simp
qed simp

lemma tips_distinct:
  assumes "hash_order ho" "hm_ok (headers t)" "chain_tips ho t = Some tips"
  shows "distinct (map ct_hash tips)"
proof -
  define leaves where "leaves = filter (\<lambda>(h, _). h \<notin> set (map (\<lambda>(_, e). prev_blockhash (he_header e))
    (filter (\<lambda>(_, e). 0 < he_height e) (headers t)))) (ho (headers t))"
  have "map ct_hash tips = map fst leaves"
    using assms(3) unfolding chain_tips_def Let_def leaves_def
    by (rule all_some_hashes) (auto split: prod.splits)
  moreover have "hm_ok leaves" using assms(1,2) by (simp add: leaves_def)
  ultimately show ?thesis by (simp add: hm_ok_def)
qed

text \<open>A tip on the best chain is the active one.\<close>

lemma tip_on_chain:
  assumes "tree_ok C t" "best_ok t" "map_of (headers t) h = Some e"
    "\<forall>h' e'. map_of (headers t) h' = Some e' \<longrightarrow> 0 < he_height e' \<longrightarrow> prev_blockhash (he_header e') \<noteq> h"
    "branch_walk (headers t) (best_chain t) (he_height e) h 0 = Some 0"
  shows "h = tip t"
proof -
  note facts = best_chain_facts [OF assms(1,2)]
  from branch_walk_spec [OF assms(1-3), of 0] assms(5) obtain anc where
    anc: "walk_back (headers t) h 0 = Some anc" "c_hash C (he_header anc) = best_chain t ! he_height e" "he_height e < length (best_chain t)"
    by auto
  have "wf_headers C (headers t)" using assms(1) by (simp add: tree_ok_def tree_inv_def)
  then have h: "best_chain t ! he_height e = h"
    using anc(1,2) assms(3) by (auto simp: wf_headers_def wf_entry_def)
  have "\<not> he_height e + 1 < length (best_chain t)"
  proof
    assume "he_height e + 1 < length (best_chain t)"
    then obtain e' where "map_of (headers t) (best_chain t ! (he_height e + 1)) = Some e'" "prev_blockhash (he_header e') = h"
        "he_height e' = he_height e + 1"
      using facts(2,3) [of "he_height e + 1"] h by auto
    with assms(4) show False by auto
  qed
  then have "he_height e = length (best_chain t) - 1" "best_chain t \<noteq> []" using anc(3) by auto
  then show ?thesis using h assms(2) by (simp add: best_ok_def last_conv_nth)
qed

lemma last_of_sorted:
  assumes "x \<in> set xs" "\<And>y. y \<in> set xs \<Longrightarrow> y \<noteq> x \<Longrightarrow> f y < f x"
  shows "last (sort_key f xs) = x"
proof (rule ccontr)
  let ?ys = "sort_key f xs"
  assume ne: "last ?ys \<noteq> x"
  have x: "x \<in> set ?ys" using assms(1) by simp
  have "?ys \<noteq> []" using length_pos_if_in_set [OF x] by (metis length_greater_0_conv)
  then have split: "?ys = butlast ?ys @ [last ?ys]" by simp
  have "last ?ys \<in> set xs" using \<open>?ys \<noteq> []\<close> last_in_set by fastforce
  then have less: "f (last ?ys) < f x" using assms(2) ne by blast
  have "x \<in> set (butlast ?ys)" using x ne split by (metis in_set_conv_decomp Un_iff set_append empty_iff empty_set insert_iff list.simps(15))
  moreover have "sorted (map f (butlast ?ys @ [last ?ys]))" unfolding split [symmetric] by simp
  ultimately have "f x \<le> f (last ?ys)" by (auto simp: sorted_append)
  with less show False by simp
qed

text \<open>
  C26. \<^verbatim>\<open>headertree.tips\<close> answers without a panic and lists the active tip last, after every tip of a branch, the longest branch first: its branch
  length is zero, and the order is by falling branch length. The comment at the sort says that the active tip comes first.
\<close>

theorem active_tip_is_listed_last:
  assumes "hash_order (re_tree_order env)" "tree_ok C (re_tree env)" "best_ok (re_tree env)" "\<forall>hdr. 0 < c_work C hdr"
  shows "\<exists>tips. rpc_chain_tips env = Some (JArr (map tip_json tips)) \<and> tips \<noteq> []
    \<and> ct_status (last tips) = Active \<and> ct_branch_len (last tips) = 0
    \<and> (\<forall>ct \<in> set (butlast tips). ct_status ct = HeadersOnly \<and> 0 < ct_branch_len ct)
    \<and> sorted_wrt (\<lambda>x y. ct_branch_len y \<le> ct_branch_len x) tips"
proof -
  let ?t = "re_tree env" and ?ho = "re_tree_order env"
  have ok: "hm_ok (headers ?t)" using assms(2) by (simp add: tree_ok_def tree_inv_def wf_headers_def)
  obtain tips where tips: "chain_tips ?ho ?t = Some tips"
    "ct_hash ` set tips = {h. \<exists>e. map_of (headers ?t) h = Some e
       \<and> (\<forall>h' e'. map_of (headers ?t) h' = Some e' \<longrightarrow> 0 < he_height e' \<longrightarrow> prev_blockhash (he_header e') \<noteq> h)}"
    "\<forall>ct \<in> set tips. ct_status ct = Active \<longleftrightarrow> ct_hash ct = tip ?t"
    "\<forall>ct \<in> set tips. \<exists>e. map_of (headers ?t) (ct_hash ct) = Some e \<and> ct_height ct = he_height e
       \<and> branch_walk (headers ?t) (best_chain ?t) (he_height e) (ct_hash ct) 0 = Some (ct_branch_len ct)"
    using chain_tips_total [OF assms(1-3)] by blast
  have dist: "distinct (map ct_hash tips)" by (rule tips_distinct [OF assms(1) ok tips(1)])
  note top = active_tip [OF assms(2-4)]
  obtain x where x: "x \<in> set tips" "ct_hash x = tip ?t" "ct_status x = Active" "ct_branch_len x = 0"
  proof -
    have "tip ?t \<in> ct_hash ` set tips" unfolding tips(2) using top by blast
    then obtain x where "x \<in> set tips" "ct_hash x = tip ?t" by auto
    with that tips(3,4) top(2) show ?thesis by fastforce
  qed
  have other: "ct_status y = HeadersOnly \<and> 0 < ct_branch_len y" if y: "y \<in> set tips" "y \<noteq> x" for y
  proof -
    have ne: "ct_hash y \<noteq> tip ?t" using dist x(1,2) y by (auto simp: distinct_map inj_on_def)
    obtain e where e: "map_of (headers ?t) (ct_hash y) = Some e"
      "branch_walk (headers ?t) (best_chain ?t) (he_height e) (ct_hash y) 0 = Some (ct_branch_len y)"
      using tips(4) y(1) by blast
    have "ct_hash y \<in> ct_hash ` set tips" using y(1) by simp
    then have "ct_branch_len y \<noteq> 0"
      using tip_on_chain [OF assms(2,3) e(1)] e(2) ne unfolding tips(2) by auto
    moreover have "ct_status y \<noteq> Active" using tips(3) y(1) ne by blast
    ultimately show ?thesis by (cases "ct_status y") auto
  qed
  let ?s = "sorted_tips tips"
  have last: "last ?s = x"
    unfolding sorted_tips_def by (rule last_of_sorted [OF x(1)]) (use other x(4) in \<open>auto simp: less_prod_def'\<close>)
  have "?s \<noteq> []" using x(1) by (metis sorted_tips_def set_sort list.set(1) empty_iff)
  moreover have "distinct ?s" using dist by (simp add: sorted_tips_def distinct_map)
  then have "y \<noteq> x \<and> y \<in> set tips" if "y \<in> set (butlast ?s)" for y
    using that last in_set_butlastD [OF that] \<open>?s \<noteq> []\<close>
    by (metis append_butlast_last_id disjoint_iff distinct_append in_set_conv_decomp list.set_intros(1) set_sort sorted_tips_def)
  moreover have "sorted (map (\<lambda>t. (- int (ct_branch_len t), - int (ct_height t))) ?s)" by (simp add: sorted_tips_def)
  then have "sorted_wrt (\<lambda>x y. ct_branch_len y \<le> ct_branch_len x) ?s"
    unfolding sorted_map by (rule sorted_wrt_mono_rel [rotated]) auto
  ultimately show ?thesis using last x other tips(1) by (intro exI [where x = ?s]) (auto simp: rpc_chain_tips_def)
qed

text \<open>An observer with one address, whose JSON library reads one value.\<close>

definition known_addr :: peer_addr where
  "known_addr = Ipv4 [10, 0, 0, 1] 8333"

definition sample_state :: rpc_state where
  "sample_state = \<lparr>rs_turns = [\<lparr>tn_now = 5, tn_calls = [], tn_save_error = []\<rparr>],
     rs_manager = \<lparr>m_book = (book_new 100 1)\<lparr>entries := [(known_addr, entry_new 1 1 Gossip)]\<rparr>,
       m_banlist = \<lparr>ban_entries = [], ban_path = ''b.json''\<rparr>,
       m_cfg = \<lparr>dials_per_tick = 1, max_dialing = 1, cfg_capacity = 100, cfg_nets = \<lparr>en_ipv4 = True, en_ipv6 = False, en_tor = False,
         en_cjdns = False, en_i2p = False\<rparr>, snapshot_path = ''a'', banlist_path = ''b.json''\<rparr>\<rparr>,
     rs_fs = Map.empty\<rparr>"

definition sample_env :: "json \<Rightarrow> rpc_env" where
  "sample_env j = \<lparr>re_sha3 = (\<lambda>_. replicate 32 7), re_ban_file = (\<lambda>_. Some [91, 93]), re_order = id, re_parse = (\<lambda>_. Some j),
     re_json_error = (\<lambda>_. ''expected value''), re_tree = demo_tree, re_tree_order = id, re_live = [], re_live_order = id,
     re_now_ms = 5000, re_instance = 1\<rparr>"

theorem refused_requests_change_nothing_witness:
  "rpc_method (sample_env JNull) (Some ''addresses.inspect'') [1] sample_state = Some (Inl ''invalid JSON: expected value'', sample_state)"
proof -
  obtain st' where st: "rpc_method (sample_env JNull) (Some ''addresses.inspect'') [1] sample_state =
      Some (Inl ''invalid JSON: expected value'', st')"
    by (simp add: rpc_method_def rpc_inspect_def rpc_read_def sample_env_def)
  from refused_requests_change_nothing [OF this] show ?thesis using st by (simp add: GONE_def)
qed

theorem active_tip_is_listed_last_witness:
  "\<exists>tips. rpc_chain_tips (sample_env JNull) = Some (JArr (map tip_json tips)) \<and> ct_status (last tips) = Active"
  using active_tip_is_listed_last [of "sample_env JNull" demo_chain] demo_tree_ok
  by (auto simp: sample_env_def demo_chain_def)

section \<open>Bans\<close>

lemma run_ban:
  "run_command sha3 to_json ho os now (Ban e) m fs =
    (let bl = snd (ban_add (m_banlist m) e); (saved, trace) = ban_save to_json bl os fs
     in (RBan \<lparr>br_added = fst (ban_add (m_banlist m) e),
           br_purged = (if 0 < fst (ban_add (m_banlist m) e) then fst (purge_banned sha3 bl (m_book m)) else 0), br_saved = saved\<rparr>,
         m\<lparr>m_banlist := bl, m_book := (if 0 < fst (ban_add (m_banlist m) e) then snd (purge_banned sha3 bl (m_book m)) else m_book m)\<rparr>, trace))"
  by (simp add: Let_def case_prod_beta)

lemma tool_ban_method: "tool_request (BanlistAdd c texts hs) = Inr (method, p) \<Longrightarrow> method = ''banlist.add''"
  by (simp split: if_splits)

lemma tool_ban_read:
  assumes "map net_from_str texts = map Inr ns" "tool_request (BanlistAdd c texts hs) = Inr (method, p)" "sent_ok env text p"
  shows "rpc_read env (j_list ban_from_json) (payload_bytes text p) = Inr [\<lparr>ban_comment = c, ban_nets = ns, ban_hosts = hs\<rparr>]"
proof -
  let ?j = "JArr [JObj ([(''nets'', JArr (map JStr texts)), (''hosts'', JArr (map JStr hs))]
      @ (case c of None \<Rightarrow> [] | Some c \<Rightarrow> [(''comment'', JStr c)]))]"
  have p: "p = JsonPayload ?j" using assms(2) by (simp split: if_splits)
  show ?thesis
    using rpc_read_sent [OF assms(3) [unfolded p], of "j_list ban_from_json"] tool_ban_entry [OF assms(1), of hs c]
    by (simp add: p del: append.simps)
qed

lemma ban_all_answers:
  assumes "length es \<le> length (rs_turns st)"
  shows "\<exists>v st'. rpc_ban_all env es acc st = (Inr v, st')"
  using assms
proof (induction es arbitrary: acc st)
  case (Cons e es)
  then obtain t ts where "rs_turns st = t # ts" by (cases "rs_turns st") auto
  moreover obtain added purged err where "acc = (added, purged, err)" by (rule prod_cases3)
  ultimately show ?case
    using Cons.IH Cons.prems by (simp add: request_turn case_prod_beta Let_def)
qed (simp, metis prod_cases3)

lemma ban_add_answer:
  assumes "rpc_read env (j_list ban_from_json) bytes = Inr es" "rpc_ban_all env es (0, 0, None) st = (Inr v, st')"
  shows "\<exists>r. rpc_ban_add env bytes st = (Inr r, st') \<and> interpret_reply r = ToolOk r"
  using assms by (cases v; cases "snd (snd v)") (simp_all add: rpc_ban_add_def interpret_reply_def)

lemma nothing_added: "fst (ban_add bl e) = 0 \<Longrightarrow> snd (ban_add bl e) = bl"
  by (simp add: ban_add_def Let_def)

text \<open>
  C24. A ban made with the command line holds: when the networks given are networks and the manager is there, the tool reports success; every
  address inside a network and every onion or I2P address whose text was given is banned from then on, and gone from the book unless a ban covered it before; no
  other ban is lifted.
\<close>

theorem banned_over_rpc_is_gone:
  assumes "map net_from_str texts = map Inr ns" "texts \<noteq> [] \<or> hs \<noteq> []" "rs_turns st \<noteq> []"
    "\<And>method p. tool_request (BanlistAdd c texts hs) = Inr (method, p) \<Longrightarrow> sent_ok env text p"
  shows "\<exists>v st'. tool_call env network text (BanlistAdd c texts hs) st = Some (ToolOk v, st')
    \<and> (\<forall>a. ban_contains (re_sha3 env) (m_banlist (rs_manager st')) a \<longleftrightarrow>
          ban_contains (re_sha3 env) (m_banlist (rs_manager st)) a
          \<or> entry_bans (re_sha3 env) \<lparr>ban_comment = c, ban_nets = ns, ban_hosts = hs\<rparr> a)
    \<and> fst ` set (entries (m_book (rs_manager st'))) = fst ` set (entries (m_book (rs_manager st)))
        - {a. ban_contains (re_sha3 env) (m_banlist (rs_manager st')) a \<and> m_banlist (rs_manager st') \<noteq> m_banlist (rs_manager st)}"
proof -
  let ?e = "\<lparr>ban_comment = c, ban_nets = ns, ban_hosts = hs\<rparr>" and ?m = "rs_manager st"
  let ?add = "ban_add (m_banlist ?m) ?e"
  obtain t ts where turns: "rs_turns st = t # ts" using assms(3) by (cases "rs_turns st") auto
  obtain p where req: "tool_request (BanlistAdd c texts hs) = Inr (''banlist.add'', p)" using assms(2) by auto
  note read = tool_ban_read [OF assms(1) req assms(4) [OF req]]
  let ?book = "if 0 < fst ?add then snd (purge_banned (re_sha3 env) (snd ?add) (m_book ?m)) else m_book ?m"
  obtain saved trace where save: "ban_save (re_ban_file env) (snd ?add) (tn_calls t) (rs_fs st) = (saved, trace)" by force
  obtain r st' where ask: "rpc_request env (Ban ?e) st = (Some (RBan r, tn_save_error t), st')"
    and st': "m_banlist (rs_manager st') = snd ?add" "m_book (rs_manager st') = ?book"
    unfolding request_turn [OF turns] run_ban Let_def save by simp
  from ask obtain v where "rpc_ban_all env [?e] (0, 0, None) st = (Inr v, st')" by simp
  from ban_add_answer [OF read this] obtain v where v: "rpc_ban_add env (payload_bytes text p) st = (Inr v, st')" "interpret_reply v = ToolOk v"
    by blast
  have "tool_call env network text (BanlistAdd c texts hs) st = Some (ToolOk v, st')"
    unfolding tool_call_eq [OF req] by (simp add: rpc_method_def v)
  moreover have "snd ?add \<noteq> m_banlist ?m" if "0 < fst ?add"
    using that by (auto simp: ban_add_def Let_def dest!: arg_cong [where f = ban_entries])
  then have "fst ` set (entries ?book) = fst ` set (entries (m_book ?m))
      - {a. ban_contains (re_sha3 env) (snd ?add) a \<and> snd ?add \<noteq> m_banlist ?m}"
    using nothing_added [of "m_banlist ?m" ?e] purge_entries [of "re_sha3 env" "snd ?add" "m_book ?m"]
    by (cases "0 < fst ?add") auto
  ultimately show ?thesis
    by (intro exI conjI allI) (assumption, (simp only: st' ban_contains_add)+)
qed

theorem banned_over_rpc_is_gone_witness:
  "\<exists>j v st'. tool_call (sample_env j) ''signet'' (\<lambda>_. [1]) (BanlistAdd None [''10.0.0.0/8''] []) sample_state = Some (ToolOk v, st')
     \<and> ban_contains (\<lambda>_. replicate 32 7) (m_banlist (rs_manager st')) known_addr"
proof -
  let ?n = "\<lparr>net_addr = V4 [10, 0, 0, 0], net_prefix_len = 8\<rparr>"
  have n: "net_from_str ''10.0.0.0/8'' = Inr ?n" by code_simp
  obtain j where j: "tool_request (BanlistAdd None [''10.0.0.0/8''] []) = Inr (''banlist.add'', JsonPayload j)" by simp
  have "map net_from_str [''10.0.0.0/8''] = map Inr [?n]" using n by simp
  then obtain v st' where "tool_call (sample_env j) ''signet'' (\<lambda>_. [1]) (BanlistAdd None [''10.0.0.0/8''] []) sample_state = Some (ToolOk v, st')"
    "\<forall>a. ban_contains (re_sha3 (sample_env j)) (m_banlist (rs_manager st')) a \<longleftrightarrow>
          ban_contains (re_sha3 (sample_env j)) (m_banlist (rs_manager sample_state)) a
          \<or> entry_bans (re_sha3 (sample_env j)) \<lparr>ban_comment = None, ban_nets = [?n], ban_hosts = []\<rparr> a"
    using banned_over_rpc_is_gone [of "[''10.0.0.0/8'']" "[?n]" "[]" sample_state None "sample_env j" "\<lambda>_. [1]" "''signet''"] j
    by (auto simp: sent_ok_def sample_env_def sample_state_def simp del: map_eq_conv)
  moreover have "entry_bans (re_sha3 (sample_env j)) \<lparr>ban_comment = None, ban_nets = [?n], ban_hosts = []\<rparr> known_addr"
    by (simp add: entry_bans_def known_addr_def net_contains_iff)
  moreover have "re_sha3 (sample_env j) = (\<lambda>_. replicate 32 7)" by (simp add: sample_env_def)
  ultimately show ?thesis by (intro exI [where x = j] exI [where x = v] exI [where x = st']) simp
qed

section \<open>Addresses\<close>

lemma due_rows:
  assumes "hash_order (re_order env)" "hm_ok (entries (m_book (rs_manager st)))"
    "rpc_due_next env payload st = (Inr (JArr rows), st')" "row \<in> set rows"
  shows "rs_manager st' = rs_manager st"
    "\<exists>a e. map_of (entries (m_book (rs_manager st))) a = Some e
      \<and> row = JObj [(''addr'', JStr (display (re_sha3 env) a)), (''next_attempt'', j_word (next_attempt e))]"
proof -
  obtain limit t ts where limit: "rs_turns st = t # ts"
    "rows = map (\<lambda>(a, n). JObj [(''addr'', JStr (display (re_sha3 env) a)), (''next_attempt'', j_word n)])
       (take limit (sort_key snd (map (\<lambda>(a, e). (a, next_attempt e)) (re_order env (entries (m_book (rs_manager st)))))))"
    "rs_manager st' = rs_manager st"
    using assms(3) by (auto simp: rpc_due_next_def rpc_request_def split: sum.splits list.splits if_splits)
  show "rs_manager st' = rs_manager st" by (rule limit(3))
  from assms(4) obtain p where p: "row = (\<lambda>(a, n). JObj [(''addr'', JStr (display (re_sha3 env) a)), (''next_attempt'', j_word n)]) p"
    "p \<in> set (take limit (sort_key snd (map (\<lambda>(a, e). (a, next_attempt e)) (re_order env (entries (m_book (rs_manager st)))))))"
    unfolding limit(2) by auto
  from in_set_takeD [OF p(2)] assms(1) obtain a e where "(a, e) \<in> set (entries (m_book (rs_manager st)))" "p = (a, next_attempt e)"
    by auto
  with p(1) assms(2) show "\<exists>a e. map_of (entries (m_book (rs_manager st))) a = Some e
      \<and> row = JObj [(''addr'', JStr (display (re_sha3 env) a)), (''next_attempt'', j_word (next_attempt e))]"
    by (auto simp: hm_get_iff)
qed

lemma interpret_ok: "interpret_reply (case r of Inr v \<Rightarrow> v | Inl e \<Rightarrow> JObj [(''error'', JStr e)]) = ToolOk v \<Longrightarrow> r = Inr v"
  by (auto simp: interpret_reply_def split: sum.splits option.splits)

text \<open>
  C25. Every address the command line lists as due can be asked about as it was printed: \<^verbatim>\<open>addresses inspect\<close> on the text of a row answers
  with the entry of that very address, on all networks. It holds over any run of the manager from its start, whatever addresses peers announce and
  operators type, when those of the snapshot came in so as well; nothing else gets into the book.
\<close>

theorem due_addresses_can_be_inspected:
  assumes "\<And>x. length (re_sha3 env x) = 32" "hash_order (re_order env)"
    and "manager_new sha3 from_json from_bytes cfg ban_file snap_file now = Inr m"
      "\<forall>a \<in> fst ` set (persist_load from_bytes snap_file). came_in (re_sha3 env) a"
    and "sys_run senv (sys_init m fs) tr s" "\<forall>(ev, ds) \<in> set tr. fed (came_in (re_sha3 env)) ev" "rs_manager st = s_manager s"
    and "tool_call env network text (AddressesDue limit) st = Some (ToolOk (JArr rows), st')" "row \<in> set rows" "rs_turns st' \<noteq> []"
  shows "\<exists>a e. map_of (entries (m_book (rs_manager st))) a = Some e
    \<and> j_get row ''addr'' = Some (JStr (display (re_sha3 env) a))
    \<and> (sent_ok env text (JsonPayload (JStr (display (re_sha3 env) a))) \<longrightarrow>
       (\<exists>st''. tool_call env network text (AddressesInspect (display (re_sha3 env) a)) st' = Some (ToolOk (entry_json env a e), st'')))"
proof -
  have start: "sys_ok (sys_init m fs)" using manager_new_ok [OF assms(3)] by (simp add: sys_ok_init)
  have "addrs_are (came_in (re_sha3 env)) (sys_init m fs)"
    using start_addrs [OF assms(3)] assms(4) by (auto simp: addrs_are_def sys_init_def)
  from run_addrs [OF assms(5) start this assms(6)] have came: "\<forall>a \<in> book_addrs (rs_manager st). came_in (re_sha3 env) a"
    by (simp add: addrs_are_def assms(7))
  have distinct: "hm_ok (entries (m_book (rs_manager st)))"
    using sys_ok_manager [OF sys_run_ok [OF assms(5) start]] by (simp add: manager_ok_def book_ok_def assms(7))
  obtain p where "tool_request (AddressesDue limit) = Inr (''addresses.due'', p)" by simp
  from tool_call_eq [OF this, of env network "text" st] assms(8)
  have due: "rpc_due_next env (payload_bytes text p) st = (Inr (JArr rows), st')"
    using interpret_ok [OF sym] by (cases "rpc_due_next env (payload_bytes text p) st") (simp add: rpc_method_def)
  note facts = due_rows [OF assms(2) distinct due assms(9)]
  obtain a e where a: "map_of (entries (m_book (rs_manager st))) a = Some e"
    "row = JObj [(''addr'', JStr (display (re_sha3 env) a)), (''next_attempt'', j_word (next_attempt e))]" using facts(2) by blast
  let ?s = "display (re_sha3 env) a"
  have "a \<in> book_addrs (rs_manager st)" using a(1) unfolding book_addrs_def by (metis map_of_SomeD fst_conv image_eqI)
  then have "wf_peer_addr a" "normal_addr a" using came came_in_normal by blast+
  then have parse: "peer_parse (re_sha3 env) ?s = Some a" using assms(1) by (rule read_back)
  obtain t ts where "rs_turns st' = t # ts" using assms(10) by (cases "rs_turns st'") auto
  then obtain st'' where ask: "rpc_request env (Inspect a) st' = (Some (REntry (Some e), tn_save_error t), st'')"
    using a(1) facts(1) by (simp add: request_turn book_entry_def)
  have "tool_call env network text (AddressesInspect ?s) st' = Some (ToolOk (entry_json env a e), st'')"
    if "sent_ok env text (JsonPayload (JStr ?s))"
    using rpc_read_sent [OF that, of j_string]
    by (simp add: tool_call_eq rpc_method_def rpc_inspect_def parse ask j_opt_def interpret_reply_def) (simp add: entry_json_def)
  with a show ?thesis by auto
qed

text \<open>A manager that starts with nothing and is told of one address, which is then listed and asked about.\<close>

definition empty_manager :: manager where
  "empty_manager = (rs_manager sample_state)\<lparr>m_book := book_new 100 1\<rparr>"

theorem due_addresses_can_be_inspected_witness:
  "\<exists>text st st' st'' e. tool_call (sample_env (JStr (display (\<lambda>_. replicate 32 7) known_addr))) ''signet'' text (AddressesDue None) st
       = Some (ToolOk (JArr [JObj [(''addr'', JStr (display (\<lambda>_. replicate 32 7) known_addr)), (''next_attempt'', j_word (0 :: u32))]]), st')
     \<and> tool_call (sample_env (JStr (display (\<lambda>_. replicate 32 7) known_addr))) ''signet'' text
         (AddressesInspect (display (\<lambda>_. replicate 32 7) known_addr)) st'
       = Some (ToolOk (entry_json (sample_env (JStr (display (\<lambda>_. replicate 32 7) known_addr))) known_addr e), st'')"
proof -
  let ?sha3 = "\<lambda>_. replicate 32 7" and ?t = "\<lparr>tn_now = 5, tn_calls = [], tn_save_error = []\<rparr>"
  let ?env = "sample_env (JStr (display ?sha3 known_addr))" and ?senv = "\<lparr>env_sha3 = ?sha3, env_to_json = (\<lambda>_. None), env_to_bytes = (\<lambda>_. None)\<rparr>"
  let ?ev = "EvCommand id [] 1 (AddManual [known_addr])" and ?book = "(book_new 100 1)\<lparr>entries := [(known_addr, entry_new 1 0 Manual)]\<rparr>"
  let ?m = "empty_manager\<lparr>m_book := ?book\<rparr>"
  let ?st = "sample_state\<lparr>rs_turns := [?t, ?t], rs_manager := ?m\<rparr>" and ?st' = "sample_state\<lparr>rs_turns := [?t], rs_manager := ?m\<rparr>"
  let ?row = "JObj [(''addr'', JStr (display ?sha3 known_addr)), (''next_attempt'', j_word (0 :: u32))]"
  have new: "manager_new ?sha3 (\<lambda>_. Some []) (\<lambda>_. None) (m_cfg empty_manager) (ReadOk [91, 93]) ReadNotFound 1 = Inr empty_manager"
    by (simp add: manager_new_def ban_load_def persist_load_def restore_def purge_banned_def empty_manager_def sample_state_def book_new_def Let_def)
  have "sys_step ?senv ?ev (sys_init empty_manager Map.empty) = Some ([], sys_init ?m Map.empty)"
    by (simp add: sys_init_def insert_manual_def insert_manual_one_def empty_manager_def sample_state_def book_new_def)
  then have run: "sys_run ?senv (sys_init empty_manager Map.empty) ([] @ [(?ev, [])]) (sys_init ?m Map.empty)"
    by (intro run_step [OF run_refl]) simp_all
  have call: "tool_call ?env ''signet'' (\<lambda>_. [1]) (AddressesDue None) ?st = Some (ToolOk (JArr [?row]), ?st')"
    by (simp add: tool_call_eq rpc_method_def rpc_due_next_def request_turn sample_env_def sample_state_def interpret_reply_def empty_manager_def
        entry_new_def)
  have "normal_addr known_addr" "wf_peer_addr known_addr" by (simp_all add: known_addr_def)
  then have "peer_parse ?sha3 (display ?sha3 known_addr) = Some known_addr" by (intro read_back) simp_all
  then have fed: "\<forall>(ev, ds) \<in> set ([] @ [(?ev, [])]). fed (came_in (re_sha3 ?env)) ev" by (auto simp: came_in_def typed_def sample_env_def)
  have facts: "\<And>x. length (re_sha3 ?env x) = 32" "hash_order (re_order ?env)" "\<forall>a \<in> fst ` set (persist_load (\<lambda>_. None) ReadNotFound). came_in (re_sha3 ?env) a"
    "rs_manager ?st = s_manager (sys_init ?m Map.empty)" "?row \<in> set [?row]" "rs_turns ?st' \<noteq> []"
    by (simp_all add: sample_env_def persist_load_def sys_init_def hash_order_id)
  obtain a e where a: "map_of (entries (m_book (rs_manager ?st))) a = Some e"
    "sent_ok ?env (\<lambda>_. [1]) (JsonPayload (JStr (display (re_sha3 ?env) a))) \<longrightarrow>
       (\<exists>st''. tool_call ?env ''signet'' (\<lambda>_. [1]) (AddressesInspect (display (re_sha3 ?env) a)) ?st' = Some (ToolOk (entry_json ?env a e), st''))"
    using due_addresses_can_be_inspected [OF facts(1,2) new facts(3) run fed facts(4) call facts(5,6)] by blast
  have "a = known_addr" using a(1) by (simp split: if_splits)
  moreover have "sent_ok ?env (\<lambda>_. [1]) (JsonPayload (JStr (display (re_sha3 ?env) known_addr)))" by (simp add: sent_ok_def sample_env_def)
  ultimately obtain st'' where "tool_call ?env ''signet'' (\<lambda>_. [1]) (AddressesInspect (display ?sha3 known_addr)) ?st' = Some (ToolOk (entry_json ?env known_addr e), st'')"
    using a(2) by (auto simp: sample_env_def)
  with call show ?thesis by blast
qed

section \<open>Every command is answered\<close>

definition args_ok :: "rpc_env \<Rightarrow> rpc_command \<Rightarrow> bool" where
  "args_ok env cmd \<longleftrightarrow>
     (case cmd of
        AddressesInspect s \<Rightarrow> peer_parse (re_sha3 env) s \<noteq> None
      | AddressesDue (Some l) \<Rightarrow> l < 2 ^ 64
      | BanlistAdd _ ns _ \<Rightarrow> list_all (\<lambda>n. case net_from_str n of Inl _ \<Rightarrow> False | Inr _ \<Rightarrow> True) ns
      | HeadertreeTips \<Rightarrow> chain_tips (re_tree_order env) (re_tree env) \<noteq> None
      | Call _ _ \<Rightarrow> False
      | _ \<Rightarrow> True)"

lemma nets_ok: "list_all (\<lambda>n. case net_from_str n of Inl _ \<Rightarrow> False | Inr _ \<Rightarrow> True) texts \<Longrightarrow> \<exists>ns. map net_from_str texts = map Inr ns"
proof (induction texts)
  case (Cons t texts)
  then obtain n ns where "net_from_str t = Inr n" "map net_from_str texts = map Inr ns" by (auto split: sum.splits)
  then have "map net_from_str (t # texts) = map Inr (n # ns)" by simp
  then show ?case by blast
qed simp

lemma ask_answers:
  assumes "rs_turns st \<noteq> []"
  shows "\<exists>s w st'. rpc_request env StatsCmd st = (Some (RStats s, w), st')" "\<exists>n w st'. rpc_request env (AddManual as) st = (Some (RAdded n, w), st')"
    "\<exists>e w st'. rpc_request env (Inspect a) st = (Some (REntry e, w), st')" "\<exists>due w st'. rpc_request env (DueNext l) st = (Some (RDue due, w), st')"
    "\<exists>es w st'. rpc_request env BanListCmd st = (Some (RBanList es, w), st')"
  using assms by (cases "rs_turns st"; simp add: rpc_request_def split: prod.split)+

lemma shown_answers:
  "interpret_reply (j_opt (entry_json env a) x) = ToolOk (j_opt (entry_json env a) x)" "interpret_reply (JArr vs) = ToolOk (JArr vs)"
  by (cases x) (simp_all add: interpret_reply_def j_opt_def entry_json_def)

lemma ban_list_method: "rpc_method env (Some ''banlist.list'') payload st = Some (rpc_ban_list env st)"
  by (simp add: rpc_method_def)

text \<open>
  The tool and the observer speak the same protocol: for every subcommand but the raw \<^verbatim>\<open>call\<close>, with arguments that are addresses, networks or limits, the
  observer of the same network knows the method, reads the payload and answers, and the tool takes the answer for a success.
\<close>

theorem tool_and_observer_agree:
  assumes "tool_request cmd = Inr (method, p)" "sent_ok env text p" "args_ok env cmd" "rs_turns st \<noteq> []"
  shows "\<exists>v st'. tool_call env network text cmd st = Some (ToolOk v, st')"
proof -
  note ask = ask_answers [OF assms(4), of env]
  have "\<exists>v st'. rpc_method env (Some method) (payload_bytes text p) st = Some (Inr v, st') \<and> interpret_reply v = ToolOk v"
  proof (cases cmd)
    case AddressesInfo
    with ask(1) assms(1) show ?thesis by (auto simp: rpc_method_def interpret_reply_def rpc_addresses_info_def)
  next
    case (AddressesAdd addrs)
    with assms(1,2) have "rpc_read env (j_list j_string) (text (JArr (map JStr addrs))) = Inr addrs"
      using rpc_read_sent [of env "text" "JArr (map JStr addrs)" "j_list j_string"] j_strings [of addrs] by auto
    with ask(2) [of "List.map_filter (peer_parse (re_sha3 env)) addrs"] AddressesAdd assms(1) show ?thesis
      by (auto simp: rpc_method_def interpret_reply_def rpc_add_addresses_def Let_def)
  next
    case (AddressesInspect a)
    with assms(1-3) obtain x where "rpc_read env j_string (text (JStr a)) = Inr a" "peer_parse (re_sha3 env) a = Some x"
      using rpc_read_sent [of env "text" "JStr a" j_string] by (auto simp: args_ok_def)
    with ask(3) [of x] AddressesInspect assms(1) shown_answers show ?thesis
      by (auto simp: rpc_method_def rpc_inspect_def)
  next
    case (AddressesDue l)
    have "\<exists>n. (if payload_bytes text p = [] then Inr 20 else rpc_read env j_usize (payload_bytes text p)) = Inr n"
      using AddressesDue assms(1-3) rpc_read_sent [of env "text" _ j_usize]
      by (cases l) (auto simp: args_ok_def j_nat_def)
    then obtain n where n: "(if payload_bytes text p = [] then Inr 20 else rpc_read env j_usize (payload_bytes text p)) = Inr n" ..
    have "\<exists>vs st'. rpc_due_next env (payload_bytes text p) st = (Inr (JArr vs), st')"
      unfolding rpc_due_next_def n using ask(4) [of n] by auto
    with AddressesDue assms(1) shown_answers(2) show ?thesis by (auto simp: rpc_method_def)
  next
    case ConnectionsList
    with assms(1) show ?thesis by (auto simp: rpc_method_def interpret_reply_def rpc_connections_list_def Let_def split: prod.split)
  next
    case HeadertreeTips
    then obtain tips where "chain_tips (re_tree_order env) (re_tree env) = Some tips" using assms(3) by (auto simp: args_ok_def)
    then have "rpc_chain_tips env = Some (JArr (map tip_json (sorted_tips tips)))" by (simp add: rpc_chain_tips_def)
    with HeadertreeTips assms(1) shown_answers(2) show ?thesis by (auto simp: rpc_method_def)
  next
    case (BanlistAdd c ns hs)
    then obtain nets where nets: "map net_from_str ns = map Inr nets" using assms(3) nets_ok by (auto simp: args_ok_def)
    have "length [\<lparr>ban_comment = c, ban_nets = nets, ban_hosts = hs\<rparr>] \<le> length (rs_turns st)"
      using assms(4) by (cases "rs_turns st") auto
    from ban_all_answers [OF this] obtain v st' where
      "rpc_ban_all env [\<lparr>ban_comment = c, ban_nets = nets, ban_hosts = hs\<rparr>] (0, 0, None) st = (Inr v, st')" by blast
    from ban_add_answer [OF tool_ban_read [OF nets assms(1) [unfolded BanlistAdd] assms(2)] this] tool_ban_method [OF assms(1) [unfolded BanlistAdd]]
    show ?thesis by (auto simp: rpc_method_def)
  next
    case BanlistList
    have "\<exists>vs st'. rpc_ban_list env st = (Inr (JArr vs), st')"
      unfolding rpc_ban_list_def using ask(5) by auto
    moreover have "method = ''banlist.list''" using BanlistList assms(1) by simp
    ultimately show ?thesis using shown_answers(2) by (auto simp: ban_list_method)
  next
    case (Call m q)
    with assms(3) show ?thesis by (simp add: args_ok_def)
  qed
  then obtain v st' where "rpc_method env (Some method) (payload_bytes text p) st = Some (Inr v, st')" "interpret_reply v = ToolOk v" by blast
  then show ?thesis unfolding tool_call_eq [OF assms(1)] by simp
qed

theorem tool_and_observer_agree_witness:
  "\<exists>v st'. tool_call (sample_env (JStr (display (\<lambda>_. replicate 32 7) known_addr))) ''signet'' (\<lambda>_. [1])
     (AddressesInspect (display (\<lambda>_. replicate 32 7) known_addr)) sample_state = Some (ToolOk v, st')"
proof -
  let ?s = "display (\<lambda>_. replicate 32 7) known_addr"
  have "peer_parse (\<lambda>_. replicate 32 7) ?s = Some known_addr" by (rule read_back) (simp_all add: known_addr_def)
  then show ?thesis
    using tool_and_observer_agree [of "AddressesInspect ?s" "''addresses.inspect''" "JsonPayload (JStr ?s)" "sample_env (JStr ?s)" "\<lambda>_. [1]"
        sample_state "''signet''"]
    by (simp add: sent_ok_def args_ok_def sample_env_def sample_state_def)
qed

end
