(* ===== verification/Websocket.thy ===== *)
theory Websocket
  imports Metrics Rpc
begin

unbundle bit_operations_syntax

text \<open>
  \<^verbatim>\<open>tools/websocket/src\<close>: the relay of events to browsers. One task takes events from NATS, one asks the observers for their status, and every
  client has a task that reads its subscriptions and one that writes what is queued for it.

  The state is what the tasks share and what is queued in each connection; an input is one step of one task. What a task awaits is a state in
  between: a client that is given cached statuses reads on once its queue has taken them all. The writer taking a text and what then fits is one step.
  A client's message is a list of bytes. JSON text, protobuf, the asmap file and the AS names are arguments.
\<close>

section \<open>What is known of an address\<close>

record ip_info =
  ii_asn :: u32
  ii_handle :: string
  ii_description :: string
  ii_country :: string

text \<open>Two more predicates of \<^verbatim>\<open>std::net::Ipv6Addr\<close>.\<close>

definition v6_is_unique_local :: "u8 list \<Rightarrow> bool" where
  "v6_is_unique_local b \<longleftrightarrow> b ! 0 AND 0xfe = 0xfc"

definition v6_is_link_local :: "u8 list \<Rightarrow> bool" where
  "v6_is_link_local b \<longleftrightarrow> b ! 0 = 0xfe \<and> b ! 1 AND 0xc0 = 0x80"

definition ip4_routable :: "u8 list \<Rightarrow> bool" where
  "ip4_routable b \<longleftrightarrow>
     \<not> (v4_is_loopback b \<or> v4_is_private b \<or> v4_is_link_local b \<or> v4_is_unspecified b \<or> v4_is_broadcast b)"

fun ip_routable :: "ip_addr \<Rightarrow> bool" where
  "ip_routable (V4 b) \<longleftrightarrow> ip4_routable b"
| "ip_routable (V6 b) \<longleftrightarrow>
     (case to_ipv4_mapped b of
        Some v4 \<Rightarrow> ip4_routable v4
      | None \<Rightarrow> \<not> (v6_is_loopback b \<or> v6_is_unspecified b \<or> v6_is_unique_local b \<or> v6_is_link_local b))"

section \<open>Subscriptions\<close>

record subscriptions =
  sb_ping_rtt :: bool
  sb_block_announcements :: bool
  sb_address_announcements :: bool
  sb_connection_results :: bool
  sb_handshakes :: bool
  sb_compact_block_probes :: bool
  sb_fee_filters :: bool
  sb_send_cmpcts :: bool
  sb_connection_status :: bool

definition subscriptions_default :: subscriptions where
  "subscriptions_default = \<lparr>sb_ping_rtt = False, sb_block_announcements = False, sb_address_announcements = False,
     sb_connection_results = False, sb_handshakes = False, sb_compact_block_probes = False, sb_fee_filters = False,
     sb_send_cmpcts = False, sb_connection_status = False\<rparr>"

definition ws_wants :: "peer_event \<Rightarrow> subscriptions \<Rightarrow> bool" where
  "ws_wants e s =
     (case pe_event e of
        Some (PingRtt _ _) \<Rightarrow> sb_ping_rtt s
      | Some (BlockAnnouncement _) \<Rightarrow> sb_block_announcements s
      | Some (AddressAnnouncement _) \<Rightarrow> sb_address_announcements s
      | Some (ConnectionResult _) \<Rightarrow> sb_connection_results s
      | Some (Handshake _) \<Rightarrow> sb_handshakes s
      | Some (CompactBlockProbe _ _ _) \<Rightarrow> sb_compact_block_probes s
      | Some (FeeFilter _) \<Rightarrow> sb_fee_filters s
      | Some (SendCmpctEv _ _) \<Rightarrow> sb_send_cmpcts s
      | None \<Rightarrow> False)"

definition ws_subject :: "string option \<Rightarrow> string" where
  "ws_subject network = ''p2p-observer.'' @ (case network of Some n \<Rightarrow> n | None \<Rightarrow> ''*'') @ ''.*''"

definition ws_network_of :: "string \<Rightarrow> string option" where
  "ws_network_of subject =
     (case split_on (CHR ''.'') subject of
        [a, n, _] \<Rightarrow> if a = ''p2p-observer'' then Some n else None
      | _ \<Rightarrow> None)"

section \<open>State\<close>

definition MAX_CLIENT_MESSAGE :: nat where "MAX_CLIENT_MESSAGE = 512"
definition CLIENT_QUEUE :: nat where "CLIENT_QUEUE = 16384"
definition STATUS_ON_DEMAND_GAP :: nat where "STATUS_ON_DEMAND_GAP = 2000"

text \<open>What is sent: \<^verbatim>\<open>Outgoing\<close>.\<close>

datatype outgoing =
    OutHello u64 bool
  | OutEvent string "ip_info option" peer_event
  | OutStatus string json

text \<open>
  The queue of a connection, what its task is still waiting to put there, whether its writer runs, and what the writer has sent. The first is
  reached through the client in the shared map and through the task.
\<close>

record ws_conn =
  wn_queue :: "outgoing list"
  wn_waiting :: "outgoing list"
  wn_writer :: bool
  wn_sent :: "outgoing list"

record ws_state =
  ws_clients :: "(sock_addr, subscriptions) hashmap"
  ws_conns :: "(sock_addr, ws_conn) hashmap"
  ws_networks :: "(string, unit) btree"
  ws_latest :: "(string, outgoing) btree"
  ws_poll_now :: bool
  ws_asked_at :: "nat option"
  ws_polling :: "string list"

text \<open>
  What is not part of the tool: the asmap and the AS names, what prints as JSON, how subscriptions are read. The operator may turn the status off.
\<close>

record ws_env =
  we_asmap :: "(ip_addr \<Rightarrow> u32) option"
  we_as_names :: "u32 \<Rightarrow> (string \<times> string \<times> string) option"
  we_encodes :: "outgoing \<Rightarrow> bool"
  we_parse_subs :: "string \<Rightarrow> subscriptions option"
  we_info_json :: "ip_info \<Rightarrow> json option"
  we_status_interval :: nat

definition ws_init :: "string option \<Rightarrow> ws_state" where
  "ws_init network =
     \<lparr>ws_clients = [], ws_conns = [], ws_networks = (case network of None \<Rightarrow> [] | Some n \<Rightarrow> [(n, ())]), ws_latest = [],
      ws_poll_now = False, ws_asked_at = None, ws_polling = []\<rparr>"

section \<open>Lookups\<close>

definition describe_as :: "ws_env \<Rightarrow> u32 \<Rightarrow> ip_info" where
  "describe_as env n =
     (case (if n \<noteq> 0 then we_as_names env n else None) of
        Some (h, d, c) \<Rightarrow> \<lparr>ii_asn = n, ii_handle = h, ii_description = d, ii_country = c\<rparr>
      | None \<Rightarrow> \<lparr>ii_asn = n, ii_handle = [], ii_description = [], ii_country = []\<rparr>)"

definition ip_lookup :: "ws_env \<Rightarrow> ip_addr \<Rightarrow> ip_info option" where
  "ip_lookup env i = map_option (\<lambda>f. describe_as env (if ip_routable i then f i else 0)) (we_asmap env)"

definition ip_info_of :: "ws_env \<Rightarrow> string \<Rightarrow> ip_info option" where
  "ip_info_of env peer_addr =
     (if we_asmap env = None then None
      else case parse_socket_addr peer_addr of
             None \<Rightarrow> None
           | Some sa \<Rightarrow> if \<not> ip_routable (sa_ip sa) then None else ip_lookup env (sa_ip sa))"

text \<open>The AS of every peer of a status reply, added in place.\<close>

definition annotate_peer :: "ws_env \<Rightarrow> json \<Rightarrow> json" where
  "annotate_peer env conn =
     (case conn of
        JObj fs \<Rightarrow>
          (case Option.bind (Option.bind (Option.bind (map_of fs ''addr'') j_string) (ip_info_of env)) (we_info_json env) of
             None \<Rightarrow> conn | Some info \<Rightarrow> JObj (AList.update ''ip'' info fs))
      | _ \<Rightarrow> conn)"

definition annotate_peers :: "ws_env \<Rightarrow> json \<Rightarrow> json" where
  "annotate_peers env value =
     (if we_asmap env = None then value
      else case value of
             JObj fs \<Rightarrow>
               (case map_of fs ''connections'' of
                  Some (JArr conns) \<Rightarrow> JObj (AList.update ''connections'' (JArr (map (annotate_peer env) conns)) fs)
                | _ \<Rightarrow> value)
           | _ \<Rightarrow> value)"

section \<open>Sending\<close>

text \<open>\<^verbatim>\<open>try_send\<close> takes a text when the queue has room and its reader is still there.\<close>

definition wn_room :: "ws_conn \<Rightarrow> bool" where
  "wn_room c \<longleftrightarrow> wn_writer c \<and> length (wn_queue c) < CLIENT_QUEUE"

definition wn_push :: "outgoing \<Rightarrow> ws_conn \<Rightarrow> ws_conn" where
  "wn_push t c = (if wn_room c then c\<lparr>wn_queue := wn_queue c @ [t]\<rparr> else c)"

definition conn_room :: "ws_state \<Rightarrow> sock_addr \<Rightarrow> bool" where
  "conn_room s a = (case map_of (ws_conns s) a of None \<Rightarrow> False | Some c \<Rightarrow> wn_room c)"

text \<open>Clients with no room are dropped: their entry goes, which is all that happens to them.\<close>

definition ws_broadcast :: "outgoing \<Rightarrow> (subscriptions \<Rightarrow> bool) \<Rightarrow> ws_state \<Rightarrow> ws_state" where
  "ws_broadcast t wants s =
     (let chosen = map fst (filter (\<lambda>(_, subs). wants subs) (ws_clients s));
          slow = filter (\<lambda>a. \<not> conn_room s a) chosen
      in s\<lparr>ws_conns := map (\<lambda>(a, c). (a, if a \<in> set chosen then wn_push t c else c)) (ws_conns s),
           ws_clients := filter (\<lambda>(a, _). a \<notin> set slow) (ws_clients s)\<rparr>)"

definition note_network :: "string \<Rightarrow> ws_state \<Rightarrow> ws_state" where
  "note_network n s = (if contains_key (ws_networks s) n then s else s\<lparr>ws_networks := btree_insert n () (ws_networks s)\<rparr>)"

definition ws_handle_event :: "ws_env \<Rightarrow> string \<Rightarrow> peer_event \<Rightarrow> ws_state \<Rightarrow> ws_state" where
  "ws_handle_event env network e s =
     (let s = note_network network s;
          t = OutEvent network (ip_info_of env (pe_peer_addr e)) e
      in if \<not> list_ex (\<lambda>(_, subs). ws_wants e subs) (ws_clients s) then s
         else if \<not> we_encodes env t then s
         else ws_broadcast t (ws_wants e) s)"

section \<open>The status poll\<close>

definition wants_status :: "ws_state \<Rightarrow> bool" where
  "wants_status s \<longleftrightarrow> list_ex (\<lambda>(_, subs). sb_connection_status subs) (ws_clients s)"

text \<open>One observer has answered, or not, or with what is not JSON.\<close>

definition poll_status :: "ws_env \<Rightarrow> string \<Rightarrow> json option \<Rightarrow> ws_state \<Rightarrow> ws_state" where
  "poll_status env network reply s =
     (case reply of
        None \<Rightarrow> s
      | Some value \<Rightarrow>
          (if j_get value ''error'' \<noteq> None then s
           else let t = OutStatus network (annotate_peers env value)
                in if \<not> we_encodes env t then s
                   else ws_broadcast t sb_connection_status (s\<lparr>ws_latest := btree_insert network t (ws_latest s)\<rparr>)))"

section \<open>A client\<close>

datatype ws_message = WsClose | WsReadError | WsEnd | WsText string | WsOther

definition ws_accept :: "ws_env \<Rightarrow> sock_addr \<Rightarrow> u64 \<Rightarrow> ws_state \<Rightarrow> ws_state" where
  "ws_accept env a now s =
     (let hello = OutHello now (we_asmap env \<noteq> None)
      in s\<lparr>ws_clients := AList.update a subscriptions_default (ws_clients s),
           ws_conns := AList.update a \<lparr>wn_queue = (if we_encodes env hello then [hello] else []), wn_waiting = [],
             wn_writer = True, wn_sent = []\<rparr> (ws_conns s)\<rparr>)"

text \<open>The end of a client's task.\<close>

definition ws_leave :: "sock_addr \<Rightarrow> ws_state \<Rightarrow> ws_state" where
  "ws_leave a s = s\<lparr>ws_clients := AList.delete a (ws_clients s), ws_conns := AList.delete a (ws_conns s)\<rparr>"

text \<open>Sends that wait for room; the first one that finds the writer gone ends them.\<close>

definition wn_send_all :: "outgoing list \<Rightarrow> ws_conn \<Rightarrow> ws_conn" where
  "wn_send_all ts c =
     (if \<not> wn_writer c then c
      else let room = CLIENT_QUEUE - length (wn_queue c)
           in c\<lparr>wn_queue := wn_queue c @ take room ts, wn_waiting := drop room ts\<rparr>)"

definition ws_text :: "ws_env \<Rightarrow> sock_addr \<Rightarrow> string \<Rightarrow> ws_state \<Rightarrow> ws_state" where
  "ws_text env a t s =
     (if t = [] \<or> MAX_CLIENT_MESSAGE < length t then ws_leave a s
      else case we_parse_subs env t of
             None \<Rightarrow> ws_leave a s
           | Some subs \<Rightarrow>
               (if \<not> contains_key (ws_clients s) a then ws_leave a s
                else let s = s\<lparr>ws_clients := AList.update a subs (ws_clients s)\<rparr>
                     in if \<not> sb_connection_status subs then s
                        else let cached = map snd (ws_latest s)
                             in if cached = [] then s\<lparr>ws_poll_now := True\<rparr>
                                else s\<lparr>ws_conns := AList.map_entry a (wn_send_all cached) (ws_conns s)\<rparr>))"

definition ws_read :: "ws_env \<Rightarrow> sock_addr \<Rightarrow> ws_message \<Rightarrow> ws_state \<Rightarrow> ws_state" where
  "ws_read env a m s =
     (case m of WsText t \<Rightarrow> ws_text env a t s | WsOther \<Rightarrow> s | _ \<Rightarrow> ws_leave a s)"

definition wn_drain :: "ws_conn \<Rightarrow> ws_conn option" where
  "wn_drain c =
     (case wn_queue c of
        [] \<Rightarrow> None
      | t # ts \<Rightarrow>
          if wn_writer c
          then Some (c\<lparr>wn_queue := ts @ take 1 (wn_waiting c), wn_waiting := drop 1 (wn_waiting c), wn_sent := wn_sent c @ [t]\<rparr>)
          else None)"

text \<open>A write fails: the writer ends, and with it the queue and what was waiting for room in it.\<close>

definition wn_fail :: "ws_conn \<Rightarrow> ws_conn option" where
  "wn_fail c =
     (if wn_writer c \<and> wn_queue c \<noteq> [] then Some (c\<lparr>wn_queue := [], wn_waiting := [], wn_writer := False\<rparr>) else None)"

section \<open>The tool\<close>

datatype ws_input =
    InAccept sock_addr u64
  | InNats string "peer_event option"
  | InRead sock_addr ws_message
  | InWrite sock_addr
  | InWriteFails sock_addr
  | InTick
  | InNotified nat
  | InReply "json option"

definition ws_round :: "ws_state \<Rightarrow> ws_state" where
  "ws_round s = s\<lparr>ws_polling := map fst (ws_networks s)\<rparr>"

text \<open>\<open>None\<close> when the input cannot happen: no such connection, or the task is busy.\<close>

fun ws_step :: "ws_env \<Rightarrow> ws_input \<Rightarrow> ws_state \<Rightarrow> ws_state option" where
  "ws_step env (InAccept a now) s = (if contains_key (ws_conns s) a then None else Some (ws_accept env a now s))"
| "ws_step env (InNats subject payload) s =
     Some (case (ws_network_of subject, payload) of (Some n, Some e) \<Rightarrow> ws_handle_event env n e s | _ \<Rightarrow> s)"
| "ws_step env (InRead a m) s =
     (case map_of (ws_conns s) a of
        Some c \<Rightarrow> if wn_waiting c = [] then Some (ws_read env a m s) else None
      | None \<Rightarrow> None)"
| "ws_step env (InWrite a) s =
     Option.bind (Option.bind (map_of (ws_conns s) a) wn_drain) (\<lambda>c. Some (s\<lparr>ws_conns := AList.update a c (ws_conns s)\<rparr>))"
| "ws_step env (InWriteFails a) s =
     Option.bind (Option.bind (map_of (ws_conns s) a) wn_fail) (\<lambda>c. Some (s\<lparr>ws_conns := AList.update a c (ws_conns s)\<rparr>))"
| "ws_step env InTick s =
     (if we_status_interval env = 0 \<or> ws_polling s \<noteq> [] then None
      else Some (if wants_status s then ws_round s else s))"
| "ws_step env (InNotified now) s =
     (if we_status_interval env = 0 \<or> ws_polling s \<noteq> [] \<or> \<not> ws_poll_now s then None
      else let s = s\<lparr>ws_poll_now := False\<rparr>
           in if (case ws_asked_at s of None \<Rightarrow> False | Some was \<Rightarrow> now - was < STATUS_ON_DEMAND_GAP) then Some s
              else Some (ws_round (s\<lparr>ws_asked_at := Some now\<rparr>)))"
| "ws_step env (InReply reply) s =
     (case ws_polling s of [] \<Rightarrow> None | n # ns \<Rightarrow> Some (poll_status env n reply (s\<lparr>ws_polling := ns\<rparr>)))"

fun ws_run :: "ws_env \<Rightarrow> ws_input list \<Rightarrow> ws_state \<Rightarrow> ws_state option" where
  "ws_run env [] s = Some s"
| "ws_run env (i # is) s = Option.bind (ws_step env i s) (ws_run env is)"

text \<open>Every state the tool can be in.\<close>

inductive ws_reachable :: "ws_env \<Rightarrow> string option \<Rightarrow> ws_state \<Rightarrow> bool" for env network where
  start: "ws_reachable env network (ws_init network)"
| step: "ws_reachable env network s \<Longrightarrow> ws_step env i s = Some s' \<Longrightarrow> ws_reachable env network s'"

end
