(* ===== verification/Websocket_Spec.thy ===== *)
theory Websocket_Spec
  imports Websocket
begin

text \<open>
  What a browser can count on: only what it asked for, in order, whatever the others do; queues of bounded length; at most one poll of the
  observers every two seconds because of clients. And what it cannot: a client dropped for being slow keeps a connection on which nothing comes any more.
\<close>

section \<open>One connection\<close>

text \<open>Everything a connection has been given, in order.\<close>

definition wn_stream :: "ws_conn \<Rightarrow> outgoing list" where
  "wn_stream c = wn_sent c @ wn_queue c @ wn_waiting c"

definition wn_ok :: "ws_conn \<Rightarrow> bool" where
  "wn_ok c \<longleftrightarrow> length (wn_queue c) \<le> CLIENT_QUEUE \<and> (wn_waiting c \<noteq> [] \<longrightarrow> length (wn_queue c) = CLIENT_QUEUE)
     \<and> (\<not> wn_writer c \<longrightarrow> wn_queue c = [])"

lemma queue_pos: "0 < CLIENT_QUEUE"
  by (simp add: CLIENT_QUEUE_def)

lemma push_conn:
  assumes "wn_ok c"
  shows "wn_ok (wn_push t c)" "wn_waiting (wn_push t c) = wn_waiting c"
    "wn_stream (wn_push t c) = wn_stream c @ (if wn_room c then [t] else [])"
  using assms by (auto simp: wn_ok_def wn_push_def wn_room_def wn_stream_def)

lemma send_all_conn:
  assumes "wn_ok c" "wn_waiting c = []"
  shows "wn_ok (wn_send_all ts c)" "length (wn_waiting (wn_send_all ts c)) \<le> length ts"
    "\<exists>sent. wn_stream (wn_send_all ts c) = wn_stream c @ sent \<and> set sent \<subseteq> set ts"
  using assms by (auto simp: wn_ok_def wn_send_all_def wn_stream_def Let_def min_def)

lemma drain_conn:
  assumes "wn_ok c" "wn_drain c = Some c'"
  shows "wn_ok c'" "wn_stream c' = wn_stream c" "length (wn_waiting c') \<le> length (wn_waiting c)"
proof -
  obtain t ts where q: "wn_queue c = t # ts" "wn_writer c"
    "c' = c\<lparr>wn_queue := ts @ take 1 (wn_waiting c), wn_waiting := drop 1 (wn_waiting c), wn_sent := wn_sent c @ [t]\<rparr>"
    using assms(2) by (auto simp: wn_drain_def split: list.splits if_splits)
  show "wn_ok c'" using assms(1) q by (cases "wn_waiting c") (auto simp: wn_ok_def)
  show "wn_stream c' = wn_stream c" using q by (simp add: wn_stream_def)
  show "length (wn_waiting c') \<le> length (wn_waiting c)" using q by simp
qed

lemma fail_conn: "wn_fail c = Some c' \<Longrightarrow> wn_ok c' \<and> wn_waiting c' = []"
  by (auto simp: wn_fail_def wn_ok_def CLIENT_QUEUE_def split: if_splits)

section \<open>Broadcasting\<close>

lemma map_of_map_key: "map_of (map (\<lambda>(k, v). (k, f k v)) m) k = map_option (f k) (map_of m k)"
  by (induction m) auto

lemma broadcast_conn:
  assumes "hm_ok (ws_clients s)"
  shows "map_of (ws_conns (ws_broadcast t wants s)) a = map_option
    (\<lambda>c. if \<exists>subs. map_of (ws_clients s) a = Some subs \<and> wants subs then wn_push t c else c) (map_of (ws_conns s) a)"
proof -
  have "a \<in> set (map fst (filter (\<lambda>(_, subs). wants subs) (ws_clients s))) \<longleftrightarrow> (\<exists>subs. map_of (ws_clients s) a = Some subs \<and> wants subs)"
    using assms by (force simp: hm_get_iff)
  then show ?thesis
    by (simp add: ws_broadcast_def Let_def map_of_map_key [where f = "\<lambda>a c. if a \<in> _ then wn_push t c else c"] cong: if_cong)
qed

lemma broadcast_client:
  assumes "hm_ok (ws_clients s)"
  shows "map_of (ws_clients (ws_broadcast t wants s)) a =
    (case map_of (ws_clients s) a of None \<Rightarrow> None | Some subs \<Rightarrow> if wants subs \<and> \<not> conn_room s a then None else Some subs)"
proof -
  define slow where "slow = filter (\<lambda>a. \<not> conn_room s a) (map fst (filter (\<lambda>(_, subs). wants subs) (ws_clients s)))"
  have "a \<in> set slow \<longleftrightarrow> (\<exists>subs. map_of (ws_clients s) a = Some subs \<and> wants subs) \<and> \<not> conn_room s a"
    using assms by (force simp: slow_def hm_get_iff)
  moreover have "ws_clients (ws_broadcast t wants s) = filter (\<lambda>(a, _). a \<notin> set slow) (ws_clients s)"
    by (simp add: ws_broadcast_def Let_def slow_def)
  ultimately show ?thesis
    using hm_get_retain [OF assms, of "\<lambda>a _. a \<notin> set slow" a] by (auto split: option.splits)
qed

lemma broadcast_frame [simp]:
  "ws_networks (ws_broadcast t wants s) = ws_networks s" "ws_latest (ws_broadcast t wants s) = ws_latest s"
  "ws_poll_now (ws_broadcast t wants s) = ws_poll_now s" "ws_asked_at (ws_broadcast t wants s) = ws_asked_at s"
  "ws_polling (ws_broadcast t wants s) = ws_polling s"
  "fst ` set (ws_conns (ws_broadcast t wants s)) = fst ` set (ws_conns s)"
  by (force simp: ws_broadcast_def Let_def)+

lemma broadcast_hm_ok:
  assumes "hm_ok (ws_clients s)" "hm_ok (ws_conns s)"
  shows "hm_ok (ws_clients (ws_broadcast t wants s))" "hm_ok (ws_conns (ws_broadcast t wants s))"
proof -
  show "hm_ok (ws_clients (ws_broadcast t wants s))" using assms(1) by (simp add: ws_broadcast_def Let_def)
  have "fst \<circ> (\<lambda>(a, c). (a, f a c)) = fst" for f :: "sock_addr \<Rightarrow> ws_conn \<Rightarrow> ws_conn" by (simp add: fun_eq_iff)
  then show "hm_ok (ws_conns (ws_broadcast t wants s))" using assms(2) by (simp add: ws_broadcast_def Let_def hm_ok_def)
qed

section \<open>The invariant\<close>

definition clients_ok :: "ws_state \<Rightarrow> bool" where
  "clients_ok s \<longleftrightarrow> hm_ok (ws_clients s) \<and> hm_ok (ws_conns s) \<and> dom (map_of (ws_clients s)) \<subseteq> dom (map_of (ws_conns s))
     \<and> (\<forall>a c. map_of (ws_conns s) a = Some c \<longrightarrow> wn_ok c \<and> length (wn_waiting c) \<le> length (ws_networks s))"

definition polls_ok :: "ws_state \<Rightarrow> bool" where
  "polls_ok s \<longleftrightarrow> btree_ok (ws_networks s) \<and> btree_ok (ws_latest s) \<and> dom (map_of (ws_latest s)) \<subseteq> dom (map_of (ws_networks s))
     \<and> (\<forall>n t. map_of (ws_latest s) n = Some t \<longrightarrow> (\<exists>v. t = OutStatus n v)) \<and> set (ws_polling s) \<subseteq> dom (map_of (ws_networks s))"

lemma clients_okD:
  assumes "clients_ok s"
  shows "hm_ok (ws_clients s)" "hm_ok (ws_conns s)" "dom (map_of (ws_clients s)) \<subseteq> dom (map_of (ws_conns s))"
    "map_of (ws_conns s) a = Some c \<Longrightarrow> wn_ok c" "map_of (ws_conns s) a = Some c \<Longrightarrow> length (wn_waiting c) \<le> length (ws_networks s)"
  using assms by (auto simp: clients_ok_def)

lemma latest_length:
  assumes "polls_ok s"
  shows "length (ws_latest s) \<le> length (ws_networks s)"
proof -
  have keys: "length m = card (dom (map_of m))" if "btree_ok m" for m :: "(string, 'b) btree"
    using btree_ok_hm_ok [OF that] distinct_card [of "map fst m"] by (simp add: hm_ok_def dom_map_of_conv_image_fst)
  have "length (ws_latest s) = card (dom (map_of (ws_latest s)))" "length (ws_networks s) = card (dom (map_of (ws_networks s)))"
    using assms keys by (auto simp: polls_ok_def)
  moreover have "dom (map_of (ws_latest s)) \<subseteq> dom (map_of (ws_networks s))" using assms by (simp add: polls_ok_def)
  then have "card (dom (map_of (ws_latest s))) \<le> card (dom (map_of (ws_networks s)))" by (rule card_mono [OF finite_dom_map_of])
  ultimately show ?thesis by simp
qed

lemma ok_broadcast:
  assumes "clients_ok s"
  shows "clients_ok (ws_broadcast t wants s)"
proof -
  note ok = clients_okD [OF assms]
  have "dom (map_of (ws_clients (ws_broadcast t wants s))) \<subseteq> dom (map_of (ws_clients s))"
    by (auto simp: dom_def broadcast_client [OF ok(1)] split: option.splits if_splits)
  moreover have "dom (map_of (ws_conns (ws_broadcast t wants s))) = dom (map_of (ws_conns s))"
    by (auto simp: dom_def broadcast_conn [OF ok(1)])
  moreover have "wn_ok c \<and> length (wn_waiting c) \<le> length (ws_networks s)" if "map_of (ws_conns (ws_broadcast t wants s)) a = Some c" for a c
    using that ok(4,5) push_conn by (auto simp: broadcast_conn [OF ok(1)])
  ultimately show ?thesis
    using ok(3) broadcast_hm_ok [OF ok(1,2)] by (simp add: clients_ok_def)
qed

lemma polls_broadcast [simp]: "polls_ok (ws_broadcast t wants s) = polls_ok s"
  by (simp add: polls_ok_def)

lemma btree_insert_length: "length m \<le> length (btree_insert k v m)"
  by (induction m) auto

lemma ok_note:
  shows "clients_ok s \<Longrightarrow> clients_ok (note_network n s)" "polls_ok s \<Longrightarrow> polls_ok (note_network n s)"
proof -
  show "clients_ok (note_network n s)" if "clients_ok s"
    using that le_trans [OF _ btree_insert_length [of "ws_networks s" n "()"]] by (simp add: note_network_def clients_ok_def)
  show "polls_ok (note_network n s)" if "polls_ok s"
    using that by (auto simp: note_network_def polls_ok_def btree_ok_insert btree_get_insert)
qed

lemma note_frame [simp]:
  "ws_clients (note_network n s) = ws_clients s" "ws_conns (note_network n s) = ws_conns s" "ws_latest (note_network n s) = ws_latest s"
  "ws_asked_at (note_network n s) = ws_asked_at s"
  by (simp_all add: note_network_def)

lemma conn_room_note [simp]: "conn_room (note_network n s) a = conn_room s a"
  by (simp add: conn_room_def)

lemma ok_event:
  "clients_ok s \<Longrightarrow> clients_ok (ws_handle_event env n e s)" "polls_ok s \<Longrightarrow> polls_ok (ws_handle_event env n e s)"
  by (simp_all add: ws_handle_event_def Let_def ok_broadcast ok_note)

lemma clients_ok_cong:
  "ws_clients s' = ws_clients s \<Longrightarrow> ws_conns s' = ws_conns s \<Longrightarrow> ws_networks s' = ws_networks s \<Longrightarrow> clients_ok s' = clients_ok s"
  by (simp add: clients_ok_def)

lemma ok_status:
  assumes "clients_ok s" "polls_ok s" "n \<in> dom (map_of (ws_networks s))"
  shows "clients_ok (poll_status env n reply s)" "polls_ok (poll_status env n reply s)"
proof -
  let ?s = "\<lambda>t. s\<lparr>ws_latest := btree_insert n t (ws_latest s)\<rparr>"
  have "clients_ok (?s t)" for t using assms(1) by (simp add: clients_ok_cong [of "?s t" s])
  moreover have "polls_ok (?s (OutStatus n v))" for v
    using assms(2,3) by (auto simp: polls_ok_def btree_get_insert btree_ok_insert)
  ultimately show "clients_ok (poll_status env n reply s)" "polls_ok (poll_status env n reply s)"
    using assms(1,2) by (auto simp: poll_status_def Let_def ok_broadcast split: option.split)
qed

lemma ok_conn:
  assumes "clients_ok s" "map_of (ws_conns s) a \<noteq> None" "wn_ok c" "length (wn_waiting c) \<le> length (ws_networks s)"
  shows "clients_ok (s\<lparr>ws_conns := AList.update a c (ws_conns s)\<rparr>)"
  using assms by (auto simp: clients_ok_def hm_simps)

lemma ok_leave: "clients_ok s \<Longrightarrow> clients_ok (ws_leave a s)" "polls_ok (ws_leave a s) = polls_ok s"
  by (auto simp: clients_ok_def polls_ok_def ws_leave_def hm_simps split: if_splits)

lemma ok_text:
  assumes "clients_ok s" "polls_ok s" "map_of (ws_conns s) a = Some c" "wn_waiting c = []"
  shows "clients_ok (ws_text env a t s)" "polls_ok (ws_text env a t s)"
proof -
  let ?s = "\<lambda>subs. s\<lparr>ws_clients := AList.update a subs (ws_clients s)\<rparr>" and ?cached = "map snd (ws_latest s)"
  have s: "clients_ok (?s subs)" for subs using assms(1,3) by (auto simp: clients_ok_def hm_simps)
  have "clients_ok (?s subs\<lparr>ws_conns := AList.map_entry a (wn_send_all ?cached) (ws_conns s)\<rparr>)" for subs
    using s [of subs] assms(3,4) send_all_conn(1,2) [OF clients_okD(4) [OF assms(1,3)] assms(4), of ?cached] latest_length [OF assms(2)]
    by (auto simp: clients_ok_def hm_simps)
  moreover have "clients_ok (?s subs\<lparr>ws_poll_now := True\<rparr>)" for subs
    using s [of subs] by (simp add: clients_ok_def)
  ultimately show "clients_ok (ws_text env a t s)"
    using s ok_leave(1) [OF assms(1)] by (simp add: ws_text_def Let_def split: option.split)
  show "polls_ok (ws_text env a t s)"
    using assms(2) ok_leave(2) [of a s] by (auto simp: ws_text_def Let_def polls_ok_def split: option.split)
qed

lemma ok_accept:
  "clients_ok s \<Longrightarrow> clients_ok (ws_accept env a now s)" "polls_ok (ws_accept env a now s) = polls_ok s"
proof -
  define c where "c = \<lparr>wn_queue = (if we_encodes env (OutHello now (we_asmap env \<noteq> None)) then [OutHello now (we_asmap env \<noteq> None)] else []),
    wn_waiting = [], wn_writer = True, wn_sent = []\<rparr>"
  have c: "wn_ok c" "wn_waiting c = []" using queue_pos by (auto simp: c_def wn_ok_def)
  have s': "ws_accept env a now s = s\<lparr>ws_clients := AList.update a subscriptions_default (ws_clients s), ws_conns := AList.update a c (ws_conns s)\<rparr>"
    by (simp add: ws_accept_def c_def Let_def)
  show "clients_ok (ws_accept env a now s)" if "clients_ok s" using that c unfolding s' by (auto simp: clients_ok_def hm_simps)
  show "polls_ok (ws_accept env a now s) = polls_ok s" by (simp add: s' polls_ok_def)
qed

lemma ok_round [simp]: "clients_ok (ws_round s) = clients_ok s" "polls_ok s \<Longrightarrow> polls_ok (ws_round s)"
  by (simp_all add: ws_round_def clients_ok_def polls_ok_def flip: dom_map_of_conv_image_fst)

lemma ok_flags [simp]:
  "clients_ok (s\<lparr>ws_poll_now := b\<rparr>) = clients_ok s" "polls_ok (s\<lparr>ws_poll_now := b\<rparr>) = polls_ok s"
  "clients_ok (s\<lparr>ws_asked_at := x\<rparr>) = clients_ok s" "polls_ok (s\<lparr>ws_asked_at := x\<rparr>) = polls_ok s"
  by (simp_all add: clients_ok_def polls_ok_def)

lemma step_ok:
  assumes "clients_ok s" "polls_ok s" "ws_step env i s = Some s'"
  shows "clients_ok s' \<and> polls_ok s'"
proof (cases i)
  case (InAccept a now)
  with assms(3) have "s' = ws_accept env a now s" by (simp split: if_splits)
  then show ?thesis using assms(1,2) ok_accept by simp
next
  case (InNats subject payload)
  with assms show ?thesis by (auto simp: ok_event split: option.split)
next
  case (InRead a m)
  with assms obtain c where c: "map_of (ws_conns s) a = Some c" "wn_waiting c = []" "s' = ws_read env a m s"
    by (auto split: option.splits if_splits)
  then show ?thesis using assms(1,2) ok_text [OF assms(1,2) c(1,2)] ok_leave [where a = a and s = s] by (cases m) (auto simp: ws_read_def)
next
  case (InWrite a)
  with assms obtain c c' where c: "map_of (ws_conns s) a = Some c" "wn_drain c = Some c'" "s' = s\<lparr>ws_conns := AList.update a c' (ws_conns s)\<rparr>"
    by (auto simp: bind_eq_Some_conv)
  have "clients_ok s'" unfolding c(3)
    using ok_conn [OF assms(1)] c(1) drain_conn [OF clients_okD(4) [OF assms(1) c(1)] c(2)] clients_okD(5) [OF assms(1) c(1)] by simp
  then show ?thesis using assms(2) c(3) by (simp add: polls_ok_def)
next
  case (InWriteFails a)
  with assms obtain c c' where c: "map_of (ws_conns s) a = Some c" "wn_fail c = Some c'" "s' = s\<lparr>ws_conns := AList.update a c' (ws_conns s)\<rparr>"
    by (auto simp: bind_eq_Some_conv)
  have "clients_ok s'" unfolding c(3) using ok_conn [OF assms(1)] c(1) fail_conn [OF c(2)] by simp
  then show ?thesis using assms(2) c(3) by (simp add: polls_ok_def)
next
  case InTick
  with assms show ?thesis by (auto split: if_splits)
next
  case (InNotified now)
  with assms show ?thesis by (auto simp: Let_def split: if_splits option.splits)
next
  case (InReply reply)
  with assms obtain n ns where n: "ws_polling s = n # ns" "s' = poll_status env n reply (s\<lparr>ws_polling := ns\<rparr>)"
    by (auto split: list.splits)
  have "clients_ok (s\<lparr>ws_polling := ns\<rparr>)" "polls_ok (s\<lparr>ws_polling := ns\<rparr>)" "n \<in> dom (map_of (ws_networks (s\<lparr>ws_polling := ns\<rparr>)))"
    using assms(1,2) n(1) by (auto simp: clients_ok_def polls_ok_def)
  from ok_status [OF this] show ?thesis by (simp add: n(2))
qed

lemma reachable_ok: "ws_reachable env network s \<Longrightarrow> clients_ok s \<and> polls_ok s"
proof (induction rule: ws_reachable.induct)
  case start
  show ?case by (auto simp: ws_init_def clients_ok_def polls_ok_def btree_ok_def split: option.split)
next
  case (step s i s')
  then show ?case using step_ok by blast
qed

text \<open>
  What a client can make the relay hold is bounded: at any time, whatever clients and observers send, a connection has at most 16384 texts queued and at most one
  cached status for each network waiting for room, and only open connections are subscribed.
\<close>

theorem client_queues_are_bounded:
  assumes "ws_reachable env network s" "map_of (ws_conns s) a = Some c"
  shows "length (wn_queue c) \<le> CLIENT_QUEUE \<and> length (wn_waiting c) \<le> length (ws_networks s)
    \<and> (wn_waiting c \<noteq> [] \<longrightarrow> length (wn_queue c) = CLIENT_QUEUE) \<and> dom (map_of (ws_clients s)) \<subseteq> dom (map_of (ws_conns s))"
proof -
  have "clients_ok s" using reachable_ok [OF assms(1)] by simp
  then show ?thesis using clients_okD [of s] assms(2) by (simp add: wn_ok_def)
qed

section \<open>What a connection is given\<close>

definition asked_for :: "subscriptions \<Rightarrow> outgoing \<Rightarrow> bool" where
  "asked_for subs t =
     (case t of OutHello _ _ \<Rightarrow> False | OutEvent _ _ e \<Rightarrow> ws_wants e subs | OutStatus _ _ \<Rightarrow> sb_connection_status subs)"

lemma broadcast_gives:
  assumes "clients_ok s" "map_of (ws_conns s) a = Some c" "map_of (ws_conns (ws_broadcast t wants s)) a = Some c'"
    "\<And>subs. wants subs = asked_for subs t"
  shows "wn_stream c' = wn_stream c @ (if (\<exists>subs. map_of (ws_clients s) a = Some subs \<and> wants subs) \<and> wn_room c then [t] else [])"
    "(\<exists>subs. map_of (ws_clients s) a = Some subs \<and> wants subs) \<and> wn_room c \<Longrightarrow>
       \<exists>subs. map_of (ws_clients (ws_broadcast t wants s)) a = Some subs \<and> asked_for subs t"
proof -
  note ok = clients_okD [OF assms(1)]
  show "wn_stream c' = wn_stream c @ (if (\<exists>subs. map_of (ws_clients s) a = Some subs \<and> wants subs) \<and> wn_room c then [t] else [])"
    using assms(2,3) push_conn(3) [OF ok(4) [OF assms(2)], of t] by (auto simp: broadcast_conn [OF ok(1)] split: if_splits)
  show "\<exists>subs. map_of (ws_clients (ws_broadcast t wants s)) a = Some subs \<and> asked_for subs t"
    if "(\<exists>subs. map_of (ws_clients s) a = Some subs \<and> wants subs) \<and> wn_room c"
    using that assms(2,4) by (auto simp: broadcast_client [OF ok(1)] conn_room_def)
qed

definition gives :: "ws_state \<Rightarrow> sock_addr \<Rightarrow> ws_conn \<Rightarrow> ws_conn \<Rightarrow> outgoing list \<Rightarrow> bool" where
  "gives s' a c c' new \<longleftrightarrow> wn_stream c' = wn_stream c @ new
     \<and> (\<forall>t \<in> set new. \<exists>subs. map_of (ws_clients s') a = Some subs \<and> asked_for subs t)"

lemma gives_nothing [simp]: "gives s' a c c []"
  by (simp add: gives_def)

lemma event_gives:
  assumes "clients_ok s" "map_of (ws_conns s) a = Some c" "map_of (ws_conns (ws_handle_event env n e s)) a = Some c'"
  defines "t \<equiv> OutEvent n (ip_info_of env (pe_peer_addr e)) e"
  shows "gives (ws_handle_event env n e s) a c c'
    (if (\<exists>subs. map_of (ws_clients s) a = Some subs \<and> ws_wants e subs) \<and> wn_room c \<and> we_encodes env t then [t] else [])"
proof -
  let ?wanted = "\<exists>subs. map_of (ws_clients s) a = Some subs \<and> ws_wants e subs"
  note ok = clients_okD [OF assms(1)]
  show ?thesis
  proof (cases "we_encodes env t \<and> list_ex (\<lambda>(_, subs). ws_wants e subs) (ws_clients s)")
    case True
    then have ev: "ws_handle_event env n e s = ws_broadcast t (ws_wants e) (note_network n s)"
      by (simp add: ws_handle_event_def t_def Let_def)
    have asked: "ws_wants e subs = asked_for subs t" for subs by (simp add: asked_for_def t_def)
    have "map_of (ws_conns (note_network n s)) a = Some c" using assms(2) by simp
    from broadcast_gives [OF ok_note(1) [OF assms(1)] this assms(3) [unfolded ev] asked] True show ?thesis
      by (auto simp: gives_def ev)
  next
    case False
    then have "ws_handle_event env n e s = note_network n s"
      by (auto simp: ws_handle_event_def t_def Let_def)
    then have "c' = c" using assms(2,3) by simp
    moreover have "\<not> (?wanted \<and> wn_room c \<and> we_encodes env t)"
      using False ok(1) by (auto simp: list_ex_iff hm_get_iff)
    ultimately show ?thesis by (simp only: if_False gives_nothing)
  qed
qed

lemma status_gives:
  assumes "clients_ok s" "map_of (ws_conns s) a = Some c" "map_of (ws_conns (poll_status env n reply s)) a = Some c'"
  shows "\<exists>new. gives (poll_status env n reply s) a c c' new"
proof (cases "poll_status env n reply s = s")
  case True
  with assms(2,3) have "c' = c" by simp
  then show ?thesis using gives_nothing by blast
next
  case False
  then obtain v where v: "reply = Some v" by (auto simp: poll_status_def split: option.splits)
  let ?t = "OutStatus n (annotate_peers env v)"
  let ?s = "s\<lparr>ws_latest := btree_insert n ?t (ws_latest s)\<rparr>"
  have st: "poll_status env n reply s = ws_broadcast ?t sb_connection_status ?s"
    using False by (auto simp: poll_status_def v Let_def split: if_splits)
  have "clients_ok ?s" "map_of (ws_conns ?s) a = Some c" using assms(1,2) by (simp_all add: clients_ok_def)
  from broadcast_gives [OF this assms(3) [unfolded st]] show ?thesis
    unfolding st gives_def by (fastforce simp: asked_for_def)
qed

lemma text_gives:
  assumes "clients_ok s" "polls_ok s" "map_of (ws_conns s) a = Some c" "wn_waiting c = []" "map_of (ws_conns (ws_text env b t s)) a = Some c'"
  shows "\<exists>new. gives (ws_text env b t s) a c c' new"
proof (cases "c' = c")
  case False
  note ok = clients_okD [OF assms(1)]
  from False assms(3,5) obtain subs where ba: "b = a" and subs: "sb_connection_status subs"
    and st: "ws_text env b t s = s\<lparr>ws_clients := AList.update a subs (ws_clients s),
       ws_conns := AList.map_entry a (wn_send_all (map snd (ws_latest s))) (ws_conns s)\<rparr>"
    by (auto simp: ws_text_def ws_leave_def Let_def hm_simps split: if_splits option.splits)
  have c': "c' = wn_send_all (map snd (ws_latest s)) c" using assms(3,5) by (simp add: st hm_simps)
  obtain new where new: "wn_stream c' = wn_stream c @ new" "set new \<subseteq> snd ` set (ws_latest s)"
    using send_all_conn(3) [OF ok(4) [OF assms(3)] assms(4), of "map snd (ws_latest s)"] unfolding c' by auto
  have "asked_for subs x" if "x \<in> set new" for x
  proof -
    obtain n where "(n, x) \<in> set (ws_latest s)" using \<open>x \<in> set new\<close> new(2) by auto
    moreover have "hm_ok (ws_latest s)" using assms(2) by (simp add: polls_ok_def btree_ok_hm_ok)
    ultimately have "map_of (ws_latest s) n = Some x" by (simp add: hm_get_iff)
    then obtain v where "x = OutStatus n v" using assms(2) unfolding polls_ok_def by blast
    with subs show ?thesis by (simp add: asked_for_def)
  qed
  moreover have "map_of (ws_clients (ws_text env b t s)) a = Some subs" unfolding st by (simp add: ba hm_simps)
  ultimately have "gives (ws_text env b t s) a c c' new" using new(1) by (simp add: gives_def)
  then show ?thesis by blast
qed (use gives_nothing in blast)

lemma step_gives:
  assumes "clients_ok s" "polls_ok s" "ws_step env i s = Some s'" "map_of (ws_conns s) a = Some c" "map_of (ws_conns s') a = Some c'"
    "i \<noteq> InWriteFails a"
  shows "\<exists>new. gives s' a c c' new"
proof -
  note ok = clients_okD [OF assms(1)]
  have same: ?thesis if "c' = c" using that gives_nothing by blast
  show ?thesis
  proof (cases i)
    case (InAccept b now)
    have "b \<noteq> a" using InAccept assms(3,4) by (auto simp: contains_key_def split: if_splits)
    with InAccept assms(3-5) show ?thesis by (intro same) (auto simp: ws_accept_def Let_def hm_simps split: if_splits)
  next
    case (InNats subject payload)
    with assms(3-5) event_gives [OF assms(1,4)] same show ?thesis by (auto split: option.splits) blast
  next
    case (InRead b m)
    with assms(3) obtain d where d: "map_of (ws_conns s) b = Some d" "wn_waiting d = []" "s' = ws_read env b m s"
      by (auto split: option.splits if_splits)
    show ?thesis
    proof (cases "\<exists>t. m = WsText t \<and> b = a")
      case True
      then obtain t where t: "m = WsText t" "b = a" by blast
      with d assms(4) have "wn_waiting c = []" by simp
      from text_gives [OF assms(1,2,4) this, of env a t] show ?thesis using assms(5) t d(3) by (simp add: ws_read_def)
    next
      case False
      with d(3) assms(4,5) have "c' = c"
        by (cases m) (auto simp: ws_read_def ws_text_def ws_leave_def Let_def hm_simps split: if_splits option.splits)
      then show ?thesis by (rule same)
    qed
  next
    case (InWrite b)
    with assms(3) obtain d d' where d: "map_of (ws_conns s) b = Some d" "wn_drain d = Some d'" "s' = s\<lparr>ws_conns := AList.update b d' (ws_conns s)\<rparr>"
      by (auto simp: bind_eq_Some_conv)
    show ?thesis
    proof (cases "b = a")
      case True
      with d assms(4,5) have "wn_drain c = Some c'" by (auto simp: hm_simps)
      from drain_conn(2) [OF ok(4) [OF assms(4)] this] have "gives s' a c c' []" by (simp add: gives_def)
      then show ?thesis by blast
    next
      case False
      with d assms(4,5) show ?thesis by (intro same) (simp add: hm_simps)
    qed
  next
    case (InWriteFails b)
    with assms(3-6) show ?thesis by (intro same) (auto simp: bind_eq_Some_conv hm_simps)
  next
    case InTick
    with assms(3-5) show ?thesis by (intro same) (auto simp: ws_round_def split: if_splits)
  next
    case (InNotified now)
    with assms(3-5) show ?thesis by (intro same) (auto simp: ws_round_def Let_def split: if_splits option.splits)
  next
    case (InReply reply)
    with assms(3) obtain n ns where n: "s' = poll_status env n reply (s\<lparr>ws_polling := ns\<rparr>)" by (auto split: list.splits)
    have "clients_ok (s\<lparr>ws_polling := ns\<rparr>)" "map_of (ws_conns (s\<lparr>ws_polling := ns\<rparr>)) a = Some c" using assms(1,4) by (simp_all add: clients_ok_def)
    from status_gives [OF this, of env n reply c'] assms(5) show ?thesis by (simp add: n)
  qed
qed

text \<open>
  C22. A client gets only what it asked for, and gets it: each step of the relay adds to what a connection has been given, in order, only events of kinds its client
  subscribed to and statuses if it subscribed to them; and an event it subscribed to is added when its queue has room, whatever the other clients do or fail to do.
\<close>

theorem clients_get_what_they_asked_for:
  assumes "ws_reachable env network s" "ws_step env i s = Some s'" "map_of (ws_conns s) a = Some c" "map_of (ws_conns s') a = Some c'"
  shows "(i \<noteq> InWriteFails a \<longrightarrow> (\<exists>new. wn_stream c' = wn_stream c @ new
      \<and> (\<forall>t \<in> set new. \<exists>subs. map_of (ws_clients s') a = Some subs \<and> asked_for subs t)))
    \<and> (\<forall>subject n e subs. i = InNats subject (Some e) \<and> ws_network_of subject = Some n \<and> map_of (ws_clients s) a = Some subs \<and> ws_wants e subs
         \<and> wn_room c \<and> we_encodes env (OutEvent n (ip_info_of env (pe_peer_addr e)) e)
         \<longrightarrow> wn_stream c' = wn_stream c @ [OutEvent n (ip_info_of env (pe_peer_addr e)) e])"
proof -
  have ok: "clients_ok s" "polls_ok s" using reachable_ok [OF assms(1)] by simp_all
  have "\<exists>new. wn_stream c' = wn_stream c @ new \<and> (\<forall>t \<in> set new. \<exists>subs. map_of (ws_clients s') a = Some subs \<and> asked_for subs t)"
    if "i \<noteq> InWriteFails a"
    using step_gives [OF ok assms(2-4) that] by (simp add: gives_def)
  moreover have "wn_stream c' = wn_stream c @ [OutEvent n (ip_info_of env (pe_peer_addr e)) e]"
    if "i = InNats subject (Some e)" "ws_network_of subject = Some n" "map_of (ws_clients s) a = Some subs" "ws_wants e subs" "wn_room c"
      "we_encodes env (OutEvent n (ip_info_of env (pe_peer_addr e)) e)" for subject n e subs
  proof -
    have s': "s' = ws_handle_event env n e s" using assms(2) that(1,2) by simp
    from event_gives [OF ok(1) assms(3) assms(4) [unfolded s']] that(3-6) show ?thesis by (simp add: gives_def)
  qed
  ultimately show ?thesis by blast
qed

section \<open>Dropped clients\<close>

text \<open>A connection without a client is given nothing, and nothing but its own reader or writer ends it.\<close>

lemma silent_step:
  assumes "clients_ok s" "polls_ok s" "map_of (ws_conns s) a = Some c" "map_of (ws_clients s) a = None" "ws_step env i s = Some s'"
    "\<And>m. i \<noteq> InRead a m" "i \<noteq> InWriteFails a"
  shows "map_of (ws_clients s') a = None \<and> (\<exists>c'. map_of (ws_conns s') a = Some c' \<and> wn_stream c' = wn_stream c)"
proof -
  note ok = clients_okD [OF assms(1)]
  have cast: "map_of (ws_clients (ws_broadcast t wants u)) a = None \<and> (\<exists>c'. map_of (ws_conns (ws_broadcast t wants u)) a = Some c' \<and> wn_stream c' = wn_stream c)"
    if "ws_clients u = ws_clients s" "ws_conns u = ws_conns s" for t wants u
    using assms(3,4) ok(1) that by (simp add: broadcast_client broadcast_conn)
  show ?thesis
  proof (cases i)
    case (InAccept b now)
    then have "b \<noteq> a" using assms(3,5) by (auto simp: contains_key_def split: if_splits)
    with InAccept assms(3-5) show ?thesis by (auto simp: ws_accept_def Let_def hm_simps split: if_splits)
  next
    case (InNats subject payload)
    with assms(3-5) cast show ?thesis by (auto simp: ws_handle_event_def Let_def split: option.splits)
  next
    case (InRead b m)
    then have "b \<noteq> a" using assms(6) by auto
    with InRead assms(3-5) show ?thesis
      by (cases m) (auto simp: ws_read_def ws_text_def ws_leave_def Let_def hm_simps split: if_splits option.splits)
  next
    case (InWrite b)
    with assms(5) obtain d d' where d: "map_of (ws_conns s) b = Some d" "wn_drain d = Some d'" "s' = s\<lparr>ws_conns := AList.update b d' (ws_conns s)\<rparr>"
      by (auto simp: bind_eq_Some_conv)
    then show ?thesis using assms(3,4) drain_conn(2) [OF ok(4) [OF d(1)] d(2)] by (auto simp: hm_simps)
  next
    case (InWriteFails b)
    with assms(3-5,7) show ?thesis by (auto simp: bind_eq_Some_conv hm_simps)
  next
    case InTick
    with assms(3-5) show ?thesis by (auto simp: ws_round_def split: if_splits)
  next
    case (InNotified now)
    with assms(3-5) show ?thesis by (auto simp: ws_round_def Let_def split: if_splits option.splits)
  next
    case (InReply reply)
    with assms(3-5) cast show ?thesis by (auto simp: poll_status_def Let_def split: option.splits list.splits if_splits)
  qed
qed

lemma silent_run:
  assumes "clients_ok s" "polls_ok s" "map_of (ws_conns s) a = Some c" "map_of (ws_clients s) a = None" "ws_run env is s = Some s'"
    "\<And>m. InRead a m \<notin> set is" "InWriteFails a \<notin> set is"
  shows "map_of (ws_clients s') a = None \<and> (\<exists>c'. map_of (ws_conns s') a = Some c' \<and> wn_stream c' = wn_stream c)"
  using assms
proof (induction "is" arbitrary: s c)
  case (Cons i "is")
  from Cons.prems(5) obtain u where u: "ws_step env i s = Some u" "ws_run env is u = Some s'" by (auto simp: bind_eq_Some_conv)
  have "i \<noteq> InRead a m" "i \<noteq> InWriteFails a" for m using Cons.prems(6,7) by auto
  from silent_step [OF Cons.prems(1-4) u(1) this] obtain c' where
    c': "map_of (ws_clients u) a = None" "map_of (ws_conns u) a = Some c'" "wn_stream c' = wn_stream c" by blast
  have "clients_ok u" "polls_ok u" using step_ok [OF Cons.prems(1,2) u(1)] by simp_all
  from Cons.IH [OF this c'(2,1) u(2)] Cons.prems(6,7) c'(3) show ?case by auto
qed simp

text \<open>
  C23. A client dropped for being slow is not disconnected: when an event it wants finds its queue full, its entry goes and its connection stays open, and from then on,
  whatever happens elsewhere, nothing is added to what it has been given for as long as it sends nothing itself. Its page waits for events that never come.
\<close>

theorem slow_client_goes_silent:
  assumes "ws_reachable env network s" "map_of (ws_conns s) a = Some c" "map_of (ws_clients s) a = Some subs" "\<not> wn_room c"
    "ws_network_of subject = Some n" "ws_wants e subs" "we_encodes env (OutEvent n (ip_info_of env (pe_peer_addr e)) e)"
    "ws_run env (InNats subject (Some e) # is) s = Some s'" "\<forall>m. InRead a m \<notin> set is" "InWriteFails a \<notin> set is"
  shows "map_of (ws_clients s') a = None \<and> (\<exists>c'. map_of (ws_conns s') a = Some c' \<and> wn_stream c' = wn_stream c)"
proof -
  let ?t = "OutEvent n (ip_info_of env (pe_peer_addr e)) e"
  have ok: "clients_ok s" "polls_ok s" using reachable_ok [OF assms(1)] by simp_all
  let ?u = "ws_handle_event env n e s"
  have step: "ws_step env (InNats subject (Some e)) s = Some ?u" "ws_run env is ?u = Some s'" using assms(5,8) by simp_all
  have "list_ex (\<lambda>(_, subs). ws_wants e subs) (ws_clients s)"
    using assms(3,6) map_of_SomeD [of "ws_clients s" a subs] by (auto simp: list_ex_iff)
  then have u: "?u = ws_broadcast ?t (ws_wants e) (note_network n s)" using assms(7) by (simp add: ws_handle_event_def Let_def)
  have "map_of (ws_clients ?u) a = None" "map_of (ws_conns ?u) a = Some c"
    using assms(2-4,6) clients_okD(1) [OF ok(1)] unfolding u
    by (simp_all add: broadcast_client broadcast_conn conn_room_def wn_push_def)
  moreover have "clients_ok ?u" "polls_ok ?u" using step_ok [OF ok step(1)] by simp_all
  ultimately show ?thesis using silent_run [OF _ _ _ _ step(2)] assms(9,10) by blast
qed

text \<open>A queue that is full can be reached: a client that reads nothing, and enough events.\<close>

definition demo_client :: sock_addr where
  "demo_client = \<lparr>sa_ip = V4 [127, 0, 0, 1], sa_port = 5000\<rparr>"

definition demo_ws_env :: ws_env where
  "demo_ws_env = \<lparr>we_asmap = None, we_as_names = (\<lambda>_. None), we_encodes = (\<lambda>_. True),
     we_parse_subs = (\<lambda>_. Some (subscriptions_default\<lparr>sb_fee_filters := True\<rparr>)), we_info_json = (\<lambda>_. None), we_status_interval = 60\<rparr>"

definition demo_event :: peer_event where
  "demo_event = \<lparr>pe_timestamp_ms = 0, pe_peer_addr = ''10.0.0.1:8333'', pe_user_agent = [], pe_transport_version = None, pe_connection_id = 1,
     pe_event = Some (FeeFilter 1000), pe_dropped_events = 0, pe_dropped_by_kind = None, pe_instance_id = 1\<rparr>"

definition demo_full :: "nat \<Rightarrow> ws_state" where
  "demo_full k = \<lparr>ws_clients = [(demo_client, subscriptions_default\<lparr>sb_fee_filters := True\<rparr>)],
     ws_conns = [(demo_client, \<lparr>wn_queue = OutHello 0 False # replicate k (OutEvent ''signet'' None demo_event), wn_waiting = [], wn_writer = True, wn_sent = []\<rparr>)],
     ws_networks = [(''signet'', ())], ws_latest = [], ws_poll_now = False, ws_asked_at = None, ws_polling = []\<rparr>"

lemma demo_subject: "ws_network_of ''p2p-observer.signet.fee_filter'' = Some ''signet''"
  by (simp add: ws_network_of_def)

lemma demo_wants: "ws_wants demo_event (subscriptions_default\<lparr>sb_fee_filters := True\<rparr>)"
  by (simp add: ws_wants_def demo_event_def)

lemma demo_push:
  assumes "Suc k < CLIENT_QUEUE"
  shows "ws_step demo_ws_env (InNats ''p2p-observer.signet.fee_filter'' (Some demo_event)) (demo_full k) = Some (demo_full (Suc k))"
proof -
  have "wn_room \<lparr>wn_queue = OutHello 0 False # replicate k (OutEvent ''signet'' None demo_event), wn_waiting = [], wn_writer = True, wn_sent = []\<rparr>"
    using assms by (simp add: wn_room_def)
  then have "ws_handle_event demo_ws_env ''signet'' demo_event (demo_full k) = demo_full (Suc k)"
    using demo_wants
    by (simp add: ws_handle_event_def note_network_def demo_full_def contains_key_def demo_ws_env_def ip_info_of_def ws_broadcast_def conn_room_def
        wn_push_def replicate_app_Cons_same)
  then show ?thesis by (simp add: demo_subject)
qed

lemma demo_reachable: "k < CLIENT_QUEUE \<Longrightarrow> ws_reachable demo_ws_env (Some ''signet'') (demo_full k)"
proof (induction k)
  case 0
  let ?i = "ws_init (Some ''signet'')"
  have a: "ws_reachable demo_ws_env (Some ''signet'') ?i" by (rule ws_reachable.start)
  have b: "ws_step demo_ws_env (InAccept demo_client 0) ?i = Some (ws_accept demo_ws_env demo_client 0 ?i)"
    by (simp add: ws_init_def contains_key_def)
  have c: "ws_step demo_ws_env (InRead demo_client (WsText ''x'')) (ws_accept demo_ws_env demo_client 0 ?i) = Some (demo_full 0)"
    by (simp add: ws_init_def ws_accept_def ws_read_def ws_text_def MAX_CLIENT_MESSAGE_def demo_ws_env_def contains_key_def demo_full_def
        subscriptions_default_def)
  show ?case by (rule ws_reachable.step [OF ws_reachable.step [OF a b] c])
next
  case (Suc k)
  have "ws_reachable demo_ws_env (Some ''signet'') (demo_full k)" using Suc by simp
  from ws_reachable.step [OF this demo_push [OF Suc.prems]] show ?case .
qed

lemma demo_conn:
  "map_of (ws_conns (demo_full k)) demo_client =
     Some \<lparr>wn_queue = OutHello 0 False # replicate k (OutEvent ''signet'' None demo_event), wn_waiting = [], wn_writer = True, wn_sent = []\<rparr>"
  "map_of (ws_clients (demo_full k)) demo_client = Some (subscriptions_default\<lparr>sb_fee_filters := True\<rparr>)"
  by (simp_all add: demo_full_def)

theorem client_queues_are_bounded_witness:
  "length (wn_queue (the (map_of (ws_conns (demo_full 3)) demo_client))) \<le> CLIENT_QUEUE"
  using client_queues_are_bounded [OF demo_reachable demo_conn(1), of 3] by (simp add: CLIENT_QUEUE_def demo_conn)

theorem clients_get_what_they_asked_for_witness:
  "wn_stream (the (map_of (ws_conns (demo_full 4)) demo_client)) =
     (OutHello 0 False # replicate 3 (OutEvent ''signet'' None demo_event)) @ [OutEvent ''signet'' None demo_event]"
proof -
  have r: "ws_reachable demo_ws_env (Some ''signet'') (demo_full 3)" by (rule demo_reachable) (simp add: CLIENT_QUEUE_def)
  have step: "ws_step demo_ws_env (InNats ''p2p-observer.signet.fee_filter'' (Some demo_event)) (demo_full 3) = Some (demo_full 4)"
    using demo_push [of 3] by (simp add: CLIENT_QUEUE_def)
  from clients_get_what_they_asked_for [OF r step demo_conn(1) demo_conn(1)] demo_conn(2) [of 3] demo_subject demo_wants
  show ?thesis unfolding demo_conn(1) option.sel
    by (auto simp: wn_room_def CLIENT_QUEUE_def demo_ws_env_def ip_info_of_def wn_stream_def)
qed

theorem slow_client_goes_silent_witness:
  "\<exists>k s'. ws_run demo_ws_env [InNats ''p2p-observer.signet.fee_filter'' (Some demo_event), InWrite demo_client] (demo_full k) = Some s'
     \<and> map_of (ws_clients s') demo_client = None
     \<and> (\<exists>c'. map_of (ws_conns s') demo_client = Some c' \<and> length (wn_stream c') = CLIENT_QUEUE)"
proof -
  let ?k = "CLIENT_QUEUE - 1"
  let ?c = "\<lparr>wn_queue = OutHello 0 False # replicate ?k (OutEvent ''signet'' None demo_event), wn_waiting = [], wn_writer = True, wn_sent = []\<rparr>"
  let ?is = "[InWrite demo_client]"
  have r: "ws_reachable demo_ws_env (Some ''signet'') (demo_full ?k)" by (rule demo_reachable) (simp add: queue_pos)
  have full: "\<not> wn_room ?c" "length (wn_stream ?c) = CLIENT_QUEUE" using queue_pos by (simp_all add: wn_room_def wn_stream_def)
  have "map_of (ws_conns (ws_handle_event demo_ws_env ''signet'' demo_event (demo_full ?k))) demo_client = Some ?c"
    using full(1) demo_wants
    by (simp add: ws_handle_event_def note_network_def demo_full_def contains_key_def demo_ws_env_def ip_info_of_def ws_broadcast_def conn_room_def
        wn_push_def)
  moreover obtain d where "wn_drain ?c = Some d" by (simp add: wn_drain_def)
  ultimately obtain s' where run: "ws_run demo_ws_env (InNats ''p2p-observer.signet.fee_filter'' (Some demo_event) # ?is) (demo_full ?k) = Some s'"
    by (simp add: demo_subject)
  have "we_encodes demo_ws_env t" for t by (simp add: demo_ws_env_def)
  from slow_client_goes_silent [OF r demo_conn(1) demo_conn(2) full(1) demo_subject demo_wants this run] full(2) run
  show ?thesis by (intro exI [where x = ?k] exI [where x = s']) auto
qed

section \<open>Asking the observers\<close>

text \<open>The times at which a run starts asking because a client wanted to know.\<close>

fun asked_times :: "ws_env \<Rightarrow> ws_input list \<Rightarrow> ws_state \<Rightarrow> nat list" where
  "asked_times env [] s = []"
| "asked_times env (i # is) s =
     (case ws_step env i s of
        None \<Rightarrow> []
      | Some s' \<Rightarrow> (if ws_asked_at s' = ws_asked_at s then [] else [the (ws_asked_at s')]) @ asked_times env is s')"

lemma asked_step:
  assumes "ws_step env i s = Some s'" "ws_asked_at s' \<noteq> ws_asked_at s"
  shows "\<exists>now. ws_asked_at s' = Some now \<and> (\<forall>was. ws_asked_at s = Some was \<longrightarrow> was + STATUS_ON_DEMAND_GAP \<le> now)"
proof (cases i)
  case (InNotified now)
  with assms show ?thesis by (auto simp: Let_def ws_round_def STATUS_ON_DEMAND_GAP_def split: if_splits option.splits)
next
  case (InRead a m)
  with assms show ?thesis
    by (cases m) (auto simp: ws_read_def ws_text_def ws_leave_def Let_def split: if_splits option.splits)
qed (use assms in \<open>auto simp: ws_accept_def ws_handle_event_def note_network_def poll_status_def ws_round_def Let_def bind_eq_Some_conv
    split: if_splits option.splits list.splits\<close>)

lemma asked_after:
  "ws_asked_at s = Some was \<Longrightarrow> \<forall>x \<in> set (asked_times env is s). was + STATUS_ON_DEMAND_GAP \<le> x"
proof (induction "is" arbitrary: s was)
  case (Cons i "is")
  show ?case
  proof (cases "ws_step env i s")
    case (Some s')
    show ?thesis
    proof (cases "ws_asked_at s' = ws_asked_at s")
      case True
      with Some Cons show ?thesis by simp
    next
      case False
      with asked_step [OF Some False] Cons.prems obtain now where "ws_asked_at s' = Some now" "was + STATUS_ON_DEMAND_GAP \<le> now" by auto
      with Cons.IH [of s' now] Some False show ?thesis by auto
    qed
  qed simp
qed simp

text \<open>
  Clients cannot make the relay ask the observers in quick succession: whatever clients send and however the inputs interleave, the times at which a round of
  status requests starts because of a client are at least two seconds apart.
\<close>

theorem on_demand_polls_keep_their_distance:
  "sorted_wrt (\<lambda>x y. x + STATUS_ON_DEMAND_GAP \<le> y) (asked_times env is s)"
proof (induction "is" arbitrary: s)
  case (Cons i "is")
  show ?case
  proof (cases "ws_step env i s")
    case (Some s')
    have "\<forall>y \<in> set (asked_times env is s'). the (ws_asked_at s') + STATUS_ON_DEMAND_GAP \<le> y" if "ws_asked_at s' \<noteq> ws_asked_at s"
      using asked_step [OF Some that] asked_after by fastforce
    with Some Cons show ?thesis by simp
  qed simp
qed simp

end
