(* ===== verification/Archive.thy ===== *)
theory Archive
  imports Emit
begin

text \<open>
  \<^verbatim>\<open>tools/archive/src/archiver.rs\<close>, \<^verbatim>\<open>read.rs\<close> and \<^verbatim>\<open>replayer.rs\<close>: the archiver, which writes the published events to files, and
  the reader of those files. The archiver's loop is a step function on what its \<^verbatim>\<open>select!\<close> may see next. The disk is a
  map from names to contents; for a compressed archive the contents are what can be decompressed from the file. What was written and has not
  reached the file yet, in the \<^verbatim>\<open>BufWriter\<close> or the encoder, is pending: any part of it may be passed on at any write, a flush passes on all of it.
  How many compressed bytes the encoder has put out is the parameter \<open>zst\<close> of what it was given. The protobuf encodings are parameters: \<open>enc_len\<close> and \<open>dec_len\<close> for a length
  prefix, \<open>enc_hdr\<close> and \<open>dec_hdr\<close> for the header of a file and \<open>dec_ev\<close> for an event. So is the rendering of a time stamp.
\<close>

unbundle bit_operations_syntax

section \<open>What is archived\<close>

record arch_args =
  ag_network :: string
  ag_base_name :: string
  ag_max_file_size :: u64
  ag_compression_level :: u32
  ag_ping_rtt :: bool
  ag_block_announcements :: bool
  ag_address_announcements :: bool
  ag_connection_results :: bool
  ag_handshakes :: bool
  ag_compact_block_probes :: bool
  ag_fee_filters :: bool
  ag_send_cmpcts :: bool

definition archives_everything :: "arch_args \<Rightarrow> bool" where
  "archives_everything g \<longleftrightarrow>
     \<not> (ag_ping_rtt g \<or> ag_block_announcements g \<or> ag_address_announcements g \<or> ag_connection_results g
        \<or> ag_handshakes g \<or> ag_compact_block_probes g \<or> ag_fee_filters g \<or> ag_send_cmpcts g)"

record arch_filter =
  fl_all :: bool
  fl_ping_rtt :: bool
  fl_block_announcement :: bool
  fl_address_announcement :: bool
  fl_connection_result :: bool
  fl_handshake :: bool
  fl_compact_block_probe :: bool
  fl_fee_filter :: bool
  fl_send_cmpct :: bool

definition filter_from :: "arch_args \<Rightarrow> arch_filter" where
  "filter_from g =
     \<lparr>fl_all = archives_everything g, fl_ping_rtt = ag_ping_rtt g, fl_block_announcement = ag_block_announcements g,
      fl_address_announcement = ag_address_announcements g, fl_connection_result = ag_connection_results g,
      fl_handshake = ag_handshakes g, fl_compact_block_probe = ag_compact_block_probes g,
      fl_fee_filter = ag_fee_filters g, fl_send_cmpct = ag_send_cmpcts g\<rparr>"

definition filter_matches :: "arch_filter \<Rightarrow> peer_event \<Rightarrow> bool" where
  "filter_matches f ev =
     (if fl_all f then True
      else case pe_event ev of
             Some (PingRtt _ _) \<Rightarrow> fl_ping_rtt f
           | Some (BlockAnnouncement _) \<Rightarrow> fl_block_announcement f
           | Some (AddressAnnouncement _) \<Rightarrow> fl_address_announcement f
           | Some (ConnectionResult _) \<Rightarrow> fl_connection_result f
           | Some (Handshake _) \<Rightarrow> fl_handshake f
           | Some (CompactBlockProbe _ _ _) \<Rightarrow> fl_compact_block_probe f
           | Some (FeeFilter _) \<Rightarrow> fl_fee_filter f
           | Some (SendCmpctEv _ _) \<Rightarrow> fl_send_cmpct f
           | None \<Rightarrow> False)"

text \<open>The numbers of \<^verbatim>\<open>EventKind\<close> start at one.\<close>

definition event_kind :: "kind \<Rightarrow> nat" where
  "event_kind k = kind_index k + 1"

definition filter_kinds :: "arch_filter \<Rightarrow> nat list" where
  "filter_kinds f =
     map (\<lambda>(_, k). event_kind k) (filter (\<lambda>(enabled, _). enabled)
       [(fl_all f \<or> fl_ping_rtt f, KPingRtt), (fl_all f \<or> fl_block_announcement f, KBlockAnnouncement),
        (fl_all f \<or> fl_address_announcement f, KAddressAnnouncement), (fl_all f \<or> fl_connection_result f, KConnectionResult),
        (fl_all f \<or> fl_handshake f, KHandshake), (fl_all f \<or> fl_compact_block_probe f, KCompactBlockProbe),
        (fl_all f \<or> fl_fee_filter f, KFeeFilter), (fl_all f \<or> fl_send_cmpct f, KSendCmpct)])"

record archive_header =
  ah_created :: u64
  ah_network :: string
  ah_events :: "nat list"

section \<open>Writing\<close>

record arch_codec =
  enc_len :: "nat \<Rightarrow> u8 list"
  dec_len :: "u8 list \<Rightarrow> nat option"
  enc_hdr :: "archive_header \<Rightarrow> u8 list"
  dec_hdr :: "u8 list \<Rightarrow> archive_header option"
  dec_ev :: "u8 list \<Rightarrow> peer_event option"
  render_stamp :: "u64 \<Rightarrow> string"
  zst :: "u8 list \<Rightarrow> nat"

definition frame :: "arch_codec \<Rightarrow> u8 list \<Rightarrow> u8 list" where
  "frame K payload = enc_len K (length payload) @ payload"

type_synonym disk = "string \<rightharpoonup> u8 list"

record arch =
  ar_disk :: disk
  ar_pending :: "u8 list"
  ar_path :: string
  ar_written :: u64
  ar_files :: u64
  ar_events :: u64
  ar_draining :: bool

definition archive_name :: "arch_codec \<Rightarrow> arch_args \<Rightarrow> u64 \<Rightarrow> string" where
  "archive_name K g now =
     ag_base_name g @ ''.'' @ render_stamp K now @ ''.'' @ (if ag_compression_level g = 0 then ''bin'' else ''bin.zst'')"

text \<open>The name of a new file: the clock is read again for as long as the name is taken. \<open>None\<close> when the readings run out.\<close>

fun fresh_name :: "arch_codec \<Rightarrow> arch_args \<Rightarrow> disk \<Rightarrow> u64 list \<Rightarrow> string option" where
  "fresh_name K g dsk [] = None"
| "fresh_name K g dsk (now # clock) =
     (if dsk (archive_name K g now) = None then Some (archive_name K g now) else fresh_name K g dsk clock)"

text \<open>
  How opening a file goes: an error of the system, or the readings of the clock and, when writing the header fails, how much
  of it was written.
\<close>

datatype open_script = OpenError | OpenFile "u64 list" "nat option"

text \<open>\<^verbatim>\<open>ArchiveFile::create\<close>: the name, the disk afterwards and the bytes counted.\<close>

definition create_file ::
  "arch_codec \<Rightarrow> arch_args \<Rightarrow> archive_header \<Rightarrow> open_script \<Rightarrow> disk \<Rightarrow> (string \<times> u64) option \<times> disk" where
  "create_file K g hdr sc dsk =
     (case sc of
        OpenError \<Rightarrow> (None, dsk)
      | OpenFile clock fault \<Rightarrow>
          (case fresh_name K g dsk clock of
             None \<Rightarrow> (None, dsk)
           | Some p \<Rightarrow>
               (let bytes = frame K (enc_hdr K hdr)
                in case fault of
                     Some n \<Rightarrow> (None, dsk(p \<mapsto> take n bytes))
                   | None \<Rightarrow> (Some (p, of_nat (length bytes)), dsk(p \<mapsto> bytes)))))"

definition append_file :: "disk \<Rightarrow> string \<Rightarrow> u8 list \<Rightarrow> disk" where
  "append_file dsk p bytes = (case dsk p of None \<Rightarrow> dsk | Some c \<Rightarrow> dsk(p \<mapsto> c @ bytes))"

text \<open>Bytes for the writer, of which the first \<open>moved\<close> that are pending pass on to the file.\<close>

definition buffer_write :: "u8 list \<Rightarrow> nat \<Rightarrow> arch \<Rightarrow> arch" where
  "buffer_write bytes moved a =
     (let pending = ar_pending a @ bytes
      in a\<lparr>ar_disk := append_file (ar_disk a) (ar_path a) (take moved pending), ar_pending := drop moved pending\<rparr>)"

text \<open>\<^verbatim>\<open>write_record\<close>, which may fail after the writer took \<open>n\<close> bytes.\<close>

definition write_record :: "arch_codec \<Rightarrow> u8 list \<Rightarrow> nat \<Rightarrow> nat option \<Rightarrow> arch \<Rightarrow> bool \<times> arch" where
  "write_record K payload moved fault a =
     (let bytes = frame K payload
      in case fault of
           Some n \<Rightarrow> (False, buffer_write (take n bytes) moved a)
         | None \<Rightarrow> (True, (buffer_write bytes moved a)\<lparr>ar_written := ar_written a + of_nat (length bytes)\<rparr>))"

text \<open>\<^verbatim>\<open>finalize\<close>: all that is pending passes on, or an error after \<open>n\<close> bytes of it. The writer is gone either way.\<close>

definition close_file :: "nat option \<Rightarrow> arch \<Rightarrow> bool \<times> arch" where
  "close_file fault a =
     (let n = (case fault of None \<Rightarrow> length (ar_pending a) | Some n \<Rightarrow> n)
      in (fault = None, (buffer_write [] n a)\<lparr>ar_pending := []\<rparr>))"

definition compressed_bytes :: "arch_codec \<Rightarrow> arch_args \<Rightarrow> arch \<Rightarrow> u64 option" where
  "compressed_bytes K g a =
     (if ag_compression_level g = 0 then None
      else Some (of_nat (zst K ((case ar_disk a (ar_path a) of None \<Rightarrow> [] | Some c \<Rightarrow> c) @ ar_pending a))))"

definition needs_rotation :: "arch_codec \<Rightarrow> arch_args \<Rightarrow> arch \<Rightarrow> bool" where
  "needs_rotation K g a \<longleftrightarrow>
     ag_max_file_size g \<le> (case compressed_bytes K g a of None \<Rightarrow> ar_written a | Some n \<Rightarrow> n)"

text \<open>Closing a file may fail, and then the next one is not opened.\<close>

definition rotate_file :: "arch_codec \<Rightarrow> arch_args \<Rightarrow> archive_header \<Rightarrow> nat option \<Rightarrow> open_script \<Rightarrow> arch \<Rightarrow> bool \<times> arch" where
  "rotate_file K g hdr closing sc a =
     (case close_file closing a of
        (False, a) \<Rightarrow> (False, a)
      | (True, a) \<Rightarrow>
          (case create_file K g hdr sc (ar_disk a) of
             (None, dsk) \<Rightarrow> (False, a\<lparr>ar_disk := dsk\<rparr>)
           | (Some (p, n), dsk) \<Rightarrow> (True, a\<lparr>ar_disk := dsk, ar_path := p, ar_written := n, ar_files := ar_files a + 1\<rparr>)))"

section \<open>The loop\<close>

text \<open>
  What the loop may see next: a message, with how much of what is pending its write passes on and how the write and a rotation would go; the end of the subscription; the shutdown
  signal, \<open>None\<close> when its senders are gone, with whether unsubscribing works; the end of the time for draining.
\<close>

datatype arch_input =
    ArMsg "u8 list" nat "nat option" "nat option" open_script
  | ArEnd
  | ArShutdown "bool option" bool
  | ArDrained

datatype arch_flow = Go arch | Stop arch | Fail arch

definition arch_message :: "arch_codec \<Rightarrow> arch_args \<Rightarrow> archive_header \<Rightarrow> u8 list \<Rightarrow> nat \<Rightarrow> nat option \<Rightarrow> nat option \<Rightarrow> open_script \<Rightarrow> arch \<Rightarrow> arch_flow" where
  "arch_message K g hdr payload moved fault closing sc a =
     (case dec_ev K payload of
        None \<Rightarrow> Go a
      | Some ev \<Rightarrow>
          (if \<not> filter_matches (filter_from g) ev then Go a
           else case write_record K payload moved fault a of
                  (False, a) \<Rightarrow> Stop a
                | (True, a) \<Rightarrow>
                    (let a = a\<lparr>ar_events := ar_events a + 1\<rparr> in
                     if needs_rotation K g a
                     then (case rotate_file K g hdr closing sc a of (False, a) \<Rightarrow> Fail a | (True, a) \<Rightarrow> Go a)
                     else Go a)))"

fun arch_step :: "arch_codec \<Rightarrow> arch_args \<Rightarrow> archive_header \<Rightarrow> arch_input \<Rightarrow> arch \<Rightarrow> arch_flow" where
  "arch_step K g hdr (ArMsg payload moved fault closing sc) a = arch_message K g hdr payload moved fault closing sc a"
| "arch_step K g hdr ArEnd a = Stop a"
| "arch_step K g hdr (ArShutdown changed unsubscribed) a =
     (if ar_draining a \<or> changed = Some False then Go a
      else let a = a\<lparr>ar_draining := True\<rparr> in if unsubscribed then Go a else Stop a)"
| "arch_step K g hdr ArDrained a = (if ar_draining a then Stop a else Go a)"

fun arch_loop :: "arch_codec \<Rightarrow> arch_args \<Rightarrow> archive_header \<Rightarrow> arch_input list \<Rightarrow> arch \<Rightarrow> arch_flow" where
  "arch_loop K g hdr [] a = Go a"
| "arch_loop K g hdr (x # xs) a =
     (case arch_step K g hdr x a of Go a \<Rightarrow> arch_loop K g hdr xs a | r \<Rightarrow> r)"

text \<open>
  One header for the whole run, made before the first file. \<open>ready\<close> says whether connecting, subscribing and making the output
  directory worked; \<open>None\<close> is an error before the loop.
\<close>

definition arch_header :: "arch_args \<Rightarrow> u64 \<Rightarrow> archive_header" where
  "arch_header g now = \<lparr>ah_created = now, ah_network = ag_network g, ah_events = filter_kinds (filter_from g)\<rparr>"

text \<open>The end of a run: it has not come, the last file was closed, or an error was returned.\<close>

datatype arch_end = Running arch | Finished arch | Aborted arch

definition arch_finish :: "nat option \<Rightarrow> arch_flow \<Rightarrow> arch_end" where
  "arch_finish closing r =
     (case r of
        Go a \<Rightarrow> Running a
      | Stop a \<Rightarrow> (case close_file closing a of (True, a) \<Rightarrow> Finished a | (False, a) \<Rightarrow> Aborted a)
      | Fail a \<Rightarrow> Aborted a)"

definition arch_run ::
  "arch_codec \<Rightarrow> arch_args \<Rightarrow> bool \<Rightarrow> u64 \<Rightarrow> open_script \<Rightarrow> arch_input list \<Rightarrow> nat option \<Rightarrow> disk \<Rightarrow> arch_end option" where
  "arch_run K g ready now sc xs closing dsk =
     (if 22 < ag_compression_level g \<or> \<not> ready then None
      else let hdr = arch_header g now
           in case create_file K g hdr sc dsk of
                (None, _) \<Rightarrow> None
              | (Some (p, n), dsk) \<Rightarrow>
                  Some (arch_finish closing (arch_loop K g hdr xs
                    \<lparr>ar_disk = dsk, ar_pending = [], ar_path = p, ar_written = n, ar_files = 1, ar_events = 0, ar_draining = False\<rparr>)))"

section \<open>Reading\<close>

definition MAX_RECORD :: nat where "MAX_RECORD = 16 * 2 ^ 20"

datatype read_error = UnexpectedEof | BadDelimiter | OversizedRecord | UndecodableRecord

datatype prefix_end = CleanEof | TornPrefix | Prefix "u8 list" "u8 list"

text \<open>Byte by byte until the continuation bit is clear, ten bytes at most.\<close>

fun read_prefix :: "u8 list \<Rightarrow> u8 list \<Rightarrow> prefix_end" where
  "read_prefix acc [] = (if acc = [] then CleanEof else TornPrefix)"
| "read_prefix acc (b # bs) =
     (let acc = acc @ [b] in if b AND 0x80 = 0 \<or> length acc = 10 then Prefix acc bs else read_prefix acc bs)"

definition read_message ::
  "arch_codec \<Rightarrow> (u8 list \<Rightarrow> 'm option) \<Rightarrow> u8 list \<Rightarrow> read_error + ('m \<times> u8 list) option" where
  "read_message K de bytes =
     (case read_prefix [] bytes of
        CleanEof \<Rightarrow> Inr None
      | TornPrefix \<Rightarrow> Inl UnexpectedEof
      | Prefix p rest \<Rightarrow>
          (case dec_len K p of
             None \<Rightarrow> Inl BadDelimiter
           | Some len \<Rightarrow>
               (if MAX_RECORD < len then Inl OversizedRecord
                else if length rest < len then Inl UnexpectedEof
                else case de (take len rest) of
                       None \<Rightarrow> Inl UndecodableRecord
                     | Some m \<Rightarrow> Inr (Some (m, drop len rest)))))"

lemma read_prefix_shorter: "read_prefix acc bs = Prefix p rest \<Longrightarrow> length rest < length bs"
  by (induction acc bs rule: read_prefix.induct) (auto simp: Let_def split: if_splits)

lemma read_message_shorter: "read_message K de bytes = Inr (Some (m, rest)) \<Longrightarrow> length rest < length bytes"
  by (auto simp: read_message_def split: prefix_end.splits option.splits if_splits dest!: read_prefix_shorter)

text \<open>The events up to the first error, which ends both users of the iterator.\<close>

function read_events :: "arch_codec \<Rightarrow> u8 list \<Rightarrow> peer_event list \<times> read_error option" where
  "read_events K bytes =
     (case read_message K (dec_ev K) bytes of
        Inl e \<Rightarrow> ([], Some e)
      | Inr None \<Rightarrow> ([], None)
      | Inr (Some (ev, rest)) \<Rightarrow> (let (evs, e) = read_events K rest in (ev # evs, e)))"
  by pat_completeness auto
termination
  by (relation "measure (\<lambda>(_, bytes). length bytes)") (auto dest: read_message_shorter)

declare read_events.simps [simp del]

text \<open>The header of an archive and its events; \<open>None\<close> when the header cannot be read or is missing.\<close>

definition read_archive :: "arch_codec \<Rightarrow> u8 list \<Rightarrow> (archive_header \<times> peer_event list \<times> read_error option) option" where
  "read_archive K bytes =
     (case read_message K (dec_hdr K) bytes of
        Inr (Some (hdr, rest)) \<Rightarrow> Some (hdr, read_events K rest)
      | _ \<Rightarrow> None)"

text \<open>\<^verbatim>\<open>replay_file\<close>: how many events an archive has, or an error.\<close>

definition replay_file :: "arch_codec \<Rightarrow> u8 list option \<Rightarrow> nat option" where
  "replay_file K file =
     (case file of
        None \<Rightarrow> None
      | Some bytes \<Rightarrow>
          (case read_archive K bytes of
             Some (_, evs, None) \<Rightarrow> Some (length evs)
           | _ \<Rightarrow> None))"

definition replay_run :: "arch_codec \<Rightarrow> u8 list option list \<Rightarrow> bool" where
  "replay_run K files = foldl (\<lambda>had_error f. if replay_file K f = None then True else had_error) False files"

end
