(* ===== verification/Archive_Spec.thy ===== *)
theory Archive_Spec
  imports Archive
begin

text \<open>
  The properties of the archives: what was published and asked for is read back, in order and without loss, from files
  that never replace another; and a file cut off anywhere is read up to its last whole record.
\<close>

section \<open>The contract of the encodings\<close>

text \<open>
  What the file format needs of the protobuf encodings: a length prefix is a varint, at most ten bytes of which all but the
  last have their top bit set, which decodes to the length.
\<close>

locale arch_encoding =
  fixes K :: arch_codec
  assumes len_bytes: "enc_len K n \<noteq> []" "n < 2 ^ 64 \<Longrightarrow> length (enc_len K n) \<le> 10"
    and len_more: "b \<in> set (butlast (enc_len K n)) \<Longrightarrow> b AND 0x80 \<noteq> 0"
    and len_last: "last (enc_len K n) AND 0x80 = 0"
    and len_dec: "n < 2 ^ 64 \<Longrightarrow> dec_len K (enc_len K n) = Some n"

lemma read_prefix_whole:
  assumes "\<And>c. c \<in> set xs \<Longrightarrow> c AND 0x80 \<noteq> 0" "b AND 0x80 = 0" "length acc + length xs < 10"
  shows "read_prefix acc (xs @ b # rest) = Prefix (acc @ xs @ [b]) rest"
  using assms by (induction xs arbitrary: acc) (auto simp: Let_def)

lemma read_prefix_torn:
  assumes "\<And>c. c \<in> set xs \<Longrightarrow> c AND 0x80 \<noteq> 0" "length acc + length xs < 10" "acc @ xs \<noteq> []"
  shows "read_prefix acc xs = TornPrefix"
  using assms by (induction xs arbitrary: acc) (auto simp: Let_def)

context arch_encoding
begin

lemma prefix_read:
  assumes "n < 2 ^ 64"
  shows "read_prefix [] (enc_len K n @ rest) = Prefix (enc_len K n) rest"
proof -
  let ?xs = "butlast (enc_len K n)" and ?b = "last (enc_len K n)"
  have e: "enc_len K n = ?xs @ [?b]" using len_bytes(1) by simp
  have l: "length ?xs < 10" using len_bytes [of n] assms by (cases "enc_len K n") auto
  have "read_prefix [] (?xs @ ?b # rest) = Prefix ([] @ ?xs @ [?b]) rest"
    by (rule read_prefix_whole) (use len_more [of _ n] len_last [of n] l in auto)
  then show ?thesis by (subst (1 2) e) simp
qed

lemma prefix_torn:
  assumes "n < 2 ^ 64" "0 < k" "k < length (enc_len K n)"
  shows "read_prefix [] (take k (enc_len K n)) = TornPrefix"
proof (rule read_prefix_torn)
  have "take k (enc_len K n) = take k (butlast (enc_len K n))" using assms(3) by (simp add: take_butlast)
  then show "c AND 0x80 \<noteq> 0" if "c \<in> set (take k (enc_len K n))" for c
    using that len_more [of c n] by (auto dest: in_set_takeD)
qed (use assms len_bytes(2) [of n] in auto)

lemma record_small: "len \<le> MAX_RECORD \<Longrightarrow> len < 2 ^ 64"
  by (simp add: MAX_RECORD_def)

lemma message_read:
  assumes "length p \<le> MAX_RECORD" "de p = Some m"
  shows "read_message K de (frame K p @ rest) = Inr (Some (m, rest))"
  using prefix_read [OF record_small [OF assms(1)], of "p @ rest"] len_dec [OF record_small [OF assms(1)]] assms
  by (simp add: read_message_def frame_def)

text \<open>A record cut short is an error, unless nothing of it is there.\<close>

lemma message_torn:
  assumes "length p \<le> MAX_RECORD" "k < length (frame K p)"
  shows "read_message K de (take k (frame K p)) = (if k = 0 then Inr None else Inl UnexpectedEof)"
proof -
  let ?e = "enc_len K (length p)"
  note small = record_small [OF assms(1)]
  consider "k = 0" | "0 < k" "k < length ?e" | "length ?e \<le> k" by linarith
  then show ?thesis
  proof cases
    case 2
    then show ?thesis using prefix_torn [OF small] by (simp add: read_message_def frame_def)
  next
    case 3
    have "0 < length ?e" using len_bytes(1) by simp
    moreover have "length p - (k - length ?e) > 0" using 3 assms(2) by (simp add: frame_def)
    moreover have "0 < k" using 3 calculation(1) by linarith
    ultimately show ?thesis
      using 3 prefix_read [OF small, of "take (k - length ?e) p"] len_dec [OF small] assms(1)
      by (auto simp: read_message_def frame_def)
  qed (simp add: read_message_def)
qed

end

section \<open>Whole and cut archives\<close>

definition archive_bytes :: "arch_codec \<Rightarrow> archive_header \<Rightarrow> u8 list list \<Rightarrow> u8 list" where
  "archive_bytes K hdr ps = frame K (enc_hdr K hdr) @ concat (map (frame K) ps)"

text \<open>A payload the archiver keeps and the reader takes.\<close>

definition recordable :: "arch_codec \<Rightarrow> u8 list \<Rightarrow> bool" where
  "recordable K p \<longleftrightarrow> length p \<le> MAX_RECORD \<and> dec_ev K p \<noteq> None"

definition events_of :: "arch_codec \<Rightarrow> u8 list list \<Rightarrow> peer_event list" where
  "events_of K ps = map (\<lambda>p. the (dec_ev K p)) ps"

text \<open>How far a list of pieces is covered by a prefix of their concatenation.\<close>

lemma take_concat:
  "\<exists>j n. j \<le> length xs \<and> take k (concat (map f xs)) = concat (map f (take j xs)) @ (if j < length xs then take n (f (xs ! j)) else [])
     \<and> (j < length xs \<longrightarrow> n < length (f (xs ! j)))"
proof (induction xs arbitrary: k)
  case (Cons x xs)
  show ?case
  proof (cases "k < length (f x)")
    case True
    then show ?thesis by (intro exI [of _ 0] exI [of _ k]) auto
  next
    case False
    from Cons.IH [of "k - length (f x)"] obtain j n where
      "j \<le> length xs" "j < length xs \<longrightarrow> n < length (f (xs ! j))"
      "take (k - length (f x)) (concat (map f xs)) = concat (map f (take j xs)) @ (if j < length xs then take n (f (xs ! j)) else [])"
      by blast
    then show ?thesis using False by (intro exI [of _ "Suc j"] exI [of _ n]) auto
  qed
qed simp

context arch_encoding
begin

lemma events_read:
  "list_all (recordable K) ps \<Longrightarrow> read_events K (concat (map (frame K) ps) @ tail) =
     (events_of K ps @ fst (read_events K tail), snd (read_events K tail))"
proof (induction ps)
  case (Cons p ps)
  then obtain ev where "dec_ev K p = Some ev" "length p \<le> MAX_RECORD" by (auto simp: recordable_def)
  with Cons message_read [of p "dec_ev K" ev "concat (map (frame K) ps) @ tail"] show ?case
    by (subst read_events.simps) (simp add: events_of_def)
qed (simp add: events_of_def)

lemma events_end: "read_events K [] = ([], None)"
  by (simp add: read_events.simps read_message_def)

lemma events_torn:
  "length p \<le> MAX_RECORD \<Longrightarrow> k < length (frame K p) \<Longrightarrow>
   read_events K (take k (frame K p)) = ([], if k = 0 then None else Some UnexpectedEof)"
  by (subst read_events.simps) (simp add: message_torn)

lemma header_read:
  assumes "dec_hdr K (enc_hdr K hdr) = Some hdr" "length (enc_hdr K hdr) \<le> MAX_RECORD"
  shows "read_archive K (frame K (enc_hdr K hdr) @ rest) = Some (hdr, read_events K rest)"
  using message_read [OF assms(2), of "dec_hdr K" hdr rest] assms(1) by (simp add: read_archive_def)

lemma archive_read:
  assumes "dec_hdr K (enc_hdr K hdr) = Some hdr" "length (enc_hdr K hdr) \<le> MAX_RECORD" "list_all (recordable K) ps"
  shows "read_archive K (archive_bytes K hdr ps) = Some (hdr, events_of K ps, None)"
  using header_read [OF assms(1,2)] events_read [OF assms(3), of "[]"] by (simp add: archive_bytes_def events_end)

end

context arch_encoding
begin

lemma archive_cut:
  assumes "dec_hdr K (enc_hdr K hdr) = Some hdr" "length (enc_hdr K hdr) \<le> MAX_RECORD" "list_all (recordable K) ps" "length (frame K (enc_hdr K hdr)) \<le> k"
  obtains j where "j \<le> length ps" "take k (archive_bytes K hdr ps) = archive_bytes K hdr (take j ps)"
    "read_archive K (take k (archive_bytes K hdr ps)) = Some (hdr, events_of K (take j ps), None)"
  | j n where "j < length ps" "0 < n" "n < length (frame K (ps ! j))"
    "take k (archive_bytes K hdr ps) = archive_bytes K hdr (take j ps) @ take n (frame K (ps ! j))"
    "read_archive K (take k (archive_bytes K hdr ps)) = Some (hdr, events_of K (take j ps), Some UnexpectedEof)"
proof -
  let ?h = "frame K (enc_hdr K hdr)"
  obtain j n where j: "j \<le> length ps" "j < length ps \<longrightarrow> n < length (frame K (ps ! j))"
    "take (k - length ?h) (concat (map (frame K) ps)) =
       concat (map (frame K) (take j ps)) @ (if j < length ps then take n (frame K (ps ! j)) else [])"
    using take_concat [of ps "k - length ?h" "frame K"] by blast
  have "list_all (recordable K) (take j ps)" using assms(3) by (auto simp: list_all_iff dest: in_set_takeD)
  note ev = events_read [OF this]
  have cut: "take k (archive_bytes K hdr ps) =
      archive_bytes K hdr (take j ps) @ (if j < length ps then take n (frame K (ps ! j)) else [])"
    using assms(4) j(3) by (simp add: archive_bytes_def)
  show ?thesis
  proof (cases "j < length ps \<and> 0 < n")
    case True
    then have "recordable K (ps ! j)" using assms(3) by (simp add: list_all_length)
    then have "read_events K (take n (frame K (ps ! j))) = ([], Some UnexpectedEof)"
      using events_torn [of "ps ! j" n] j(2) True by (simp add: recordable_def)
    with True cut j(2) ev [of "take n (frame K (ps ! j))"] header_read [OF assms(1,2)] show ?thesis
      by (intro that(2) [of j n]) (simp_all add: archive_bytes_def)
  next
    case False
    with cut j(1) ev [of "[]"] header_read [OF assms(1,2)] show ?thesis
      by (intro that(1) [of j]) (auto simp: archive_bytes_def events_end)
  qed
qed

end

section \<open>The archiver over its life\<close>

text \<open>The payloads a run is asked to keep.\<close>

definition wanted :: "arch_codec \<Rightarrow> arch_args \<Rightarrow> u8 list \<Rightarrow> bool" where
  "wanted K g p \<longleftrightarrow> (\<exists>ev. dec_ev K p = Some ev \<and> filter_matches (filter_from g) ev)"

fun kept :: "arch_codec \<Rightarrow> arch_args \<Rightarrow> arch_input \<Rightarrow> u8 list list" where
  "kept K g (ArMsg p _ _ _ _) = (if wanted K g p then [p] else [])"
| "kept K g _ = []"

text \<open>The files of a run in the order they were opened, each with its records, when nothing is pending.\<close>

definition files_held :: "arch_codec \<Rightarrow> archive_header \<Rightarrow> disk \<Rightarrow> (string \<times> u8 list list) list \<Rightarrow> disk \<Rightarrow> bool" where
  "files_held K hdr dsk0 fl dsk \<longleftrightarrow>
     distinct (map fst fl) \<and> (\<forall>p ps. (p, ps) \<in> set fl \<longrightarrow> dsk p = Some (archive_bytes K hdr ps) \<and> dsk0 p = None)
     \<and> (\<forall>p. p \<notin> fst ` set fl \<longrightarrow> dsk p = dsk0 p)"

lemma files_held_write:
  assumes "files_held K hdr dsk0 (fl @ [(q, ps)]) dsk"
  shows "files_held K hdr dsk0 (fl @ [(q, ps')]) (dsk(q \<mapsto> archive_bytes K hdr ps'))"
  using assms unfolding files_held_def by (auto simp: rev_image_eqI)

lemma files_held_open:
  assumes "files_held K hdr dsk0 fl dsk" "dsk p = None"
  shows "files_held K hdr dsk0 (fl @ [(p, [])]) (dsk(p \<mapsto> archive_bytes K hdr []))"
proof -
  have p: "p \<notin> fst ` set fl" using assms by (auto simp: files_held_def)
  then have "dsk0 p = None" using assms by (simp add: files_held_def)
  with p assms show ?thesis unfolding files_held_def by (auto simp: rev_image_eqI)
qed

text \<open>The disk as it will be once what is pending has reached the file that is being written.\<close>

definition disk_written :: "arch \<Rightarrow> disk" where
  "disk_written a = append_file (ar_disk a) (ar_path a) (ar_pending a)"

lemma buffer_write_fields [simp]:
  "ar_path (buffer_write bs n a) = ar_path a" "ar_written (buffer_write bs n a) = ar_written a" "ar_files (buffer_write bs n a) = ar_files a"
  "ar_events (buffer_write bs n a) = ar_events a" "ar_draining (buffer_write bs n a) = ar_draining a"
  by (simp_all add: buffer_write_def Let_def)

lemma disk_written_write: "disk_written (buffer_write bs n a) = append_file (disk_written a) (ar_path a) bs"
  by (simp add: disk_written_def buffer_write_def append_file_def Let_def del: take_append drop_append split: option.split)

lemma close_file_fields [simp]:
  "ar_path (snd (close_file c a)) = ar_path a" "ar_written (snd (close_file c a)) = ar_written a" "ar_files (snd (close_file c a)) = ar_files a"
  "ar_events (snd (close_file c a)) = ar_events a" "ar_pending (snd (close_file c a)) = []" "fst (close_file c a) \<longleftrightarrow> c = None"
  by (simp_all add: close_file_def Let_def)

lemma close_file_disk: "ar_disk (snd (close_file None a)) = disk_written a"
  by (simp add: close_file_def buffer_write_def disk_written_def Let_def)

definition arch_inv ::
  "arch_codec \<Rightarrow> arch_args \<Rightarrow> archive_header \<Rightarrow> disk \<Rightarrow> (string \<times> u8 list list) list \<Rightarrow> arch \<Rightarrow> bool" where
  "arch_inv K g hdr dsk0 fl a \<longleftrightarrow>
     fl \<noteq> [] \<and> fst (last fl) = ar_path a \<and> files_held K hdr dsk0 fl (disk_written a)
     \<and> ar_written a = of_nat (length (archive_bytes K hdr (snd (last fl))))
     \<and> (ag_compression_level g = 0 \<longrightarrow>
          (\<forall>(p, ps) \<in> set (butlast fl). ag_max_file_size g \<le> of_nat (length (archive_bytes K hdr ps))))
     \<and> ar_files a = of_nat (length fl) \<and> ar_events a = of_nat (length (concat (map snd fl)))"

lemma fresh_name_free: "fresh_name K g dsk clock = Some p \<Longrightarrow> dsk p = None"
  by (induction clock) (auto split: if_splits)

lemma create_file_ok:
  assumes "create_file K g hdr sc dsk = (Some (p, n), dsk')"
  shows "dsk p = None" "dsk' = dsk(p \<mapsto> archive_bytes K hdr [])" "n = of_nat (length (archive_bytes K hdr []))"
  using assms by (auto simp: create_file_def archive_bytes_def Let_def fresh_name_free
      split: open_script.splits option.splits dest: fresh_name_free)

lemma arch_inv_start:
  assumes "create_file K g hdr sc dsk = (Some (p, n), dsk')"
  shows "arch_inv K g hdr dsk [(p, [])]
    \<lparr>ar_disk = dsk', ar_pending = [], ar_path = p, ar_written = n, ar_files = 1, ar_events = 0, ar_draining = d\<rparr>"
  using create_file_ok [OF assms] by (auto simp: arch_inv_def files_held_def disk_written_def append_file_def)

text \<open>Appending a record to the last file, and opening the next.\<close>

lemma arch_inv_write:
  assumes "arch_inv K g hdr dsk0 (fl @ [(q, ps)]) a" "write_record K p moved None a = (True, a')"
  shows "arch_inv K g hdr dsk0 (fl @ [(q, ps @ [p])]) (a'\<lparr>ar_events := ar_events a' + 1\<rparr>)"
proof -
  have q: "ar_path a = q" "disk_written a q = Some (archive_bytes K hdr ps)" using assms(1) by (auto simp: arch_inv_def files_held_def)
  have b: "archive_bytes K hdr (ps @ [p]) = archive_bytes K hdr ps @ frame K p" by (simp add: archive_bytes_def)
  have a': "a' = (buffer_write (frame K p) moved a)\<lparr>ar_written := ar_written a + of_nat (length (frame K p))\<rparr>"
    using assms(2) by (simp add: write_record_def Let_def)
  have "disk_written (a'\<lparr>ar_events := n\<rparr>) = disk_written (buffer_write (frame K p) moved a)" for n by (simp add: a' disk_written_def)
  then have d: "disk_written (a'\<lparr>ar_events := n\<rparr>) = (disk_written a)(q \<mapsto> archive_bytes K hdr (ps @ [p]))" for n
    by (simp add: disk_written_write q append_file_def b)
  have "files_held K hdr dsk0 (fl @ [(q, ps)]) (disk_written a)" using assms(1) unfolding arch_inv_def by blast
  from files_held_write [OF this, of "ps @ [p]"] show ?thesis using assms(1) q(1) unfolding arch_inv_def d by (simp add: a' b)
qed

lemma arch_inv_rotate:
  assumes "arch_inv K g hdr dsk0 fl a" "needs_rotation K g a" "rotate_file K g hdr c sc a = (True, a')"
  obtains p where "arch_inv K g hdr dsk0 (fl @ [(p, [])]) a'"
proof -
  let ?b = "snd (close_file None a)"
  have "c = None" using assms(3) by (cases c) (auto simp: rotate_file_def close_file_def)
  then obtain p n dsk' where cr: "create_file K g hdr sc (disk_written a) = (Some (p, n), dsk')"
    "a' = ?b\<lparr>ar_disk := dsk', ar_path := p, ar_written := n, ar_files := ar_files a + 1\<rparr>"
    using assms(3) close_file_disk [of a] close_file_fields(3) [of None a]
    by (cases "close_file None a") (auto simp: rotate_file_def split: bool.splits option.splits prod.splits)
  note c = create_file_ok [OF cr(1)]
  obtain fl' q ps where fl: "fl = fl' @ [(q, ps)]" using assms(1) by (cases fl rule: rev_cases) (auto simp: arch_inv_def)
  have "ag_compression_level g = 0 \<Longrightarrow> ag_max_file_size g \<le> of_nat (length (archive_bytes K hdr ps))"
    using assms(1,2) by (auto simp: needs_rotation_def compressed_bytes_def arch_inv_def fl)
  moreover have held: "files_held K hdr dsk0 fl (disk_written a)" using assms(1) by (simp add: arch_inv_def)
  have "disk_written a' = dsk'" by (simp add: cr(2) disk_written_def append_file_def c(2))
  then have "files_held K hdr dsk0 (fl @ [(p, [])]) (disk_written a')" using files_held_open [OF held c(1)] by (simp add: c(2))
  ultimately have "arch_inv K g hdr dsk0 (fl @ [(p, [])]) a'"
    using assms(1) c(3) by (auto simp: arch_inv_def cr(2) fl butlast_append)
  then show ?thesis by (rule that)
qed

text \<open>Where a run of the loop leaves the files, when no write fails.\<close>

definition write_ok :: "arch_input \<Rightarrow> bool" where
  "write_ok x \<longleftrightarrow> (case x of ArMsg _ _ fault _ _ \<Rightarrow> fault = None | _ \<Rightarrow> True)"

lemma arch_step_inv:
  assumes "arch_inv K g hdr dsk0 fl a" "write_ok x" "arch_step K g hdr x a = Go a' \<or> arch_step K g hdr x a = Stop a'"
  shows "\<exists>fl'. arch_inv K g hdr dsk0 fl' a' \<and> concat (map snd fl') = concat (map snd fl) @ kept K g x"
proof -
  have drain: "arch_inv K g hdr dsk0 fl (a\<lparr>ar_draining := b\<rparr>)" for b using assms(1) by (simp add: arch_inv_def disk_written_def)
  show ?thesis
  proof (cases x)
    case (ArMsg p moved fault c sc)
    show ?thesis
    proof (cases "wanted K g p")
      case True
      then obtain ev where ev: "dec_ev K p = Some ev" "filter_matches (filter_from g) ev" by (auto simp: wanted_def)
      obtain fl1 q ps where fl: "fl = fl1 @ [(q, ps)]" using assms(1) by (cases fl rule: rev_cases) (auto simp: arch_inv_def)
      obtain a1 where a1: "write_record K p moved None a = (True, a1)" by (simp add: write_record_def Let_def)
      let ?a = "a1\<lparr>ar_events := ar_events a1 + 1\<rparr>" and ?fl = "fl1 @ [(q, ps @ [p])]"
      have inv: "arch_inv K g hdr dsk0 ?fl ?a" using arch_inv_write [OF assms(1) [unfolded fl] a1] .
      show ?thesis
      proof (cases "needs_rotation K g ?a")
        case True1: True
        then have "rotate_file K g hdr c sc ?a = (True, a')"
          using assms(2,3) ev a1 ArMsg by (auto simp: arch_message_def write_ok_def split: prod.splits bool.splits)
        from arch_inv_rotate [OF inv True1 this] obtain r where "arch_inv K g hdr dsk0 (?fl @ [(r, [])]) a'" .
        then show ?thesis using True ArMsg by (intro exI [of _ "?fl @ [(r, [])]"]) (simp add: fl)
      next
        case False
        then have "a' = ?a" using assms(2,3) ev a1 ArMsg by (auto simp: arch_message_def write_ok_def)
        then show ?thesis using inv True ArMsg by (intro exI [of _ ?fl]) (simp add: fl)
      qed
    next
      case False
      then have "a' = a" using assms(3) ArMsg by (auto simp: arch_message_def wanted_def split: option.splits)
      then show ?thesis using assms(1) False ArMsg by (intro exI [of _ fl]) simp
    qed
  qed (use assms(1,3) drain in \<open>auto simp: Let_def intro!: exI [of _ fl] split: if_splits\<close>)
qed

text \<open>
  What ends the loop: the end of the subscription, a shutdown whose unsubscribing fails, or the end of the time for draining
  after a shutdown.
\<close>

fun shuts_down :: "arch_input \<Rightarrow> bool" where
  "shuts_down (ArShutdown changed _) = (changed \<noteq> Some False)"
| "shuts_down _ = False"

definition ends_run :: "bool \<Rightarrow> arch_input list \<Rightarrow> bool" where
  "ends_run draining xs \<longleftrightarrow> xs \<noteq> [] \<and> ArEnd \<notin> set (butlast xs) \<and>
     (last xs = ArEnd \<or> (\<exists>c. last xs = ArShutdown c False) \<and> shuts_down (last xs)
      \<or> last xs = ArDrained \<and> (draining \<or> list_ex shuts_down xs))"

lemma ends_run_Cons: "x \<noteq> ArEnd \<Longrightarrow> ends_run (d \<or> shuts_down x) xs \<Longrightarrow> ends_run d (x # xs)"
  by (auto simp: ends_run_def)

lemma arch_message_draining:
  "arch_message K g hdr p moved fault c sc a = Go a' \<Longrightarrow> ar_draining a' = ar_draining a"
  by (auto simp: arch_message_def write_record_def rotate_file_def close_file_def buffer_write_def Let_def
      split: option.splits if_splits prod.splits bool.splits)

lemma arch_message_stops:
  "arch_message K g hdr p moved fault c sc a = Stop a' \<Longrightarrow> fault \<noteq> None"
  by (auto simp: arch_message_def write_record_def Let_def split: option.splits if_splits prod.splits bool.splits)

lemma arch_step_flow:
  assumes "write_ok x"
  shows "arch_step K g hdr x a = Go a' \<Longrightarrow> x \<noteq> ArEnd \<and> (ar_draining a' \<longrightarrow> ar_draining a \<or> shuts_down x)"
    "arch_step K g hdr x a = Stop a' \<Longrightarrow> ends_run (ar_draining a) [x]"
  using assms by (cases x; auto simp: ends_run_def write_ok_def Let_def dest: arch_message_draining arch_message_stops split: if_splits)+

lemma arch_loop_inv:
  assumes "arch_inv K g hdr dsk0 fl a" "list_all write_ok xs" "arch_loop K g hdr xs a = Go a' \<or> arch_loop K g hdr xs a = Stop a'"
  shows "\<exists>fl' n. arch_inv K g hdr dsk0 fl' a' \<and> concat (map snd fl) @ concat (map (kept K g) (take n xs)) = concat (map snd fl')
    \<and> n \<le> length xs \<and> (if arch_loop K g hdr xs a = Go a' then n = length xs else ends_run (ar_draining a) (take n xs))"
  using assms
proof (induction xs arbitrary: fl a)
  case (Cons x xs)
  have x: "write_ok x" "list_all write_ok xs" using Cons.prems(2) by simp_all
  show ?case
  proof (cases "arch_step K g hdr x a")
    case (Go a1)
    then obtain fl1 where fl1: "arch_inv K g hdr dsk0 fl1 a1" "concat (map snd fl1) = concat (map snd fl) @ kept K g x"
      using arch_step_inv [OF Cons.prems(1) x(1), of a1] by auto
    have loop: "arch_loop K g hdr (x # xs) a = arch_loop K g hdr xs a1" using Go by simp
    from Cons.IH [OF fl1(1) x(2)] Cons.prems(3) loop obtain fl' n where
      fl': "arch_inv K g hdr dsk0 fl' a'" "concat (map snd fl1) @ concat (map (kept K g) (take n xs)) = concat (map snd fl')"
      "n \<le> length xs" "if arch_loop K g hdr xs a1 = Go a' then n = length xs else ends_run (ar_draining a1) (take n xs)" by auto
    have "ends_run (ar_draining a) (x # take n xs)" if "ends_run (ar_draining a1) (take n xs)"
    proof (rule ends_run_Cons)
      show "x \<noteq> ArEnd" using arch_step_flow(1) [OF x(1) Go] by simp
      show "ends_run (ar_draining a \<or> shuts_down x) (take n xs)" using that arch_step_flow(1) [OF x(1) Go] by (auto simp: ends_run_def)
    qed
    with fl' fl1(2) loop show ?thesis by (intro exI [of _ fl'] exI [of _ "Suc n"]) (auto split: if_splits)
  next
    case (Stop a1)
    then obtain fl1 where "arch_inv K g hdr dsk0 fl1 a1" "concat (map snd fl1) = concat (map snd fl) @ kept K g x"
      using arch_step_inv [OF Cons.prems(1) x(1), of a1] by auto
    then show ?thesis using Cons.prems(3) Stop arch_step_flow(2) [OF x(1) Stop] by (intro exI [of _ fl1] exI [of _ 1]) auto
  qed (use Cons.prems(3) in simp)
qed auto

section \<open>The varint of protobuf\<close>

fun varint :: "nat \<Rightarrow> u8 list" where
  "varint n = (if n < 128 then [of_nat n] else of_nat (n mod 128 + 128) # varint (n div 128))"

declare varint.simps [simp del]

fun varint_value :: "u8 list \<Rightarrow> nat" where
  "varint_value [] = 0"
| "varint_value (b # bs) = unat b mod 128 + 128 * varint_value bs"

definition unvarint :: "u8 list \<Rightarrow> nat option" where
  "unvarint bs = (if varint_value bs < 2 ^ 64 then Some (varint_value bs) else None)"

definition protobuf_codec ::
  "(archive_header \<Rightarrow> u8 list) \<Rightarrow> (u8 list \<Rightarrow> archive_header option) \<Rightarrow> (u8 list \<Rightarrow> peer_event option) \<Rightarrow> (u64 \<Rightarrow> string)
   \<Rightarrow> (u8 list \<Rightarrow> nat) \<Rightarrow> arch_codec" where
  "protobuf_codec eh dh de rs z =
     \<lparr>enc_len = varint, dec_len = unvarint, enc_hdr = eh, dec_hdr = dh, dec_ev = de, render_stamp = rs, zst = z\<rparr>"

lemma varint_small: "n < 128 \<Longrightarrow> varint n = [of_nat n]"
  and varint_big: "128 \<le> n \<Longrightarrow> varint n = of_nat (n mod 128 + 128) # varint (n div 128)"
  by (simp_all add: varint.simps [of n])

lemma varint_nonempty: "varint n \<noteq> []"
  by (cases "n < 128") (simp_all add: varint_small varint_big)

lemma varint_length: "n < 128 ^ k \<Longrightarrow> 0 < k \<Longrightarrow> length (varint n) \<le> k"
proof (induction k arbitrary: n)
  case (Suc k)
  show ?case
  proof (cases "n < 128")
    case False
    with Suc.prems have "n div 128 < 128 ^ k" "0 < k" by (auto simp: less_mult_imp_div_less mult.commute intro: gr0I)
    with Suc.IH False show ?thesis by (simp add: varint_big)
  qed (simp add: varint_small)
qed simp

lemma unat_more: "unat (of_nat (n mod 128 + 128) :: u8) = n mod 128 + 128"
proof -
  have "n mod 128 + 128 < 256" using mod_less_divisor [of 128 n] by linarith
  then show ?thesis by (simp only: unat_of_nat) simp
qed

lemma varint_value_varint: "varint_value (varint n) = n"
proof (induction n rule: varint.induct)
  case (1 n)
  show ?case
  proof (cases "n < 128")
    case False
    with 1 unat_more [of n] show ?thesis by (simp add: varint_big)
  qed (simp add: varint_small unat_of_nat)
qed

lemma top_bit: "(b :: u8) AND 0x80 = 0 \<longleftrightarrow> unat b < 128"
proof -
  have "\<forall>n < 256. ((of_nat n :: u8) AND 0x80 = 0) = (n < 128)" by code_simp
  from spec [OF this, of "unat b"] show ?thesis using unsigned_less [of b, where ?'a = nat] by simp
qed

lemma varint_more: "b \<in> set (butlast (varint n)) \<Longrightarrow> 128 \<le> unat b"
proof (induction n rule: varint.induct)
  case (1 n)
  show ?case
  proof (cases "n < 128")
    case False
    with 1 unat_more [of n] varint_nonempty [of "n div 128"] show ?thesis by (auto simp: varint_big)
  qed (use 1 in \<open>simp add: varint_small\<close>)
qed

lemma varint_last: "unat (last (varint n)) < 128"
proof (induction n rule: varint.induct)
  case (1 n)
  then show ?case
    by (cases "n < 128") (simp_all add: varint_small varint_big varint_nonempty unat_of_nat)
qed

interpretation protobuf: arch_encoding "protobuf_codec eh dh de rs z" for eh dh de rs z
proof
  show "length (enc_len (protobuf_codec eh dh de rs z) n) \<le> 10" if "n < 2 ^ 64" for n
    using varint_length [of n 10] that by (simp add: protobuf_codec_def)
  show "b AND 0x80 \<noteq> 0" if "b \<in> set (butlast (enc_len (protobuf_codec eh dh de rs z) n))" for b n
    using varint_more [of b n] that by (simp add: protobuf_codec_def top_bit)
qed (simp_all add: protobuf_codec_def varint_nonempty top_bit varint_last unvarint_def varint_value_varint)

section \<open>Properties\<close>

lemma filter_kinds_kept: "kind_of ev = Some k \<Longrightarrow> filter_matches f ev \<longleftrightarrow> event_kind k \<in> set (filter_kinds f)"
  by (cases k; cases "pe_event ev") (auto simp: kind_of_def filter_matches_def filter_kinds_def event_kind_def split: pevent.splits)

lemma kept_wanted: "p \<in> set (concat (map (kept K g) xs)) \<Longrightarrow> wanted K g p"
proof -
  have "p \<in> set (kept K g x) \<Longrightarrow> wanted K g p" for x by (cases x) (auto split: if_splits)
  then show "p \<in> set (concat (map (kept K g) xs)) \<Longrightarrow> wanted K g p" by auto
qed

text \<open>
  C19. What was published and asked for is read back. As long as no write fails and no payload is longer than what a reader takes, the files of
  a run that ended, read one after the other, give exactly the wanted payloads that arrived before what ended it, each once, decoded, and in
  their order: what was pending in the writer has reached the last file too. Of a run that goes on, the last file gives its records once what is
  pending is added. Every file was new, no other file was touched, and all of them carry the header of the run, with the time the run started. An
  uncompressed file is closed only once it has reached the size asked for, and the counters are right.
\<close>

theorem archives_read_back:
  assumes "arch_encoding K" "dec_hdr K (enc_hdr K (arch_header g now)) = Some (arch_header g now)"
    "length (enc_hdr K (arch_header g now)) \<le> MAX_RECORD" "list_all write_ok xs"
    "\<forall>p \<in> set (concat (map (kept K g) xs)). length p \<le> MAX_RECORD"
    "arch_run K g ready now sc xs closing dsk0 = Some r" "r = Running a \<or> r = Finished a"
  shows "\<exists>fl n. concat (map (kept K g) (take n xs)) = concat (map snd fl)
    \<and> n \<le> length xs \<and> (if r = Running a then n = length xs else ends_run False (take n xs))
    \<and> distinct (map fst fl) \<and> (\<forall>p. p \<notin> fst ` set fl \<longrightarrow> ar_disk a p = dsk0 p)
    \<and> (\<forall>(p, ps) \<in> set fl. dsk0 p = None \<and> (\<exists>bytes. ar_disk a p = Some bytes
         \<and> read_archive K (bytes @ (if r = Running a \<and> p = ar_path a then ar_pending a else [])) = Some (arch_header g now, events_of K ps, None)
         \<and> ((p, ps) \<in> set (butlast fl) \<longrightarrow> ag_compression_level g = 0 \<longrightarrow> ag_max_file_size g \<le> of_nat (length bytes))))
    \<and> ar_files a = of_nat (length fl) \<and> ar_events a = of_nat (length (concat (map snd fl)))"
proof -
  let ?h = "arch_header g now"
  obtain p m dsk where cr: "create_file K g ?h sc dsk0 = (Some (p, m), dsk)"
    using assms(6) by (auto simp: arch_run_def Let_def split: if_splits option.splits prod.splits)
  let ?a0 = "\<lparr>ar_disk = dsk, ar_pending = [], ar_path = p, ar_written = m, ar_files = 1, ar_events = 0, ar_draining = False\<rparr>"
  have r: "r = arch_finish closing (arch_loop K g ?h xs ?a0)"
    using assms(6) cr by (auto simp: arch_run_def Let_def split: if_splits)
  obtain b where b: "arch_loop K g ?h xs ?a0 = Go b \<and> r = Running b \<and> a = b
      \<or> arch_loop K g ?h xs ?a0 = Stop b \<and> r = Finished a \<and> a = snd (close_file None b)"
    using assms(7) r by (auto simp: arch_finish_def close_file_def split: arch_flow.splits bool.splits prod.splits)
  then have "arch_loop K g ?h xs ?a0 = Go b \<or> arch_loop K g ?h xs ?a0 = Stop b" by blast
  from arch_loop_inv [OF arch_inv_start [OF cr] assms(4) this] obtain fl n where fl: "arch_inv K g ?h dsk0 fl b"
    "concat (map (kept K g) (take n xs)) = concat (map snd fl)" "n \<le> length xs"
    "if arch_loop K g ?h xs ?a0 = Go b then n = length xs else ends_run (ar_draining ?a0) (take n xs)" by auto
  have same: "ar_path a = ar_path b" "ar_files a = ar_files b" "ar_events a = ar_events b" using b by auto
  have held: "files_held K ?h dsk0 fl (disk_written b)" "ar_path b \<in> fst ` set fl" using fl(1) last_in_set [of fl] unfolding arch_inv_def by (blast, metis imageI)
  have disk: "disk_written b q = map_option (\<lambda>c. c @ (if r = Running a \<and> q = ar_path a then ar_pending a else [])) (ar_disk a q)" for q
    using b close_file_disk [of b] by (auto simp: disk_written_def append_file_def option.map_ident split: option.splits)
  have files: "dsk0 q = None \<and> (\<exists>bytes. ar_disk a q = Some bytes \<and> bytes @ (if r = Running a \<and> q = ar_path a then ar_pending a else []) = archive_bytes K ?h ps)
      \<and> read_archive K (archive_bytes K ?h ps) = Some (?h, events_of K ps, None)" if q: "(q, ps) \<in> set fl" for q ps
  proof -
    have "u \<in> set (concat (map (kept K g) (take n xs)))" if "u \<in> set ps" for u using that q fl(2) by force
    then have "list_all (recordable K) ps" using assms(5) kept_wanted set_take_subset [of n xs]
      by (fastforce simp: list_all_iff recordable_def wanted_def)
    moreover have "dsk0 q = None \<and> disk_written b q = Some (archive_bytes K ?h ps)" using q held(1) by (auto simp: files_held_def)
    ultimately show ?thesis using arch_encoding.archive_read [OF assms(1-3)] by (auto simp: disk)
  qed
  have "(p, ps) \<in> set (butlast fl) \<Longrightarrow> p \<noteq> ar_path a" for p ps
  proof -
    have "fl \<noteq> []" "fst (last fl) = ar_path b" using fl(1) unfolding arch_inv_def by blast+
    then obtain fl1 x where x: "fl = fl1 @ [x]" "fst x = ar_path a" using same(1) by (cases fl rule: rev_cases) simp_all
    have "distinct (map fst fl)" using held(1) by (simp add: files_held_def)
    then show "(p, ps) \<in> set (butlast fl) \<Longrightarrow> p \<noteq> ar_path a" using x by (force simp: image_iff)
  qed
  moreover have "distinct (map fst fl)" using held(1) by (simp add: files_held_def)
  moreover have "ar_disk a q = dsk0 q" if q: "q \<notin> fst ` set fl" for q
  proof -
    have "q \<noteq> ar_path a" using q held(2) same(1) by auto
    then have "disk_written b q = ar_disk a q" using disk [of q] by (simp add: option.map_ident)
    then show ?thesis using q held(1) by (simp add: files_held_def)
  qed
  moreover have "ar_files a = of_nat (length fl)" "ar_events a = of_nat (length (concat (map snd fl)))"
    "\<forall>(p, ps) \<in> set (butlast fl). ag_compression_level g = 0 \<longrightarrow> ag_max_file_size g \<le> of_nat (length (archive_bytes K ?h ps))"
    using fl(1) same by (auto simp: arch_inv_def)
  moreover have "if r = Running a then n = length xs else ends_run False (take n xs)" using fl(4) b by auto
  ultimately show ?thesis using fl(2,3) files by (intro exI [of _ fl] exI [of _ n]) fastforce
qed

definition demo_args :: arch_args where
  "demo_args = \<lparr>ag_network = ''signet'', ag_base_name = ''a'', ag_max_file_size = 5, ag_compression_level = 0, ag_ping_rtt = False,
     ag_block_announcements = False, ag_address_announcements = False, ag_connection_results = False, ag_handshakes = False,
     ag_compact_block_probes = False, ag_fee_filters = True, ag_send_cmpcts = False\<rparr>"

definition demo_codec :: arch_codec where
  "demo_codec = protobuf_codec (\<lambda>_. [1]) (\<lambda>_. Some (arch_header demo_args 5))
     (\<lambda>bs. if bs = [] then None else Some \<lparr>pe_timestamp_ms = 0, pe_peer_addr = [], pe_user_agent = [], pe_transport_version = None,
        pe_connection_id = 0, pe_event = Some (FeeFilter (ucast (hd bs))), pe_dropped_events = 0, pe_dropped_by_kind = None,
        pe_instance_id = 0\<rparr>) (\<lambda>t. replicate (unat t) (CHR ''x'')) length"

definition demo_inputs :: "arch_input list" where
  "demo_inputs = [ArMsg [7] 0 None None OpenError, ArMsg [] 0 None None OpenError, ArMsg [9, 9] 1 None None (OpenFile [1, 2] None),
     ArMsg [8] 0 None None OpenError, ArEnd, ArMsg [5] 0 None None OpenError]"

lemma demo_codec_ok: "arch_encoding demo_codec"
  unfolding demo_codec_def by (rule protobuf.arch_encoding_axioms)

lemma demo_archive:
  "\<exists>a. arch_run demo_codec demo_args True 5 (OpenFile [1] None) demo_inputs None Map.empty = Some (Finished a) \<and> ar_files a = 2"
  by (simp add: arch_run_def demo_args_def demo_inputs_def demo_codec_def protobuf_codec_def create_file_def arch_message_def
      arch_header_def frame_def varint_small filter_matches_def filter_from_def write_record_def buffer_write_def append_file_def
      needs_rotation_def compressed_bytes_def rotate_file_def close_file_def archive_name_def arch_finish_def Let_def)
    (simp add: numeral_eq_Suc)

lemma demo_ends: "n \<le> length demo_inputs \<Longrightarrow> ends_run False (take n demo_inputs) \<Longrightarrow> n = 5"
proof -
  assume n: "n \<le> length demo_inputs" "ends_run False (take n demo_inputs)"
  have "n \<in> {0, 1, 2, 3, 4, 5, 6}" using n(1) by (auto simp: demo_inputs_def)
  with n(2) show "n = 5" by (auto simp: demo_inputs_def ends_run_def numeral_eq_Suc)
qed

theorem archives_read_back_witness:
  "\<exists>a fl. arch_run demo_codec demo_args True 5 (OpenFile [1] None) demo_inputs None Map.empty = Some (Finished a)
    \<and> concat (map snd fl) = [[7], [9, 9], [8]]
    \<and> (\<forall>(p, ps) \<in> set fl. \<exists>bytes. ar_disk a p = Some bytes \<and> read_archive demo_codec bytes = Some (arch_header demo_args 5, events_of demo_codec ps, None))"
proof -
  obtain a where a: "arch_run demo_codec demo_args True 5 (OpenFile [1] None) demo_inputs None Map.empty = Some (Finished a)"
    using demo_archive by blast
  have small: "\<forall>p \<in> set (concat (map (kept demo_codec demo_args) demo_inputs)). length p \<le> MAX_RECORD"
    by (auto simp: demo_inputs_def MAX_RECORD_def)
  have hdr: "dec_hdr demo_codec (enc_hdr demo_codec (arch_header demo_args 5)) = Some (arch_header demo_args 5)"
    "length (enc_hdr demo_codec (arch_header demo_args 5)) \<le> MAX_RECORD" "list_all write_ok demo_inputs"
    by (simp_all add: demo_codec_def protobuf_codec_def MAX_RECORD_def demo_inputs_def write_ok_def)
  obtain fl n where fl: "concat (map (kept demo_codec demo_args) (take n demo_inputs)) = concat (map snd fl)"
    "n \<le> length demo_inputs" "if Finished a = Running a then n = length demo_inputs else ends_run False (take n demo_inputs)"
    and files: "\<forall>(p, ps) \<in> set fl. \<exists>bytes. ar_disk a p = Some bytes
      \<and> read_archive demo_codec bytes = Some (arch_header demo_args 5, events_of demo_codec ps, None)"
    using archives_read_back [OF demo_codec_ok hdr small a disjI2 [OF refl]]
    by (elim exE conjE) (rule that, assumption, assumption, assumption, fastforce split: if_splits)
  have "n = 5" using demo_ends fl(2,3) by simp
  then have "concat (map snd fl) = [[7], [9, 9], [8]]"
    using fl(1) by (simp add: demo_inputs_def wanted_def demo_codec_def protobuf_codec_def filter_matches_def filter_from_def demo_args_def
        archives_everything_def)
  with a files show ?thesis by blast
qed

lemma cut_after_header:
  assumes "arch_encoding K" "dec_hdr K (enc_hdr K hdr) = Some hdr" "length (enc_hdr K hdr) \<le> MAX_RECORD"
    "list_all (recordable K) ps" "length (archive_bytes K hdr []) \<le> k"
  shows "\<exists>j e. j \<le> length ps \<and> read_archive K (take k (archive_bytes K hdr ps)) = Some (hdr, events_of K (take j ps), e)
    \<and> length (archive_bytes K hdr (take j ps)) \<le> k
    \<and> (j < length ps \<longrightarrow> k < length (archive_bytes K hdr (take (Suc j) ps)))
    \<and> (if take k (archive_bytes K hdr ps) = archive_bytes K hdr (take j ps) then e = None else e = Some UnexpectedEof)"
proof -
  have h: "length (frame K (enc_hdr K hdr)) \<le> k" using assms(5) by (simp add: archive_bytes_def)
  have next_rec: "archive_bytes K hdr (take (Suc j) ps) = archive_bytes K hdr (take j ps) @ frame K (ps ! j)" if "j < length ps" for j
    using that by (simp add: archive_bytes_def take_Suc_conv_app_nth)
  have total: "length (archive_bytes K hdr (take (Suc j) ps)) \<le> length (archive_bytes K hdr ps)" for j
    by (simp add: archive_bytes_def length_concat sum_list_mono2 flip: take_map) (metis append_take_drop_id le_add1 map_append sum_list_append take_map)
  show ?thesis
  proof (rule arch_encoding.archive_cut [OF assms(1-4) h], goal_cases)
    case (1 j)
    have "length (archive_bytes K hdr (take j ps)) = min (length (archive_bytes K hdr ps)) k"
      using arg_cong [OF 1(2), of length] by simp
    moreover have "0 < length (frame K (ps ! j))"
      using arch_encoding.len_bytes(1) [OF assms(1)] by (simp add: frame_def)
    ultimately have "k < length (archive_bytes K hdr (take (Suc j) ps))" "length (archive_bytes K hdr (take j ps)) \<le> k" if "j < length ps"
      using next_rec [OF that] total [of j] by (auto simp: min_def split: if_splits)
    moreover have "length (archive_bytes K hdr (take j ps)) \<le> k"
      using \<open>length (archive_bytes K hdr (take j ps)) = min (length (archive_bytes K hdr ps)) k\<close> by simp
    ultimately show ?thesis using 1 by (intro exI [of _ j] exI [of _ None]) simp
  next
    case (2 j n)
    have "length (archive_bytes K hdr (take j ps)) + n = min (length (archive_bytes K hdr ps)) k"
      using arg_cong [OF 2(4), of length] 2(3) by simp
    then have "k < length (archive_bytes K hdr (take (Suc j) ps))" "length (archive_bytes K hdr (take j ps)) \<le> k"
      using next_rec [OF 2(1)] total [of j] 2(3) by (auto simp: min_def split: if_splits)
    moreover have "take n (frame K (ps ! j)) \<noteq> []" using 2(2,3) by auto
    ultimately show ?thesis using 2 by (intro exI [of _ j] exI [of _ "Some UnexpectedEof"]) simp
  qed
qed

text \<open>
  C20. An uncompressed archive cut off anywhere, as a crash leaves it, is read up to its last whole record. Cut within its header, or before it, it is
  refused when it is opened. Cut after it, it never gives an event that was not written and never loses an earlier one, and reading ends
  without an error exactly if the cut is between two records, and with an unexpected end of file otherwise.
\<close>

theorem cut_archives_read_a_prefix:
  assumes "arch_encoding K" "dec_hdr K (enc_hdr K hdr) = Some hdr" "length (enc_hdr K hdr) \<le> MAX_RECORD"
    "list_all (recordable K) ps"
  shows "if k < length (archive_bytes K hdr []) then read_archive K (take k (archive_bytes K hdr ps)) = None
    else \<exists>j e. j \<le> length ps \<and> read_archive K (take k (archive_bytes K hdr ps)) = Some (hdr, events_of K (take j ps), e)
      \<and> length (archive_bytes K hdr (take j ps)) \<le> k
      \<and> (j < length ps \<longrightarrow> k < length (archive_bytes K hdr (take (Suc j) ps)))
      \<and> (if take k (archive_bytes K hdr ps) = archive_bytes K hdr (take j ps) then e = None else e = Some UnexpectedEof)"
proof (cases "k < length (archive_bytes K hdr [])")
  case True
  then have "take k (archive_bytes K hdr ps) = take k (frame K (enc_hdr K hdr))" "k < length (frame K (enc_hdr K hdr))"
    by (simp_all add: archive_bytes_def)
  then show ?thesis using True arch_encoding.message_torn [OF assms(1,3), of k "dec_hdr K"] by (simp add: read_archive_def)
next
  case False
  then have k: "length (archive_bytes K hdr []) \<le> k" by simp
  show ?thesis using False cut_after_header [OF assms k] by simp
qed

theorem cut_archives_read_a_prefix_witness:
  "read_archive demo_codec (take 1 (archive_bytes demo_codec (arch_header demo_args 5) [[7], [9, 9]])) = None
    \<and> (\<exists>j e. j \<le> 2 \<and> read_archive demo_codec (take 4 (archive_bytes demo_codec (arch_header demo_args 5) [[7], [9, 9]])) =
      Some (arch_header demo_args 5, events_of demo_codec (take j [[7], [9, 9]]), e))"
proof -
  have rec: "list_all (recordable demo_codec) [[7], [9, 9]]" by (simp add: recordable_def demo_codec_def protobuf_codec_def MAX_RECORD_def)
  have hdr: "dec_hdr demo_codec (enc_hdr demo_codec (arch_header demo_args 5)) = Some (arch_header demo_args 5)"
    "length (enc_hdr demo_codec (arch_header demo_args 5)) \<le> MAX_RECORD"
    by (simp_all add: demo_codec_def protobuf_codec_def MAX_RECORD_def)
  have len: "length (archive_bytes demo_codec (arch_header demo_args 5) []) = 2"
    by (simp add: archive_bytes_def frame_def demo_codec_def protobuf_codec_def varint_small)
  note cut = cut_archives_read_a_prefix [OF demo_codec_ok hdr rec, unfolded len]
  have "read_archive demo_codec (take 1 (archive_bytes demo_codec (arch_header demo_args 5) [[7], [9, 9]])) = None" using cut [of 1] by simp
  moreover have "\<not> (4::nat) < 2" "length [[7], [9, 9 :: u8]] = 2" by simp_all
  then have "\<exists>j e. j \<le> 2 \<and> read_archive demo_codec (take 4 (archive_bytes demo_codec (arch_header demo_args 5) [[7], [9, 9]])) =
      Some (arch_header demo_args 5, events_of demo_codec (take j [[7], [9, 9]]), e)" using cut [of 4] by metis
  ultimately show ?thesis by blast
qed

end
