(* ===== verification/Archive_Stats.thy ===== *)
theory Archive_Stats
  imports Archive_Spec
begin

text \<open>
  \<^verbatim>\<open>tools/archive/src/stats.rs\<close>: adding up what is in an archive. Counters are naturals, they count events that were read. The
  tables are printed in \<^theory_text>\<open>Archive_Report\<close>. What is shown is that the tables agree with each other and with the events.
\<close>

section \<open>Counting\<close>

text \<open>\<^verbatim>\<open>entry(k).or_default()\<close> and an update of what it gives.\<close>

definition upsert :: "'k \<Rightarrow> 'v \<Rightarrow> ('v \<Rightarrow> 'v) \<Rightarrow> ('k, 'v) hashmap \<Rightarrow> ('k, 'v) hashmap" where
  "upsert k d f m = AList.update k (f (case map_of m k of None \<Rightarrow> d | Some v \<Rightarrow> v)) m"

definition bump :: "'k \<Rightarrow> ('k, nat) hashmap \<Rightarrow> ('k, nat) hashmap" where
  "bump k m = upsert k 0 Suc m"

text \<open>The sum of what a function gives on the values of a map.\<close>

definition total :: "('v \<Rightarrow> nat) \<Rightarrow> ('k, 'v) hashmap \<Rightarrow> nat" where
  "total f m = sum_list (map (f \<circ> snd) m)"

text \<open>The host of a rendered address: everything before its last colon.\<close>

definition host_of :: "string \<Rightarrow> string" where
  "host_of addr = (case dropWhile (\<lambda>c. c \<noteq> CHR '':'') (rev addr) of [] \<Rightarrow> addr | _ # before \<Rightarrow> rev before)"

record host =
  h_handshakes :: nat
  h_sessions :: nat
  h_silent :: nat
  h_uptime_secs :: nat
  h_longest_secs :: nat
  h_decode_errors :: nat
  h_failed_attempts :: nat
  h_unplaced :: nat
  h_rate_limited :: nat
  h_user_agents :: "(string, nat) hashmap"

definition host_default :: host where
  "host_default = \<lparr>h_handshakes = 0, h_sessions = 0, h_silent = 0, h_uptime_secs = 0, h_longest_secs = 0, h_decode_errors = 0,
     h_failed_attempts = 0, h_unplaced = 0, h_rate_limited = 0, h_user_agents = []\<rparr>"

record service_bits =
  sb_fields :: nat
  sb_all_ones :: nat
  sb_bits :: "(nat, nat) hashmap"

definition service_observe :: "u64 \<Rightarrow> service_bits \<Rightarrow> service_bits" where
  "service_observe services b =
     (let b = b\<lparr>sb_fields := sb_fields b + 1\<rparr> in
      if services = - 1 then b\<lparr>sb_all_ones := sb_all_ones b + 1\<rparr>
      else b\<lparr>sb_bits := foldl (\<lambda>m i. if bit services i then bump i m else m) (sb_bits b) [0 ..< 64]\<rparr>)"

record stats =
  st_network :: string
  st_events :: nat
  st_first_ms :: "u64 option"
  st_last_ms :: "u64 option"
  st_instances :: "u64 list"
  st_dropped :: "(u64, u64) hashmap"
  st_hosts :: "(string, host) hashmap"
  st_hosts_by_user_agent :: "(string, string list) hashmap"
  st_handshakes_by_user_agent :: "(string, nat) hashmap"
  st_session_ends :: "(disconnect_reason, nat) hashmap"
  st_failures :: "(failure_reason, nat) hashmap"
  st_our_faults :: nat
  st_blocks :: "(block_hash, bool) hashmap"
  st_announcements :: nat
  st_handshake_services :: service_bits
  st_gossip_services :: service_bits

definition stats_default :: stats where
  "stats_default = \<lparr>st_network = [], st_events = 0, st_first_ms = None, st_last_ms = None, st_instances = [], st_dropped = [],
     st_hosts = [], st_hosts_by_user_agent = [], st_handshakes_by_user_agent = [], st_session_ends = [], st_failures = [],
     st_our_faults = 0, st_blocks = [], st_announcements = 0,
     st_handshake_services = \<lparr>sb_fields = 0, sb_all_ones = 0, sb_bits = []\<rparr>,
     st_gossip_services = \<lparr>sb_fields = 0, sb_all_ones = 0, sb_bits = []\<rparr>\<rparr>"

definition on_host :: "string \<Rightarrow> (host \<Rightarrow> host) \<Rightarrow> stats \<Rightarrow> stats" where
  "on_host host f s = s\<lparr>st_hosts := upsert host host_default f (st_hosts s)\<rparr>"

definition observe_handshake :: "string \<Rightarrow> handshake_event \<Rightarrow> stats \<Rightarrow> stats" where
  "observe_handshake host hs s =
     (let s = on_host host (\<lambda>h. h\<lparr>h_handshakes := h_handshakes h + 1, h_user_agents := bump (hs_user_agent hs) (h_user_agents h)\<rparr>) s
      in s\<lparr>st_hosts_by_user_agent := upsert (hs_user_agent hs) [] (List.insert host) (st_hosts_by_user_agent s),
           st_handshakes_by_user_agent := bump (hs_user_agent hs) (st_handshakes_by_user_agent s),
           st_handshake_services := service_observe (hs_services hs) (st_handshake_services s)\<rparr>)"

definition observe_disconnected :: "string \<Rightarrow> disconnected \<Rightarrow> stats \<Rightarrow> stats" where
  "observe_disconnected host d s =
     (let secs = unat (dc_uptime_ms d) div 1000;
          s = on_host host (\<lambda>h. h\<lparr>h_sessions := h_sessions h + 1, h_uptime_secs := h_uptime_secs h + secs,
                h_longest_secs := max (h_longest_secs h) secs,
                h_silent := h_silent h + (if dc_messages_by_command d = [] \<and> dc_messages_other d = 0 then 1 else 0),
                h_decode_errors := h_decode_errors h + (if dc_reason d = DisDecodeError then 1 else 0)\<rparr>) s
      in s\<lparr>st_session_ends := bump (dc_reason d) (st_session_ends s)\<rparr>)"

definition observe_block :: "string \<Rightarrow> block_announcement \<Rightarrow> stats \<Rightarrow> stats" where
  "observe_block host b s =
     (let s = s\<lparr>st_announcements := st_announcements s + 1,
                st_blocks := upsert (ba_hash b) False (\<lambda>placed. placed \<or> ba_height b \<noteq> None) (st_blocks s)\<rparr>
      in if ba_height b = None then on_host host (\<lambda>h. h\<lparr>h_unplaced := h_unplaced h + 1\<rparr>) s else s)"

definition observe_addresses :: "string \<Rightarrow> address_announcement \<Rightarrow> stats \<Rightarrow> stats" where
  "observe_addresses host a s =
     (let s = on_host host (\<lambda>h. h\<lparr>h_rate_limited := h_rate_limited h + unat (aa_rate_limited a)\<rparr>) s
      in s\<lparr>st_gossip_services := foldl (\<lambda>b (_, services, _). service_observe services b) (st_gossip_services s) (aa_addresses a)\<rparr>)"

definition observe_header :: "peer_event \<Rightarrow> stats \<Rightarrow> stats" where
  "observe_header e s =
     s\<lparr>st_events := st_events s + 1,
       st_first_ms := Some (case st_first_ms s of None \<Rightarrow> pe_timestamp_ms e | Some t \<Rightarrow> min t (pe_timestamp_ms e)),
       st_last_ms := Some (case st_last_ms s of None \<Rightarrow> pe_timestamp_ms e | Some t \<Rightarrow> max t (pe_timestamp_ms e)),
       st_instances := List.insert (pe_instance_id e) (st_instances s),
       st_dropped := upsert (pe_instance_id e) 0 (\<lambda>d. max d (pe_dropped_events e)) (st_dropped s)\<rparr>"

definition observe :: "peer_event \<Rightarrow> stats \<Rightarrow> stats" where
  "observe e s =
     (let s = observe_header e s; host = host_of (pe_peer_addr e) in
      case pe_event e of
        None \<Rightarrow> s
      | Some (Handshake hs) \<Rightarrow> observe_handshake host hs s
      | Some (ConnectionResult (ResDisconnected d)) \<Rightarrow> observe_disconnected host d s
      | Some (ConnectionResult (ResFailed r _)) \<Rightarrow>
          (let s = on_host host (\<lambda>h. h\<lparr>h_failed_attempts := h_failed_attempts h + 1\<rparr>) s
           in s\<lparr>st_failures := bump r (st_failures s)\<rparr>)
      | Some (ConnectionResult (ResOurFault _ _)) \<Rightarrow> s\<lparr>st_our_faults := st_our_faults s + 1\<rparr>
      | Some (BlockAnnouncement b) \<Rightarrow> observe_block host b s
      | Some (AddressAnnouncement a) \<Rightarrow> observe_addresses host a s
      | Some (PingRtt _ _) \<Rightarrow> s
      | Some (CompactBlockProbe _ _ _) \<Rightarrow> s
      | Some (FeeFilter _) \<Rightarrow> s
      | Some (SendCmpctEv _ _) \<Rightarrow> s)"

text \<open>\<^verbatim>\<open>run\<close>: the files in order, as one stream; the first that cannot be read to its end is an error.\<close>

fun stats_run :: "arch_codec \<Rightarrow> u8 list option list \<Rightarrow> stats \<Rightarrow> stats option" where
  "stats_run K [] s = Some s"
| "stats_run K (file # files) s =
     (case file of
        None \<Rightarrow> None
      | Some bytes \<Rightarrow>
          (case read_archive K bytes of
             Some (hdr, evs, None) \<Rightarrow>
               (let s = (if st_network s = [] then s\<lparr>st_network := ah_network hdr\<rparr> else s)
                in stats_run K files (foldl (\<lambda>s e. observe e s) s evs))
           | _ \<Rightarrow> None))"

section \<open>The tables agree\<close>

lemma hm_ok_upsert [simp]: "hm_ok m \<Longrightarrow> hm_ok (upsert k d f m)"
  by (simp add: upsert_def)

lemma hm_ok_bump [simp]: "hm_ok m \<Longrightarrow> hm_ok (bump k m)"
  by (simp add: bump_def)

lemma total_update:
  "hm_ok m \<Longrightarrow> total f (AList.update k v m) + (case map_of m k of None \<Rightarrow> 0 | Some w \<Rightarrow> f w) = total f m + f v"
proof (induction m)
  case (Cons x m)
  have "hm_ok m" "fst x \<notin> fst ` set m" using Cons.prems by (auto simp: hm_ok_def)
  then show ?case using Cons.IH by (cases x) (auto simp: total_def split: option.splits)
qed (simp add: total_def)

text \<open>An update that adds \<open>n\<close> to one value adds \<open>n\<close> to the total.\<close>

lemma total_upsert:
  assumes "hm_ok m" "f d = 0" "\<And>v. f (g v) = f v + n"
  shows "total f (upsert k d g m) = total f m + n"
  using total_update [OF assms(1), of f k "g (case map_of m k of None \<Rightarrow> d | Some v \<Rightarrow> v)"] assms(2,3)
  by (simp add: upsert_def split: option.splits)

lemma total_bump: "hm_ok m \<Longrightarrow> total id (bump k m) = total id m + 1"
  unfolding bump_def by (rule total_upsert) simp_all

lemma upsert_all:
  assumes "\<forall>v \<in> snd ` set m. P v" "P d" "\<And>v. P v \<Longrightarrow> P (f v)"
  shows "\<forall>v \<in> snd ` set (upsert k d f m). P v"
proof -
  have "P (case map_of m k of None \<Rightarrow> d | Some v \<Rightarrow> v)"
    using assms(1,2) by (force split: option.splits dest: map_of_SomeD)
  moreover have "set (AList.update k v m) \<subseteq> insert (k, v) (set m)" for v by (induction m) auto
  ultimately show ?thesis using assms(1,3) unfolding upsert_def by fastforce
qed

definition host_ok :: "host \<Rightarrow> bool" where
  "host_ok h \<longleftrightarrow> h_silent h \<le> h_sessions h \<and> h_decode_errors h \<le> h_sessions h
     \<and> h_uptime_secs h \<le> h_sessions h * h_longest_secs h"

definition agree :: "stats \<Rightarrow> bool" where
  "agree s \<longleftrightarrow>
     hm_ok (st_hosts s) \<and> hm_ok (st_session_ends s) \<and> hm_ok (st_failures s) \<and> hm_ok (st_handshakes_by_user_agent s)
     \<and> total h_sessions (st_hosts s) = total id (st_session_ends s)
     \<and> total h_handshakes (st_hosts s) = total id (st_handshakes_by_user_agent s)
     \<and> total h_handshakes (st_hosts s) = sb_fields (st_handshake_services s)
     \<and> total h_failed_attempts (st_hosts s) = total id (st_failures s)
     \<and> (\<forall>h \<in> snd ` set (st_hosts s). host_ok h)"

lemma agree_default: "agree stats_default"
  by (simp add: agree_def stats_default_def total_def)

lemma sb_fields_observe: "sb_fields (service_observe v b) = sb_fields b + 1"
  by (simp add: service_observe_def Let_def)

lemma on_host_fields [simp]:
  "st_session_ends (on_host a g s) = st_session_ends s" "st_failures (on_host a g s) = st_failures s"
  "st_handshakes_by_user_agent (on_host a g s) = st_handshakes_by_user_agent s"
  "st_handshake_services (on_host a g s) = st_handshake_services s" "st_events (on_host a g s) = st_events s"
  "st_first_ms (on_host a g s) = st_first_ms s" "st_last_ms (on_host a g s) = st_last_ms s"
  by (simp_all add: on_host_def)

text \<open>What an update of a host adds to the totals.\<close>

definition shifted :: "nat \<Rightarrow> nat \<Rightarrow> nat \<Rightarrow> stats \<Rightarrow> stats \<Rightarrow> bool" where
  "shifted i j k s s' \<longleftrightarrow>
     hm_ok (st_hosts s') \<and> total h_sessions (st_hosts s') = total h_sessions (st_hosts s) + i
     \<and> total h_handshakes (st_hosts s') = total h_handshakes (st_hosts s) + j
     \<and> total h_failed_attempts (st_hosts s') = total h_failed_attempts (st_hosts s) + k
     \<and> (\<forall>h \<in> snd ` set (st_hosts s'). host_ok h)"

lemma on_host_shifted:
  assumes "agree s" "\<And>h. h_sessions (g h) = h_sessions h + i" "\<And>h. h_handshakes (g h) = h_handshakes h + j"
    "\<And>h. h_failed_attempts (g h) = h_failed_attempts h + k" "\<And>h. host_ok h \<Longrightarrow> host_ok (g h)"
  shows "shifted i j k s (on_host a g s)"
proof -
  have ok: "hm_ok (st_hosts s)" "\<forall>h \<in> snd ` set (st_hosts s). host_ok h" using assms(1) by (simp_all add: agree_def)
  have "total h_sessions (st_hosts (on_host a g s)) = total h_sessions (st_hosts s) + i"
    "total h_handshakes (st_hosts (on_host a g s)) = total h_handshakes (st_hosts s) + j"
    "total h_failed_attempts (st_hosts (on_host a g s)) = total h_failed_attempts (st_hosts s) + k"
    using total_upsert [OF ok(1), of _ host_default g] assms(2-4) by (simp_all add: on_host_def host_default_def)
  moreover have "host_ok host_default" by (simp add: host_ok_def host_default_def)
  from upsert_all [where f = g, OF ok(2) this assms(5)] have "\<forall>h \<in> snd ` set (st_hosts (on_host a g s)). host_ok h"
    by (simp add: on_host_def)
  ultimately show ?thesis using ok(1) by (simp add: shifted_def on_host_def)
qed

lemma agree_header [simp]: "agree (observe_header e s) = agree s"
  by (simp add: agree_def observe_header_def)

lemma agree_handshake:
  assumes "agree s"
  shows "agree (observe_handshake a hs s)"
proof -
  let ?g = "\<lambda>h. h\<lparr>h_handshakes := h_handshakes h + 1, h_user_agents := bump (hs_user_agent hs) (h_user_agents h)\<rparr>"
  have "shifted 0 1 0 s (on_host a ?g s)" by (rule on_host_shifted [OF assms]) (simp_all add: host_ok_def)
  then show ?thesis using assms
    by (simp add: agree_def shifted_def observe_handshake_def Let_def total_bump sb_fields_observe)
qed

lemma agree_disconnected:
  assumes "agree s"
  shows "agree (observe_disconnected a d s)"
proof -
  let ?u = "unat (dc_uptime_ms d) div 1000"
  let ?g = "\<lambda>h. h\<lparr>h_sessions := h_sessions h + 1, h_uptime_secs := h_uptime_secs h + ?u, h_longest_secs := max (h_longest_secs h) ?u,
                h_silent := h_silent h + (if dc_messages_by_command d = [] \<and> dc_messages_other d = 0 then 1 else 0),
                h_decode_errors := h_decode_errors h + (if dc_reason d = DisDecodeError then 1 else 0)\<rparr>"
  have "host_ok (?g h)" if "host_ok h" for h
  proof -
    have "h_uptime_secs h \<le> h_sessions h * max (h_longest_secs h) ?u"
      using that by (meson host_ok_def le_trans max.cobounded1 mult_le_mono2)
    then have "h_uptime_secs h + ?u \<le> max (h_longest_secs h) ?u + h_sessions h * max (h_longest_secs h) ?u" by linarith
    then show ?thesis using that by (simp add: host_ok_def)
  qed
  then have "shifted 1 0 0 s (on_host a ?g s)" by (intro on_host_shifted [OF assms]) simp_all
  then show ?thesis using assms by (simp add: agree_def shifted_def observe_disconnected_def Let_def total_bump)
qed

lemma agree_on_host:
  assumes "agree s" "\<And>h. h_sessions (g h) = h_sessions h" "\<And>h. h_handshakes (g h) = h_handshakes h"
    "\<And>h. h_failed_attempts (g h) = h_failed_attempts h" "\<And>h. host_ok h \<Longrightarrow> host_ok (g h)"
  shows "agree (on_host a g s)"
proof -
  have "shifted 0 0 0 s (on_host a g s)" by (rule on_host_shifted [OF assms(1)]) (simp_all add: assms(2-5))
  then show ?thesis using assms(1) by (simp add: agree_def shifted_def)
qed

lemma agree_failed:
  assumes "agree s"
  shows "agree (on_host a (\<lambda>h. h\<lparr>h_failed_attempts := h_failed_attempts h + 1\<rparr>) s \<lparr>st_failures := bump r (st_failures s)\<rparr>)"
proof -
  have "shifted 0 0 1 s (on_host a (\<lambda>h. h\<lparr>h_failed_attempts := h_failed_attempts h + 1\<rparr>) s)"
    by (rule on_host_shifted [OF assms]) (simp_all add: host_ok_def)
  then show ?thesis using assms by (simp add: agree_def shifted_def total_bump)
qed

lemma agree_upd [simp]:
  "agree (s\<lparr>st_gossip_services := b\<rparr>) = agree s" "agree (s\<lparr>st_our_faults := n\<rparr>) = agree s"
  "agree (s\<lparr>st_announcements := n, st_blocks := m\<rparr>) = agree s"
  by (simp_all add: agree_def)

lemma agree_block: "agree s \<Longrightarrow> agree (observe_block a b s)"
  using agree_on_host [of "s\<lparr>st_announcements := n, st_blocks := m\<rparr>" "\<lambda>h. h\<lparr>h_unplaced := h_unplaced h + 1\<rparr>" a for n m]
  by (simp add: observe_block_def Let_def host_ok_def)

lemma agree_addresses: "agree s \<Longrightarrow> agree (observe_addresses a b s)"
  using agree_on_host [of s "\<lambda>h. h\<lparr>h_rate_limited := h_rate_limited h + n\<rparr>" a for n]
  by (simp add: observe_addresses_def Let_def host_ok_def)

lemma agree_observe:
  assumes "agree s"
  shows "agree (observe e s)"
proof -
  have "agree (observe_header e s)" using assms by simp
  note all = this agree_handshake [OF this] agree_disconnected [OF this] agree_failed [OF this, simplified] agree_block [OF this] agree_addresses [OF this]
  show ?thesis unfolding observe_def Let_def
    by (cases "pe_event e"; (cases "the (pe_event e)")?) (auto simp: all simp del: agree_header split: connection_result.split)
qed

section \<open>The span\<close>

lemma observe_times:
  "st_events (observe e s) = st_events s + 1"
  "st_first_ms (observe e s) = Some (case st_first_ms s of None \<Rightarrow> pe_timestamp_ms e | Some t \<Rightarrow> min t (pe_timestamp_ms e))"
  "st_last_ms (observe e s) = Some (case st_last_ms s of None \<Rightarrow> pe_timestamp_ms e | Some t \<Rightarrow> max t (pe_timestamp_ms e))"
  by (simp_all add: observe_def observe_header_def observe_handshake_def observe_disconnected_def observe_block_def
      observe_addresses_def Let_def split: option.split pevent.split connection_result.split)

definition spans :: "peer_event list \<Rightarrow> stats \<Rightarrow> bool" where
  "spans evs s \<longleftrightarrow> st_events s = length evs
     \<and> (\<forall>e \<in> set evs. \<exists>a b. st_first_ms s = Some a \<and> st_last_ms s = Some b \<and> a \<le> pe_timestamp_ms e \<and> pe_timestamp_ms e \<le> b)"

lemma spans_observe: "spans evs s \<Longrightarrow> spans (evs @ [e]) (observe e s)"
  by (auto simp: spans_def observe_times min_le_iff_disj le_max_iff_disj split: option.splits)

lemma observe_all: "spans evs s \<Longrightarrow> agree s \<Longrightarrow> spans (evs @ es) (foldl (\<lambda>s e. observe e s) s es) \<and> agree (foldl (\<lambda>s e. observe e s) s es)"
proof (induction es arbitrary: evs s)
  case (Cons e es)
  from Cons.IH [OF spans_observe [OF Cons.prems(1)] agree_observe [OF Cons.prems(2)]] show ?case by simp
qed simp

lemma stats_run_all:
  assumes "stats_run K files s = Some s'" "spans evs s" "agree s"
  shows "\<exists>evss. map (\<lambda>f. map_option (\<lambda>(_, r). r) (Option.bind f (read_archive K))) files = map (\<lambda>es. Some (es, None)) evss
    \<and> spans (evs @ concat evss) s' \<and> agree s'"
  using assms
proof (induction files arbitrary: s evs)
  case (Cons f files)
  then obtain bytes hdr es where f: "f = Some bytes" "read_archive K bytes = Some (hdr, es, None)"
    by (auto split: option.splits prod.splits)
  let ?s = "if st_network s = [] then s\<lparr>st_network := ah_network hdr\<rparr> else s"
  have "spans evs ?s" "agree ?s" using Cons.prems(2,3) by (simp_all add: spans_def agree_def)
  from observe_all [OF this, of es] Cons.IH [of "foldl (\<lambda>s e. observe e s) ?s es" "evs @ es"] Cons.prems(1) f
  obtain evss where "map (\<lambda>f. map_option (\<lambda>(_, r). r) (Option.bind f (read_archive K))) files = map (\<lambda>es. Some (es, None)) evss"
    "spans ((evs @ es) @ concat evss) s'" "agree s'" by (auto simp: Let_def)
  with f show ?case by (intro exI [of _ "es # evss"]) simp
qed (intro exI [of _ "[]"], simp)

text \<open>
  The summary of archives adds up. It is made only if every file reads to its end, and then counts every event of all the
  files once; the span it prints covers the time of each of them, so its length never underflows; and the tables agree with each
  other: the sessions of all hosts are the session ends by reason, their handshakes are those by user agent and the service
  fields, their failed attempts are the failures by reason; and no host has more silent sessions or decode errors than
  sessions, or a mean session longer than its longest.
\<close>

theorem summary_adds_up:
  assumes "stats_run K files stats_default = Some s"
  shows "\<exists>evss. map (\<lambda>f. map_option (\<lambda>(_, r). r) (Option.bind f (read_archive K))) files = map (\<lambda>es. Some (es, None)) evss
    \<and> st_events s = length (concat evss)
    \<and> (\<forall>e \<in> set (concat evss). \<exists>a b. st_first_ms s = Some a \<and> st_last_ms s = Some b
         \<and> a \<le> pe_timestamp_ms e \<and> pe_timestamp_ms e \<le> b)
    \<and> total h_sessions (st_hosts s) = total id (st_session_ends s)
    \<and> total h_handshakes (st_hosts s) = total id (st_handshakes_by_user_agent s)
    \<and> total h_handshakes (st_hosts s) = sb_fields (st_handshake_services s)
    \<and> total h_failed_attempts (st_hosts s) = total id (st_failures s)
    \<and> (\<forall>h \<in> snd ` set (st_hosts s). h_silent h \<le> h_sessions h \<and> h_decode_errors h \<le> h_sessions h
         \<and> h_uptime_secs h \<le> h_sessions h * h_longest_secs h)"
proof -
  have "spans [] stats_default" by (simp add: spans_def stats_default_def)
  from stats_run_all [OF assms this agree_default] show ?thesis by (auto simp: spans_def agree_def host_ok_def)
qed

theorem summary_adds_up_witness:
  "\<exists>s. stats_run demo_codec [Some (archive_bytes demo_codec (arch_header demo_args 5) [[7], [9, 9]])] stats_default = Some s
    \<and> total h_sessions (st_hosts s) = total id (st_session_ends s)"
proof -
  have "list_all (recordable demo_codec) [[7], [9, 9]]" by (simp add: recordable_def demo_codec_def protobuf_codec_def MAX_RECORD_def)
  moreover have "dec_hdr demo_codec (enc_hdr demo_codec (arch_header demo_args 5)) = Some (arch_header demo_args 5)"
    "length (enc_hdr demo_codec (arch_header demo_args 5)) \<le> MAX_RECORD"
    by (simp_all add: demo_codec_def protobuf_codec_def MAX_RECORD_def)
  ultimately obtain s where
    s: "stats_run demo_codec [Some (archive_bytes demo_codec (arch_header demo_args 5) [[7], [9, 9]])] stats_default = Some s"
    using arch_encoding.archive_read [OF demo_codec_ok, of "arch_header demo_args 5" "[[7], [9, 9]]"] by (simp add: Let_def)
  with summary_adds_up [OF s] show ?thesis by blast
qed

end
