(* ===== verification/Archive_Report.thy ===== *)
theory Archive_Report
  imports Archive_Stats Metrics Csv "HOL-Library.Char_ord" "HOL-Library.List_Lexorder" "HOL-Library.Product_Lexorder"
begin

text \<open>
  \<^verbatim>\<open>tools/archive/src/stats.rs\<close>, \<^verbatim>\<open>report\<close>: the summary as text. A date is printed by the \<^verbatim>\<open>time\<close> crate, which is a parameter. Shares are in
  double precision and printed with one decimal, ties to even, as the standard library does. Text is made of the characters below 256.

  The lemmas show that columns line up, and that a peer chooses what lines there are.
\<close>

section \<open>Numbers\<close>

definition thousands :: "nat \<Rightarrow> string" where
  "thousands v =
     (let digits = show_dec v
      in concat (map (\<lambda>(i, c). (if 0 < i \<and> (length digits - i) mod 3 = 0 then '','' else []) @ [c]) (enumerate 0 digits)))"

definition one_decimal :: "rat \<Rightarrow> string" where
  "one_decimal v = (let k = nat (rne (v * 10)) in show_dec (k div 10) @ ''.'' @ show_dec (k mod 10))"

definition share :: "nat \<Rightarrow> nat \<Rightarrow> string" where
  "share part base =
     (if base = 0 then [] else one_decimal (f64_div (f64_of (f64_of (of_nat part) * 100)) (f64_of (of_nat base))) @ ''%'')"

definition unix_text :: "(nat \<Rightarrow> string option) \<Rightarrow> nat \<Rightarrow> string" where
  "unix_text rfc3339 ms = (case rfc3339 (ms div 1000) of Some s \<Rightarrow> s | None \<Rightarrow> show_dec ms)"

definition two_digits :: "nat \<Rightarrow> string" where
  "two_digits n = (let s = show_dec n in replicate (2 - length s) (CHR ''0'') @ s)"

definition duration_text :: "nat \<Rightarrow> string" where
  "duration_text ms =
     (let secs = ms div 1000
      in show_dec (secs div 86400) @ ''d '' @ two_digits (secs mod 86400 div 3600) @ ''h '' @ two_digits (secs mod 3600 div 60) @ ''m'')"

section \<open>Layout\<close>

definition section_head :: "string \<Rightarrow> string \<Rightarrow> string" where
  "section_head out title = (if out = [] then [] else out @ [CHR 0x0A]) @ ''== '' @ title @ [CHR 0x0A]"

definition trim_end :: "string \<Rightarrow> string" where
  "trim_end s = rev (dropWhile is_space (rev s))"

definition column_widths :: "string list list \<Rightarrow> nat list" where
  "column_widths rows =
     map (\<lambda>c. foldl max 0 (map (\<lambda>r. length (r ! c)) (filter (\<lambda>r. c < length r) rows))) [0 ..< foldl max 0 (map length rows)]"

definition pad_right :: "nat \<Rightarrow> string \<Rightarrow> string" where
  "pad_right width item = item @ replicate (width - length item) (CHR '' '')"

definition padded_cells :: "nat list \<Rightarrow> string list \<Rightarrow> string list" where
  "padded_cells widths r = map (\<lambda>(c, item). pad_right (widths ! c) item) (enumerate 0 r)"

definition table_line :: "nat list \<Rightarrow> string list \<Rightarrow> string" where
  "table_line widths r = ''  '' @ trim_end (join ''  '' (padded_cells widths r)) @ [CHR 0x0A]"

definition table_text :: "string \<Rightarrow> string list list \<Rightarrow> string" where
  "table_text out rows = out @ concat (map (table_line (column_widths rows)) rows)"

section \<open>The tables\<close>

definition leading_zeros :: "string \<Rightarrow> nat" where
  "leading_zeros hash = length (takeWhile (\<lambda>c. c = CHR ''0'') hash)"

definition by_count :: "string \<times> nat \<Rightarrow> int \<times> string" where
  "by_count p = (- int (snd p), fst p)"

definition host_user_agent :: "host \<Rightarrow> string" where
  "host_user_agent h =
     (let agents = sort_key by_count (h_user_agents h);
          out = map fst (take 2 agents)
      in join '' '' (if 2 < length agents then out @ [''...''] else out))"

definition stats_label :: "string \<Rightarrow> string \<Rightarrow> string" where
  "stats_label name pre = map ascii_lower (case strip_prefix pre name of Some rest \<Rightarrow> rest | None \<Rightarrow> name)"

definition service_name :: "nat \<Rightarrow> string" where
  "service_name b =
     (if b = 0 then ''network'' else if b = 1 then ''getutxo'' else if b = 2 then ''bloom'' else if b = 3 then ''witness''
      else if b = 4 then ''xthin'' else if b = 6 then ''compact_filters'' else if b = 10 then ''network_limited'' else if b = 11 then ''p2p_v2''
      else [])"

definition coverage_table :: "(nat \<Rightarrow> string option) \<Rightarrow> stats \<Rightarrow> string \<Rightarrow> string" where
  "coverage_table rfc3339 s out =
     (let span = (case (st_first_ms s, st_last_ms s) of
            (Some a, Some b) \<Rightarrow> unix_text rfc3339 (unat a) @ '' to '' @ unix_text rfc3339 (unat b) @ '' ('' @ duration_text (unat (b - a)) @ '')''
          | _ \<Rightarrow> ''nothing'');
          handshook = length (filter (\<lambda>(_, h). 0 < h_handshakes h) (st_hosts s));
          sessions = total h_sessions (st_hosts s);
          dropped = total unat (st_dropped s)
      in table_text (section_head out (''coverage ('' @ st_network s @ '')''))
           [[''events'', thousands (st_events s)],
            [''span'', span],
            [''observer instances'', thousands (length (st_instances s))],
            [''events dropped by the observer'', thousands dropped],
            [''hosts seen'', thousands (length (st_hosts s))],
            [''hosts that completed a handshake'', thousands handshook],
            [''sessions ended'', thousands sessions],
            [''block announcements'', thousands (st_announcements s)],
            [''distinct block hashes'', thousands (length (st_blocks s))]])"

text \<open>The rows of a count by reason, in the order of their labels, with the share of the whole.\<close>

definition reason_rows :: "('a \<Rightarrow> string) \<Rightarrow> ('a, nat) hashmap \<Rightarrow> string list list" where
  "reason_rows label m =
     (let total = total id m
      in map (\<lambda>(reason, count). [reason, thousands count, share count total]) (sort_key fst (map (\<lambda>(r, n). (label r, n)) m)))"

definition sessions_tables :: "stats \<Rightarrow> string \<Rightarrow> string" where
  "sessions_tables s out =
     (let total_ends = total id (st_session_ends s);
          silent = total h_silent (st_hosts s);
          out = table_text (section_head out ''how sessions ended'')
            (reason_rows (\<lambda>r. stats_label (disconnect_name r) ''DISCONNECT_REASON_'') (st_session_ends s)
             @ [[''(peer sent nothing)'', thousands silent, share silent total_ends]])
      in table_text (section_head out ''attempts that never reached a session'')
           (reason_rows (\<lambda>r. stats_label (failure_name r) ''FAILURE_REASON_'') (st_failures s)
            @ [[''(our fault)'', thousands (st_our_faults s), []]]))"

definition host_row :: "string \<times> host \<Rightarrow> string list" where
  "host_row p =
     (let h = snd p in
      [fst p, thousands (h_sessions h), thousands (h_silent h), thousands (h_uptime_secs h div h_sessions h), thousands (h_longest_secs h),
       thousands (h_decode_errors h), thousands (h_failed_attempts h), thousands (h_unplaced h), thousands (h_rate_limited h), host_user_agent h])"

definition hosts_tables :: "nat \<Rightarrow> stats \<Rightarrow> string \<Rightarrow> string" where
  "hosts_tables shown s out =
     (let hosts = sort_key (\<lambda>p. (- int (h_sessions (snd p)), fst p)) (st_hosts s);
          out = table_text (section_head out (''hosts by sessions (top '' @ show_dec shown @ '')''))
            ([''host'', ''sessions'', ''silent'', ''mean s'', ''longest s'', ''decode err'', ''failed'', ''unplaced'', ''rate limited'', ''user agent'']
             # map host_row (take shown hosts));
          unplaced = filter (\<lambda>p. 0 < h_unplaced (snd p)) (st_hosts s)
      in if unplaced = [] then out
         else table_text (section_head out
                (''hosts announcing blocks without a height ('' @ show_dec (length unplaced) @ '' hosts, top '' @ show_dec shown @ '')''))
              ([''host'', ''unplaced'', ''sessions'', ''user agent'']
               # map (\<lambda>p. [fst p, thousands (h_unplaced (snd p)), thousands (h_sessions (snd p)), host_user_agent (snd p)])
                   (take shown (sort_key (\<lambda>p. (- int (h_unplaced (snd p)), fst p)) unplaced))))"

definition user_agents_table :: "nat \<Rightarrow> stats \<Rightarrow> string \<Rightarrow> string" where
  "user_agents_table shown s out =
     (let agents = sort_key by_count (map (\<lambda>(ua, hosts). (ua, length hosts)) (st_hosts_by_user_agent s))
      in table_text (section_head out (''user agents by hosts (top '' @ show_dec shown @ '')''))
           ([''user agent'', ''hosts'', ''handshakes'']
            # map (\<lambda>(ua, hosts). [ua, thousands hosts,
                 thousands (case map_of (st_handshakes_by_user_agent s) ua of Some k \<Rightarrow> k | None \<Rightarrow> 0)]) (take shown agents)))"

definition zeros_of :: "(block_hash, bool) hashmap \<Rightarrow> (nat, nat \<times> nat) hashmap" where
  "zeros_of blocks =
     foldl (\<lambda>m (hash, placed). upsert (leading_zeros (hash_text hash)) (0, 0)
       (\<lambda>(a, b). if placed then (a + 1, b) else (a, b + 1)) m) [] blocks"

definition blocks_table :: "stats \<Rightarrow> string \<Rightarrow> string" where
  "blocks_table s out =
     table_text (section_head out ''distinct block hashes by leading zero hex digits'')
       ([''zeros'', ''with height'', ''without height'']
        # map (\<lambda>(z, placed, unplaced). [thousands z, thousands placed, thousands unplaced]) (sort_key fst (zeros_of (st_blocks s))))"

definition service_table :: "string \<Rightarrow> service_bits \<Rightarrow> string \<Rightarrow> string" where
  "service_table what b out =
     table_text (section_head out (what @ '' ('' @ thousands (sb_fields b) @ '' fields)''))
       ([''bit'', ''name'', ''fields'', ''share'']
        # map (\<lambda>(i, count). [thousands i, service_name i, thousands count, share count (sb_fields b)]) (sort_key fst (sb_bits b))
        @ [[''all'', ''every bit set'', thousands (sb_all_ones b), share (sb_all_ones b) (sb_fields b)]])"

definition services_tables :: "stats \<Rightarrow> string \<Rightarrow> string" where
  "services_tables s out =
     service_table ''gossiped entry service bits'' (st_gossip_services s)
       (service_table ''handshake service bits'' (st_handshake_services s) out)"

definition report :: "(nat \<Rightarrow> string option) \<Rightarrow> nat \<Rightarrow> stats \<Rightarrow> string" where
  "report rfc3339 shown s =
     services_tables s (blocks_table s (user_agents_table shown s (hosts_tables shown s (sessions_tables s (coverage_table rfc3339 s [])))))"

section \<open>Columns\<close>

lemma foldl_max_ge: "(a :: nat) \<le> foldl max a xs \<and> (\<forall>x \<in> set xs. x \<le> foldl max a xs)"
proof (induction xs arbitrary: a)
  case (Cons x xs)
  from Cons.IH [of "max a x"] show ?case by auto
qed simp

lemma column_holds:
  assumes "r \<in> set rows" "c < length r"
  shows "c < length (column_widths rows)" "length (r ! c) \<le> column_widths rows ! c"
proof -
  have "length r \<le> foldl max 0 (map length rows)" using foldl_max_ge [of 0 "map length rows"] assms(1) by auto
  then have c: "c < foldl max 0 (map length rows)" using assms(2) by simp
  then show "c < length (column_widths rows)" by (simp add: column_widths_def)
  show "length (r ! c) \<le> column_widths rows ! c"
    using c assms foldl_max_ge [of 0 "map (\<lambda>r. length (r ! c)) (filter (\<lambda>r. c < length r) rows)"] by (auto simp: column_widths_def)
qed

lemma padded_nth:
  "c < length r \<Longrightarrow> padded_cells widths r ! c = pad_right (widths ! c) (r ! c)" "length (padded_cells widths r) = length r"
  by (simp_all add: padded_cells_def nth_enumerate_eq)

lemma pad_right_length: "length item \<le> width \<Longrightarrow> length (pad_right width item) = width"
  by (simp add: pad_right_def)

lemma join_position:
  "c < length xs \<Longrightarrow> \<exists>a b. join sep xs = a @ xs ! c @ b \<and> length a = (\<Sum>i<c. length (xs ! i) + length sep)"
proof (induction sep xs arbitrary: c rule: join.induct)
  case (2 sep x)
  then show ?case by auto
next
  case (3 sep x y xs)
  show ?case
  proof (cases c)
    case 0
    then show ?thesis by auto
  next
    case (Suc d)
    then have "d < length (y # xs)" using 3(2) by simp
    from 3(1) [OF this] obtain a b where "join sep (y # xs) = a @ (y # xs) ! d @ b"
      "length a = (\<Sum>i<d. length ((y # xs) ! i) + length sep)" by blast
    then show ?thesis using Suc by (intro exI [of _ "x @ sep @ a"] exI [of _ b]) (simp add: sum.lessThan_Suc_shift del: sum.lessThan_Suc)
  qed
qed simp

text \<open>What ends in a character that is no space is not trimmed away.\<close>

lemma trim_end_keeps:
  assumes "item \<noteq> []" "\<not> is_space (last item)"
  shows "\<exists>b' c. trim_end (a @ item @ b) = a @ item @ b' \<and> b = b' @ c"
proof -
  obtain xs x where item: "item = xs @ [x]" "\<not> is_space x" using assms by (cases item rule: rev_cases) auto
  have "dropWhile is_space (rev b @ x # rev xs @ rev a) = dropWhile is_space (rev b) @ x # rev xs @ rev a"
    using item(2) by (induction "rev b" arbitrary: b) (auto simp: dropWhile_append)
  then have "trim_end (a @ item @ b) = a @ item @ rev (dropWhile is_space (rev b))" by (simp add: trim_end_def item(1))
  moreover have "b = rev (dropWhile is_space (rev b)) @ rev (takeWhile is_space (rev b))"
    by (metis rev_append rev_rev_ident takeWhile_dropWhile_id)
  ultimately show ?thesis by blast
qed

definition column_start :: "nat list \<Rightarrow> nat \<Rightarrow> nat" where
  "column_start widths c = 2 + (\<Sum>i<c. widths ! i + 2)"

lemma padded_join:
  assumes "r \<in> set rows" "c < length r"
  shows "\<exists>a b. join ''  '' (padded_cells (column_widths rows) r) = a @ r ! c @ b \<and> column_start (column_widths rows) c = 2 + length a"
proof -
  let ?ws = "column_widths rows" and ?p = "padded_cells (column_widths rows) r"
  have len: "length (?p ! i) = ?ws ! i" if "i \<le> c" for i
    using column_holds [OF assms(1), of i] that assms(2) by (simp add: padded_nth pad_right_length)
  obtain a b where "join ''  '' ?p = a @ ?p ! c @ b" "length a = (\<Sum>i<c. length (?p ! i) + 2)"
    using join_position [of c ?p "''  ''"] assms(2) by (auto simp: padded_nth)
  then show ?thesis
    by (intro exI [of _ a] exI [of _ "replicate (?ws ! c - length (r ! c)) (CHR '' '') @ b"])
      (simp add: len column_start_def, simp add: padded_nth assms(2) pad_right_def)
qed

lemma trim_end_subset: "set (trim_end s) \<subseteq> set s"
  using set_dropWhileD by (fastforce simp: trim_end_def)

lemma set_join: "set (join sep xs) \<subseteq> set sep \<union> \<Union> (set ` set xs)"
  by (induction sep xs rule: join.induct) auto

text \<open>
  The tables can be read by column: in every row of a table the text of a column starts at the same place, whatever the other
  rows hold, and ends two places before the next column; and a row is one line as long as no cell of it holds a line break.
\<close>

theorem columns_line_up:
  assumes "r \<in> set rows" "c < length r" "r ! c \<noteq> []" "\<not> is_space (last (r ! c))"
  shows "take (length (r ! c)) (drop (column_start (column_widths rows) c) (table_line (column_widths rows) r)) = r ! c
    \<and> column_start (column_widths rows) c + length (r ! c) + 2 \<le> column_start (column_widths rows) (Suc c)
    \<and> ((\<forall>item \<in> set r. newline \<notin> set item) \<longrightarrow> newline \<notin> set (butlast (table_line (column_widths rows) r)))"
proof -
  let ?ws = "column_widths rows"
  obtain a b where j: "join ''  '' (padded_cells ?ws r) = a @ r ! c @ b" "column_start ?ws c = 2 + length a"
    using padded_join [OF assms(1,2)] by blast
  obtain b' where "trim_end (join ''  '' (padded_cells ?ws r)) = a @ r ! c @ b'"
    using trim_end_keeps [OF assms(3,4)] j(1) by metis
  then have "take (length (r ! c)) (drop (column_start ?ws c) (table_line ?ws r)) = r ! c" by (simp add: table_line_def j(2))
  moreover have "column_start ?ws c + length (r ! c) + 2 \<le> column_start ?ws (Suc c)"
    using column_holds [OF assms(1,2)] by (simp add: column_start_def)
  moreover have "newline \<notin> set (butlast (table_line ?ws r))" if "\<forall>item \<in> set r. newline \<notin> set item"
  proof -
    have "newline \<notin> set x" if "x \<in> set (padded_cells ?ws r)" for x
      using that \<open>\<forall>item \<in> set r. newline \<notin> set item\<close>
      by (auto simp: padded_cells_def pad_right_def in_set_enumerate_eq)
    then have "newline \<notin> set (trim_end (join ''  '' (padded_cells ?ws r)))"
      using trim_end_subset set_join by fastforce
    then show ?thesis by (simp add: table_line_def butlast_append)
  qed
  ultimately show ?thesis by blast
qed

theorem columns_line_up_witness:
  "take 3 (drop (column_start (column_widths [[''host'', ''sessions''], [''1.2.3.4'', ''6,1'']]) 1)
     (table_line (column_widths [[''host'', ''sessions''], [''1.2.3.4'', ''6,1'']]) [''1.2.3.4'', ''6,1''])) = ''6,1''"
  using columns_line_up [of "[''1.2.3.4'', ''6,1'']" "[[''host'', ''sessions''], [''1.2.3.4'', ''6,1'']]" 1]
  by (simp add: is_space_def numeral_3_eq_3)

text \<open>A number printed with thousands separated has the digits it has.\<close>

lemma thousands_digits: "filter (\<lambda>c. c \<noteq> CHR '','') (thousands v) = show_dec v"
proof -
  have plain: "CHR '','' \<notin> set (show_dec v)" using plain_fields(1) [of v] by (auto simp: plain_field_def list_all_iff)
  have "filter (\<lambda>c. c \<noteq> CHR '','') (concat (map (\<lambda>(i, c). (if P i then '','' else []) @ [c]) (enumerate k s))) = s"
    if "CHR '','' \<notin> set s" for P and k :: nat and s
    using that by (induction s arbitrary: k) auto
  from this [OF plain] show ?thesis by (simp add: thousands_def Let_def)
qed

section \<open>Lines that peers write\<close>

lemma table_text_extends: "\<exists>z. table_text (section_head out t) rows = out @ z"
  by (simp add: table_text_def section_head_def)

lemma join_snoc: "\<exists>a. join sep (xs @ [y]) = a @ y"
proof (induction xs)
  case (Cons x xs)
  then obtain a where a: "join sep (xs @ [y]) = a @ y" by blast
  obtain z zs where "xs @ [y] = z # zs" by (cases "xs @ [y]") auto
  then have "join sep ((x # xs) @ [y]) = x @ sep @ join sep (xs @ [y])" by simp
  then show ?case by (simp add: a)
qed simp

lemma last_item_raw:
  assumes "r \<in> set rows" "r = cells @ [p @ line @ newline # q]" "line \<noteq> []" "\<not> is_space (last line)"
  shows "\<exists>a b. table_text out rows = a @ p @ line @ newline # b"
proof -
  let ?ws = "column_widths rows"
  obtain cs where cs: "padded_cells ?ws r = cs @ [pad_right (?ws ! length cells) (p @ line @ newline # q)]"
    by (simp add: padded_cells_def assms(2) enumerate_append_eq)
  obtain pad where "pad_right (?ws ! length cells) (p @ line @ newline # q) = p @ line @ newline # (q @ pad)"
    unfolding pad_right_def by simp
  then obtain a z where "join ''  '' (padded_cells ?ws r) = (a @ p) @ line @ newline # z"
    using join_snoc [of "''  ''" cs "p @ line @ newline # (q @ pad)"] cs by (metis append_assoc)
  then obtain b' c where trim: "trim_end (join ''  '' (padded_cells ?ws r)) = (a @ p) @ line @ b'" "newline # z = b' @ c"
    using trim_end_keeps [OF assms(3,4), of "a @ p" "newline # z"] by metis
  obtain b where "b' @ [newline] = newline # b" using trim(2) by (cases b') auto
  then have row: "table_line ?ws r = ''  '' @ a @ p @ line @ newline # b" using trim(1) by (simp add: table_line_def)
  obtain ls ls' where rows: "rows = ls @ r # ls'" using assms(1) by (meson split_list)
  have "concat (map f rows) = concat (map f ls) @ f r @ concat (map f ls')" for f :: "string list \<Rightarrow> string" by (simp add: rows)
  from this [of "table_line ?ws"]
  have "table_text out rows = (out @ concat (map (table_line ?ws) ls) @ ''  '' @ a) @ p @ line @ newline # (b @ concat (map (table_line ?ws) ls'))"
    by (simp add: table_text_def row)
  then show ?thesis by blast
qed

lemma later_tables_extend:
  "\<exists>z. user_agents_table shown s out = out @ z" "\<exists>z. blocks_table s out = out @ z" "\<exists>z. services_tables s out = out @ z"
proof -
  show "\<exists>z. user_agents_table shown s out = out @ z" unfolding user_agents_table_def Let_def by (rule table_text_extends)
  show "\<exists>z. blocks_table s out = out @ z" unfolding blocks_table_def by (rule table_text_extends)
  have one: "\<exists>z. service_table what b out = out @ z" for what b out unfolding service_table_def by (rule table_text_extends)
  obtain z where z: "service_table ''handshake service bits'' (st_handshake_services s) out = out @ z" using one by blast
  obtain z' where "service_table ''gossiped entry service bits'' (st_gossip_services s) (out @ z) = (out @ z) @ z'" using one by blast
  then show "\<exists>z. services_tables s out = out @ z" by (simp add: services_tables_def z)
qed

lemma report_has_hosts:
  "\<exists>z. report rfc3339 shown s = hosts_tables shown s (sessions_tables s (coverage_table rfc3339 s [])) @ z"
proof -
  let ?out = "hosts_tables shown s (sessions_tables s (coverage_table rfc3339 s []))"
  obtain z where z: "user_agents_table shown s ?out = ?out @ z" using later_tables_extend(1) by blast
  obtain z' where z': "blocks_table s (?out @ z) = (?out @ z) @ z'" using later_tables_extend(2) by blast
  obtain z'' where "services_tables s ((?out @ z) @ z') = ((?out @ z) @ z') @ z''" using later_tables_extend(3) by blast
  then show ?thesis by (simp add: report_def z z')
qed

lemma hosts_table_first:
  "\<exists>t hd_row z. hosts_tables shown s out =
     table_text (section_head out t) (hd_row # map host_row (take shown (sort_key (\<lambda>p. (- int (h_sessions (snd p)), fst p)) (st_hosts s)))) @ z"
proof (cases "filter (\<lambda>p. 0 < h_unplaced (snd p)) (st_hosts s) = []")
  case True
  show ?thesis unfolding hosts_tables_def Let_def if_P [OF True] by (rule exI, rule exI, rule exI [of _ "[]"]) simp
next
  case False
  show ?thesis unfolding hosts_tables_def Let_def if_not_P [OF False] by (rule exI, rule exI, rule table_text_extends)
qed

text \<open>The user agents of a host are those of its handshakes.\<close>

definition agents_of :: "peer_event list \<Rightarrow> string \<Rightarrow> string set" where
  "agents_of evs host = {hs_user_agent hs | e hs. e \<in> set evs \<and> pe_event e = Some (Handshake hs) \<and> host_of (pe_peer_addr e) = host}"

definition host_agents :: "stats \<Rightarrow> string \<Rightarrow> (string, nat) hashmap" where
  "host_agents s host = (case map_of (st_hosts s) host of None \<Rightarrow> [] | Some h \<Rightarrow> h_user_agents h)"

lemma host_agents_cong: "st_hosts s = st_hosts s' \<Longrightarrow> host_agents s = host_agents s'"
  by (simp add: host_agents_def fun_eq_iff)

lemma host_agents_on_host:
  assumes "\<And>h. h_user_agents (f h) = h_user_agents h"
  shows "host_agents (on_host a f s) = host_agents s"
  using assms by (auto simp: host_agents_def on_host_def upsert_def host_default_def update_conv' fun_eq_iff split: option.split)

lemma host_agents_observe:
  "host_agents (observe e s) host =
     (case pe_event e of
        Some (Handshake hs) \<Rightarrow> if host = host_of (pe_peer_addr e) then bump (hs_user_agent hs) (host_agents s host) else host_agents s host
      | _ \<Rightarrow> host_agents s host)"
proof -
  let ?s = "observe_header e s" and ?host = "host_of (pe_peer_addr e)"
  have start: "host_agents ?s = host_agents s" by (rule host_agents_cong) (simp add: observe_header_def)
  have same: "host_agents (on_host a f ?s) = host_agents s" if "\<And>h. h_user_agents (f h) = h_user_agents h" for a f
    using host_agents_on_host [OF that, of a ?s] by (simp add: start)
  have frame: "host_agents (s1\<lparr>st_session_ends := x\<rparr>) = host_agents s1" "host_agents (s1\<lparr>st_failures := y\<rparr>) = host_agents s1"
    "host_agents (s1\<lparr>st_our_faults := n\<rparr>) = host_agents s1" "host_agents (s1\<lparr>st_gossip_services := b\<rparr>) = host_agents s1"
    "host_agents (s1\<lparr>st_hosts_by_user_agent := u, st_handshakes_by_user_agent := v, st_handshake_services := b\<rparr>) = host_agents s1"
    for s1 x y n b u v by (rule host_agents_cong, simp)+
  show ?thesis
  proof (cases "pe_event e")
    case None
    then show ?thesis by (simp add: observe_def Let_def start)
  next
    case (Some ev)
    show ?thesis
    proof (cases ev)
      case (Handshake hs)
      have "host_agents (on_host ?host (\<lambda>h. h\<lparr>h_handshakes := h_handshakes h + 1, h_user_agents := bump (hs_user_agent hs) (h_user_agents h)\<rparr>) ?s) host =
          (if host = ?host then bump (hs_user_agent hs) (host_agents ?s host) else host_agents ?s host)"
        by (auto simp: host_agents_def on_host_def upsert_def host_default_def update_conv' split: option.split)
      then show ?thesis using Some Handshake by (simp add: observe_def observe_handshake_def Let_def frame start)
    next
      case (ConnectionResult r)
      then show ?thesis using Some by (cases r) (simp_all add: observe_def observe_disconnected_def Let_def frame same start)
    next
      case (BlockAnnouncement b)
      have "host_agents (on_host a f (s1\<lparr>st_announcements := n, st_blocks := m\<rparr>)) = host_agents s1"
        if "\<And>h. h_user_agents (f h) = h_user_agents h" for a f s1 n m
        using host_agents_on_host [OF that, of a "s1\<lparr>st_announcements := n, st_blocks := m\<rparr>"]
          host_agents_cong [of "s1\<lparr>st_announcements := n, st_blocks := m\<rparr>" s1] by simp
      then show ?thesis using Some BlockAnnouncement host_agents_cong [of "?s\<lparr>st_announcements := n, st_blocks := m\<rparr>" ?s for n m]
        by (simp add: observe_def observe_block_def Let_def start)
    next
      case (AddressAnnouncement a)
      then show ?thesis using Some by (simp add: observe_def observe_addresses_def Let_def frame same)
    qed (simp_all add: Some observe_def Let_def start)
  qed
qed

lemma bump_keys: "fst ` set (bump k m) = insert k (fst ` set m)"
  by (simp add: bump_def upsert_def dom_map_of_conv_image_fst [symmetric] update_conv' dom_def) auto

lemma host_agents_all:
  "fst ` set (host_agents (foldl (\<lambda>s e. observe e s) s evs) host) = fst ` set (host_agents s host) \<union> agents_of evs host
   \<and> (hm_ok (host_agents s host) \<longrightarrow> hm_ok (host_agents (foldl (\<lambda>s e. observe e s) s evs) host))"
proof (induction evs arbitrary: s)
  case (Cons e evs)
  have "agents_of (e # evs) host = agents_of [e] host \<union> agents_of evs host" by (auto simp: agents_of_def)
  moreover have "fst ` set (host_agents (observe e s) host) = fst ` set (host_agents s host) \<union> agents_of [e] host"
    by (auto simp: host_agents_observe agents_of_def bump_keys split: option.splits pevent.splits)
  moreover have "hm_ok (host_agents s host) \<Longrightarrow> hm_ok (host_agents (observe e s) host)"
    by (auto simp: host_agents_observe split: option.splits pevent.splits)
  ultimately show ?case using Cons.IH [of "observe e s"] by auto
qed (simp add: agents_of_def)

lemma join_member: "x \<in> set xs \<Longrightarrow> \<exists>p q. join sep xs = p @ x @ q"
  using join_position [of _ xs sep] by (metis in_set_conv_nth)

text \<open>A host with at most two user agents has each of them in its row.\<close>

lemma agents_in_row:
  assumes "ua \<in> fst ` set (h_user_agents h)" "hm_ok (h_user_agents h)" "card (fst ` set (h_user_agents h)) \<le> 2"
  shows "\<exists>p q cells. host_row (host, h) = cells @ [p @ ua @ q]"
proof -
  have "length (h_user_agents h) = card (fst ` set (h_user_agents h))"
    using assms(2) by (metis distinct_card hm_ok_def length_map list.set_map)
  then have "length (sort_key by_count (h_user_agents h)) \<le> 2" using assms(3) by simp
  then have "host_user_agent h = join '' '' (map fst (sort_key by_count (h_user_agents h)))" by (simp add: host_user_agent_def Let_def)
  moreover have "ua \<in> set (map fst (sort_key by_count (h_user_agents h)))" using assms(1) by simp
  ultimately show ?thesis using join_member [of ua _ "'' ''"] by (auto simp: host_row_def Let_def)
qed

text \<open>
  C29. The report of an archive prints user agents as they came, so a peer writes whole lines of it. Whenever a host is among those shown and has
  announced at most two user agents in the archive, what one of them has between two line breaks stands in the report as lines of its own, be it a
  row, a heading or a table.
\<close>

theorem peers_write_lines_of_the_report:
  assumes "e \<in> set evs" "pe_event e = Some (Handshake hs)" "hs_user_agent hs = x @ newline # forged @ newline # y"
    and "forged \<noteq> []" "\<not> is_space (last forged)"
    and "s = foldl (\<lambda>s e. observe e s) (stats_default\<lparr>st_network := network\<rparr>) evs"
    and "host_of (pe_peer_addr e) \<in> fst ` set (take shown (sort_key (\<lambda>p. (- int (h_sessions (snd p)), fst p)) (st_hosts s)))"
    and "card (agents_of evs (host_of (pe_peer_addr e))) \<le> 2"
  shows "\<exists>before after. report rfc3339 shown s = before @ newline # forged @ newline # after"
proof -
  let ?host = "host_of (pe_peer_addr e)" and ?ua = "hs_user_agent hs" and ?s0 = "stats_default\<lparr>st_network := network\<rparr>"
  let ?hosts = "sort_key (\<lambda>p. (- int (h_sessions (snd p)), fst p)) (st_hosts s)"
  obtain h where h: "(?host, h) \<in> set (take shown ?hosts)" using assms(7) by auto
  have "agree ?s0" using agree_default by (simp add: agree_def)
  then have "hm_ok (st_hosts s)"
    using observe_all [of "[]" ?s0 evs] unfolding assms(6) by (simp add: agree_def spans_def stats_default_def)
  moreover have "(?host, h) \<in> set (st_hosts s)" using in_set_takeD [OF h] by simp
  ultimately have agents: "host_agents s ?host = h_user_agents h" by (simp add: host_agents_def hm_get_iff [symmetric])
  have "host_agents ?s0 ?host = []" by (simp add: host_agents_def stats_default_def)
  with host_agents_all [of ?s0 evs ?host] have
    keys: "fst ` set (h_user_agents h) = agents_of evs ?host" "hm_ok (h_user_agents h)" by (simp_all add: agents [symmetric] assms(6) hm_ok_def)
  have "?ua \<in> agents_of evs ?host" using assms(1,2) by (auto simp: agents_of_def)
  then obtain p q cells where cells: "host_row (?host, h) = cells @ [p @ ?ua @ q]"
    using agents_in_row [of ?ua h ?host] keys assms(8) by (simp only: simp_thms) blast
  then have cells: "host_row (?host, h) = cells @ [(p @ x) @ (newline # forged) @ newline # (y @ q)]" by (simp add: assms(3))
  have row: "host_row (?host, h) \<in> set (hd_row # map host_row (take shown ?hosts))" for hd_row using h by auto
  obtain t z hd_row where first: "hosts_tables shown s (sessions_tables s (coverage_table rfc3339 s [])) =
      table_text (section_head (sessions_tables s (coverage_table rfc3339 s [])) t) (hd_row # map host_row (take shown ?hosts)) @ z"
    using hosts_table_first by blast
  obtain z' where r: "report rfc3339 shown s = hosts_tables shown s (sessions_tables s (coverage_table rfc3339 s [])) @ z'"
    using report_has_hosts by blast
  have line: "newline # forged \<noteq> []" "\<not> is_space (last (newline # forged))" using assms(4,5) by simp_all
  obtain a b where "table_text (section_head (sessions_tables s (coverage_table rfc3339 s [])) t) (hd_row # map host_row (take shown ?hosts)) =
      a @ (p @ x) @ (newline # forged) @ newline # b"
    using last_item_raw [OF row cells line] by (metis append_assoc append_Cons)
  then have "report rfc3339 shown s = (a @ p @ x) @ newline # forged @ newline # (b @ z @ z')" by (simp add: r first)
  then show ?thesis by blast
qed

definition forging_handshake :: handshake_event where
  "forging_handshake = \<lparr>hs_protocol_version = 70016, hs_services = 9, hs_start_height = 0, hs_relay = True, hs_peer_timestamp = 0, hs_addr_recv = [],
     hs_sendaddrv2 = True, hs_wtxid_relay = True, hs_user_agent = ''/Satoshi:30.0.0/'' @ newline # ''== how sessions ended'' @ newline # ''/'', hs_nonce = 1\<rparr>"

text \<open>The handshake is the first of two events of its host.\<close>

theorem peers_write_lines_of_the_report_witness:
  "\<exists>before after. report (\<lambda>_. None) 20
      (foldl (\<lambda>s e. observe e s) (stats_default\<lparr>st_network := ''signet''\<rparr>) [sample_event\<lparr>pe_event := Some (Handshake forging_handshake)\<rparr>, sample_event]) =
     before @ newline # ''== how sessions ended'' @ newline # after"
proof (rule peers_write_lines_of_the_report [where e = "sample_event\<lparr>pe_event := Some (Handshake forging_handshake)\<rparr>" and hs = forging_handshake
      and x = "''/Satoshi:30.0.0/''" and y = "''/''", OF _ _ _ _ _ refl])
  let ?e = "sample_event\<lparr>pe_event := Some (Handshake forging_handshake)\<rparr>"
  have first: "map fst (st_hosts (observe ?e s)) = map fst (AList.update (host_of (pe_peer_addr sample_event)) host_default (st_hosts s))" for s
    by (simp add: observe_def observe_header_def observe_handshake_def on_host_def upsert_def Let_def update_keys)
  have "st_hosts (observe sample_event s) = st_hosts s" for s
    by (simp add: observe_def observe_header_def Let_def) (simp add: sample_event_def)
  then have hosts: "map fst (st_hosts (foldl (\<lambda>s e. observe e s) (stats_default\<lparr>st_network := ''signet''\<rparr>) [?e, sample_event])) =
      [host_of (pe_peer_addr sample_event)]"
    by (simp add: first) (simp add: stats_default_def)
  have shown: "length m \<le> 20 \<Longrightarrow> fst ` set (take 20 (sort_key f m)) = set (map fst m)" for f :: "_ \<Rightarrow> int \<times> string" and m :: "(string \<times> host) list"
    by simp
  have len: "length (st_hosts (foldl (\<lambda>s e. observe e s) (stats_default\<lparr>st_network := ''signet''\<rparr>) [?e, sample_event])) \<le> 20"
    using arg_cong [OF hosts, of length] by simp
  show "host_of (pe_peer_addr ?e) \<in> fst ` set (take 20 (sort_key (\<lambda>p. (- int (h_sessions (snd p)), fst p))
      (st_hosts (foldl (\<lambda>s e. observe e s) (stats_default\<lparr>st_network := ''signet''\<rparr>) [?e, sample_event]))))"
    unfolding shown [OF len] hosts by simp
  have "agents_of [?e, sample_event] h \<subseteq> {hs_user_agent forging_handshake}" for h by (auto simp: agents_of_def sample_event_def)
  from card_mono [OF _ this] have "card (agents_of [?e, sample_event] h) \<le> 1" for h by simp
  then show "card (agents_of [?e, sample_event] (host_of (pe_peer_addr ?e))) \<le> 2" using one_le_numeral le_trans by blast
qed (simp_all add: forging_handshake_def is_space_def)

end
