(* ===== verification/Header_Store.thy ===== *)
theory Header_Store
  imports Header_Spec Atomic_File "HOL-Library.Product_Lexorder"
begin

text \<open>
  The persistence of the header tree (\<^verbatim>\<open>observer/src/headertree.rs\<close>): the built-in checkpoints, \<^verbatim>\<open>save\<close>, \<^verbatim>\<open>load\<close>
  and the task that saves once a minute. The encoding of a header is the \<^verbatim>\<open>bitcoin\<close> crate's, the parameters
  \<open>ser\<close> and \<open>de\<close>, with the locale \<open>header_codec\<close> for what the file format needs of it: eighty bytes that decode to
  the header. The consensus encoding satisfies it.

  The lemmas show that loading returns normally whatever the file holds, and gives a tree; that replaying a
  saved file inserts every header again without pruning any; and which header is the tip afterwards.
\<close>

section \<open>Built-in checkpoints\<close>

datatype network = Bitcoin | Signet | Testnet4 | Testnet3 | Regtest

text \<open>
  \<^verbatim>\<open>BlockHash::from_str\<close>: 64 hexadecimal digits, the bytes in the reverse of the order they are stored in.
\<close>

definition hex_value :: "char \<Rightarrow> nat option" where
  "hex_value c =
     (let n = of_char c :: nat in
      if 48 \<le> n \<and> n \<le> 57 then Some (n - 48)
      else if 97 \<le> n \<and> n \<le> 102 then Some (n - 87)
      else if 65 \<le> n \<and> n \<le> 70 then Some (n - 55)
      else None)"

fun hex_bytes :: "string \<Rightarrow> u8 list option" where
  "hex_bytes [] = Some []"
| "hex_bytes [_] = None"
| "hex_bytes (a # b # cs) =
     (case (hex_value a, hex_value b, hex_bytes cs) of
        (Some x, Some y, Some bs) \<Rightarrow> Some (of_nat (16 * x + y) # bs)
      | _ \<Rightarrow> None)"

definition be_word :: "u8 list \<Rightarrow> 256 word" where
  "be_word bs = foldl (\<lambda>w b. 256 * w + ucast b) 0 bs"

definition parse_hash :: "string \<Rightarrow> block_hash option" where
  "parse_hash s =
     (if length s \<noteq> 64 then None else map_option (\<lambda>bs. be_word (rev bs)) (hex_bytes s))"

fun builtin_entry :: "network \<Rightarrow> (nat \<times> string) option" where
  "builtin_entry Bitcoin = Some (970000, ''000000000000000000014e6a9bad5f954f266cfb3e8f63f8c2fb7967f29b5a07'')"
| "builtin_entry Signet = Some (320000, ''0000000740ae66b284da84387dcfa14d7b1385b0bad482005ba4e770ea6c4b95'')"
| "builtin_entry Testnet4 = Some (150000, ''0000000000d9877342754dea8ec1eb24631517d38e3443c370465ee53a8b7434'')"
| "builtin_entry Testnet3 = Some (5200000, ''0000000000e79b4cd86775e9455066e392952f35cf16b702e07312cd33424dd2'')"
| "builtin_entry Regtest = None"

text \<open>\<open>None\<close> is the panic of the \<^verbatim>\<open>expect\<close> on the parsed hash.\<close>

definition builtin_checkpoints :: "network \<Rightarrow> checkpoint list option" where
  "builtin_checkpoints network =
     (case builtin_entry network of
        None \<Rightarrow> Some []
      | Some (height, h) \<Rightarrow> map_option (\<lambda>h. [\<lparr>cp_height = height, cp_hash = h\<rparr>]) (parse_hash h))"

section \<open>Saving\<close>

text \<open>By height, at one height the block of the best chain first, then by hash.\<close>

definition save_key :: "tree \<Rightarrow> block_hash \<times> header_entry \<Rightarrow> nat \<times> bool \<times> block_hash" where
  "save_key t = (\<lambda>(h, e). (he_height e, h \<notin> set (best_chain t), h))"

definition save_entries :: "header_order \<Rightarrow> tree \<Rightarrow> (block_hash \<times> header_entry) list" where
  "save_entries ho t = sort_key (save_key t) (ho (headers t))"

definition save_bytes :: "(header \<Rightarrow> u8 list) \<Rightarrow> header_order \<Rightarrow> tree \<Rightarrow> u8 list" where
  "save_bytes ser ho t = concat (map (\<lambda>(_, e). ser (he_header e)) (save_entries ho t))"

text \<open>\<^verbatim>\<open>fs::write\<close> truncates or creates the file, then writes.\<close>

definition write_calls :: "string \<Rightarrow> u8 list \<Rightarrow> fs_call list" where
  "write_calls p bytes = [Create p, WriteAll p bytes]"

definition tree_save ::
  "(header \<Rightarrow> u8 list) \<Rightarrow> header_order \<Rightarrow> string \<Rightarrow> call_outcome list \<Rightarrow> tree \<Rightarrow> fs \<Rightarrow> bool \<times> tree \<times> fs list" where
  "tree_save ser ho p os t fs =
     (if \<not> dirty t then (True, t, [fs])
      else let (ok, trace) = run_calls (write_calls p (save_bytes ser ho t)) os fs
           in if ok then (True, t\<lparr>dirty := False\<rparr>, trace) else (False, t, trace))"

section \<open>Loading\<close>

datatype load_error = BadFileSize nat | BadHeader | ReadHeaderTree

definition header_chunks :: "u8 list \<Rightarrow> u8 list list" where
  "header_chunks data =
     map (\<lambda>i. take HEADER_SIZE (drop (i * HEADER_SIZE) data)) [0 ..< length data div HEADER_SIZE]"

text \<open>A header that does not decode ends the load; one the tree refuses is skipped.\<close>

fun load_chunks ::
  "header_order \<Rightarrow> chain \<Rightarrow> (u8 list \<Rightarrow> header option) \<Rightarrow> u8 list list \<Rightarrow> tree \<Rightarrow> (load_error + tree) option" where
  "load_chunks ho C de [] t = Some (Inr t)"
| "load_chunks ho C de (c # cs) t =
     (case de c of
        None \<Rightarrow> Some (Inl BadHeader)
      | Some hdr \<Rightarrow>
          (case insert_inner ho C hdr t of
             None \<Rightarrow> None
           | Some (_, t) \<Rightarrow> load_chunks ho C de cs t))"

definition tree_load ::
  "header_order \<Rightarrow> chain \<Rightarrow> (u8 list \<Rightarrow> header option) \<Rightarrow> checkpoint list \<Rightarrow> read_outcome \<Rightarrow> (load_error + tree) option" where
  "tree_load ho C de cps r =
     (case with_checkpoints ho C cps of
        None \<Rightarrow> None
      | Some t \<Rightarrow>
          (case r of
             ReadOk data \<Rightarrow>
               (if length data mod HEADER_SIZE \<noteq> 0 then Some (Inl (BadFileSize (length data)))
                else case load_chunks ho C de (header_chunks data) t of
                       None \<Rightarrow> None
                     | Some (Inl e) \<Rightarrow> Some (Inl e)
                     | Some (Inr t) \<Rightarrow>
                         map_option (\<lambda>t. Inr (t\<lparr>dirty := 0 < pruned t\<rparr>)) (rebuild_best_chain t))
           | ReadNotFound \<Rightarrow> Some (Inr t)
           | ReadFailed \<Rightarrow> Some (Inl ReadHeaderTree)))"

section \<open>The task that saves, and what happens in between\<close>

datatype store_event = StoreBatch "header list" | StoreTick "call_outcome list"

text \<open>A tick of \<^verbatim>\<open>persist_task\<close>, or the save at shutdown: an error is logged.\<close>

definition persist_tick ::
  "(header \<Rightarrow> u8 list) \<Rightarrow> header_order \<Rightarrow> string \<Rightarrow> call_outcome list \<Rightarrow> tree \<times> fs \<Rightarrow> tree \<times> fs" where
  "persist_tick ser ho p os s =
     (let (_, t, trace) = tree_save ser ho p os (fst s) (snd s) in (t, last trace))"

fun store_run ::
  "(header \<Rightarrow> u8 list) \<Rightarrow> header_order \<Rightarrow> chain \<Rightarrow> string \<Rightarrow> store_event list \<Rightarrow> tree \<times> fs \<Rightarrow> (tree \<times> fs) option" where
  "store_run ser ho C p [] s = Some s"
| "store_run ser ho C p (StoreBatch hdrs # evs) s =
     (case insert_batch ho C hdrs (fst s) of
        None \<Rightarrow> None | Some (_, _, t) \<Rightarrow> store_run ser ho C p evs (t, snd s))"
| "store_run ser ho C p (StoreTick os # evs) s = store_run ser ho C p evs (persist_tick ser ho p os s)"


section \<open>Checkpoints at startup\<close>

lemma builtin_checkpoints_parse: "\<exists>cps. builtin_checkpoints n = Some cps \<and> length cps \<le> 1"
  by (cases n) (simp_all add: builtin_checkpoints_def parse_hash_def hex_value_def)

lemma btree_insert_member: "x \<in> set (btree_insert k v m) \<Longrightarrow> x = (k, v) \<or> x \<in> set m"
  by (induction m rule: btree_insert.induct) (auto split: if_splits)

lemma merge_checkpoints_distinct: "distinct (map cp_height (merge_checkpoints a b))"
proof -
  let ?I = "\<lambda>m. btree_ok m \<and> (\<forall>(k, c) \<in> set m. k = cp_height c)"
  let ?ins = "\<lambda>m c. btree_insert (cp_height c) c m"
  have step: "?I (?ins m c)" if "?I m" for m c
    using that btree_ok_insert [of m "cp_height c" c] by (auto dest: btree_insert_member)
  have all: "?I (foldl ?ins m cs)" if "?I m" for m cs using that by (rule foldl_invariant) (rule step)
  have "?I (foldl ?ins (foldl ?ins [] a) b)" by (intro all) (simp add: btree_ok_def)
  then have m: "btree_ok (foldl ?ins (foldl ?ins [] a) b)"
    "map cp_height (merge_checkpoints a b) = map fst (foldl ?ins (foldl ?ins [] a) b)"
    by (auto simp: merge_checkpoints_def)
  then show ?thesis by (simp add: btree_ok_def strict_sorted_iff)
qed

section \<open>The file format\<close>

locale header_codec =
  fixes ser :: "header \<Rightarrow> u8 list" and de :: "u8 list \<Rightarrow> header option"
  assumes ser_length: "length (ser h) = HEADER_SIZE"
    and de_ser: "de (ser h) = Some h"
begin

lemma ser_concat_length: "length (concat (map ser hs)) = length hs * HEADER_SIZE"
  by (induction hs) (simp_all add: ser_length)

lemma ser_concat_nth:
  "i < length hs \<Longrightarrow> take HEADER_SIZE (drop (i * HEADER_SIZE) (concat (map ser hs))) = ser (hs ! i)"
proof (induction hs arbitrary: i)
  case (Cons h hs)
  then show ?case by (cases i) (simp_all add: ser_length)
qed simp

lemma chunks_of_saved: "header_chunks (concat (map ser hs)) = map ser hs"
proof -
  have "HEADER_SIZE \<noteq> 0" by (simp add: HEADER_SIZE_def)
  then show ?thesis
    by (auto simp: header_chunks_def ser_concat_length ser_concat_nth intro!: nth_equalityI)
qed

lemma decode_saved: "map de (header_chunks (concat (map ser hs))) = map Some hs"
  by (simp add: chunks_of_saved de_ser)

end

text \<open>The consensus encoding of a header: integers little-endian, hashes as they are stored.\<close>

fun le_bytes :: "nat \<Rightarrow> nat \<Rightarrow> u8 list" where
  "le_bytes 0 x = []"
| "le_bytes (Suc n) x = of_nat (x mod 256) # le_bytes n (x div 256)"

fun le_value :: "u8 list \<Rightarrow> nat" where
  "le_value [] = 0"
| "le_value (b # bs) = unat b + 256 * le_value bs"

definition consensus_encode :: "header \<Rightarrow> u8 list" where
  "consensus_encode h =
     le_bytes 4 (unat (hdr_version h)) @ rev (le_bytes 32 (unat (prev_blockhash h)))
     @ rev (le_bytes 32 (unat (merkle_root h))) @ le_bytes 4 (unat (hdr_time h))
     @ le_bytes 4 (unat (hdr_bits h)) @ le_bytes 4 (unat (hdr_nonce h))"

definition le_field :: "nat \<Rightarrow> nat \<Rightarrow> u8 list \<Rightarrow> nat" where
  "le_field i n bs = le_value (take n (drop i bs))"

definition be_field :: "nat \<Rightarrow> nat \<Rightarrow> u8 list \<Rightarrow> nat" where
  "be_field i n bs = le_value (rev (take n (drop i bs)))"

definition consensus_decode :: "u8 list \<Rightarrow> header option" where
  "consensus_decode bs =
     (if length bs = HEADER_SIZE
      then Some \<lparr>hdr_version = of_nat (le_field 0 4 bs), prev_blockhash = of_nat (be_field 4 32 bs),
                 merkle_root = of_nat (be_field 36 32 bs), hdr_time = of_nat (le_field 68 4 bs),
                 hdr_bits = of_nat (le_field 72 4 bs), hdr_nonce = of_nat (le_field 76 4 bs)\<rparr>
      else None)"

lemma length_le_bytes [simp]: "length (le_bytes n x) = n"
  by (induction n arbitrary: x) simp_all

lemma le_value_bytes: "x < 256 ^ n \<Longrightarrow> le_value (le_bytes n x) = x"
proof (induction n arbitrary: x)
  case (Suc n)
  then have "x div 256 < 256 ^ n" by (simp add: less_mult_imp_div_less mult.commute)
  with Suc.IH show ?case by (simp add: unat_of_nat)
qed simp

lemma le_value_word [simp]: "LENGTH('a::len) = 8 * n \<Longrightarrow> le_value (le_bytes n (unat (w :: 'a word))) = unat w"
  using unsigned_less [of w, where ?'a = nat] by (intro le_value_bytes) (simp add: power_mult)

interpretation consensus: header_codec consensus_encode consensus_decode
proof
  show "length (consensus_encode h) = HEADER_SIZE" for h
    by (simp add: consensus_encode_def HEADER_SIZE_def)
  show "consensus_decode (consensus_encode h) = Some h" for h
    by (simp add: consensus_decode_def consensus_encode_def HEADER_SIZE_def le_field_def be_field_def)
qed


section \<open>Loading returns normally\<close>

lemma load_chunks_total:
  assumes "hash_order ho" "tree_ok C t"
  shows "\<exists>res. load_chunks ho C de cs t = Some res \<and> (\<forall>t'. res = Inr t' \<longrightarrow> tree_ok C t')"
  using assms(2)
proof (induction cs arbitrary: t)
  case (Cons c cs)
  show ?case
  proof (cases "de c")
    case (Some hdr)
    obtain res t1 where "insert_inner ho C hdr t = Some (res, t1)" "tree_ok C t1"
      using insert_inner_ok [OF assms(1) Cons.prems, of hdr] by blast
    with Some Cons.IH [of t1] show ?thesis by simp
  qed simp
qed simp

lemma tree_ok_best_chain [simp]: "tree_ok C (t\<lparr>best_chain := b\<rparr>) = tree_ok C t"
  by (simp add: tree_ok_def tree_inv_def tip_ok_def heaviest_but_def checkpoints_obeyed_def reached_ok_def)

lemma tree_ok_dirty [simp]: "tree_ok C (t\<lparr>dirty := d\<rparr>) = tree_ok C t"
  by (simp add: tree_ok_def tree_inv_def tip_ok_def heaviest_but_def checkpoints_obeyed_def reached_ok_def)

lemma rebuild_ok:
  assumes "tree_ok C t"
  obtains b where "rebuild_best_chain t = Some (t\<lparr>best_chain := b\<rparr>)" "best_ok (t\<lparr>best_chain := b\<rparr>)"
proof -
  obtain e where "wf_headers C (headers t)" "map_of (headers t) (tip t) = Some e"
    using assms by (auto simp: tree_ok_def tree_inv_def tip_ok_def)
  from rebuild_best_chain_total [OF this] obtain ks where
    "rebuild_best_chain t = Some (t\<lparr>best_chain := rev ks\<rparr>)" "descends (headers t) ks" "hd ks = tip t" by blast
  then show ?thesis by (intro that [of "rev ks"]) (auto simp: best_ok_def last_rev)
qed

lemma tree_load_total:
  assumes "hash_order ho" "distinct (map cp_height cps)"
  shows "\<exists>res. tree_load ho C de cps r = Some res \<and> (\<forall>t. res = Inr t \<longrightarrow> tree_ok C t \<and> best_ok t)"
proof -
  obtain t0 where t0: "with_checkpoints ho C cps = Some t0" "tree_ok C t0" "best_ok t0"
    using with_checkpoints_ok [OF assms, of C] by blast
  show ?thesis
  proof (cases r)
    case (ReadOk data)
    obtain res where res: "load_chunks ho C de (header_chunks data) t0 = Some res" "\<forall>t. res = Inr t \<longrightarrow> tree_ok C t"
      using load_chunks_total [OF assms(1) t0(2), of de "header_chunks data"] by blast
    show ?thesis
    proof (cases res)
      case (Inr t)
      then obtain b where "rebuild_best_chain t = Some (t\<lparr>best_chain := b\<rparr>)" "best_ok (t\<lparr>best_chain := b\<rparr>)"
        using res(2) rebuild_ok by blast
      with Inr res ReadOk t0(1) show ?thesis by (simp add: tree_load_def best_ok_def)
    qed (use res ReadOk t0(1) in \<open>simp add: tree_load_def\<close>)
  qed (use t0 in \<open>simp_all add: tree_load_def\<close>)
qed

section \<open>What is saved\<close>

lemma save_entries_facts:
  assumes "hash_order ho" "hm_ok (headers t)"
  shows "set (save_entries ho t) = set (headers t)" "distinct (map fst (save_entries ho t))"
    "sorted (map (save_key t) (save_entries ho t))"
    "(h, e) \<in> set (save_entries ho t) \<longleftrightarrow> map_of (headers t) h = Some e"
proof -
  show s: "set (save_entries ho t) = set (headers t)" using assms(1) by (simp add: save_entries_def)
  have "mset (map fst (save_entries ho t)) = mset (map fst (headers t))"
    using assms(1) by (simp add: save_entries_def hash_order_def)
  then show "distinct (map fst (save_entries ho t))"
    using assms(2) by (metis hm_ok_def mset_eq_imp_distinct_iff)
  show "sorted (map (save_key t) (save_entries ho t))" by (simp add: save_entries_def)
  show "(h, e) \<in> set (save_entries ho t) \<longleftrightarrow> map_of (headers t) h = Some e"
    using s assms(2) by (simp add: hm_get_iff)
qed

lemma save_key_height: "save_key t x \<le> save_key t y \<Longrightarrow> he_height (snd x) \<le> he_height (snd y)"
  by (auto simp: save_key_def less_eq_prod_def split: prod.splits)

text \<open>A header is written after every lower one, its ancestors among them.\<close>

lemma save_entries_lower:
  assumes "hash_order ho" "hm_ok (headers t)" "save_entries ho t = xs @ (h, e) # ys"
  shows "\<forall>x \<in> set xs. he_height (snd x) \<le> he_height e" "h \<notin> fst ` set xs"
    "map_of (headers t) k = Some x \<Longrightarrow> he_height x < he_height e \<Longrightarrow> k \<in> fst ` set xs"
proof -
  note f = save_entries_facts [OF assms(1,2)]
  have s: "sorted_wrt (\<lambda>a b. save_key t a \<le> save_key t b) (xs @ (h, e) # ys)"
    using f(3) unfolding assms(3) by (simp only: sorted_map)
  then show "\<forall>x \<in> set xs. he_height (snd x) \<le> he_height e"
    by (auto simp: sorted_wrt_append dest!: save_key_height)
  show "h \<notin> fst ` set xs" using f(2) by (auto simp: assms(3))
  assume k: "map_of (headers t) k = Some x" "he_height x < he_height e"
  then have "(k, x) \<in> set xs \<union> {(h, e)} \<union> set ys" using f(4) [of k x] by (auto simp: assms(3))
  moreover have "(k, x) \<noteq> (h, e)" using k(2) by auto
  moreover have "(k, x) \<notin> set ys"
  proof
    assume "(k, x) \<in> set ys"
    then have "save_key t (h, e) \<le> save_key t (k, x)" using s by (auto simp: sorted_wrt_append)
    then show False using k(2) by (auto dest: save_key_height)
  qed
  ultimately show "k \<in> fst ` set xs" by force
qed


section \<open>Replaying a saved file\<close>

fun replay :: "header_order \<Rightarrow> chain \<Rightarrow> header list \<Rightarrow> tree \<Rightarrow> tree option" where
  "replay ho C [] t = Some t"
| "replay ho C (hdr # hdrs) t =
     (case insert_inner ho C hdr t of None \<Rightarrow> None | Some (_, t) \<Rightarrow> replay ho C hdrs t)"

lemma load_chunks_replay:
  "map de cs = map Some hdrs \<Longrightarrow> load_chunks ho C de cs t = map_option Inr (replay ho C hdrs t)"
proof (induction cs arbitrary: hdrs t)
  case (Cons c cs)
  then obtain hdr hdrs' where "hdrs = hdr # hdrs'" "de c = Some hdr" "map de cs = map Some hdrs'" by (cases hdrs) auto
  with Cons.IH [of hdrs'] show ?case by (auto split: option.splits)
qed simp

text \<open>A checkpoint on top of everything held, on a tree without forks, prunes nothing.\<close>

lemma prune_headers_all:
  assumes "hash_order ho" "\<forall>(h, e) \<in> set hs. he_height e \<le> n \<and> h \<in> set ks"
  shows "prune_headers ho n ks hs = hs"
proof -
  have "filter (\<lambda>(h, e). n < he_height e \<or> h \<in> set ks) hs = hs" using assms(2) by (intro filter_True) auto
  moreover have "filter (\<lambda>(_, e). n < he_height e) (ho hs) = []"
    using assms by (fastforce simp: filter_empty_conv)
  ultimately show ?thesis by (simp add: prune_headers_def drop_orphans_def)
qed

lemma note_checkpoint_keeps:
  assumes "hash_order ho" "wf_headers C (headers t)" "distinct (map cp_height (checkpoints t))"
    and h: "map_of (headers t) h = Some e" "he_height e = n"
    and top: "\<And>k x. map_of (headers t) k = Some x \<Longrightarrow> he_height x \<le> n"
    and single: "\<And>k x k' x'. \<exists>c \<in> set (checkpoints t). cp_height c = n \<and> cp_hash c = h \<Longrightarrow> map_of (headers t) k = Some x
      \<Longrightarrow> map_of (headers t) k' = Some x' \<Longrightarrow> he_height x = he_height x' \<Longrightarrow> k = k'"
  shows "\<exists>r. note_checkpoint ho h n t = Some (t\<lparr>reached_checkpoint := r\<rparr>)"
proof (cases "\<exists>c \<in> set (checkpoints t). cp_height c = n \<and> cp_hash c = h")
  case True
  then obtain c where c: "c \<in> set (checkpoints t)" "cp_height c = n" "cp_hash c = h" by blast
  obtain ks where ks: "keep_walk (headers t) h [] = Some ks" "descends (headers t) ks" "length ks = n + 1"
    using walks_descend [OF assms(2) h(1), of "[]"] h(2) by auto
  have "he_height x \<le> n \<and> k \<in> set ks" if "(k, x) \<in> set (headers t)" for k x
  proof -
    have k: "map_of (headers t) k = Some x" using that assms(2) by (simp add: wf_headers_def hm_get_iff)
    have "\<exists>y. map_of (headers t) (ks ! (n - he_height x)) = Some y \<and> he_height y = he_height x"
      using descends_height [OF ks(2), of "n - he_height x"] top [OF k] ks(3) by auto
    then have "k = ks ! (n - he_height x)" using single [OF True k] by metis
    then show ?thesis using top [OF k] ks(3) by simp
  qed
  then have "prune_headers ho n ks (headers t) = headers t" by (intro prune_headers_all [OF assms(1)]) auto
  moreover have "find (\<lambda>x. cp_height x = n) (checkpoints t) = Some c"
    using find_checkpoint [OF assms(3) c(1)] c(2) by simp
  ultimately have "prune_below_checkpoint ho (t\<lparr>reached_checkpoint := Some n\<rparr>) = Some (0, t\<lparr>reached_checkpoint := Some n\<rparr>)"
    using ks(1) c(3) by (simp add: prune_below_checkpoint_def)
  moreover have "t = t\<lparr>reached_checkpoint := reached_checkpoint t\<rparr>" by simp
  then have "\<exists>r. t = t\<lparr>reached_checkpoint := r\<rparr>" by blast
  ultimately show ?thesis by (auto simp: note_checkpoint_def)
next
  case False
  then have "note_checkpoint ho h n t = Some (t\<lparr>reached_checkpoint := reached_checkpoint t\<rparr>)"
    by (auto simp: note_checkpoint_def list_ex_iff)
  then show ?thesis by blast
qed

text \<open>The tree \<open>s\<close> after the entries \<open>xs\<close> of the tree \<open>t\<close>: these and nothing else, and the first of the heaviest as its tip.\<close>

definition replay_inv :: "chain \<Rightarrow> tree \<Rightarrow> (block_hash \<times> header_entry) list \<Rightarrow> tree \<Rightarrow> bool" where
  "replay_inv C t xs s \<longleftrightarrow>
     tree_ok C s \<and> checkpoints s = checkpoints t \<and> pruned s = 0
     \<and> map_of (headers s) = map_of (headers t) |` (fst ` set xs)
     \<and> (\<exists>e. find (\<lambda>(_, e). he_work e = tip_work s) xs = Some (tip s, e))"

lemma reached_below:
  assumes "tree_ok C s" "tree_ok C t" "checkpoints s = checkpoints t" "map_of (headers s) \<subseteq>\<^sub>m map_of (headers t)"
    "reached_checkpoint s = Some r"
  shows "\<exists>r' k x. reached_checkpoint t = Some r' \<and> r \<le> r' \<and> map_of (headers s) k = Some x \<and> he_height x = r"
proof -
  obtain c x where c: "c \<in> set (checkpoints s)" "cp_height c = r" "map_of (headers s) (cp_hash c) = Some x" "he_height x = r"
    using reached_ok_block [of "{}" s r] assms(1,5) by (auto simp: tree_ok_def tree_inv_def)
  then obtain r' where "reached_checkpoint t = Some r'" "r \<le> r'"
    using reached_ok_held [of "{}" t c x] map_le_get [OF assms(4)] assms(2,3) by (auto simp: tree_ok_def tree_inv_def)
  with c show ?thesis by blast
qed

lemma replay_validates:
  assumes "tree_ok C t" "replay_inv C t xs s" "map_of (headers t) h = Some e" "h \<notin> fst ` set xs" "he_height e \<noteq> 0"
    and p: "map_of (headers t) (prev_blockhash (he_header e)) = Some p" "he_height e = he_height p + 1"
    and lower: "\<And>k x. map_of (headers t) k = Some x \<Longrightarrow> he_height x < he_height e \<Longrightarrow> k \<in> fst ` set xs"
    and low: "\<And>k x. map_of (headers s) k = Some x \<Longrightarrow> he_height x \<le> he_height e"
  shows "validate_header C s (he_header e) (he_height p + 1) p = Inr ()"
    "map_of (headers s) (prev_blockhash (he_header e)) = Some p"
proof -
  have sub: "map_of (headers s) \<subseteq>\<^sub>m map_of (headers t)" using assms(2) by (auto simp: replay_inv_def map_le_def)
  have ok: "tree_ok C s" "checkpoints s = checkpoints t" using assms(2) by (simp_all add: replay_inv_def)
  have inv: "tree_inv {} {} C t" using assms(1) by (simp add: tree_ok_def)
  have h: "h = c_hash C (he_header e)" using inv assms(3) by (auto simp: tree_inv_def wf_headers_def wf_entry_def)
  have v: "valid_entry C (headers t) e" using inv assms(3) by (auto simp: tree_inv_def valid_headers_def)
  show ps: "map_of (headers s) (prev_blockhash (he_header e)) = Some p"
    using lower [OF p(1)] p assms(2) by (simp add: replay_inv_def restrict_map_def)
  have "cp_hash c = h" if "find (\<lambda>c. cp_height c = he_height e) (checkpoints s) = Some c" for c
    using that inv assms(3,5) ok(2) unfolding tree_inv_def checkpoints_obeyed_def by (auto simp: find_Some_iff)
  moreover have "r < he_height e" if r: "reached_checkpoint s = Some r" for r
  proof (rule ccontr)
    assume "\<not> r < he_height e"
    obtain r' k x where x: "reached_checkpoint t = Some r'" "r \<le> r'" "map_of (headers s) k = Some x" "he_height x = r"
      using reached_below [OF ok(1) assms(1) ok(2) sub r] by blast
    have "he_height e = he_height x" "he_height e \<le> r'" using low [OF x(3)] x(2,4) \<open>\<not> r < he_height e\<close> by auto
    then have "h = k"
      using reached_ok_unique [of "{}" t r' h e k x] inv x(1) assms(3) map_le_get [OF sub x(3)] by (simp add: tree_inv_def)
    then show False using x(3) assms(2,4) by (auto simp: replay_inv_def restrict_map_def split: if_splits)
  qed
  moreover obtain bits where b: "expected_bits C (headers s) (he_header e) (he_height e) p = Some bits"
    using expected_bits_total [OF _ ps p(2)] ok(1) by (auto simp: tree_ok_def tree_inv_def)
  moreover have "c_pow_ok C bits (he_header e)" "c_target C (he_header e) \<le> c_max_target C"
    using v assms(5) p(1) expected_bits_mono [OF sub b] by (auto simp: valid_entry_def)
  ultimately have "validate_header C s (he_header e) (he_height e) p = Inr ()"
    by (auto simp: validate_header_def h not_le split: option.splits)
  then show "validate_header C s (he_header e) (he_height p + 1) p = Inr ()" unfolding p(2) .
qed


lemma find_append: "find P (xs @ ys) = (case find P xs of None \<Rightarrow> find P ys | Some x \<Rightarrow> Some x)"
  by (induction xs) auto

lemma insert_inner_eq:
  assumes "map_of (headers t) (c_hash C hdr) = None" "map_of (headers t) (prev_blockhash hdr) = Some p"
    "validate_header C t hdr (he_height p + 1) p = Inr ()"
    "note_checkpoint ho (c_hash C hdr) (he_height p + 1) (attached C hdr p t) = Some t1"
  shows "insert_inner ho C hdr t =
    Some (Inr True, weighed (c_hash C hdr) (he_height p + 1) (he_work p + c_work C hdr) t1)"
  using assms by (simp add: insert_inner_def Let_def contains_key_def attached_def weighed_def)

text \<open>The next header of the file goes in as it was, prunes nothing, and is the tip if it is the heaviest so far.\<close>

lemma replay_step:
  assumes "hash_order ho" "tree_ok C t" "replay_inv C t xs s" "map_of (headers t) h = Some e" "h \<notin> fst ` set xs" "he_height e \<noteq> 0"
    and xs: "\<And>k x. (k, x) \<in> set xs \<Longrightarrow> map_of (headers t) k = Some x \<and> he_height x \<le> he_height e"
    and lower: "\<And>k x. map_of (headers t) k = Some x \<Longrightarrow> he_height x < he_height e \<Longrightarrow> k \<in> fst ` set xs"
  shows "\<exists>s'. insert_inner ho C (he_header e) s = Some (Inr True, s') \<and> replay_inv C t (xs @ [(h, e)]) s'"
proof -
  have inv: "tree_inv {} {} C t" and wf: "wf_headers C (headers t)" using assms(2) by (auto simp: tree_ok_def tree_inv_def)
  have s: "tree_ok C s" "checkpoints s = checkpoints t" "map_of (headers s) = map_of (headers t) |` (fst ` set xs)"
    using assms(3) by (simp_all add: replay_inv_def)
  have low: "he_height x \<le> he_height e" if "map_of (headers s) k = Some x" for k x
    using that xs by (auto simp: s(3) restrict_map_def split: if_splits)
  obtain p where p: "map_of (headers t) (prev_blockhash (he_header e)) = Some p" "he_height e = he_height p + 1"
    "he_work e = he_work p + c_work C (he_header e)" by (rule wf_headers_parent [OF wf assms(4,6)])
  have h: "c_hash C (he_header e) = h" using wf assms(4) by (auto simp: wf_headers_def wf_entry_def)
  have e: "\<lparr>he_header = he_header e, he_height = Suc (he_height p), he_work = he_work p + c_work C (he_header e)\<rparr> = e"
    using p by simp
  have new: "map_of (headers s) (c_hash C (he_header e)) = None" using assms(5) by (simp add: s(3) h)
  have v: "validate_header C s (he_header e) (he_height p + 1) p = Inr ()"
    "map_of (headers s) (prev_blockhash (he_header e)) = Some p"
    using replay_validates [OF assms(2-6) p(1,2)] lower low by blast+
  let ?a = "attached C (he_header e) p s"
  have get: "map_of (headers ?a) = map_of (headers t) |` (fst ` set (xs @ [(h, e)]))"
    using assms(4) by (auto simp: attached_get s(3) h e restrict_map_def fun_eq_iff)
  have sub: "map_of (headers ?a) \<subseteq>\<^sub>m map_of (headers t)" by (auto simp: get map_le_def)
  note a = attached_inv [OF s(1) new v(2,1)]
  have "\<exists>r. note_checkpoint ho h (he_height e) ?a = Some (?a\<lparr>reached_checkpoint := r\<rparr>)"
  proof (rule note_checkpoint_keeps [OF assms(1)])
    show "wf_headers C (headers ?a)" "distinct (map cp_height (checkpoints ?a))" using a(1) by (simp_all add: tree_inv_def)
    show he: "map_of (headers ?a) h = Some e" using assms(4) by (simp add: get)
    show top: "he_height x \<le> he_height e" if "map_of (headers ?a) k = Some x" for k x
      using that low assms(4) by (auto simp: attached_get h e split: if_splits)
    show "k = k'" if cp: "\<exists>c \<in> set (checkpoints ?a). cp_height c = he_height e \<and> cp_hash c = h"
      and k: "map_of (headers ?a) k = Some x" "map_of (headers ?a) k' = Some x'" "he_height x = he_height x'" for k x k' x'
    proof -
      obtain c where c: "c \<in> set (checkpoints t)" "cp_height c = he_height e" "cp_hash c = h"
        using cp s(2) by auto
      then obtain r where r: "reached_checkpoint t = Some r" "he_height e \<le> r"
        using reached_ok_held [of "{}" t c e] assms(4) inv by (auto simp: tree_inv_def)
      show ?thesis
        using reached_ok_unique [of "{}" t r k x k' x'] inv r map_le_get [OF sub k(1)] map_le_get [OF sub k(2)] k(3) top [OF k(1)] by (simp add: tree_inv_def)
    qed
  qed simp
  then obtain r where r: "note_checkpoint ho h (he_height e) ?a = Some (?a\<lparr>reached_checkpoint := r\<rparr>)" by blast
  let ?s = "weighed h (he_height e) (he_work e) (?a\<lparr>reached_checkpoint := r\<rparr>)"
  have ins: "insert_inner ho C (he_header e) s = Some (Inr True, ?s)"
    using insert_inner_eq [OF new v(2,1)] r by (simp add: h p(2,3))
  have "tree_ok C ?s" using insert_inner_accepts [OF assms(1) s(1) new v(2,1)] ins by simp
  moreover have "pruned ?s = 0" using assms(3) by (simp add: weighed_def attached_def replay_inv_def)
  moreover have "\<exists>y. find (\<lambda>(_, e). he_work e = tip_work ?s) (xs @ [(h, e)]) = Some (tip ?s, y)"
  proof (cases "tip_work s < he_work e")
    case True
    have "he_work x < he_work e" if "(k, x) \<in> set xs" for k x
    proof -
      have "map_of (headers s) k = Some x" using xs [OF that] that by (force simp: s(3) restrict_map_def)
      then show ?thesis using s(1) True unfolding tree_ok_def tree_inv_def heaviest_but_def by (meson empty_iff le_less_trans)
    qed
    then have "find (\<lambda>(_, x). he_work x = he_work e) xs = None" by (fastforce simp: find_None_iff)
    then show ?thesis using True by (simp add: weighed_def find_append)
  next
    case False
    then show ?thesis using assms(3) by (auto simp: weighed_def find_append replay_inv_def)
  qed
  ultimately have "replay_inv C t (xs @ [(h, e)]) ?s" using get s(2) by (simp add: replay_inv_def)
  with ins show ?thesis by blast
qed


lemma height_zero_genesis:
  "wf_headers C hs \<Longrightarrow> map_of hs h = Some e \<Longrightarrow> he_height e = 0 \<Longrightarrow> h = c_hash C (c_genesis C)"
  by (auto simp: wf_headers_def wf_entry_def)

lemma replay_from:
  assumes "hash_order ho" "hash_order ho'" "tree_ok C t"
  shows "save_entries ho t = xs @ ys \<Longrightarrow> c_hash C (c_genesis C) \<in> fst ` set xs \<Longrightarrow> replay_inv C t xs s \<Longrightarrow>
    \<exists>s'. replay ho' C (map (\<lambda>(_, e). he_header e) ys) s = Some s' \<and> replay_inv C t (xs @ ys) s'"
proof (induction ys arbitrary: xs s)
  case (Cons y ys)
  obtain h e where y: "y = (h, e)" by (cases y)
  have wf: "wf_headers C (headers t)" and ok: "hm_ok (headers t)" using assms(3) by (auto simp: tree_ok_def tree_inv_def wf_headers_def)
  note f = save_entries_facts(4) [OF assms(1) ok]
  note l = save_entries_lower [OF assms(1) ok Cons.prems(1) [unfolded y]]
  have h: "map_of (headers t) h = Some e" using f [of h e] by (simp add: Cons.prems(1) y)
  have "he_height e \<noteq> 0" using height_zero_genesis [OF wf h] l(2) Cons.prems(2) by metis
  moreover have "map_of (headers t) k = Some x \<and> he_height x \<le> he_height e" if "(k, x) \<in> set xs" for k x
    using that f [of k x] l(1) by (auto simp: Cons.prems(1))
  ultimately obtain s1 where s1: "insert_inner ho' C (he_header e) s = Some (Inr True, s1)" "replay_inv C t (xs @ [y]) s1"
    using replay_step [OF assms(2,3) Cons.prems(3) h l(2)] l(3) unfolding y by blast
  have "\<exists>s'. replay ho' C (map (\<lambda>(_, e). he_header e) ys) s1 = Some s' \<and> replay_inv C t ((xs @ [y]) @ ys) s'"
    using Cons.prems s1(2) by (intro Cons.IH) auto
  then show ?case using s1(1) by (simp add: y)
qed simp

lemma save_entries_genesis:
  assumes "hash_order ho" "tree_ok C t"
  obtains ys where "save_entries ho t =
    (c_hash C (c_genesis C), \<lparr>he_header = c_genesis C, he_height = 0, he_work = c_work C (c_genesis C)\<rparr>) # ys"
proof -
  let ?g = "c_hash C (c_genesis C)" and ?e = "\<lparr>he_header = c_genesis C, he_height = 0, he_work = c_work C (c_genesis C)\<rparr>"
  have wf: "wf_headers C (headers t)" and ok: "hm_ok (headers t)" using assms(2) by (auto simp: tree_ok_def tree_inv_def wf_headers_def)
  note f = save_entries_facts(4) [OF assms(1) ok]
  have "(?g, ?e) \<in> set (save_entries ho t)" using f [of ?g ?e] wf by (simp add: wf_headers_def)
  then obtain xs ys where xy: "save_entries ho t = xs @ (?g, ?e) # ys" by (meson split_list)
  note l = save_entries_lower [OF assms(1) ok xy]
  have "xs = []"
  proof (cases xs)
    case (Cons x xs')
    obtain k z where x: "x = (k, z)" by (cases x)
    have "map_of (headers t) k = Some z" using f [of k z] by (simp add: xy Cons x)
    moreover have "he_height z = 0" using l(1) by (simp add: Cons x)
    ultimately have "k = ?g" by (rule height_zero_genesis [OF wf])
    then show ?thesis using l(2) by (simp add: Cons x)
  qed
  with xy that show ?thesis by simp
qed

lemma replay_start:
  assumes "hash_order ho" "tree_ok C t" "checkpoints t = sort_key cp_height cps"
  obtains s where "with_checkpoints ho C cps = Some s"
    "replay_inv C t [(c_hash C (c_genesis C), \<lparr>he_header = c_genesis C, he_height = 0, he_work = c_work C (c_genesis C)\<rparr>)] s"
    "insert_inner ho C (c_genesis C) s = Some (Inr False, s)"
proof -
  let ?g = "c_hash C (c_genesis C)" and ?e = "\<lparr>he_header = c_genesis C, he_height = 0, he_work = c_work C (c_genesis C)\<rparr>"
  let ?t = "(tree_new C)\<lparr>checkpoints := sort_key cp_height cps\<rparr>"
  have t: "headers (tree_new C) = [(?g, ?e)]" "tip (tree_new C) = ?g" "tip_work (tree_new C) = c_work C (c_genesis C)"
    "pruned (tree_new C) = 0"
    by (simp_all add: tree_new_def Let_def)
  have "distinct (map cp_height (sort_key cp_height cps))"
    using assms(2,3) by (simp add: tree_ok_def tree_inv_def)
  then have d: "distinct (map cp_height cps)" by (metis mset_map mset_sort mset_eq_imp_distinct_iff)
  have "\<exists>r. note_checkpoint ho ?g 0 ?t = Some (?t\<lparr>reached_checkpoint := r\<rparr>)"
    using wf_headers_new [of C] \<open>distinct (map cp_height (sort_key cp_height cps))\<close>
    by (intro note_checkpoint_keeps [OF assms(1), where C = C and e = ?e]) (auto simp: t split: if_splits)
  then obtain r where r: "with_checkpoints ho C cps = Some (?t\<lparr>reached_checkpoint := r\<rparr>)" (is "_ = Some ?s")
    by (auto simp: with_checkpoints_def t)
  have g: "map_of (headers t) ?g = Some ?e" using assms(2) by (simp add: tree_ok_def tree_inv_def wf_headers_def)
  have "tree_ok C ?s" using with_checkpoints_ok [OF assms(1) d, of C] r by simp
  then have "replay_inv C t [(?g, ?e)] ?s"
    using g by (auto simp: replay_inv_def t assms(3) restrict_map_def fun_eq_iff)
  moreover have "insert_inner ho C (c_genesis C) ?s = Some (Inr False, ?s)"
    by (rule insert_inner_known) (simp add: t contains_key_def)
  ultimately show ?thesis using that r by blast
qed

lemma replay_saved:
  assumes "hash_order ho" "hash_order ho'" "tree_ok C t" "checkpoints t = sort_key cp_height cps"
  obtains s s' where "with_checkpoints ho' C cps = Some s"
    "replay ho' C (map (\<lambda>(_, e). he_header e) (save_entries ho t)) s = Some s'" "replay_inv C t (save_entries ho t) s'"
proof -
  obtain ys where ys: "save_entries ho t =
      [(c_hash C (c_genesis C), \<lparr>he_header = c_genesis C, he_height = 0, he_work = c_work C (c_genesis C)\<rparr>)] @ ys"
    using save_entries_genesis [OF assms(1,3)] by auto
  obtain s where s: "with_checkpoints ho' C cps = Some s" "insert_inner ho' C (c_genesis C) s = Some (Inr False, s)"
    "replay_inv C t [(c_hash C (c_genesis C), \<lparr>he_header = c_genesis C, he_height = 0, he_work = c_work C (c_genesis C)\<rparr>)] s"
    using replay_start [OF assms(2-4)] by blast
  from replay_from [OF assms(1-3) ys _ s(3)] obtain s' where
    "replay ho' C (map (\<lambda>(_, e). he_header e) ys) s = Some s'" "replay_inv C t (save_entries ho t) s'" by (auto simp: ys)
  with s(1,2) that show ?thesis by (simp add: ys)
qed


section \<open>The tree that comes back\<close>

text \<open>The same headers with the same checkpoints give the same work at the tip and the same checkpoint reached.\<close>

lemma same_headers_same_reach:
  assumes "tree_ok C s" "tree_ok C t" "checkpoints s = checkpoints t" "map_of (headers s) = map_of (headers t)"
  shows "reached_checkpoint s = reached_checkpoint t" "tip_work s = tip_work t"
proof -
  have "\<exists>r'. reached_checkpoint t = Some r' \<and> r \<le> r'" if "reached_checkpoint s = Some r" for r
    using reached_below [OF assms(1,2,3) _ that] assms(4) by auto
  moreover have "\<exists>r'. reached_checkpoint s = Some r' \<and> r \<le> r'" if "reached_checkpoint t = Some r" for r
    using reached_below [OF assms(2,1) _ _ that] assms(3,4) by auto
  ultimately show "reached_checkpoint s = reached_checkpoint t"
    by (metis le_antisym not_None_eq option.inject)
  show "tip_work s = tip_work t"
    using assms(1,2,4) unfolding tree_ok_def tree_inv_def tip_ok_def heaviest_but_def by (metis empty_iff le_antisym)
qed

lemma best_chain_member:
  assumes "tree_ok C t" "best_ok t" "h \<in> set (best_chain t)" "map_of (headers t) h = Some e" "he_height e = tip_height t"
  shows "h = tip t"
proof -
  obtain i where i: "i < length (best_chain t)" "h = best_chain t ! i" using assms(3) by (auto simp: in_set_conv_nth)
  then have "i = tip_height t" using best_chain_facts(2) [OF assms(1,2) i(1)] assms(4,5) by auto
  then show ?thesis
    using i best_chain_facts(1) [OF assms(1,2)] assms(2) last_conv_nth [of "best_chain t"]
    by (cases "best_chain t = []") (auto simp: best_ok_def)
qed

lemma tip_on_best_chain: "best_ok t \<Longrightarrow> tip t \<in> set (best_chain t)"
  by (auto simp: best_ok_def) (metis descends.simps(1) last_in_set rev.simps(1))

text \<open>The first of the heaviest entries written is the tip exactly if no other is lower.\<close>

lemma first_heaviest_is_tip:
  assumes "hash_order ho" "tree_ok C t" "best_ok t"
    and found: "find (\<lambda>(_, e). he_work e = tip_work t) (save_entries ho t) = Some (k, x)"
  shows "k = tip t \<longleftrightarrow> (\<forall>h e. map_of (headers t) h = Some e \<longrightarrow> he_work e = tip_work t \<longrightarrow> tip_height t \<le> he_height e)"
proof -
  let ?L = "save_entries ho t"
  have ok: "hm_ok (headers t)" using assms(2) by (simp add: tree_ok_def tree_inv_def wf_headers_def)
  note f = save_entries_facts [OF assms(1) ok]
  obtain i where i: "i < length ?L" "?L ! i = (k, x)" "\<And>j. j < i \<Longrightarrow> he_work (snd (?L ! j)) \<noteq> tip_work t"
    using found by (auto simp: find_Some_iff split_beta)
  have first: "save_key t (k, x) \<le> save_key t (h, e)" if "map_of (headers t) h = Some e" "he_work e = tip_work t" for h e
  proof -
    have "(h, e) \<in> set ?L" using f(4) [of h e] that(1) by simp
    then obtain j where j: "j < length ?L" "?L ! j = (h, e)" by (auto simp: in_set_conv_nth)
    then have "\<not> j < i" using i(3) [of j] that(2) by auto
    then show ?thesis using sorted_nth_mono [OF f(3), of i j] i(1,2) j by simp
  qed
  have kx: "map_of (headers t) k = Some x" "he_work x = tip_work t"
    using f(4) [of k x] nth_mem [OF i(1)] i(2) found by (auto simp: find_Some_iff)
  obtain e where e: "map_of (headers t) (tip t) = Some e" "he_height e = tip_height t" "he_work e = tip_work t"
    using assms(2) by (auto simp: tree_ok_def tree_inv_def tip_ok_def)
  show ?thesis
  proof
    assume "k = tip t"
    then have "he_height x = tip_height t" using kx(1) e by simp
    then show "\<forall>h e. map_of (headers t) h = Some e \<longrightarrow> he_work e = tip_work t \<longrightarrow> tip_height t \<le> he_height e"
      using first save_key_height by fastforce
  next
    assume "\<forall>h e. map_of (headers t) h = Some e \<longrightarrow> he_work e = tip_work t \<longrightarrow> tip_height t \<le> he_height e"
    then have "tip_height t \<le> he_height x" using kx by blast
    moreover have le: "save_key t (k, x) \<le> save_key t (tip t, e)" using first e by blast
    ultimately have "he_height x = tip_height t" using save_key_height [OF le] e(2) by simp
    moreover from this have "k \<in> set (best_chain t)"
      using le e(2) tip_on_best_chain [OF assms(3)] by (auto simp: save_key_def less_eq_prod_def less_le)
    ultimately show "k = tip t" using best_chain_member [OF assms(2,3)] kx(1) by blast
  qed
qed

lemma save_bytes_eq: "save_bytes ser ho t = concat (map ser (map (\<lambda>(_, e). he_header e) (save_entries ho t)))"
  by (simp add: save_bytes_def case_prod_beta' comp_def)

context header_codec
begin

lemma load_saved:
  assumes "hash_order ho" "hash_order ho'" "tree_ok C t" "checkpoints t = sort_key cp_height cps"
  obtains s where "tree_load ho' C de cps (ReadOk (save_bytes ser ho t)) = Some (Inr s)" "tree_ok C s" "best_ok s"
    "map_of (headers s) = map_of (headers t)" "\<not> dirty s" "pruned s = 0" "checkpoints s = checkpoints t"
    "\<exists>x. find (\<lambda>(_, e). he_work e = tip_work t) (save_entries ho t) = Some (tip s, x)"
proof -
  obtain s0 s1 where s: "with_checkpoints ho' C cps = Some s0"
    "replay ho' C (map (\<lambda>(_, e). he_header e) (save_entries ho t)) s0 = Some s1" "replay_inv C t (save_entries ho t) s1"
    by (rule replay_saved [OF assms])
  have ok1: "tree_ok C s1" "checkpoints s1 = checkpoints t" "pruned s1 = 0" using s(3) by (simp_all add: replay_inv_def)
  obtain b where b: "rebuild_best_chain s1 = Some (s1\<lparr>best_chain := b\<rparr>)" "best_ok (s1\<lparr>best_chain := b\<rparr>)"
    by (rule rebuild_ok [OF ok1(1)])
  have "hm_ok (headers t)" using assms(3) by (simp add: tree_ok_def tree_inv_def wf_headers_def)
  then have "fst ` set (save_entries ho t) = dom (map_of (headers t))"
    using save_entries_facts(1) [OF assms(1)] by (simp add: dom_map_of_conv_image_fst)
  then have same: "map_of (headers s1) = map_of (headers t)" using s(3) by (simp add: replay_inv_def restrict_map_def fun_eq_iff domIff)
  note w = same_headers_same_reach(2) [OF ok1(1) assms(3) ok1(2) same]
  have "length (save_bytes ser ho t) mod HEADER_SIZE = 0" by (simp only: save_bytes_eq ser_concat_length mod_mult_self2_is_0)
  moreover have "load_chunks ho' C de (header_chunks (save_bytes ser ho t)) s0 = Some (Inr s1)"
    using load_chunks_replay [OF decode_saved] s(2) by (simp only: save_bytes_eq) simp
  ultimately have "tree_load ho' C de cps (ReadOk (save_bytes ser ho t)) = Some (Inr (s1\<lparr>best_chain := b, dirty := False\<rparr>))"
    using s(1) b(1) ok1(3) by (simp add: tree_load_def)
  then show ?thesis
    using b(2) ok1 same s(3) w by (intro that [of "s1\<lparr>best_chain := b, dirty := False\<rparr>"]) (auto simp: best_ok_def replay_inv_def)
qed

end

end
