(* ===== verification/Settings.thy ===== *)
theory Settings
  imports Manager Header_Store Addr_Text Handshake Emit
begin

text \<open>
  \<^verbatim>\<open>observer/src/settings.rs\<close>: the configuration, its defaults, and what the observer derives from it. Reading YAML is the \<^verbatim>\<open>config\<close> crate's; a
  document here is what it holds for each field, \<open>None\<close> for a field that is not there. Values of the wrong type end the start and are left out.
\<close>

section \<open>The configuration\<close>

record log_levels =
  ll_main :: string
  ll_connection :: string
  ll_protocol :: string
  ll_publisher :: string
  ll_rpc :: string
  ll_headertree :: string
  ll_addrman :: string

record tor_config =
  tor_enabled :: bool
  tor_proxy_addr :: string

record networks_config =
  nc_ipv4 :: bool
  nc_ipv6 :: bool
  nc_tor :: tor_config
  nc_cjdns :: bool
  nc_i2p :: bool

record addrman_config =
  amc_capacity :: nat
  amc_max_dialing :: nat

record settings =
  se_network :: string
  se_datadir :: string
  se_log_levels :: log_levels
  se_connections_per_second :: u64
  se_ping_interval_secs :: u64
  se_probe_compact_blocks :: bool
  se_user_agent :: string
  se_bootstrap_addrs :: "string list"
  se_nats_url :: string
  se_networks :: networks_config
  se_addrman :: addrman_config
  se_checkpoints :: "(u32 \<times> string) list"

section \<open>Defaults\<close>

definition default_network :: string where "default_network = ''signet''"
definition default_datadir :: string where "default_datadir = ''./data''"
definition default_connections_per_second :: u64 where "default_connections_per_second = 10"
definition default_ping_interval_secs :: u64 where "default_ping_interval_secs = 120"
definition default_user_agent :: string where "default_user_agent = ''/p2p-observer:0.1.0/''"
definition default_nats_url :: string where "default_nats_url = ''nats://localhost:4222''"
definition default_tor_proxy :: string where "default_tor_proxy = ''127.0.0.1:9050''"
definition default_addr_capacity :: nat where "default_addr_capacity = DEFAULT_CAPACITY"
definition default_max_dialing :: nat where "default_max_dialing = 200"

definition log_levels_default :: log_levels where
  "log_levels_default = \<lparr>ll_main = ''debug'', ll_connection = ''info'', ll_protocol = ''debug'', ll_publisher = ''warn'',
     ll_rpc = ''info'', ll_headertree = ''info'', ll_addrman = ''info''\<rparr>"

definition tor_config_default :: tor_config where
  "tor_config_default = \<lparr>tor_enabled = False, tor_proxy_addr = default_tor_proxy\<rparr>"

definition networks_config_default :: networks_config where
  "networks_config_default = \<lparr>nc_ipv4 = True, nc_ipv6 = False, nc_tor = tor_config_default, nc_cjdns = False, nc_i2p = False\<rparr>"

definition addrman_config_default :: addrman_config where
  "addrman_config_default = \<lparr>amc_capacity = default_addr_capacity, amc_max_dialing = default_max_dialing\<rparr>"

definition settings_default :: settings where
  "settings_default =
     \<lparr>se_network = default_network, se_datadir = default_datadir, se_log_levels = log_levels_default,
      se_connections_per_second = default_connections_per_second, se_ping_interval_secs = default_ping_interval_secs,
      se_probe_compact_blocks = False, se_user_agent = default_user_agent, se_bootstrap_addrs = [], se_nats_url = default_nats_url,
      se_networks = networks_config_default, se_addrman = addrman_config_default, se_checkpoints = []\<rparr>"

definition to_filter_string :: "log_levels \<Rightarrow> string" where
  "to_filter_string l =
     ''main='' @ ll_main l @ '',connection='' @ ll_connection l @ '',protocol='' @ ll_protocol l @ '',publisher='' @ ll_publisher l
     @ '',rpc='' @ ll_rpc l @ '',headertree='' @ ll_headertree l @ '',addrman='' @ ll_addrman l"

section \<open>Reading a document\<close>

record network_doc =
  nd_enabled :: "bool option"
  nd_proxy_addr :: "string option"

record networks_doc =
  nsd_ipv4 :: "network_doc option"
  nsd_ipv6 :: "network_doc option"
  nsd_tor :: "network_doc option"
  nsd_cjdns :: "network_doc option"
  nsd_i2p :: "network_doc option"

record addrman_doc =
  amd_capacity :: "nat option"
  amd_max_dialing :: "nat option"

record levels_doc =
  ld_main :: "string option"
  ld_connection :: "string option"
  ld_protocol :: "string option"
  ld_publisher :: "string option"
  ld_rpc :: "string option"
  ld_headertree :: "string option"
  ld_addrman :: "string option"

record settings_doc =
  sd_network :: "string option"
  sd_datadir :: "string option"
  sd_log_levels :: "levels_doc option"
  sd_connections_per_second :: "u64 option"
  sd_ping_interval_secs :: "u64 option"
  sd_probe_compact_blocks :: "bool option"
  sd_user_agent :: "string option"
  sd_bootstrap_addrs :: "string list option"
  sd_nats_url :: "string option"
  sd_networks :: "networks_doc option"
  sd_addrman :: "addrman_doc option"
  sd_checkpoints :: "(u32 \<times> string) list option"

definition or_default :: "'a \<Rightarrow> 'a option \<Rightarrow> 'a" where
  "or_default d x = (case x of None \<Rightarrow> d | Some y \<Rightarrow> y)"

text \<open>A network that is there without \<^verbatim>\<open>enabled\<close> is off, IPv4 too.\<close>

definition read_network :: "bool \<Rightarrow> network_doc option \<Rightarrow> bool" where
  "read_network d x = (case x of None \<Rightarrow> d | Some n \<Rightarrow> or_default False (nd_enabled n))"

definition read_tor :: "network_doc option \<Rightarrow> tor_config" where
  "read_tor x =
     (case x of
        None \<Rightarrow> tor_config_default
      | Some n \<Rightarrow> \<lparr>tor_enabled = or_default False (nd_enabled n), tor_proxy_addr = or_default default_tor_proxy (nd_proxy_addr n)\<rparr>)"

definition read_networks :: "networks_doc option \<Rightarrow> networks_config" where
  "read_networks x =
     (case x of
        None \<Rightarrow> networks_config_default
      | Some n \<Rightarrow> \<lparr>nc_ipv4 = read_network True (nsd_ipv4 n), nc_ipv6 = read_network False (nsd_ipv6 n), nc_tor = read_tor (nsd_tor n),
          nc_cjdns = read_network False (nsd_cjdns n), nc_i2p = read_network False (nsd_i2p n)\<rparr>)"

definition read_addrman :: "addrman_doc option \<Rightarrow> addrman_config" where
  "read_addrman x =
     (case x of
        None \<Rightarrow> addrman_config_default
      | Some a \<Rightarrow> \<lparr>amc_capacity = or_default default_addr_capacity (amd_capacity a),
          amc_max_dialing = or_default default_max_dialing (amd_max_dialing a)\<rparr>)"

definition read_levels :: "levels_doc option \<Rightarrow> log_levels" where
  "read_levels x =
     (case x of
        None \<Rightarrow> log_levels_default
      | Some l \<Rightarrow> \<lparr>ll_main = or_default ''debug'' (ld_main l), ll_connection = or_default ''info'' (ld_connection l),
          ll_protocol = or_default ''debug'' (ld_protocol l), ll_publisher = or_default ''warn'' (ld_publisher l),
          ll_rpc = or_default ''info'' (ld_rpc l), ll_headertree = or_default ''info'' (ld_headertree l),
          ll_addrman = or_default ''info'' (ld_addrman l)\<rparr>)"

definition read_settings :: "settings_doc \<Rightarrow> settings" where
  "read_settings d =
     \<lparr>se_network = or_default default_network (sd_network d), se_datadir = or_default default_datadir (sd_datadir d),
      se_log_levels = read_levels (sd_log_levels d),
      se_connections_per_second = or_default default_connections_per_second (sd_connections_per_second d),
      se_ping_interval_secs = or_default default_ping_interval_secs (sd_ping_interval_secs d),
      se_probe_compact_blocks = or_default False (sd_probe_compact_blocks d), se_user_agent = or_default default_user_agent (sd_user_agent d),
      se_bootstrap_addrs = or_default [] (sd_bootstrap_addrs d), se_nats_url = or_default default_nats_url (sd_nats_url d),
      se_networks = read_networks (sd_networks d), se_addrman = read_addrman (sd_addrman d),
      se_checkpoints = or_default [] (sd_checkpoints d)\<rparr>"

section \<open>What is derived\<close>

text \<open>The magic of a network and the parameters for it, by the network's name.\<close>

definition network_magic :: "settings \<Rightarrow> network option" where
  "network_magic cfg =
     (let n = se_network cfg in
      if n = ''mainnet'' \<or> n = ''bitcoin'' then Some Bitcoin
      else if n = ''signet'' then Some Signet
      else if n = ''testnet3'' then Some Testnet3
      else if n = ''testnet'' \<or> n = ''testnet4'' then Some Testnet4
      else if n = ''regtest'' then Some Regtest
      else None)"

text \<open>\<^verbatim>\<open>Path::join\<close>: an absolute path replaces what it is joined to.\<close>

definition path_join :: "string \<Rightarrow> string \<Rightarrow> string" where
  "path_join p q =
     (if q \<noteq> [] \<and> hd q = CHR ''/'' then q else if p = [] \<or> last p = CHR ''/'' then p @ q else p @ ''/'' @ q)"

definition network_dir :: "settings \<Rightarrow> string" where
  "network_dir cfg = path_join (se_datadir cfg) (se_network cfg)"

definition configured_checkpoints :: "settings \<Rightarrow> checkpoint list option" where
  "configured_checkpoints cfg =
     all_some (map (\<lambda>(height, h). map_option (\<lambda>h. \<lparr>cp_height = unat height, cp_hash = h\<rparr>) (parse_hash h)) (se_checkpoints cfg))"

definition enabled_nets_of :: "networks_config \<Rightarrow> enabled_nets" where
  "enabled_nets_of nets = \<lparr>en_ipv4 = nc_ipv4 nets, en_ipv6 = nc_ipv6 nets, en_tor = tor_enabled (nc_tor nets), en_cjdns = nc_cjdns nets,
     en_i2p = nc_i2p nets\<rparr>"

text \<open>An empty file gives the defaults.\<close>

lemma empty_document_is_default:
  "read_settings \<lparr>sd_network = None, sd_datadir = None, sd_log_levels = None, sd_connections_per_second = None, sd_ping_interval_secs = None,
     sd_probe_compact_blocks = None, sd_user_agent = None, sd_bootstrap_addrs = None, sd_nats_url = None, sd_networks = None,
     sd_addrman = None, sd_checkpoints = None\<rparr> = settings_default"
  by (simp add: read_settings_def settings_default_def or_default_def read_levels_def read_networks_def read_addrman_def)

lemma magic_names:
  "network_magic cfg \<noteq> None \<Longrightarrow>
     se_network cfg \<in> {''mainnet'', ''bitcoin'', ''signet'', ''testnet3'', ''testnet'', ''testnet4'', ''regtest''}"
  by (auto simp: network_magic_def Let_def split: if_splits)

end
