(* ===== verification/Fd_Limit.thy ===== *)
theory Fd_Limit
  imports Prelude
begin

text \<open>
  \<^verbatim>\<open>observer/src/fdlimit.rs\<close>: the open file limit at start-up. What the two system calls return is an argument:
  \<open>reads\<close> are the results of \<^verbatim>\<open>current\<close>, before and after, as soft and hard limit, and \<open>raised\<close> is whether \<^verbatim>\<open>raise\<close>
  succeeds. The result is the limit that is reported, or the refusal to start.
\<close>

definition RESERVE :: u64 where "RESERVE = 64"

definition fd_floor :: "u64 \<Rightarrow> u64" where
  "fd_floor max_dialing = sat_add max_dialing RESERVE"

datatype fd_plan = Keep u64 | Raise u64 | TooLow u64 u64

definition plan :: "u64 \<Rightarrow> u64 \<Rightarrow> u64 \<Rightarrow> fd_plan" where
  "plan soft hard fl =
     (if hard < fl then TooLow hard fl else if soft < hard then Raise hard else Keep soft)"

datatype fd_error = CannotRead | HardTooLow u64 u64 | LimitTooLow u64 u64

definition prepare ::
  "u64 \<Rightarrow> (u64 \<times> u64) option \<Rightarrow> (u64 \<Rightarrow> bool) \<Rightarrow> (u64 \<times> u64) option \<Rightarrow> fd_error + u64 \<times> u64" where
  "prepare max_dialing before raised after =
     (let fl = fd_floor max_dialing in
      case before of
        None \<Rightarrow> Inl CannotRead
      | Some (soft, hard) \<Rightarrow>
          (let checked = (\<lambda>limit.
                 if limit < fl then Inl (LimitTooLow limit fl)
                 else let limit = (case after of Some (soft, _) \<Rightarrow> soft | None \<Rightarrow> limit)
                      in Inr (limit, sat_sub limit fl)) in
           case plan soft hard fl of
             TooLow h f \<Rightarrow> Inl (HardTooLow h f)
           | Keep limit \<Rightarrow> checked limit
           | Raise to \<Rightarrow> checked (if raised to then to else soft)))"

section \<open>Properties\<close>

text \<open>
  Start-up is refused exactly when the limit cannot be read, the hard limit cannot cover the dials in flight and
  the reserve, or the soft limit cannot and raising it fails.
\<close>

theorem startup_is_refused_only_when_it_must:
  "(\<exists>e. prepare max_dialing before raised after = Inl e) \<longleftrightarrow>
   (case before of
      None \<Rightarrow> True
    | Some (soft, hard) \<Rightarrow> hard < fd_floor max_dialing \<or> soft < fd_floor max_dialing \<and> \<not> raised hard)"
  by (auto simp: prepare_def plan_def Let_def split: option.splits)

text \<open>When the kernel grants what it reports, what is left covers the floor.\<close>

lemma granted_limit_covers_the_floor:
  assumes "prepare max_dialing (Some (soft, hard)) raised None = Inr (limit, headroom)"
  shows "fd_floor max_dialing \<le> limit \<and> headroom = limit - fd_floor max_dialing"
proof -
  have "fd_floor max_dialing \<le> limit \<and> headroom = sat_sub limit (fd_floor max_dialing)"
    using assms by (auto simp: prepare_def plan_def Let_def not_less split: if_splits)
  then show ?thesis by (auto simp: sat_sub_def)
qed

text \<open>A limit found lower when it is read again is reported and not refused.\<close>

theorem clamped_limit_is_accepted:
  "prepare 200 (Some (1024, 4096)) (\<lambda>_. True) (Some (100, 4096)) = Inr (100, 0)"
  by (simp add: prepare_def plan_def fd_floor_def RESERVE_def sat_add_def sat_sub_def Let_def)

end
