(* ===== verification/Store_Spec.thy ===== *)
theory Store_Spec
  imports Header_Store
begin

text \<open>
  The properties of the header file: loading it always returns, what was saved comes back, a tree that is not
  marked dirty is on disk, and what an interrupted save costs.
\<close>

section \<open>Which operations leave the tree clean\<close>

lemma insert_inner_dirty:
  assumes "hash_order ho" "tree_ok C t" "insert_inner ho C hdr t = Some (res, t')"
  shows "dirty t' \<or> (\<exists>r. t' = t\<lparr>refused := r\<rparr>)"
proof (rule insert_inner_cases [OF assms(1,2), of hdr])
  assume "insert_inner ho C hdr t = Some (Inr False, t)"
  then have "t' = t\<lparr>refused := refused t\<rparr>" using assms(3) by simp
  then show ?thesis by blast
next
  fix e r assume "insert_inner ho C hdr t = Some (Inl e, t\<lparr>refused := r\<rparr>)"
  then show ?thesis using assms(3) by auto
next
  fix t'' assume t'': "insert_inner ho C hdr t = Some (Inr True, t'')"
  then have "dirty t''"
    by (auto simp: insert_inner_def Let_def split: if_splits option.splits sum.splits)
  then show ?thesis using assms(3) t'' by simp
qed

text \<open>What the file of a tree depends on.\<close>

definition same_saved :: "tree \<Rightarrow> tree \<Rightarrow> bool" where
  "same_saved t t' \<longleftrightarrow> headers t' = headers t \<and> best_chain t' = best_chain t \<and> tip t' = tip t
     \<and> checkpoints t' = checkpoints t"

lemma same_saved_bytes: "same_saved t t' \<Longrightarrow> save_bytes ser ho t' = save_bytes ser ho t"
  by (simp add: same_saved_def save_bytes_def save_entries_def save_key_def)

lemma insert_all_clean:
  assumes "hash_order ho" "tree_ok C t" "insert_all ho C hdrs n err t = Some (n', err', t')"
  shows "(dirty t \<longrightarrow> dirty t') \<and> (dirty t' \<or> same_saved t t') \<and> checkpoints t' = checkpoints t"
  using assms(2,3)
proof (induction hdrs arbitrary: n err t)
  case (Cons hdr hdrs)
  obtain res t1 where t1: "insert_inner ho C hdr t = Some (res, t1)" "tree_ok C t1" "insert_effect C hdr t t1"
    using insert_inner_ok [OF assms(1) Cons.prems(1), of hdr] by blast
  obtain n1 err1 where "insert_all ho C (hdr # hdrs) n err t = insert_all ho C hdrs n1 err1 t1"
    using insert_all_Cons [OF t1(1)] by blast
  with Cons.prems(2) have "insert_all ho C hdrs n1 err1 t1 = Some (n', err', t')" by simp
  from Cons.IH [OF t1(2) this] insert_inner_dirty [OF assms(1) Cons.prems(1) t1(1)] t1(3) show ?case
    by (auto simp: same_saved_def insert_effect_def)
qed (simp add: same_saved_def)

lemma insert_batch_clean:
  assumes "hash_order ho" "tree_ok C t" "insert_batch ho C hdrs t = Some (n, err, t')"
  shows "tree_ok C t'" "checkpoints t' = checkpoints t" "dirty t' \<or> \<not> dirty t \<and> same_saved t t'"
proof -
  show "tree_ok C t'" using insert_batch_ok [OF assms(1,2), of hdrs] assms(3) by auto
  obtain n1 err1 t1 where t1: "insert_all ho C hdrs 0 None t = Some (n1, err1, t1)"
    using insert_all_ok [OF assms(1,2), of hdrs 0 None] by blast
  note c = insert_all_clean [OF assms(1,2) t1]
  have t': "t' = t1 \<and> tip t1 = tip t \<or> tip t1 \<noteq> tip t \<and> rebuild_best_chain t1 = Some t'"
    using assms(3) t1 by (auto simp: insert_batch_def split: if_splits)
  then have "checkpoints t' = checkpoints t1" "dirty t' = dirty t1" "t' = t1 \<or> tip t1 \<noteq> tip t"
    by (auto simp: rebuild_best_chain_def split: option.splits)
  with c show "checkpoints t' = checkpoints t" "dirty t' \<or> \<not> dirty t \<and> same_saved t t'"
    by (auto simp: same_saved_def)
qed

section \<open>What a save does\<close>

lemma run_write:
  "run_calls (write_calls p bytes) os fs = (ok, trace) \<Longrightarrow> ok \<Longrightarrow> read_file (last trace) p = Some bytes"
  by (auto simp: write_calls_def run_calls_Cons read_file_def split: list.splits call_outcome.splits)

lemma tree_save_ok:
  assumes "tree_save ser ho p os t fs = (True, t', trace)" "dirty t"
  shows "read_file (last trace) p = Some (save_bytes ser ho t)" "t' = t\<lparr>dirty := False\<rparr>"
  using assms run_write by (auto simp: tree_save_def split: prod.splits if_splits)

lemma persist_tick_cases:
  obtains "persist_tick ser ho p os (t, fs) = (t, fs)" "\<not> dirty t"
  | fs' where "persist_tick ser ho p os (t, fs) = (t\<lparr>dirty := False\<rparr>, fs')" "read_file fs' p = Some (save_bytes ser ho t)"
  | fs' where "persist_tick ser ho p os (t, fs) = (t, fs')" "dirty t"
  by (cases "dirty t"; cases "tree_save ser ho p os t fs")
    (auto simp: persist_tick_def tree_save_def split: prod.splits if_splits dest: run_write)

section \<open>The order of hash maps\<close>

text \<open>
  The order a hash map iterates in matters only where a prune removes the tip. A load that prunes nothing gives the same tree in any order.
\<close>

lemma prune_headers_order:
  assumes "hash_order ho" "hash_order ho'" "hm_ok hs"
  shows "prune_headers ho n ks hs = prune_headers ho' n ks hs"
proof -
  let ?hs = "filter (\<lambda>(h, e). n < he_height e \<or> h \<in> set ks) hs"
  let ?tall = "\<lambda>ho :: header_order. map (\<lambda>(h, e). (he_height e, h)) (filter (\<lambda>(_, e). n < he_height e) (ho ?hs))"
  have "distinct (map fst ?hs)" using assms(3) by (simp add: hm_ok_def distinct_map_filter)
  then have "inj_on fst (set ?hs)" by (simp add: distinct_map)
  then have "inj_on snd (set (?tall ho'))" using assms(2) by (auto simp: inj_on_def)
  moreover have "mset (?tall ho) = mset (sort_key snd (?tall ho'))" using assms(1,2) by (simp add: hash_order_def mset_filter)
  ultimately have "sort_key snd (?tall ho) = sort_key snd (?tall ho')"
    using assms(1,2) by (intro sort_key_inj_key_eq) (auto simp: inj_on_def)
  then show ?thesis by (simp add: prune_headers_def Let_def)
qed

lemma rebuild_pruned: "rebuild_best_chain t = Some t' \<Longrightarrow> pruned t' = pruned t \<and> checkpoints t' = checkpoints t"
  by (auto simp: rebuild_best_chain_def split: option.splits)

lemma prune_order:
  assumes "hash_order ho" "hash_order ho'" "hm_ok (headers t)" "prune_below_checkpoint ho t = Some (n, t')"
  shows "pruned t \<le> pruned t'" "pruned t' = pruned t \<Longrightarrow> prune_below_checkpoint ho' t = Some (n, t')"
  using assms(4) prune_headers_order [OF assms(1-3)]
  by (auto simp: prune_below_checkpoint_def Let_def dest!: rebuild_pruned split: option.splits if_splits)

lemma note_order:
  assumes "hash_order ho" "hash_order ho'" "hm_ok (headers t)" "note_checkpoint ho h n t = Some t'"
  shows "pruned t \<le> pruned t' \<and> (pruned t' = pruned t \<longrightarrow> note_checkpoint ho' h n t = Some t')"
proof (cases "\<not> list_ex (\<lambda>c. cp_height c = n \<and> cp_hash c = h) (checkpoints t) \<or> (case reached_checkpoint t of None \<Rightarrow> False | Some r \<Rightarrow> n \<le> r)")
  case True
  have "note_checkpoint ho'' h n t = Some t" for ho'' unfolding note_checkpoint_def if_P [OF True] by (rule refl)
  then show ?thesis using assms(4) by simp
next
  case False
  have settle: "note_checkpoint ho'' h n t = map_option snd (prune_below_checkpoint ho'' (t\<lparr>reached_checkpoint := Some n\<rparr>))" for ho''
    unfolding note_checkpoint_def if_not_P [OF False] by (rule refl)
  obtain k where k: "prune_below_checkpoint ho (t\<lparr>reached_checkpoint := Some n\<rparr>) = Some (k, t')" using assms(4) by (auto simp: settle)
  have "hm_ok (headers (t\<lparr>reached_checkpoint := Some n\<rparr>))" using assms(3) by simp
  from prune_order [OF assms(1,2) this k] show ?thesis by (simp add: settle)
qed

lemma insert_inner_note:
  "(\<exists>out. pruned (snd out) = pruned t \<and> (\<forall>ho. insert_inner ho C hdr t = Some out))
   \<or> (\<exists>p. \<forall>ho. insert_inner ho C hdr t =
        map_option (\<lambda>t. (Inr True, weighed (c_hash C hdr) (he_height p + 1) (he_work p + c_work C hdr) t))
          (note_checkpoint ho (c_hash C hdr) (he_height p + 1) (attached C hdr p t)))"
proof (cases "\<exists>p. map_of (headers t) (c_hash C hdr) = None \<and> map_of (headers t) (prev_blockhash hdr) = Some p
    \<and> validate_header C t hdr (he_height p + 1) p = Inr ()")
  case True
  then obtain p where "map_of (headers t) (c_hash C hdr) = None" "map_of (headers t) (prev_blockhash hdr) = Some p"
    "validate_header C t hdr (he_height p + 1) p = Inr ()" by blast
  then show ?thesis
    by (intro disjI2 exI [of _ p] allI) (simp add: insert_inner_def Let_def contains_key_def attached_def weighed_def split: option.split)
next
  case False
  then consider (known) e where "map_of (headers t) (c_hash C hdr) = Some e"
    | (orphan) "map_of (headers t) (c_hash C hdr) = None" "map_of (headers t) (prev_blockhash hdr) = None"
    | (refused) p e where "map_of (headers t) (c_hash C hdr) = None" "map_of (headers t) (prev_blockhash hdr) = Some p"
        "validate_header C t hdr (he_height p + 1) p = Inl e"
    by (metis (full_types) not_None_eq obj_sumE unit.exhaust)
  then show ?thesis
    by cases (rule disjI1, simp add: insert_inner_def Let_def contains_key_def split: option.split if_split)+
qed

lemma insert_order:
  assumes "hash_order ho" "hash_order ho'" "hm_ok (headers t)" "insert_inner ho C hdr t = Some (res, t')"
  shows "pruned t \<le> pruned t'" "pruned t' = pruned t \<Longrightarrow> insert_inner ho' C hdr t = Some (res, t')"
proof -
  have "pruned t \<le> pruned t' \<and> (pruned t' = pruned t \<longrightarrow> insert_inner ho' C hdr t = Some (res, t'))"
    using insert_inner_note [of t C hdr]
  proof (elim disjE exE conjE)
    fix out assume "pruned (snd out) = pruned t" "\<forall>ho. insert_inner ho C hdr t = Some out"
    then show ?thesis using assms(4) by auto
  next
    fix p assume i: "\<forall>ho. insert_inner ho C hdr t = map_option (\<lambda>t. (Inr True, weighed (c_hash C hdr) (he_height p + 1) (he_work p + c_work C hdr) t))
        (note_checkpoint ho (c_hash C hdr) (he_height p + 1) (attached C hdr p t))"
    let ?note = "\<lambda>ho. note_checkpoint ho (c_hash C hdr) (he_height p + 1) (attached C hdr p t)"
    obtain t1 where t1: "?note ho = Some t1" "res = Inr True" "t' = weighed (c_hash C hdr) (he_height p + 1) (he_work p + c_work C hdr) t1"
      using assms(4) i by auto
    have "hm_ok (headers (attached C hdr p t))" using assms(3) by (simp add: attached_def)
    moreover have "pruned (attached C hdr p t) = pruned t" "pruned t' = pruned t1" using t1(3) by (simp_all add: attached_def weighed_def)
    ultimately show ?thesis using note_order [OF assms(1,2) _ t1(1)] i t1(2,3) by auto
  qed
  then show "pruned t \<le> pruned t'" "pruned t' = pruned t \<Longrightarrow> insert_inner ho' C hdr t = Some (res, t')" by auto
qed

lemma tree_ok_headers: "tree_ok C t \<Longrightarrow> hm_ok (headers t)"
  by (simp add: tree_ok_def tree_inv_def wf_headers_def)

lemma load_chunks_order:
  assumes "hash_order ho" "hash_order ho'" "tree_ok C t" "load_chunks ho C de cs t = Some (Inr t')"
  shows "pruned t \<le> pruned t' \<and> checkpoints t' = checkpoints t \<and> (pruned t' = pruned t \<longrightarrow> load_chunks ho' C de cs t = Some (Inr t'))"
  using assms(3,4)
proof (induction cs arbitrary: t)
  case (Cons c cs)
  obtain hdr where hdr: "de c = Some hdr" using Cons.prems(2) by (cases "de c") auto
  obtain res t1 where t1: "insert_inner ho C hdr t = Some (res, t1)" "tree_ok C t1" "insert_effect C hdr t t1"
    using insert_inner_ok [OF assms(1) Cons.prems(1), of hdr] by blast
  have load: "load_chunks ho C de cs t1 = Some (Inr t')" using Cons.prems(2) hdr t1(1) by simp
  from Cons.IH [OF t1(2) this] have IH: "pruned t1 \<le> pruned t'" "checkpoints t' = checkpoints t1"
    "pruned t' = pruned t1 \<Longrightarrow> load_chunks ho' C de cs t1 = Some (Inr t')" by auto
  note step = insert_order [OF assms(1,2) tree_ok_headers [OF Cons.prems(1)] t1(1)]
  show ?case using IH step t1(3) hdr by (auto simp: insert_effect_def)
qed simp

lemma with_checkpoints_order:
  assumes "hash_order ho" "hash_order ho'" "distinct (map cp_height cps)" "with_checkpoints ho C cps = Some t"
  shows "with_checkpoints ho' C cps = Some t" "pruned t = 0" "checkpoints t = sort_key cp_height cps" "\<not> dirty t"
proof -
  let ?t = "(tree_new C)\<lparr>checkpoints := sort_key cp_height cps\<rparr>" and ?g = "c_hash C (c_genesis C)"
  let ?e = "\<lparr>he_header = c_genesis C, he_height = 0, he_work = c_work C (c_genesis C)\<rparr>"
  have new: "headers (tree_new C) = [(?g, ?e)]" "tip (tree_new C) = ?g" "pruned (tree_new C) = 0" "\<not> dirty (tree_new C)"
    by (simp_all add: tree_new_def Let_def)
  have "distinct (map cp_height (sort_key cp_height cps))" using assms(3) by (metis mset_map mset_sort mset_eq_imp_distinct_iff)
  then have "\<exists>r. note_checkpoint ho ?g 0 ?t = Some (?t\<lparr>reached_checkpoint := r\<rparr>)"
    using wf_headers_new [of C] by (intro note_checkpoint_keeps [OF assms(1), where C = C and e = ?e]) (auto simp: new split: if_splits)
  then obtain r where r: "note_checkpoint ho ?g 0 ?t = Some (?t\<lparr>reached_checkpoint := r\<rparr>)" by blast
  then have t: "t = ?t\<lparr>reached_checkpoint := r\<rparr>" using assms(4) by (simp add: with_checkpoints_def new)
  show "pruned t = 0" "checkpoints t = sort_key cp_height cps" "\<not> dirty t" by (simp_all add: t new)
  have "hm_ok (headers ?t)" by (simp add: new hm_ok_def)
  from note_order [OF assms(1,2) this r] show "with_checkpoints ho' C cps = Some t" by (simp add: with_checkpoints_def new t)
qed

lemma tree_load_order:
  assumes "hash_order ho" "hash_order ho'" "distinct (map cp_height cps)" "tree_load ho C de cps r = Some (Inr t)"
  shows "tree_ok C t" "checkpoints t = sort_key cp_height cps" "\<not> dirty t \<Longrightarrow> tree_load ho' C de cps r = Some (Inr t)"
proof -
  obtain t0 where t0: "with_checkpoints ho C cps = Some t0" "tree_ok C t0" using with_checkpoints_ok [OF assms(1,3), of C] by blast
  note w = with_checkpoints_order [OF assms(1-3) t0(1)]
  show "tree_ok C t" using tree_load_total [OF assms(1,3), of C de r] assms(4) by auto
  have "checkpoints t = sort_key cp_height cps \<and> (\<not> dirty t \<longrightarrow> tree_load ho' C de cps r = Some (Inr t))"
  proof (cases r)
    case (ReadOk data)
    then obtain t1 t2 where size: "length data mod HEADER_SIZE = 0" and t1: "load_chunks ho C de (header_chunks data) t0 = Some (Inr t1)"
      "rebuild_best_chain t1 = Some t2" "t = t2\<lparr>dirty := 0 < pruned t2\<rparr>"
      using assms(4) t0(1) by (auto simp: tree_load_def split: if_splits option.splits sum.splits)
    from load_chunks_order [OF assms(1,2) t0(2) t1(1)] rebuild_pruned [OF t1(2)] size t1 w ReadOk
    show ?thesis by (auto simp: tree_load_def)
  next
    case ReadNotFound
    then show ?thesis using assms(4) t0(1) w by (auto simp: tree_load_def)
  next
    case ReadFailed
    then show ?thesis using assms(4) t0(1) by (simp add: tree_load_def)
  qed
  then show "checkpoints t = sort_key cp_height cps" "\<not> dirty t \<Longrightarrow> tree_load ho' C de cps r = Some (Inr t)" by auto
qed

section \<open>What is on disk\<close>

text \<open>
  The file gives the tree back, in whatever order the hash maps of the reader iterate: the same headers, and with the same checkpoints therefore the same
  work at the tip and the same checkpoint reached. A tree that is not dirty is on disk.
\<close>

definition on_disk :: "chain \<Rightarrow> (u8 list \<Rightarrow> header option) \<Rightarrow> checkpoint list \<Rightarrow> tree \<Rightarrow> read_outcome \<Rightarrow> bool" where
  "on_disk C de cps t r \<longleftrightarrow>
     (\<forall>ho. hash_order ho \<longrightarrow> (\<exists>s. tree_load ho C de cps r = Some (Inr s) \<and> map_of (headers s) = map_of (headers t)
        \<and> reached_checkpoint s = reached_checkpoint t \<and> tip_work s = tip_work t))"

definition store_inv :: "chain \<Rightarrow> (u8 list \<Rightarrow> header option) \<Rightarrow> checkpoint list \<Rightarrow> string \<Rightarrow> tree \<times> fs \<Rightarrow> bool" where
  "store_inv C de cps p s \<longleftrightarrow>
     tree_ok C (fst s) \<and> checkpoints (fst s) = sort_key cp_height cps \<and> (dirty (fst s) \<or> on_disk C de cps (fst s) (read_outcome_of (snd s) p))"

lemma loaded_on_disk:
  assumes "hash_order ho" "distinct (map cp_height cps)" "tree_load ho C de cps (read_outcome_of fs p) = Some (Inr t)"
  shows "store_inv C de cps p (t, fs)"
proof -
  have "on_disk C de cps t (read_outcome_of fs p)" if "\<not> dirty t"
    unfolding on_disk_def using tree_load_order(3) [OF assms(1) _ assms(2,3) that] by blast
  then show ?thesis using tree_load_order(1,2) [OF assms(1,1,2,3)] by (auto simp: store_inv_def)
qed

lemma saved_on_disk:
  assumes "header_codec ser de" "hash_order ho" "tree_ok C t" "checkpoints t = sort_key cp_height cps" "read_file fs p = Some (save_bytes ser ho t)"
  shows "on_disk C de cps t (read_outcome_of fs p)"
  unfolding on_disk_def
proof (intro allI impI)
  fix ho' :: header_order assume "hash_order ho'"
  then obtain s where s: "tree_load ho' C de cps (ReadOk (save_bytes ser ho t)) = Some (Inr s)" "tree_ok C s"
    "map_of (headers s) = map_of (headers t)" "checkpoints s = checkpoints t"
    using header_codec.load_saved [OF assms(1,2) _ assms(3,4)] by metis
  from same_headers_same_reach [OF s(2) assms(3) s(4,3)] s(1,3) show "\<exists>s. tree_load ho' C de cps (read_outcome_of fs p) = Some (Inr s)
      \<and> map_of (headers s) = map_of (headers t) \<and> reached_checkpoint s = reached_checkpoint t \<and> tip_work s = tip_work t"
    using assms(5) by (auto simp: read_outcome_of_def)
qed

lemma on_disk_same:
  assumes "tree_ok C t" "tree_ok C t'" "same_saved t t'" "on_disk C de cps t r"
  shows "on_disk C de cps t' r"
  using assms same_headers_same_reach [OF assms(1,2)] by (auto simp: on_disk_def same_saved_def)

lemma store_inv_tick:
  assumes "header_codec ser de" "hash_order ho" "store_inv C de cps p (t, fs)"
  shows "store_inv C de cps p (persist_tick ser ho p os (t, fs))"
proof (cases rule: persist_tick_cases [of ser ho p os t fs])
  case (2 fs')
  have ok: "tree_ok C t" "checkpoints t = sort_key cp_height cps" using assms(3) by (simp_all add: store_inv_def)
  have "on_disk C de cps (t\<lparr>dirty := False\<rparr>) (read_outcome_of fs' p)"
    using on_disk_same [OF ok(1) _ _ saved_on_disk [OF assms(1,2) ok 2(2)], of "t\<lparr>dirty := False\<rparr>"] ok(1) by (simp add: same_saved_def)
  with 2 ok show ?thesis by (simp add: store_inv_def)
qed (use assms(3) in \<open>simp_all add: store_inv_def\<close>)

lemma store_inv_batch:
  assumes "hash_order ho" "store_inv C de cps p (t, fs)"
  shows "\<exists>n err t'. insert_batch ho C hdrs t = Some (n, err, t') \<and> store_inv C de cps p (t', fs)"
proof -
  have ok: "tree_ok C t" using assms(2) by (simp add: store_inv_def)
  obtain n err t' where t': "insert_batch ho C hdrs t = Some (n, err, t')" using insert_batch_ok [OF assms(1) ok, of hdrs] by blast
  note c = insert_batch_clean [OF assms(1) ok t']
  have "store_inv C de cps p (t', fs)" using c assms(2) on_disk_same [OF ok c(1)] by (auto simp: store_inv_def)
  with t' show ?thesis by blast
qed

lemma store_run_inv:
  assumes "header_codec ser de" "hash_order ho"
  shows "store_inv C de cps p s \<Longrightarrow> \<exists>s'. store_run ser ho C p evs s = Some s' \<and> store_inv C de cps p s'"
proof (induction evs arbitrary: s)
  case (Cons ev evs)
  obtain t fs where s: "s = (t, fs)" by (cases s)
  show ?case
  proof (cases ev)
    case (StoreBatch hdrs)
    obtain n err t' where "insert_batch ho C hdrs t = Some (n, err, t')" "store_inv C de cps p (t', fs)"
      using store_inv_batch [OF assms(2) Cons.prems [unfolded s]] by blast
    with Cons.IH show ?thesis by (simp add: StoreBatch s)
  next
    case (StoreTick os)
    from Cons.IH [OF store_inv_tick [OF assms Cons.prems [unfolded s]]] show ?thesis by (simp add: StoreTick s)
  qed
qed simp

section \<open>Properties\<close>

lemma load_chunks_error:
  "load_chunks ho C de cs t = Some (Inl e) \<Longrightarrow> \<exists>c \<in> set cs. de c = None"
  by (induction cs arbitrary: t) (auto split: option.splits)

text \<open>
  Whatever the header file holds, and whichever checkpoints the configuration adds to those of the network, loading
  neither panics nor runs forever. It gives a tree with its invariant whole, or an error, and an error only
  for a file that cannot be read, whose size is not a multiple of eighty, or that has a header which does not decode.
\<close>

theorem header_tree_always_loads:
  assumes "hash_order ho"
  shows "\<exists>builtin res. builtin_checkpoints network = Some builtin
    \<and> tree_load ho C de (merge_checkpoints builtin configured) r = Some res
    \<and> (\<forall>t. res = Inr t \<longrightarrow> tree_ok C t \<and> best_ok t)
    \<and> (\<forall>e. res = Inl e \<longrightarrow> r = ReadFailed \<or> (\<exists>data. r = ReadOk data \<and>
         (length data mod 80 \<noteq> 0 \<or> (\<exists>c \<in> set (header_chunks data). de c = None))))"
proof -
  obtain builtin where b: "builtin_checkpoints network = Some builtin" using builtin_checkpoints_parse by blast
  obtain res where res: "tree_load ho C de (merge_checkpoints builtin configured) r = Some res"
    "\<forall>t. res = Inr t \<longrightarrow> tree_ok C t \<and> best_ok t"
    using tree_load_total [OF assms merge_checkpoints_distinct] by blast
  have "\<forall>e. res = Inl e \<longrightarrow> r = ReadFailed \<or> (\<exists>data. r = ReadOk data \<and>
      (length data mod 80 \<noteq> 0 \<or> (\<exists>c \<in> set (header_chunks data). de c = None)))"
    using res(1) by (auto simp: tree_load_def HEADER_SIZE_def split: option.splits read_outcome.splits if_splits sum.splits
        dest: load_chunks_error)
  with b res show ?thesis by blast
qed

theorem header_tree_always_loads_witness:
  "\<exists>builtin res. builtin_checkpoints Signet = Some builtin
    \<and> tree_load rev demo_chain consensus_decode (merge_checkpoints builtin demo_cps) (ReadOk (replicate 160 7)) = Some res"
  using header_tree_always_loads [OF hash_order_rev, of Signet demo_chain consensus_decode demo_cps "ReadOk (replicate 160 7)"]
  by blast

text \<open>
  C16. A saved tree is loaded back: after a successful save the next start, in whatever order its hash maps iterate, has
  exactly the same headers with the same heights and work, the same checkpoint reached, the same work at its tip, and nothing
  left to save. Its tip is the same header exactly if no header of that work is at a lower height; of those at one
  height the one on the active chain comes back first.
\<close>

theorem saved_tree_comes_back:
  assumes "header_codec ser de" "hash_order ho" "hash_order ho'" "tree_ok C t" "best_ok t"
    "checkpoints t = sort_key cp_height cps" "dirty t" "tree_save ser ho p os t fs = (True, t', trace)"
  shows "\<exists>s. tree_load ho' C de cps (read_outcome_of (last trace) p) = Some (Inr s)
    \<and> map_of (headers s) = map_of (headers t) \<and> reached_checkpoint s = reached_checkpoint t
    \<and> tip_work s = tip_work t \<and> \<not> dirty s \<and> \<not> dirty t'
    \<and> (tip s = tip t \<longleftrightarrow>
         (\<forall>h e. map_of (headers t) h = Some e \<longrightarrow> he_work e = tip_work t \<longrightarrow> tip_height t \<le> he_height e))"
proof -
  obtain s where s: "tree_load ho' C de cps (ReadOk (save_bytes ser ho t)) = Some (Inr s)" "tree_ok C s"
    "map_of (headers s) = map_of (headers t)" "\<not> dirty s" "checkpoints s = checkpoints t"
    "\<exists>x. find (\<lambda>(_, e). he_work e = tip_work t) (save_entries ho t) = Some (tip s, x)"
    using header_codec.load_saved [OF assms(1-4,6)] by metis
  have "read_outcome_of (last trace) p = ReadOk (save_bytes ser ho t)" "\<not> dirty t'"
    using tree_save_ok [OF assms(8,7)] by (simp_all add: read_outcome_of_def)
  with s same_headers_same_reach [OF s(2) assms(4) s(5,3)] first_heaviest_is_tip [OF assms(2,4,5)] show ?thesis by auto
qed

theorem saved_tree_comes_back_witness:
  "\<exists>s. tree_load rev demo_chain consensus_decode demo_cps
      (read_outcome_of (last (snd (snd (tree_save consensus_encode id ''headers.bin'' [CallOk, CallOk]
         (demo_tree\<lparr>dirty := True\<rparr>) (\<lambda>_. None))))) ''headers.bin'') = Some (Inr s)
    \<and> map_of (headers s) = map_of (headers demo_tree) \<and> tip_work s = tip_work demo_tree"
proof -
  let ?t = "demo_tree\<lparr>dirty := True\<rparr>"
  obtain t' trace where tr: "tree_save consensus_encode id ''headers.bin'' [CallOk, CallOk] ?t (\<lambda>_. None) = (True, t', trace)"
    by (auto simp: tree_save_def write_calls_def)
  have "tree_ok demo_chain ?t" "best_ok ?t" "checkpoints ?t = sort_key cp_height demo_cps" "dirty ?t"
    using demo_tree_ok by (simp_all add: best_ok_def demo_tree_def demo_cps_def)
  from saved_tree_comes_back [OF consensus.header_codec_axioms hash_order_id hash_order_rev this tr] tr show ?thesis by auto
qed

text \<open>
  C17. From the tree a start loads, whatever file it found or none, through any sequence of batches of headers and of saves, each of which may fail at
  any point, the task never panics, and whenever the tree is not marked dirty, reading the file gives a tree with the same headers, the same checkpoint
  reached and the same work at its tip.
\<close>

theorem clean_tree_is_on_disk:
  assumes "header_codec ser de" "hash_order ho0" "hash_order ho" "hash_order ho'" "distinct (map cp_height cps)"
    and "tree_load ho0 C de cps (read_outcome_of fs0 p) = Some (Inr t0)"
  shows "\<exists>t fs. store_run ser ho C p evs (t0, fs0) = Some (t, fs) \<and> tree_ok C t
    \<and> (\<not> dirty t \<longrightarrow> (\<exists>s. tree_load ho' C de cps (read_outcome_of fs p) = Some (Inr s)
         \<and> map_of (headers s) = map_of (headers t) \<and> reached_checkpoint s = reached_checkpoint t
         \<and> tip_work s = tip_work t))"
proof -
  obtain t fs where "store_run ser ho C p evs (t0, fs0) = Some (t, fs)" "store_inv C de cps p (t, fs)"
    using store_run_inv [OF assms(1,3) loaded_on_disk [OF assms(2,5,6)], of evs] by auto
  then show ?thesis using assms(4) by (auto simp: store_inv_def on_disk_def)
qed

text \<open>A first start without a file, a batch, a save that fails in the middle and one that succeeds.\<close>

theorem clean_tree_is_on_disk_witness:
  "\<exists>t0 t fs s. tree_load rev demo_chain consensus_decode demo_cps ReadNotFound = Some (Inr t0)
    \<and> store_run consensus_encode id demo_chain ''headers.bin''
      [StoreBatch demo_batch, StoreTick [CallOk, CallErr 100], StoreTick [CallOk, CallOk]] (t0, \<lambda>_. None) = Some (t, fs)
    \<and> \<not> dirty t \<and> tree_load rev demo_chain consensus_decode demo_cps (read_outcome_of fs ''headers.bin'') = Some (Inr s)
    \<and> map_of (headers s) = map_of (headers t)"
proof -
  have none: "read_outcome_of (\<lambda>_. None) ''headers.bin'' = ReadNotFound" by (simp add: read_outcome_of_def read_file_def)
  have d: "distinct (map cp_height demo_cps)" by (simp add: demo_cps_def)
  obtain t0 where t0: "with_checkpoints rev demo_chain demo_cps = Some t0" using with_checkpoints_ok [OF hash_order_rev d] by blast
  then have load: "tree_load rev demo_chain consensus_decode demo_cps (read_outcome_of (\<lambda>_. None) ''headers.bin'') = Some (Inr t0)"
    by (simp add: none tree_load_def)
  let ?evs = "[StoreBatch demo_batch, StoreTick [CallOk, CallErr 100], StoreTick [CallOk, CallOk]]"
  obtain t fs where run: "store_run consensus_encode id demo_chain ''headers.bin'' ?evs (t0, \<lambda>_. None) = Some (t, fs)"
    "\<not> dirty t \<longrightarrow> (\<exists>s. tree_load rev demo_chain consensus_decode demo_cps (read_outcome_of fs ''headers.bin'') = Some (Inr s)
       \<and> map_of (headers s) = map_of (headers t))"
    using clean_tree_is_on_disk [OF consensus.header_codec_axioms hash_order_rev hash_order_id hash_order_rev d load, of ?evs] by blast
  have "\<not> dirty t"
    using run(1) by (auto simp: persist_tick_def tree_save_def write_calls_def run_calls_Cons split: option.splits if_splits prod.splits)
  with run load none show ?thesis by auto
qed

text \<open>
  Unlike the ban list and the snapshot, the header file is written in place: a save that stops in the middle of a header
  leaves a file that the next start refuses, and the start with it.
\<close>

theorem interrupted_save_stops_the_start:
  assumes "hash_order ho'" "distinct (map cp_height cps)" "dirty t"
    "n < length (save_bytes ser ho t)" "n mod 80 \<noteq> 0" "tree_save ser ho p [CallOk, CallErr n] t fs = (ok, t', trace)"
  shows "\<not> ok \<and> tree_load ho' C de cps (read_outcome_of (last trace) p) = Some (Inl (BadFileSize n))"
proof -
  have "trace = [fs, do_call (Create p) fs, fail_call (WriteAll p (save_bytes ser ho t)) n (do_call (Create p) fs)]" "\<not> ok"
    using assms(3,6) by (auto simp: tree_save_def write_calls_def)
  then have "read_outcome_of (last trace) p = ReadOk (take n (save_bytes ser ho t))"
    by (simp add: read_outcome_of_def read_file_def)
  moreover obtain t0 where "with_checkpoints ho' C cps = Some t0" using with_checkpoints_ok [OF assms(1,2), of C] by blast
  ultimately show ?thesis using assms(4,5) \<open>\<not> ok\<close> by (simp add: tree_load_def HEADER_SIZE_def)
qed

end
