(* ===== verification/Startup.thy ===== *)
theory Startup
  imports Settings Attempt Fd_Limit Store_Spec Websocket
begin

text \<open>
  \<^verbatim>\<open>observer/src/lib.rs\<close>, \<^verbatim>\<open>run\<close>: what the parts are put together from, in the order it is done in, and what is written at the end; and
  \<^verbatim>\<open>observer/src/publisher.rs\<close>, which names the subject of every event. Whatever ends the start, by the \<^verbatim>\<open>expect\<close> that it is, is a value.

  Spawned tasks run later and are modelled where they are. The clock, the file system, the limits, the connection to NATS and what happens during
  the sync with the bootstrap peers are arguments.
\<close>

section \<open>Publishing\<close>

definition subject_for :: "peer_event \<Rightarrow> string" where
  "subject_for e =
     (case pe_event e of
        Some (PingRtt _ _) \<Rightarrow> ''ping_rtt''
      | Some (BlockAnnouncement _) \<Rightarrow> ''block_announcement''
      | Some (AddressAnnouncement _) \<Rightarrow> ''address_announcement''
      | Some (ConnectionResult _) \<Rightarrow> ''connection_result''
      | Some (Handshake _) \<Rightarrow> ''handshake''
      | Some (CompactBlockProbe _ _ _) \<Rightarrow> ''compact_block_probe''
      | Some (FeeFilter _) \<Rightarrow> ''fee_filter''
      | Some (SendCmpctEv _ _) \<Rightarrow> ''send_cmpct''
      | None \<Rightarrow> ''unknown'')"

definition publish_subject :: "string \<Rightarrow> peer_event \<Rightarrow> string" where
  "publish_subject network e = ''p2p-observer.'' @ network @ ''.'' @ subject_for e"

section \<open>Starting\<close>

text \<open>What a start finds: third-party code, and the outcome of what it asks the system for.\<close>

record start_host =
  h_chain :: "network \<Rightarrow> chain"
  h_order :: header_order
  h_sha3 :: "u8 list \<Rightarrow> u8 list"
  h_codec :: codec
  h_max_inv :: nat
  h_header_de :: "u8 list \<Rightarrow> header option"
  h_ban_json :: "u8 list \<Rightarrow> ban_entry list option"
  h_snapshot :: "u8 list \<Rightarrow> snapshot option"
  h_limits :: "(u64 \<times> u64) option"
  h_raised :: "u64 \<Rightarrow> bool"
  h_limits_after :: "(u64 \<times> u64) option"
  h_datadir_ok :: bool
  h_nats_ok :: bool
  h_now :: u32
  h_now_seed :: u32
  h_instance :: u64

datatype start_error =
    BadNetwork
  | BadCheckpoint
  | NoDescriptors fd_error
  | NoDataDir
  | BadHeaderFile load_error
  | NoNats
  | NoManager ban_error

text \<open>Until a bootstrap peer's attempt counts as a sync the start waits.\<close>

datatype start_result =
    Refused start_error
  | StartPanicked
  | Syncing world
  | Started manager world

definition header_path :: "settings \<Rightarrow> string" where
  "header_path cfg = path_join (network_dir cfg) ''headers.bin''"

definition manager_config :: "settings \<Rightarrow> config" where
  "manager_config cfg =
     \<lparr>dials_per_tick = unat (se_connections_per_second cfg), max_dialing = amc_max_dialing (se_addrman cfg),
      cfg_capacity = amc_capacity (se_addrman cfg), cfg_nets = enabled_nets_of (se_networks cfg),
      snapshot_path = path_join (network_dir cfg) ''addresses.bin'', banlist_path = path_join (network_dir cfg) ''banlist.json''\<rparr>"

definition start_penv :: "start_host \<Rightarrow> network \<Rightarrow> penv" where
  "start_penv h n = \<lparr>en_chain = h_chain h n, en_order = h_order h, en_sha3 = h_sha3 h, en_codec = h_codec h, en_max_inv = h_max_inv h\<rparr>"

definition start_world :: "start_host \<Rightarrow> tree \<Rightarrow> world" where
  "start_world h t = \<lparr>w_tree = t, w_outbox = outbox_new (h_instance h), w_gossip = [], w_life = [], w_registry = registry_new\<rparr>"

definition bootstrap_list :: "start_host \<Rightarrow> settings \<Rightarrow> peer_addr list" where
  "bootstrap_list h cfg = List.map_filter (peer_parse (h_sha3 h)) (se_bootstrap_addrs cfg)"

definition sync_config :: "settings \<Rightarrow> bool \<Rightarrow> pconfig" where
  "sync_config cfg sync =
     \<lparr>pc_user_agent = se_user_agent cfg, pc_sync_headers = sync, pc_probe_compact_blocks = se_probe_compact_blocks cfg,
      pc_tor_enabled = tor_enabled (nc_tor (se_networks cfg))\<rparr>"

text \<open>The peers are tried over and over, each attempt with its identifier and what happens in it.\<close>

definition sync_tries :: "peer_addr list \<Rightarrow> (u64 \<times> attempt_script) list \<Rightarrow> (u64 \<times> peer_addr \<times> attempt_script) list" where
  "sync_tries peers scripts = map (\<lambda>(k, cid, ats). (cid, peers ! (k mod length peers), ats)) (enumerate 0 scripts)"

definition start_manager :: "start_host \<Rightarrow> settings \<Rightarrow> fs \<Rightarrow> world \<Rightarrow> start_result" where
  "start_manager h cfg fs w =
     (let mc = manager_config cfg in
      case manager_new (h_sha3 h) (h_ban_json h) (h_snapshot h) mc (read_outcome_of fs (banlist_path mc)) (read_outcome_of fs (snapshot_path mc)) (h_now h) of
        Inl e \<Rightarrow> Refused (NoManager e)
      | Inr m \<Rightarrow> Started (snd (manager_add_manual (h_now_seed h) (bootstrap_list h cfg) m)) w)"

definition start_observer :: "start_host \<Rightarrow> settings \<Rightarrow> (u64 \<times> attempt_script) list \<Rightarrow> fs \<Rightarrow> start_result" where
  "start_observer h cfg scripts fs =
     (case network_magic cfg of
        None \<Rightarrow> Refused BadNetwork
      | Some net \<Rightarrow>
     (case builtin_checkpoints net of
        None \<Rightarrow> StartPanicked
      | Some builtin \<Rightarrow>
     (case configured_checkpoints cfg of
        None \<Rightarrow> Refused BadCheckpoint
      | Some configured \<Rightarrow>
     (case prepare (of_nat (amc_max_dialing (se_addrman cfg))) (h_limits h) (h_raised h) (h_limits_after h) of
        Inl e \<Rightarrow> Refused (NoDescriptors e)
      | Inr _ \<Rightarrow>
          if \<not> h_datadir_ok h then Refused NoDataDir
          else
     (case tree_load (h_order h) (h_chain h net) (h_header_de h) (merge_checkpoints builtin configured) (read_outcome_of fs (header_path cfg)) of
        None \<Rightarrow> StartPanicked
      | Some (Inl e) \<Rightarrow> Refused (BadHeaderFile e)
      | Some (Inr t) \<Rightarrow>
          if \<not> h_nats_ok h then Refused NoNats
          else let w = start_world h t; peers = bootstrap_list h cfg in
               if peers = [] then start_manager h cfg fs w
               else case bootstrap_sync (start_penv h net) (sync_config cfg True) (sync_tries peers scripts) w of
                      (None, w) \<Rightarrow> StartPanicked
                    | (Some False, w) \<Rightarrow> Syncing w
                    | (Some True, w) \<Rightarrow> start_manager h cfg fs w)))))"

section \<open>Stopping\<close>

text \<open>
  First the manager's task saves its snapshot, then the header tree is saved: the orders the maps iterate in, the outcomes of the
  system calls, and whether both succeeded. Errors are logged.
\<close>

definition stop_observer ::
  "(snapshot \<Rightarrow> u8 list option) \<Rightarrow> (header \<Rightarrow> u8 list) \<Rightarrow> settings \<Rightarrow> entry_order \<Rightarrow> header_order \<Rightarrow> call_outcome list \<Rightarrow> call_outcome list
   \<Rightarrow> manager \<Rightarrow> tree \<Rightarrow> fs \<Rightarrow> bool \<times> tree \<times> fs" where
  "stop_observer to_bytes ser cfg ho tho os os' m t fs =
     (let (r, trace) = manager_save to_bytes ho os m fs;
          (ok, t, trace') = tree_save ser tho (header_path cfg) os' t (last trace)
      in ((case r of Inl _ \<Rightarrow> False | Inr _ \<Rightarrow> True) \<and> ok, t, last trace'))"

end
