(* ===== verification/Startup_Spec.thy ===== *)
theory Startup_Spec
  imports Startup Dial_System
begin

text \<open>
  What holds of a run from its start to its end: what is published reaches the consumers under the network it was observed on, and what a run has
  written when it stops is what the next one starts from.
\<close>

section \<open>Subjects\<close>

lemma split_on_nonempty: "split_on c s \<noteq> []"
  by (cases s) (auto split: list.split)

lemma split_on_append:
  assumes "c \<notin> set a"
  shows "split_on c (a @ c # b) = a # split_on c b"
  using assms by (induction a) (auto split: list.split)

lemma split_on_whole: "c \<notin> set a \<Longrightarrow> split_on c a = [a]"
  by (induction a) auto

lemma subject_plain: "CHR ''.'' \<notin> set (subject_for e)"
  by (simp add: subject_for_def split: option.split pevent.split)

lemma network_plain: "network_magic cfg \<noteq> None \<Longrightarrow> CHR ''.'' \<notin> set (se_network cfg)"
  using magic_names [of cfg] by auto

lemma split_publish:
  assumes "CHR ''.'' \<notin> set network"
  shows "split_on (CHR ''.'') (publish_subject network e) = [''p2p-observer'', network, subject_for e]"
  using split_on_append [of "CHR ''.''" "''p2p-observer''" "network @ ''.'' @ subject_for e"]
    split_on_append [OF assms, of "subject_for e"] split_on_whole [OF subject_plain [of e]]
  by (simp add: publish_subject_def)

lemma split_rpc:
  assumes "CHR ''.'' \<notin> set network"
  shows "\<exists>rest. split_on (CHR ''.'') (tool_subject network request) = [''p2p-observer'', network, ''rpc''] @ rest \<and> rest \<noteq> []"
  using split_on_append [of "CHR ''.''" "''p2p-observer''" "network @ ''.rpc.'' @ request"]
    split_on_append [OF assms, of "''rpc.'' @ request"] split_on_append [of "CHR ''.''" "''rpc''" request] split_on_nonempty [of "CHR ''.''" request]
  by (simp add: tool_subject_def)

text \<open>
  What an observer publishes is attributed to its network: on every network the observer starts on, the subject of every event is one that the metrics tool
  and the websocket relay take for an event of that network, and no request over RPC is.
\<close>

theorem published_events_are_attributed:
  assumes "network_magic cfg \<noteq> None"
  shows "network_of (publish_subject (se_network cfg) e) = Some (se_network cfg)
    \<and> ws_network_of (publish_subject (se_network cfg) e) = Some (se_network cfg)
    \<and> network_of (tool_subject (se_network cfg) request) = None \<and> ws_network_of (tool_subject (se_network cfg) request) = None"
proof -
  note plain = network_plain [OF assms]
  obtain x xs where "split_on (CHR ''.'') (tool_subject (se_network cfg) request) = [''p2p-observer'', se_network cfg, ''rpc''] @ x # xs"
    using split_rpc [OF plain, of request] by (metis neq_Nil_conv)
  then show ?thesis using split_publish [OF plain, of e] by (simp add: network_of_def ws_network_of_def)
qed

theorem published_events_are_attributed_witness:
  "network_of (publish_subject (se_network settings_default) sample_event) = Some ''signet''"
  using published_events_are_attributed [of settings_default sample_event "''addresses.info''"]
  by (simp add: settings_default_def default_network_def network_magic_def)

section \<open>Files\<close>

definition dir_of :: "string \<Rightarrow> string" where
  "dir_of p = (if p = [] \<or> last p = CHR ''/'' then p else p @ ''/'')"

lemma path_join_plain: "q \<noteq> [] \<Longrightarrow> hd q \<noteq> CHR ''/'' \<Longrightarrow> path_join p q = dir_of p @ q"
  by (simp add: path_join_def dir_of_def)

lemma file_names:
  "header_path cfg = dir_of (network_dir cfg) @ ''headers.bin''"
  "snapshot_path (manager_config cfg) = dir_of (network_dir cfg) @ ''addresses.bin''"
  "banlist_path (manager_config cfg) = dir_of (network_dir cfg) @ ''banlist.json''"
  by (simp_all add: header_path_def manager_config_def path_join_plain)

lemma snapshot_tmp_name: "with_extension (x @ ''addresses.bin'') ''bin.tmp'' = x @ ''addresses.bin.tmp''"
  by (simp add: with_extension_def file_stem_def)

lemma snapshot_save_frame:
  assumes "persist_save to_bytes ho (x @ ''addresses.bin'') es os fs = (r, trace)" "q \<noteq> x @ ''addresses.bin''" "q \<noteq> x @ ''addresses.bin.tmp''"
  shows "read_file (last trace) q = read_file fs q"
proof (cases "to_bytes \<lparr>version = FORMAT_VERSION, snap_entries = ho es\<rparr>")
  case None
  with assms(1) show ?thesis by (auto simp: persist_save_def)
next
  case (Some bytes)
  have t: "trace = snd (atomic_save (x @ ''addresses.bin.tmp'') (x @ ''addresses.bin'') bytes os fs)"
    using assms(1) Some by (auto simp: persist_save_def snapshot_tmp_name Let_def split: prod.splits)
  then have "trace \<noteq> []" by (simp add: save_unfold split: list.splits call_outcome.splits)
  then have "last trace \<in> set trace" by simp
  from atomic_save_frame [OF assms(2,3) this [unfolded t]] show ?thesis by (simp add: read_file_def t)
qed

lemma tree_save_frame:
  assumes "tree_save ser ho p os t fs = (ok, t', trace)" "q \<noteq> p"
  shows "read_file (last trace) q = read_file fs q"
  using assms by (auto simp: tree_save_def write_calls_def run_calls_Cons read_file_def split: if_splits list.splits call_outcome.splits)

lemma ban_save_frame:
  assumes "q \<noteq> ban_path bl" "q \<noteq> with_extension (ban_path bl) ''json.tmp''"
  shows "read_file (last (snd (ban_save to_json bl os fs))) q = read_file fs q"
proof (cases "to_json (ban_entries bl)")
  case None
  then show ?thesis by (simp add: ban_save_def)
next
  case (Some json)
  let ?trace = "snd (atomic_save (with_extension (ban_path bl) ''json.tmp'') (ban_path bl) json os fs)"
  have "?trace \<noteq> []" by (simp add: save_unfold split: list.splits call_outcome.splits)
  then have "last ?trace \<in> set ?trace" by simp
  from atomic_save_frame [OF assms this] show ?thesis by (simp add: ban_save_def Some read_file_def)
qed

lemma ban_save_failed:
  assumes "\<not> fst (ban_save to_json bl os fs)"
  shows "read_file (last (snd (ban_save to_json bl os fs))) (ban_path bl) = read_file fs (ban_path bl)"
  using assms atomic_save_error [OF ban_tmp_neq] by (auto simp: ban_save_def read_file_def split: option.splits)

lemma ban_tmp_name: "with_extension (x @ ''banlist.json'') ''json.tmp'' = x @ ''banlist.json.tmp''"
  by (simp add: with_extension_def file_stem_def)

section \<open>Stopping and starting again\<close>

lemma manager_restarts:
  assumes "ban_load from_json ban_file (banlist_path mc) = Inr bl" "map_of (persist_load from_bytes snap_file) = map_of es"
  shows "\<exists>m. manager_new sha3 from_json from_bytes mc ban_file snap_file now = Inr m \<and> m_banlist m = bl \<and> m_cfg m = mc \<and> active (m_book m) = []
    \<and> (\<forall>a. map_of (entries (m_book m)) a = (if ban_contains sha3 bl a then None else map_of es a))"
proof -
  let ?load = "persist_load from_bytes snap_file"
  let ?b = "restore ?load (book_new (cfg_capacity mc) (ucast now))"
  have "map_of (entries (snd (purge_banned sha3 bl ?b))) a = (if ban_contains sha3 bl a then None else map_of es a)" for a
    using hm_get_retain [OF persist_load_ok, of "\<lambda>a _. \<not> ban_contains sha3 bl a" from_bytes snap_file a] assms(2)
    by (auto simp: purge_banned_def restore_def Let_def split: option.splits)
  then show ?thesis using assms(1) by (simp add: manager_new_def case_prod_beta Let_def restore_def)
qed

text \<open>Without bootstrap peers, a start that passes its checks and finds a header file it can load depends on the files alone.\<close>

lemma start_from_files:
  assumes "network_magic cfg = Some net" "builtin_checkpoints net = Some builtin" "configured_checkpoints cfg = Some configured"
    and "prepare (of_nat (amc_max_dialing (se_addrman cfg))) (h_limits h) (h_raised h) (h_limits_after h) = Inr r"
    and "h_datadir_ok h" "h_nats_ok h" "bootstrap_list h cfg = []"
    and "tree_load (h_order h) (h_chain h net) (h_header_de h) (merge_checkpoints builtin configured) (read_outcome_of fs (header_path cfg)) = Some (Inr t)"
  shows "start_observer h cfg scripts fs = start_manager h cfg fs (start_world h t)"
  using assms by (simp add: start_observer_def Let_def)

lemma manager_resumes:
  assumes "bootstrap_list h cfg = []" "ban_load (h_ban_json h) (read_outcome_of fs (banlist_path (manager_config cfg))) (banlist_path (manager_config cfg)) = Inr bl"
    and "map_of (persist_load (h_snapshot h) (read_outcome_of fs (snapshot_path (manager_config cfg)))) = map_of es"
  shows "\<exists>m. start_manager h cfg fs w = Started m w \<and> m_banlist m = bl \<and> m_cfg m = manager_config cfg \<and> active (m_book m) = []
    \<and> (\<forall>a. map_of (entries (m_book m)) a = (if ban_contains (h_sha3 h) bl a then None else map_of es a))"
proof -
  obtain m where m: "manager_new (h_sha3 h) (h_ban_json h) (h_snapshot h) (manager_config cfg)
      (read_outcome_of fs (banlist_path (manager_config cfg))) (read_outcome_of fs (snapshot_path (manager_config cfg))) (h_now h) = Inr m"
    "m_banlist m = bl" "m_cfg m = manager_config cfg" "active (m_book m) = []"
    "\<forall>a. map_of (entries (m_book m)) a = (if ban_contains (h_sha3 h) bl a then None else map_of es a)"
    using manager_restarts [OF assms(2,3)] by blast
  have "manager_add_manual (h_now_seed h) [] m = (0, m)" by (simp add: manager_add_manual_def insert_manual_def)
  with m show ?thesis by (simp add: start_manager_def Let_def assms(1))
qed

section \<open>A run\<close>

text \<open>
  Between the start and the stop: the events of the manager and its tasks, the batches of headers and the saves of the header tree, in any order, on one file
  system. With it goes whether the last ban, if there was one, was answered as saved.
\<close>

datatype run_event = RunManager event | RunHeaders store_event

type_synonym run_state = "bool \<times> sys \<times> tree"

fun ban_saved :: "env \<Rightarrow> event \<Rightarrow> sys \<Rightarrow> bool \<Rightarrow> bool" where
  "ban_saved env (EvCommand ho os now c) s ok =
     (case fst (run_command (env_sha3 env) (env_to_json env) ho os now c (s_manager s) (s_fs s)) of RBan r \<Rightarrow> br_saved r | _ \<Rightarrow> ok)"
| "ban_saved env _ s ok = ok"

fun observer_run ::
  "env \<Rightarrow> (header \<Rightarrow> u8 list) \<Rightarrow> header_order \<Rightarrow> chain \<Rightarrow> string \<Rightarrow> run_event list \<Rightarrow> run_state \<Rightarrow> run_state option" where
  "observer_run env ser ho C p [] st = Some st"
| "observer_run env ser ho C p (RunManager ev # evs) (ok, s, t) =
     (case sys_step env ev s of None \<Rightarrow> None | Some (_, s') \<Rightarrow> observer_run env ser ho C p evs (ban_saved env ev s ok, s', t))"
| "observer_run env ser ho C p (RunHeaders ev # evs) (ok, s, t) =
     (case store_run ser ho C p [ev] (t, s_fs s) of None \<Rightarrow> None | Some (t', fs) \<Rightarrow> observer_run env ser ho C p evs (ok, s\<lparr>s_fs := fs\<rparr>, t'))"

fun run_event_ok :: "run_event \<Rightarrow> bool" where
  "run_event_ok (RunManager ev) = event_ok ev"
| "run_event_ok (RunHeaders ev) = True"

text \<open>
  What the files hold at every moment of it: a header tree that is dirty or on disk, and a ban list that can be read, which is the one in memory
  when the last ban was saved.
\<close>

definition bans_on_disk :: "(u8 list \<Rightarrow> ban_entry list option) \<Rightarrow> settings \<Rightarrow> bool \<Rightarrow> sys \<Rightarrow> bool" where
  "bans_on_disk from_json cfg ok s \<longleftrightarrow>
     m_cfg (s_manager s) = manager_config cfg \<and> ban_path (m_banlist (s_manager s)) = banlist_path (manager_config cfg)
     \<and> (\<exists>bl. ban_load from_json (read_outcome_of (s_fs s) (banlist_path (manager_config cfg))) (banlist_path (manager_config cfg)) = Inr bl
            \<and> (ok \<longrightarrow> bl = m_banlist (s_manager s)))"

definition files_ok :: "(u8 list \<Rightarrow> ban_entry list option) \<Rightarrow> settings \<Rightarrow> chain \<Rightarrow> (u8 list \<Rightarrow> header option) \<Rightarrow> checkpoint list \<Rightarrow> run_state \<Rightarrow> bool" where
  "files_ok from_json cfg C de cps st \<longleftrightarrow>
     (case st of (ok, s, t) \<Rightarrow> sys_ok s \<and> bans_on_disk from_json cfg ok s \<and> store_inv C de cps (header_path cfg) (t, s_fs s))"

lemma ban_add_path: "ban_path (snd (ban_add bl e)) = ban_path bl"
  by (simp add: ban_add_def Let_def split: prod.split)

lemma ban_load_path: "ban_load from_json r p = Inr bl \<Longrightarrow> ban_path bl = p"
  by (auto simp: ban_load_def split: read_outcome.splits option.splits)

lemma bans_kept:
  assumes "m_cfg (s_manager s') = m_cfg (s_manager s)" "m_banlist (s_manager s') = m_banlist (s_manager s)"
    "read_file (s_fs s') (banlist_path (manager_config cfg)) = read_file (s_fs s) (banlist_path (manager_config cfg))"
  shows "bans_on_disk from_json cfg ok s' = bans_on_disk from_json cfg ok s"
  using assms by (simp add: bans_on_disk_def read_outcome_of_def)

lemma manager_step_files:
  assumes "\<And>es bytes. env_to_json env es = Some bytes \<Longrightarrow> from_json bytes = Some es"
    and "bans_on_disk from_json cfg ok s" "sys_step env ev s = Some (ds, s')"
  shows "bans_on_disk from_json cfg (ban_saved env ev s ok) s' \<and> read_file (s_fs s') (header_path cfg) = read_file (s_fs s) (header_path cfg)"
proof -
  let ?d = "dir_of (network_dir cfg)" and ?m = "s_manager s"
  have quiet: ?thesis if "m_cfg (s_manager s') = m_cfg ?m" "m_banlist (s_manager s') = m_banlist ?m" "s_fs s' = s_fs s" "ban_saved env ev s ok = ok"
    using assms(2) that bans_kept [OF that(1,2), of cfg from_json ok] by simp
  show ?thesis
  proof (cases ev)
    case (EvSave ho os)
    obtain r trace where save: "manager_save (env_to_bytes env) ho os ?m (s_fs s) = (r, trace)" by fastforce
    have "persist_save (env_to_bytes env) ho (?d @ ''addresses.bin'') (entries (m_book ?m)) os (s_fs s) = (r, trace)"
      using save assms(2) by (simp add: manager_save_def bans_on_disk_def file_names)
    note frame = snapshot_save_frame [OF this]
    have s': "s' = s\<lparr>s_fs := last trace\<rparr>" using assms(3) save by (simp add: EvSave)
    have "bans_on_disk from_json cfg ok s' = bans_on_disk from_json cfg ok s"
      by (rule bans_kept) (simp_all add: s' frame file_names)
    then show ?thesis using assms(2) by (simp add: EvSave s' frame file_names)
  next
    case (EvCommand ho os now c)
    show ?thesis
    proof (cases "\<exists>e. c = Ban e")
      case True
      then obtain e where Ban: "c = Ban e" by blast
      define bl where "bl = snd (ban_add (m_banlist ?m) e)"
      obtain saved trace where save: "ban_save (env_to_json env) bl os (s_fs s) = (saved, trace)" by fastforce
      have path: "ban_path bl = ?d @ ''banlist.json''" using assms(2) by (simp add: bl_def ban_add_path bans_on_disk_def file_names)
      have s': "m_banlist (s_manager s') = bl" "m_cfg (s_manager s') = m_cfg ?m" "s_fs s' = last trace" "ban_saved env ev s ok = saved"
        using assms(3) save by (auto simp: EvCommand Ban bl_def case_prod_beta Let_def)
      have "read_file (last trace) (header_path cfg) = read_file (s_fs s) (header_path cfg)"
        using ban_save_frame [of "header_path cfg" bl "env_to_json env" os "s_fs s"] save by (simp add: path ban_tmp_name file_names)
      moreover have "\<exists>bl'. ban_load from_json (read_outcome_of (last trace) (ban_path bl)) (ban_path bl) = Inr bl' \<and> (saved \<longrightarrow> bl' = bl)"
      proof (cases saved)
        case True
        then show ?thesis using ban_save_load [of "env_to_json env" bl from_json os "s_fs s"] assms(1) save by auto
      next
        case False
        then have "read_file (last trace) (ban_path bl) = read_file (s_fs s) (ban_path bl)"
          using ban_save_failed [of "env_to_json env" bl os "s_fs s"] save by simp
        then show ?thesis using assms(2) False path by (auto simp: bans_on_disk_def read_outcome_of_def file_names)
      qed
      ultimately show ?thesis using assms(2) s' path by (simp add: bans_on_disk_def file_names)
    next
      case False
      then show ?thesis using assms(3) by (intro quiet) (cases c; auto simp: EvCommand case_prod_beta Let_def)+
    qed
  qed (rule quiet; use assms(3) in \<open>auto simp: tick_def manager_ingest_def Let_def split: prod.splits if_splits list.splits\<close>)+
qed

lemma header_step_files:
  assumes "bans_on_disk from_json cfg ok s" "store_run ser ho C (header_path cfg) [ev] (t, s_fs s) = Some (t', fs)"
  shows "bans_on_disk from_json cfg ok (s\<lparr>s_fs := fs\<rparr>)"
proof -
  have "read_file fs q = read_file (s_fs s) q" if q: "q \<noteq> header_path cfg" for q
  proof (cases ev)
    case (StoreTick os)
    obtain ok' t1 trace where save: "tree_save ser ho (header_path cfg) os t (s_fs s) = (ok', t1, trace)" by (metis prod_cases3)
    then have "fs = last trace" using assms(2) by (simp add: StoreTick persist_tick_def)
    then show ?thesis using tree_save_frame [OF save q] by simp
  qed (use assms(2) in \<open>auto split: option.splits\<close>)
  then have "bans_on_disk from_json cfg ok (s\<lparr>s_fs := fs\<rparr>) = bans_on_disk from_json cfg ok s"
    by (intro bans_kept) (simp_all add: file_names)
  with assms(1) show ?thesis by simp
qed

lemma run_files:
  assumes "header_codec ser de" "\<And>es bytes. env_to_json env es = Some bytes \<Longrightarrow> from_json bytes = Some es" "hash_order ho"
  shows "files_ok from_json cfg C de cps st \<Longrightarrow> list_all run_event_ok evs \<Longrightarrow> observer_run env ser ho C (header_path cfg) evs st = Some st'
    \<Longrightarrow> files_ok from_json cfg C de cps st'"
proof (induction evs arbitrary: st)
  case (Cons x evs)
  obtain ok s t where st: "st = (ok, s, t)" by (cases st)
  have ok: "sys_ok s" "bans_on_disk from_json cfg ok s" "store_inv C de cps (header_path cfg) (t, s_fs s)"
    using Cons.prems(1) by (simp_all add: files_ok_def st)
  show ?case
  proof (cases x)
    case (RunManager ev)
    then obtain ds s1 where step: "sys_step env ev s = Some (ds, s1)"
      "observer_run env ser ho C (header_path cfg) evs (ban_saved env ev s ok, s1, t) = Some st'"
      using Cons.prems(3) by (auto simp: st split: option.splits)
    note files = manager_step_files [OF assms(2) ok(2) step(1)]
    have "store_inv C de cps (header_path cfg) (t, s_fs s1)" using ok(3) files by (simp add: store_inv_def read_outcome_of_def)
    then have "files_ok from_json cfg C de cps (ban_saved env ev s ok, s1, t)"
      using files sys_step_ok [OF ok(1) _ step(1)] Cons.prems(2) RunManager by (simp add: files_ok_def)
    then show ?thesis using Cons.IH step(2) Cons.prems(2) by simp
  next
    case (RunHeaders ev)
    then obtain t1 fs where step: "store_run ser ho C (header_path cfg) [ev] (t, s_fs s) = Some (t1, fs)"
      "observer_run env ser ho C (header_path cfg) evs (ok, s\<lparr>s_fs := fs\<rparr>, t1) = Some st'"
      using Cons.prems(3) by (auto simp: st split: option.splits)
    have "store_inv C de cps (header_path cfg) (t1, fs)"
      using store_run_inv [OF assms(1,3) ok(3), of "[ev]"] step(1) by auto
    then have "files_ok from_json cfg C de cps (ok, s\<lparr>s_fs := fs\<rparr>, t1)"
      using header_step_files [OF ok(2) step(1)] ok(1) by (simp add: files_ok_def sys_ok_def)
    then show ?thesis using Cons.IH step(2) Cons.prems(2) by simp
  qed
qed simp

text \<open>A start without bootstrap peers leaves the files as they were and takes all it has from them.\<close>

lemma started_from_files:
  assumes "start_observer h cfg scripts fs = Started m w" "bootstrap_list h cfg = []" "network_magic cfg = Some net" "hash_order (h_order h)"
  obtains builtin configured where "builtin_checkpoints net = Some builtin" "configured_checkpoints cfg = Some configured"
    "files_ok (h_ban_json h) cfg (h_chain h net) (h_header_de h) (merge_checkpoints builtin configured) (True, sys_init m fs, w_tree w)"
proof -
  let ?mc = "manager_config cfg"
  obtain builtin configured t where b: "builtin_checkpoints net = Some builtin" "configured_checkpoints cfg = Some configured"
    and t: "tree_load (h_order h) (h_chain h net) (h_header_de h) (merge_checkpoints builtin configured) (read_outcome_of fs (header_path cfg)) = Some (Inr t)"
    and start: "start_manager h cfg fs (start_world h t) = Started m w"
    using assms(1-3) by (auto simp: start_observer_def Let_def split: option.splits sum.splits if_splits)
  obtain m' where new: "manager_new (h_sha3 h) (h_ban_json h) (h_snapshot h) ?mc (read_outcome_of fs (banlist_path ?mc))
      (read_outcome_of fs (snapshot_path ?mc)) (h_now h) = Inr m'" and m: "m = snd (manager_add_manual (h_now_seed h) [] m')" "w = start_world h t"
    using start by (auto simp: start_manager_def Let_def assms(2) split: sum.splits)
  have "m = m'" using m(1) by (simp add: manager_add_manual_def insert_manual_def)
  moreover obtain bl where "ban_load (h_ban_json h) (read_outcome_of fs (banlist_path ?mc)) (banlist_path ?mc) = Inr bl" "m_banlist m' = bl" "m_cfg m' = ?mc"
    using new by (auto simp: manager_new_def Let_def split: sum.splits prod.splits)
  moreover from this have "ban_path bl = banlist_path ?mc" using ban_load_path by blast
  ultimately have "bans_on_disk (h_ban_json h) cfg True (sys_init m fs)" by (simp add: bans_on_disk_def sys_init_def)
  moreover have "sys_ok (sys_init m fs)" using manager_new_ok [OF new] \<open>m = m'\<close> by (simp add: sys_ok_init)
  moreover have "store_inv (h_chain h net) (h_header_de h) (merge_checkpoints builtin configured) (header_path cfg) (w_tree w, fs)"
    using loaded_on_disk [OF assms(4) merge_checkpoints_distinct t] m(2) by (simp add: start_world_def)
  ultimately show ?thesis using b by (intro that) (simp_all add: files_ok_def sys_init_def)
qed

text \<open>A stop that succeeds leaves the three files as a start wants them.\<close>

lemma stop_leaves:
  assumes stop: "stop_observer to_bytes ser cfg ho tho os os' m t fs = (True, t', fs')" and "m_cfg m = manager_config cfg"
    and "header_codec ser de" "hash_order tho" "store_inv C de cps (header_path cfg) (t, fs)"
    and codec: "\<forall>snap bytes. to_bytes snap = Some bytes \<longrightarrow> from_bytes bytes = Some snap"
    and "hash_order ho" "hm_ok (entries (m_book m))"
  shows "on_disk C de cps t (read_outcome_of fs' (header_path cfg))"
    "read_file fs' (banlist_path (manager_config cfg)) = read_file fs (banlist_path (manager_config cfg))"
    "map_of (persist_load from_bytes (read_outcome_of fs' (snapshot_path (manager_config cfg)))) = map_of (entries (m_book m))"
proof -
  let ?p = "snapshot_path (manager_config cfg)" and ?d = "dir_of (network_dir cfg)"
  obtain n trace trace' where save: "persist_save to_bytes ho ?p (entries (m_book m)) os fs = (Inr n, trace)"
    and tree: "tree_save ser tho (header_path cfg) os' t (last trace) = (True, t', trace')" and fs': "fs' = last trace'"
    using stop assms(2) by (auto simp: stop_observer_def manager_save_def Let_def split: prod.splits sum.splits)
  have frame: "read_file (last trace) q = read_file fs q" if "q \<noteq> ?d @ ''addresses.bin''" "q \<noteq> ?d @ ''addresses.bin.tmp''" for q
    using snapshot_save_frame [OF _ that] save by (simp add: file_names)
  have frame': "read_file fs' q = read_file (last trace) q" if "q \<noteq> header_path cfg" for q
    using tree_save_frame [OF tree that] fs' by simp
  have ok: "tree_ok C t" "checkpoints t = sort_key cp_height cps" using assms(5) by (simp_all add: store_inv_def)
  show "on_disk C de cps t (read_outcome_of fs' (header_path cfg))"
  proof (cases "dirty t")
    case True
    have "read_file fs' (header_path cfg) = Some (save_bytes ser tho t)" using tree_save_ok(1) [OF tree True] by (simp add: fs')
    then show ?thesis by (rule saved_on_disk [OF assms(3,4) ok])
  next
    case False
    then have "fs' = last trace" using tree by (auto simp: tree_save_def fs')
    then have "read_file fs' (header_path cfg) = read_file fs (header_path cfg)" using frame by (simp add: file_names)
    then show ?thesis using assms(5) False by (simp add: store_inv_def read_outcome_of_def)
  qed
  show "read_file fs' (banlist_path (manager_config cfg)) = read_file fs (banlist_path (manager_config cfg))"
    using frame frame' by (simp add: file_names)
  have "read_outcome_of fs' ?p = read_outcome_of (last trace) ?p" using frame' [of ?p] by (simp add: read_outcome_of_def file_names)
  then show "map_of (persist_load from_bytes (read_outcome_of fs' ?p)) = map_of (entries (m_book m))"
    using persist_save_load(2) [OF _ assms(7,8) save] codec by simp
qed

text \<open>
  C18. A run that stops cleanly is picked up where it was. Whatever the files it started from, and whatever happens in it, in any order of the events of
  the manager, the batches of headers and the saves, any of which may fail: after a stop whose two saves succeed, the next start with the same
  configuration, on files nothing else has written, gets through, with the headers, the checkpoint reached and the work at the tip of the
  tree as it was, with every address its ban list does not ban and all that was known of it, and with nothing dialled. Its ban list is that of the
  run whenever the last ban, if there was one, was answered as saved. Neither start has bootstrap peers.
\<close>

theorem clean_shutdown_resumes:
  assumes "header_codec ser (h_header_de h)" "\<And>es bytes. env_to_json env es = Some bytes \<Longrightarrow> h_ban_json h bytes = Some es"
      "\<And>snap bytes. env_to_bytes env snap = Some bytes \<Longrightarrow> h_snapshot h bytes = Some snap"
    and "hash_order (h_order h0)" "hash_order (h_order h)" "hash_order tho" "hash_order ho"
    and "h_chain h0 = h_chain h" "h_header_de h0 = h_header_de h" "h_ban_json h0 = h_ban_json h"
    and "network_magic cfg = Some net" "start_observer h0 cfg scripts0 fs0 = Started m0 w0" "bootstrap_list h0 cfg = []"
    and "observer_run env ser tho (h_chain h net) (header_path cfg) evs (True, sys_init m0 fs0, w_tree w0) = Some (saved, s, t)" "list_all run_event_ok evs"
    and "stop_observer (env_to_bytes env) ser cfg ho tho os os' (s_manager s) t (s_fs s) = (True, t', fs')"
    and "prepare (of_nat (amc_max_dialing (se_addrman cfg))) (h_limits h) (h_raised h) (h_limits_after h) = Inr r"
      "h_datadir_ok h" "h_nats_ok h" "bootstrap_list h cfg = []"
  shows "\<exists>m w. start_observer h cfg scripts fs' = Started m w
    \<and> map_of (headers (w_tree w)) = map_of (headers t) \<and> reached_checkpoint (w_tree w) = reached_checkpoint t \<and> tip_work (w_tree w) = tip_work t
    \<and> (saved \<longrightarrow> m_banlist m = m_banlist (s_manager s)) \<and> m_cfg m = manager_config cfg \<and> active (m_book m) = []
    \<and> (\<forall>a. map_of (entries (m_book m)) a = (if ban_contains (h_sha3 h) (m_banlist m) a then None else map_of (entries (m_book (s_manager s))) a))"
proof -
  obtain builtin configured where cps: "builtin_checkpoints net = Some builtin" "configured_checkpoints cfg = Some configured"
    and "files_ok (h_ban_json h0) cfg (h_chain h0 net) (h_header_de h0) (merge_checkpoints builtin configured) (True, sys_init m0 fs0, w_tree w0)"
    by (rule started_from_files [OF assms(12,13,11,4)])
  then have start: "files_ok (h_ban_json h) cfg (h_chain h net) (h_header_de h) (merge_checkpoints builtin configured) (True, sys_init m0 fs0, w_tree w0)"
    by (simp only: assms(8-10))
  have ok: "files_ok (h_ban_json h) cfg (h_chain h net) (h_header_de h) (merge_checkpoints builtin configured) (saved, s, t)"
    by (rule run_files [OF assms(1) _ assms(6) start assms(15,14)]) (rule assms(2))
  have inv: "m_cfg (s_manager s) = manager_config cfg"
    "store_inv (h_chain h net) (h_header_de h) (merge_checkpoints builtin configured) (header_path cfg) (t, s_fs s)"
    using ok by (simp_all add: files_ok_def bans_on_disk_def)
  have "hm_ok (entries (m_book (s_manager s)))" "\<forall>snap bytes. env_to_bytes env snap = Some bytes \<longrightarrow> h_snapshot h bytes = Some snap"
    using ok sys_ok_manager [of s] assms(3) by (auto simp: files_ok_def manager_ok_def book_ok_def)
  note left = stop_leaves [OF assms(16) inv(1) assms(1,6) inv(2) this(2) assms(7) this(1)]
  obtain bl where bl: "ban_load (h_ban_json h) (read_outcome_of fs' (banlist_path (manager_config cfg))) (banlist_path (manager_config cfg)) = Inr bl"
    "saved \<longrightarrow> bl = m_banlist (s_manager s)"
    using ok left(2) by (auto simp: files_ok_def bans_on_disk_def read_outcome_of_def)
  obtain t1 where t1: "tree_load (h_order h) (h_chain h net) (h_header_de h) (merge_checkpoints builtin configured) (read_outcome_of fs' (header_path cfg))
      = Some (Inr t1)" "map_of (headers t1) = map_of (headers t)" "reached_checkpoint t1 = reached_checkpoint t" "tip_work t1 = tip_work t"
    using left(1) assms(5) unfolding on_disk_def by blast
  have "start_observer h cfg scripts fs' = start_manager h cfg fs' (start_world h t1)"
    by (rule start_from_files [OF assms(11) cps assms(17-20) t1(1)])
  then show ?thesis using manager_resumes [OF assms(20) bl(1) left(3), of "start_world h t1"] bl(2) t1(2-4)
    by (auto simp: start_world_def)
qed

text \<open>A first start on no files, an address added by hand, a ban, a save of the header tree, and a second start.\<close>

definition one_ban :: ban_entry where
  "one_ban = \<lparr>ban_comment = None, ban_nets = [\<lparr>net_addr = V6 (replicate 16 1), net_prefix_len = 32\<rparr>], ban_hosts = []\<rparr>"

definition one_entry :: "(peer_addr, entry) hashmap" where
  "one_entry = [(sample_addr, entry_new 1 0 Manual)]"

definition sample_host :: start_host where
  "sample_host =
     \<lparr>h_chain = (\<lambda>_. demo_chain), h_order = rev, h_sha3 = (\<lambda>_. []), h_codec = \<lparr>cd_u32 = (\<lambda>_. None), cd_u16 = (\<lambda>_. None), cd_compact = (\<lambda>_. None), cd_emit_compact = (\<lambda>_. []), cd_addr = (\<lambda>_. None)\<rparr>,
      h_max_inv = 50000, h_header_de = consensus_decode,
      h_ban_json = (\<lambda>bytes. if bytes = [91] then Some [one_ban] else None),
      h_snapshot = (\<lambda>bytes. if bytes = [1] then Some \<lparr>version = FORMAT_VERSION, snap_entries = one_entry\<rparr> else None),
      h_limits = Some (4096, 4096), h_raised = (\<lambda>_. True), h_limits_after = None, h_datadir_ok = True, h_nats_ok = True, h_now = 5000,
      h_now_seed = 5000, h_instance = 1\<rparr>"

definition sample_run_env :: env where
  "sample_run_env = \<lparr>env_sha3 = (\<lambda>_. []), env_to_json = (\<lambda>es. if es = [one_ban] then Some [91] else None),
     env_to_bytes = (\<lambda>snap. if snap = \<lparr>version = FORMAT_VERSION, snap_entries = one_entry\<rparr> then Some [1] else None)\<rparr>"

definition sample_run :: "run_event list" where
  "sample_run = [RunManager (EvCommand id [] 1 (AddManual [sample_addr])),
     RunManager (EvCommand id [CallOk, CallOk, CallOk, CallOk] 2 (Ban one_ban)), RunHeaders (StoreTick [])]"

definition regtest_settings :: settings where
  "regtest_settings = settings_default\<lparr>se_network := ''regtest''\<rparr>"

lemma sample_start_facts:
  "network_magic regtest_settings = Some Regtest" "builtin_checkpoints Regtest = Some []" "configured_checkpoints regtest_settings = Some []"
  "bootstrap_list sample_host regtest_settings = []" "h_datadir_ok sample_host" "h_nats_ok sample_host"
  "prepare (of_nat (amc_max_dialing (se_addrman regtest_settings))) (h_limits sample_host) (h_raised sample_host) (h_limits_after sample_host) = Inr (4096, 3832)"
  by (simp_all add: regtest_settings_def settings_default_def network_magic_def builtin_checkpoints_def configured_checkpoints_def bootstrap_list_def
      addrman_config_default_def default_max_dialing_def sample_host_def prepare_def plan_def fd_floor_def RESERVE_def sat_add_def sat_sub_def Let_def)

definition first_manager :: manager where
  "first_manager = \<lparr>m_book = book_new (cfg_capacity (manager_config regtest_settings)) 5000,
     m_banlist = \<lparr>ban_entries = [], ban_path = banlist_path (manager_config regtest_settings)\<rparr>, m_cfg = manager_config regtest_settings\<rparr>"

lemma sample_first_start:
  obtains t where "start_observer sample_host regtest_settings [] Map.empty = Started first_manager (start_world sample_host t)" "\<not> dirty t"
proof -
  obtain t where t: "with_checkpoints rev demo_chain [] = Some t" using with_checkpoints_ok [OF hash_order_rev, of "[]" demo_chain] by auto
  have "merge_checkpoints [] [] = []" by (simp add: merge_checkpoints_def)
  then have "start_observer sample_host regtest_settings [] Map.empty = start_manager sample_host regtest_settings Map.empty (start_world sample_host t)"
    using t by (intro start_from_files [OF sample_start_facts(1-3,7,5,6,4)])
      (simp add: tree_load_def read_outcome_of_def read_file_def sample_host_def)
  moreover have "start_manager sample_host regtest_settings Map.empty w = Started first_manager w" for w
    by (simp add: start_manager_def manager_new_def ban_load_def persist_load_def read_outcome_of_def read_file_def restore_def purge_banned_def
        manager_add_manual_def insert_manual_def sample_start_facts(4) first_manager_def Let_def) (simp add: sample_host_def book_new_def)
  ultimately show ?thesis using that with_checkpoints_order(4) [OF hash_order_rev hash_order_rev _ t] by simp
qed

definition later_manager :: manager where
  "later_manager = first_manager\<lparr>m_book := (m_book first_manager)\<lparr>entries := one_entry\<rparr>,
     m_banlist := (m_banlist first_manager)\<lparr>ban_entries := [one_ban]\<rparr>\<rparr>"

lemma not_banned: "\<not> ban_contains (\<lambda>_. []) \<lparr>ban_entries = [one_ban], ban_path = q\<rparr> sample_addr"
  by (simp add: ban_contains_iff one_ban_def sample_addr_def entry_bans_def net_contains.simps)

lemma sample_run_result:
  assumes "\<not> dirty t"
  obtains fs where "observer_run sample_run_env ser tho C p sample_run (True, sys_init first_manager Map.empty, t) = Some (True, sys_init later_manager fs, t)"
proof -
  let ?q = "banlist_path (manager_config regtest_settings)" and ?b = "book_new (cfg_capacity (manager_config regtest_settings)) 5000"
  let ?added = "first_manager\<lparr>m_book := ?b\<lparr>entries := one_entry\<rparr>\<rparr>"
  let ?saved = "ban_save (env_to_json sample_run_env) \<lparr>ban_entries = [one_ban], ban_path = ?q\<rparr> [CallOk, CallOk, CallOk, CallOk] Map.empty"
  have manual: "insert_manual 1 [sample_addr] (m_book first_manager) = (1, ?b\<lparr>entries := one_entry\<rparr>)"
    by (simp add: insert_manual_def insert_manual_one_def first_manager_def book_new_def one_entry_def)
  have ban: "ban_add \<lparr>ban_entries = [], ban_path = ?q\<rparr> one_ban = (1, \<lparr>ban_entries = [one_ban], ban_path = ?q\<rparr>)"
    by (simp add: ban_add_def Let_def one_ban_def)
  have purge: "purge_banned (\<lambda>_. []) \<lparr>ban_entries = [one_ban], ban_path = ?q\<rparr> (?b\<lparr>entries := one_entry\<rparr>) = (0, ?b\<lparr>entries := one_entry\<rparr>)"
    using not_banned [of ?q] by (simp add: purge_banned_def one_entry_def Let_def)
  have saved: "fst ?saved" by (simp add: ban_save_def sample_run_env_def save_unfold)
  have step: "sys_step sample_run_env (EvCommand id [] 1 (AddManual [sample_addr])) (sys_init first_manager Map.empty) = Some ([], sys_init ?added Map.empty)"
    using manual by (simp add: sys_init_def)
  have answer: "run_command (\<lambda>_. []) (env_to_json sample_run_env) id [CallOk, CallOk, CallOk, CallOk] 2 (Ban one_ban) ?added Map.empty =
      (RBan \<lparr>br_added = 1, br_purged = 0, br_saved = True\<rparr>, later_manager, snd ?saved)"
    using saved by (simp add: first_manager_def later_manager_def ban purge case_prod_beta del: One_nat_def)
  have sha3: "env_sha3 sample_run_env = (\<lambda>_. [])" by (simp add: sample_run_env_def)
  have "sys_step sample_run_env (EvCommand id [CallOk, CallOk, CallOk, CallOk] 2 (Ban one_ban)) (sys_init ?added Map.empty)
      = Some ([], sys_init later_manager (last (snd ?saved)))"
    unfolding sys_step.simps sys_init_def sys.simps sha3 answer by simp
  moreover have "ban_saved sample_run_env (EvCommand id [CallOk, CallOk, CallOk, CallOk] 2 (Ban one_ban)) (sys_init ?added Map.empty) ok" for ok
    unfolding ban_saved.simps sys_init_def sys.simps sha3 answer by simp
  moreover have "ban_saved sample_run_env (EvCommand id [] 1 (AddManual [sample_addr])) (sys_init first_manager Map.empty) True"
    using manual by (simp add: sys_init_def)
  ultimately show ?thesis using assms step
    by (intro that [of "last (snd ?saved)"])
      (simp add: sample_run_def persist_tick_def tree_save_def del: sys_step.simps ban_saved.simps)
qed

theorem clean_shutdown_resumes_witness:
  "\<exists>w s t t' fs' m w'. start_observer sample_host regtest_settings [] Map.empty = Started first_manager w
    \<and> observer_run sample_run_env consensus_encode id demo_chain (header_path regtest_settings) sample_run (True, sys_init first_manager Map.empty, w_tree w)
        = Some (True, s, t)
    \<and> stop_observer (env_to_bytes sample_run_env) consensus_encode regtest_settings id id [CallOk, CallOk, CallOk, CallOk] [] (s_manager s) t (s_fs s) = (True, t', fs')
    \<and> start_observer sample_host regtest_settings [] fs' = Started m w'
    \<and> map_of (entries (m_book m)) sample_addr = Some (entry_new 1 0 Manual) \<and> ban_entries (m_banlist m) = [one_ban]"
proof -
  obtain t where start: "start_observer sample_host regtest_settings [] Map.empty = Started first_manager (start_world sample_host t)" "\<not> dirty t"
    by (rule sample_first_start)
  let ?w = "start_world sample_host t" and ?p = "header_path regtest_settings"
  have tree: "w_tree ?w = t" by (simp add: start_world_def)
  obtain fs where run: "observer_run sample_run_env consensus_encode id demo_chain ?p sample_run (True, sys_init first_manager Map.empty, w_tree ?w)
      = Some (True, sys_init later_manager fs, t)"
    using sample_run_result [OF start(2)] unfolding tree by metis
  obtain t' fs' where stop: "stop_observer (env_to_bytes sample_run_env) consensus_encode regtest_settings id id [CallOk, CallOk, CallOk, CallOk] []
      (s_manager (sys_init later_manager fs)) t (s_fs (sys_init later_manager fs)) = (True, t', fs')"
    using start(2) by (simp add: stop_observer_def manager_save_def persist_save_def save_unfold tree_save_def sys_init_def later_manager_def sample_run_env_def)
  have codecs: "header_codec consensus_encode (h_header_de sample_host)" "hash_order (h_order sample_host)" "h_chain sample_host Regtest = demo_chain"
    using consensus.header_codec_axioms hash_order_rev by (simp_all add: sample_host_def)
  have json: "env_to_json sample_run_env es = Some bytes \<Longrightarrow> h_ban_json sample_host bytes = Some es"
    and snap: "env_to_bytes sample_run_env x = Some bytes \<Longrightarrow> h_snapshot sample_host bytes = Some x" for es x bytes
    by (auto simp: sample_run_env_def sample_host_def split: if_splits)
  have events: "list_all run_event_ok sample_run" by (simp add: sample_run_def)
  obtain m w' where next_start: "start_observer sample_host regtest_settings [] fs' = Started m w'"
    "m_banlist m = m_banlist later_manager"
    "map_of (entries (m_book m)) sample_addr = (if ban_contains (h_sha3 sample_host) (m_banlist m) sample_addr then None else map_of one_entry sample_addr)"
    using clean_shutdown_resumes [OF codecs(1) json snap codecs(2,2) hash_order_id hash_order_id refl refl refl sample_start_facts(1) start(1)
        sample_start_facts(4) run [folded codecs(3)] events stop sample_start_facts(7,5,6,4), of "[]"]
    by (auto simp: sys_init_def later_manager_def)
  have "\<not> ban_contains (h_sha3 sample_host) (m_banlist later_manager) sample_addr"
    using not_banned by (simp add: later_manager_def first_manager_def sample_host_def)
  then have "map_of (entries (m_book m)) sample_addr = Some (entry_new 1 0 Manual)" "ban_entries (m_banlist m) = [one_ban]"
    using next_start(2,3) by (simp_all add: one_entry_def later_manager_def)
  then show ?thesis using start(1) run stop next_start(1) by blast
qed

end
