(* ===== verification/Spec2Isabelle.thy ===== *)
theory Spec2Isabelle
  imports Attempt_Refines V1_Spec Tcp_Info Metrics_Spec Render Rpc_Spec Websocket_Spec Archive_Report Startup_Spec
begin

text \<open>
  The p2p-observer dials every node of a Bitcoin network it hears of, keeps the connection open, and publishes what the peers
  say. This development models the observer (\<^verbatim>\<open>src/observer\<close>) and the tools around it (\<^verbatim>\<open>src/tools\<close>), and proves what
  makes each part correct and what holds of them together. File names below are relative to \<^verbatim>\<open>src/\<close>.

  \<^bold>\<open>Parts and their interaction.\<close> The address manager owns the address book and the ban list. Once a tick it picks the
  addresses that are due and starts a connection task for each. A task connects, negotiates a transport, runs the
  handshake and the session, offers announced addresses to the manager through a bounded queue, reports its life through an
  unbounded one, works on the shared header tree, and hands events to the publisher. The archiver subscribes to what
  is published and writes it to files, which the replayer and the statistics read; the other consumers of what is published count it
  as metrics, relay it to browsers, write it as CSV or print it. Operators ask and instruct the running observer over RPC.

  \<^bold>\<open>Theories\<close>, in the order they build on each other:

  \<^item> \<^verbatim>\<open>Prelude\<close>: machine integers with Rust's saturating operations, \<^verbatim>\<open>HashMap\<close> as an association list whose iteration order is an
    argument, loops as folds. \<^verbatim>\<open>Ieee_Rounding\<close>: rounding to single precision, for the code that computes in \<^verbatim>\<open>f32\<close>.
  \<^item> \<^verbatim>\<open>Policy\<close> (\<^verbatim>\<open>observer/src/addresses/policy.rs\<close>): outcomes, classes, retry delays, jitter, the rule for forgetting. The delays are
    the documented table and the jitter stays within a tenth.
  \<^item> \<^verbatim>\<open>Peer_Addr\<close> (\<^verbatim>\<open>peer_addr.rs\<close>): addresses, normalisation, routability, base32 and onion names with their exact round trips, display.
  \<^item> \<^verbatim>\<open>Atomic_File\<close>: files, crashes and the write discipline of the next two. \<^verbatim>\<open>Banlist\<close> (\<^verbatim>\<open>banlist.rs\<close>): networks contain exactly
    their prefix, bans cover what they name, saving is atomic. \<^verbatim>\<open>Snapshot\<close> (\<^verbatim>\<open>persist.rs\<close>): the saved address book.
  \<^item> \<^verbatim>\<open>Sampling\<close>, \<^verbatim>\<open>Book\<close>, \<^verbatim>\<open>Book_Evict\<close>, \<^verbatim>\<open>Book_Pick\<close> (\<^verbatim>\<open>book.rs\<close>): the generator and the reservoirs, the book and its operations, what
    eviction may take, and the pick with its credits.
  \<^item> \<^verbatim>\<open>Manager\<close>, \<^verbatim>\<open>Dial_System\<close> (\<^verbatim>\<open>addresses/mod.rs\<close>): the manager's operations and the running system, a step function on events with
    runs as an inductive relation. The locale \<open>slot_table\<close> is the contract between the book and the tasks. \<^verbatim>\<open>Book_Origins\<close>:
    nothing gets into the book but what peers announce, operators type or a snapshot holds.
  \<^item> \<^verbatim>\<open>Refusals\<close>, \<^verbatim>\<open>Header_Tree\<close>, \<^verbatim>\<open>Header_Inv\<close>, \<^verbatim>\<open>Header_Insert\<close>, \<^verbatim>\<open>Header_Batch\<close>, \<^verbatim>\<open>Header_Serve\<close>, \<^verbatim>\<open>Header_Spec\<close>, \<^verbatim>\<open>Header_Held\<close>
    (\<^verbatim>\<open>headertree.rs\<close>): the tree, its invariant and that every insertion keeps it, what it serves. \<^verbatim>\<open>Header_Store\<close>, \<^verbatim>\<open>Store_Spec\<close>: the
    built-in checkpoints, saving, loading and the task that saves. A tree that is not dirty is on disk, in whatever order hash maps iterate.
  \<^item> \<^verbatim>\<open>Emit\<close> (\<^verbatim>\<open>emit.rs\<close>, \<^verbatim>\<open>tcp.rs\<close>): events and the bounded queue to the publisher. \<^verbatim>\<open>Session_Stats\<close>, \<^verbatim>\<open>Token_Bucket\<close>, \<^verbatim>\<open>Wire\<close>: the
    statistics of a session with the connection table (\<^verbatim>\<open>connections.rs\<close>), the rate limits, the messages.
  \<^item> \<^verbatim>\<open>Protocol\<close>, \<^verbatim>\<open>Session_Inv\<close>, \<^verbatim>\<open>Session_Spec\<close> (\<^verbatim>\<open>protocol.rs\<close>): every message handler, in a state monad with errors, and what no
    peer can do to a session. The locales \<open>quiet_frame\<close>, \<open>stats_frame\<close> and \<open>step_frame\<close> say which parts of a session a
    handler leaves alone.
  \<^item> \<^verbatim>\<open>Anyhow\<close>, \<^verbatim>\<open>Handshake\<close>, \<^verbatim>\<open>Attempt\<close>, \<^verbatim>\<open>Attempt_Spec\<close> (\<^verbatim>\<open>protocol.rs\<close>, \<^verbatim>\<open>connection.rs\<close>, \<^verbatim>\<open>lib.rs\<close>): error chains, the version
    handshake, an attempt from the socket to its report, the bootstrap sync. \<^verbatim>\<open>Attempt_Refines\<close>: an attempt is a task of
    the system of \<^verbatim>\<open>Dial_System\<close>.
  \<^item> \<^verbatim>\<open>V1_Transport\<close>, \<^verbatim>\<open>V1_Spec\<close> (\<^verbatim>\<open>transport.rs\<close>): the reader of the unencrypted transport as a state machine over chunks of bytes.
    \<^verbatim>\<open>Fd_Limit\<close> (\<^verbatim>\<open>fdlimit.rs\<close>): the plan for file descriptors.
  \<^item> \<^verbatim>\<open>Archive\<close>, \<^verbatim>\<open>Archive_Spec\<close>, \<^verbatim>\<open>Archive_Stats\<close> (\<^verbatim>\<open>tools/archive/src\<close>): the archiver with what its writer has pending, the reader and the statistics.
  \<^item> \<^verbatim>\<open>Addr_Text\<close>, \<^verbatim>\<open>Addr_Readback\<close> (\<^verbatim>\<open>peer_addr.rs\<close>, \<^verbatim>\<open>banlist.rs\<close>): addresses and networks read from text, with the standard library's
    parser of addresses, and that what is printed is read back.
  \<^item> \<^verbatim>\<open>Metrics_Registry\<close>, \<^verbatim>\<open>Metrics\<close>, \<^verbatim>\<open>Metrics_Spec\<close> (\<^verbatim>\<open>tools/metrics/src\<close>): the metrics, what each event does to them, and that no peer can
    make their number grow. The locales \<open>metric_handler\<close> and \<open>handler_pair\<close> are the contract of a handler of an event.
  \<^item> \<^verbatim>\<open>Csv\<close> (\<^verbatim>\<open>tools/csv/src/main.rs\<close>): the two files, which a reader by RFC 4180 reads back. \<^verbatim>\<open>Render\<close> (\<^verbatim>\<open>common/src/render.rs\<close>): an event
    as a line, which is one line.
  \<^item> \<^verbatim>\<open>Rpc\<close>, \<^verbatim>\<open>Rpc_Spec\<close> (\<^verbatim>\<open>observer/src/rpc.rs\<close>, \<^verbatim>\<open>tools/rpc/src/main.rs\<close>): both ends of a request. A request refused changes nothing,
    every subcommand is understood, bans hold, printed addresses can be asked about.
  \<^item> \<^verbatim>\<open>Websocket\<close>, \<^verbatim>\<open>Websocket_Spec\<close> (\<^verbatim>\<open>tools/websocket/src\<close>): the relay as a step function on inputs, with reachable states as an inductive
    predicate: bounded queues, only what was asked for, and what becomes of a slow client.

  \<^item> \<^verbatim>\<open>Archive_Report\<close> (\<^verbatim>\<open>tools/archive/src/stats.rs\<close>): the statistics as a report, whose columns line up and whose lines a peer can forge.
    \<^verbatim>\<open>Tcp_Info\<close> (\<^verbatim>\<open>observer/src/tcp.rs\<close>): a sample of what the kernel answers.
  \<^item> \<^verbatim>\<open>Settings\<close>, \<^verbatim>\<open>Startup\<close>, \<^verbatim>\<open>Startup_Spec\<close> (\<^verbatim>\<open>observer/src/settings.rs\<close>, \<^verbatim>\<open>lib.rs\<close>, \<^verbatim>\<open>publisher.rs\<close>): the configuration and its defaults,
    the start in its order with all that refuses it, the saves at the end, the subjects events are published under. A run, of the events
    of the manager and of the header tree on one file system, that stops cleanly is picked up where it was.

  This theory has the properties of the running system: no address has two tasks, ended tasks free their address, bans and
  operator addresses last, attempts refine tasks, and how many dials a tick may start.

  \<^bold>\<open>How the code is modelled.\<close> Structs are records, enums are datatypes, every operation is a function that returns the new state,
  errors are values and a panic is \<open>None\<close> or a constructor of its own. What the code does not decide is an argument: the clock,
  the outcome of each system call, the iteration order of a hash map, what a peer sends and which writes fail. Third-party code
  is a parameter with its documented laws as hypotheses: the hash, work and retarget rule of a header, SHA3, the encodings of
  \<^verbatim>\<open>postcard\<close>, JSON, protobuf and the p2p crate, zstd, the cipher. Where such laws are a locale it is interpreted on the documented
  encoding. Tasks interleave as events in any order; one handler runs without interruption, as it does under its locks and
  in its own task. Protobuf enumerations are closed datatypes, so numbers without a name are not covered, and a block hash in an event
  is the text the observer writes.

  \<^bold>\<open>Loops and bounds.\<close> Loops over lists are structural. The walks of the header tree are unbounded in the code, so they are partial
  functions and that they end is proved. The session, the handshake, the archiver and the reader take the list of what happens
  next; a list that runs out means that nothing has happened yet, and the properties hold for every list.
  Counters keep their width where they may wrap. Heights, chain work and the number of things held in memory are naturals.

  \<^bold>\<open>Not modelled.\<close> Sockets, the SOCKS and BIP-324 crates and the runtime's scheduling (scripted where their outcome matters); parsing of
  YAML and command lines, a third-party crate's; signals and the NATS client; the HTTP server of the metrics and the logger tool's loop; log
  lines; test support.
\<close>

section \<open>Counting the dials in flight\<close>

lemma dialing_count_card:
  assumes "hm_ok (active b)"
  shows "dialing_count b = card {a. map_of (active b) a = Some Dialing}"
proof -
  let ?xs = "filter (\<lambda>kv. snd kv = Dialing) (active b)"
  have "distinct (map fst ?xs)" using assms by (simp add: hm_ok_def distinct_map_filter)
  then have "length ?xs = card (fst ` set ?xs)" by (metis distinct_card length_map list.set_map)
  moreover have "fst ` set ?xs = {a. map_of (active b) a = Some Dialing}"
    using assms by (force simp: hm_get_iff)
  ultimately show ?thesis by (simp add: dialing_count_def filter_map comp_def)
qed

lemma finite_active: "finite {a. map_of (active b) a = Some Dialing}"
  by (rule finite_subset [OF _ finite_dom_map_of [of "active b"]]) auto

section \<open>A small deployment, for the witnesses\<close>

definition demo_env :: env where
  "demo_env = \<lparr>env_sha3 = (\<lambda>_. []), env_to_json = (\<lambda>_. Some [0]), env_to_bytes = (\<lambda>_. Some [1])\<rparr>"

definition demo_cfg :: config where
  "demo_cfg = \<lparr>dials_per_tick = 5, max_dialing = 10, cfg_capacity = 100, cfg_nets = all_nets,
     snapshot_path = ''addrman.bin'', banlist_path = ''banlist.json''\<rparr>"

definition demo_manager :: "ban_entry list \<Rightarrow> manager" where
  "demo_manager bans = \<lparr>m_book = book_new 100 1000, m_banlist = \<lparr>ban_entries = bans, ban_path = ''banlist.json''\<rparr>,
     m_cfg = demo_cfg\<rparr>"

lemma demo_manager_new:
  "manager_new (\<lambda>_. []) (\<lambda>_. Some bans) (\<lambda>_. None) demo_cfg (ReadOk []) ReadNotFound 1000 = Inr (demo_manager bans)"
  by (simp add: manager_new_def ban_load_def demo_manager_def demo_cfg_def persist_load_def restore_def
      purge_banned_def Let_def book_new_def)

text \<open>The operator adds an address, and the next tick dials it unless it is banned.\<close>

definition demo_added :: "ban_entry list \<Rightarrow> manager" where
  "demo_added bans =
     (demo_manager bans)\<lparr>m_book := (book_new 100 1000)\<lparr>entries := [(sample_addr, entry_new 1000 0 Manual)]\<rparr>\<rparr>"

definition demo_end :: "ban_entry list \<Rightarrow> sys" where
  "demo_end bans = (let (out, m) = tick (\<lambda>_. []) id 2000 (demo_added bans)
     in (sys_init (demo_added bans) Map.empty)\<lparr>s_manager := m, s_tasks := map d_addr out\<rparr>)"

definition demo_trace :: "ban_entry list \<Rightarrow> (event \<times> dial list) list" where
  "demo_trace bans = [(EvCommand id [] 1000 (AddManual [sample_addr]), []),
     (EvTick id 2000, fst (tick (\<lambda>_. []) id 2000 (demo_added bans)))]"

lemma demo_command:
  "sys_step demo_env (EvCommand id [] 1000 (AddManual [sample_addr])) (sys_init (demo_manager bans) Map.empty) =
     Some ([], sys_init (demo_added bans) Map.empty)"
  by (simp add: insert_manual_def insert_manual_one_def demo_manager_def demo_added_def sys_init_def book_new_def)

lemma demo_run1:
  "sys_run demo_env (sys_init (demo_manager bans) Map.empty)
     [(EvCommand id [] 1000 (AddManual [sample_addr]), [])] (sys_init (demo_added bans) Map.empty)"
  using run_step [OF run_refl _ demo_command] by simp

lemma demo_tick_step:
  "sys_step demo_env (EvTick id 2000) (sys_init (demo_added bans) Map.empty) =
     Some (fst (tick (\<lambda>_. []) id 2000 (demo_added bans)), demo_end bans)"
  by (simp add: demo_env_def demo_end_def sys_init_def case_prod_beta)

lemma demo_run2:
  "sys_run demo_env (sys_init (demo_added bans) Map.empty)
     [(EvTick id 2000, fst (tick (\<lambda>_. []) id 2000 (demo_added bans)))] (demo_end bans)"
  using run_step [OF run_refl _ demo_tick_step] by simp

lemma demo_run: "sys_run demo_env (sys_init (demo_manager bans) Map.empty) (demo_trace bans) (demo_end bans)"
  using run_step [OF demo_run1 _ demo_tick_step] by (simp add: demo_trace_def)

lemma demo_added_ok: "manager_ok (demo_added bans)"
  using book_ok_new [of 100 1000]
  by (simp add: manager_ok_def demo_added_def demo_manager_def book_ok_def hm_ok_def)

lemma demo_tick:
  obtains out m where "tick (\<lambda>_. []) id 2000 (demo_added []) = (out, m)" "map d_addr out = [sample_addr]"
proof -
  obtain out m where t: "tick (\<lambda>_. []) id 2000 (demo_added []) = (out, m)" by fastforce
  note p = tick_ok(4) [OF hash_order_id demo_added_ok t]
  have b: "book_ok (m_book (demo_added []))" "hm_ok (entries (m_book (demo_added [])))"
    using demo_added_ok by (auto simp: manager_ok_def book_ok_def)
  note ps = pick_picks(1) [OF hash_order_id b(1) p]
  have "length out = 1"
    using ps
    by (simp add: picks_def Let_def lane_dials_def tick_budget_def dialing_count_def demo_added_def demo_manager_def
        demo_cfg_def sample_addr_def entry_new_def dialable_def book_new_def contains_key_def all_nets_def
        ban_contains_def lane_of_def entry_class_def classify_def)
  moreover have "d_addr d = sample_addr" if "d \<in> set out" for d
    by (rule picks_dialable [OF b(2) ps that]) (simp add: demo_added_def split: if_splits)
  ultimately have "map d_addr out = [sample_addr]" by (auto simp: length_Suc_conv)
  with t show ?thesis by (rule that)
qed

lemma demo_end_facts [simp]: "s_tasks (demo_end []) = [sample_addr]" "s_life (demo_end []) = []"
  by (rule demo_tick; simp add: demo_end_def sys_init_def)+

section \<open>Properties of the running system\<close>

text \<open>
  C1. At no moment of any run of the address manager, from its start on, do two connection tasks exist for the
  same address, however ticks, gossip, commands, saves and the reports of the tasks interleave; and
  every address with a task is marked as in use in the book.
\<close>

theorem no_address_has_two_tasks:
  assumes "manager_new sha3 from_json from_bytes cfg ban_file snap_file now = Inr m"
    and "sys_run env (sys_init m fs) tr s"
  shows "distinct (s_tasks s) \<and> set (s_tasks s) \<subseteq> fst ` set (active (m_book (s_manager s)))"
  using slots.slots_ok_tasks sys_run_ok [OF assms(2) sys_ok_init] manager_new_ok(1,3) [OF assms(1)]
  unfolding sys_ok_def busy_addrs_def by blast

theorem no_address_has_two_tasks_witness:
  "s_tasks (demo_end []) = [sample_addr]
   \<and> set (s_tasks (demo_end [])) \<subseteq> fst ` set (active (m_book (s_manager (demo_end []))))"
  using no_address_has_two_tasks [OF demo_manager_new demo_run [of "[]"]] by simp

text \<open>
  C6. Refinement: an attempt, with all that the network and the peer may do in it, is a task of the system. What it does to
  the lifecycle queue and to the gossip queue is a run of the system from the state it finds, made only of events of the
  task of its address, which starts no dial and leaves the manager and the disk alone; at its end the task is gone. So
  whatever holds of every run of the system, that no address has two tasks among it, holds with real attempts as tasks.
\<close>

theorem attempts_refine_tasks:
  assumes "s_life s = w_life w" "s_gossip s = w_gossip w" "d_addr d \<in> set (s_tasks s)" "sys_ok s"
  shows "\<exists>tr s'. sys_run env s tr s'
    \<and> (\<forall>x \<in> set tr. task_event (d_addr d) (fst x) \<and> snd x = [])
    \<and> s_life s' = w_life (attempt en cfg cid d ats w) \<and> s_gossip s' = w_gossip (attempt en cfg cid d ats w)
    \<and> s_tasks s' = remove1 (d_addr d) (s_tasks s) \<and> s_manager s' = s_manager s \<and> s_fs s' = s_fs s
    \<and> sys_ok s' \<and> d_addr d \<notin> set (s_tasks s')"
proof -
  let ?w = "attempt en cfg cid d ats w"
  let ?s = "s\<lparr>s_tasks := remove1 (d_addr d) (s_tasks s), s_life := w_life ?w, s_gossip := w_gossip ?w\<rparr>"
  obtain tr where tr: "sys_run env s tr ?s" "\<forall>x \<in> set tr. task_event (d_addr d) (fst x) \<and> snd x = []"
    using attempt_task_run [OF assms(1-3), of env en cfg cid ats] by (auto simp: task_run_def)
  moreover have "sys_ok ?s" by (rule sys_run_ok [OF tr(1) assms(4)])
  moreover have "d_addr d \<notin> set (remove1 (d_addr d) (s_tasks s))"
    using assms(4) slots.slots_ok_tasks by (auto simp: sys_ok_def)
  ultimately show ?thesis by (intro exI [of _ tr] exI [of _ ?s]) simp
qed

theorem attempts_refine_tasks_witness:
  "\<exists>tr s'. sys_run demo_env (demo_end []) tr s'
    \<and> s_life s' = w_life (attempt sample_penv sample_pcfg 1 \<lparr>d_addr = sample_addr, d_transport = HintUnknown\<rparr> demo_attempt demo_world)
    \<and> s_tasks s' = []"
proof -
  let ?d = "\<lparr>d_addr = sample_addr, d_transport = HintUnknown\<rparr>"
  have "sys_ok (sys_init (demo_manager []) Map.empty)"
    using manager_new_ok(1,3) [OF demo_manager_new [of "[]"]] by (intro sys_ok_init)
  from sys_run_ok [OF demo_run this] have ok: "sys_ok (demo_end [])" .
  have "s_gossip (demo_end []) = []" by (simp add: demo_end_def sys_init_def case_prod_beta)
  then have "s_life (demo_end []) = w_life demo_world" "s_gossip (demo_end []) = w_gossip demo_world"
    "d_addr ?d \<in> set (s_tasks (demo_end []))" by (simp_all add: demo_world_def)
  from attempts_refine_tasks [OF this ok] show ?thesis by fastforce
qed

text \<open>
  C2. No address stays blocked for ever: one that is marked as in use has a task that still runs or an end
  report waiting in the queue, never both; once the queue is drained, the addresses in use are exactly those
  with a task, so every other one may be dialled again.
\<close>

theorem ended_tasks_free_their_address:
  assumes "manager_new sha3 from_json from_bytes cfg ban_file snap_file now = Inr m"
    and "sys_run env (sys_init m fs) tr s"
  shows "(\<forall>a \<in> fst ` set (active (m_book (s_manager s))).
      (a \<in> set (s_tasks s)) \<noteq> (\<exists>out. LEnded a out \<in> set (s_life s)))
    \<and> fst ` set (active (m_book (foldl (apply_msg t) (s_manager s) (s_life s)))) = set (s_tasks s)"
proof -
  have ok: "slots.slots_ok (s_manager s) (map slot_report_of (s_life s)) (s_tasks s)"
    using sys_run_ok [OF assms(2) sys_ok_init] manager_new_ok(1,3) [OF assms(1)] by (simp add: sys_ok_def)
  have ends: "SlotEnd a \<in> slot_report_of ` set (s_life s) \<longleftrightarrow> (\<exists>out. LEnded a out \<in> set (s_life s))" for a
    by (auto simp: image_iff elim!: slot_report_of.elims [OF sym]) (metis slot_report_of.simps(3))
  have "slots.slots_ok (foldl (apply_msg t) (s_manager s) (s_life s)) [] (s_tasks s)"
    using slots_ok_deliver [of "s_manager s" "s_life s" "[]" "s_tasks s" t] ok by simp
  then have "busy_addrs (foldl (apply_msg t) (s_manager s) (s_life s)) = set (s_tasks s)"
    by (simp add: slots.slots_ok_def)
  moreover have "(a \<in> set (s_tasks s)) \<noteq> (\<exists>out. LEnded a out \<in> set (s_life s))" if "a \<in> busy_addrs (s_manager s)" for a
    using slots.slots_ok_released [OF ok that] slots.slots_ok_once [OF ok, of a] ends [of a] by auto
  ultimately show ?thesis by (simp add: busy_addrs_def)
qed

theorem ended_tasks_free_their_address_witness:
  "fst ` set (active (m_book (s_manager (demo_end [])))) = {sample_addr}"
  using ended_tasks_free_their_address [OF demo_manager_new demo_run [of "[]"], THEN conjunct2] by simp

text \<open>
  C3. Once an address is covered by the ban list it is never dialled again in the rest of the run, whatever
  happens and whichever snapshot, gossip or command still names it.
\<close>

theorem banned_is_never_dialled:
  assumes "manager_new sha3 from_json from_bytes cfg ban_file snap_file now = Inr m"
    and "sys_run env (sys_init m fs) tr1 s1"
    and "ban_contains (env_sha3 env) (m_banlist (s_manager s1)) a"
    and "sys_run env s1 tr2 s2"
  shows "\<forall>(ev, ds) \<in> set tr2. a \<notin> d_addr ` set ds"
proof -
  have "sys_ok s1" using sys_run_ok [OF assms(2) sys_ok_init] manager_new_ok(1,3) [OF assms(1)] by blast
  from sys_run_never_dials_banned [OF assms(4) this assms(3)] show ?thesis .
qed

definition sample_ban :: ban_entry where
  "sample_ban = \<lparr>ban_comment = None, ban_nets = [\<lparr>net_addr = V4 [1, 2, 0, 0], net_prefix_len = 16\<rparr>], ban_hosts = []\<rparr>"

theorem banned_is_never_dialled_witness:
  "sys_run demo_env (sys_init (demo_manager [sample_ban]) Map.empty) (demo_trace [sample_ban]) (demo_end [sample_ban])
   \<and> sample_addr \<notin> d_addr ` set (concat (map snd (demo_trace [sample_ban])))"
proof -
  have "ban_contains (env_sha3 demo_env) (m_banlist (s_manager (sys_init (demo_manager [sample_ban]) Map.empty))) sample_addr"
    by code_simp
  from banned_is_never_dialled [OF demo_manager_new run_refl this demo_run] demo_run show ?thesis
    by fastforce
qed

text \<open>
  C4. An address the operator added stays in the book, as the operator's, through every run, until a ban covers
  it: no failure, forgetting, eviction or gossip removes or downgrades it.
\<close>

theorem operator_addresses_stay:
  assumes "manager_new sha3 from_json from_bytes cfg ban_file snap_file now = Inr m"
    and "sys_run env (sys_init m fs) tr1 s1" "sys_run env s1 tr2 s2"
    and "map_of (entries (m_book (s_manager s1))) a = Some e" "entry_origin e = Manual"
    and "\<not> ban_contains (env_sha3 env) (m_banlist (s_manager s2)) a"
  shows "\<exists>e'. map_of (entries (m_book (s_manager s2))) a = Some e' \<and> entry_origin e' = Manual"
proof -
  have "sys_ok s1" using sys_run_ok [OF assms(2) sys_ok_init] manager_new_ok(1,3) [OF assms(1)] by blast
  moreover have "manual_in (m_book (s_manager s1)) a" using assms(4,5) by (auto simp: manual_in_def)
  ultimately show ?thesis using sys_run_manual [OF assms(3)] assms(6) by (auto simp: manual_in_def)
qed

theorem operator_addresses_stay_witness:
  "\<exists>e. map_of (entries (m_book (s_manager (demo_end [])))) sample_addr = Some e \<and> entry_origin e = Manual"
proof -
  have "map_of (entries (m_book (s_manager (sys_init (demo_added []) Map.empty)))) sample_addr =
      Some (entry_new 1000 0 Manual)"
    by (simp add: sys_init_def demo_added_def)
  moreover have "\<not> ban_contains (env_sha3 demo_env) (m_banlist (s_manager (demo_end []))) sample_addr"
    by (simp add: demo_end_def sys_init_def tick_def demo_added_def demo_manager_def ban_contains_def case_prod_beta Let_def
        split: option.splits)
  ultimately show ?thesis
    using operator_addresses_stay [OF demo_manager_new demo_run1 demo_run2] by (simp add: entry_new_def)
qed

text \<open>
  C33. What one tick adds to the dials in flight: exactly the addresses it hands to the dialer, at most twice the
  budget left below the ceiling plus the limit on reconnects. With no room left below the ceiling it
  still dials the due reconnects, up to their limit, and nothing else; so the ceiling bounds all
  dials but those.
\<close>

theorem tick_stays_near_the_ceiling:
  assumes "hash_order ho" "manager_ok m"
  shows "dialing_count (m_book (snd (tick sha3 ho now m))) = dialing_count (m_book m) + length (fst (tick sha3 ho now m))
    \<and> length (fst (tick sha3 ho now m)) \<le> 2 * min (dials_per_tick (m_cfg m)) (max_dialing (m_cfg m) - dialing_count (m_book m)) + 25
    \<and> (max_dialing (m_cfg m) \<le> dialing_count (m_book m) \<longrightarrow>
         length (fst (tick sha3 ho now m)) =
           min 25 (length (lane_dials sha3 now (cfg_nets (m_cfg m)) (m_banlist m) (active (m_book m)) (entries (m_book m)) LaneReconnect)))"
proof -
  obtain out m' where t: "tick sha3 ho now m = (out, m')" by fastforce
  note p = tick_ok(4) [OF assms t]
  have b: "book_ok (m_book m)" "hm_ok (entries (m_book m))" "hm_ok (active (m_book m))"
    using assms(2) by (auto simp: manager_ok_def book_ok_def)
  note ps = pick_picks(1) [OF assms(1) b(1) p]
  have ok': "hm_ok (active (m_book m'))" using pick_after(1) [OF assms(1) b(1) p] by (simp add: book_ok_def)
  have fresh: "d_addr d \<notin> dom (map_of (active (m_book m)))" if "d \<in> set out" for d
    by (rule picks_dialable [OF b(2) ps that]) (auto simp: dialable_def contains_key_def)
  have "{a. map_of (active (m_book m')) a = Some Dialing} =
      {a. map_of (active (m_book m)) a = Some Dialing} \<union> d_addr ` set out"
    unfolding pick_after(2) [OF assms(1) b(1) p] by auto
  moreover have "{a. map_of (active (m_book m)) a = Some Dialing} \<inter> d_addr ` set out = {}" using fresh by auto
  moreover have "card (d_addr ` set out) = length out"
    using picks_distinct [OF b(2) ps] by (metis distinct_card length_map list.set_map)
  ultimately have "dialing_count (m_book m') = dialing_count (m_book m) + length out"
    unfolding dialing_count_card [OF ok'] dialing_count_card [OF b(3)]
    by (simp add: card_Un_disjoint finite_active)
  moreover have "length out \<le> 2 * tick_budget m + 25"
    using ps by (auto simp: picks_def Let_def MAX_RECONNECTS_PER_TICK_def)
  moreover have "length out = min 25 (length (lane_dials sha3 now (cfg_nets (m_cfg m)) (m_banlist m) (active (m_book m)) (entries (m_book m)) LaneReconnect))"
    if "max_dialing (m_cfg m) \<le> dialing_count (m_book m)"
    using ps that by (simp add: picks_def Let_def MAX_RECONNECTS_PER_TICK_def tick_budget_def)
  ultimately show ?thesis by (simp add: t tick_budget_def)
qed

theorem tick_stays_near_the_ceiling_witness:
  "dialing_count (m_book (snd (tick (\<lambda>_. []) id 2000 (demo_added [])))) =
     dialing_count (m_book (demo_added [])) + length (fst (tick (\<lambda>_. []) id 2000 (demo_added [])))"
  using tick_stays_near_the_ceiling [OF hash_order_id demo_added_ok] by blast

end
